(* ===== verification/Go_Prelude.thy ===== *)
theory Go_Prelude
  imports Main "HOL-Library.Char_ord" "HOL-Library.List_Lexorder"
begin

text \<open>
  The vocabulary the component theories share: Go's \<open>int64\<close>, the functions of Go's
  packages strings and strconv that the sources call, the time line, and the contract of a
  transition system with an invariant.

  A Go string is a byte string, a \<open>string\<close> (list of \<open>char\<close>) here. Case mapping and white
  space are those of ASCII: a byte of 128 and above belongs to a multi-byte UTF-8 sequence and
  is kept as it is. A missing index, \<open>-1\<close> in Go, is \<open>None\<close>. A point in time and a duration are
  \<open>int\<close>s, in nanoseconds; the zero \<open>time.Time\<close> that a source tests with \<open>IsZero\<close> is \<open>None\<close> of
  \<open>time option\<close>.
\<close>

named_theorems go_defs "definitions of the Go library functions, unfolded together"
named_theorems go_cut "how splitting a string finds the pieces that were joined"

type_synonym time = int
type_synonym duration = int

section \<open>Integers and durations\<close>

text \<open>The value an \<open>int64\<close> variable holds after an operation whose exact result is \<open>x\<close>.\<close>

definition int64 :: "int \<Rightarrow> int" where
  "int64 x = (x + 2 ^ 63) mod 2 ^ 64 - 2 ^ 63"

lemma int64_id: "- (2 ^ 63) \<le> x \<Longrightarrow> x < 2 ^ 63 \<Longrightarrow> int64 x = x"
  by (simp add: int64_def)

lemma int64_range: "- (2 ^ 63) \<le> int64 x \<and> int64 x < 2 ^ 63"
  by (simp add: int64_def)

definition second :: duration where "second = 1000000000"
definition minute :: duration where "minute = 60 * second"
definition hour :: duration where "hour = 60 * minute"

lemmas duration_defs = second_def minute_def hour_def

lemma duration_pos [simp]: "0 < second" "0 < minute" "0 < hour"
  by (simp_all add: duration_defs)

section \<open>Bytes\<close>

definition is_upper :: "char \<Rightarrow> bool" where
  "is_upper c \<longleftrightarrow> 65 \<le> (of_char c :: nat) \<and> (of_char c :: nat) \<le> 90"

definition is_lower :: "char \<Rightarrow> bool" where
  "is_lower c \<longleftrightarrow> 97 \<le> (of_char c :: nat) \<and> (of_char c :: nat) \<le> 122"

definition is_digit :: "char \<Rightarrow> bool" where
  "is_digit c \<longleftrightarrow> 48 \<le> (of_char c :: nat) \<and> (of_char c :: nat) \<le> 57"

definition is_space :: "char \<Rightarrow> bool" where
  "is_space c \<longleftrightarrow> (let n = (of_char c :: nat) in (9 \<le> n \<and> n \<le> 13) \<or> n = 32)"

definition is_control :: "char \<Rightarrow> bool" where
  "is_control c \<longleftrightarrow> (of_char c :: nat) < 32 \<or> (of_char c :: nat) = 127"

definition is_ascii :: "char \<Rightarrow> bool" where
  "is_ascii c \<longleftrightarrow> (of_char c :: nat) < 128"

definition lower_char :: "char \<Rightarrow> char" where
  "lower_char c = (if is_upper c then char_of ((of_char c :: nat) + 32) else c)"

definition upper_char :: "char \<Rightarrow> char" where
  "upper_char c = (if is_lower c then char_of ((of_char c :: nat) - 32) else c)"

lemma of_char_lt_256 [simp]: "(of_char c :: nat) < 256"
  by (simp add: of_char_def)

lemma of_char_char_of_small: "n < 256 \<Longrightarrow> (of_char (char_of n :: char) :: nat) = n"
  by (simp add: of_char_of)

lemma is_upper_lower_char [simp]: "\<not> is_upper (lower_char c)"
  by (auto simp: lower_char_def is_upper_def of_char_char_of_small)

lemma lower_char_idem [simp]: "lower_char (lower_char c) = lower_char c"
  by (simp add: lower_char_def [of "lower_char c"])

lemma lower_char_not_upper [simp]: "\<not> is_upper c \<Longrightarrow> lower_char c = c"
  by (simp add: lower_char_def)

section \<open>Package strings\<close>

definition to_lower :: "string \<Rightarrow> string" where
  "to_lower s = map lower_char s"

definition to_upper :: "string \<Rightarrow> string" where
  "to_upper s = map upper_char s"

definition equal_fold :: "string \<Rightarrow> string \<Rightarrow> bool" where
  "equal_fold s t \<longleftrightarrow> to_lower s = to_lower t"

fun index_byte :: "string \<Rightarrow> char \<Rightarrow> nat option" where
  "index_byte [] c = None"
| "index_byte (x # xs) c = (if x = c then Some 0 else map_option Suc (index_byte xs c))"

fun last_index_byte :: "string \<Rightarrow> char \<Rightarrow> nat option" where
  "last_index_byte [] c = None"
| "last_index_byte (x # xs) c =
     (case last_index_byte xs c of
        Some i \<Rightarrow> Some (Suc i)
      | None \<Rightarrow> if x = c then Some 0 else None)"

text \<open>\<open>strings.Cut\<close> around a one-byte separator: before, after, and whether it was found.\<close>

definition cut_byte :: "char \<Rightarrow> string \<Rightarrow> string \<times> string \<times> bool" where
  "cut_byte c s =
     (case index_byte s c of
        None \<Rightarrow> (s, [], False)
      | Some i \<Rightarrow> (take i s, drop (Suc i) s, True))"

fun split_byte :: "char \<Rightarrow> string \<Rightarrow> string list" where
  "split_byte c [] = [[]]"
| "split_byte c (x # xs) =
     (if x = c then [] # split_byte c xs
      else (case split_byte c xs of [] \<Rightarrow> [[x]] | p # ps \<Rightarrow> (x # p) # ps))"

text \<open>\<open>strings.SplitN\<close> with a positive limit and a one-byte separator.\<close>

fun split_n :: "nat \<Rightarrow> char \<Rightarrow> string \<Rightarrow> string list" where
  "split_n 0 c s = []"
| "split_n (Suc 0) c s = [s]"
| "split_n (Suc (Suc n)) c s =
     (case index_byte s c of
        None \<Rightarrow> [s]
      | Some i \<Rightarrow> take i s # split_n (Suc n) c (drop (Suc i) s))"

fun join :: "string \<Rightarrow> string list \<Rightarrow> string" where
  "join sep [] = []"
| "join sep [s] = s"
| "join sep (s # t # ss) = s @ sep @ join sep (t # ss)"

fun has_prefix :: "string \<Rightarrow> string \<Rightarrow> bool" where
  "has_prefix s [] = True"
| "has_prefix [] (p # ps) = False"
| "has_prefix (x # xs) (p # ps) = (x = p \<and> has_prefix xs ps)"

definition has_suffix :: "string \<Rightarrow> string \<Rightarrow> bool" where
  "has_suffix s p = has_prefix (rev s) (rev p)"

definition trim_prefix :: "string \<Rightarrow> string \<Rightarrow> string" where
  "trim_prefix s p = (if has_prefix s p then drop (length p) s else s)"

definition trim_suffix :: "string \<Rightarrow> string \<Rightarrow> string" where
  "trim_suffix s p = (if has_suffix s p then take (length s - length p) s else s)"

fun index_sub :: "string \<Rightarrow> string \<Rightarrow> nat option" where
  "index_sub [] p = (if p = [] then Some 0 else None)"
| "index_sub (x # xs) p =
     (if has_prefix (x # xs) p then Some 0 else map_option Suc (index_sub xs p))"

definition contains :: "string \<Rightarrow> string \<Rightarrow> bool" where
  "contains s p \<longleftrightarrow> index_sub s p \<noteq> None"

definition contains_any :: "string \<Rightarrow> string \<Rightarrow> bool" where
  "contains_any s cs \<longleftrightarrow> list_ex (\<lambda>c. c \<in> set cs) s"

definition trim_with :: "(char \<Rightarrow> bool) \<Rightarrow> string \<Rightarrow> string" where
  "trim_with f s = rev (dropWhile f (rev (dropWhile f s)))"

definition trim_space :: "string \<Rightarrow> string" where
  "trim_space s = trim_with is_space s"

text \<open>\<open>strings.Trim(s, cutset)\<close>.\<close>

definition trim_set :: "string \<Rightarrow> string \<Rightarrow> string" where
  "trim_set s cs = trim_with (\<lambda>c. c \<in> set cs) s"

fun fields_from :: "string \<Rightarrow> string \<Rightarrow> string list" where
  "fields_from w [] = (if w = [] then [] else [w])"
| "fields_from w (c # cs) =
     (if is_space c
      then (if w = [] then fields_from [] cs else w # fields_from [] cs)
      else fields_from (w @ [c]) cs)"

definition str_fields :: "string \<Rightarrow> string list" where
  "str_fields s = fields_from [] s"

section \<open>Package strconv\<close>

definition digit_char :: "nat \<Rightarrow> char" where
  "digit_char d = char_of (48 + d)"

fun nat_dec :: "nat \<Rightarrow> string" where
  "nat_dec n = (if n < 10 then [digit_char n] else nat_dec (n div 10) @ [digit_char (n mod 10)])"

declare nat_dec.simps [simp del]

definition int_dec :: "int \<Rightarrow> string" where
  "int_dec i = (if i < 0 then ''-'' @ nat_dec (nat (- i)) else nat_dec (nat i))"

definition digits_value :: "string \<Rightarrow> nat" where
  "digits_value s = foldl (\<lambda>n c. 10 * n + ((of_char c :: nat) - 48)) 0 s"

text \<open>\<open>strconv.Atoi\<close>: an optional sign and decimal digits, within \<open>int64\<close>.\<close>

definition atoi :: "string \<Rightarrow> int option" where
  "atoi s =
     (let (neg, ds) = (case s of
            [] \<Rightarrow> (False, [])
          | c # cs \<Rightarrow> if c = CHR ''-'' then (True, cs) else if c = CHR ''+'' then (False, cs) else (False, s))
      in if ds = [] \<or> \<not> list_all is_digit ds then None
         else let v = (if neg then - int (digits_value ds) else int (digits_value ds))
              in if - (2 ^ 63) \<le> v \<and> v < 2 ^ 63 then Some v else None)"

lemmas go_string_defs [go_defs] =
  to_lower_def to_upper_def equal_fold_def cut_byte_def has_suffix_def trim_prefix_def
  trim_suffix_def contains_def contains_any_def trim_with_def trim_space_def trim_set_def
  str_fields_def

section \<open>Lemmas on indices and pieces\<close>

lemma index_byte_None: "index_byte s c = None \<longleftrightarrow> c \<notin> set s"
  by (induction s) auto

lemma last_index_byte_None: "last_index_byte s c = None \<longleftrightarrow> c \<notin> set s"
  by (induction s) (auto split: option.splits)

lemma index_byte_absent [simp]: "c \<notin> set s \<Longrightarrow> index_byte s c = None"
  by (simp add: index_byte_None)

lemma last_index_byte_absent [simp]: "c \<notin> set s \<Longrightarrow> last_index_byte s c = None"
  by (simp add: last_index_byte_None)

lemma index_byte_Some:
  "index_byte s c = Some i \<Longrightarrow> s = take i s @ c # drop (Suc i) s \<and> c \<notin> set (take i s)"
proof (induction s arbitrary: i)
  case (Cons x xs)
  then show ?case by (cases "x = c") (auto simp: take_Cons split: nat.splits)
qed simp

lemma last_index_byte_Some:
  "last_index_byte s c = Some i \<Longrightarrow>
     i < length s \<and> s = take i s @ c # drop (Suc i) s \<and> c \<notin> set (drop (Suc i) s)"
proof (induction s arbitrary: i)
  case (Cons x xs)
  show ?case
  proof (cases "last_index_byte xs c")
    case None
    then have "c \<notin> set xs" by (simp add: last_index_byte_None)
    with None Cons.prems show ?thesis by (simp split: if_splits)
  next
    case (Some j)
    with Cons show ?thesis by auto
  qed
qed simp

lemma index_byte_append [go_cut]: "c \<notin> set a \<Longrightarrow> index_byte (a @ c # b) c = Some (length a)"
  by (induction a) auto

lemma last_index_byte_append [go_cut]:
  "c \<notin> set b \<Longrightarrow> last_index_byte (a @ c # b) c = Some (length a)"
proof (induction a)
  case Nil
  then have "last_index_byte b c = None" by simp
  then show ?case by simp
next
  case (Cons x xs)
  then show ?case by simp
qed

lemma cut_byte_append [go_cut]: "c \<notin> set a \<Longrightarrow> cut_byte c (a @ c # b) = (a, b, True)"
  by (simp add: cut_byte_def index_byte_append)

lemma cut_byte_none [go_cut]: "c \<notin> set a \<Longrightarrow> cut_byte c a = (a, [], False)"
  by (simp add: cut_byte_def)

lemma cut_byte_found: "cut_byte c s = (a, b, True) \<longleftrightarrow> s = a @ c # b \<and> c \<notin> set a"
proof
  assume "cut_byte c s = (a, b, True)"
  then obtain i where i: "index_byte s c = Some i" "a = take i s" "b = drop (Suc i) s"
    by (auto simp: cut_byte_def split: option.splits)
  with index_byte_Some [OF i(1)] show "s = a @ c # b \<and> c \<notin> set a" by simp
qed (simp add: cut_byte_append)

lemma cut_byte_missing: "cut_byte c s = (a, b, False) \<longleftrightarrow> s = a \<and> b = [] \<and> c \<notin> set s"
  using index_byte_None [of s c] by (auto simp: cut_byte_def split: option.splits)

lemma set_join: "set (join sep ps) \<subseteq> set sep \<union> \<Union>(set ` set ps)"
  by (induction sep ps rule: join.induct) auto

lemma split_byte_not_Nil [simp]: "split_byte c s \<noteq> []"
  by (induction s) (auto split: list.splits)

lemma split_byte_none [go_cut]: "c \<notin> set a \<Longrightarrow> split_byte c a = [a]"
  by (induction a) auto

lemma split_byte_append [go_cut]: "c \<notin> set a \<Longrightarrow> split_byte c (a @ c # b) = a # split_byte c b"
  by (induction a) auto

lemma split_byte_parts: "p \<in> set (split_byte c s) \<Longrightarrow> c \<notin> set p \<and> set p \<subseteq> set s"
proof (induction s arbitrary: p)
  case (Cons x xs)
  show ?case
  proof (cases "split_byte c xs")
    case Nil
    then show ?thesis by simp
  next
    case (Cons q qs)
    with Cons.IH Cons.prems show ?thesis by (auto split: if_splits) blast+
  qed
qed simp

lemma split_byte_join:
  "ps \<noteq> [] \<Longrightarrow> \<forall>p \<in> set ps. c \<notin> set p \<Longrightarrow> split_byte c (join [c] ps) = ps"
proof (induction "[c]" ps rule: join.induct)
  case (3 s t ss)
  then show ?case by (simp add: split_byte_append)
qed (auto simp: split_byte_none)

lemma join_split_byte: "join [c] (split_byte c s) = s"
proof (induction s)
  case (Cons x xs)
  show ?case
  proof (cases "split_byte c xs")
    case Nil
    then show ?thesis by simp
  next
    case (Cons p ps)
    with Cons.IH show ?thesis by (cases ps) auto
  qed
qed simp

lemma to_lower_idem [simp]: "to_lower (to_lower s) = to_lower s"
  by (simp add: to_lower_def)

lemma to_lower_length [simp]: "length (to_lower s) = length s"
  by (simp add: to_lower_def)

lemma to_lower_Nil [simp]: "to_lower s = [] \<longleftrightarrow> s = []"
  by (simp add: to_lower_def)

lemma to_lower_append: "to_lower (s @ t) = to_lower s @ to_lower t"
  by (simp add: to_lower_def)

lemma equal_fold_refl [simp]: "equal_fold s s"
  by (simp add: equal_fold_def)

lemma has_prefix_append [simp]: "has_prefix (p @ s) p"
  by (induction p) auto

lemma has_prefix_iff: "has_prefix s p \<longleftrightarrow> (\<exists>t. s = p @ t)"
  by (induction s p rule: has_prefix.induct) auto

lemma has_suffix_iff: "has_suffix s p \<longleftrightarrow> (\<exists>t. s = t @ p)"
proof -
  have "has_suffix s p \<longleftrightarrow> (\<exists>t. rev s = rev p @ t)"
    by (simp add: has_suffix_def has_prefix_iff)
  also have "\<dots> \<longleftrightarrow> (\<exists>t. s = t @ p)"
    by (metis rev_append rev_rev_ident)
  finally show ?thesis .
qed

lemma index_sub_append: "index_sub (a @ p @ b) p \<noteq> None"
proof (induction a)
  case Nil
  have "has_prefix (p @ b) p" by simp
  then show ?case by (cases "p @ b") (auto simp del: has_prefix_append)
qed auto

lemma contains_append: "contains (a @ p @ b) p"
  by (simp add: contains_def index_sub_append del: not_None_eq)

lemma contains_any_not: "\<not> contains_any s cs \<Longrightarrow> c \<in> set cs \<Longrightarrow> c \<notin> set s"
  by (auto simp: contains_any_def list_ex_iff)

lemma dropWhile_rev_id:
  "s = [] \<or> \<not> f (last s) \<Longrightarrow> rev (dropWhile f (rev s)) = s"
  by (cases s rule: rev_cases) auto

lemma trim_with_id: "s = [] \<or> (\<not> f (hd s) \<and> \<not> f (last s)) \<Longrightarrow> trim_with f s = s"
proof -
  assume ends: "s = [] \<or> (\<not> f (hd s) \<and> \<not> f (last s))"
  then have "dropWhile f s = s" by (cases s) auto
  with ends show ?thesis by (auto simp: trim_with_def dropWhile_rev_id)
qed

lemma set_trim_with: "set (trim_with f s) \<subseteq> set s"
  unfolding trim_with_def by (auto dest!: set_dropWhileD)

lemma trim_with_ends: "trim_with f s \<noteq> [] \<Longrightarrow> \<not> f (hd (trim_with f s)) \<and> \<not> f (last (trim_with f s))"
proof -
  assume nonempty: "trim_with f s \<noteq> []"
  define t where "t = dropWhile f s"
  have tw: "trim_with f s = rev (dropWhile f (rev t))"
    by (simp add: trim_with_def t_def)
  from nonempty tw have ne: "dropWhile f (rev t) \<noteq> []" by simp
  then have "\<not> f (hd (dropWhile f (rev t)))" by (rule hd_dropWhile)
  with tw ne have l: "\<not> f (last (trim_with f s))" by (simp add: last_rev)
  obtain u where u: "rev t = u @ dropWhile f (rev t)"
    by (metis takeWhile_dropWhile_id)
  then have "t = rev (dropWhile f (rev t)) @ rev u"
    by (metis rev_append rev_rev_ident)
  then have "hd t = hd (trim_with f s)"
    using tw nonempty by (metis hd_append2)
  moreover have "t \<noteq> []" using ne by auto
  ultimately have "\<not> f (hd (trim_with f s))"
    using hd_dropWhile [of f s] t_def by auto
  with l show ?thesis by simp
qed

lemma trim_with_idem: "trim_with f (trim_with f s) = trim_with f s"
  by (rule trim_with_id) (use trim_with_ends in blast)

lemma trim_with_Nil: "trim_with f s = [] \<Longrightarrow> x \<in> set s \<Longrightarrow> f x"
proof -
  assume "trim_with f s = []" and x: "x \<in> set s"
  then have all: "\<forall>y \<in> set (dropWhile f s). f y" by (simp add: trim_with_def dropWhile_eq_Nil_conv)
  have "x \<in> set (takeWhile f s) \<or> x \<in> set (dropWhile f s)"
    using x by (metis Un_iff set_append takeWhile_dropWhile_id)
  with all show "f x" using set_takeWhileD by fast
qed

lemma trim_set_Nil: "trim_set s cs = [] \<Longrightarrow> set s \<subseteq> set cs"
  using trim_with_Nil [of "\<lambda>c. c \<in> set cs" s] by (auto simp: trim_set_def)

section \<open>Fields\<close>

lemma fields_from_word: "list_all (\<lambda>c. \<not> is_space c) a \<Longrightarrow> fields_from w (a @ s) = fields_from (w @ a) s"
  by (induction a arbitrary: w) auto

lemma fields_word [go_cut]:
  "a \<noteq> [] \<Longrightarrow> list_all (\<lambda>c. \<not> is_space c) a \<Longrightarrow> str_fields a = [a]"
  using fields_from_word [of a "[]" "[]"] by (simp add: str_fields_def)

lemma fields_word_space [go_cut]:
  "a \<noteq> [] \<Longrightarrow> list_all (\<lambda>c. \<not> is_space c) a \<Longrightarrow> is_space c \<Longrightarrow>
     str_fields (a @ c # s) = a # str_fields s"
  using fields_from_word [of a "[]" "c # s"] by (simp add: str_fields_def)

lemma fields_space [go_cut]: "is_space c \<Longrightarrow> str_fields (c # s) = str_fields s"
  by (simp add: str_fields_def)

lemma fields_spaces: "list_all is_space s \<Longrightarrow> str_fields (s @ t) = str_fields t"
  by (induction s) (auto simp: fields_space)

lemma fields_last:
  assumes "w \<noteq> []" "list_all (\<lambda>c. \<not> is_space c) w" "list_all is_space post"
  shows "str_fields (w @ post) = [w]"
proof (cases post)
  case (Cons c cs)
  with assms have "str_fields (w @ post) = w # str_fields cs" by (simp add: fields_word_space)
  moreover have "str_fields cs = []" using fields_spaces [of cs "[]"] assms(3) Cons by (simp add: str_fields_def)
  ultimately show ?thesis by simp
qed (use assms in \<open>simp add: fields_word\<close>)

lemma fields_from_no_space:
  "p \<in> set (fields_from w s) \<Longrightarrow> list_all (\<lambda>c. \<not> is_space c) w \<Longrightarrow>
     p \<noteq> [] \<and> list_all (\<lambda>c. \<not> is_space c) p \<and> set p \<subseteq> set w \<union> set s"
proof (induction w s arbitrary: p rule: fields_from.induct)
  case (1 w)
  then show ?case by (auto split: if_splits)
next
  case (2 w c cs)
  show ?case
  proof (cases "is_space c")
    case True
    with 2 show ?thesis by (cases "w = []") fastforce+
  next
    case False
    with 2 show ?thesis by fastforce
  qed
qed

lemma fields_no_space:
  "p \<in> set (str_fields s) \<Longrightarrow> p \<noteq> [] \<and> list_all (\<lambda>c. \<not> is_space c) p \<and> set p \<subseteq> set s"
  using fields_from_no_space [of p "[]" s] by (simp add: str_fields_def)

lemma fields_from_Nil: "fields_from w s = [] \<Longrightarrow> w = [] \<and> list_all is_space s"
  by (induction w s rule: fields_from.induct) (auto split: if_splits)

lemma fields_from_one:
  "fields_from w s = [p] \<Longrightarrow>
     if w = [] then \<exists>a b. s = a @ p @ b \<and> list_all is_space a \<and> list_all is_space b
     else \<exists>u b. p = w @ u \<and> s = u @ b \<and> list_all is_space b"
proof (induction w s rule: fields_from.induct)
  case (2 w c cs)
  show ?case
  proof (cases "is_space c")
    case sp: True
    show ?thesis
    proof (cases "w = []")
      case True
      with 2 sp obtain a b where "cs = a @ p @ b" "list_all is_space a" "list_all is_space b" by auto
      with sp have "c # cs = (c # a) @ p @ b \<and> list_all is_space (c # a) \<and> list_all is_space b" by simp
      then show ?thesis unfolding if_P [OF True] by blast
    next
      case False
      with 2 sp show ?thesis by (auto dest!: fields_from_Nil intro!: exI [of _ "c # cs"])
    qed
  next
    case False
    with 2 obtain u b where "p = w @ c # u" "cs = u @ b" "list_all is_space b" by auto
    then show ?thesis
      by (cases "w = []") (simp_all, (rule exI [of _ "[]"] exI [of _ "c # u"], simp)+)
  qed
qed (auto split: if_splits)

lemma trim_spaced:
  assumes "w \<noteq> []" "\<not> is_space (hd w)" "\<not> is_space (last w)" "list_all is_space a" "list_all is_space b"
  shows "trim_space (a @ w @ b) = w"
proof -
  have "dropWhile is_space (a @ w @ b) = w @ b"
    using assms by (cases w) (auto simp: list_all_iff dropWhile_append2)
  moreover have "dropWhile is_space (rev b @ rev w) = rev w"
    using assms by (subst dropWhile_append2)
      (auto simp: list_all_iff dropWhile_eq_self_iff hd_rev)
  ultimately show ?thesis by (simp add: trim_space_def trim_with_def)
qed

text \<open>A string with one field is that field with white space around it.\<close>

lemma fields_trim_one: "str_fields s = [w] \<Longrightarrow> trim_space s = w"
proof -
  assume f: "str_fields s = [w]"
  then obtain a b where "s = a @ w @ b" "list_all is_space a" "list_all is_space b"
    using fields_from_one [of "[]" s w] by (auto simp: str_fields_def)
  moreover have "w \<noteq> []" "list_all (\<lambda>c. \<not> is_space c) w"
    using fields_no_space [of w s] f by auto
  ultimately show ?thesis by (auto simp: list_all_iff intro!: trim_spaced)
qed

lemma fields_join_first:
  assumes "w \<noteq> []" "list_all (\<lambda>c. \<not> is_space c) w"
  shows "\<exists>ws. str_fields (join '' '' (w # ps)) = w # ws"
proof (cases ps)
  case Nil
  with assms show ?thesis by (simp add: fields_word)
next
  case (Cons q qs)
  have "is_space (CHR '' '')" by (simp add: is_space_def)
  with Cons assms show ?thesis by (simp add: fields_word_space)
qed

section \<open>Transition systems\<close>

text \<open>
  The states a component can reach. A component theory interprets the locale on its own step
  relation: its proof is that the start states and every step keep the invariant.
\<close>

inductive reach :: "('s \<Rightarrow> bool) \<Rightarrow> ('s \<Rightarrow> 's \<Rightarrow> bool) \<Rightarrow> 's \<Rightarrow> bool"
  for start :: "'s \<Rightarrow> bool" and step :: "'s \<Rightarrow> 's \<Rightarrow> bool" where
  reach_start: "start s \<Longrightarrow> reach start step s"
| reach_step: "reach start step s \<Longrightarrow> step s t \<Longrightarrow> reach start step t"

locale invariant_system =
  fixes start :: "'s \<Rightarrow> bool"
    and step :: "'s \<Rightarrow> 's \<Rightarrow> bool"
    and inv :: "'s \<Rightarrow> bool"
  assumes start_inv: "start s \<Longrightarrow> inv s"
    and step_inv: "step s t \<Longrightarrow> inv s \<Longrightarrow> inv t"
begin

lemma reach_inv: "reach start step s \<Longrightarrow> inv s"
  by (induction rule: reach.induct) (auto intro: start_inv step_inv)

lemma steps_inv: "step\<^sup>*\<^sup>* s t \<Longrightarrow> inv s \<Longrightarrow> inv t"
  by (induction rule: rtranclp_induct) (auto intro: step_inv)

end

end
