(* ===== verification/Go_Utf8.thy ===== *)
theory Go_Utf8
  imports Go_Prelude
begin

text \<open>
  UTF-8 as Go's package unicode/utf8 and its \<open>for range\<close> over a string read it. A byte that
  starts no well-formed sequence is read as the one-byte replacement rune U+FFFD, and writing
  that rune back writes the three bytes EF BF BD. Runes are natural numbers.
\<close>

abbreviation bcode :: "char \<Rightarrow> nat" where "bcode c \<equiv> of_char c"

definition rune_error :: nat where "rune_error = 65533"

definition cont_byte :: "char \<Rightarrow> bool" where
  "cont_byte c \<longleftrightarrow> 128 \<le> bcode c \<and> bcode c \<le> 191"

text \<open>The range of the second byte of a sequence, by its first (utf8.acceptRanges).\<close>

definition second_ok :: "nat \<Rightarrow> char \<Rightarrow> bool" where
  "second_ok b c \<longleftrightarrow>
     (if b = 224 then 160 \<le> bcode c \<and> bcode c \<le> 191
      else if b = 237 then 128 \<le> bcode c \<and> bcode c \<le> 159
      else if b = 240 then 144 \<le> bcode c \<and> bcode c \<le> 191
      else if b = 244 then 128 \<le> bcode c \<and> bcode c \<le> 143
      else cont_byte c)"

text \<open>
  \<open>utf8.DecodeRuneInString\<close>: the rune at the start and its width, \<open>None\<close> for an ill-formed
  start, which Go answers as \<open>(RuneError, 1)\<close>, and for the empty string.
\<close>

definition decode_rune :: "string \<Rightarrow> (nat \<times> nat) option" where
  "decode_rune s =
     (case s of
        [] \<Rightarrow> None
      | c # cs \<Rightarrow>
          (let b = bcode c in
           if b < 128 then Some (b, 1)
           else if 194 \<le> b \<and> b \<le> 223 then
             (case cs of
                c1 # _ \<Rightarrow> if cont_byte c1 then Some ((b - 192) * 64 + (bcode c1 - 128), 2) else None
              | _ \<Rightarrow> None)
           else if 224 \<le> b \<and> b \<le> 239 then
             (case cs of
                c1 # c2 # _ \<Rightarrow>
                  if second_ok b c1 \<and> cont_byte c2
                  then Some ((b - 224) * 4096 + (bcode c1 - 128) * 64 + (bcode c2 - 128), 3) else None
              | _ \<Rightarrow> None)
           else if 240 \<le> b \<and> b \<le> 244 then
             (case cs of
                c1 # c2 # c3 # _ \<Rightarrow>
                  if second_ok b c1 \<and> cont_byte c2 \<and> cont_byte c3
                  then Some ((b - 240) * 262144 + (bcode c1 - 128) * 4096 + (bcode c2 - 128) * 64 +
                             (bcode c3 - 128), 4) else None
              | _ \<Rightarrow> None)
           else None))"

lemma decode_rune_width: "decode_rune s = Some (r, n) \<Longrightarrow> 0 < n \<and> n \<le> length s"
  by (auto simp: decode_rune_def Let_def split: list.splits if_splits)

text \<open>The runes \<open>for _, r := range s\<close> visits, in order.\<close>

function runes :: "string \<Rightarrow> nat list" where
  "runes [] = []"
| "runes (c # cs) =
     (case decode_rune (c # cs) of
        Some (r, n) \<Rightarrow> r # runes (drop (n - 1) cs)
      | None \<Rightarrow> rune_error # runes cs)"
  by pat_completeness auto
termination by (relation "measure length") auto

function valid_utf8 :: "string \<Rightarrow> bool" where
  "valid_utf8 [] = True"
| "valid_utf8 (c # cs) =
     (case decode_rune (c # cs) of
        Some (r, n) \<Rightarrow> valid_utf8 (drop (n - 1) cs)
      | None \<Rightarrow> False)"
  by pat_completeness auto
termination by (relation "measure length") auto

text \<open>\<open>utf8.AppendRune\<close>, for the runes decoding answers.\<close>

definition encode_rune :: "nat \<Rightarrow> string" where
  "encode_rune r =
     (if r < 128 then [char_of r]
      else if r < 2048 then [char_of (192 + r div 64), char_of (128 + r mod 64)]
      else if r < 65536 then
        [char_of (224 + r div 4096), char_of (128 + (r div 64) mod 64), char_of (128 + r mod 64)]
      else
        [char_of (240 + (r div 262144) mod 8), char_of (128 + (r div 4096) mod 64),
         char_of (128 + (r div 64) mod 64), char_of (128 + r mod 64)])"

definition encode_runes :: "nat list \<Rightarrow> string" where
  "encode_runes rs = concat (map encode_rune rs)"

section \<open>Lemmas\<close>

lemma code_char_of [simp]: "bcode (char_of n) = n mod 256"
  by (simp add: of_char_of)

lemma code_inject [simp]: "bcode a = bcode b \<longleftrightarrow> a = b"
  using of_char_eq_iff [where 'a = nat] by simp

lemma char_of_code [simp]: "char_of (bcode c) = c"
  by (simp add: char_of_char)

lemma runes_ascii: "list_all is_ascii s \<Longrightarrow> runes s = map bcode s \<and> valid_utf8 s"
  by (induction s) (auto simp: decode_rune_def is_ascii_def Let_def)

lemma encode_rune_small: "r < 128 \<Longrightarrow> encode_rune r = [char_of r]"
  by (simp add: encode_rune_def)

lemma encode_runes_ascii: "list_all is_ascii s \<Longrightarrow> encode_runes (map bcode s) = s"
  by (induction s) (auto simp: encode_runes_def encode_rune_def is_ascii_def)

lemma encode_runes_simps [simp]:
  "encode_runes [] = []"
  "encode_runes (r # rs) = encode_rune r @ encode_runes rs"
  by (simp_all add: encode_runes_def)

text \<open>The encoding of a rune beyond ASCII has no ASCII byte, a control character included.\<close>

lemma encode_rune_high:
  assumes "128 \<le> r" "r < 2097152" "c \<in> set (encode_rune r)" shows "128 \<le> bcode c"
proof -
  have mod64: "(128 + m mod 64) mod 256 = 128 + m mod 64" for m :: nat
    by (rule mod_less) (use mod_less_divisor [of 64 m] in linarith)
  have two: "(192 + r div 64) mod 256 = 192 + r div 64" if "r < 2048"
    by (rule mod_less) (use that in linarith)
  have three: "(224 + r div 4096) mod 256 = 224 + r div 4096" if "r < 65536"
    by (rule mod_less) (use that in linarith)
  have four: "(240 + (r div 262144) mod 8) mod 256 = 240 + (r div 262144) mod 8"
    by (rule mod_less) (use mod_less_divisor [of 8 "r div 262144"] in linarith)
  from assms show ?thesis
    by (auto simp: encode_rune_def mod64 two three four split: if_splits)
qed

lemma decode_rune_bound: "decode_rune s = Some (r, n) \<Longrightarrow> r < 2097152"
proof -
  assume d: "decode_rune s = Some (r, n)"
  have c: "bcode c < 256" for c by simp
  show ?thesis
    using d c by (auto simp: decode_rune_def Let_def cont_byte_def second_ok_def
        split: list.splits if_splits)
qed

lemma runes_bound: "r \<in> set (runes s) \<Longrightarrow> r < 2097152"
proof (induction s rule: runes.induct)
  case (2 c cs)
  then show ?case
    by (cases "decode_rune (c # cs)") (auto simp: rune_error_def dest: decode_rune_bound)
qed simp

text \<open>An ASCII byte is a rune of its own, wherever it stands, and only it reads as that rune.\<close>

lemma decode_rune_ascii: "bcode c < 128 \<Longrightarrow> decode_rune (c # cs) = Some (bcode c, 1)"
  by (simp add: decode_rune_def)

lemma decode_rune_multi:
  "decode_rune (c # cs) = Some (r, n) \<Longrightarrow> \<not> bcode c < 128 \<Longrightarrow>
     128 \<le> r \<and> (\<forall>d \<in> set (take (n - 1) cs). 128 \<le> bcode d)"
  by (auto simp: decode_rune_def Let_def cont_byte_def second_ok_def take_Cons
      split: list.splits if_splits nat.splits)

lemma ascii_in_runes: "bcode c < 128 \<Longrightarrow> bcode c \<in> set (runes s) \<longleftrightarrow> c \<in> set s"
proof (induction s rule: runes.induct)
  case (2 x xs)
  show ?case
  proof (cases "decode_rune (x # xs)")
    case None
    then have "\<not> bcode x < 128" using decode_rune_ascii by fastforce
    with 2 None show ?thesis by (auto simp: rune_error_def)
  next
    case (Some p)
    obtain r n where p: "p = (r, n)" by (cases p)
    with Some have d: "decode_rune (x # xs) = Some (r, n)" by simp
    have IH: "bcode c \<in> set (runes (drop (n - 1) xs)) \<longleftrightarrow> c \<in> set (drop (n - 1) xs)"
      using 2 d by simp
    show ?thesis
    proof (cases "bcode x < 128")
      case True
      with d have "r = bcode x" "n = 1" by (auto simp: decode_rune_ascii)
      with d IH show ?thesis by auto
    next
      case False
      with d have hi: "128 \<le> r" "\<forall>e \<in> set (take (n - 1) xs). 128 \<le> bcode e"
        using decode_rune_multi by blast+
      have "c \<in> set xs \<longleftrightarrow> c \<in> set (drop (n - 1) xs)"
        using hi 2(3) set_append [of "take (n - 1) xs" "drop (n - 1) xs"]
        by (auto simp del: set_append)
      with d IH False hi 2(3) show ?thesis by auto
    qed
  qed
qed simp

end
