(* ===== verification/Go_Net.thy ===== *)
theory Go_Net
  imports Go_Utf8
begin

text \<open>
  IP addresses as Go's package net has them: \<open>net.ParseIP\<close> and the addresses it answers, the
  sixteen bytes of an IPv6 address, an IPv4 address being its v4-mapped form.
\<close>

type_synonym ip = "nat list"

definition v4_in_v6 :: "nat list" where
  "v4_in_v6 = replicate 10 0 @ [255, 255]"

definition ipv4_field :: "string \<Rightarrow> nat option" where
  "ipv4_field f =
     (if f = [] \<or> \<not> list_all is_digit f \<or> (1 < length f \<and> hd f = CHR ''0'') \<or> 255 < digits_value f
      then None else Some (digits_value f))"

definition parse_ipv4 :: "string \<Rightarrow> nat list option" where
  "parse_ipv4 s =
     (let fs = map ipv4_field (split_byte (CHR ''.'') s)
      in if length fs = 4 \<and> list_all (\<lambda>f. f \<noteq> None) fs then Some (map the fs) else None)"

definition hex_value :: "char \<Rightarrow> nat option" where
  "hex_value c =
     (if is_digit c then Some (bcode c - 48)
      else if 97 \<le> bcode c \<and> bcode c \<le> 102 then Some (bcode c - 87)
      else if 65 \<le> bcode c \<and> bcode c \<le> 70 then Some (bcode c - 55)
      else None)"

definition is_hex :: "char \<Rightarrow> bool" where
  "is_hex c \<longleftrightarrow> hex_value c \<noteq> None"

definition hex_number :: "string \<Rightarrow> nat" where
  "hex_number s = foldl (\<lambda>n c. 16 * n + the (hex_value c)) 0 s"

text \<open>
  The loop of netip's parseIPv6: the bytes read so far, where the ellipsis stood, and the rest of
  the text. Each turn reads one group of two bytes, so eight turns are all it takes. The result
  is the bytes, the ellipsis and the rest, \<open>None\<close> an error.
\<close>

fun ipv6_groups :: "nat \<Rightarrow> nat list \<Rightarrow> nat option \<Rightarrow> string \<Rightarrow> (nat list \<times> nat option \<times> string) option" where
  "ipv6_groups 0 bs ell s = Some (bs, ell, s)"
| "ipv6_groups (Suc k) bs ell s =
     (let g = takeWhile is_hex s; rest = drop (length g) s in
      if g = [] \<or> 4 < length g then None
      else if has_prefix rest ''.'' then
        (if (ell = None \<and> length bs \<noteq> 12) \<or> 16 < length bs + 4 then None
         else map_option (\<lambda>v4. (bs @ v4, ell, [])) (parse_ipv4 s))
      else
        (let n = hex_number g; bs' = bs @ [n div 256, n mod 256] in
         case rest of
           [] \<Rightarrow> Some (bs', ell, [])
         | c # r1 \<Rightarrow>
             if c \<noteq> CHR '':'' \<or> r1 = [] then None
             else if hd r1 = CHR '':'' then
               (if ell \<noteq> None then None
                else if tl r1 = [] then Some (bs', Some (length bs'), [])
                else ipv6_groups k bs' (Some (length bs')) (tl r1))
             else ipv6_groups k bs' ell r1))"

definition parse_ipv6 :: "string \<Rightarrow> ip option" where
  "parse_ipv6 s =
     (let lead = has_prefix s ''::''; s' = (if lead then drop 2 s else s) in
      if lead \<and> s' = [] then Some (replicate 16 0)
      else case ipv6_groups 8 [] (if lead then Some 0 else None) s' of
        None \<Rightarrow> None
      | Some (bs, ell, rest) \<Rightarrow>
          if rest \<noteq> [] then None
          else if length bs < 16 then
            (case ell of
               None \<Rightarrow> None
             | Some e \<Rightarrow> Some (take e bs @ replicate (16 - length bs) 0 @ drop e bs))
          else if ell \<noteq> None then None
          else Some bs)"

text \<open>
  \<open>net.ParseIP\<close>: the first of \<open>.\<close>, \<open>:\<close> and \<open>%\<close> decides the form; a zone is refused.
\<close>

definition parse_ip :: "string \<Rightarrow> ip option" where
  "parse_ip s =
     (case dropWhile (\<lambda>c. c \<notin> set ''.:%'') s of
        [] \<Rightarrow> None
      | c # _ \<Rightarrow>
          if c = CHR ''.'' then map_option ((@) v4_in_v6) (parse_ipv4 s)
          else if c = CHR '':'' then (if CHR ''%'' \<in> set s then None else parse_ipv6 s)
          else None)"

text \<open>\<open>IP.To4\<close>: the four bytes of an IPv4 address.\<close>

definition to4 :: "ip \<Rightarrow> nat list option" where
  "to4 ip = (if length ip = 16 \<and> take 12 ip = v4_in_v6 then Some (drop 12 ip) else None)"

section \<open>Well-formedness\<close>

definition ip_ok :: "ip \<Rightarrow> bool" where
  "ip_ok ip \<longleftrightarrow> length ip = 16 \<and> list_all (\<lambda>b. b < 256) ip"

lemma ipv4_field_lt: "ipv4_field f = Some n \<Longrightarrow> n < 256"
  by (auto simp: ipv4_field_def split: if_splits)

lemma parse_ipv4_ok: "parse_ipv4 s = Some bs \<Longrightarrow> length bs = 4 \<and> list_all (\<lambda>b. b < 256) bs"
  by (fastforce simp: parse_ipv4_def Let_def list_all_iff dest: ipv4_field_lt split: if_splits)

lemma hex_value_lt: "hex_value c = Some n \<Longrightarrow> n < 16"
  by (auto simp: hex_value_def is_digit_def split: if_splits)

lemma hex_number_lt: "list_all is_hex g \<Longrightarrow> hex_number g < 16 ^ length g"
proof (induction g rule: rev_induct)
  case (snoc c g)
  then have IH: "hex_number g < 16 ^ length g" and "is_hex c" by auto
  then obtain v where v: "hex_value c = Some v" "v < 16"
    using hex_value_lt by (auto simp: is_hex_def)
  from IH have "hex_number g + 1 \<le> 16 ^ length g" by simp
  then have "16 * hex_number g + 16 \<le> 16 * 16 ^ length g" by simp
  with v show ?case by (simp add: hex_number_def)
qed (simp add: hex_number_def)

lemma hex_group_lt: "length (takeWhile is_hex s) \<le> 4 \<Longrightarrow> hex_number (takeWhile is_hex s) < 65536"
proof -
  assume l: "length (takeWhile is_hex s) \<le> 4"
  have "list_all is_hex (takeWhile is_hex s)"
    by (auto simp: list_all_iff dest: set_takeWhileD)
  then have "hex_number (takeWhile is_hex s) < 16 ^ length (takeWhile is_hex s)"
    by (rule hex_number_lt)
  also have "\<dots> \<le> 16 ^ 4" using l by (intro power_increasing) auto
  finally show ?thesis by simp
qed

definition groups_ok :: "nat \<Rightarrow> nat list \<Rightarrow> nat option \<Rightarrow> bool" where
  "groups_ok k bs ell \<longleftrightarrow> length bs + 2 * k \<le> 16 \<and> list_all (\<lambda>b. b < 256) bs \<and>
     (case ell of None \<Rightarrow> True | Some e \<Rightarrow> e \<le> length bs)"

lemma ipv6_groups_ok:
  "ipv6_groups k bs ell s = Some (bs', ell', r) \<Longrightarrow> groups_ok k bs ell \<Longrightarrow> groups_ok 0 bs' ell'"
proof (induction k bs ell s rule: ipv6_groups.induct)
  case (1 bs ell s)
  then show ?case by (auto simp: groups_ok_def)
next
  case (2 k bs ell s)
  let ?g = "takeWhile is_hex s"
  let ?n = "hex_number ?g"
  let ?bs = "bs @ [?n div 256, ?n mod 256]"
  from 2(3) have g: "?g \<noteq> []" "length ?g \<le> 4"
    by (auto simp: Let_def split: if_splits)
  with hex_group_lt have n: "?n div 256 < 256" by (simp add: div_less_iff_less_mult)
  have ok1: "groups_ok k ?bs ell" "groups_ok k ?bs (Some (length ?bs))" "groups_ok 0 ?bs ell"
      "groups_ok 0 ?bs (Some (length ?bs))"
    using 2(4) n by (auto simp: groups_ok_def split: option.splits)
  show ?case
  proof (cases "has_prefix (drop (length ?g) s) ''.''")
    case True
    with 2(3,4) g show ?thesis
      by (auto simp: Let_def groups_ok_def dest!: parse_ipv4_ok split: if_splits option.splits)
  next
    case dot: False
    show ?thesis
    proof (cases "drop (length ?g) s")
      case Nil
      with 2(3) g dot ok1 show ?thesis by (auto simp: Let_def)
    next
      case (Cons c r1)
      with 2 g dot ok1 show ?thesis
        by (auto simp: Let_def split: if_splits)
    qed
  qed
qed

lemma list_all_replicate_lt [simp]: "list_all P (replicate n z) \<longleftrightarrow> n = 0 \<or> P z"
  by (auto simp: list_all_iff)

lemma list_all_expand:
  "list_all P bs \<Longrightarrow> P z \<Longrightarrow> list_all P (take e bs @ replicate n z @ drop e bs)"
  by (auto simp: list_all_iff dest: in_set_takeD in_set_dropD)

lemma parse_ipv6_ok: "parse_ipv6 s = Some ip \<Longrightarrow> ip_ok ip"
proof -
  assume p: "parse_ipv6 s = Some ip"
  have g0: "groups_ok 8 [] None" "groups_ok 8 [] (Some 0)" by (auto simp: groups_ok_def)
  let ?s = "if has_prefix s ''::'' then drop 2 s else s"
  let ?e = "if has_prefix s ''::'' then Some (0::nat) else None"
  show ?thesis
  proof (cases "ipv6_groups 8 [] ?e ?s")
    case None
    with p show ?thesis by (auto simp: parse_ipv6_def Let_def ip_ok_def list_all_iff split: if_splits)
  next
    case (Some q)
    obtain bs ell r where q: "q = (bs, ell, r)" by (cases q)
    have "groups_ok 0 bs ell"
      using Some q g0 by (auto intro!: ipv6_groups_ok split: if_splits)
    then show ?thesis
      using p Some q
      by (auto simp: parse_ipv6_def Let_def ip_ok_def groups_ok_def
          intro!: list_all_expand simp del: list_all_append split: if_splits option.splits)
  qed
qed

lemma parse_ip_ok: "parse_ip s = Some ip \<Longrightarrow> ip_ok ip"
  by (auto simp: parse_ip_def ip_ok_def v4_in_v6_def list_all_iff
      dest!: parse_ipv4_ok dest: parse_ipv6_ok [unfolded ip_ok_def]
      split: list.splits if_splits)

end
