(* ===== verification/Mail_Address.thy ===== *)
theory Mail_Address
  imports Go_Net
begin

text \<open>
  Package internal/mail: addresses, subaddresses, Message-IDs and their syntax, threads, folders,
  the Received header and internationalised domains.

  The IDNA mapping of golang.org/x/net/idna is the parameter \<open>to_ascii\<close> (\<open>None\<close> its error), and the
  rendering of a time as an RFC 5322 date the parameter \<open>rfc5322\<close>. The random bytes a source draws
  are arguments. \<open>Inl\<close> carries an error.
\<close>

section \<open>Control characters in addresses and headers (address.go)\<close>

definition control_rune :: "nat \<Rightarrow> bool" where
  "control_rune r \<longleftrightarrow> r < 32 \<or> r = 127"

definition contains_control_char :: "string \<Rightarrow> bool" where
  "contains_control_char s \<longleftrightarrow> list_ex control_rune (runes s)"

definition sanitize_header_value :: "string \<Rightarrow> string" where
  "sanitize_header_value s =
     join '' '' (str_fields (encode_runes (map (\<lambda>r. if control_rune r then 32 else r) (runes s))))"

section \<open>Subaddresses (subaddress.go)\<close>

definition strip_subaddress :: "string \<Rightarrow> string \<times> string \<times> bool" where
  "strip_subaddress address =
     (case last_index_byte address (CHR ''@'') of
        None \<Rightarrow> (address, [], False)
      | Some at \<Rightarrow>
          if at = 0 then (address, [], False)
          else
            (let local = take at address; domain = drop (at + 1) address in
             case index_byte local (CHR ''+'') of
               None \<Rightarrow> (address, [], False)
             | Some p \<Rightarrow>
                 if p = 0 then (address, [], False)
                 else (take p local @ ''@'' @ domain, drop (p + 1) local, True)))"

section \<open>Message-IDs (messageid.go)\<close>

definition hex_digit :: "nat \<Rightarrow> char" where
  "hex_digit n = (if n < 10 then char_of (48 + n) else char_of (87 + n))"

definition hex_byte :: "nat \<Rightarrow> string" where
  "hex_byte b = [hex_digit (b div 16 mod 16), hex_digit (b mod 16)]"

definition hex_bytes :: "nat list \<Rightarrow> string" where
  "hex_bytes bs = concat (map hex_byte bs)"

definition message_id_left :: "nat list \<Rightarrow> string" where
  "message_id_left b =
     hex_bytes (take 4 b) @ ''-'' @ hex_bytes (take 2 (drop 4 b)) @ ''-'' @
     hex_bytes (take 2 (drop 6 b)) @ ''-'' @ hex_bytes (take 2 (drop 8 b)) @ ''-'' @
     hex_bytes (take 6 (drop 10 b))"

text \<open>\<open>b\<close> is the sixteen bytes read from crypto/rand, whose failure panics.\<close>

definition generate_message_id :: "nat list \<Rightarrow> string \<Rightarrow> string" where
  "generate_message_id b domain = ''<'' @ message_id_left b @ ''@'' @ domain @ ''>''"

definition canonical_id :: "string \<Rightarrow> string" where
  "canonical_id id0 =
     (let i = trim_space (trim_set (trim_space id0) ''<>'') in
      if i = [] then [] else ''<'' @ i @ ''>'')"

definition domain_from_address :: "string \<Rightarrow> string" where
  "domain_from_address email =
     (case last_index_byte email (CHR ''@'') of
        Some i \<Rightarrow> drop (i + 1) email
      | None \<Rightarrow> email)"

section \<open>Threads (thread.go)\<close>

definition header_thread_id :: "string \<Rightarrow> string \<Rightarrow> string \<Rightarrow> string" where
  "header_thread_id message_id in_reply_to references =
     (case str_fields references of
        r # _ \<Rightarrow> canonical_id r
      | [] \<Rightarrow> if in_reply_to \<noteq> [] then canonical_id in_reply_to else canonical_id message_id)"

definition reply_references :: "string \<Rightarrow> string \<Rightarrow> string \<Rightarrow> string" where
  "reply_references message_id in_reply_to references =
     (let refs0 = str_fields references;
          refs1 = (if refs0 = [] \<and> length (str_fields in_reply_to) = 1 then str_fields in_reply_to else refs0);
          refs = refs1 @ [message_id]
      in join '' '' (filter (\<lambda>i. i \<noteq> []) (map canonical_id refs)))"

section \<open>msg-id syntax (msgid\_syntax.go)\<close>

definition max_msg_id_length :: nat where "max_msg_id_length = 998"

datatype msg_id_err = ErrMsgIDControl | ErrMsgIDSyntax | ErrMsgIDListForm | ErrMsgIDTooLong

definition is_atext :: "char \<Rightarrow> bool" where
  "is_atext c \<longleftrightarrow> is_lower c \<or> is_upper c \<or> is_digit c \<or> 128 \<le> bcode c \<or>
     c \<in> set ''!#$%&*+-/=?^_`{|}~'' \<or> bcode c = 39"

definition is_wsp :: "char \<Rightarrow> bool" where
  "is_wsp c \<longleftrightarrow> bcode c = 32 \<or> bcode c = 9"

definition skip_wsp :: "string \<Rightarrow> nat \<Rightarrow> nat" where
  "skip_wsp s i = i + length (takeWhile is_wsp (drop i s))"

definition byte_at :: "string \<Rightarrow> nat \<Rightarrow> nat \<Rightarrow> bool" where
  "byte_at s i b \<longleftrightarrow> i < length s \<and> bcode (s ! i) = b"

function dot_atom_text_end :: "string \<Rightarrow> nat \<Rightarrow> nat \<times> bool" where
  "dot_atom_text_end s i =
     (let j = i + length (takeWhile is_atext (drop i s)) in
      if j = i then (j, False)
      else if byte_at s j 46 then dot_atom_text_end s (j + 1)
      else (j, True))"
  by pat_completeness auto
termination by (relation "measure (\<lambda>(s, i). length s - i)") (auto simp: byte_at_def)

declare dot_atom_text_end.simps [simp del]

definition is_qtext :: "char \<Rightarrow> bool" where
  "is_qtext c \<longleftrightarrow> is_wsp c \<or> bcode c = 33 \<or> (35 \<le> bcode c \<and> bcode c \<le> 91) \<or>
     (93 \<le> bcode c \<and> bcode c \<le> 126) \<or> 128 \<le> bcode c"

text \<open>The loop of quotedStringEnd, at an index past the opening quote.\<close>

function quoted_string_loop :: "string \<Rightarrow> nat \<Rightarrow> nat \<times> bool" where
  "quoted_string_loop s i =
     (if length s \<le> i then (i, False)
      else if bcode (s ! i) = 34 then (i + 1, True)
      else if bcode (s ! i) = 92 then
        (if length s \<le> i + 1 then (i + 1, False) else quoted_string_loop s (i + 2))
      else if is_qtext (s ! i) then quoted_string_loop s (i + 1)
      else (i, False))"
  by pat_completeness auto
termination by (relation "measure (\<lambda>(s, i). length s - i)") auto

declare quoted_string_loop.simps [simp del]

definition quoted_string_end :: "string \<Rightarrow> nat \<Rightarrow> nat \<times> bool" where
  "quoted_string_end s i = quoted_string_loop s (i + 1)"

definition is_dtext :: "char \<Rightarrow> bool" where
  "is_dtext c \<longleftrightarrow> (33 \<le> bcode c \<and> bcode c \<le> 90) \<or> (94 \<le> bcode c \<and> bcode c \<le> 126) \<or> 128 \<le> bcode c"

function domain_literal_loop :: "string \<Rightarrow> nat \<Rightarrow> nat \<times> bool" where
  "domain_literal_loop s i =
     (if length s \<le> i then (i, False)
      else if bcode (s ! i) = 93 then (i + 1, True)
      else if is_dtext (s ! i) then domain_literal_loop s (i + 1)
      else (i, False))"
  by pat_completeness auto
termination by (relation "measure (\<lambda>(s, i). length s - i)") auto

declare domain_literal_loop.simps [simp del]

definition domain_literal_end :: "string \<Rightarrow> nat \<Rightarrow> nat \<times> bool" where
  "domain_literal_end s i = domain_literal_loop s (i + 1)"

definition msg_id_end :: "string \<Rightarrow> nat \<Rightarrow> msg_id_err + nat" where
  "msg_id_end s i =
     (if \<not> byte_at s i 60 then Inl ErrMsgIDSyntax
      else
        (let (j, ok) = (if byte_at s (i + 1) 34 then quoted_string_end s (i + 1)
                        else dot_atom_text_end s (i + 1)) in
         if \<not> ok \<or> \<not> byte_at s j 64 then Inl ErrMsgIDSyntax
         else
           (let (k, ok2) = (if byte_at s (j + 1) 91 then domain_literal_end s (j + 1)
                            else dot_atom_text_end s (j + 1)) in
            if \<not> ok2 \<or> \<not> byte_at s k 62 then Inl ErrMsgIDSyntax
            else Inr (k + 1))))"

lemma dot_atom_text_end_mono: "dot_atom_text_end s i = (j, ok) \<Longrightarrow> i \<le> j"
proof (induction s i arbitrary: j ok rule: dot_atom_text_end.induct)
  case (1 s i)
  then show ?case
    by (subst (asm) (2) dot_atom_text_end.simps) (fastforce simp: Let_def split: if_splits)
qed

lemma quoted_string_loop_mono: "quoted_string_loop s i = (j, ok) \<Longrightarrow> i \<le> j"
proof (induction s i arbitrary: j ok rule: quoted_string_loop.induct)
  case (1 s i)
  from 1(3) 1(1) [of j ok] 1(2) [of j ok] quoted_string_loop.simps [of s i] show ?case
    by (auto split: if_splits)
qed

lemma domain_literal_loop_mono: "domain_literal_loop s i = (j, ok) \<Longrightarrow> i \<le> j"
proof (induction s i arbitrary: j ok rule: domain_literal_loop.induct)
  case (1 s i)
  from 1(2) show ?case
    by (subst (asm) domain_literal_loop.simps) (auto split: if_splits dest!: 1(1))
qed

lemma msg_id_end_gt: "msg_id_end s i = Inr e \<Longrightarrow> i < e \<and> e \<le> length s"
  by (auto simp: msg_id_end_def Let_def byte_at_def quoted_string_end_def domain_literal_end_def
      dest!: dot_atom_text_end_mono quoted_string_loop_mono domain_literal_loop_mono
      split: if_splits prod.splits)

function msg_id_loop :: "string \<Rightarrow> nat \<Rightarrow> nat \<Rightarrow> msg_id_err + nat" where
  "msg_id_loop s count i =
     (if length s \<le> i then Inr count
      else case msg_id_end s i of
        Inl e \<Rightarrow> Inl e
      | Inr j \<Rightarrow>
          if max_msg_id_length < j - i then Inl ErrMsgIDTooLong
          else msg_id_loop s (count + 1) (skip_wsp s j))"
  by pat_completeness auto
termination
  by (relation "measure (\<lambda>(s, c, i). length s - i)")
    (auto simp: skip_wsp_def dest!: msg_id_end_gt)

declare msg_id_loop.simps [simp del]

definition validate_msg_ids :: "string \<Rightarrow> msg_id_err + nat" where
  "validate_msg_ids s =
     (if \<not> valid_utf8 s then Inl ErrMsgIDSyntax
      else if list_ex (\<lambda>r. (r < 32 \<and> r \<noteq> 9) \<or> r = 127 \<or> (128 \<le> r \<and> r < 160)) (runes s)
      then Inl ErrMsgIDControl
      else msg_id_loop s 0 (skip_wsp s 0))"

definition validate_msg_id :: "string \<Rightarrow> msg_id_err option" where
  "validate_msg_id s =
     (case validate_msg_ids s of
        Inl e \<Rightarrow> Some e
      | Inr n \<Rightarrow> if n \<noteq> 1 then Some ErrMsgIDSyntax else None)"

definition validate_msg_id_list :: "string \<Rightarrow> msg_id_err option" where
  "validate_msg_id_list s =
     (case validate_msg_ids s of
        Inl e \<Rightarrow> Some (if e = ErrMsgIDSyntax then ErrMsgIDListForm else e)
      | Inr n \<Rightarrow> if n = 0 then Some ErrMsgIDListForm else None)"

section \<open>Folders (folder.go)\<close>

definition max_folder_name_len :: nat where "max_folder_name_len = 255"

definition standard_folders :: "string list" where
  "standard_folders = [''INBOX'', ''Sent'', ''Drafts'', ''Trash'', ''Spam'', ''Archive'']"

datatype folder_role =
  NoRole | RoleInbox | RoleSent | RoleDrafts | RoleTrash | RoleJunk | RoleArchive

definition folder_roles :: "(string \<times> folder_role) list" where
  "folder_roles =
     [(''INBOX'', RoleInbox), (''Sent'', RoleSent), (''Drafts'', RoleDrafts), (''Trash'', RoleTrash),
      (''Spam'', RoleJunk), (''Archive'', RoleArchive)]"

definition special_use_attrs :: "(folder_role \<times> string) list" where
  "special_use_attrs =
     [(RoleSent, CHR 0x5C # ''Sent''), (RoleDrafts, CHR 0x5C # ''Drafts''),
      (RoleTrash, CHR 0x5C # ''Trash''), (RoleJunk, CHR 0x5C # ''Junk''),
      (RoleArchive, CHR 0x5C # ''Archive'')]"

definition canonical_folder :: "string \<Rightarrow> string" where
  "canonical_folder folder = (if equal_fold folder ''INBOX'' then ''INBOX'' else folder)"

definition role_of :: "string \<Rightarrow> folder_role" where
  "role_of folder =
     (case map_of folder_roles (canonical_folder folder) of Some r \<Rightarrow> r | None \<Rightarrow> NoRole)"

definition special_use :: "folder_role \<Rightarrow> string" where
  "special_use r = (case map_of special_use_attrs r of Some a \<Rightarrow> a | None \<Rightarrow> [])"

definition is_standard_folder :: "string \<Rightarrow> bool" where
  "is_standard_folder folder \<longleftrightarrow> list_ex (\<lambda>standard. canonical_folder folder = standard) standard_folders"

definition folder_name_problem :: "string \<Rightarrow> string" where
  "folder_name_problem name =
     (if trim_space name = [] then ''required''
      else if max_folder_name_len < length name then ''must be at most 255 bytes''
      else if \<not> valid_utf8 name then ''must be valid UTF-8''
      else if trim_space name \<noteq> name then ''must not begin or end with a space''
      else if contains name ''..'' then ''must not contain '' @ [CHR 0x22] @ ''..'' @ [CHR 0x22]
      else if list_ex (\<lambda>r. r < 32 \<or> r = 127 \<or> (128 \<le> r \<and> r \<le> 159)) (runes name)
      then ''must not contain a control character''
      else [])"

section \<open>The Received header (received.go)\<close>

record received_info =
  ri_from :: string
  ri_remote_ip :: string
  ri_by :: string
  ri_with :: string
  ri_id :: string
  ri_for :: string
  ri_timestamp :: "time option"

definition crlf :: string where "crlf = [CHR 0x0D, CHR 0x0A]"
definition tab :: string where "tab = [CHR 0x09]"

definition sanitize_header_token :: "string \<Rightarrow> string" where
  "sanitize_header_token s =
     (if \<not> list_ex control_rune (runes s) then trim_space s
      else trim_space (encode_runes (filter (\<lambda>r. \<not> control_rune r) (runes s))))"

fun base36 :: "nat \<Rightarrow> string" where
  "base36 n = (if n < 36 then [hex_digit n] else base36 (n div 36) @ [hex_digit (n mod 36)])"

declare base36.simps [simp del]

text \<open>\<open>b\<close> is the ten bytes crypto/rand answers, \<open>None\<close> its failure.\<close>

definition generate_queue_id :: "nat list option \<Rightarrow> time \<Rightarrow> string" where
  "generate_queue_id b now =
     (case b of
        None \<Rightarrow> (if now < 0 then ''-'' @ base36 (nat (- now)) else base36 (nat now))
      | Some bs \<Rightarrow> to_upper (hex_bytes bs))"

definition or_default :: "string \<Rightarrow> string \<Rightarrow> string" where
  "or_default s d = (if s = [] then d else s)"

definition build_received_header ::
  "(time \<Rightarrow> string) \<Rightarrow> nat list option \<Rightarrow> time \<Rightarrow> received_info \<Rightarrow> string" where
  "build_received_header rfc5322 b now info =
     (let from' = or_default (sanitize_header_token (ri_from info)) ''unknown'';
          by' = or_default (sanitize_header_token (ri_by info)) ''localhost'';
          with' = or_default (sanitize_header_token (ri_with info)) ''ESMTP'';
          id' = or_default (sanitize_header_token (ri_id info)) (generate_queue_id b now);
          ts = (case ri_timestamp info of None \<Rightarrow> now | Some t \<Rightarrow> t);
          ip = sanitize_header_token (ri_remote_ip info);
          for_addr = sanitize_header_token (ri_for info)
      in ''Received: from '' @ from' @ (if ip \<noteq> [] then '' (['' @ ip @ ''])'' else []) @
         crlf @ tab @ ''by '' @ by' @ '' (RESTMAIL) with '' @ with' @ '' id '' @ id' @
         (if for_addr \<noteq> [] then crlf @ tab @ ''for <'' @ for_addr @ ''>'' else []) @
         ''; '' @ rfc5322 ts @ crlf)"

section \<open>Internationalised domains (idn.go)\<close>

definition domain_ascii :: "(string \<Rightarrow> string option) \<Rightarrow> string \<Rightarrow> string option" where
  "domain_ascii to_ascii domain =
     (if domain = [] \<or> \<not> valid_utf8 domain \<or> contains_control_char domain then None
      else case to_ascii (trim_suffix domain ''.'') of
        None \<Rightarrow> None
      | Some ascii \<Rightarrow> Some (if has_suffix domain ''.'' then ascii @ ''.'' else ascii))"

definition domain_unicode ::
  "(string \<Rightarrow> string option) \<Rightarrow> (string \<Rightarrow> string option) \<Rightarrow> string \<Rightarrow> string option" where
  "domain_unicode to_ascii to_unicode domain =
     (case domain_ascii to_ascii domain of None \<Rightarrow> None | Some ascii \<Rightarrow> to_unicode ascii)"

definition smtp_address_ascii :: "(string \<Rightarrow> string option) \<Rightarrow> string \<Rightarrow> string option" where
  "smtp_address_ascii to_ascii address =
     (if \<not> valid_utf8 address \<or> contains_control_char address then None
      else if address = [] then Some []
      else case last_index_byte address (CHR ''@'') of
        None \<Rightarrow> None
      | Some at \<Rightarrow>
          if at = 0 then None
          else
            (let domain = drop (at + 1) address in
             if has_prefix domain ''['' \<and> has_suffix domain '']'' then
               (let literal = trim_suffix (trim_prefix domain ''['') '']'' in
                if parse_ip (trim_prefix literal ''IPv6:'') = None then None else Some address)
             else case domain_ascii to_ascii domain of
               None \<Rightarrow> None
             | Some ascii \<Rightarrow> Some (take (at + 1) address @ ascii)))"

definition mx_pattern_ascii :: "(string \<Rightarrow> string option) \<Rightarrow> string \<Rightarrow> string option" where
  "mx_pattern_ascii to_ascii pattern =
     (case domain_ascii to_ascii (trim_prefix pattern ''*.'') of
        None \<Rightarrow> None
      | Some ascii \<Rightarrow> Some (if has_prefix pattern ''*.'' then ''*.'' @ ascii else ascii))"

section \<open>Addresses at the boundary (address.go, mailbox.go)\<close>

text \<open>
  net/mail's \<open>ParseAddress\<close> is the parameter \<open>parse_address\<close>, the bare address it reads or \<open>None\<close>, and
  Unicode NFC the parameter \<open>nfc\<close>. The result is the error's words, \<open>None\<close> when there is none.
\<close>

definition validate_address ::
  "(string \<Rightarrow> string option) \<Rightarrow> (string \<Rightarrow> string option) \<Rightarrow> string \<Rightarrow> string option" where
  "validate_address to_ascii parse_address addr =
     (if \<not> valid_utf8 addr then Some ''invalid address encoding''
      else if trim_space addr = [] then Some ''empty address''
      else if contains_control_char addr then Some ''address contains a control character''
      else case parse_address addr of
        None \<Rightarrow> Some ''invalid address''
      | Some a \<Rightarrow> if smtp_address_ascii to_ascii a = None then Some ''invalid address'' else None)"

definition canonical_mailbox_address ::
  "(string \<Rightarrow> string option) \<Rightarrow> (string \<Rightarrow> string option) \<Rightarrow> (string \<Rightarrow> string) \<Rightarrow> string \<Rightarrow> string option" where
  "canonical_mailbox_address to_ascii parse_address nfc address0 =
     (if \<not> valid_utf8 address0 then None
      else
        (let address = trim_space address0; (local, domain, ok) = cut_byte (CHR ''@'') address in
         if \<not> ok \<or> local = [] \<or> contains_control_char address \<or>
            contains_any local ('' <>()[],;:'' @ [CHR 0x09, CHR 0x0D, CHR 0x0A, CHR 0x5C, CHR 0x22]) \<or>
            has_suffix domain ''.''
         then None
         else case domain_ascii to_ascii domain of
           None \<Rightarrow> None
         | Some ascii \<Rightarrow>
             (let canonical = nfc (to_lower local) @ ''@'' @ ascii in
              if validate_address to_ascii parse_address canonical \<noteq> None then None else Some canonical)))"

section \<open>No control character survives\<close>

definition control_free :: "string \<Rightarrow> bool" where
  "control_free s \<longleftrightarrow> list_all (\<lambda>c. \<not> is_control c) s"

lemma control_free_simps [simp]:
  "control_free []"
  "control_free (c # s) \<longleftrightarrow> \<not> is_control c \<and> control_free s"
  "control_free (s @ t) \<longleftrightarrow> control_free s \<and> control_free t"
  by (auto simp: control_free_def)

lemma control_free_subset: "set t \<subseteq> set s \<Longrightarrow> control_free s \<Longrightarrow> control_free t"
  by (auto simp: control_free_def list_all_iff)

lemma contains_control_char_iff: "contains_control_char s \<longleftrightarrow> \<not> control_free s"
proof -
  have "(\<exists>r \<in> set (runes s). control_rune r) \<longleftrightarrow> (\<exists>c \<in> set s. is_control c)"
  proof
    assume "\<exists>r \<in> set (runes s). control_rune r"
    then obtain r where r: "r \<in> set (runes s)" "r < 128" "control_rune r"
      by (auto simp: control_rune_def)
    then have "bcode (char_of r) = r" by simp
    with r have "char_of r \<in> set s" "is_control (char_of r)"
      using ascii_in_runes [of "char_of r" s] by (auto simp: control_rune_def is_control_def)
    then show "\<exists>c \<in> set s. is_control c" by blast
  next
    assume "\<exists>c \<in> set s. is_control c"
    then obtain c where c: "c \<in> set s" "is_control c" by blast
    then have "bcode c < 128" by (auto simp: is_control_def)
    with c have "bcode c \<in> set (runes s)" "control_rune (bcode c)"
      by (auto simp: ascii_in_runes control_rune_def is_control_def)
    then show "\<exists>r \<in> set (runes s). control_rune r" by blast
  qed
  then show ?thesis
    by (simp add: contains_control_char_def control_free_def list_ex_iff list_all_iff)
qed

lemma control_free_encode_rune: "r < 2097152 \<Longrightarrow> \<not> control_rune r \<Longrightarrow> control_free (encode_rune r)"
proof (cases "r < 128")
  case True
  assume "\<not> control_rune r"
  with True show ?thesis by (simp add: encode_rune_def is_control_def control_rune_def)
next
  case False
  assume "r < 2097152"
  with False have "\<forall>c \<in> set (encode_rune r). 128 \<le> bcode c"
    using encode_rune_high by (meson not_less)
  then show ?thesis by (auto simp: control_free_def list_all_iff is_control_def)
qed

lemma control_free_encode_runes:
  "\<forall>r \<in> set rs. r < 2097152 \<and> \<not> control_rune r \<Longrightarrow> control_free (encode_runes rs)"
  by (induction rs) (auto simp: control_free_encode_rune)

lemma control_free_trim [simp]: "control_free s \<Longrightarrow> control_free (trim_space s)"
  using set_trim_with [of is_space s] by (auto simp: trim_space_def intro: control_free_subset)

lemma control_free_join: "control_free sep \<Longrightarrow> \<forall>p \<in> set ps. control_free p \<Longrightarrow> control_free (join sep ps)"
  by (induction sep ps rule: join.induct) auto

lemma control_free_fields: "control_free s \<Longrightarrow> p \<in> set (str_fields s) \<Longrightarrow> control_free p"
  using fields_no_space control_free_subset by metis

lemma sanitize_header_value_control_free: "control_free (sanitize_header_value s)"
proof -
  let ?rs = "map (\<lambda>r. if control_rune r then 32 else r) (runes s)"
  have "control_free (encode_runes ?rs)"
    by (rule control_free_encode_runes) (auto simp: control_rune_def dest: runes_bound)
  then show ?thesis
    unfolding sanitize_header_value_def
    by (intro control_free_join) (auto simp: is_control_def intro: control_free_fields)
qed

lemma sanitize_header_token_control_free: "control_free (sanitize_header_token s)"
proof (cases "list_ex control_rune (runes s)")
  case True
  have "control_free (encode_runes (filter (\<lambda>r. \<not> control_rune r) (runes s)))"
    by (rule control_free_encode_runes) (auto dest: runes_bound)
  with True show ?thesis by (simp add: sanitize_header_token_def)
next
  case False
  then show ?thesis
    using contains_control_char_iff [of s]
    by (simp add: sanitize_header_token_def contains_control_char_def)
qed

section \<open>Header lines\<close>

text \<open>
  A header field as it stands in a message: lines ended by CRLF, none with a control character of
  its own besides the TAB that starts a continuation line.
\<close>

definition header_line :: "string \<Rightarrow> bool" where
  "header_line l \<longleftrightarrow> l \<noteq> [] \<and> \<not> is_control (hd l) \<and> control_free l"

definition continuation_line :: "string \<Rightarrow> bool" where
  "continuation_line l \<longleftrightarrow> has_prefix l tab \<and> control_free (tl l)"

definition one_header_field :: "string \<Rightarrow> bool" where
  "one_header_field h \<longleftrightarrow>
     (\<exists>l ls. h = concat (map (\<lambda>x. x @ crlf) (l # ls)) \<and> header_line l \<and> list_all continuation_line ls)"

lemma is_control_hex [simp]: "n < 36 \<Longrightarrow> \<not> is_control (hex_digit n)"
  by (auto simp: hex_digit_def is_control_def)

lemma control_free_hex_bytes: "control_free (to_upper (hex_bytes bs))"
proof -
  have hb: "\<not> is_control (upper_char (hex_digit n))" if "n < 16" for n
    using that by (auto simp: upper_char_def is_lower_def hex_digit_def is_control_def)
  show ?thesis
    by (induction bs) (auto simp: hex_bytes_def hex_byte_def to_upper_def hb)
qed

lemma control_free_base36: "control_free (base36 n)"
proof (induction n rule: base36.induct)
  case (1 n)
  then show ?case by (subst base36.simps) auto
qed

lemma control_free_queue_id: "control_free (generate_queue_id b now)"
  by (auto simp: generate_queue_id_def control_free_hex_bytes control_free_base36 is_control_def
      split: option.splits)

lemma control_free_or_default:
  "control_free s \<Longrightarrow> control_free d \<Longrightarrow> control_free (or_default s d)"
  by (simp add: or_default_def)

text \<open>
  whatever the peer's HELO name, the recipient and the other fields hold, BuildReceivedHeader
  writes one header field: its lines carry no control character but the TAB that folds them, so
  no text of the peer's can end the line and start a forged header.
\<close>

theorem received_header_is_one_field:
  assumes date: "\<And>t. control_free (rfc5322 t)"
  shows "one_header_field (build_received_header rfc5322 b now info)"
proof -
  define l1 where "l1 = ''Received: from '' @ or_default (sanitize_header_token (ri_from info)) ''unknown'' @
    (let ip = sanitize_header_token (ri_remote_ip info) in if ip \<noteq> [] then '' (['' @ ip @ ''])'' else [])"
  define l2 where "l2 = ''by '' @ or_default (sanitize_header_token (ri_by info)) ''localhost'' @
    '' (RESTMAIL) with '' @ or_default (sanitize_header_token (ri_with info)) ''ESMTP'' @ '' id '' @
    or_default (sanitize_header_token (ri_id info)) (generate_queue_id b now)"
  define for_addr where "for_addr = sanitize_header_token (ri_for info)"
  define l3 where "l3 = ''for <'' @ for_addr @ ''>''"
  define d where "d = ''; '' @ rfc5322 (case ri_timestamp info of None \<Rightarrow> now | Some t \<Rightarrow> t)"
  have words: "control_free ''Received: from ''" "control_free ''by ''" "control_free ''unknown''"
    "control_free ''localhost''" "control_free '' (RESTMAIL) with ''" "control_free ''ESMTP''"
    "control_free '' id ''" "control_free ''for <''" "control_free ''>''" "control_free ''; ''"
    "control_free '' ([''" "control_free ''])''"
    by (simp_all add: is_control_def)
  have free: "control_free l1" "control_free l2" "control_free l3" "control_free d"
    using words date sanitize_header_token_control_free control_free_queue_id
    by (simp_all add: l1_def l2_def l3_def d_def for_addr_def control_free_or_default Let_def)
  have l1: "header_line l1"
    using free by (simp add: header_line_def l1_def is_control_def)
  let ?ls = "if for_addr \<noteq> [] then [tab @ l2, tab @ l3 @ d] else [tab @ l2 @ d]"
  have ls: "list_all continuation_line ?ls"
    using free by (auto simp: continuation_line_def tab_def)
  have "build_received_header rfc5322 b now info = concat (map (\<lambda>x. x @ crlf) (l1 # ?ls))"
    by (auto simp: build_received_header_def Let_def l1_def l2_def l3_def d_def for_addr_def)
  with l1 ls show ?thesis
    unfolding one_header_field_def by blast
qed

theorem received_header_is_one_field_witness:
  "one_header_field
     (build_received_header (\<lambda>t. ''Mon, 02 Jan 2006 15:04:05 -0700'') None 5
        \<lparr>ri_from = ''evil'' @ crlf @ ''Bcc: x'', ri_remote_ip = ''192.0.2.1'', ri_by = ''mx'',
         ri_with = ''ESMTPS'', ri_id = [], ri_for = ''u@d'', ri_timestamp = None\<rparr>)"
  by (rule received_header_is_one_field) (simp add: is_control_def)

section \<open>Message-IDs\<close>

lemma takeWhile_word: "list_all P w \<Longrightarrow> rest = [] \<or> \<not> P (hd rest) \<Longrightarrow> takeWhile P (w @ rest) = w"
  by (cases rest) (auto simp: list_all_iff takeWhile_append2)

definition atom_stop :: "string \<Rightarrow> bool" where
  "atom_stop rest \<longleftrightarrow> rest = [] \<or> (\<not> is_atext (hd rest) \<and> bcode (hd rest) \<noteq> 46)"

definition is_label :: "string \<Rightarrow> bool" where
  "is_label l \<longleftrightarrow> l \<noteq> [] \<and> list_all is_atext l"

lemma dot_not_atext: "\<not> is_atext (CHR ''.'')"
  by code_simp

lemma dot_atom_text_end_labels:
  "ls \<noteq> [] \<Longrightarrow> list_all is_label ls \<Longrightarrow> atom_stop rest \<Longrightarrow>
     dot_atom_text_end (p @ join ''.'' ls @ rest) (length p) = (length p + length (join ''.'' ls), True)"
proof (induction "''.''" ls arbitrary: p rule: join.induct)
  case (2 l)
  then have "takeWhile is_atext (l @ rest) = l"
    by (intro takeWhile_word) (auto simp: is_label_def atom_stop_def)
  with 2 show ?case
    by (subst dot_atom_text_end.simps)
      (auto simp: Let_def is_label_def atom_stop_def byte_at_def nth_append hd_conv_nth)
next
  case (3 l m ls)
  let ?rest = "''.'' @ join ''.'' (m # ls) @ rest"
  have tw: "takeWhile is_atext (l @ ?rest) = l"
    using 3 by (intro takeWhile_word) (auto simp: is_label_def dot_not_atext)
  have "dot_atom_text_end (p @ l @ ?rest) (length p) =
      dot_atom_text_end ((p @ l @ ''.'') @ join ''.'' (m # ls) @ rest) (length (p @ l @ ''.''))"
    using 3 tw by (subst dot_atom_text_end.simps)
      (auto simp: is_label_def byte_at_def nth_append Let_def)
  also have "\<dots> = (length (p @ l @ ''.'') + length (join ''.'' (m # ls)), True)"
    using 3 by (intro 3(1)) auto
  finally show ?case by simp
qed simp

lemma atext_hex: "n < 16 \<Longrightarrow> is_atext (hex_digit n)"
  by (auto simp: is_atext_def hex_digit_def is_digit_def is_lower_def)

lemma atext_hex_bytes: "list_all is_atext (hex_bytes bs)"
  by (induction bs) (auto simp: hex_bytes_def hex_byte_def atext_hex)

lemma hex_bytes_length [simp]: "length (hex_bytes bs) = 2 * length bs"
  by (induction bs) (auto simp: hex_bytes_def hex_byte_def)

lemma ascii_hex_bytes: "list_all is_ascii (hex_bytes bs)"
  by (induction bs) (auto simp: hex_bytes_def hex_byte_def hex_digit_def is_ascii_def)

lemma message_id_left_label: "is_label (message_id_left b)"
proof -
  have "is_atext (CHR ''-'')" by code_simp
  then show ?thesis by (auto simp: is_label_def message_id_left_def atext_hex_bytes)
qed

lemma message_id_left_length: "length b = 16 \<Longrightarrow> length (message_id_left b) = 36"
  by (simp add: message_id_left_def)

lemma message_id_left_ascii: "list_all is_ascii (message_id_left b)"
  by (auto simp: message_id_left_def ascii_hex_bytes is_ascii_def)

definition host_domain :: "string \<Rightarrow> bool" where
  "host_domain d \<longleftrightarrow> list_all is_label (split_byte (CHR ''.'') d) \<and> length d \<le> 253 \<and>
     list_all (\<lambda>c. is_ascii c \<and> \<not> is_control c) d"

lemma join_labels: "join ''.'' (split_byte (CHR ''.'') d) = d"
  by (rule join_split_byte)

lemma dot_atom_text_end_domain:
  "host_domain d \<Longrightarrow> atom_stop rest \<Longrightarrow>
     dot_atom_text_end (p @ d @ rest) (length p) = (length p + length d, True)"
  using dot_atom_text_end_labels [of "split_byte (CHR ''.'') d" rest p]
  by (simp add: host_domain_def join_labels)

lemma byte_at_append:
  "byte_at (p @ c # q) (length p) n \<longleftrightarrow> bcode c = n"
  by (simp add: byte_at_def nth_append)

lemma host_domain_bytes: "host_domain d \<Longrightarrow> c \<in> set d \<Longrightarrow> c = CHR ''.'' \<or> is_atext c"
  using set_join [of "''.''" "split_byte (CHR ''.'') d"]
  by (auto simp: join_labels host_domain_def is_label_def list_all_iff)

lemma host_domain_no_literal: "host_domain d \<Longrightarrow> \<not> byte_at (p @ d @ ''>'') (length p) 91"
proof
  assume h: "host_domain d" and b: "byte_at (p @ d @ ''>'') (length p) 91"
  have "\<not> is_atext (char_of (91 :: nat))" "char_of (91 :: nat) \<noteq> CHR ''.''" by code_simp+
  moreover have "char_of (91 :: nat) \<in> set d"
  proof (cases d)
    case Nil
    with b show ?thesis by (simp add: byte_at_def nth_append)
  next
    case (Cons x xs)
    with b have "bcode x = 91" by (simp add: byte_at_def nth_append)
    then have "char_of (91 :: nat) = x" by (metis char_of_code)
    with Cons show ?thesis by simp
  qed
  ultimately show False using host_domain_bytes [OF h] by metis
qed

lemma msg_id_end_generated:
  assumes d: "host_domain d"
  shows "msg_id_end (generate_message_id b d) 0 = Inr (length (generate_message_id b d))"
proof -
  let ?l = "message_id_left b"
  let ?s = "generate_message_id b d"
  have s1: "?s = [CHR ''<''] @ join ''.'' [?l] @ ''@'' @ d @ ''>''"
    and s2: "?s = (''<'' @ ?l @ ''@'') @ d @ ''>''"
    and s3: "?s = (''<'' @ ?l) @ CHR ''@'' # d @ ''>''"
    and s4: "?s = (''<'' @ ?l @ ''@'' @ d) @ CHR ''>'' # []"
    by (simp_all add: generate_message_id_def)
  have stop: "atom_stop (''@'' @ d @ ''>'')" "atom_stop ''>''"
    by (simp_all add: atom_stop_def, code_simp+)
  have first: "byte_at ?s 0 60" by (simp add: byte_at_def generate_message_id_def)
  have left: "dot_atom_text_end ?s (Suc 0) = (Suc (length ?l), True)"
    using dot_atom_text_end_labels [of "[?l]" "''@'' @ d @ ''>''" "''<''"] stop
    by (simp add: message_id_left_label s1)
  have noq: "\<not> byte_at ?s (Suc 0) 34"
  proof
    assume q: "byte_at ?s (Suc 0) 34"
    obtain x xs where x: "?l = x # xs" "is_atext x"
      using message_id_left_label [of b] by (cases ?l) (auto simp: is_label_def)
    with q have "bcode x = 34" by (simp add: byte_at_def generate_message_id_def)
    then have "x = char_of (34 :: nat)" by (metis char_of_code)
    moreover have "\<not> is_atext (char_of (34 :: nat))" by code_simp
    ultimately show False using x by simp
  qed
  have at: "byte_at ?s (Suc (length ?l)) 64"
    using byte_at_append [of "''<'' @ ?l" "CHR ''@''" "d @ ''>''" 64] s3 by simp
  have nolit: "\<not> byte_at ?s (Suc (Suc (length ?l))) 91"
    using host_domain_no_literal [OF d, of "''<'' @ ?l @ ''@''"] s2 by simp
  have right: "dot_atom_text_end ?s (Suc (Suc (length ?l))) = (Suc (Suc (length ?l)) + length d, True)"
    using dot_atom_text_end_domain [OF d stop(2), of "''<'' @ ?l @ ''@''"] s2 by simp
  have close: "byte_at ?s (Suc (Suc (length ?l)) + length d) 62"
    using byte_at_append [of "''<'' @ ?l @ ''@'' @ d" "CHR ''>''" "[]" 62] s4 by simp
  show ?thesis
    using first left noq at nolit right close
    by (simp add: msg_id_end_def) (simp add: generate_message_id_def)
qed

lemma generated_message_id_bytes:
  "host_domain d \<Longrightarrow> list_all (\<lambda>c. is_ascii c \<and> \<not> is_control c) (generate_message_id b d)"
proof -
  assume d: "host_domain d"
  have "\<not> is_control c" if "is_atext c" for c
    using that by (auto simp: is_atext_def is_control_def is_lower_def is_upper_def is_digit_def)
  then have "list_all (\<lambda>c. is_ascii c \<and> \<not> is_control c) (message_id_left b)"
    using message_id_left_label [of b] message_id_left_ascii [of b]
    by (auto simp: is_label_def list_all_iff)
  with d show ?thesis
    by (simp add: generate_message_id_def host_domain_def is_ascii_def is_control_def)
qed

text \<open>
  every Message-ID GenerateMessageID makes for a domain that is a DNS name passes
  ValidateMsgID, the syntax check a Message-ID field is held to.
\<close>

theorem generated_message_id_valid:
  assumes "length b = 16" and d: "host_domain d"
  shows "validate_msg_id (generate_message_id b d) = None"
proof -
  let ?s = "generate_message_id b d"
  have bytes: "list_all (\<lambda>c. is_ascii c \<and> \<not> is_control c) ?s"
    by (rule generated_message_id_bytes [OF d])
  then have asc: "list_all is_ascii ?s" by (auto simp: list_all_iff)
  then have runes: "runes ?s = map bcode ?s" "valid_utf8 ?s" using runes_ascii by auto
  have noctl: "\<not> list_ex (\<lambda>r. (r < 32 \<and> r \<noteq> 9) \<or> r = 127 \<or> (128 \<le> r \<and> r < 160)) (runes ?s)"
    using bytes by (auto simp: runes list_ex_iff list_all_iff is_ascii_def is_control_def)
  have len: "length ?s \<le> 998" "?s \<noteq> []"
    using assms by (simp_all add: generate_message_id_def message_id_left_length host_domain_def)
  have skip: "skip_wsp ?s 0 = 0"
    by (simp add: skip_wsp_def generate_message_id_def is_wsp_def)
  have "msg_id_loop ?s 0 0 = msg_id_loop ?s 1 (skip_wsp ?s (length ?s))"
    using len by (subst msg_id_loop.simps)
      (simp add: msg_id_end_generated [OF d] max_msg_id_length_def)
  also have "\<dots> = Inr 1"
    by (subst msg_id_loop.simps) (simp add: skip_wsp_def)
  finally show ?thesis
    using runes noctl skip by (simp add: validate_msg_id_def validate_msg_ids_def)
qed

theorem generated_message_id_valid_witness:
  "validate_msg_id (generate_message_id [1,2,3,4,5,6,7,8,9,10,11,12,13,14,15,255] ''mail.example.com'') = None"
  by (rule generated_message_id_valid) (simp, code_simp)

section \<open>Subaddresses\<close>

text \<open>
  StripSubaddress takes apart what subaddressing put together: for a base local part with no
  plus sign and a domain with no at sign, the address with the detail strips to the base address
  and the detail, and stripping the base again finds no tag.
\<close>

theorem strip_subaddress_roundtrip:
  assumes "local \<noteq> []" "CHR ''+'' \<notin> set local" "CHR ''@'' \<notin> set domain"
  shows "strip_subaddress (local @ ''+'' @ detail @ ''@'' @ domain) = (local @ ''@'' @ domain, detail, True)
       \<and> strip_subaddress (local @ ''@'' @ domain) = (local @ ''@'' @ domain, [], False)"
proof -
  have at1: "last_index_byte ((local @ ''+'' @ detail) @ CHR ''@'' # domain) (CHR ''@'')
      = Some (length (local @ ''+'' @ detail))"
    by (rule last_index_byte_append) (rule assms)
  have at2: "last_index_byte (local @ CHR ''@'' # domain) (CHR ''@'') = Some (length local)"
    by (rule last_index_byte_append) (rule assms)
  have p: "index_byte (local @ CHR ''+'' # detail) (CHR ''+'') = Some (length local)"
    by (rule index_byte_append) (rule assms)
  show ?thesis
    using at1 at2 p assms by (simp add: strip_subaddress_def)
qed

theorem strip_subaddress_roundtrip_witness:
  "strip_subaddress (''user'' @ ''+'' @ ''a+b'' @ ''@'' @ ''example.com'') = (''user'' @ ''@'' @ ''example.com'', ''a+b'', True)
   \<and> strip_subaddress (''user'' @ ''@'' @ ''example.com'') = (''user'' @ ''@'' @ ''example.com'', [], False)"
  by (rule strip_subaddress_roundtrip) simp_all

section \<open>Threads\<close>

definition no_space :: "string \<Rightarrow> bool" where
  "no_space s \<longleftrightarrow> list_all (\<lambda>c. \<not> is_space c) s"

lemma no_space_simps [simp]:
  "no_space []"
  "no_space (c # s) \<longleftrightarrow> \<not> is_space c \<and> no_space s"
  "no_space (s @ t) \<longleftrightarrow> no_space s \<and> no_space t"
  by (auto simp: no_space_def)

lemma no_space_subset: "set t \<subseteq> set s \<Longrightarrow> no_space s \<Longrightarrow> no_space t"
  by (auto simp: no_space_def list_all_iff)

lemma trim_no_space: "no_space s \<Longrightarrow> trim_space s = s"
  unfolding trim_space_def
  by (rule trim_with_id) (auto simp: no_space_def list_all_iff)

lemma trim_with_wrap:
  assumes c: "trim_with f t = c" "c \<noteq> []" and "f a" "f b"
  shows "trim_with f ([a] @ c @ [b]) = c"
proof -
  have ends: "\<not> f (hd c)" "\<not> f (last c)" using trim_with_ends [of f t] c by auto
  then have "dropWhile f ([a] @ c @ [b]) = c @ [b]"
    using assms by (cases c) auto
  moreover have "rev (dropWhile f (rev (c @ [b]))) = c"
    using assms ends by (simp add: dropWhile_rev_id)
  ultimately show ?thesis by (simp add: trim_with_def)
qed

lemma canonical_id_no_space:
  assumes "no_space s"
  shows "canonical_id s = (let c = trim_set s ''<>'' in if c = [] then [] else ''<'' @ c @ ''>'')"
proof -
  have "no_space (trim_set s ''<>'')"
    using assms set_trim_with no_space_subset unfolding trim_set_def by blast
  then show ?thesis
    using assms by (simp add: canonical_id_def trim_no_space)
qed

lemma canonical_id_result_no_space: "no_space s \<Longrightarrow> no_space (canonical_id s)"
proof -
  assume ns: "no_space s"
  then have "no_space (trim_set s ''<>'')"
    using set_trim_with no_space_subset unfolding trim_set_def by blast
  then show ?thesis
    using ns by (simp add: canonical_id_no_space Let_def is_space_def)
qed

lemma canonical_id_idem: "no_space s \<Longrightarrow> canonical_id (canonical_id s) = canonical_id s"
proof -
  assume ns: "no_space s"
  let ?c = "trim_set s ''<>''"
  show ?thesis
  proof (cases "?c = []")
    case True
    then have "canonical_id s = []" using canonical_id_no_space [OF ns] by simp
    then show ?thesis by (simp add: canonical_id_def go_defs)
  next
    case False
    then have t: "trim_set (''<'' @ ?c @ ''>'') ''<>'' = ?c"
      unfolding trim_set_def by (intro trim_with_wrap) auto
    have ns': "no_space (''<'' @ ?c @ ''>'')"
      using canonical_id_result_no_space [OF ns] False ns by (simp add: canonical_id_no_space)
    have "canonical_id s = ''<'' @ ?c @ ''>''"
      using False canonical_id_no_space [OF ns] by simp
    then show ?thesis
      using False t canonical_id_no_space [OF ns'] by simp
  qed
qed

lemma canonical_id_trim: "canonical_id (trim_space s) = canonical_id s"
  by (simp add: canonical_id_def trim_space_def trim_with_idem)

lemma thread_of_references:
  assumes "no_space f" "canonical_id f \<noteq> []"
  shows "header_thread_id m i (join '' '' (canonical_id f # ps)) = canonical_id f"
proof -
  have "no_space (canonical_id f)" by (rule canonical_id_result_no_space [OF assms(1)])
  with assms obtain ws where "str_fields (join '' '' (canonical_id f # ps)) = canonical_id f # ws"
    using fields_join_first [of "canonical_id f" ps] by (auto simp: no_space_def)
  with assms show ?thesis by (simp add: header_thread_id_def canonical_id_idem)
qed

lemma reply_references_first:
  assumes "ref # rs = (if str_fields references = [] \<and> length (str_fields in_reply_to) = 1
      then str_fields in_reply_to else str_fields references) @ [message_id]"
    and "canonical_id ref \<noteq> []"
  shows "\<exists>ps. reply_references message_id in_reply_to references = join '' '' (canonical_id ref # ps)"
proof -
  have "reply_references message_id in_reply_to references
      = join '' '' (filter (\<lambda>i. i \<noteq> []) (map canonical_id (ref # rs)))"
    unfolding assms(1) by (simp only: reply_references_def Let_def)
  with assms(2) show ?thesis by auto
qed

text \<open>
  a reply stays in its thread. A reply whose References field ReplyReferences wrote for a
  message has, whatever its own Message-ID and In-Reply-To, the thread id of that message, when
  the message has one and its In-Reply-To, where it is what the thread is known by, names one
  parent.
\<close>

theorem reply_keeps_thread:
  assumes one: "str_fields references \<noteq> [] \<or> length (str_fields in_reply_to) \<le> 1"
    and mid: "no_space (trim_space message_id)"
    and known: "header_thread_id message_id in_reply_to references \<noteq> []"
  shows "header_thread_id m i (reply_references message_id in_reply_to references)
    = header_thread_id message_id in_reply_to references"
proof (cases "str_fields references")
  case (Cons r rs)
  then have "no_space r" using fields_no_space [of r references] by (simp add: no_space_def)
  moreover from Cons known have "canonical_id r \<noteq> []" by (simp add: header_thread_id_def)
  moreover from this Cons obtain ps where
    "reply_references message_id in_reply_to references = join '' '' (canonical_id r # ps)"
    using reply_references_first [of r "rs @ [message_id]" references in_reply_to message_id] by auto
  moreover from Cons have "header_thread_id message_id in_reply_to references = canonical_id r"
    by (simp add: header_thread_id_def)
  ultimately show ?thesis by (simp add: thread_of_references)
next
  case refs: Nil
  show ?thesis
  proof (cases "str_fields in_reply_to")
    case (Cons p ps)
    with one refs have p: "str_fields in_reply_to = [p]" by (cases ps) auto
    then have ne: "in_reply_to \<noteq> []" by (auto simp: str_fields_def)
    have thr: "header_thread_id message_id in_reply_to references = canonical_id p"
      using refs ne canonical_id_trim [of in_reply_to] fields_trim_one [OF p]
      by (simp add: header_thread_id_def)
    have "no_space p" using fields_no_space [of p in_reply_to] p by (simp add: no_space_def)
    moreover obtain qs where
      "reply_references message_id in_reply_to references = join '' '' (canonical_id p # qs)"
      using reply_references_first [of p "[message_id]" references in_reply_to message_id]
        p refs known thr by auto
    ultimately show ?thesis using thr known by (simp add: thread_of_references)
  next
    case Nil
    then have "list_all is_space in_reply_to"
      using fields_from_Nil [of "[]" in_reply_to] by (simp add: str_fields_def)
    then have "canonical_id in_reply_to = []"
      by (simp add: canonical_id_def go_defs list_all_iff dropWhile_eq_Nil_conv [THEN iffD2])
    with known refs have thr: "header_thread_id message_id in_reply_to references = canonical_id message_id"
      by (auto simp: header_thread_id_def split: if_splits)
    have same: "canonical_id (trim_space message_id) = canonical_id message_id"
      by (rule canonical_id_trim)
    obtain qs where
      "reply_references message_id in_reply_to references = join '' '' (canonical_id message_id # qs)"
      using reply_references_first [of message_id "[]" references in_reply_to message_id]
        refs Nil known thr by auto
    then show ?thesis
      using thread_of_references [OF mid, of m i qs] same thr known by simp
  qed
qed

theorem reply_keeps_thread_witness:
  "header_thread_id ''<new@h>'' [] (reply_references ''<c@h>'' ''<b@h>'' ''<a@h> <b@h>'')
    = header_thread_id ''<c@h>'' ''<b@h>'' ''<a@h> <b@h>''"
  by (rule reply_keeps_thread) code_simp+

end
