(* ===== verification/Delivery_Errors.thy ===== *)
theory Delivery_Errors
  imports Mail_Address
begin

text \<open>
  What a failed delivery attempt is: the errors the outbound worker's delivery path returns
  (internal/gateway/queue/worker.go), their classification (classify.go) and the failure
  categories (internal/db/models/queue.go, suppression.go).

  A Go error is a tree here: a leaf of the kind \<open>errors.As\<close> and \<open>errors.Is\<close> look for, under the
  prefixes \<open>fmt.Errorf("...: %w", err)\<close> put before it. \<open>DnsErr\<close> carries net.DNSError's IsNotFound and
  Timeout, \<open>NetErr\<close> the Timeout of any other net.Error; context.DeadlineExceeded and net.ErrClosed
  are net.Errors too. The text of go-mtasts' EnforceError is the
  parameter \<open>enforce_text\<close>, the decoding of a JSON error body the parameter \<open>json_error_code\<close>.
\<close>

section \<open>Failure categories (models/queue.go)\<close>

datatype failure_category =
    FailureBadMailbox | FailureBadDomain | FailurePolicy | FailureOtherPermanent
  | FailureMailboxFull | FailureGreylisted | FailureRateLimited | FailureConnection
  | FailureTLS | FailureDNS | FailureOtherTransient

fun failure_permanent :: "failure_category \<Rightarrow> bool" where
  "failure_permanent FailureBadMailbox = True"
| "failure_permanent FailureBadDomain = True"
| "failure_permanent FailurePolicy = True"
| "failure_permanent FailureOtherPermanent = True"
| "failure_permanent _ = False"

fun failure_suppresses :: "failure_category \<Rightarrow> bool" where
  "failure_suppresses FailureBadMailbox = True"
| "failure_suppresses FailureBadDomain = True"
| "failure_suppresses _ = False"

text \<open>\<open>None\<close> is the empty category of a row no attempt of which has failed.\<close>

fun failure_description :: "failure_category option \<Rightarrow> string" where
  "failure_description (Some FailureBadMailbox) = ''The recipient's mailbox does not exist.''"
| "failure_description (Some FailureBadDomain) = ''The recipient's domain does not exist or accepts no mail.''"
| "failure_description (Some FailurePolicy) = ''The recipient's server refused the message by its policy, for example as spam or for failing sender authentication.''"
| "failure_description (Some FailureOtherPermanent) = ''The recipient's server refused the message.''"
| "failure_description (Some FailureMailboxFull) = ''The recipient's mailbox is full.''"
| "failure_description (Some FailureGreylisted) = ''The recipient's server kept asking for the message to be sent again later.''"
| "failure_description (Some FailureRateLimited) = ''The recipient's server is limiting how much mail it accepts from this server.''"
| "failure_description (Some FailureConnection) = ''The recipient's server could not be reached.''"
| "failure_description (Some FailureTLS) = ''A secure connection to the recipient's server could not be made.''"
| "failure_description (Some FailureDNS) = ''The recipient's domain could not be looked up.''"
| "failure_description (Some FailureOtherTransient) = ''The recipient's server could not accept the message.''"
| "failure_description None = []"

section \<open>Errors\<close>

record smtp_error =
  se_code :: int
  se_enhanced :: string
  se_message :: string
  se_remote_mta :: string

datatype go_error =
    SmtpErr smtp_error
  | TextprotoErr int string
  | DnsErr bool bool string
  | EnforceErr string string string
  | NetErr bool string
  | DeadlineExceeded
  | ContextCanceled
  | NetClosed
  | EofErr
  | UnexpectedEofErr
  | NotHostedErr
  | OtherErr string
  | Wrapped string go_error

fun cause :: "go_error \<Rightarrow> go_error" where
  "cause (Wrapped _ e) = cause e"
| "cause e = e"

definition smtp_error_string :: "smtp_error \<Rightarrow> string" where
  "smtp_error_string e =
     (if se_enhanced e \<noteq> []
      then ''SMTP '' @ int_dec (se_code e) @ '' '' @ se_enhanced e @ '': '' @ se_message e
      else ''SMTP '' @ int_dec (se_code e) @ '': '' @ se_message e)"

text \<open>\<open>%03d\<close> of a reply code.\<close>

definition dec3 :: "int \<Rightarrow> string" where
  "dec3 n = (let d = int_dec n in if 0 \<le> n then replicate (3 - length d) (CHR ''0'') @ d else d)"

fun error_text :: "(string \<Rightarrow> string \<Rightarrow> string \<Rightarrow> string) \<Rightarrow> go_error \<Rightarrow> string" where
  "error_text enforce_text (SmtpErr e) = smtp_error_string e"
| "error_text enforce_text (TextprotoErr code msg) = dec3 code @ '' '' @ msg"
| "error_text enforce_text (DnsErr _ _ t) = t"
| "error_text enforce_text (EnforceErr d h r) = enforce_text d h r"
| "error_text enforce_text (NetErr _ t) = t"
| "error_text enforce_text DeadlineExceeded = ''context deadline exceeded''"
| "error_text enforce_text ContextCanceled = ''context canceled''"
| "error_text enforce_text NetClosed = ''use of closed network connection''"
| "error_text enforce_text EofErr = ''EOF''"
| "error_text enforce_text UnexpectedEofErr = ''unexpected EOF''"
| "error_text enforce_text NotHostedErr = ''RESTMAIL discovery: domain not hosted by MX''"
| "error_text enforce_text (OtherErr t) = t"
| "error_text enforce_text (Wrapped p e) = p @ error_text enforce_text e"

definition is_enhanced_status :: "string \<Rightarrow> bool" where
  "is_enhanced_status s =
     (let parts = split_byte (CHR ''.'') s in
      if length parts \<noteq> 3 \<or> length (hd parts) \<noteq> 1 \<or> \<not> contains_any (hd parts) ''245'' then False
      else list_all (\<lambda>p. \<not> (p = [] \<or> 3 < length p \<or> trim_set p ''0123456789'' \<noteq> [])) (tl parts))"

definition parse_smtp_error ::
  "(string \<Rightarrow> string \<Rightarrow> string \<Rightarrow> string) \<Rightarrow> go_error \<Rightarrow> smtp_error" where
  "parse_smtp_error enforce_text err =
     (case cause err of
        TextprotoErr code msg \<Rightarrow>
          (let text = trim_space msg; (first, rest, _) = cut_byte (CHR '' '') text in
           if is_enhanced_status first
           then \<lparr>se_code = code, se_enhanced = first, se_message = rest, se_remote_mta = []\<rparr>
           else \<lparr>se_code = code, se_enhanced = [], se_message = text, se_remote_mta = []\<rparr>)
      | _ \<Rightarrow> \<lparr>se_code = 0, se_enhanced = [], se_message = error_text enforce_text err, se_remote_mta = []\<rparr>)"

definition smtp_error_from ::
  "(string \<Rightarrow> string \<Rightarrow> string \<Rightarrow> string) \<Rightarrow> go_error \<Rightarrow> smtp_error option" where
  "smtp_error_from enforce_text err =
     (case cause err of
        SmtpErr se \<Rightarrow> Some se
      | TextprotoErr code msg \<Rightarrow> Some (parse_smtp_error enforce_text (TextprotoErr code msg))
      | _ \<Rightarrow> None)"

definition dsn_status_code :: "smtp_error option \<Rightarrow> string" where
  "dsn_status_code smtp_err =
     (case smtp_err of
        None \<Rightarrow> ''5.0.0''
      | Some e \<Rightarrow>
          if se_enhanced e \<noteq> [] then se_enhanced e
          else if 400 \<le> se_code e \<and> se_code e < 600 then int_dec (se_code e div 100) @ ''.0.0''
          else ''5.0.0'')"

section \<open>Classification (classify.go)\<close>

definition greylist_phrases :: "string list" where
  "greylist_phrases = [''greylist'', ''graylist'', ''grey-list'', ''gray-list'']"

definition rate_limit_phrases :: "string list" where
  "rate_limit_phrases =
     [''rate limit'', ''rate-limit'', ''ratelimit'', ''at a rate'', ''unusual rate'', ''too many'',
      ''too quickly'', ''too fast'', ''throttl'', ''unexpected volume'', ''concurrent'', ''server busy'']"

definition mailbox_full_phrases :: "string list" where
  "mailbox_full_phrases =
     [''mailbox full'', ''mailbox is full'', ''inbox is full'', ''over quota'', ''quota exceeded'',
      ''exceeded storage'', ''out of storage'']"

definition tls_phrases :: "string list" where
  "tls_phrases = [''starttls'', ''tls required'', ''requires tls'', ''must use tls'']"

definition bad_mailbox_phrases :: "string list" where
  "bad_mailbox_phrases =
     [''does not exist'', ''doesn't exist'', ''no such user'', ''user unknown'', ''unknown user'',
      ''recipient not found'', ''recipnotfound'', ''recipientnotfound'', ''mailbox unavailable'',
      ''mailbox not found'', ''invalid recipient'', ''doesn't have a'', ''does not have a'',
      ''disabled'', ''inactive'']"

definition policy_phrases :: "string list" where
  "policy_phrases =
     [''spam'', ''block'', ''blacklist'', ''listed'', ''reputation'', ''policy'', ''dmarc'', ''spf'',
      ''dkim'', ''unauthenticated'', ''denied'']"

definition message_size_phrases :: "string list" where
  "message_size_phrases = [''size'', ''too large'', ''too big'']"

definition contains_any_phrase :: "string \<Rightarrow> string list \<Rightarrow> bool" where
  "contains_any_phrase text phrases \<longleftrightarrow> list_ex (\<lambda>p. contains text p) phrases"

definition parse_enhanced :: "string \<Rightarrow> (int \<times> int) option" where
  "parse_enhanced enhanced =
     (let parts = split_byte (CHR ''.'') enhanced in
      if length parts \<noteq> 3 \<or> parts ! 0 \<notin> {''2'', ''4'', ''5''} then None
      else case (atoi (parts ! 1), atoi (parts ! 2)) of
        (Some subject, Some detail) \<Rightarrow> Some (subject, detail)
      | _ \<Rightarrow> None)"

definition by_status_code :: "bool \<Rightarrow> int \<Rightarrow> int \<Rightarrow> failure_category option" where
  "by_status_code perm subject detail =
     (if subject = 2 \<and> detail = 2 then Some FailureMailboxFull
      else if \<not> perm then
        (if subject = 1 \<and> detail = 2 then Some FailureDNS
         else if subject = 4 \<and> (detail = 1 \<or> detail = 2) then Some FailureConnection
         else if subject = 4 \<and> detail = 3 then Some FailureDNS
         else if subject = 4 \<and> detail = 5 then Some FailureRateLimited
         else None)
      else if subject = 1 then
        (if detail \<in> {1, 3, 4, 6, 10} then Some FailureBadMailbox
         else if detail = 2 then Some FailureBadDomain
         else if detail = 7 \<or> detail = 8 then Some FailurePolicy
         else None)
      else if subject = 4 then
        (if detail = 1 then Some FailureBadMailbox
         else if detail = 4 then Some FailureBadDomain
         else None)
      else if subject = 7 then Some FailurePolicy
      else None)"

definition classify_text :: "bool \<Rightarrow> int \<Rightarrow> string \<Rightarrow> failure_category" where
  "classify_text perm code text =
     (if contains_any_phrase text mailbox_full_phrases then FailureMailboxFull
      else if \<not> perm \<and> contains_any_phrase text tls_phrases then FailureTLS
      else if perm \<and> contains_any_phrase text policy_phrases then FailurePolicy
      else if perm \<and> contains_any_phrase text bad_mailbox_phrases then FailureBadMailbox
      else if code = 551 \<or> code = 553 then FailureBadMailbox
      else if code = 552 \<and> \<not> contains_any_phrase text message_size_phrases then FailureMailboxFull
      else if code = 530 then FailurePolicy
      else if perm then FailureOtherPermanent
      else FailureOtherTransient)"

definition classify_reply :: "int \<Rightarrow> string \<Rightarrow> string \<Rightarrow> failure_category" where
  "classify_reply code enhanced text0 =
     (let perm = (500 \<le> code); text = to_lower text0 in
      if code = 521 \<or> code = 556 then FailureBadDomain
      else if \<not> perm \<and> contains_any_phrase text greylist_phrases then FailureGreylisted
      else if \<not> perm \<and> contains_any_phrase text rate_limit_phrases then FailureRateLimited
      else case parse_enhanced enhanced of
        Some (subject, detail) \<Rightarrow>
          (case by_status_code perm subject detail of
             Some c \<Rightarrow> c
           | None \<Rightarrow> classify_text perm code text)
      | None \<Rightarrow> classify_text perm code text)"

definition classify_no_reply ::
  "(string \<Rightarrow> string \<Rightarrow> string \<Rightarrow> string) \<Rightarrow> go_error \<Rightarrow> failure_category" where
  "classify_no_reply enforce_text err =
     (case cause err of
        DnsErr is_not_found _ _ \<Rightarrow> if is_not_found then FailureBadDomain else FailureDNS
      | EnforceErr _ _ _ \<Rightarrow> FailureTLS
      | _ \<Rightarrow>
          if smtp_error_from enforce_text err \<noteq> None then FailureConnection
          else (case cause err of
                  NetErr _ _ \<Rightarrow> FailureConnection
                | DeadlineExceeded \<Rightarrow> FailureConnection
                | NetClosed \<Rightarrow> FailureConnection
                | EofErr \<Rightarrow> FailureConnection
                | UnexpectedEofErr \<Rightarrow> FailureConnection
                | _ \<Rightarrow> FailureOtherTransient))"

definition classify_failure ::
  "(string \<Rightarrow> string \<Rightarrow> string \<Rightarrow> string) \<Rightarrow> go_error \<Rightarrow> failure_category" where
  "classify_failure enforce_text err =
     (case smtp_error_from enforce_text err of
        Some reply \<Rightarrow>
          if 400 \<le> se_code reply \<and> se_code reply < 600
          then classify_reply (se_code reply) (se_enhanced reply) (se_message reply)
          else classify_no_reply enforce_text err
      | None \<Rightarrow> classify_no_reply enforce_text err)"

section \<open>HTTP answers of a RESTMAIL endpoint (worker.go)\<close>

definition refusal :: "int \<Rightarrow> string \<Rightarrow> string \<Rightarrow> smtp_error" where
  "refusal code enhanced msg =
     \<lparr>se_code = code, se_enhanced = enhanced, se_message = msg, se_remote_mta = []\<rparr>"

definition restmail_refusal :: "(string \<Rightarrow> string) \<Rightarrow> int \<Rightarrow> string \<Rightarrow> smtp_error" where
  "restmail_refusal json_error_code status body =
     (let text = take 512 (trim_space body);
          msg = ''RESTMAIL delivery got HTTP '' @ int_dec status @ '': '' @ text in
      if status = 503 \<and> json_error_code body = ''deferred'' then
        refusal 451 ''4.7.1''
          (''deferred by the receiving server's inbound pipeline (greylisting or another filter), retry later: '' @ msg)
      else if status = 429 then refusal 451 ''4.7.0'' (''rate limited: '' @ msg)
      else if status = 408 \<or> status = 425 \<or> status < 400 \<or> 500 \<le> status then refusal 451 ''4.3.0'' msg
      else if status = 413 then refusal 552 ''5.3.4'' msg
      else refusal 550 ''5.0.0'' msg)"

definition restmail_failure :: "string \<Rightarrow> string \<Rightarrow> go_error option \<Rightarrow> go_error option" where
  "restmail_failure host domain err =
     (case err of
        None \<Rightarrow> None
      | Some e \<Rightarrow>
          if cause e = NotHostedErr then
            Some (SmtpErr (refusal 550 ''5.7.1''
              (''the REST Mail server '' @ host @ '' does not accept mail for '' @ domain @
               '' (RESTMAIL discovery answered not hosted)'')))
          else Some (Wrapped (''RESTMAIL delivery via '' @ host @ '' failed, not retried by SMTP: '') e))"

section \<open>Lemmas\<close>

lemma cause_Wrapped [simp]: "cause (Wrapped p e) = cause e"
  by simp

lemma by_status_code_permanent:
  "by_status_code True s d = Some c \<Longrightarrow> failure_permanent c \<or> c = FailureMailboxFull"
  by (auto simp: by_status_code_def split: if_splits)

lemma by_status_code_transient: "by_status_code False s d = Some c \<Longrightarrow> \<not> failure_permanent c"
  by (auto simp: by_status_code_def split: if_splits)

lemma classify_text_permanent:
  "failure_permanent (classify_text True code text) \<or> classify_text True code text = FailureMailboxFull"
  by (simp add: classify_text_def)

lemma classify_text_transient: "code < 500 \<Longrightarrow> \<not> failure_permanent (classify_text False code text)"
  by (simp add: classify_text_def)

lemma classify_reply_permanent:
  assumes "500 \<le> code"
  shows "failure_permanent (classify_reply code enhanced text) \<or>
         classify_reply code enhanced text = FailureMailboxFull"
  using assms classify_text_permanent [of code "to_lower text"]
  by (auto simp: classify_reply_def Let_def dest: by_status_code_permanent
      split: option.splits prod.splits)

lemma classify_reply_transient:
  assumes "code < 500" shows "\<not> failure_permanent (classify_reply code enhanced text)"
  using assms classify_text_transient [of code "to_lower text"]
  by (auto simp: classify_reply_def Let_def dest: by_status_code_transient
      split: option.splits prod.splits)

lemma mailbox_full_transient: "\<not> failure_permanent FailureMailboxFull"
  by simp

lemma classify_smtp:
  "400 \<le> se_code e \<Longrightarrow> se_code e < 600 \<Longrightarrow>
     classify_failure enforce_text (SmtpErr e) = classify_reply (se_code e) (se_enhanced e) (se_message e)"
  by (simp add: classify_failure_def smtp_error_from_def)

lemma classify_wrapped: "classify_failure enforce_text (Wrapped p e) = classify_failure enforce_text e"
  by (simp add: classify_failure_def smtp_error_from_def classify_no_reply_def split: go_error.splits)

lemma suppresses_permanent: "failure_suppresses c \<Longrightarrow> failure_permanent c"
  by (cases c) auto

text \<open>
  A reply with a code from 400 to 599, however deep \<open>fmt.Errorf\<close> wrapped it, is classified as
  permanent exactly when the code is a 5xx, with the one exception of a full mailbox, which is
  transient even as a 5xx. In particular a 4xx never bounces a message at once and never puts its
  recipient on the suppression list.
\<close>

theorem classification_follows_reply_code:
  assumes reply: "smtp_error_from enforce_text err = Some reply"
    and code: "400 \<le> se_code reply" "se_code reply < 600"
  shows "(failure_permanent (classify_failure enforce_text err) \<longleftrightarrow>
            500 \<le> se_code reply \<and> classify_failure enforce_text err \<noteq> FailureMailboxFull)
       \<and> classify_failure enforce_text (Wrapped prefix err) = classify_failure enforce_text err
       \<and> (failure_suppresses (classify_failure enforce_text err) \<longrightarrow> 500 \<le> se_code reply)"
proof -
  let ?c = "classify_reply (se_code reply) (se_enhanced reply) (se_message reply)"
  have c: "classify_failure enforce_text err = ?c"
    using reply code by (simp add: classify_failure_def)
  have perm: "failure_permanent ?c \<longleftrightarrow> 500 \<le> se_code reply \<and> ?c \<noteq> FailureMailboxFull"
    using classify_reply_permanent classify_reply_transient mailbox_full_transient by force
  show ?thesis
    using c perm suppresses_permanent [of ?c] by (auto simp: classify_wrapped)
qed

theorem classification_follows_reply_code_witness:
  "failure_permanent (classify_failure (\<lambda>d h r. r) (Wrapped ''all MX hosts failed: '' (TextprotoErr 550 ''5.1.1 user unknown'')))"
proof -
  let ?err = "Wrapped ''all MX hosts failed: '' (TextprotoErr 550 ''5.1.1 user unknown'')"
  let ?reply = "\<lparr>se_code = 550, se_enhanced = ''5.1.1'', se_message = ''user unknown'', se_remote_mta = []\<rparr>"
  have "smtp_error_from (\<lambda>d h r. r) ?err = Some ?reply" by code_simp
  moreover have "classify_failure (\<lambda>d h r. r) ?err \<noteq> FailureMailboxFull" by code_simp
  ultimately show ?thesis using classification_follows_reply_code [of "\<lambda>d h r. r" ?err ?reply] by simp
qed

text \<open>
  an HTTP answer that says to come back later, a 408, 425 or 429, any 5xx and any status
  below 400, never bounces a message pinned to RESTMAIL, whatever the answer's body says; a 503
  whose error code is deferred is retried on the greylisting schedule.
\<close>

theorem restmail_retry_later_never_bounces:
  assumes "status \<in> {408, 425, 429} \<or> status < 400 \<or> 500 \<le> status"
  shows "\<not> failure_permanent (classify_failure enforce_text
             (SmtpErr (restmail_refusal json_error_code status body)))
       \<and> (status = 503 \<and> json_error_code body = ''deferred'' \<longrightarrow>
            classify_failure enforce_text (SmtpErr (restmail_refusal json_error_code status body))
              = FailureGreylisted)"
proof -
  let ?r = "restmail_refusal json_error_code status body"
  have code: "se_code ?r = 451"
    using assms by (auto simp: restmail_refusal_def refusal_def Let_def)
  then have c: "classify_failure enforce_text (SmtpErr ?r) = classify_reply 451 (se_enhanced ?r) (se_message ?r)"
    by (simp add: classify_smtp)
  have "classify_failure enforce_text (SmtpErr ?r) = FailureGreylisted"
    if "status = 503" "json_error_code body = ''deferred''"
  proof -
    have "\<exists>t. to_lower (se_message ?r) =
        ''deferred by the receiving server's inbound pipeline ('' @ ''greylist'' @ t"
      using that by (simp add: restmail_refusal_def refusal_def Let_def to_lower_append)
        (simp add: to_lower_def lower_char_def is_upper_def)
    then have "contains (to_lower (se_message ?r)) ''greylist''"
      by (metis contains_append)
    then show ?thesis
      using c by (simp add: classify_reply_def contains_any_phrase_def greylist_phrases_def)
  qed
  with c show ?thesis by (simp add: classify_reply_transient)
qed

theorem restmail_retry_later_never_bounces_witness:
  "classify_failure (\<lambda>d h r. r) (SmtpErr (restmail_refusal (\<lambda>b. ''deferred'') 503 ''user unknown'')) = FailureGreylisted"
  using restmail_retry_later_never_bounces [of 503 "\<lambda>d h r. r" "\<lambda>b. ''deferred''" "''user unknown''"] by simp

text \<open>
  a message the receiving server refuses as too large, with HTTP 413, is classified as a full
  mailbox when the answer's words do not mention the size, so it is retried for the queue's whole
  lifetime instead of bouncing; the bad body a peer sends decides it.
\<close>

theorem restmail_too_large_retried:
  "classify_failure enforce_text (SmtpErr (restmail_refusal json_error_code 413 ''payload_too_large''))
     = FailureMailboxFull
   \<and> \<not> failure_permanent FailureMailboxFull"
proof -
  have r: "restmail_refusal json_error_code 413 ''payload_too_large''
      = refusal 552 ''5.3.4'' (''RESTMAIL delivery got HTTP 413: '' @ ''payload_too_large'')"
  proof -
    have "trim_space ''payload_too_large'' = ''payload_too_large''" "int_dec 413 = ''413''" by code_simp+
    then show ?thesis by (simp add: restmail_refusal_def Let_def)
  qed
  have "classify_reply 552 ''5.3.4'' (''RESTMAIL delivery got HTTP 413: '' @ ''payload_too_large'') = FailureMailboxFull"
    by code_simp
  then show ?thesis
    by (simp add: r classify_smtp refusal_def)
qed

end
