(* ===== verification/Queue_Retry.thy ===== *)
theory Queue_Retry
  imports Delivery_Errors
begin

text \<open>
  A row of the outbound queue (internal/db/models/queue.go) and when a failed attempt is tried
  again (internal/gateway/queue/retry.go).

  The jitter \<open>rand.Float64()\<close> is \<open>k / 2^53\<close> for a drawn \<open>k < 2^53\<close>, which is how package
  math/rand/v2 makes it; the product with the delay is computed exactly, without the rounding of
  a float64, and truncated as the conversion to a Duration does.
\<close>

section \<open>Rows\<close>

datatype queue_status = Pending | Delivering | Deferred | Delivered | Bounced | Expired

datatype transport = NoTransport | TransportRESTMAIL | TransportSMTP

record outbound_queue =
  oq_id :: nat
  oq_message_id :: "nat option"
  oq_sender :: string
  oq_recipient :: string
  oq_domain :: string
  oq_sending_domain :: string
  oq_raw_message :: string
  oq_body_type :: string
  oq_status :: queue_status
  oq_attempts :: int
  oq_last_attempt :: "time option"
  oq_next_attempt :: time
  oq_last_error :: string
  oq_last_error_code :: int
  oq_failure_category :: "failure_category option"
  oq_max_retries :: int
  oq_is_dsn :: bool
  oq_created_at :: time
  oq_expires_at :: time
  oq_arc_results :: string
  oq_arc_chain :: string
  oq_tls_report :: bool
  oq_require_tls :: bool
  oq_transport :: transport

definition queue_lifetime :: duration where "queue_lifetime = 5 * 24 * hour"

definition default_max_retries :: int where "default_max_retries = 60"

text \<open>The zero \<open>time.Time\<close>, midnight UTC of 1 January of year 1, on the Unix time line.\<close>

definition zero_time :: time where "zero_time = - 62135596800 * second"

definition before_create :: "time \<Rightarrow> outbound_queue \<Rightarrow> outbound_queue" where
  "before_create now q =
     (let q1 = (if oq_expires_at q = zero_time then q\<lparr>oq_expires_at := now + queue_lifetime\<rparr> else q)
      in if oq_max_retries q1 = 0 then q1\<lparr>oq_max_retries := default_max_retries\<rparr> else q1)"

section \<open>Schedules\<close>

record retry_schedule =
  rs_first :: duration
  rs_max :: duration
  rs_max_age :: duration

definition schedule :: "duration \<Rightarrow> duration \<Rightarrow> retry_schedule" where
  "schedule f m = \<lparr>rs_first = f, rs_max = m, rs_max_age = queue_lifetime\<rparr>"

fun retry_schedules :: "failure_category \<Rightarrow> retry_schedule option" where
  "retry_schedules FailureGreylisted = Some (schedule (7 * minute) (4 * hour))"
| "retry_schedules FailureRateLimited = Some (schedule (15 * minute) (4 * hour))"
| "retry_schedules FailureMailboxFull = Some (schedule hour (8 * hour))"
| "retry_schedules FailureTLS = Some (schedule (15 * minute) (4 * hour))"
| "retry_schedules FailureDNS = Some (schedule (5 * minute) (4 * hour))"
| "retry_schedules FailureConnection = Some (schedule (5 * minute) (4 * hour))"
| "retry_schedules FailureOtherTransient = Some (schedule (5 * minute) (4 * hour))"
| "retry_schedules _ = None"

definition schedule_for :: "failure_category \<Rightarrow> retry_schedule" where
  "schedule_for c =
     (case retry_schedules c of
        Some s \<Rightarrow> s
      | None \<Rightarrow> the (retry_schedules FailureOtherTransient))"

text \<open>The loop of delay: \<open>d *= 2\<close> on an \<open>int64\<close> while attempts are left and the cap is not reached.\<close>

function delay_loop :: "duration \<Rightarrow> int \<Rightarrow> int \<Rightarrow> duration \<Rightarrow> duration" where
  "delay_loop mx attempts i d =
     (if i < attempts \<and> d < mx then delay_loop mx attempts (i + 1) (int64 (d * 2)) else d)"
  by pat_completeness auto
termination by (relation "measure (\<lambda>(mx, attempts, i, d). nat (attempts - i))") auto

declare delay_loop.simps [simp del]

definition delay :: "retry_schedule \<Rightarrow> int \<Rightarrow> duration" where
  "delay s attempts = min (delay_loop (rs_max s) attempts 1 (rs_first s)) (rs_max s)"

definition jittered_delay :: "nat \<Rightarrow> retry_schedule \<Rightarrow> int \<Rightarrow> duration" where
  "jittered_delay k s attempts =
     (let d = delay s attempts * (4 * 2 ^ 53 + 2 * int k) div (5 * 2 ^ 53);
          d1 = (if rs_max s < d then rs_max s else d)
      in if d1 \<le> 0 then second else d1)"

definition retry_at ::
  "nat \<Rightarrow> outbound_queue \<Rightarrow> failure_category \<Rightarrow> time \<Rightarrow> time option" where
  "retry_at k item category now =
     (if oq_max_retries item \<le> oq_attempts item then None
      else
        (let s = schedule_for category;
             next = now + jittered_delay k s (oq_attempts item);
             deadline = oq_created_at item + rs_max_age s;
             deadline' = (if oq_expires_at item < deadline then oq_expires_at item else deadline)
         in if deadline' \<le> next then None else Some next))"

section \<open>Delays\<close>

definition schedule_ok :: "retry_schedule \<Rightarrow> bool" where
  "schedule_ok s \<longleftrightarrow> 0 < rs_first s \<and> rs_first s \<le> rs_max s \<and> rs_max s < 2 ^ 62"

lemma schedule_for_ok: "schedule_ok (schedule_for c)"
  by (cases c) (auto simp: schedule_for_def schedule_ok_def schedule_def duration_defs)

lemma delay_loop_bounds:
  "0 < d \<Longrightarrow> mx < 2 ^ 62 \<Longrightarrow> d \<le> delay_loop mx n i d"
proof (induction mx n i d rule: delay_loop.induct)
  case (1 mx n i d)
  show ?case
  proof (cases "i < n \<and> d < mx")
    case True
    with 1(3) have w: "int64 (d * 2) = d * 2" using 1(2) by (intro int64_id) auto
    have "d * 2 \<le> delay_loop mx n (i + 1) (int64 (d * 2))"
      using 1 True w by simp
    with True 1(2) show ?thesis by (subst delay_loop.simps) simp
  next
    case False
    then show ?thesis by (subst delay_loop.simps) auto
  qed
qed

lemma delay_bounds: "schedule_ok s \<Longrightarrow> rs_first s \<le> delay s n \<and> delay s n \<le> rs_max s"
  using delay_loop_bounds [of "rs_first s" "rs_max s" n 1] by (auto simp: schedule_ok_def delay_def)

text \<open>Without the cap the loop is the power of two the comment promises.\<close>

lemma delay_loop_power:
  "0 < d \<Longrightarrow> mx < 2 ^ 62 \<Longrightarrow> i \<le> n \<Longrightarrow> min (delay_loop mx n i d) mx = min (d * 2 ^ nat (n - i)) mx"
proof (induction mx n i d rule: delay_loop.induct)
  case (1 mx n i d)
  show ?case
  proof (cases "i < n \<and> d < mx")
    case True
    with 1(2,3) have w: "int64 (d * 2) = d * 2" by (intro int64_id) auto
    from True have e: "nat (n - i) = Suc (nat (n - (i + 1)))" by linarith
    have "min (delay_loop mx n (i + 1) (d * 2)) mx = min (d * 2 * 2 ^ nat (n - (i + 1))) mx"
      using 1 True w by simp
    with True w e show ?thesis by (subst delay_loop.simps) (simp add: mult.assoc)
  next
    case False
    then consider "i = n" | "mx \<le> d" using 1(4) by linarith
    then show ?thesis
    proof cases
      case 1
      then show ?thesis by (subst delay_loop.simps) auto
    next
      case 2
      have "d * 1 \<le> d * 2 ^ nat (n - i)"
        using 1(2) by (intro mult_left_mono) auto
      with 2 False show ?thesis by (subst delay_loop.simps) (auto simp: min_def)
    qed
  qed
qed

lemma delay_power:
  "schedule_ok s \<Longrightarrow> 1 \<le> n \<Longrightarrow> delay s n = min (rs_first s * 2 ^ nat (n - 1)) (rs_max s)"
  by (simp add: delay_def schedule_ok_def delay_loop_power)

lemma jitter_lower: "0 \<le> d \<Longrightarrow> 4 * d div 5 \<le> d * (4 * 2 ^ 53 + 2 * int k) div (5 * 2 ^ 53)"
proof -
  assume "0 \<le> d"
  then have "4 * d * 2 ^ 53 \<le> d * (4 * 2 ^ 53 + 2 * int k)" by (simp add: algebra_simps)
  then have "4 * d * 2 ^ 53 div (5 * 2 ^ 53) \<le> d * (4 * 2 ^ 53 + 2 * int k) div (5 * 2 ^ 53)"
    by (intro zdiv_mono1) auto
  then show ?thesis by simp
qed

lemma jittered_bounds:
  assumes "schedule_ok s" "5 \<le> rs_first s"
  shows "4 * delay s n div 5 \<le> jittered_delay k s n \<and> 0 < jittered_delay k s n \<and>
         jittered_delay k s n \<le> rs_max s"
proof -
  let ?d = "delay s n"
  let ?j = "?d * (4 * 2 ^ 53 + 2 * int k) div (5 * 2 ^ 53)"
  have d: "rs_first s \<le> ?d" "?d \<le> rs_max s" using delay_bounds [OF assms(1)] by auto
  then have j: "4 * ?d div 5 \<le> ?j" "4 * ?d div 5 \<le> rs_max s" "0 < 4 * ?d div 5"
    using assms jitter_lower [of ?d k] by (auto simp: schedule_ok_def)
  then show ?thesis by (auto simp: jittered_delay_def Let_def)
qed

lemma schedule_for_first: "5 \<le> rs_first (schedule_for c)"
  by (cases c) (auto simp: schedule_for_def schedule_def duration_defs)

lemmas schedule_for_jitter = jittered_bounds [OF schedule_for_ok schedule_for_first]

text \<open>
  C38: the backoff of every failure category is the first delay doubled after each attempt and
  capped, whatever the attempt counter holds: the \<open>int64\<close> never wraps around, and the jittered
  delay is positive, at least four fifths of it and never past the cap.
\<close>

theorem backoff_never_overflows:
  "(1 \<le> n \<longrightarrow> delay (schedule_for c) n
      = min (rs_first (schedule_for c) * 2 ^ nat (n - 1)) (rs_max (schedule_for c)))
   \<and> 4 * delay (schedule_for c) n div 5 \<le> jittered_delay k (schedule_for c) n
   \<and> 0 < jittered_delay k (schedule_for c) n
   \<and> jittered_delay k (schedule_for c) n \<le> rs_max (schedule_for c)"
  using delay_power [OF schedule_for_ok] schedule_for_jitter by blast

theorem backoff_never_overflows_witness:
  "delay (schedule_for FailureGreylisted) 70
      = min (rs_first (schedule_for FailureGreylisted) * 2 ^ nat (70 - 1)) (rs_max (schedule_for FailureGreylisted))"
  by (rule backoff_never_overflows [THEN conjunct1, rule_format]) simp

lemma retry_at_SomeD:
  assumes "retry_at k item c now = Some t"
  shows "now < t" "t < oq_expires_at item" "t < oq_created_at item + queue_lifetime"
    "oq_attempts item < oq_max_retries item"
    "t = now + jittered_delay k (schedule_for c) (oq_attempts item)"
proof -
  have age: "rs_max_age (schedule_for c) = queue_lifetime"
    by (cases c) (auto simp: schedule_for_def schedule_def)
  have pos: "0 < jittered_delay k (schedule_for c) (oq_attempts item)"
    using schedule_for_jitter by blast
  from assms age pos show "now < t" "t < oq_expires_at item" "t < oq_created_at item + queue_lifetime"
    "oq_attempts item < oq_max_retries item"
    "t = now + jittered_delay k (schedule_for c) (oq_attempts item)"
    by (auto simp: retry_at_def Let_def split: if_splits)
qed

text \<open>
  a retry is always scheduled strictly in the future and strictly before the row expires and
  before its lifetime ends, and only while its retry budget lasts; so no row is left deferred past
  its expiry, where no worker would pick it up again.
\<close>

theorem retry_within_deadline:
  assumes "retry_at k item c now = Some t"
  shows "now < t \<and> t < oq_expires_at item \<and> t < oq_created_at item + queue_lifetime \<and>
         oq_attempts item < oq_max_retries item"
  using retry_at_SomeD [OF assms] by blast

definition sample_row :: outbound_queue where
  "sample_row =
     \<lparr>oq_id = 1, oq_message_id = None, oq_sender = ''a@here.test'', oq_recipient = ''b@there.test'',
      oq_domain = ''there.test'', oq_sending_domain = [], oq_raw_message = ''Subject: hi'', oq_body_type = [],
      oq_status = Delivering, oq_attempts = 1, oq_last_attempt = Some 0, oq_next_attempt = 0,
      oq_last_error = [], oq_last_error_code = 0, oq_failure_category = None,
      oq_max_retries = default_max_retries, oq_is_dsn = False, oq_created_at = 0,
      oq_expires_at = queue_lifetime, oq_arc_results = [], oq_arc_chain = [], oq_tls_report = False,
      oq_require_tls = False, oq_transport = NoTransport\<rparr>"

lemma sample_retry: "retry_at 0 sample_row FailureGreylisted second = Some (second + 336 * second)"
  by code_simp

theorem retry_within_deadline_witness:
  "second < second + 336 * second \<and> second + 336 * second < oq_expires_at sample_row \<and>
   second + 336 * second < oq_created_at sample_row + queue_lifetime \<and>
   oq_attempts sample_row < oq_max_retries sample_row"
  by (rule retry_within_deadline [OF sample_retry])

section \<open>The retry budget outlasts the lifetime\<close>

text \<open>
  The attempts made on one row: the \<open>n\<close>th fails at a time \<open>now\<close> not before it began, of a category
  and with a jitter of its own, and the next attempt begins no earlier than the retry was set for.
\<close>

inductive attempts_made :: "outbound_queue \<Rightarrow> int \<Rightarrow> time \<Rightarrow> bool" for item where
  first_attempt: "oq_created_at item \<le> t \<Longrightarrow> attempts_made item 1 t"
| next_attempt: "attempts_made item n t \<Longrightarrow> t \<le> now \<Longrightarrow>
    retry_at k (item\<lparr>oq_attempts := n\<rparr>) c now = Some next \<Longrightarrow> next \<le> t' \<Longrightarrow>
    attempts_made item (n + 1) t'"

text \<open>The shortest wait any category allows after the \<open>n\<close>th attempt, and the sum of the first ones.\<close>

definition shortest_wait :: "nat \<Rightarrow> duration" where
  "shortest_wait n = 4 * min (5 * minute * 2 ^ (n - 1)) (4 * hour) div 5"

fun total_wait :: "nat \<Rightarrow> duration" where
  "total_wait 0 = 0"
| "total_wait (Suc n) = total_wait n + shortest_wait (Suc n)"

lemma shortest_wait_le:
  assumes "1 \<le> n" shows "shortest_wait n \<le> jittered_delay k (schedule_for c) (int n)"
proof -
  have f: "5 * minute \<le> rs_first (schedule_for c)" "4 * hour \<le> rs_max (schedule_for c)"
    by (cases c; simp add: schedule_for_def schedule_def duration_defs)+
  have p: "delay (schedule_for c) (int n)
      = min (rs_first (schedule_for c) * 2 ^ (n - 1)) (rs_max (schedule_for c))"
    using delay_power [OF schedule_for_ok, of "int n" c] assms by (simp add: nat_diff_distrib)
  have "5 * minute * 2 ^ (n - 1) \<le> rs_first (schedule_for c) * 2 ^ (n - 1)"
    using f by (intro mult_right_mono) auto
  then have "min (5 * minute * 2 ^ (n - 1)) (4 * hour) \<le> delay (schedule_for c) (int n)"
    using f p by linarith
  then have "shortest_wait n \<le> 4 * delay (schedule_for c) (int n) div 5"
    unfolding shortest_wait_def by (intro zdiv_mono1) auto
  also have "\<dots> \<le> jittered_delay k (schedule_for c) (int n)"
    using schedule_for_jitter by blast
  finally show ?thesis .
qed

lemma attempts_made_wait:
  "attempts_made item n t \<Longrightarrow> 1 \<le> n \<and> oq_created_at item + total_wait (nat (n - 1)) \<le> t"
proof (induction rule: attempts_made.induct)
  case (next_attempt n t now k c nx t')
  then obtain m where n: "n = int m" "1 \<le> m" by (metis int_nat_eq nat_int zle_int of_nat_1 dual_order.trans zero_le_one)
  have "nx = now + jittered_delay k (schedule_for c) (int m)"
    using retry_at_SomeD(5) [OF next_attempt(3)] n by simp
  moreover have "shortest_wait m \<le> jittered_delay k (schedule_for c) (int m)"
    using shortest_wait_le n by blast
  moreover have "total_wait (nat (n + 1 - 1)) = total_wait (nat (n - 1)) + shortest_wait m"
    using n by (cases m) (auto simp: nat_add_distrib)
  ultimately show ?case using next_attempt n by auto
qed auto

lemma total_wait_mono: "total_wait n \<le> total_wait (n + m)"
proof (induction m)
  case (Suc m)
  have "0 \<le> min (5 * minute * 2 ^ (n + m)) (4 * hour)" by (simp add: duration_defs)
  then have "0 \<le> shortest_wait (Suc (n + m))" by (simp add: shortest_wait_def pos_imp_zdiv_nonneg_iff)
  with Suc show ?case by simp
qed simp

lemma total_wait_59: "queue_lifetime < total_wait 59"
  by code_simp

text \<open>
  C36: the default retry budget of 60 attempts never runs out: whatever the categories of the
  failures and however short every jitter falls, the lifetime of five days ends the retrying
  before a sixtieth attempt is made.
\<close>

theorem deadline_ends_retrying:
  assumes "attempts_made item n t"
  shows "n < default_max_retries"
  using assms
proof (cases rule: attempts_made.cases)
  case first_attempt
  then show ?thesis by (simp add: default_max_retries_def)
next
  case (next_attempt n0 t0 now k c nx)
  have w: "1 \<le> n0" "oq_created_at item + total_wait (nat (n0 - 1)) \<le> t0"
    using attempts_made_wait next_attempt by blast+
  have "nx = now + jittered_delay k (schedule_for c) n0"
    "nx < oq_created_at item + queue_lifetime"
    using retry_at_SomeD [OF next_attempt(4)] by auto
  moreover have "shortest_wait (nat n0) \<le> jittered_delay k (schedule_for c) n0"
    using shortest_wait_le [of "nat n0"] w by simp
  ultimately have "total_wait (nat (n0 - 1)) + shortest_wait (nat n0) < queue_lifetime"
    using w next_attempt by linarith
  moreover have "nat n0 = Suc (nat (n0 - 1))" using w by simp
  ultimately have lt: "total_wait (nat n0) < queue_lifetime" by (metis total_wait.simps(2))
  have "\<not> 59 \<le> nat n0"
  proof
    assume "59 \<le> nat n0"
    then have "total_wait 59 \<le> total_wait (nat n0)"
      using total_wait_mono [of 59 "nat n0 - 59"] by simp
    with lt total_wait_59 show False by linarith
  qed
  then show ?thesis using next_attempt by (simp add: default_max_retries_def)
qed

theorem deadline_ends_retrying_witness: "(2 :: int) < default_max_retries"
proof -
  have "attempts_made sample_row (1 + 1) (second + 336 * second)"
  proof (rule attempts_made.next_attempt)
    show "attempts_made sample_row 1 0"
      by (rule attempts_made.first_attempt) (simp add: sample_row_def)
    show "0 \<le> second" by (simp add: second_def)
    have "sample_row\<lparr>oq_attempts := 1\<rparr> = sample_row" by (simp add: sample_row_def)
    then show "retry_at 0 (sample_row\<lparr>oq_attempts := 1\<rparr>) FailureGreylisted second = Some (second + 336 * second)"
      using sample_retry by simp
  qed simp
  then have "(1 + 1 :: int) < default_max_retries" by (rule deadline_ends_retrying)
  then show ?thesis by simp
qed

end
