(* ===== verification/Queue_Dsn.thy ===== *)
theory Queue_Dsn
  imports Queue_Retry
begin

text \<open>
  The delivery status notification a bounced message's sender gets (buildDSNMessage and
  dsnRecipientField of internal/gateway/queue/worker.go, containsNonASCII of smtputf8.go). The
  rendering of a time as RFC 1123 with a numeric zone is the parameter \<open>rfc1123z\<close>.
\<close>

definition contains_non_ascii :: "string \<Rightarrow> bool" where
  "contains_non_ascii s \<longleftrightarrow> list_ex (\<lambda>c. 128 \<le> bcode c) s"

fun hex_upper :: "nat \<Rightarrow> string" where
  "hex_upper n = (if n < 16 then [upper_char (hex_digit n)]
     else hex_upper (n div 16) @ [upper_char (hex_digit (n mod 16))])"

declare hex_upper.simps [simp del]

definition dsn_recipient_field :: "string \<Rightarrow> string" where
  "dsn_recipient_field addr =
     (if \<not> contains_non_ascii addr then ''rfc822; '' @ addr
      else ''utf-8; '' @ concat (map (\<lambda>r.
        if 127 < r \<or> (32 < r \<and> r < 127 \<and> r \<noteq> 43 \<and> r \<noteq> 61 \<and> r \<noteq> 92) then encode_rune r
        else CHR 0x5C # ''x{'' @ hex_upper r @ ''}'') (runes addr)))"

record built_dsn =
  dsn_message_id :: string
  dsn_raw :: string
  dsn_subject :: string
  dsn_human_part :: string

text \<open>The header section of the failed message, for the third part.\<close>

definition original_headers :: "string \<Rightarrow> string" where
  "original_headers raw =
     (case index_sub raw (crlf @ crlf) of
        Some i \<Rightarrow> take i raw
      | None \<Rightarrow>
          (case index_sub raw [CHR 0x0A, CHR 0x0A] of Some i \<Rightarrow> take i raw | None \<Rightarrow> raw))"

definition diagnostic_code :: "smtp_error option \<Rightarrow> string" where
  "diagnostic_code smtp_err =
     (case smtp_err of
        None \<Rightarrow> ''smtp; delivery failed''
      | Some e \<Rightarrow>
          if 0 < se_code e
          then ''smtp; '' @ int_dec (se_code e) @ '' '' @ sanitize_header_value (se_message e)
          else ''smtp; '' @ sanitize_header_value (se_message e))"

definition lines_crlf :: "string list \<Rightarrow> string" where
  "lines_crlf ls = concat (map (\<lambda>l. l @ crlf) ls)"

definition human_part :: "string \<Rightarrow> outbound_queue \<Rightarrow> smtp_error option \<Rightarrow> string" where
  "human_part hostname item smtp_err =
     (let recipient = sanitize_header_value (oq_recipient item);
          d = failure_description (oq_failure_category item);
          reason = (if d \<noteq> [] then d @ crlf @ crlf else []);
          attempted = (if 0 < oq_attempts item
            then ''The delivery has been attempted '' @ int_dec (oq_attempts item) @ '' time(s).'' @ crlf @ crlf
            else [])
      in ''This is the mail delivery system at '' @ hostname @ ''.'' @ crlf @ crlf @
         ''Your message could not be delivered to the following recipient:'' @ crlf @ crlf @
         ''    '' @ recipient @ crlf @ crlf @ reason @ attempted @
         ''Error: '' @ diagnostic_code smtp_err @ crlf)"

text \<open>The message/delivery-status part: the per-message fields, an empty line, the recipient's.\<close>

definition dsn_part ::
  "(time \<Rightarrow> string) \<Rightarrow> string \<Rightarrow> outbound_queue \<Rightarrow> smtp_error option \<Rightarrow> time \<Rightarrow> string list" where
  "dsn_part rfc1123z hostname item smtp_err last_attempt =
     (let recipient = sanitize_header_value (oq_recipient item);
          remote_mta = (case smtp_err of None \<Rightarrow> [] | Some e \<Rightarrow> sanitize_header_value (se_remote_mta e))
      in [''Reporting-MTA: dns; '' @ hostname,
          ''Arrival-Date: '' @ rfc1123z (oq_created_at item),
          [],
          ''Final-Recipient: '' @ dsn_recipient_field recipient,
          ''Action: failed'',
          ''Status: '' @ dsn_status_code smtp_err] @
         (if remote_mta \<noteq> [] then [''Remote-MTA: dns; '' @ remote_mta] else []) @
         [''Diagnostic-Code: '' @ diagnostic_code smtp_err,
          ''Last-Attempt-Date: '' @ rfc1123z last_attempt])"

definition dsn_boundary :: "time \<Rightarrow> string" where
  "dsn_boundary now = ''=_restmail_dsn_'' @ int_dec (int64 now)"

definition build_dsn_message ::
  "(time \<Rightarrow> string) \<Rightarrow> string \<Rightarrow> outbound_queue \<Rightarrow> smtp_error option \<Rightarrow> time \<Rightarrow> time \<Rightarrow> built_dsn" where
  "build_dsn_message rfc1123z hostname item smtp_err now last_attempt =
     (let boundary = dsn_boundary now;
          msg_id = ''<dsn-'' @ nat_dec (oq_id item) @ ''-'' @ int_dec (int64 now) @ ''@'' @ hostname @ ''>'';
          recipient = sanitize_header_value (oq_recipient item);
          sender = sanitize_header_value (oq_sender item);
          headers = original_headers (oq_raw_message item);
          human = human_part hostname item smtp_err;
          part = lines_crlf (dsn_part rfc1123z hostname item smtp_err last_attempt);
          report_type = (if contains_non_ascii part then ''global-delivery-status'' else ''delivery-status'');
          headers_type = (if contains_non_ascii headers then ''message/global-headers'' else ''text/rfc822-headers'');
          subject = ''Undelivered Mail Returned to Sender <'' @ recipient @ ''>''
      in \<lparr>dsn_message_id = msg_id,
          dsn_raw =
            lines_crlf
              [''From: mailer-daemon@'' @ hostname,
               ''To: '' @ sender,
               ''Subject: '' @ subject,
               ''Date: '' @ rfc1123z now,
               ''Message-ID: '' @ msg_id,
               ''Auto-Submitted: auto-generated'',
               ''MIME-Version: 1.0'',
               ''Content-Type: multipart/report; report-type='' @ report_type @ ''; boundary='' @
                 [CHR 0x22] @ boundary @ [CHR 0x22]] @
            crlf @
            ''--'' @ boundary @ crlf @
            ''Content-Type: text/plain; charset=utf-8'' @ crlf @ crlf @
            human @ crlf @
            ''--'' @ boundary @ crlf @
            ''Content-Type: message/'' @ report_type @ crlf @ crlf @
            part @ crlf @
            ''--'' @ boundary @ crlf @
            ''Content-Type: '' @ headers_type @ crlf @ crlf @
            headers @ crlf @
            ''--'' @ boundary @ ''--'' @ crlf,
          dsn_subject = subject,
          dsn_human_part = human\<rparr>)"

section \<open>No injection\<close>

lemma control_free_digit: "n < 10 \<Longrightarrow> \<not> is_control (digit_char n)"
  by (simp add: digit_char_def is_control_def)

lemma control_free_nat_dec [simp]: "control_free (nat_dec n)"
proof (induction n rule: nat_dec.induct)
  case (1 n)
  then show ?case by (subst nat_dec.simps) (auto simp: control_free_digit)
qed

lemma control_free_int_dec [simp]: "control_free (int_dec i)"
  by (simp add: int_dec_def is_control_def)

lemma control_free_hex_upper: "control_free (hex_upper n)"
proof (induction n rule: hex_upper.induct)
  case (1 n)
  have "\<not> is_control (upper_char (hex_digit m))" if "m < 16" for m
    using that by (auto simp: upper_char_def is_lower_def hex_digit_def is_control_def)
  with 1 show ?case by (subst hex_upper.simps) auto
qed

lemma control_free_concat_map: "(\<And>x. x \<in> set xs \<Longrightarrow> control_free (f x)) \<Longrightarrow> control_free (concat (map f xs))"
  by (induction xs) auto

lemma control_free_recipient_field:
  assumes "control_free addr" shows "control_free (dsn_recipient_field addr)"
proof -
  have "control_free (concat (map (\<lambda>r.
        if 127 < r \<or> (32 < r \<and> r < 127 \<and> r \<noteq> 43 \<and> r \<noteq> 61 \<and> r \<noteq> 92) then encode_rune r
        else CHR 0x5C # ''x{'' @ hex_upper r @ ''}'') (runes addr)))"
  proof (rule control_free_concat_map)
    fix r assume "r \<in> set (runes addr)"
    then have "r < 2097152" by (rule runes_bound)
    then show "control_free (if 127 < r \<or> (32 < r \<and> r < 127 \<and> r \<noteq> 43 \<and> r \<noteq> 61 \<and> r \<noteq> 92) then encode_rune r
        else CHR 0x5C # ''x{'' @ hex_upper r @ ''}'')"
      by (auto simp: control_free_hex_upper is_control_def control_rune_def intro!: control_free_encode_rune)
  qed
  with assms show ?thesis by (simp add: dsn_recipient_field_def is_control_def)
qed

lemma control_free_diagnostic: "control_free (diagnostic_code e)"
  by (auto simp: diagnostic_code_def sanitize_header_value_control_free is_control_def split: option.splits)

lemma enhanced_status_bytes: "is_enhanced_status s \<Longrightarrow> set s \<subseteq> set ''.0123456789''"
proof -
  assume e: "is_enhanced_status s"
  obtain p ps where parts: "split_byte (CHR ''.'') s = p # ps"
    by (meson neq_Nil_conv split_byte_not_Nil)
  have "set q \<subseteq> set ''0123456789''" if "q \<in> set ps" for q
    using e parts that by (intro trim_set_Nil) (auto simp: is_enhanced_status_def list_all_iff split: if_splits)
  then have ps: "\<forall>q \<in> set ps. set q \<subseteq> set ''0123456789''" by blast
  from e parts obtain c where "p = [c]" "c \<in> set ''245''"
    by (cases p) (auto simp: is_enhanced_status_def contains_any_def split: if_splits)
  then have p: "set p \<subseteq> set ''0123456789''" by auto
  have "set s \<subseteq> set ''.'' \<union> \<Union> (set ` set (p # ps))"
    using set_join [of "''.''" "p # ps"] parts join_split_byte [of "CHR ''.''" s] by simp
  with p ps show ?thesis by fastforce
qed

text \<open>An error of the delivery path: its enhanced code, if any, is one of RFC 3463's form.\<close>

definition enhanced_ok :: "smtp_error option \<Rightarrow> bool" where
  "enhanced_ok e = (case e of None \<Rightarrow> True | Some se \<Rightarrow> se_enhanced se = [] \<or> is_enhanced_status (se_enhanced se))"

lemma control_free_status: "enhanced_ok e \<Longrightarrow> control_free (dsn_status_code e)"
proof -
  assume ok: "enhanced_ok e"
  have "control_free s" if "is_enhanced_status s" for s
    by (rule control_free_subset [OF enhanced_status_bytes [OF that]]) (simp add: is_control_def)
  with ok show ?thesis
    by (auto simp: dsn_status_code_def enhanced_ok_def is_control_def split: option.splits)
qed

lemma parse_smtp_error_enhanced: "enhanced_ok (Some (parse_smtp_error enforce_text err))"
  by (auto simp: parse_smtp_error_def enhanced_ok_def Let_def split: go_error.splits prod.splits)

definition dsn_header_names :: "string list" where
  "dsn_header_names =
     [''From: '', ''To: '', ''Subject: '', ''Date: '', ''Message-ID: '', ''Auto-Submitted: '',
      ''MIME-Version: '', ''Content-Type: '']"

text \<open>
  C34: a bounce cannot be used to forge a header. Whatever the envelope addresses of the failed
  message and the remote server's reply hold, line breaks included, the notice's header section is
  exactly its eight fields, one line each with no control character, and every line of its
  delivery-status part is a line of its own too.
\<close>

theorem dsn_no_injection:
  assumes host: "control_free hostname" and date: "\<And>t. control_free (rfc1123z t)" and e: "enhanced_ok smtp_err"
  shows "(\<exists>hs body. dsn_raw (build_dsn_message rfc1123z hostname item smtp_err now last_attempt)
              = lines_crlf hs @ crlf @ body
            \<and> length hs = length dsn_header_names \<and> list_all2 has_prefix hs dsn_header_names
            \<and> list_all control_free hs)
       \<and> list_all control_free (dsn_part rfc1123z hostname item smtp_err last_attempt)"
proof -
  have part: "list_all control_free (dsn_part rfc1123z hostname item smtp_err last_attempt)"
    using host date sanitize_header_value_control_free control_free_recipient_field
      control_free_status [OF e] control_free_diagnostic
    by (auto simp: dsn_part_def Let_def is_control_def split: option.splits)
  have "\<exists>hs body. dsn_raw (build_dsn_message rfc1123z hostname item smtp_err now last_attempt)
              = lines_crlf hs @ crlf @ body
            \<and> length hs = length dsn_header_names \<and> list_all2 has_prefix hs dsn_header_names
            \<and> list_all control_free hs"
    unfolding build_dsn_message_def Let_def built_dsn.simps
    by (intro exI conjI, rule refl)
      (use host date sanitize_header_value_control_free in
        \<open>simp_all add: dsn_header_names_def dsn_boundary_def is_control_def\<close>)
  with part show ?thesis by blast
qed

theorem dsn_no_injection_witness:
  "(\<exists>hs body. dsn_raw (build_dsn_message (\<lambda>t. ''Mon, 02 Jan 2006 15:04:05 +0000'') ''mx.test''
                (sample_row\<lparr>oq_recipient := ''b@there.test'' @ crlf @ ''Bcc: x''\<rparr>)
                (Some (refusal 550 ''5.1.1'' (''no'' @ crlf @ ''X: y''))) 7 7)
              = lines_crlf hs @ crlf @ body
            \<and> length hs = length dsn_header_names \<and> list_all2 has_prefix hs dsn_header_names
            \<and> list_all control_free hs)
       \<and> list_all control_free (dsn_part (\<lambda>t. ''Mon, 02 Jan 2006 15:04:05 +0000'') ''mx.test''
            (sample_row\<lparr>oq_recipient := ''b@there.test'' @ crlf @ ''Bcc: x''\<rparr>)
            (Some (refusal 550 ''5.1.1'' (''no'' @ crlf @ ''X: y''))) 7)"
proof (rule dsn_no_injection)
  have "is_enhanced_status ''5.1.1''" by code_simp
  then show "enhanced_ok (Some (refusal 550 ''5.1.1'' (''no'' @ crlf @ ''X: y'')))"
    by (simp add: enhanced_ok_def refusal_def)
qed (simp_all add: is_control_def)

end
