(* ===== verification/Srs.thy ===== *)
theory Srs
  imports Mail_Address
begin

text \<open>
  Package internal/srs: the Sender Rewriting Scheme. HMAC-SHA256 is the parameter \<open>mac\<close>, a function
  of the secret and the bytes written to it that answers the bytes of the digest. \<open>rewriting_scheme\<close>
  is what a forwarder relies on; \<open>Srs\<close> interprets it on Rewrite and Reverse.
\<close>

section \<open>The contract\<close>

text \<open>
  A scheme encodes a sender at a time and decodes it at another, within a lifetime, under whatever
  key is then in use. What a client gets from that is that an address stands for one sender only.
\<close>

locale rewriting_scheme =
  fixes encode :: "'a \<Rightarrow> 't \<Rightarrow> 'b option"
    and decode :: "'b \<Rightarrow> 't \<Rightarrow> 'a option"
    and valid :: "'t \<Rightarrow> 't \<Rightarrow> bool"
  assumes decode_encode: "encode a t = Some b \<Longrightarrow> valid t t' \<Longrightarrow> decode b t' = Some a"
    and valid_refl: "encode a t = Some b \<Longrightarrow> valid t t"
begin

lemma encode_inj: "encode a t = Some b \<Longrightarrow> encode a' t = Some b \<Longrightarrow> a = a'"
  using decode_encode valid_refl by (metis option.inject)

lemma encode_inj_across:
  "encode a t = Some b \<Longrightarrow> encode a' u = Some b \<Longrightarrow> valid t v \<Longrightarrow> valid u v \<Longrightarrow> a = a'"
  using decode_encode by (metis option.inject)

end

section \<open>The scheme (srs.go)\<close>

definition lifetime :: int where "lifetime = 21"
definition srs_prefix :: string where "srs_prefix = ''SRS0=''"
definition hash_length :: nat where "hash_length = 4"
definition time_alphabet :: string where "time_alphabet = ''ABCDEFGHIJKLMNOPQRSTUVWXYZ234567''"
definition time_slots :: int where "time_slots = 1024"
definition seconds_in_day :: int where "seconds_in_day = 86400"

datatype srs_err = ErrForged | ErrExpired | ErrNotRewritable

record signer =
  current :: string
  previous :: "string option"

definition new_signer :: "string \<Rightarrow> string \<Rightarrow> signer option" where
  "new_signer cur prev =
     (if cur = [] then None
      else Some \<lparr>current = cur, previous = (if prev \<noteq> [] then Some prev else None)\<rparr>)"

definition is_address :: "string \<Rightarrow> bool" where
  "is_address address \<longleftrightarrow>
     length srs_prefix \<le> length address \<and> equal_fold (take (length srs_prefix) address) srs_prefix"

text \<open>The first block of \<open>base32.StdEncoding\<close>: five bytes in eight characters.\<close>

definition base32_block :: "nat list \<Rightarrow> string" where
  "base32_block bs =
     (let n = foldl (\<lambda>acc b. 256 * acc + int b mod 256) (0 :: int) (take 5 bs)
      in map (\<lambda>i. time_alphabet ! nat (n div 32 ^ (7 - i) mod 32)) [0..<8])"

definition srs_hash :: "(string \<Rightarrow> string \<Rightarrow> nat list) \<Rightarrow> string \<Rightarrow> string \<Rightarrow> string \<Rightarrow> string \<Rightarrow> string" where
  "srs_hash mac secret stamp domain local =
     (let msg = concat (map (\<lambda>field. to_lower field @ [CHR 0x00]) [stamp, domain, local])
      in take hash_length (base32_block (mac secret msg)))"

text \<open>\<open>now.Unix()\<close> rounds down to the second; the divisions of Go truncate, which for a time since
  1970 is the same.\<close>

definition day_slot :: "time \<Rightarrow> int" where
  "day_slot now = (now div second) div seconds_in_day mod time_slots"

definition timestamp :: "time \<Rightarrow> string" where
  "timestamp now =
     (let slot = day_slot now in [time_alphabet ! nat (slot div 32), time_alphabet ! nat (slot mod 32)])"

definition parse_timestamp :: "string \<Rightarrow> int option" where
  "parse_timestamp stamp0 =
     (if length stamp0 \<noteq> 2 then None
      else
        (let stamp = to_upper stamp0 in
         case (index_byte time_alphabet (stamp ! 0), index_byte time_alphabet (stamp ! 1)) of
           (Some high, Some low) \<Rightarrow> Some (32 * int high + int low)
         | _ \<Rightarrow> None))"

definition signed :: "(string \<Rightarrow> string \<Rightarrow> nat list) \<Rightarrow> signer \<Rightarrow> string \<Rightarrow> string \<Rightarrow> string \<Rightarrow> string \<Rightarrow> bool" where
  "signed mac s tag stamp domain local \<longleftrightarrow>
     to_upper tag = srs_hash mac (current s) stamp domain local \<or>
     (case previous s of
        None \<Rightarrow> False
      | Some p \<Rightarrow> to_upper tag = srs_hash mac p stamp domain local)"

definition rewrite ::
  "(string \<Rightarrow> string \<Rightarrow> nat list) \<Rightarrow> signer \<Rightarrow> string \<Rightarrow> string \<Rightarrow> time \<Rightarrow> srs_err + string" where
  "rewrite mac s sender forwarding_domain now =
     (if sender = [] then Inr []
      else case last_index_byte sender (CHR ''@'') of
        None \<Rightarrow> Inl ErrNotRewritable
      | Some at \<Rightarrow>
          if at = 0 \<or> at = length sender - 1 \<or> forwarding_domain = [] then Inl ErrNotRewritable
          else
            (let local = take at sender; domain = drop (at + 1) sender in
             if contains_any domain ''=[]'' then Inl ErrNotRewritable
             else
               (let stamp = timestamp now in
                Inr (srs_prefix @ srs_hash mac (current s) stamp domain local @ ''='' @ stamp @ ''='' @
                     domain @ ''='' @ local @ ''@'' @ forwarding_domain))))"

definition reverse ::
  "(string \<Rightarrow> string \<Rightarrow> nat list) \<Rightarrow> signer \<Rightarrow> string \<Rightarrow> time \<Rightarrow> srs_err + string" where
  "reverse mac s address now =
     (case last_index_byte address (CHR ''@'') of
        None \<Rightarrow> Inl ErrForged
      | Some at \<Rightarrow>
          if \<not> is_address address then Inl ErrForged
          else
            (let flds = split_n 4 (CHR ''='') (drop (length srs_prefix) (take at address)) in
             if length flds \<noteq> 4 then Inl ErrForged
             else
               (let tag = flds ! 0; stamp = flds ! 1; domain = flds ! 2; local = flds ! 3 in
                if length tag \<noteq> hash_length \<or> domain = [] \<or> local = [] then Inl ErrForged
                else case parse_timestamp stamp of
                  None \<Rightarrow> Inl ErrForged
                | Some slot \<Rightarrow>
                    if \<not> signed mac s tag stamp domain local then Inl ErrForged
                    else if lifetime < (day_slot now - slot + time_slots) mod time_slots then Inl ErrExpired
                    else Inr (local @ ''@'' @ domain))))"

section \<open>Time stamps and hashes\<close>

lemma time_alphabet_length [simp]: "length time_alphabet = 32"
  by (simp add: time_alphabet_def)

lemma time_alphabet_upper: "n < 32 \<Longrightarrow> upper_char (time_alphabet ! n) = time_alphabet ! n"
proof -
  assume "n < 32"
  moreover have "list_all (\<lambda>c. upper_char c = c) time_alphabet" by code_simp
  ultimately show ?thesis by (simp add: list_all_length)
qed

lemma time_alphabet_index: "n < 32 \<Longrightarrow> index_byte time_alphabet (time_alphabet ! n) = Some n"
proof -
  have "list_all (\<lambda>n. index_byte time_alphabet (time_alphabet ! n) = Some n) [0..<32]" by code_simp
  then show "n < 32 \<Longrightarrow> ?thesis" by (simp add: list_all_iff)
qed

lemma day_slot_range: "0 \<le> day_slot now \<and> day_slot now < 1024"
  by (simp add: day_slot_def time_slots_def)

lemma slot_digits: "nat (day_slot now div 32) < 32" "nat (day_slot now mod 32) < 32"
  using day_slot_range [of now] by auto

lemma parse_timestamp_timestamp: "parse_timestamp (timestamp now) = Some (day_slot now)"
proof -
  have up: "to_upper (timestamp now) = timestamp now"
    using slot_digits [of now] by (simp add: timestamp_def Let_def to_upper_def time_alphabet_upper)
  have "32 * int (nat (day_slot now div 32)) + int (nat (day_slot now mod 32)) = day_slot now"
    using day_slot_range [of now] by simp
  then show ?thesis
    using slot_digits [of now]
    by (simp add: parse_timestamp_def up) (simp add: timestamp_def Let_def time_alphabet_index)
qed

lemma timestamp_length: "length (timestamp now) = 2"
  by (simp add: timestamp_def Let_def)

lemma base32_block_length: "length (base32_block bs) = 8"
  by (simp add: base32_block_def Let_def)

lemma set_base32_block: "set (base32_block bs) \<subseteq> set time_alphabet"
  by (auto simp: base32_block_def Let_def intro!: nth_mem)

lemma srs_hash_length: "length (srs_hash mac k st d l) = 4"
  by (simp add: srs_hash_def Let_def hash_length_def base32_block_length)

lemma set_srs_hash: "set (srs_hash mac k st d l) \<subseteq> set time_alphabet"
  using set_base32_block by (auto simp: srs_hash_def Let_def dest!: in_set_takeD)

lemma srs_hash_upper: "to_upper (srs_hash mac k st d l) = srs_hash mac k st d l"
proof -
  have "upper_char c = c" if "c \<in> set time_alphabet" for c
    using that time_alphabet_upper by (metis in_set_conv_nth time_alphabet_length)
  with set_srs_hash show ?thesis
    unfolding to_upper_def by (intro map_idI) blast
qed

lemma alphabet_no_sep: "CHR ''='' \<notin> set time_alphabet" "CHR ''@'' \<notin> set time_alphabet"
  by (simp_all add: time_alphabet_def)

lemma set_timestamp: "set (timestamp now) \<subseteq> set time_alphabet"
  using slot_digits [of now] by (auto simp: timestamp_def Let_def intro!: nth_mem)

lemma split_four:
  "c \<notin> set x \<Longrightarrow> c \<notin> set y \<Longrightarrow> c \<notin> set z \<Longrightarrow> split_n 4 c (x @ c # y @ c # z @ c # r) = [x, y, z, r]"
  by (simp add: eval_nat_numeral index_byte_append)

section \<open>Rewriting and back\<close>

definition day :: "time \<Rightarrow> int" where
  "day t = (t div second) div seconds_in_day"

text \<open>Whether an address made at \<open>t\<close> is still good at \<open>t'\<close>.\<close>

definition fresh :: "time \<Rightarrow> time \<Rightarrow> bool" where
  "fresh t t' \<longleftrightarrow> day t \<le> day t' \<and> day t' \<le> day t + lifetime"

lemma slot_age:
  "day t \<le> day t' \<Longrightarrow> day t' - day t < time_slots \<Longrightarrow>
     (day_slot t' - day_slot t + time_slots) mod time_slots = day t' - day t"
proof -
  assume d: "day t \<le> day t'" "day t' - day t < time_slots"
  have "(day_slot t' - day_slot t + time_slots) mod time_slots = (day t' - day t) mod time_slots"
    unfolding day_slot_def day_def time_slots_def by (simp add: mod_diff_eq)
  with d show ?thesis by (simp add: mod_pos_pos_trivial)
qed

lemma rewrite_Inr:
  assumes "rewrite mac s sender fd now = Inr a" "sender \<noteq> []"
  obtains local domain where "sender = local @ ''@'' @ domain" "CHR ''@'' \<notin> set domain"
    "local \<noteq> []" "domain \<noteq> []" "CHR ''='' \<notin> set domain"
    "a = srs_prefix @ srs_hash mac (current s) (timestamp now) domain local @ ''='' @ timestamp now @ ''='' @
       domain @ ''='' @ local @ ''@'' @ fd"
proof -
  from assms obtain at where at: "last_index_byte sender (CHR ''@'') = Some at"
    by (cases "last_index_byte sender (CHR ''@'')") (auto simp: rewrite_def)
  note parts = last_index_byte_Some [OF at]
  let ?l = "take at sender" and ?d = "drop (Suc at) sender"
  from assms at have *: "at \<noteq> 0" "at \<noteq> length sender - 1" "\<not> contains_any ?d ''=[]''"
    "a = srs_prefix @ srs_hash mac (current s) (timestamp now) ?d ?l @ ''='' @ timestamp now @ ''='' @
       ?d @ ''='' @ ?l @ ''@'' @ fd"
    by (auto simp: rewrite_def Let_def split: if_splits)
  show thesis
  proof (rule that [of ?l ?d])
    show "sender = ?l @ ''@'' @ ?d" "CHR ''@'' \<notin> set ?d" using parts by simp_all
    show "?l \<noteq> []" "?d \<noteq> []" using parts *(1,2) by auto
    show "CHR ''='' \<notin> set ?d" by (rule contains_any_not [OF *(3)]) simp
  qed (rule *(4))
qed

lemma reverse_made:
  assumes local: "local \<noteq> []" and domain: "domain \<noteq> []" "CHR ''='' \<notin> set domain"
    and fd: "CHR ''@'' \<notin> set fd"
    and tag: "tag = srs_hash mac k (timestamp t) domain local" "k = current s \<or> previous s = Some k"
  shows "reverse mac s (srs_prefix @ tag @ ''='' @ timestamp t @ ''='' @ domain @ ''='' @ local @ ''@'' @ fd) t'
    = (if lifetime < (day_slot t' - day_slot t + time_slots) mod time_slots then Inl ErrExpired
       else Inr (local @ ''@'' @ domain))"
proof -
  let ?pre = "srs_prefix @ tag @ ''='' @ timestamp t @ ''='' @ domain @ ''='' @ local"
  let ?a = "?pre @ CHR ''@'' # fd"
  have at: "last_index_byte ?a (CHR ''@'') = Some (length ?pre)"
    by (rule last_index_byte_append [OF fd])
  have addr: "is_address ?a" by (simp add: is_address_def)
  have nosep: "CHR ''='' \<notin> set tag" "CHR ''='' \<notin> set (timestamp t)"
    using set_srs_hash set_timestamp alphabet_no_sep tag by blast+
  have split: "split_n 4 (CHR ''='') (drop (length srs_prefix) (take (length ?pre) ?a))
      = [tag, timestamp t, domain, local]"
  proof -
    have "take (length ?pre) ?a = ?pre" by (rule append_eq_conv_conj [THEN iffD1, THEN conjunct1, symmetric]) (rule refl)
    then have "drop (length srs_prefix) (take (length ?pre) ?a)
        = tag @ ''='' @ timestamp t @ ''='' @ domain @ ''='' @ local"
      by (simp only: append_eq_conv_conj [THEN iffD1, THEN conjunct2, symmetric, OF refl])
    then show ?thesis
      using split_four [of "CHR ''=''" tag "timestamp t" domain local] nosep domain by simp
  qed
  have sg: "signed mac s tag (timestamp t) domain local"
    using tag srs_hash_upper by (auto simp: signed_def)
  have len: "length tag = hash_length" using tag by (simp add: srs_hash_length hash_length_def)
  have "reverse mac s ?a t' = (if lifetime < (day_slot t' - day_slot t + time_slots) mod time_slots
      then Inl ErrExpired else Inr (local @ ''@'' @ domain))"
    unfolding reverse_def at option.case
    using addr len local domain sg by (simp only: split) (simp add: parse_timestamp_timestamp)
  then show ?thesis by simp
qed

lemma reverse_rewrite:
  assumes made: "rewrite mac s sender fd t = Inr a" and sender: "sender \<noteq> []"
    and fd: "CHR ''@'' \<notin> set fd"
    and keys: "current s' = current s \<or> previous s' = Some (current s)"
    and later: "day t \<le> day t'" "day t' < day t + time_slots"
  shows "reverse mac s' a t' = (if day t' \<le> day t + lifetime then Inr sender else Inl ErrExpired)"
proof -
  from rewrite_Inr [OF made sender] obtain local domain where p: "sender = local @ ''@'' @ domain"
    "CHR ''@'' \<notin> set domain" "local \<noteq> []" "domain \<noteq> []" "CHR ''='' \<notin> set domain"
    "a = srs_prefix @ srs_hash mac (current s) (timestamp t) domain local @ ''='' @ timestamp t @ ''='' @
       domain @ ''='' @ local @ ''@'' @ fd"
    by blast
  have "reverse mac s' a t' = (if lifetime < (day_slot t' - day_slot t + time_slots) mod time_slots
      then Inl ErrExpired else Inr sender)"
    unfolding p(6) p(1) by (rule reverse_made) (use p fd keys in auto)
  moreover have "(day_slot t' - day_slot t + time_slots) mod time_slots = day t' - day t"
    using later by (intro slot_age) auto
  ultimately show ?thesis by auto
qed

text \<open>
  C39: a bounce to a rewritten sender finds its way back. The address Rewrite makes for a sender is
  reversed to exactly that sender by any signer that has the signing secret as its current or its
  previous one, so also after the secret was rotated, through 21 days; from the 22nd day on, until
  the day counter comes round after 1024, it is refused as expired.
\<close>

theorem srs_round_trip:
  assumes made: "rewrite mac s sender fd t = Inr a" and sender: "sender \<noteq> []"
    and fd: "CHR ''@'' \<notin> set fd"
    and keys: "current s' = current s \<or> previous s' = Some (current s)"
    and later: "day t \<le> day t'" "day t' < day t + time_slots"
  shows "reverse mac s' a t' = (if day t' \<le> day t + lifetime then Inr sender else Inl ErrExpired)"
  by (rule reverse_rewrite) (use assms in auto)

theorem srs_round_trip_witness:
  "reverse (\<lambda>k m. [1,2,3,4,5]) \<lparr>current = ''new'', previous = Some ''old''\<rparr>
     ''SRS0=AEBA=AB=orig.example=al=ice@fwd.example'' (2 * 86400 * second)
   = (if day (2 * 86400 * second) \<le> day (86400 * second) + lifetime
      then Inr ''al=ice@orig.example'' else Inl ErrExpired)"
proof (rule srs_round_trip)
  show "rewrite (\<lambda>k m. [1,2,3,4,5]) \<lparr>current = ''old'', previous = None\<rparr> ''al=ice@orig.example'' ''fwd.example'' (86400 * second)
      = Inr ''SRS0=AEBA=AB=orig.example=al=ice@fwd.example''"
    by code_simp
  show "day (86400 * second) \<le> day (2 * 86400 * second)"
    "day (2 * 86400 * second) < day (86400 * second) + time_slots"
    by code_simp+
qed simp_all

text \<open>Rewriting under one forwarding domain meets the contract, whatever the MAC.\<close>

definition srs_encode ::
  "(string \<Rightarrow> string \<Rightarrow> nat list) \<Rightarrow> signer \<Rightarrow> string \<Rightarrow> string \<Rightarrow> time \<Rightarrow> string option" where
  "srs_encode mac s fd sender t =
     (if sender = [] \<or> CHR ''@'' \<in> set fd then None
      else case rewrite mac s sender fd t of Inr a \<Rightarrow> Some a | Inl _ \<Rightarrow> None)"

definition srs_decode :: "(string \<Rightarrow> string \<Rightarrow> nat list) \<Rightarrow> signer \<Rightarrow> string \<Rightarrow> time \<Rightarrow> string option" where
  "srs_decode mac s a t = (case reverse mac s a t of Inr x \<Rightarrow> Some x | Inl _ \<Rightarrow> None)"

interpretation srs_scheme: rewriting_scheme "srs_encode mac s fd" "srs_decode mac s" fresh
  for mac s fd
proof
  fix a t b t'
  assume enc: "srs_encode mac s fd a t = Some b" and fr: "fresh t t'"
  then have made: "rewrite mac s a fd t = Inr b" "a \<noteq> []" "CHR ''@'' \<notin> set fd"
    by (auto simp: srs_encode_def split: if_splits sum.splits)
  have d: "day t \<le> day t'" "day t' < day t + time_slots" "day t' \<le> day t + lifetime"
    using fr by (auto simp: fresh_def lifetime_def time_slots_def)
  have "reverse mac s b t' = Inr a"
    using reverse_rewrite [OF made _ d(1,2), of s] d(3) by simp
  then show "srs_decode mac s b t' = Some a" by (simp add: srs_decode_def)
next
  show "fresh t t" for t by (simp add: fresh_def lifetime_def)
qed

text \<open>
  two senders never share a rewritten address: addresses made under one forwarding domain by
  one signer, on the same day or on days close enough that both are still valid, differ when the
  senders do, even when the truncated hash collides.
\<close>

theorem srs_addresses_distinct:
  assumes "rewrite mac s a fd t = Inr b" "rewrite mac s a' fd u = Inr b" "a \<noteq> []" "a' \<noteq> []"
    and "CHR ''@'' \<notin> set fd" "fresh t v" "fresh u v"
  shows "a = a'"
  by (rule srs_scheme.encode_inj_across [of mac s fd a t b a' u v])
    (use assms in \<open>simp_all add: srs_encode_def\<close>)

theorem srs_addresses_distinct_witness: "''al=ice@orig.example'' = ''al=ice@orig.example''"
proof (rule srs_addresses_distinct)
  show "rewrite (\<lambda>k m. [1,2,3,4,5]) \<lparr>current = ''old'', previous = None\<rparr> ''al=ice@orig.example'' ''fwd.example'' (86400 * second)
      = Inr ''SRS0=AEBA=AB=orig.example=al=ice@fwd.example''"
    by code_simp
  then show "rewrite (\<lambda>k m. [1,2,3,4,5]) \<lparr>current = ''old'', previous = None\<rparr> ''al=ice@orig.example'' ''fwd.example'' (86400 * second)
      = Inr ''SRS0=AEBA=AB=orig.example=al=ice@fwd.example''" .
  show "fresh (86400 * second) (86400 * second)" by code_simp
  then show "fresh (86400 * second) (86400 * second)" .
qed simp_all

end
