(* ===== verification/Queue_Smtp.thy ===== *)
theory Queue_Smtp
  imports Queue_Dsn Srs
begin

text \<open>
  One SMTP conversation of the outbound worker: opening it and upgrading it to TLS (openSMTP), what
  has to hold before the message may go (deliverSMTPWith of internal/gateway/queue/worker.go,
  smtputf8.go), and the same towards an operator's relay (relay.go).

  A peer is what it answers at each step, \<open>None\<close> for a step that succeeds; a second connection to
  it may answer differently. The commands and data that leave this server are recorded as events,
  each with the security of the connection it left over; \<open>EvPost\<close> is a message POSTed to a RESTMAIL
  endpoint, always over HTTPS with the certificate verified. The bytes of the message after signing
  (prepareOutbound) are the parameter \<open>prepare\<close>, go-mtasts' \<open>MatchesMX\<close> and \<open>Evaluate\<close> the
  parameters \<open>matches_mx\<close> and \<open>evaluate\<close>.
\<close>

section \<open>Peers, policies and events\<close>

datatype security = Authenticated | Encrypted | Cleartext

record smtp_peer =
  pe_dial :: "go_error option"
  pe_greeting :: "go_error option"
  pe_hello :: "go_error option"
  pe_ext :: "string \<Rightarrow> bool"
  pe_starttls_strict :: "go_error option"
  pe_starttls_any :: "go_error option"
  pe_starttls_dane :: "go_error option"
  pe_cert_err :: "go_error option"
  pe_ext_tls :: "string \<Rightarrow> bool"
  pe_auth_mechs :: string
  pe_auth :: "go_error option"
  pe_mail :: "go_error option"
  pe_rcpt :: "go_error option"
  pe_data :: "go_error option"
  pe_write :: "go_error option"
  pe_final :: "go_error option"

datatype sts_mode = ModeNone | ModeTesting | ModeEnforce

record sts_policy =
  po_mode :: sts_mode
  po_mx :: "string list"

datatype event =
    EvMail string security bool string
  | EvRcpt string security string
  | EvData string security string
  | EvAuth string security
  | EvPost string string

type_synonym attempt = "event list \<times> go_error option"

text \<open>A DANE record set: the TLSA records of a host, abstract.\<close>

type_synonym tlsa = string

section \<open>Timers and blocks (smtp\_timeouts.go)\<close>

definition data_block_size :: int where "data_block_size = 65536"

text \<open>
  The blocks writeDataBlocks hands to the writer, each under a timer of its own: the rest of the
  message, or its first 64 KiB when it is longer.
\<close>

function write_data_blocks :: "string \<Rightarrow> string list" where
  "write_data_blocks raw =
     (if raw = [] then []
      else if int (length raw) \<le> data_block_size then [raw]
      else take (nat data_block_size) raw # write_data_blocks (drop (nat data_block_size) raw))"
  by pat_completeness auto
termination by (relation "measure length") (auto simp: data_block_size_def)

declare write_data_blocks.simps [simp del]

section \<open>Opening a conversation (worker.go)\<close>

record smtp_link =
  ln_security :: security
  ln_tls_err :: "go_error option"
  ln_cert_err :: "go_error option"
  ln_ext :: "string \<Rightarrow> bool"

definition wrap :: "string \<Rightarrow> go_error \<Rightarrow> go_error" where
  "wrap p e = Wrapped p e"

definition open_smtp ::
  "smtp_peer \<Rightarrow> string \<Rightarrow> string \<Rightarrow> bool \<Rightarrow> bool \<Rightarrow> tlsa list option \<Rightarrow> go_error + smtp_link" where
  "open_smtp peer addr host try_tls require_verified records =
     (case pe_dial peer of
        Some e \<Rightarrow> Inl (wrap (''connect to '' @ addr @ '': '') e)
      | None \<Rightarrow>
          (case pe_greeting peer of
             Some e \<Rightarrow> Inl (wrap (''SMTP client for '' @ addr @ '': '') e)
           | None \<Rightarrow>
               (case pe_hello peer of
                  Some e \<Rightarrow> Inl (wrap (''EHLO to '' @ host @ '': '') e)
                | None \<Rightarrow>
                    if \<not> try_tls \<or> \<not> pe_ext peer ''STARTTLS'' then
                      Inr \<lparr>ln_security = Cleartext, ln_tls_err = None, ln_cert_err = None, ln_ext = pe_ext peer\<rparr>
                    else
                      (let handshake =
                             (if records \<noteq> None then pe_starttls_dane peer
                              else if \<not> require_verified then pe_starttls_any peer
                              else pe_starttls_strict peer);
                           verify_err = (if records = None \<and> \<not> require_verified then pe_cert_err peer else None)
                       in case handshake of
                            Some e \<Rightarrow>
                              Inr \<lparr>ln_security = Cleartext, ln_tls_err = Some e, ln_cert_err = None,
                                   ln_ext = pe_ext peer\<rparr>
                          | None \<Rightarrow>
                              Inr \<lparr>ln_security = (if verify_err \<noteq> None then Encrypted else Authenticated),
                                   ln_tls_err = None, ln_cert_err = verify_err, ln_ext = pe_ext_tls peer\<rparr>))))"

section \<open>8-bit and internationalised mail\<close>

definition message_requires_8bit_transport :: "string \<Rightarrow> string \<Rightarrow> bool" where
  "message_requires_8bit_transport body_type raw \<longleftrightarrow>
     (let b = to_upper (trim_space body_type) in
      b = ''8BITMIME'' \<or> b = ''BINARYMIME'' \<or> list_ex (\<lambda>c. 128 \<le> bcode c) raw)"

definition smtp_envelope :: "(string \<Rightarrow> string option) \<Rightarrow> outbound_queue \<Rightarrow> smtp_error + string \<times> string" where
  "smtp_envelope to_ascii item =
     (case (smtp_address_ascii to_ascii (oq_sender item), smtp_address_ascii to_ascii (oq_recipient item)) of
        (Some sender, Some recipient) \<Rightarrow>
          if recipient = [] then Inl (refusal 550 ''5.1.3'' ''invalid SMTP envelope address'')
          else Inr (sender, recipient)
      | _ \<Rightarrow> Inl (refusal 550 ''5.1.3'' ''invalid SMTP envelope address''))"

definition host_refusal :: "int \<Rightarrow> string \<Rightarrow> string \<Rightarrow> string \<Rightarrow> go_error" where
  "host_refusal cod enhanced msg host =
     SmtpErr \<lparr>se_code = cod, se_enhanced = enhanced, se_message = msg, se_remote_mta = host\<rparr>"

definition cut_string :: "string \<Rightarrow> string \<Rightarrow> string \<times> bool" where
  "cut_string s sep = (case index_sub s sep of Some i \<Rightarrow> (take i s, True) | None \<Rightarrow> (s, False))"

definition check_smtp_utf8 ::
  "(string \<Rightarrow> bool) \<Rightarrow> string \<Rightarrow> string \<Rightarrow> string \<Rightarrow> string \<Rightarrow> go_error option" where
  "check_smtp_utf8 ext sender recipient raw host =
     (let status =
            (if contains_non_ascii sender \<or> contains_non_ascii recipient then ''5.6.7''
             else
               (let (h, found) = cut_string raw (crlf @ crlf);
                    headers = (if found then h else fst (cut_string raw [CHR 0x0A, CHR 0x0A]))
                in if contains_non_ascii headers then ''5.6.9'' else []))
      in if status = [] then None
         else if ext ''SMTPUTF8'' then
           (if \<not> ext ''8BITMIME''
            then Some (host_refusal 550 ''5.6.3'' ''SMTPUTF8 next hop does not support required 8BITMIME'' host)
            else None)
         else Some (host_refusal 550 status ''next hop does not support required SMTPUTF8'' host))"

section \<open>The envelope of a forward (worker.go)\<close>

definition sends_as :: "outbound_queue \<Rightarrow> string" where
  "sends_as item =
     (if oq_sending_domain item \<noteq> [] then oq_sending_domain item else domain_from_address (oq_sender item))"

text \<open>\<open>hosted\<close> is repositories.IsHostedDomain, \<open>Inl\<close> a failed lookup.\<close>

definition forward_sender ::
  "(string \<Rightarrow> string option) \<Rightarrow> (string \<Rightarrow> string \<Rightarrow> nat list) \<Rightarrow> (string \<Rightarrow> go_error + bool) \<Rightarrow>
   signer option \<Rightarrow> time \<Rightarrow> outbound_queue \<Rightarrow> go_error + string" where
  "forward_sender to_ascii mac hosted srs now item =
     (case srs of
        None \<Rightarrow> Inr (oq_sender item)
      | Some sg \<Rightarrow>
          if oq_arc_results item = [] \<or> oq_sender item = [] then Inr (oq_sender item)
          else case hosted (domain_from_address (oq_sender item)) of
            Inl e \<Rightarrow> Inl (Wrapped ''check whether the sender's domain is hosted here: '' e)
          | Inr True \<Rightarrow> Inr (oq_sender item)
          | Inr False \<Rightarrow>
              (case smtp_address_ascii to_ascii (oq_sender item) of
                 None \<Rightarrow> Inr (oq_sender item)
               | Some sender \<Rightarrow>
                   (case rewrite mac sg sender (oq_sending_domain item) now of
                      Inl _ \<Rightarrow> Inr (oq_sender item)
                    | Inr rewritten \<Rightarrow> Inr rewritten)))"

section \<open>Sending the message (worker.go)\<close>

text \<open>\<open>at_host\<close> is parseSMTPError with the peer's name put in.\<close>

definition at_host :: "(string \<Rightarrow> string \<Rightarrow> string \<Rightarrow> string) \<Rightarrow> string \<Rightarrow> go_error \<Rightarrow> go_error" where
  "at_host enforce_text host e = SmtpErr ((parse_smtp_error enforce_text e)\<lparr>se_remote_mta := host\<rparr>)"

text \<open>
  MAIL, RCPT and DATA over an open link; \<open>requiretls\<close> adds the REQUIRETLS parameter, and MAIL then
  goes by mailRequireTLS, which refuses a sender with a line break before anything is written.
\<close>

definition mail_transaction ::
  "(string \<Rightarrow> string \<Rightarrow> string \<Rightarrow> string) \<Rightarrow> smtp_peer \<Rightarrow> smtp_link \<Rightarrow> string \<Rightarrow> bool \<Rightarrow>
   string \<Rightarrow> string \<Rightarrow> string \<Rightarrow> attempt" where
  "mail_transaction enforce_text peer link host requiretls sender recipient raw =
     (if requiretls \<and> contains_any sender crlf then
        ([], Some (at_host enforce_text host (OtherErr ''smtp: a line must not contain CR or LF'')))
      else
        (let ev1 = EvMail host (ln_security link) requiretls sender in
         case pe_mail peer of
           Some e \<Rightarrow> ([ev1], Some (at_host enforce_text host e))
         | None \<Rightarrow>
             (let ev2 = EvRcpt host (ln_security link) recipient in
              case pe_rcpt peer of
                Some e \<Rightarrow> ([ev1, ev2], Some (at_host enforce_text host e))
              | None \<Rightarrow>
                  (case pe_data peer of
                     Some e \<Rightarrow> ([ev1, ev2], Some (Wrapped (''DATA to '' @ host @ '': '') e))
                   | None \<Rightarrow>
                       (let ev3 = EvData host (ln_security link) (concat (write_data_blocks raw)) in
                        case pe_write peer of
                          Some e \<Rightarrow> ([ev1, ev2, ev3], Some (Wrapped (''write message to '' @ host @ '': '') e))
                        | None \<Rightarrow>
                            ([ev1, ev2, ev3],
                             map_option (at_host enforce_text host) (pe_final peer)))))))"

record smtp_config =
  sc_enforce_text :: "string \<Rightarrow> string \<Rightarrow> string \<Rightarrow> string"
  sc_to_ascii :: "string \<Rightarrow> string option"
  sc_mac :: "string \<Rightarrow> string \<Rightarrow> nat list"
  sc_hosted :: "string \<Rightarrow> go_error + bool"
  sc_prepare :: "outbound_queue \<Rightarrow> go_error + string"
  sc_matches_mx :: "sts_policy \<Rightarrow> string \<Rightarrow> bool"
  sc_evaluate :: "sts_policy option \<Rightarrow> string \<Rightarrow> string \<Rightarrow> bool \<Rightarrow> bool \<Rightarrow> bool \<Rightarrow> go_error option"
  sc_srs :: "signer option"
  sc_sts_enforce :: bool
  sc_hostname :: string
  sc_now :: time

definition dane_refusal ::
  "(string \<Rightarrow> string \<Rightarrow> string \<Rightarrow> string) \<Rightarrow> string \<Rightarrow> smtp_link \<Rightarrow> go_error" where
  "dane_refusal enforce_text host link =
     host_refusal 451 ''4.7.5''
       (''DANE: no TLS session authenticated by '' @ host @ CHR 0x27 # ''s TLSA records: '' @
        (case ln_tls_err link of
           Some e \<Rightarrow> error_text enforce_text e
         | None \<Rightarrow> ''it does not offer STARTTLS'')) host"

definition effective_mode :: "bool \<Rightarrow> sts_policy option \<Rightarrow> sts_mode option" where
  "effective_mode sts_enforce policy =
     (case policy of
        None \<Rightarrow> None
      | Some p \<Rightarrow>
          if po_mode p = ModeEnforce \<and> \<not> sts_enforce then Some ModeTesting else Some (po_mode p))"

text \<open>What is asked of the link, once opened, before MAIL: the MTA-STS decision, 8BITMIME, SMTPUTF8.\<close>

definition send_over ::
  "smtp_config \<Rightarrow> smtp_peer \<Rightarrow> smtp_link \<Rightarrow> string \<Rightarrow> outbound_queue \<Rightarrow> sts_policy option \<Rightarrow> bool \<Rightarrow>
   string \<Rightarrow> string \<Rightarrow> attempt" where
  "send_over cfg peer link host item policy requiretls sender recipient =
     (case sc_evaluate cfg policy (oq_domain item) host (ln_security link \<noteq> Cleartext)
             (ln_security link = Authenticated) (\<not> sc_sts_enforce cfg) of
        Some decision \<Rightarrow> ([], Some decision)
      | None \<Rightarrow>
          if \<not> ln_ext link ''8BITMIME'' \<and> message_requires_8bit_transport (oq_body_type item) (oq_raw_message item)
          then ([], Some (host_refusal 550 ''5.6.3''
                  ''next hop does not support 8BITMIME and 7-bit conversion is not implemented'' host))
          else case check_smtp_utf8 (ln_ext link) sender recipient (oq_raw_message item) host of
            Some e \<Rightarrow> ([], Some e)
          | None \<Rightarrow> mail_transaction (sc_enforce_text cfg) peer link host requiretls sender recipient (oq_raw_message item))"

text \<open>
  The conversation with a host for a message prepared and its envelope made: first what is asked of
  the link that was opened, then opening it.
\<close>

definition smtp_converse_over ::
  "smtp_config \<Rightarrow> (nat \<Rightarrow> smtp_peer) \<Rightarrow> smtp_link \<Rightarrow> string \<Rightarrow> string \<Rightarrow> outbound_queue \<Rightarrow> sts_policy option \<Rightarrow>
   tlsa list option \<Rightarrow> bool \<Rightarrow> bool \<Rightarrow> string \<Rightarrow> string \<Rightarrow> attempt" where
  "smtp_converse_over cfg peers link addr host item policy records requiretls enforce sender recipient =
     (if records \<noteq> None \<and> (ln_tls_err link \<noteq> None \<or> ln_security link \<noteq> Authenticated) then
        ([], Some (dane_refusal (sc_enforce_text cfg) host link))
      else if requiretls \<and> (ln_tls_err link \<noteq> None \<or> ln_security link \<noteq> Authenticated) then
        ([], Some (host_refusal 550 ''5.7.10''
           (''REQUIRETLS: no TLS session with a certificate verified for '' @ host) host))
      else if requiretls \<and> \<not> ln_ext link ''REQUIRETLS'' then
        ([], Some (host_refusal 550 ''5.7.30''
           (''REQUIRETLS support required: '' @ host @ '' does not offer REQUIRETLS'') host))
      else if ln_tls_err link \<noteq> None \<and> \<not> enforce then
        (case open_smtp (peers 1) addr host False False None of
           Inl e \<Rightarrow> ([], Some e)
         | Inr link2 \<Rightarrow> send_over cfg (peers 1) link2 host item policy requiretls sender recipient)
      else send_over cfg (peers 0) link host item policy requiretls sender recipient)"

definition smtp_converse ::
  "smtp_config \<Rightarrow> (nat \<Rightarrow> smtp_peer) \<Rightarrow> string \<Rightarrow> string \<Rightarrow> outbound_queue \<Rightarrow> sts_policy option \<Rightarrow>
   tlsa list option \<Rightarrow> string \<Rightarrow> string \<Rightarrow> attempt" where
  "smtp_converse cfg peers addr host item policy records sender recipient =
     (let requiretls = (oq_require_tls item \<and> oq_sender item \<noteq> []);
          named = (case policy of None \<Rightarrow> False | Some p \<Rightarrow> po_mx p \<noteq> [] \<and> sc_matches_mx cfg p host);
          enforce = ((requiretls \<and> records = None) \<or>
            effective_mode (sc_sts_enforce cfg) policy = Some ModeEnforce)
      in if requiretls \<and> records = None \<and> \<not> named then
           ([], Some (host_refusal 550 ''5.7.10''
              (''REQUIRETLS: '' @ host @ '' is not an MX the recipient domain's MTA-STS policy names, and REST Mail does not validate DNSSEC'') host))
         else case open_smtp (peers 0) addr host True enforce records of
           Inl e \<Rightarrow> ([], Some e)
         | Inr link \<Rightarrow>
             smtp_converse_over cfg peers link addr host item policy records requiretls enforce sender recipient)"

definition deliver_smtp_with ::
  "smtp_config \<Rightarrow> (nat \<Rightarrow> smtp_peer) \<Rightarrow> string \<Rightarrow> string \<Rightarrow> outbound_queue \<Rightarrow> sts_policy option \<Rightarrow>
   tlsa list option \<Rightarrow> attempt" where
  "deliver_smtp_with cfg peers addr host item0 policy0 records =
     (let policy = (if records \<noteq> None then None else policy0) in
      case sc_prepare cfg item0 of
        Inl e \<Rightarrow> ([], Some (Wrapped ''prepare outbound message: '' e))
      | Inr prepared \<Rightarrow>
          (let item1 = item0\<lparr>oq_raw_message := prepared\<rparr> in
           case forward_sender (sc_to_ascii cfg) (sc_mac cfg) (sc_hosted cfg) (sc_srs cfg) (sc_now cfg) item1 of
             Inl e \<Rightarrow> ([], Some e)
           | Inr fs \<Rightarrow>
               (let item = item1\<lparr>oq_sender := fs\<rparr> in
                case smtp_envelope (sc_to_ascii cfg) item of
                  Inl e \<Rightarrow> ([], Some (SmtpErr e))
                | Inr (sender, recipient) \<Rightarrow>
                    smtp_converse cfg peers addr host item policy records sender recipient)))"

section \<open>What may leave\<close>

fun event_host :: "event \<Rightarrow> string" where
  "event_host (EvMail h _ _ _) = h"
| "event_host (EvRcpt h _ _) = h"
| "event_host (EvData h _ _) = h"
| "event_host (EvAuth h _) = h"
| "event_host (EvPost url _) = url"

fun event_security :: "event \<Rightarrow> security" where
  "event_security (EvMail _ s _ _) = s"
| "event_security (EvRcpt _ s _) = s"
| "event_security (EvData _ s _) = s"
| "event_security (EvAuth _ s) = s"
| "event_security (EvPost _ _) = Authenticated"

lemma write_data_blocks_concat: "concat (write_data_blocks raw) = raw"
proof (induction raw rule: write_data_blocks.induct)
  case (1 raw)
  then show ?case by (subst write_data_blocks.simps) (auto simp: data_block_size_def)
qed

lemma write_data_blocks_sizes:
  "b \<in> set (write_data_blocks raw) \<Longrightarrow> b \<noteq> [] \<and> int (length b) \<le> data_block_size"
proof (induction raw rule: write_data_blocks.induct)
  case (1 raw)
  then show ?case
    by (subst (asm) (2) write_data_blocks.simps) (auto simp: data_block_size_def split: if_splits)
qed

lemma mail_transaction_events:
  "ev \<in> set (fst (mail_transaction t peer link host rt sn rcp raw)) \<Longrightarrow>
     event_security ev = ln_security link \<and> event_host ev = host"
  by (auto simp: mail_transaction_def Let_def split: if_splits option.splits)

lemma mail_transaction_mail:
  "EvMail h s b x \<in> set (fst (mail_transaction t peer link host rt sn rcp raw)) \<Longrightarrow> b = rt \<and> x = sn"
  by (auto simp: mail_transaction_def Let_def split: if_splits option.splits)

lemma send_over_events:
  assumes "ev \<in> set (fst (send_over cfg peer link host item policy rt sn rcp))"
  shows "event_security ev = ln_security link"
    and "sc_evaluate cfg policy (oq_domain item) host (ln_security link \<noteq> Cleartext)
           (ln_security link = Authenticated) (\<not> sc_sts_enforce cfg) = None"
    and "ln_ext link ''8BITMIME'' \<or> \<not> message_requires_8bit_transport (oq_body_type item) (oq_raw_message item)"
  using assms by (auto simp: send_over_def dest: mail_transaction_events split: if_splits option.splits)

lemma open_smtp_authenticated:
  assumes "open_smtp peer addr host t rv records = Inr link" "ln_security link = Authenticated"
  shows "pe_ext peer ''STARTTLS''"
    and "records \<noteq> None \<longrightarrow> pe_starttls_dane peer = None"
    and "records = None \<longrightarrow> (if rv then pe_starttls_strict peer = None
           else pe_starttls_any peer = None \<and> pe_cert_err peer = None)"
  using assms by (auto simp: open_smtp_def Let_def split: option.splits if_splits)

text \<open>Nothing leaves but over a link on which the checks of the source held.\<close>

lemma send_over_mail:
  "EvMail h s b x \<in> set (fst (send_over cfg peer link host item policy rt sn rcp)) \<Longrightarrow> b = rt"
  by (auto simp: send_over_def dest: mail_transaction_mail split: if_splits option.splits)

definition requires_tls :: "outbound_queue \<Rightarrow> bool" where
  "requires_tls item \<longleftrightarrow> oq_require_tls item \<and> oq_sender item \<noteq> []"

lemma converse_over_sends:
  assumes "ev \<in> set (fst (smtp_converse_over cfg peers link addr host item policy records rt enforce sn rc))"
  shows "\<exists>peer link'. ev \<in> set (fst (send_over cfg peer link' host item policy rt sn rc)) \<and>
           (rt \<or> records \<noteq> None \<longrightarrow> ln_security link' = Authenticated)"
proof (cases "ln_tls_err link \<noteq> None \<and> \<not> enforce")
  case True
  with assms show ?thesis
    by (auto simp: smtp_converse_over_def split: if_splits sum.splits)
next
  case False
  with assms have "ev \<in> set (fst (send_over cfg (peers 0) link host item policy rt sn rc))"
    "rt \<or> records \<noteq> None \<longrightarrow> ln_security link = Authenticated"
    by (auto simp: smtp_converse_over_def split: if_splits)
  then show ?thesis by blast
qed

lemma converse_sends:
  assumes "ev \<in> set (fst (smtp_converse cfg peers addr host item policy records sn rc))"
  shows "\<exists>peer link. ev \<in> set (fst (send_over cfg peer link host item policy (requires_tls item) sn rc)) \<and>
           (requires_tls item \<or> records \<noteq> None \<longrightarrow> ln_security link = Authenticated)"
    and "requires_tls item \<Longrightarrow> records = None \<Longrightarrow> \<exists>p. policy = Some p \<and> sc_matches_mx cfg p host"
proof -
  let ?e = "(requires_tls item \<and> records = None) \<or> effective_mode (sc_sts_enforce cfg) policy = Some ModeEnforce"
  from assms obtain link where
    "ev \<in> set (fst (smtp_converse_over cfg peers link addr host item policy records (requires_tls item) ?e sn rc))"
    unfolding smtp_converse_def Let_def requires_tls_def [symmetric] by (force split: if_splits sum.splits)
  then show "\<exists>peer link. ev \<in> set (fst (send_over cfg peer link host item policy (requires_tls item) sn rc)) \<and>
      (requires_tls item \<or> records \<noteq> None \<longrightarrow> ln_security link = Authenticated)"
    by (rule converse_over_sends)
  show "requires_tls item \<Longrightarrow> records = None \<Longrightarrow> \<exists>p. policy = Some p \<and> sc_matches_mx cfg p host"
    using assms unfolding smtp_converse_def Let_def requires_tls_def [symmetric]
    by (cases policy) (auto split: if_splits)
qed

lemma converse_events:
  assumes ev: "ev \<in> set (fst (smtp_converse cfg peers addr host item policy records sender recipient))"
  shows "requires_tls item \<or> records \<noteq> None \<Longrightarrow> event_security ev = Authenticated"
    and "sc_evaluate cfg policy (oq_domain item) host (event_security ev \<noteq> Cleartext)
           (event_security ev = Authenticated) (\<not> sc_sts_enforce cfg) = None"
    and "ev = EvMail h s b x \<Longrightarrow> b = requires_tls item"
proof -
  from converse_sends(1) [OF ev] obtain peer link where
    l: "ev \<in> set (fst (send_over cfg peer link host item policy (requires_tls item) sender recipient))"
      "requires_tls item \<or> records \<noteq> None \<longrightarrow> ln_security link = Authenticated"
    by blast
  note s = send_over_events [OF l(1)]
  show "requires_tls item \<or> records \<noteq> None \<Longrightarrow> event_security ev = Authenticated"
    using s(1) l(2) by simp
  show "sc_evaluate cfg policy (oq_domain item) host (event_security ev \<noteq> Cleartext)
      (event_security ev = Authenticated) (\<not> sc_sts_enforce cfg) = None"
    using s(1,2) by simp
  show "ev = EvMail h s b x \<Longrightarrow> b = requires_tls item"
    using send_over_mail l(1) by blast
qed

lemma smtp_address_ascii_Nil: "smtp_address_ascii f a = Some s \<Longrightarrow> s = [] \<longleftrightarrow> a = []"
  by (auto simp: smtp_address_ascii_def Let_def last_index_byte_None
      split: if_splits option.splits)

lemma forward_sender_Nil: "forward_sender f mac hosted srs now item = Inr s \<Longrightarrow> s = [] \<longleftrightarrow> oq_sender item = []"
proof -
  have rw: "r \<noteq> []" if "rewrite mac sg a fd now = Inr r" "a \<noteq> []" for sg a fd r
    using rewrite_Inr [OF that] by (metis append_is_Nil_conv list.distinct(1) srs_prefix_def)
  assume "forward_sender f mac hosted srs now item = Inr s"
  then show ?thesis
    by (auto simp: forward_sender_def dest!: smtp_address_ascii_Nil dest: rw
        split: option.splits if_splits sum.splits bool.splits)
qed

lemma deliver_smtp_with_events:
  assumes ev: "ev \<in> set (fst (deliver_smtp_with cfg peers addr host item policy records))"
  obtains item' sender recipient where
    "oq_domain item' = oq_domain item" "requires_tls item' = requires_tls item"
    "ev \<in> set (fst (smtp_converse cfg peers addr host item'
        (if records \<noteq> None then None else policy) records sender recipient))"
proof -
  from ev obtain prepared fs sender recipient where *:
    "forward_sender (sc_to_ascii cfg) (sc_mac cfg) (sc_hosted cfg) (sc_srs cfg) (sc_now cfg)
       (item\<lparr>oq_raw_message := prepared\<rparr>) = Inr fs"
    "ev \<in> set (fst (smtp_converse cfg peers addr host (item\<lparr>oq_raw_message := prepared, oq_sender := fs\<rparr>)
        (if records \<noteq> None then None else policy) records sender recipient))"
    by (auto simp: deliver_smtp_with_def Let_def split: sum.splits prod.splits)
  show thesis
    by (rule that [OF _ _ *(2)]) (use forward_sender_Nil [OF *(1)] in \<open>auto simp: requires_tls_def\<close>)
qed

text \<open>
  C5: a message whose sender required TLS, and a message to a host with TLSA records, never leaves
  this server except over TLS authenticated for that host, no command and no byte of it: not in the
  clear and not over a certificate that did not verify, also when a handshake fails and the worker
  connects again. Without DANE the host is one the recipient's MTA-STS policy names, and MAIL
  carries REQUIRETLS.
\<close>

theorem required_tls_is_authenticated:
  assumes ev: "ev \<in> set (fst (deliver_smtp_with cfg peers addr host item policy records))"
    and req: "requires_tls item \<or> records \<noteq> None"
  shows "event_security ev = Authenticated
       \<and> (requires_tls item \<and> records = None \<longrightarrow> (\<exists>p. policy = Some p \<and> sc_matches_mx cfg p host))
       \<and> (\<forall>h s b x. ev = EvMail h s b x \<longrightarrow> b = requires_tls item)"
proof -
  from deliver_smtp_with_events [OF ev] obtain item' sender recipient where
    i: "requires_tls item' = requires_tls item"
      "ev \<in> set (fst (smtp_converse cfg peers addr host item'
        (if records \<noteq> None then None else policy) records sender recipient))"
    by blast
  note c = converse_events [OF i(2)]
  show ?thesis
    using c(1) c(3) converse_sends(2) [OF i(2)] req i(1) by (auto split: if_splits)
qed

text \<open>
  under an MTA-STS policy in enforce mode that the worker honours, nothing of a message leaves
  over a connection that is not TLS with a verified certificate, given that go-mtasts' Evaluate
  refuses, under such a policy, a session without TLS or whose certificate is not valid.
\<close>

theorem enforce_never_in_the_clear:
  assumes evaluate: "\<And>p d h tls cert. po_mode p = ModeEnforce \<Longrightarrow> \<not> (tls \<and> cert) \<Longrightarrow>
      sc_evaluate cfg (Some p) d h tls cert False \<noteq> None"
    and honoured: "sc_sts_enforce cfg" "po_mode p = ModeEnforce"
    and ev: "ev \<in> set (fst (deliver_smtp_with cfg peers addr host item (Some p) records))"
  shows "event_security ev = Authenticated"
proof -
  from deliver_smtp_with_events [OF ev] obtain item' sender recipient where
    i: "ev \<in> set (fst (smtp_converse cfg peers addr host item'
        (if records \<noteq> None then None else Some p) records sender recipient))"
    by blast
  show ?thesis
  proof (cases "records = None")
    case True
    then have "sc_evaluate cfg (Some p) (oq_domain item') host (event_security ev \<noteq> Cleartext)
        (event_security ev = Authenticated) False = None"
      using converse_events(2) [OF i] honoured by simp
    with evaluate [OF honoured(2)] show ?thesis by metis
  next
    case False
    with converse_events(1) [OF i] show ?thesis by simp
  qed
qed

section \<open>A peer that accepts\<close>

definition willing_peer :: smtp_peer where
  "willing_peer =
     \<lparr>pe_dial = None, pe_greeting = None, pe_hello = None, pe_ext = (\<lambda>e. True), pe_starttls_strict = None,
      pe_starttls_any = None, pe_starttls_dane = None, pe_cert_err = None, pe_ext_tls = (\<lambda>e. True),
      pe_auth_mechs = ''PLAIN LOGIN'', pe_auth = None, pe_mail = None, pe_rcpt = None, pe_data = None,
      pe_write = None, pe_final = None\<rparr>"

text \<open>A configuration whose Evaluate refuses, under an enforce policy, what is not verified TLS.\<close>

definition sample_config :: smtp_config where
  "sample_config =
     \<lparr>sc_enforce_text = (\<lambda>d h r. r), sc_to_ascii = Some, sc_mac = (\<lambda>k m. [1, 2, 3, 4, 5]),
      sc_hosted = (\<lambda>d. Inr True), sc_prepare = (\<lambda>q. Inr (oq_raw_message q)),
      sc_matches_mx = (\<lambda>p h. h \<in> set (po_mx p)),
      sc_evaluate = (\<lambda>p d h tls cert downgrade.
        case p of
          None \<Rightarrow> None
        | Some pol \<Rightarrow> if po_mode pol = ModeEnforce \<and> \<not> (tls \<and> cert) \<and> \<not> downgrade
                     then Some (EnforceErr d h ''no verified TLS'') else None),
      sc_srs = None, sc_sts_enforce = True, sc_hostname = ''mx.here.test'', sc_now = 0\<rparr>"

definition sample_policy :: sts_policy where
  "sample_policy = \<lparr>po_mode = ModeEnforce, po_mx = [''mx.there.test'']\<rparr>"

definition tls_row :: outbound_queue where
  "tls_row = sample_row\<lparr>oq_require_tls := True\<rparr>"

lemma sample_mail:
  "EvMail ''mx.there.test'' Authenticated True ''a@here.test'' \<in> set (fst (deliver_smtp_with sample_config
     (\<lambda>n. willing_peer) ''mx.there.test:25'' ''mx.there.test'' tls_row (Some sample_policy) None))"
  by code_simp

theorem required_tls_is_authenticated_witness:
  "event_security (EvMail ''mx.there.test'' Authenticated True ''a@here.test'') = Authenticated
   \<and> sc_matches_mx sample_config sample_policy ''mx.there.test'' \<and> requires_tls tls_row"
proof -
  have r: "requires_tls tls_row" by (simp add: requires_tls_def tls_row_def sample_row_def)
  then have "requires_tls tls_row \<or> (None :: tlsa list option) \<noteq> None" by simp
  from required_tls_is_authenticated [OF sample_mail this] r show ?thesis by simp
qed

theorem enforce_never_in_the_clear_witness:
  "event_security (EvMail ''mx.there.test'' Authenticated True ''a@here.test'') = Authenticated"
  by (rule enforce_never_in_the_clear [OF _ _ _ sample_mail])
    (simp_all add: sample_config_def sample_policy_def)

end
