(* ===== verification/Queue_Relay.thy ===== *)
theory Queue_Relay
  imports Queue_Smtp
begin

text \<open>
  Delivery through a sending domain's relay (internal/gateway/queue/relay.go and
  internal/db/models/relay.go). Decryption of the stored password (internal/crypto) is the parameter
  \<open>decrypt\<close>. A peer's \<open>pe_starttls_strict\<close> is its handshake with the certificate verified, of either
  TLS mode, and \<open>pe_cert_err = None\<close> that the connection then has a verified chain.
\<close>

section \<open>Settings\<close>

datatype relay_tls_mode = RelaySTARTTLS | RelayImplicitTLS | RelayOtherTLS string

record relay_settings =
  rl_host :: string
  rl_port :: int
  rl_mode :: relay_tls_mode
  rl_username :: string
  rl_password :: string

record domain_relay =
  dr_domain_id :: nat
  dr_transport :: string
  dr_host :: string
  dr_port :: int
  dr_tls_mode :: string
  dr_username :: string
  dr_password_enc :: string

definition host_label_byte :: "char \<Rightarrow> bool" where
  "host_label_byte c \<longleftrightarrow> is_lower c \<or> is_upper c \<or> is_digit c \<or> c = CHR ''-''"

definition valid_relay_host :: "string \<Rightarrow> bool" where
  "valid_relay_host host =
     (if parse_ip host \<noteq> None then True
      else if length host = 0 \<or> 253 < length host then False
      else list_all (\<lambda>label.
        \<not> (length label = 0 \<or> 63 < length label \<or> hd label = CHR ''-'' \<or> last label = CHR ''-'') \<and>
        list_all host_label_byte label) (split_byte (CHR ''.'') host))"

definition relay_validate :: "relay_settings \<Rightarrow> go_error option" where
  "relay_validate s =
     (if \<not> valid_relay_host (rl_host s) \<or> rl_port s < 1 \<or> 65535 < rl_port s then
        Some (OtherErr ''relay: invalid endpoint'')
      else if rl_mode s \<noteq> RelaySTARTTLS \<and> rl_mode s \<noteq> RelayImplicitTLS then
        Some (OtherErr ''relay: invalid TLS mode'')
      else if (rl_username s = []) \<noteq> (rl_password s = []) \<or> contains_control_char (rl_username s) \<or>
              contains_control_char (rl_password s) then
        Some (OtherErr ''relay: invalid credentials'')
      else None)"

definition relay_password_cipher_prefix :: string where
  "relay_password_cipher_prefix = ''relay:v1:''"

definition load_relay_password ::
  "(string \<Rightarrow> string \<Rightarrow> string option) \<Rightarrow> string \<Rightarrow> string \<Rightarrow> string option" where
  "load_relay_password decrypt stored master_key =
     (if stored = [] then Some []
      else if master_key = [] \<or> \<not> has_prefix stored relay_password_cipher_prefix then None
      else decrypt (trim_prefix stored relay_password_cipher_prefix) master_key)"

definition encrypt_relay_password ::
  "(string \<Rightarrow> string \<Rightarrow> string option) \<Rightarrow> string \<Rightarrow> string \<Rightarrow> string option" where
  "encrypt_relay_password encrypt password master_key =
     (if master_key = [] then None
      else map_option (\<lambda>enc. relay_password_cipher_prefix @ enc) (encrypt password master_key))"

section \<open>Failures\<close>

fun is_timeout :: "go_error \<Rightarrow> bool" where
  "is_timeout (NetErr t _) = t"
| "is_timeout (DnsErr _ t _) = t"
| "is_timeout DeadlineExceeded = True"
| "is_timeout _ = False"

definition relay_failure :: "go_error option \<Rightarrow> string \<Rightarrow> string \<Rightarrow> go_error \<Rightarrow> go_error" where
  "relay_failure ctx_err stage host err =
     (case ctx_err of
        Some ce \<Rightarrow> Wrapped (''relay '' @ stage @ '': '') ce
      | None \<Rightarrow>
          (case cause err of
             TextprotoErr cod msg \<Rightarrow>
               (let first = fst (cut_byte (CHR '' '') (trim_space msg));
                    enhanced = (if is_enhanced_status first then first else [])
                in host_refusal cod enhanced (''relay '' @ stage @ '' rejected'') host)
           | c \<Rightarrow>
               if is_timeout c then Wrapped (''relay '' @ stage @ '': '') DeadlineExceeded
               else if c \<in> {ContextCanceled, DeadlineExceeded, EofErr, UnexpectedEofErr, NetClosed}
               then Wrapped (''relay '' @ stage @ '': '') c
               else OtherErr (''relay '' @ stage @ '' failed'')))"

definition relay_has_mechanism :: "string \<Rightarrow> string \<Rightarrow> bool" where
  "relay_has_mechanism mechs want \<longleftrightarrow> list_ex (\<lambda>m. equal_fold m want) (str_fields mechs)"

section \<open>The conversation\<close>

definition relay_transaction ::
  "smtp_peer \<Rightarrow> go_error option \<Rightarrow> string \<Rightarrow> bool \<Rightarrow> string \<Rightarrow> string \<Rightarrow> string \<Rightarrow> attempt" where
  "relay_transaction peer ctx_err host requiretls sender recipient raw =
     (let fail = (\<lambda>stage e. Some (relay_failure ctx_err stage host e)) in
      if requiretls \<and> contains_any sender crlf then
        ([], fail ''MAIL'' (OtherErr ''smtp: a line must not contain CR or LF''))
      else
        (let ev1 = EvMail host Authenticated requiretls sender;
             ev2 = EvRcpt host Authenticated recipient;
             ev3 = EvData host Authenticated (concat (write_data_blocks raw)) in
         case pe_mail peer of
           Some e \<Rightarrow> ([ev1], fail ''MAIL'' e)
         | None \<Rightarrow>
             (case pe_rcpt peer of
                Some e \<Rightarrow> ([ev1, ev2], fail ''RCPT'' e)
              | None \<Rightarrow>
                  (case pe_data peer of
                     Some e \<Rightarrow> ([ev1, ev2], fail ''DATA'' e)
                   | None \<Rightarrow>
                       (case pe_write peer of
                          Some e \<Rightarrow> ([ev1, ev2, ev3], fail ''DATA write'' e)
                        | None \<Rightarrow>
                            (case pe_final peer of
                               Some e \<Rightarrow> ([ev1, ev2, ev3], fail ''DATA reply'' e)
                             | None \<Rightarrow> ([ev1, ev2, ev3], None)))))))"

text \<open>From the TLS state on: the checks in the order of the source, AUTH among them.\<close>

definition relay_secured ::
  "smtp_peer \<Rightarrow> go_error option \<Rightarrow> relay_settings \<Rightarrow> outbound_queue \<Rightarrow> string \<Rightarrow> string \<Rightarrow> attempt" where
  "relay_secured peer ctx_err s item sender recipient =
     (let requiretls = (oq_require_tls item \<and> oq_sender item \<noteq> []);
          auth = (if rl_username s = [] then ([], None)
                  else if \<not> pe_ext_tls peer ''AUTH'' \<or> \<not> relay_has_mechanism (pe_auth_mechs peer) ''PLAIN''
                  then ([], Some (OtherErr ''relay: AUTH PLAIN unavailable''))
                  else ([EvAuth (rl_host s) Authenticated],
                        map_option (relay_failure ctx_err ''AUTH'' (rl_host s)) (pe_auth peer)))
      in if pe_cert_err peer \<noteq> None then ([], Some (OtherErr ''relay: verified TLS required''))
         else if requiretls \<and> \<not> pe_ext_tls peer ''REQUIRETLS'' then
           ([], Some (host_refusal 550 ''5.7.30''
              (''REQUIRETLS support required: the relay '' @ rl_host s @ '' does not offer REQUIRETLS'') (rl_host s)))
         else case auth of
           (evs, Some e) \<Rightarrow> (evs, Some e)
         | (evs, None) \<Rightarrow>
             if \<not> pe_ext_tls peer ''8BITMIME'' \<and>
                message_requires_8bit_transport (oq_body_type item) (oq_raw_message item)
             then (evs, Some (host_refusal 550 ''5.6.3'' ''relay requires 8BITMIME'' (rl_host s)))
             else case check_smtp_utf8 (pe_ext_tls peer) sender recipient (oq_raw_message item) (rl_host s) of
               Some e \<Rightarrow> (evs, Some e)
             | None \<Rightarrow>
                 (let (evs2, r) = relay_transaction peer ctx_err (rl_host s) requiretls sender recipient (oq_raw_message item)
                  in (evs @ evs2, r)))"

definition relay_connect ::
  "smtp_peer \<Rightarrow> go_error option \<Rightarrow> relay_settings \<Rightarrow> outbound_queue \<Rightarrow> string \<Rightarrow> string \<Rightarrow> attempt" where
  "relay_connect peer ctx_err s item sender recipient =
     (let fail = (\<lambda>stage e. ([], Some (relay_failure ctx_err stage (rl_host s) e))) in
      case pe_dial peer of
        Some e \<Rightarrow> fail ''connect'' e
      | None \<Rightarrow>
          (case (if rl_mode s = RelayImplicitTLS then pe_starttls_strict peer else None) of
             Some e \<Rightarrow> fail ''TLS handshake'' e
           | None \<Rightarrow>
               (case pe_greeting peer of
                  Some e \<Rightarrow> fail ''greeting'' e
                | None \<Rightarrow>
                    (case pe_hello peer of
                       Some e \<Rightarrow> fail ''EHLO'' e
                     | None \<Rightarrow>
                         if rl_mode s = RelaySTARTTLS \<and> \<not> pe_ext peer ''STARTTLS'' then
                           ([], Some (OtherErr ''relay: required STARTTLS unavailable''))
                         else
                           (case (if rl_mode s = RelaySTARTTLS then pe_starttls_strict peer else None) of
                              Some e \<Rightarrow> fail ''STARTTLS'' e
                            | None \<Rightarrow> relay_secured peer ctx_err s item sender recipient)))))"

definition deliver_to_relay ::
  "smtp_config \<Rightarrow> smtp_peer \<Rightarrow> go_error option \<Rightarrow> relay_settings \<Rightarrow> outbound_queue \<Rightarrow> attempt" where
  "deliver_to_relay cfg peer ctx_err s item0 =
     (case relay_validate s of
        Some e \<Rightarrow> ([], Some e)
      | None \<Rightarrow>
          if contains_control_char (oq_sender item0) \<or> contains_control_char (oq_recipient item0) then
            ([], Some (SmtpErr (refusal 550 ''5.1.3'' ''address contains control characters'')))
          else if \<not> valid_relay_host (sc_hostname cfg) then
            ([], Some (OtherErr ''relay: invalid EHLO hostname''))
          else case forward_sender (sc_to_ascii cfg) (sc_mac cfg) (sc_hosted cfg) (sc_srs cfg) (sc_now cfg) item0 of
            Inl e \<Rightarrow> ([], Some e)
          | Inr fs \<Rightarrow>
              (let item = item0\<lparr>oq_sender := fs\<rparr> in
               case smtp_envelope (sc_to_ascii cfg) item of
                 Inl e \<Rightarrow> ([], Some (SmtpErr e))
               | Inr (sender, recipient) \<Rightarrow> relay_connect peer ctx_err s item sender recipient))"

definition deliver_via_relay ::
  "smtp_config \<Rightarrow> smtp_peer \<Rightarrow> relay_settings \<Rightarrow> outbound_queue \<Rightarrow> attempt" where
  "deliver_via_relay cfg peer s item =
     (case sc_prepare cfg item of
        Inl e \<Rightarrow> ([], Some (Wrapped ''prepare outbound message: '' e))
      | Inr prepared \<Rightarrow> deliver_to_relay cfg peer None s (item\<lparr>oq_raw_message := prepared\<rparr>))"

section \<open>The route\<close>

text \<open>
  \<open>relay_of\<close> is the query for the domain's relay row, by its name in any case: \<open>Inl\<close> a database
  error, \<open>Inr None\<close> no row.
\<close>

definition relay_route ::
  "(string \<Rightarrow> string \<Rightarrow> string option) \<Rightarrow> (string \<Rightarrow> go_error + domain_relay option) \<Rightarrow> string \<Rightarrow>
   outbound_queue \<Rightarrow> go_error + relay_settings option" where
  "relay_route decrypt relay_of master_key item =
     (let domain = sends_as item in
      if domain = [] then Inr None
      else case relay_of (to_lower domain) of
        Inl e \<Rightarrow> Inl (Wrapped (''relay: load settings for '' @ domain @ '': '') e)
      | Inr None \<Rightarrow> Inr None
      | Inr (Some rel) \<Rightarrow>
          if dr_transport rel \<noteq> ''relay'' then Inr None
          else case load_relay_password decrypt (dr_password_enc rel) master_key of
            None \<Rightarrow> Inl (Wrapped (''relay: credentials for '' @ domain @ '': '')
                        (OtherErr ''relay: stored password cannot be decrypted with MASTER_KEY''))
          | Some password \<Rightarrow>
              if dr_tls_mode rel = ''implicit'' then
                Inr (Some \<lparr>rl_host = dr_host rel, rl_port = dr_port rel, rl_mode = RelayImplicitTLS,
                           rl_username = dr_username rel, rl_password = password\<rparr>)
              else if dr_tls_mode rel \<noteq> ''starttls'' then
                Inl (OtherErr (''relay: invalid TLS mode for '' @ domain))
              else
                Inr (Some \<lparr>rl_host = dr_host rel, rl_port = dr_port rel, rl_mode = RelaySTARTTLS,
                           rl_username = dr_username rel, rl_password = password\<rparr>))"

section \<open>Credentials stay safe\<close>

lemma relay_transaction_events:
  "relay_transaction peer ctx_err host rt sn rc raw = (evs, r) \<Longrightarrow> ev \<in> set evs \<Longrightarrow>
     event_security ev = Authenticated \<and> event_host ev = host"
  by (auto simp: relay_transaction_def Let_def split: if_splits option.splits)

lemma relay_transaction_fst_events:
  "ev \<in> set (fst (relay_transaction peer ctx_err host rt sn rc raw)) \<Longrightarrow>
     event_security ev = Authenticated \<and> event_host ev = host"
  by (metis prod.collapse relay_transaction_events)

lemma relay_secured_events:
  assumes "ev \<in> set (fst (relay_secured peer ctx_err s item sn rc))"
  shows "event_security ev = Authenticated \<and> event_host ev = rl_host s \<and> pe_cert_err peer = None"
  using assms
  by (auto simp: relay_secured_def Let_def dest: relay_transaction_events relay_transaction_fst_events
      split: if_splits option.splits prod.splits)

lemma relay_connect_events:
  assumes "ev \<in> set (fst (relay_connect peer ctx_err s item sn rc))"
    and "rl_mode s = RelaySTARTTLS \<or> rl_mode s = RelayImplicitTLS"
  shows "event_security ev = Authenticated \<and> event_host ev = rl_host s \<and> pe_cert_err peer = None \<and>
         pe_starttls_strict peer = None"
  using assms
  by (auto simp: relay_connect_def Let_def dest: relay_secured_events split: if_splits option.splits)

lemma relay_validate_mode:
  "relay_validate s = None \<Longrightarrow> rl_mode s = RelaySTARTTLS \<or> rl_mode s = RelayImplicitTLS"
  by (auto simp: relay_validate_def split: if_splits)

text \<open>
  mail that goes by a relay goes to the relay the operator set and nowhere else, and neither the
  password nor a byte of the message is sent before a TLS handshake with a certificate verified for
  the relay, in either TLS mode.
\<close>

theorem relay_only_over_verified_tls:
  assumes ev: "ev \<in> set (fst (deliver_via_relay cfg peer s item))"
  shows "event_security ev = Authenticated \<and> event_host ev = rl_host s \<and> pe_cert_err peer = None \<and>
         pe_starttls_strict peer = None"
proof -
  from ev obtain item' sn rc where valid: "relay_validate s = None"
    and c: "ev \<in> set (fst (relay_connect peer None s item' sn rc))"
    by (auto simp: deliver_via_relay_def deliver_to_relay_def Let_def
        split: sum.splits option.splits if_splits prod.splits)
  show ?thesis by (rule relay_connect_events [OF c relay_validate_mode [OF valid]])
qed

definition sample_relay :: relay_settings where
  "sample_relay = \<lparr>rl_host = ''relay.test'', rl_port = 587, rl_mode = RelaySTARTTLS, rl_username = ''u'', rl_password = ''p''\<rparr>"

lemma sample_auth:
  "EvAuth ''relay.test'' Authenticated \<in> set (fst (deliver_via_relay sample_config willing_peer sample_relay sample_row))"
  by code_simp

theorem relay_only_over_verified_tls_witness:
  "event_security (EvAuth ''relay.test'' Authenticated) = Authenticated \<and>
   event_host (EvAuth ''relay.test'' Authenticated) = rl_host sample_relay \<and>
   pe_cert_err willing_peer = None \<and> pe_starttls_strict willing_peer = None"
  by (rule relay_only_over_verified_tls [OF sample_auth])

text \<open>
  what a relay says to a rejected login never reaches the queue row or the bounce: the error kept
  of a reply depends on its code and the enhanced status it starts with alone, not on the rest of its
  text, which may echo the credentials.
\<close>

theorem relay_failure_drops_reply_text:
  assumes "fst (cut_byte (CHR '' '') (trim_space m1)) = fst (cut_byte (CHR '' '') (trim_space m2))
    \<or> \<not> is_enhanced_status (fst (cut_byte (CHR '' '') (trim_space m1))) \<and>
      \<not> is_enhanced_status (fst (cut_byte (CHR '' '') (trim_space m2)))"
  shows "relay_failure ctx_err stage host (TextprotoErr cod m1) = relay_failure ctx_err stage host (TextprotoErr cod m2)"
  using assms by (auto simp: relay_failure_def Let_def split: option.splits)

theorem relay_failure_drops_reply_text_witness:
  "relay_failure None ''AUTH'' ''relay.test'' (TextprotoErr 535 ''5.7.8 bad AHUAcA'')
     = relay_failure None ''AUTH'' ''relay.test'' (TextprotoErr 535 ''5.7.8 no'')"
  by (rule relay_failure_drops_reply_text) code_simp

end
