(* ===== verification/Queue_Route.thy ===== *)
theory Queue_Route
  imports Queue_Relay
begin

text \<open>
  How the outbound worker chooses the way of a message: relay, RESTMAIL or SMTP (deliver and what it
  calls in internal/gateway/queue/worker.go, restmail\_discovery.go, dane.go).

  The state an attempt changes is the row's recorded transport and the capability cached for its
  recipient domain. DNS, the DNSSEC answers, the MTA-STS resolver, url.Parse, the HTTP round trips
  and the decoding of a discovery document are fields of \<open>route_env\<close>.
\<close>

section \<open>The environment\<close>

datatype dnssec = Secure | Insecure | Bogus

record parsed_url =
  pu_scheme :: string
  pu_hostname :: string
  pu_user :: bool
  pu_raw_query :: string
  pu_force_query :: bool
  pu_fragment :: string
  pu_opaque :: string

record capability =
  cp_domain :: string
  cp_mx_host :: string
  cp_supported :: bool
  cp_last_probed :: time
  cp_expires_at :: time

record route_env =
  re_smtp :: smtp_config
  re_lookup_mx :: "string \<Rightarrow> go_error + string list"
  re_lookup_host :: "string \<Rightarrow> go_error option"
  re_dane_on :: bool
  re_mx_secure :: "string \<Rightarrow> go_error + dnssec"
  re_tlsa :: "string \<Rightarrow> go_error + tlsa list \<times> dnssec"
  re_usable :: "tlsa list \<Rightarrow> tlsa list"
  re_sts_resolve :: "string \<Rightarrow> go_error + sts_policy"
  re_tls_optional :: "string \<Rightarrow> bool"
  re_parse_url :: "string \<Rightarrow> parsed_url option"
  re_query_escape :: "string \<Rightarrow> string"
  re_http_get :: "string \<Rightarrow> go_error + int \<times> (go_error + string)"
  re_decode_endpoint :: "string \<Rightarrow> string option"
  re_http_post :: "string \<Rightarrow> go_error + int \<times> string"
  re_json_error_code :: "string \<Rightarrow> string"
  re_probe_peer :: "string \<Rightarrow> smtp_peer"
  re_peers :: "string \<Rightarrow> nat \<Rightarrow> smtp_peer"
  re_relay_of :: "string \<Rightarrow> go_error + domain_relay option"
  re_relay_peer :: "string \<Rightarrow> smtp_peer"
  re_decrypt :: "string \<Rightarrow> string \<Rightarrow> string option"
  re_master_key :: string
  re_pin_err :: "go_error option"
  re_note_err :: "go_error option"

record route_state =
  rs_transport :: transport
  rs_capability :: "capability option"

type_synonym routed = "route_state \<times> event list \<times> go_error option"

section \<open>Mail hosts\<close>

definition err_no_mail_host :: go_error where
  "err_no_mail_host = SmtpErr (refusal 550 ''5.1.2'' ''recipient domain does not exist or has no mail host'')"

fun dns_not_found :: "go_error \<Rightarrow> bool" where
  "dns_not_found (DnsErr nf _ _) = nf"
| "dns_not_found _ = False"

definition mx_hosts :: "route_env \<Rightarrow> string \<Rightarrow> go_error + string list" where
  "mx_hosts env dns_domain =
     (let implicit =
            (case re_lookup_host env dns_domain of
               None \<Rightarrow> Inr [dns_domain]
             | Some e \<Rightarrow>
                 if dns_not_found (cause e) then Inl err_no_mail_host
                 else Inl (Wrapped (''address lookup failed for '' @ dns_domain @ '': '') e))
      in case re_lookup_mx env dns_domain of
           Inr mx \<Rightarrow> if mx \<noteq> [] then Inr mx else implicit
         | Inl e \<Rightarrow>
             if \<not> dns_not_found (cause e)
             then Inl (Wrapped (''MX lookup failed for '' @ dns_domain @ '': '') e)
             else implicit)"

definition smtp_addr_of :: "string \<Rightarrow> string" where
  "smtp_addr_of host = (if CHR '':'' \<in> set host then ''['' @ host @ '']:25'' else host @ '':25'')"

section \<open>DANE\<close>

definition dane_mx_secure :: "route_env \<Rightarrow> string \<Rightarrow> go_error + bool" where
  "dane_mx_secure env dns_domain =
     (if \<not> re_dane_on env then Inr False
      else case re_mx_secure env dns_domain of
        Inl _ \<Rightarrow> Inl (SmtpErr (refusal 451 ''4.4.3''
          ''DANE: the validating resolver gave no answer for the recipient domain's MX records''))
      | Inr Bogus \<Rightarrow> Inl (SmtpErr (refusal 451 ''4.4.3''
          ''DANE: the recipient domain's MX records failed DNSSEC validation''))
      | Inr sec \<Rightarrow> Inr (sec = Secure))"

definition dane_records :: "route_env \<Rightarrow> string \<Rightarrow> go_error + tlsa list option" where
  "dane_records env host =
     (case re_tlsa env host of
        Inl _ \<Rightarrow> Inl (host_refusal 451 ''4.4.3''
          (''DANE: the validating resolver gave no answer for '' @ host @ CHR 0x27 # ''s TLSA records'') host)
      | Inr (records, sec) \<Rightarrow>
          if sec = Bogus then Inl (host_refusal 451 ''4.4.3''
            (''DANE: '' @ host @ CHR 0x27 # ''s TLSA records failed DNSSEC validation'') host)
          else if sec \<noteq> Secure then Inr None
          else if re_usable env records = [] then Inr None
          else Inr (Some (re_usable env records)))"

section \<open>MTA-STS\<close>

definition recipient_policy :: "route_env \<Rightarrow> outbound_queue \<Rightarrow> string \<Rightarrow> sts_policy option" where
  "recipient_policy env item dns_domain =
     (if oq_tls_report item then None
      else if \<not> oq_require_tls item \<and> re_tls_optional env (oq_raw_message item) then None
      else case re_sts_resolve env dns_domain of Inl _ \<Rightarrow> None | Inr p \<Rightarrow> Some p)"

definition restmail_upgrade_permitted :: "route_env \<Rightarrow> string \<Rightarrow> sts_policy option \<Rightarrow> bool \<Rightarrow> bool" where
  "restmail_upgrade_permitted env endpoint_url policy enforcing =
     (if \<not> enforcing then True
      else case policy of
        None \<Rightarrow> False
      | Some p \<Rightarrow>
          (let raw = (if \<not> contains endpoint_url ''://'' then ''https://'' @ endpoint_url else endpoint_url) in
           case re_parse_url env raw of
             None \<Rightarrow> False
           | Some u \<Rightarrow>
               if pu_scheme u \<noteq> ''https'' then False
               else if pu_hostname u = [] then False
               else sc_matches_mx (re_smtp env) p (pu_hostname u)))"

section \<open>RESTMAIL capability and discovery\<close>

definition capability_applies :: "capability \<Rightarrow> string \<Rightarrow> string \<Rightarrow> time \<Rightarrow> bool" where
  "capability_applies c domain mx_host now \<longleftrightarrow>
     cp_domain c = domain \<and> cp_mx_host c = mx_host \<and> now < cp_expires_at c"

definition cache_capability :: "time \<Rightarrow> string \<Rightarrow> string \<Rightarrow> bool \<Rightarrow> route_state \<Rightarrow> route_state" where
  "cache_capability now domain mx_host supported st =
     st\<lparr>rs_capability := Some \<lparr>cp_domain = domain, cp_mx_host = mx_host, cp_supported = supported,
        cp_last_probed = now, cp_expires_at = now + (if supported then hour else 15 * minute)\<rparr>\<rparr>"

definition probe_restmail :: "smtp_peer \<Rightarrow> bool \<times> bool" where
  "probe_restmail peer =
     (if pe_dial peer \<noteq> None then (False, False)
      else if pe_greeting peer \<noteq> None then (False, False)
      else if pe_hello peer \<noteq> None then (False, False)
      else (True, pe_ext peer ''RESTMAIL''))"

definition restmail_discovery_url :: "route_env \<Rightarrow> string \<Rightarrow> string \<Rightarrow> string" where
  "restmail_discovery_url env mx_host domain =
     ''https://'' @ trim_suffix mx_host ''.'' @ ''/.well-known/restmail?domain='' @ re_query_escape env domain"

definition valid_restmail_endpoint :: "route_env \<Rightarrow> string \<Rightarrow> string option" where
  "valid_restmail_endpoint env raw =
     (case re_parse_url env raw of
        None \<Rightarrow> None
      | Some u \<Rightarrow>
          if pu_scheme u \<noteq> ''https'' \<or> pu_hostname u = [] \<or> pu_user u \<or> pu_raw_query u \<noteq> [] \<or>
             pu_force_query u \<or> pu_fragment u \<noteq> [] \<or> pu_opaque u \<noteq> []
          then None else Some (trim_suffix raw ''/''))"

definition max_restmail_discovery_body :: int where "max_restmail_discovery_body = 4096"

definition discovery_error :: "string \<Rightarrow> string \<Rightarrow> go_error" where
  "discovery_error url what = OtherErr (''RESTMAIL discovery '' @ url @ what)"

definition discover_restmail_endpoint :: "route_env \<Rightarrow> string \<Rightarrow> go_error + string" where
  "discover_restmail_endpoint env url =
     (case re_http_get env url of
        Inl e \<Rightarrow> Inl (Wrapped (''RESTMAIL discovery '' @ url @ '': '') e)
      | Inr (status, body) \<Rightarrow>
          if status = 404 \<or> status = 410 then Inl NotHostedErr
          else if status \<noteq> 200 then Inl (discovery_error url ('' got '' @ int_dec status))
          else case body of
            Inl e \<Rightarrow> Inl (Wrapped (''RESTMAIL discovery '' @ url @ '': read: '') e)
          | Inr b \<Rightarrow>
              if max_restmail_discovery_body < int (length b) then
                Inl (discovery_error url '': response exceeds 4096 bytes'')
              else case re_decode_endpoint env b of
                None \<Rightarrow> Inl (discovery_error url '': decode'')
              | Some endpoint \<Rightarrow>
                  (case valid_restmail_endpoint env endpoint of
                     None \<Rightarrow> Inl (discovery_error url '': endpoint refused'')
                   | Some ep \<Rightarrow> Inr ep))"

section \<open>RESTMAIL delivery\<close>

definition deliver_restmail_https :: "route_env \<Rightarrow> string \<Rightarrow> outbound_queue \<Rightarrow> attempt" where
  "deliver_restmail_https env endpoint item =
     (case sc_prepare (re_smtp env) item of
        Inl e \<Rightarrow> ([], Some (Wrapped ''prepare outbound message: '' e))
      | Inr prepared \<Rightarrow>
          (let url0 = endpoint @ ''/messages'';
               url = (if \<not> contains url0 ''://'' then ''https://'' @ url0 else url0) in
           case re_parse_url env url of
             None \<Rightarrow> ([], Some (OtherErr (''RESTMAIL endpoint '' @ endpoint @ '' invalid'')))
           | Some u \<Rightarrow>
               if pu_scheme u \<noteq> ''https'' then
                 ([], Some (OtherErr (''RESTMAIL endpoint '' @ endpoint @ '' refused: only https is permitted'')))
               else
                 (case re_http_post env url of
                    Inl e \<Rightarrow> ([EvPost url prepared], Some (Wrapped (''RESTMAIL POST to '' @ url @ '': '') e))
                  | Inr (status, body) \<Rightarrow>
                      if 200 \<le> status \<and> status < 300 then ([EvPost url prepared], None)
                      else ([EvPost url prepared],
                            Some (SmtpErr (restmail_refusal (re_json_error_code env) status body))))))"

definition deliver_restmail_discovered :: "route_env \<Rightarrow> string \<Rightarrow> outbound_queue \<Rightarrow> attempt" where
  "deliver_restmail_discovered env discovery_url item =
     (case discover_restmail_endpoint env discovery_url of
        Inl e \<Rightarrow> ([], Some e)
      | Inr endpoint \<Rightarrow> deliver_restmail_https env endpoint item)"

text \<open>A RESTMAIL attempt, its error read by restmailFailure.\<close>

definition restmail_attempt :: "route_env \<Rightarrow> string \<Rightarrow> string \<Rightarrow> outbound_queue \<Rightarrow> attempt" where
  "restmail_attempt env host discovery_url item =
     (let (evs, r) = deliver_restmail_discovered env discovery_url item
      in (evs, restmail_failure host (oq_domain item) r))"

text \<open>A row without an id is not in the database, and there is nothing to record it on.\<close>

definition pin_restmail :: "route_env \<Rightarrow> outbound_queue \<Rightarrow> route_state \<Rightarrow> go_error + route_state" where
  "pin_restmail env item st =
     (if oq_id item = 0 then Inr st
      else case re_pin_err env of
        Some e \<Rightarrow> Inl (Wrapped ''pin message to RESTMAIL: '' e)
      | None \<Rightarrow> Inr (st\<lparr>rs_transport := TransportRESTMAIL\<rparr>))"

definition note_smtp :: "route_env \<Rightarrow> outbound_queue \<Rightarrow> route_state \<Rightarrow> route_state" where
  "note_smtp env item st =
     (if oq_id item = 0 \<or> oq_transport item \<noteq> NoTransport \<or> re_note_err env \<noteq> None \<or> rs_transport st \<noteq> NoTransport then st
      else st\<lparr>rs_transport := TransportSMTP\<rparr>)"

text \<open>Taking the upgrade: pin the row first, then deliver by RESTMAIL, whatever comes of it.\<close>

definition take_upgrade ::
  "route_env \<Rightarrow> route_state \<Rightarrow> string \<Rightarrow> string \<Rightarrow> outbound_queue \<Rightarrow> routed" where
  "take_upgrade env st host discovery_url item =
     (case pin_restmail env item st of
        Inl e \<Rightarrow> (st, [], Some e)
      | Inr st' \<Rightarrow> (st', restmail_attempt env host discovery_url item))"

text \<open>tryRESTMAILAt: \<open>None\<close> of the attempt is \<open>upgraded = false\<close>, and the caller goes on to SMTP.\<close>

definition try_restmail ::
  "route_env \<Rightarrow> route_state \<Rightarrow> string \<Rightarrow> string \<Rightarrow> outbound_queue \<Rightarrow> sts_policy option \<Rightarrow> bool \<Rightarrow>
   route_state \<times> routed option" where
  "try_restmail env st host dns_domain item policy enforcing =
     (let url = restmail_discovery_url env host dns_domain; now = sc_now (re_smtp env);
          (probed, ok) = probe_restmail (re_probe_peer env host) in
      if \<not> probed then (st, None)
      else if \<not> ok then (cache_capability now (oq_domain item) host False st, None)
      else
        (let st1 = cache_capability now (oq_domain item) host True st in
         if \<not> restmail_upgrade_permitted env url policy enforcing then (st1, None)
         else (st1, Some (take_upgrade env st1 host url item))))"

definition deliver_pinned_restmail ::
  "route_env \<Rightarrow> route_state \<Rightarrow> outbound_queue \<Rightarrow> string \<Rightarrow> string \<Rightarrow> sts_policy option \<Rightarrow> bool \<Rightarrow> bool \<Rightarrow> routed" where
  "deliver_pinned_restmail env st item first_host dns_domain policy enforcing dane_secure =
     (if dane_secure then
        (st, [], Some (OtherErr (''message pinned to RESTMAIL (#291): '' @ oq_domain item @
           '' is now covered by DANE, which RESTMAIL cannot meet, and it is not sent by SMTP instead'')))
      else
        (let url = restmail_discovery_url env first_host dns_domain in
         if \<not> restmail_upgrade_permitted env url policy enforcing then
           (st, [], Some (EnforceErr (oq_domain item) first_host
              ''RESTMAIL discovery host not named by policy; the message is pinned to RESTMAIL and is not sent by SMTP (#291)''))
         else (st, restmail_attempt env first_host url item)))"

section \<open>SMTP to the mail hosts\<close>

definition counts_as_transient :: "go_error \<Rightarrow> bool" where
  "counts_as_transient e =
     (case cause e of SmtpErr se \<Rightarrow> se_code se < 500 | _ \<Rightarrow> True)"

datatype host_result = HostDelivered | HostFailed go_error bool

text \<open>One turn of the loop over the hosts: whether it delivered, else its error and whether that is
  kept as a transient one.\<close>

definition attempt_host ::
  "route_env \<Rightarrow> outbound_queue \<Rightarrow> sts_policy option \<Rightarrow> bool \<Rightarrow> bool \<Rightarrow> string \<Rightarrow> event list \<times> host_result" where
  "attempt_host env item policy enforcing dane_secure mx =
     (let host = trim_suffix mx ''.'' in
      case (if dane_secure then dane_records env host else Inr None) of
        Inl e \<Rightarrow> ([], HostFailed e True)
      | Inr records \<Rightarrow>
          if enforcing \<and> records = None \<and>
             (case policy of None \<Rightarrow> False | Some p \<Rightarrow> po_mx p \<noteq> [] \<and> \<not> sc_matches_mx (re_smtp env) p host)
          then ([], HostFailed (EnforceErr (oq_domain item) host ''MX host not named by policy'') False)
          else
            (case deliver_smtp_with (re_smtp env) (re_peers env host) (smtp_addr_of host) host item policy records of
               (evs, None) \<Rightarrow> (evs, HostDelivered)
             | (evs, Some e) \<Rightarrow> (evs, HostFailed e (counts_as_transient e))))"

fun smtp_loop ::
  "route_env \<Rightarrow> outbound_queue \<Rightarrow> sts_policy option \<Rightarrow> bool \<Rightarrow> bool \<Rightarrow> string list \<Rightarrow>
   go_error option \<Rightarrow> go_error option \<Rightarrow> event list \<times> go_error option \<times> go_error option \<times> bool" where
  "smtp_loop env item policy enforcing dane_secure [] last_err transient_err = ([], last_err, transient_err, False)"
| "smtp_loop env item policy enforcing dane_secure (mx # mxs) last_err transient_err =
     (case attempt_host env item policy enforcing dane_secure mx of
        (evs, HostDelivered) \<Rightarrow> (evs, None, transient_err, True)
      | (evs, HostFailed e t) \<Rightarrow>
          (case smtp_loop env item policy enforcing dane_secure mxs (Some e)
                  (if t then Some e else transient_err) of
             (evs', res) \<Rightarrow> (evs @ evs', res)))"

definition deliver_smtp_hosts ::
  "route_env \<Rightarrow> outbound_queue \<Rightarrow> sts_policy option \<Rightarrow> bool \<Rightarrow> bool \<Rightarrow> string list \<Rightarrow> attempt" where
  "deliver_smtp_hosts env item policy enforcing dane_secure mxs =
     (let (evs, last_err, transient_err, delivered) =
            smtp_loop env item policy enforcing dane_secure mxs None None in
      if delivered then (evs, None)
      else
        (let err = (if oq_require_tls item \<and> transient_err \<noteq> None then transient_err else last_err) in
         (evs, Some (case err of
            Some e \<Rightarrow> Wrapped ''all MX hosts failed: '' e
          | None \<Rightarrow> OtherErr ''all MX hosts failed: %!w(<nil>)''))))"

section \<open>Delivery\<close>

text \<open>The direct path, once the hosts, DANE and the policy are known.\<close>

definition deliver_direct ::
  "route_env \<Rightarrow> route_state \<Rightarrow> outbound_queue \<Rightarrow> string \<Rightarrow> string list \<Rightarrow> bool \<Rightarrow> routed" where
  "deliver_direct env st item dns_domain mxs dane_secure =
     (let first_host = trim_suffix (hd mxs) ''.'';
          now = sc_now (re_smtp env);
          policy = recipient_policy env item dns_domain;
          enforcing = (case policy of None \<Rightarrow> False
                       | Some p \<Rightarrow> po_mode p = ModeEnforce \<and> sc_sts_enforce (re_smtp env));
          url = restmail_discovery_url env first_host dns_domain;
          by_smtp = (\<lambda>st'. (note_smtp env item st',
                            deliver_smtp_hosts env item policy enforcing dane_secure mxs));
          upgradable = (\<not> oq_require_tls item \<and> \<not> dane_secure);
          hit = (if upgradable
                 then (case rs_capability st of
                         Some c \<Rightarrow> if capability_applies c (oq_domain item) first_host now then Some c else None
                       | None \<Rightarrow> None)
                 else None)
      in if oq_transport item = TransportRESTMAIL then
           deliver_pinned_restmail env st item first_host dns_domain policy enforcing dane_secure
         else case hit of
           Some c \<Rightarrow>
             if cp_supported c \<and> restmail_upgrade_permitted env url policy enforcing
             then take_upgrade env st first_host url item
             else by_smtp st
         | None \<Rightarrow>
             if upgradable then
               (case try_restmail env st first_host dns_domain item policy enforcing of
                  (_, Some r) \<Rightarrow> r
                | (st', None) \<Rightarrow> by_smtp st')
             else by_smtp st)"

definition deliver :: "route_env \<Rightarrow> route_state \<Rightarrow> outbound_queue \<Rightarrow> routed" where
  "deliver env st item =
     (if contains_control_char (oq_sender item) \<or> contains_control_char (oq_recipient item) then
        (st, [], Some (SmtpErr (refusal 550 ''5.1.3'' ''address contains control characters'')))
      else case smtp_envelope (sc_to_ascii (re_smtp env)) item of
        Inl e \<Rightarrow> (st, [], Some (SmtpErr e))
      | Inr _ \<Rightarrow>
          (case relay_route (re_decrypt env) (re_relay_of env) (re_master_key env) item of
             Inl e \<Rightarrow> (st, [], Some e)
           | Inr (Some relay) \<Rightarrow> (st, deliver_via_relay (re_smtp env) (re_relay_peer env (rl_host relay)) relay item)
           | Inr None \<Rightarrow>
               (case domain_ascii (sc_to_ascii (re_smtp env)) (oq_domain item) of
                  None \<Rightarrow> (st, [], Some (SmtpErr (refusal 550 ''5.1.2'' ''invalid recipient domain'')))
                | Some dns_domain \<Rightarrow>
                    (case mx_hosts env dns_domain of
                       Inl e \<Rightarrow> (st, [], Some e)
                     | Inr mxs \<Rightarrow>
                         if mxs = [''.''] then
                           (st, [], Some (SmtpErr (refusal 556 ''5.1.10'' ''recipient domain accepts no mail (null MX)'')))
                         else
                           (case dane_mx_secure env dns_domain of
                              Inl e \<Rightarrow> (st, [], Some e)
                            | Inr dane_secure \<Rightarrow> deliver_direct env st item dns_domain mxs dane_secure)))))"

section \<open>A message once upgraded never goes by SMTP\<close>

fun is_post :: "event \<Rightarrow> bool" where
  "is_post (EvPost _ _) = True"
| "is_post _ = False"

lemma restmail_https_posts: "ev \<in> set (fst (deliver_restmail_https env ep item)) \<Longrightarrow> is_post ev"
  by (auto simp: deliver_restmail_https_def Let_def split: sum.splits option.splits if_splits prod.splits)

lemma restmail_attempt_posts: "ev \<in> set (fst (restmail_attempt env host url item)) \<Longrightarrow> is_post ev"
  by (auto simp: restmail_attempt_def deliver_restmail_discovered_def restmail_https_posts
      split: sum.splits prod.splits dest: restmail_https_posts)
    (metis fst_conv restmail_https_posts)

lemma mail_transaction_no_post: "ev \<in> set (fst (mail_transaction t p l h rt sn rc raw)) \<Longrightarrow> \<not> is_post ev"
  by (auto simp: mail_transaction_def Let_def split: if_splits option.splits)

lemma send_over_no_post: "ev \<in> set (fst (send_over cfg p l h item pol rt sn rc)) \<Longrightarrow> \<not> is_post ev"
  by (auto simp: send_over_def dest: mail_transaction_no_post split: if_splits option.splits)

lemma deliver_smtp_no_post:
  assumes "ev \<in> set (fst (deliver_smtp_with cfg peers addr host item pol recs))" shows "\<not> is_post ev"
proof -
  from deliver_smtp_with_events [OF assms] obtain item' sn rc where
    "ev \<in> set (fst (smtp_converse cfg peers addr host item' (if recs \<noteq> None then None else pol) recs sn rc))"
    by blast
  from converse_sends(1) [OF this] show ?thesis using send_over_no_post by blast
qed

lemma attempt_host_no_post:
  assumes "attempt_host env item pol enf dn mx = (evs, r)" "ev \<in> set evs" shows "\<not> is_post ev"
  using assms deliver_smtp_no_post
  by (auto simp: attempt_host_def Let_def split: sum.splits if_splits prod.splits option.splits)
    (metis fst_conv)+

lemma smtp_loop_no_post: "ev \<in> set (fst (smtp_loop env item pol enf dn mxs le te)) \<Longrightarrow> \<not> is_post ev"
proof (induction mxs arbitrary: le te)
  case (Cons mx mxs)
  obtain evs r where a: "attempt_host env item pol enf dn mx = (evs, r)" by fastforce
  show ?case
  proof (cases r)
    case HostDelivered
    with a Cons.prems attempt_host_no_post [OF a] show ?thesis by simp
  next
    case (HostFailed e t)
    with a Cons.prems have "ev \<in> set evs \<or>
        ev \<in> set (fst (smtp_loop env item pol enf dn mxs (Some e) (if t then Some e else te)))"
      by (auto split: prod.splits)
    with Cons.IH attempt_host_no_post [OF a] show ?thesis by blast
  qed
qed simp

lemma smtp_hosts_no_post: "ev \<in> set (fst (deliver_smtp_hosts env item pol enf dn mxs)) \<Longrightarrow> \<not> is_post ev"
  using smtp_loop_no_post [of ev env item pol enf dn mxs None None]
  by (auto simp: deliver_smtp_hosts_def Let_def split: prod.splits if_splits)

text \<open>What an attempt may do to the row's transport, by the way it went.\<close>

definition by_restmail :: "route_state \<Rightarrow> outbound_queue \<Rightarrow> routed \<Rightarrow> bool" where
  "by_restmail st item r \<longleftrightarrow>
     (\<forall>ev \<in> set (fst (snd r)). is_post ev) \<and>
     (rs_transport (fst r) = rs_transport st \<and> (oq_id item \<noteq> 0 \<and> oq_transport item \<noteq> TransportRESTMAIL \<longrightarrow> fst (snd r) = []) \<or>
      rs_transport (fst r) = TransportRESTMAIL)"

definition by_smtp :: "route_state \<Rightarrow> routed \<Rightarrow> bool" where
  "by_smtp st r \<longleftrightarrow>
     (\<forall>ev \<in> set (fst (snd r)). \<not> is_post ev) \<and>
     (rs_transport (fst r) = rs_transport st \<or>
      rs_transport st = NoTransport \<and> rs_transport (fst r) = TransportSMTP)"

lemma take_upgrade_by_restmail: "by_restmail st item (take_upgrade env st host url item)"
  by (auto simp: by_restmail_def take_upgrade_def pin_restmail_def dest: restmail_attempt_posts
      split: sum.splits option.splits if_splits)

lemma cache_capability_transport [simp]: "rs_transport (cache_capability now d h b st) = rs_transport st"
  by (simp add: cache_capability_def)

lemma try_restmail_ways:
  assumes "try_restmail env st host dd item pol enf = (st', r)"
  shows "rs_transport st' = rs_transport st \<and> (\<forall>x. r = Some x \<longrightarrow> by_restmail st item x)"
proof -
  let ?st = "cache_capability (sc_now (re_smtp env)) (oq_domain item) host True st"
  have "by_restmail st item (take_upgrade env ?st host url item)" for url
    using take_upgrade_by_restmail [of ?st item env host url] by (simp add: by_restmail_def)
  with assms show ?thesis
    by (auto simp: try_restmail_def Let_def split: prod.splits if_splits) (metis)
qed

lemma smtp_way: "rs_transport st' = rs_transport st \<Longrightarrow>
    by_smtp st (note_smtp env item st', deliver_smtp_hosts env item pol enf dn mxs)"
  by (auto simp: by_smtp_def note_smtp_def dest: smtp_hosts_no_post)

lemma deliver_direct_ways:
  assumes "oq_transport item \<noteq> TransportRESTMAIL"
  shows "by_restmail st item (deliver_direct env st item dd mxs dn) \<and> \<not> oq_require_tls item \<and> \<not> dn
       \<or> by_smtp st (deliver_direct env st item dd mxs dn)"
proof -
  let ?host = "trim_suffix (hd mxs) ''.''"
  let ?pol = "recipient_policy env item dd"
  let ?enf = "case ?pol of None \<Rightarrow> False | Some p \<Rightarrow> po_mode p = ModeEnforce \<and> sc_sts_enforce (re_smtp env)"
  obtain st' r where t: "try_restmail env st ?host dd item ?pol ?enf = (st', r)" by fastforce
  note tw = try_restmail_ways [OF t]
  have smtp: "by_smtp st (note_smtp env item s, deliver_smtp_hosts env item ?pol ?enf dn mxs)"
    if "s = st \<or> s = st'" for s
    using that tw by (auto intro: smtp_way)
  show ?thesis
    unfolding deliver_direct_def Let_def
    using assms smtp take_upgrade_by_restmail tw t
    by (cases r) (auto split: option.splits if_splits)
qed

lemma deliver_pinned_ways:
  "(\<forall>ev \<in> set (fst (snd (deliver_pinned_restmail env st item host dd pol enf dn))). is_post ev) \<and>
   rs_transport (fst (deliver_pinned_restmail env st item host dd pol enf dn)) = rs_transport st"
  by (auto simp: deliver_pinned_restmail_def Let_def dest: restmail_attempt_posts)

definition routes_direct :: "route_env \<Rightarrow> outbound_queue \<Rightarrow> bool" where
  "routes_direct env item \<longleftrightarrow>
     relay_route (re_decrypt env) (re_relay_of env) (re_master_key env) item = Inr None"

text \<open>Without a relay an attempt either stops before anything leaves or is deliverDirect's.\<close>

lemma deliver_ways:
  assumes "routes_direct env item"
  shows "(\<exists>e. deliver env st item = (st, [], Some e)) \<or>
         (\<exists>dd mxs dn. deliver env st item = deliver_direct env st item dd mxs dn)"
  using assms
  by (auto simp: deliver_def routes_direct_def split: sum.splits option.splits prod.splits)

text \<open>
  C4: once a message is taken by RESTMAIL it is never sent by SMTP. Where the sending domain has no
  relay, a row pinned to RESTMAIL leaves by RESTMAIL requests alone and stays pinned; an attempt that
  pins the row sends nothing by SMTP, not even when RESTMAIL fails; and a message leaves by RESTMAIL
  only after its row was pinned.
\<close>

theorem restmail_never_downgraded:
  assumes direct: "routes_direct env item" and res: "deliver env st item = (st', evs, r)"
    and row: "rs_transport st = oq_transport item"
  shows "(rs_transport st' = TransportRESTMAIL \<longrightarrow> (\<forall>ev \<in> set evs. is_post ev))
       \<and> (rs_transport st = TransportRESTMAIL \<longrightarrow> rs_transport st' = TransportRESTMAIL)
       \<and> (oq_id item \<noteq> 0 \<and> (\<exists>ev \<in> set evs. is_post ev) \<longrightarrow> rs_transport st' = TransportRESTMAIL)"
proof (cases "oq_transport item = TransportRESTMAIL")
  case True
  from deliver_ways [OF direct, of st] res consider
      e where "st' = st" "evs = []" "r = Some e"
    | dd mxs dn where "deliver_direct env st item dd mxs dn = (st', evs, r)" by auto
  then show ?thesis
  proof cases
    case 2
    with True obtain h pol enf where "deliver_pinned_restmail env st item h dd pol enf dn = (st', evs, r)"
      by (auto simp: deliver_direct_def Let_def)
    with deliver_pinned_ways [of env st item h dd pol enf dn] row True show ?thesis by simp
  qed simp
next
  case False
  from deliver_ways [OF direct, of st] res consider
      e where "st' = st" "evs = []" "r = Some e"
    | dd mxs dn where "deliver_direct env st item dd mxs dn = (st', evs, r)" by auto
  then show ?thesis
  proof cases
    case 1
    with False row show ?thesis by simp
  next
    case 2
    with deliver_direct_ways [OF False, of st env dd mxs dn]
    have "by_restmail st item (st', evs, r) \<or> by_smtp st (st', evs, r)" by auto
    with False row show ?thesis by (auto simp: by_restmail_def by_smtp_def)
  qed
qed

text \<open>
  a message whose sender required TLS on every hop never leaves by RESTMAIL and is never pinned to
  it, whatever the capability cache and the recipient's mail host say.
\<close>

theorem requiretls_never_by_restmail:
  assumes "routes_direct env item" and res: "deliver env st item = (st', evs, r)"
    and "oq_require_tls item" "oq_transport item \<noteq> TransportRESTMAIL" "rs_transport st = oq_transport item"
  shows "(\<forall>ev \<in> set evs. \<not> is_post ev) \<and> rs_transport st' \<noteq> TransportRESTMAIL"
proof -
  from deliver_ways [OF assms(1), of st] res consider
      e where "st' = st" "evs = []" "r = Some e"
    | dd mxs dn where "deliver_direct env st item dd mxs dn = (st', evs, r)" by auto
  then show ?thesis
  proof cases
    case 2
    with deliver_direct_ways [OF assms(4), of st env dd mxs dn] assms(3)
    have "by_smtp st (st', evs, r)" by auto
    with assms show ?thesis by (auto simp: by_smtp_def)
  qed (use assms in simp)
qed

section \<open>A domain that speaks RESTMAIL\<close>

definition sample_url :: parsed_url where
  "sample_url = \<lparr>pu_scheme = ''https'', pu_hostname = ''mx.there.test'', pu_user = False, pu_raw_query = [],
     pu_force_query = False, pu_fragment = [], pu_opaque = []\<rparr>"

definition sample_env :: route_env where
  "sample_env =
     \<lparr>re_smtp = sample_config, re_lookup_mx = (\<lambda>d. Inr [''mx.there.test.'']), re_lookup_host = (\<lambda>d. None),
      re_dane_on = False, re_mx_secure = (\<lambda>d. Inr Insecure), re_tlsa = (\<lambda>h. Inr ([], Insecure)),
      re_usable = (\<lambda>r. r), re_sts_resolve = (\<lambda>d. Inr sample_policy), re_tls_optional = (\<lambda>r. False),
      re_parse_url = (\<lambda>u. Some sample_url), re_query_escape = (\<lambda>s. s),
      re_http_get = (\<lambda>u. Inr (200, Inr ''{}'')), re_decode_endpoint = (\<lambda>b. Some ''https://mx.there.test/restmail''),
      re_http_post = (\<lambda>u. Inr (503, ''busy'')), re_json_error_code = (\<lambda>b. []),
      re_probe_peer = (\<lambda>h. willing_peer), re_peers = (\<lambda>h n. willing_peer),
      re_relay_of = (\<lambda>d. Inr None), re_relay_peer = (\<lambda>h. willing_peer), re_decrypt = (\<lambda>s k. None),
      re_master_key = [], re_pin_err = None, re_note_err = None\<rparr>"

definition fresh_state :: route_state where
  "fresh_state = \<lparr>rs_transport = NoTransport, rs_capability = None\<rparr>"

lemma sample_direct: "routes_direct sample_env sample_row" "routes_direct sample_env tls_row"
  by code_simp+

theorem restmail_never_downgraded_witness:
  "\<exists>st' evs r. deliver sample_env fresh_state sample_row = (st', evs, r) \<and> r \<noteq> None \<and> evs \<noteq> [] \<and>
     rs_transport st' = TransportRESTMAIL \<and> list_all is_post evs"
proof -
  obtain st' evs r where d: "deliver sample_env fresh_state sample_row = (st', evs, r)"
    by (cases "deliver sample_env fresh_state sample_row")
  have "rs_transport (fst (deliver sample_env fresh_state sample_row)) = TransportRESTMAIL"
    "fst (snd (deliver sample_env fresh_state sample_row)) \<noteq> []"
    "snd (snd (deliver sample_env fresh_state sample_row)) \<noteq> None"
    by code_simp+
  moreover have "rs_transport fresh_state = oq_transport sample_row"
    by (simp add: fresh_state_def sample_row_def)
  ultimately show ?thesis
    using restmail_never_downgraded [OF sample_direct(1) d] d by (auto simp: list_all_iff)
qed

theorem requiretls_never_by_restmail_witness:
  "\<exists>st' evs r. deliver sample_env fresh_state tls_row = (st', evs, r) \<and> evs \<noteq> [] \<and>
     list_all (\<lambda>ev. \<not> is_post ev) evs"
proof -
  obtain st' evs r where d: "deliver sample_env fresh_state tls_row = (st', evs, r)"
    by (cases "deliver sample_env fresh_state tls_row")
  have "fst (snd (deliver sample_env fresh_state tls_row)) \<noteq> []" by code_simp
  moreover have "oq_require_tls tls_row" "oq_transport tls_row \<noteq> TransportRESTMAIL"
    "rs_transport fresh_state = oq_transport tls_row"
    by (simp_all add: fresh_state_def tls_row_def sample_row_def)
  ultimately show ?thesis
    using requiretls_never_by_restmail [OF sample_direct(2) d] d by (auto simp: list_all_iff)
qed

end
