(* ===== verification/Queue_Worker.thy ===== *)
theory Queue_Worker
  imports Queue_Route
begin

text \<open>
  The outbound queue worker over its database: claiming a row, processing it, suppression of dead
  recipients and bounces (claim, process, recordFailure, generateBounce, queueRemoteDSN of
  internal/gateway/queue/worker.go, suppression.go, refreshClaim of smtp\_timeouts.go).

  The database is a record of the tables the worker touches. A query that fails is a field of
  \<open>worker_env\<close>, as are the resolution of a sender to its local mailbox
  (repositories.FindActiveMailboxByAddress) and the draw for the jitter.
\<close>

section \<open>Tables\<close>

record domain_row =
  dm_id :: nat
  dm_name :: string
  dm_outbound_stopped :: bool

record suppression =
  su_domain_id :: nat
  su_address :: string
  su_failure_category :: failure_category
  su_last_error :: string
  su_message_id :: "nat option"
  su_expires_at :: time

record message_row =
  ms_id :: nat
  ms_mailbox_id :: nat
  ms_msg_id :: string
  ms_thread_id :: string
  ms_folder :: string
  ms_sender :: string
  ms_recipients_to :: string
  ms_subject :: string
  ms_body_text :: string
  ms_raw_message :: string
  ms_is_dsn :: bool
  ms_created_at :: time

record db =
  db_queue :: "outbound_queue list"
  db_domains :: "domain_row list"
  db_suppressions :: "suppression list"
  db_messages :: "message_row list"
  db_capabilities :: "capability list"

record worker_env =
  we_route :: route_env
  we_mailbox_of :: "string \<Rightarrow> nat option"
  we_parse_address :: "string \<Rightarrow> string option"
  we_rfc1123z :: "time \<Rightarrow> string"
  we_time_text :: "time \<Rightarrow> string"
  we_bounce_max :: int
  we_bounce_window :: duration
  we_suppression_ttl :: duration
  we_reclaim :: duration
  we_suppression_err :: bool
  we_insert_err :: bool
  we_jitter :: nat

abbreviation we_smtp :: "worker_env \<Rightarrow> smtp_config" where "we_smtp env \<equiv> re_smtp (we_route env)"
abbreviation we_hostname :: "worker_env \<Rightarrow> string" where "we_hostname env \<equiv> sc_hostname (we_smtp env)"
abbreviation we_error_text :: "worker_env \<Rightarrow> go_error \<Rightarrow> string" where
  "we_error_text env \<equiv> error_text (sc_enforce_text (we_smtp env))"

definition default_suppression_ttl :: duration where "default_suppression_ttl = 90 * 24 * hour"
definition default_bounce_max_per_recipient :: int where "default_bounce_max_per_recipient = 20"
definition default_bounce_window :: duration where "default_bounce_window = hour"

definition set_suppression_ttl :: "duration \<Rightarrow> worker_env \<Rightarrow> worker_env" where
  "set_suppression_ttl ttl env =
     env\<lparr>we_suppression_ttl := (if ttl \<le> 0 then default_suppression_ttl else ttl)\<rparr>"

definition set_bounce_rate_limit :: "int \<Rightarrow> duration \<Rightarrow> worker_env \<Rightarrow> worker_env" where
  "set_bounce_rate_limit mx window env =
     env\<lparr>we_bounce_max := mx, we_bounce_window := (if window \<le> 0 then default_bounce_window else window)\<rparr>"

definition set_delivery_reclaim :: "duration \<Rightarrow> worker_env \<Rightarrow> worker_env" where
  "set_delivery_reclaim reclaim env = (if 0 < reclaim then env\<lparr>we_reclaim := reclaim\<rparr> else env)"

definition update_row :: "nat \<Rightarrow> (outbound_queue \<Rightarrow> outbound_queue) \<Rightarrow> db \<Rightarrow> db" where
  "update_row i f d = d\<lparr>db_queue := map (\<lambda>q. if oq_id q = i then f q else q) (db_queue d)\<rparr>"

definition fresh_queue_id :: "db \<Rightarrow> nat" where
  "fresh_queue_id d = Suc (Max (insert 0 (set (map oq_id (db_queue d)))))"

definition enqueue :: "time \<Rightarrow> outbound_queue \<Rightarrow> db \<Rightarrow> db" where
  "enqueue now q d =
     d\<lparr>db_queue := db_queue d @ [(before_create now q)\<lparr>oq_id := fresh_queue_id d\<rparr>]\<rparr>"

section \<open>Claiming (worker.go)\<close>

text \<open>The SQL of models.OutboundQueueSendingDomainSQL and OutboundQueueHeldSQL.\<close>

definition sending_domain_sql :: "outbound_queue \<Rightarrow> string" where
  "sending_domain_sql q =
     to_lower
       (if oq_sending_domain q \<noteq> [] then oq_sending_domain q
        else case last_index_byte (oq_sender q) (CHR ''@'') of
          Some i \<Rightarrow> drop (i + 1) (oq_sender q)
        | None \<Rightarrow> [])"

definition queue_held :: "db \<Rightarrow> outbound_queue \<Rightarrow> bool" where
  "queue_held d q \<longleftrightarrow> list_ex (\<lambda>m. dm_outbound_stopped m \<and> dm_name m = sending_domain_sql q) (db_domains d)"

definition claimable :: "duration \<Rightarrow> db \<Rightarrow> time \<Rightarrow> outbound_queue \<Rightarrow> bool" where
  "claimable reclaim d now q \<longleftrightarrow>
     ((oq_status q = Pending \<or> oq_status q = Deferred) \<and> oq_next_attempt q \<le> now \<or>
      oq_status q = Delivering \<and> (case oq_last_attempt q of None \<Rightarrow> False | Some t \<Rightarrow> t < now - reclaim)) \<and>
     now < oq_expires_at q \<and> \<not> queue_held d q"

definition mark_delivering :: "time \<Rightarrow> outbound_queue \<Rightarrow> outbound_queue" where
  "mark_delivering now q =
     q\<lparr>oq_status := Delivering, oq_last_attempt := Some now, oq_attempts := oq_attempts q + 1\<rparr>"

text \<open>\<open>locked\<close> are the rows another transaction holds, which SKIP LOCKED passes over.\<close>

definition claim ::
  "duration \<Rightarrow> (nat \<Rightarrow> bool) \<Rightarrow> time \<Rightarrow> db \<Rightarrow> (outbound_queue \<times> db) option" where
  "claim reclaim locked now d =
     (case sort_key oq_next_attempt (filter (\<lambda>q. claimable reclaim d now q \<and> \<not> locked (oq_id q)) (db_queue d)) of
        [] \<Rightarrow> None
      | q # _ \<Rightarrow> Some (mark_delivering now q, update_row (oq_id q) (\<lambda>r. mark_delivering now q) d))"

text \<open>A heartbeat: it moves last_attempt only while this attempt still holds the row.\<close>

definition refresh_claim :: "time \<Rightarrow> outbound_queue \<Rightarrow> db \<Rightarrow> db \<times> bool" where
  "refresh_claim now item d =
     (let holds = (\<lambda>q. oq_id q = oq_id item \<and> oq_status q = Delivering \<and> oq_attempts q = oq_attempts item)
      in (d\<lparr>db_queue := map (\<lambda>q. if holds q then q\<lparr>oq_last_attempt := Some now\<rparr> else q) (db_queue d)\<rparr>,
          list_ex holds (db_queue d)))"

section \<open>Bounces\<close>

definition bounce_sender_authorized :: "bool \<Rightarrow> nat \<Rightarrow> nat \<Rightarrow> bool" where
  "bounce_sender_authorized has_message message_mailbox sender_mailbox =
     (if \<not> has_message then True else message_mailbox = sender_mailbox)"

definition within_dsn_rate_limit :: "int \<Rightarrow> int \<Rightarrow> bool" where
  "within_dsn_rate_limit recent max_per_window =
     (if max_per_window \<le> 0 then True else recent < max_per_window)"

definition recent_remote_dsns :: "duration \<Rightarrow> time \<Rightarrow> string \<Rightarrow> db \<Rightarrow> int" where
  "recent_remote_dsns window now recipient d =
     int (length (filter (\<lambda>q. oq_is_dsn q \<and> oq_recipient q = recipient \<and> now - window < oq_created_at q) (db_queue d)))"

definition recent_dsn_count :: "duration \<Rightarrow> time \<Rightarrow> nat \<Rightarrow> db \<Rightarrow> int" where
  "recent_dsn_count window now mailbox d =
     int (length (filter (\<lambda>m. ms_mailbox_id m = mailbox \<and> ms_is_dsn m \<and> now - window < ms_created_at m) (db_messages d)))"

definition last_attempt_of :: "time \<Rightarrow> outbound_queue \<Rightarrow> time" where
  "last_attempt_of now item = (case oq_last_attempt item of None \<Rightarrow> now | Some t \<Rightarrow> t)"

text \<open>The row queued for a sender outside: the columns not named are those of a new row.\<close>

definition dsn_row :: "string \<Rightarrow> string \<Rightarrow> string \<Rightarrow> string \<Rightarrow> time \<Rightarrow> outbound_queue" where
  "dsn_row hostname recipient domain raw now =
     \<lparr>oq_id = 0, oq_message_id = None, oq_sender = [], oq_recipient = recipient, oq_domain = domain,
      oq_sending_domain = hostname, oq_raw_message = raw, oq_body_type = [], oq_status = Pending, oq_attempts = 0,
      oq_last_attempt = None, oq_next_attempt = now, oq_last_error = [], oq_last_error_code = 0,
      oq_failure_category = None, oq_max_retries = 0, oq_is_dsn = True, oq_created_at = now,
      oq_expires_at = zero_time, oq_arc_results = [], oq_arc_chain = [], oq_tls_report = False,
      oq_require_tls = False, oq_transport = NoTransport\<rparr>"

definition queue_remote_dsn :: "worker_env \<Rightarrow> time \<Rightarrow> outbound_queue \<Rightarrow> smtp_error \<Rightarrow> db \<Rightarrow> db" where
  "queue_remote_dsn env now item smtp_err d =
     (let recipient = trim_space (oq_sender item); domain = domain_from_address recipient in
      if domain = [] \<or> validate_address (sc_to_ascii (we_smtp env)) (we_parse_address env) recipient \<noteq> None then d
      else if 0 < we_bounce_max env \<and>
              \<not> within_dsn_rate_limit (recent_remote_dsns (we_bounce_window env) now recipient d) (we_bounce_max env)
      then d
      else if we_insert_err env then d
      else
        (let dsn = build_dsn_message (we_rfc1123z env) (we_hostname env) item (Some smtp_err) now (last_attempt_of now item)
         in enqueue now (dsn_row (we_hostname env) recipient domain (dsn_raw dsn) now) d))"

text \<open>\<open>fmt.Sprintf("[%q]", ...)\<close> of the sanitised sender is left as the text between the quotes.\<close>

definition insert_bounce ::
  "worker_env \<Rightarrow> time \<Rightarrow> outbound_queue \<Rightarrow> smtp_error \<Rightarrow> nat \<Rightarrow> db \<Rightarrow> db" where
  "insert_bounce env now item smtp_err mailbox d =
     (if we_insert_err env then d
      else
        (let dsn = build_dsn_message (we_rfc1123z env) (we_hostname env) item (Some smtp_err) now (last_attempt_of now item);
             row = \<lparr>ms_id = Suc (Max (insert 0 (set (map ms_id (db_messages d))))), ms_mailbox_id = mailbox,
                    ms_msg_id = dsn_message_id dsn, ms_thread_id = header_thread_id (dsn_message_id dsn) [] [],
                    ms_folder = ''INBOX'', ms_sender = ''mailer-daemon@'' @ we_hostname env,
                    ms_recipients_to = sanitize_header_value (oq_sender item), ms_subject = dsn_subject dsn,
                    ms_body_text = dsn_human_part dsn, ms_raw_message = dsn_raw dsn, ms_is_dsn = True,
                    ms_created_at = now\<rparr>
         in d\<lparr>db_messages := db_messages d @ [row]\<rparr>))"

definition message_mailbox :: "db \<Rightarrow> nat \<Rightarrow> nat option" where
  "message_mailbox d i = map_option ms_mailbox_id (find (\<lambda>m. ms_id m = i) (db_messages d))"

definition generate_bounce :: "worker_env \<Rightarrow> time \<Rightarrow> outbound_queue \<Rightarrow> smtp_error \<Rightarrow> db \<Rightarrow> db" where
  "generate_bounce env now item smtp_err d =
     (if oq_sender item = [] then d
      else case we_mailbox_of env (oq_sender item) of
        None \<Rightarrow> queue_remote_dsn env now item smtp_err d
      | Some mailbox \<Rightarrow>
          if (case oq_message_id item of
                None \<Rightarrow> False
              | Some mid \<Rightarrow>
                  (case message_mailbox d mid of
                     None \<Rightarrow> \<not> bounce_sender_authorized False 0 mailbox
                   | Some mm \<Rightarrow> \<not> bounce_sender_authorized True mm mailbox))
          then d
          else if 0 < we_bounce_max env \<and>
                  \<not> within_dsn_rate_limit (recent_dsn_count (we_bounce_window env) now mailbox d) (we_bounce_max env)
          then d
          else insert_bounce env now item smtp_err mailbox d)"

section \<open>Suppression (suppression.go)\<close>

definition domain_id_of :: "db \<Rightarrow> string \<Rightarrow> nat option" where
  "domain_id_of d name = map_option dm_id (find (\<lambda>m. to_lower (dm_name m) = name) (db_domains d))"

definition suppress :: "worker_env \<Rightarrow> outbound_queue \<Rightarrow> failure_category \<Rightarrow> string \<Rightarrow> time \<Rightarrow> db \<Rightarrow> db" where
  "suppress env item category last_error now d =
     (let domain = to_lower (sends_as item) in
      if domain = [] then d
      else case domain_id_of d domain of
        None \<Rightarrow> d
      | Some did \<Rightarrow>
          (let s = \<lparr>su_domain_id = did, su_address = to_lower (oq_recipient item), su_failure_category = category,
                    su_last_error = last_error, su_message_id = oq_message_id item,
                    su_expires_at = now + we_suppression_ttl env\<rparr>;
               same = (\<lambda>x. su_domain_id x = did \<and> su_address x = to_lower (oq_recipient item))
           in if we_insert_err env then d
              else if list_ex same (db_suppressions d)
              then d\<lparr>db_suppressions := map (\<lambda>x. if same x then s else x) (db_suppressions d)\<rparr>
              else d\<lparr>db_suppressions := db_suppressions d @ [s]\<rparr>))"

definition suppression_of :: "worker_env \<Rightarrow> outbound_queue \<Rightarrow> time \<Rightarrow> db \<Rightarrow> suppression option" where
  "suppression_of env item now d =
     (let domain = to_lower (sends_as item) in
      if domain = [] \<or> we_suppression_err env then None
      else find (\<lambda>s. list_ex (\<lambda>m. dm_id m = su_domain_id s \<and> to_lower (dm_name m) = domain) (db_domains d) \<and>
                    su_address s = to_lower (oq_recipient item) \<and> now < su_expires_at s) (db_suppressions d))"

definition bounce_suppressed :: "worker_env \<Rightarrow> time \<Rightarrow> outbound_queue \<Rightarrow> suppression \<Rightarrow> db \<Rightarrow> db" where
  "bounce_suppressed env now item0 s d =
     (let item = item0\<lparr>oq_attempts := oq_attempts item0 - 1, oq_failure_category := Some (su_failure_category s)\<rparr>;
          enhanced = (if su_failure_category s = FailureBadDomain then ''5.1.2'' else ''5.1.1'');
          reason = ''not sent: an earlier message to this address bounced as undeliverable, so mail from '' @
                   to_lower (sends_as item) @ '' to it is suppressed until '' @ we_time_text env (su_expires_at s);
          d1 = update_row (oq_id item) (\<lambda>q. q\<lparr>oq_status := Bounced, oq_attempts := oq_attempts item,
                 oq_last_error := reason, oq_last_error_code := 0,
                 oq_failure_category := Some (su_failure_category s)\<rparr>) d
      in generate_bounce env now item (refusal 0 enhanced reason) d1)"

section \<open>Processing (worker.go)\<close>

definition mark_failed ::
  "string \<Rightarrow> int \<Rightarrow> failure_category \<Rightarrow> queue_status \<Rightarrow> outbound_queue \<Rightarrow> outbound_queue" where
  "mark_failed last_error error_code category status q =
     q\<lparr>oq_last_error := last_error, oq_last_error_code := error_code,
       oq_failure_category := Some category, oq_status := status\<rparr>"

definition record_failure :: "worker_env \<Rightarrow> outbound_queue \<Rightarrow> go_error \<Rightarrow> time \<Rightarrow> db \<Rightarrow> db" where
  "record_failure env item0 err now d =
     (let smtp_err = smtp_error_from (sc_enforce_text (we_smtp env)) err;
          error_code = (case smtp_err of None \<Rightarrow> 0 | Some se \<Rightarrow> se_code se);
          category = classify_failure (sc_enforce_text (we_smtp env)) err;
          item = item0\<lparr>oq_failure_category := Some category\<rparr>;
          failed = mark_failed (we_error_text env err) error_code category;
          retry = (if failure_permanent category then None else retry_at (we_jitter env) item category now)
      in case retry of
           Some next \<Rightarrow> update_row (oq_id item0) (\<lambda>q. (failed Deferred q)\<lparr>oq_next_attempt := next\<rparr>) d
         | None \<Rightarrow>
             (let d1 = update_row (oq_id item0) (failed Bounced) d;
                  d2 = (if failure_suppresses category
                        then suppress env item category (we_error_text env err) now d1 else d1);
                  bounce_err = (case smtp_err of Some se \<Rightarrow> se | None \<Rightarrow> refusal 0 [] (we_error_text env err))
              in generate_bounce env now item bounce_err d2))"

text \<open>Delivery over the database: the row's transport and the capability of its domain are read, and
  what the attempt made of them is written back.\<close>

definition upsert_capability :: "capability option \<Rightarrow> db \<Rightarrow> db" where
  "upsert_capability c d =
     (case c of
        None \<Rightarrow> d
      | Some cp \<Rightarrow>
          if list_ex (\<lambda>x. cp_domain x = cp_domain cp) (db_capabilities d)
          then d\<lparr>db_capabilities := map (\<lambda>x. if cp_domain x = cp_domain cp then cp else x) (db_capabilities d)\<rparr>
          else d\<lparr>db_capabilities := db_capabilities d @ [cp]\<rparr>)"

definition route_state_of :: "db \<Rightarrow> outbound_queue \<Rightarrow> route_state" where
  "route_state_of d item =
     \<lparr>rs_transport = (case find (\<lambda>q. oq_id q = oq_id item) (db_queue d) of
                        Some q \<Rightarrow> oq_transport q | None \<Rightarrow> oq_transport item),
      rs_capability = find (\<lambda>c. cp_domain c = oq_domain item) (db_capabilities d)\<rparr>"

definition deliver_db :: "worker_env \<Rightarrow> outbound_queue \<Rightarrow> db \<Rightarrow> db \<times> event list \<times> go_error option" where
  "deliver_db env item d =
     (case deliver (we_route env) (route_state_of d item) item of
        (st, evs, r) \<Rightarrow>
          (upsert_capability (rs_capability st)
             (update_row (oq_id item) (\<lambda>q. q\<lparr>oq_transport := rs_transport st\<rparr>) d), evs, r))"

definition process ::
  "worker_env \<Rightarrow> outbound_queue \<Rightarrow> time \<Rightarrow> time \<Rightarrow> db \<Rightarrow> db \<times> event list" where
  "process env item now later d =
     (case suppression_of env item now d of
        Some s \<Rightarrow> (bounce_suppressed env later item s d, [])
      | None \<Rightarrow>
          (case deliver_db env item d of
             (d1, evs, None) \<Rightarrow> (update_row (oq_id item) (\<lambda>q. q\<lparr>oq_status := Delivered\<rparr>) d1, evs)
           | (d1, evs, Some e) \<Rightarrow> (record_failure env item e later d1, evs)))"

definition process_next ::
  "worker_env \<Rightarrow> (nat \<Rightarrow> bool) \<Rightarrow> time \<Rightarrow> time \<Rightarrow> db \<Rightarrow> db \<times> event list" where
  "process_next env locked now later d =
     (case claim (we_reclaim env) locked now d of
        None \<Rightarrow> (d, [])
      | Some (item, d1) \<Rightarrow> process env item now later d1)"

section \<open>Gauges\<close>

definition refresh_queue_size :: "time \<Rightarrow> db \<Rightarrow> int \<times> int \<times> time option" where
  "refresh_queue_size now d =
     (let rows = filter (\<lambda>q. oq_status q \<in> {Pending, Deferred, Delivering}) (db_queue d);
          waiting = filter (\<lambda>q. oq_status q \<in> {Pending, Deferred}) rows
      in (int (length rows),
          int (length (filter (\<lambda>q. oq_status q = Delivering \<or> oq_next_attempt q \<le> now) rows)),
          if waiting = [] then None else Some (Min (set (map oq_created_at waiting)))))"

definition oldest_age :: "time option \<Rightarrow> time \<Rightarrow> duration" where
  "oldest_age oldest now = (case oldest of None \<Rightarrow> 0 | Some t \<Rightarrow> max (now - t) 0)"

section \<open>Rows through updates\<close>

definition ids_distinct :: "db \<Rightarrow> bool" where
  "ids_distinct d \<longleftrightarrow> distinct (map oq_id (db_queue d))"

definition keeps_id :: "(outbound_queue \<Rightarrow> outbound_queue) \<Rightarrow> bool" where
  "keeps_id f \<longleftrightarrow> (\<forall>q. oq_id (f q) = oq_id q)"

lemma update_row_ids: "keeps_id f \<Longrightarrow> map oq_id (db_queue (update_row i f d)) = map oq_id (db_queue d)"
  by (simp add: update_row_def keeps_id_def)

definition ids :: "db \<Rightarrow> nat set" where
  "ids d = set (map oq_id (db_queue d))"

lemma ids_update: "keeps_id f \<Longrightarrow> ids (update_row i f d) = ids d"
  by (simp only: ids_def update_row_ids)

lemma update_row_queue:
  "db_queue (update_row i f d) = map (\<lambda>q. if oq_id q = i then f q else q) (db_queue d)"
  by (simp add: update_row_def)

lemma update_row_set:
  "q \<in> set (db_queue (update_row i f d)) \<longleftrightarrow>
     (\<exists>r \<in> set (db_queue d). q = (if oq_id r = i then f r else r))"
  by (simp only: update_row_queue set_map image_iff)

lemma update_row_other [simp]:
  "db_domains (update_row i f d) = db_domains d"
  "db_suppressions (update_row i f d) = db_suppressions d"
  "db_messages (update_row i f d) = db_messages d"
  "db_capabilities (update_row i f d) = db_capabilities d"
  by (simp_all add: update_row_def)

lemma upsert_capability_queue [simp]: "db_queue (upsert_capability c d) = db_queue d"
  by (simp add: upsert_capability_def split: option.splits)

lemma suppress_queue [simp]: "db_queue (suppress env item c e now d) = db_queue d"
  by (auto simp: suppress_def Let_def split: option.splits)

lemma fresh_queue_id_new: "fresh_queue_id d \<notin> ids d"
proof
  assume "fresh_queue_id d \<in> ids d"
  then have "fresh_queue_id d \<le> Max (insert 0 (ids d))" by (intro Max_ge) (auto simp: ids_def)
  then show False by (simp add: fresh_queue_id_def ids_def)
qed

lemma before_create_status [simp]:
  "oq_status (before_create now q) = oq_status q" "oq_sender (before_create now q) = oq_sender q"
  "oq_is_dsn (before_create now q) = oq_is_dsn q" "oq_recipient (before_create now q) = oq_recipient q"
  "oq_created_at (before_create now q) = oq_created_at q" "oq_transport (before_create now q) = oq_transport q"
  by (simp_all add: before_create_def Let_def)

text \<open>A bounce touches no row of the queue; at most it adds one notice, with a null sender.\<close>

lemma generate_bounce_queue:
  "\<exists>new. db_queue (generate_bounce env now item e d) = db_queue d @ new \<and> length new \<le> 1 \<and>
     (\<forall>q \<in> set new. oq_status q = Pending \<and> oq_sender q = [] \<and> oq_id q = fresh_queue_id d \<and>
        oq_transport q = NoTransport \<and> oq_is_dsn q)"
proof -
  have "\<exists>new. db_queue (queue_remote_dsn env now item e d) = db_queue d @ new \<and> length new \<le> 1 \<and>
     (\<forall>q \<in> set new. oq_status q = Pending \<and> oq_sender q = [] \<and> oq_id q = fresh_queue_id d \<and>
        oq_transport q = NoTransport \<and> oq_is_dsn q)"
    by (simp add: queue_remote_dsn_def Let_def enqueue_def) (auto simp: dsn_row_def)
  moreover have "db_queue (insert_bounce env now item e m d) = db_queue d" for m
    by (simp add: insert_bounce_def Let_def)
  ultimately show ?thesis by (auto simp: generate_bounce_def split: option.splits)
qed

lemma null_sender_no_bounce: "oq_sender item = [] \<Longrightarrow> generate_bounce env now item e d = d"
  by (simp add: generate_bounce_def)

section \<open>Claims\<close>

lemma claim_SomeD:
  assumes "claim reclaim locked now d = Some (item, d')"
  obtains q where "q \<in> set (db_queue d)" "claimable reclaim d now q" "\<not> locked (oq_id q)"
    "item = mark_delivering now q" "d' = update_row (oq_id q) (\<lambda>r. mark_delivering now q) d"
    "\<And>r. r \<in> set (db_queue d) \<Longrightarrow> claimable reclaim d now r \<Longrightarrow> \<not> locked (oq_id r) \<Longrightarrow>
       oq_next_attempt q \<le> oq_next_attempt r"
proof -
  let ?c = "filter (\<lambda>q. claimable reclaim d now q \<and> \<not> locked (oq_id q)) (db_queue d)"
  obtain q qs where s: "sort_key oq_next_attempt ?c = q # qs"
    and r: "item = mark_delivering now q" "d' = update_row (oq_id q) (\<lambda>r. mark_delivering now q) d"
    using assms by (cases "sort_key oq_next_attempt ?c") (auto simp: claim_def)
  have set: "set (q # qs) = set ?c" using s by (metis set_sort)
  have "sorted (map oq_next_attempt (q # qs))" using s by (metis sorted_sort_key)
  then have "oq_next_attempt q \<le> oq_next_attempt x" if "x \<in> set ?c" for x
    using that set by auto
  moreover have "q \<in> set ?c" using set by auto
  ultimately show thesis using that r by auto
qed

text \<open>
  a worker only ever takes a row that is due: pending or deferred with its next attempt reached,
  or left delivering with no heartbeat for the reclaim interval; never one that has expired, whose
  sending domain has its mail stopped, or that another worker has locked; and of those it takes one
  whose turn comes first. The row is then marked delivering, its attempt counted.
\<close>

theorem claim_takes_a_due_row:
  assumes "claim reclaim locked now d = Some (item, d')"
  shows "\<exists>q \<in> set (db_queue d). item = mark_delivering now q
       \<and> ((oq_status q = Pending \<or> oq_status q = Deferred) \<and> oq_next_attempt q \<le> now
          \<or> oq_status q = Delivering \<and> (\<exists>t. oq_last_attempt q = Some t \<and> t < now - reclaim))
       \<and> now < oq_expires_at q \<and> \<not> queue_held d q \<and> \<not> locked (oq_id q)
       \<and> (\<forall>r \<in> set (db_queue d). claimable reclaim d now r \<and> \<not> locked (oq_id r)
            \<longrightarrow> oq_next_attempt q \<le> oq_next_attempt r)"
  by (rule claim_SomeD [OF assms]) (auto simp: claimable_def split: option.splits)

text \<open>A row held by a live worker, its last beat no older than the reclaim interval, is not claimable.\<close>

definition holds_row :: "time \<Rightarrow> outbound_queue \<Rightarrow> db \<Rightarrow> bool" where
  "holds_row t item d \<longleftrightarrow>
     (\<forall>q \<in> set (db_queue d). oq_id q = oq_id item \<longrightarrow>
        oq_status q = Delivering \<and> oq_last_attempt q = Some t \<and> oq_attempts q = oq_attempts item)"

lemma held_row_not_claimed:
  assumes "claim reclaim locked now d = Some (other, d')" "holds_row t item d" "now \<le> t + reclaim"
  shows "oq_id other \<noteq> oq_id item"
  by (rule claim_SomeD [OF assms(1)]) (use assms(2,3) in \<open>auto simp: holds_row_def claimable_def mark_delivering_def\<close>)

lemma claim_holds: "claim reclaim locked now d = Some (item, d') \<Longrightarrow> holds_row now item d'"
  by (erule claim_SomeD) (auto simp: holds_row_def update_row_set mark_delivering_def)

lemma refresh_holds:
  "holds_row t item d \<Longrightarrow> holds_row t' item (fst (refresh_claim t' item d))"
  by (auto simp: holds_row_def refresh_claim_def Let_def)

definition beats :: "outbound_queue \<Rightarrow> time list \<Rightarrow> db \<Rightarrow> db" where
  "beats item ts d = fold (\<lambda>t d. fst (refresh_claim t item d)) ts d"

lemma beats_holds: "holds_row t item d \<Longrightarrow> holds_row (last (t # ts)) item (beats item ts d)"
proof (induction ts arbitrary: t d)
  case (Cons u us)
  then have "holds_row u item (fst (refresh_claim u item d))" by (intro refresh_holds)
  from Cons.IH [OF this] show ?case by (simp add: beats_def)
qed (simp add: beats_def)


section \<open>What an attempt leaves behind\<close>

text \<open>
  How a row may come out of an attempt on \<open>item\<close> that ended at \<open>later\<close>: delivered, bounced, or deferred
  to a time still before the item expires. Its id, its times and its sender are as they were.
\<close>

definition settled :: "time \<Rightarrow> outbound_queue \<Rightarrow> (outbound_queue \<Rightarrow> outbound_queue) \<Rightarrow> bool" where
  "settled later item f \<longleftrightarrow>
     (\<forall>q. oq_id (f q) = oq_id q \<and> oq_expires_at (f q) = oq_expires_at q \<and>
        oq_created_at (f q) = oq_created_at q \<and> oq_sender (f q) = oq_sender q \<and>
        (oq_status (f q) = Delivered \<or> oq_status (f q) = Bounced \<or>
         oq_status (f q) = Deferred \<and> later < oq_next_attempt (f q) \<and> oq_next_attempt (f q) < oq_expires_at item))"

definition notices :: "db \<Rightarrow> outbound_queue list \<Rightarrow> bool" where
  "notices d new \<longleftrightarrow> length new \<le> 1 \<and>
     (\<forall>q \<in> set new. oq_status q = Pending \<and> oq_sender q = [] \<and> oq_is_dsn q \<and> oq_transport q = NoTransport \<and>
        oq_id q \<notin> ids d)"

definition leaves :: "outbound_queue \<Rightarrow> time \<Rightarrow> db \<Rightarrow> db \<Rightarrow> bool" where
  "leaves item later d d' \<longleftrightarrow>
     (\<exists>f new. db_queue d' = map (\<lambda>q. if oq_id q = oq_id item then f q else q) (db_queue d) @ new \<and>
        settled later item f \<and> notices d new)"

lemma leaves_bounce:
  assumes "db_queue d1 = db_queue (update_row (oq_id item) f d)" "settled later item f"
  shows "leaves item later d (generate_bounce env now it e d1)"
proof -
  from generate_bounce_queue [of env now it e d1] obtain new where
    n: "db_queue (generate_bounce env now it e d1) = db_queue d1 @ new" "length new \<le> 1"
      "\<forall>q \<in> set new. oq_status q = Pending \<and> oq_sender q = [] \<and> oq_id q = fresh_queue_id d1 \<and>
        oq_transport q = NoTransport \<and> oq_is_dsn q"
    by blast
  have "keeps_id f" using assms(2) by (simp add: settled_def keeps_id_def)
  then have "ids d1 = ids d" using assms(1) ids_update [of f "oq_id item" d] by (simp add: ids_def)
  then have "fresh_queue_id d1 \<notin> ids d" using fresh_queue_id_new [of d1] by simp
  then have "notices d new" using n by (simp add: notices_def)
  moreover have "db_queue (generate_bounce env now it e d1)
      = map (\<lambda>q. if oq_id q = oq_id item then f q else q) (db_queue d) @ new"
    using n(1) assms(1) by (simp add: update_row_def)
  ultimately show ?thesis unfolding leaves_def using assms(2) by blast
qed

lemma leaves_update: "settled later item f \<Longrightarrow> leaves item later d (update_row (oq_id item) f d)"
  by (auto simp: leaves_def update_row_def notices_def intro!: exI [of _ f] exI [of _ "[]"])

lemma bounce_suppressed_eq:
  obtains it b g where "bounce_suppressed env now item s d = generate_bounce env now it b (update_row (oq_id item) g d)"
    "settled later item g" "\<forall>q. oq_status (g q) = Bounced"
proof -
  let ?item = "item\<lparr>oq_attempts := oq_attempts item - 1, oq_failure_category := Some (su_failure_category s)\<rparr>"
  let ?reason = "''not sent: an earlier message to this address bounced as undeliverable, so mail from '' @
    to_lower (sends_as ?item) @ '' to it is suppressed until '' @ we_time_text env (su_expires_at s)"
  let ?f = "\<lambda>q. q\<lparr>oq_status := Bounced, oq_attempts := oq_attempts item - 1, oq_last_error := ?reason,
    oq_last_error_code := 0, oq_failure_category := Some (su_failure_category s)\<rparr>"
  define f :: "outbound_queue \<Rightarrow> outbound_queue" where "f = ?f"
  show thesis
  proof (rule that)
    show "bounce_suppressed env now item s d = generate_bounce env now ?item
        (refusal 0 (if su_failure_category s = FailureBadDomain then ''5.1.2'' else ''5.1.1'') ?reason)
        (update_row (oq_id item) f d)"
      unfolding bounce_suppressed_def Let_def f_def
      by (rule arg_cong2 [where f = "generate_bounce env now ?item"], rule refl) simp
    show "settled later item f" "\<forall>q. oq_status (f q) = Bounced" by (simp_all add: f_def settled_def)
  qed
qed

lemma bounce_suppressed_leaves: "leaves item later d (bounce_suppressed env now item s d)"
proof -
  obtain it b g where "bounce_suppressed env now item s d = generate_bounce env now it b (update_row (oq_id item) g d)"
    "settled later item g"
    using bounce_suppressed_eq [of env now item s d later] by metis
  then show ?thesis using leaves_bounce [OF refl] by simp
qed

text \<open>The two ends of recordFailure.\<close>

lemma record_failure_deferred:
  assumes "\<not> failure_permanent c" "retry_at (we_jitter env) (item\<lparr>oq_failure_category := Some c\<rparr>) c now = Some nx"
    and "c = classify_failure (sc_enforce_text (we_smtp env)) e"
  obtains tx cod where "record_failure env item e now d =
    update_row (oq_id item) (\<lambda>q. (mark_failed tx cod c Deferred q)\<lparr>oq_next_attempt := nx\<rparr>) d"
proof (rule that)
  show "record_failure env item e now d = update_row (oq_id item) (\<lambda>q. (mark_failed (we_error_text env e)
      (case smtp_error_from (sc_enforce_text (we_smtp env)) e of None \<Rightarrow> 0 | Some se \<Rightarrow> se_code se)
      c Deferred q)\<lparr>oq_next_attempt := nx\<rparr>) d"
    unfolding record_failure_def Let_def assms(3) [symmetric] using assms(1,2) by simp
qed

lemma record_failure_bounced:
  assumes "failure_permanent c \<or> retry_at (we_jitter env) (item\<lparr>oq_failure_category := Some c\<rparr>) c now = None"
    and "c = classify_failure (sc_enforce_text (we_smtp env)) e"
  obtains tx cod b d1 where
    "record_failure env item e now d = generate_bounce env now (item\<lparr>oq_failure_category := Some c\<rparr>) b d1"
    "db_queue d1 = db_queue (update_row (oq_id item) (mark_failed tx cod c Bounced) d)"
proof -
  let ?t = "sc_enforce_text (we_smtp env)"
  let ?d = "update_row (oq_id item) (mark_failed (we_error_text env e)
      (case smtp_error_from ?t e of None \<Rightarrow> 0 | Some se \<Rightarrow> se_code se) c Bounced) d"
  let ?item = "item\<lparr>oq_failure_category := Some c\<rparr>"
  have "record_failure env item e now d = generate_bounce env now ?item
      (case smtp_error_from ?t e of Some se \<Rightarrow> se | None \<Rightarrow> refusal 0 [] (we_error_text env e))
      (if failure_suppresses c then suppress env ?item c (we_error_text env e) now ?d else ?d)"
    unfolding record_failure_def Let_def assms(2) [symmetric] using assms(1) by auto
  then show thesis by (rule that) simp
qed

lemma mark_failed_simps [simp]:
  "oq_id (mark_failed t k c st q) = oq_id q" "oq_expires_at (mark_failed t k c st q) = oq_expires_at q"
  "oq_created_at (mark_failed t k c st q) = oq_created_at q" "oq_sender (mark_failed t k c st q) = oq_sender q"
  "oq_status (mark_failed t k c st q) = st" "oq_failure_category (mark_failed t k c st q) = Some c"
  by (simp_all add: mark_failed_def)

lemma record_failure_leaves: "leaves item later d (record_failure env item e later d)"
proof -
  define c where "c = classify_failure (sc_enforce_text (we_smtp env)) e"
  let ?retry = "retry_at (we_jitter env) (item\<lparr>oq_failure_category := Some c\<rparr>) c later"
  show ?thesis
  proof (cases "failure_permanent c \<or> ?retry = None")
    case True
    then obtain tx cod b d1 where
      "record_failure env item e later d = generate_bounce env later (item\<lparr>oq_failure_category := Some c\<rparr>) b d1"
      and q: "db_queue d1 = db_queue (update_row (oq_id item) (mark_failed tx cod c Bounced) d)"
      by (rule record_failure_bounced [OF _ c_def])
    moreover have "settled later item (mark_failed tx cod c Bounced)" by (simp add: settled_def)
    ultimately show ?thesis using leaves_bounce [OF q] by simp
  next
    case False
    then obtain nx where nx: "\<not> failure_permanent c" "?retry = Some nx" by auto
    from nx obtain tx cod where
      "record_failure env item e later d
        = update_row (oq_id item) (\<lambda>q. (mark_failed tx cod c Deferred q)\<lparr>oq_next_attempt := nx\<rparr>) d"
      by (rule record_failure_deferred [OF _ _ c_def])
    moreover have "later < nx" "nx < oq_expires_at item" using retry_at_SomeD(1,2) [OF nx(2)] by simp_all
    ultimately show ?thesis by (simp add: leaves_update settled_def)
  qed
qed

text \<open>Writing the transport of a row, and what an attempt leaves, compose.\<close>

lemma leaves_after_transport:
  assumes "leaves item later (update_row (oq_id item) (\<lambda>q. q\<lparr>oq_transport := t\<rparr>) d) d'"
  shows "leaves item later d d'"
proof -
  let ?g = "\<lambda>q. q\<lparr>oq_transport := t\<rparr>"
  from assms obtain f new where
    q: "db_queue d' = map (\<lambda>q. if oq_id q = oq_id item then f q else q)
          (db_queue (update_row (oq_id item) ?g d)) @ new"
    and s: "settled later item f" and n: "notices (update_row (oq_id item) ?g d) new"
    by (auto simp: leaves_def)
  have "db_queue d' = map (\<lambda>q. if oq_id q = oq_id item then (f \<circ> ?g) q else q) (db_queue d) @ new"
    using q by (auto simp: update_row_def)
  moreover have "settled later item (f \<circ> ?g)" using s by (simp add: settled_def)
  moreover have "notices d new"
    using n ids_update [of ?g "oq_id item" d] by (simp add: notices_def keeps_id_def)
  ultimately show ?thesis unfolding leaves_def by blast
qed

lemma leaves_same_queue: "db_queue d1 = db_queue d2 \<Longrightarrow> leaves item later d1 d' \<Longrightarrow> leaves item later d2 d'"
  by (simp add: leaves_def notices_def ids_def)

lemma process_leaves: "leaves item later d (fst (process env item now later d))"
proof (cases "suppression_of env item now d")
  case (Some s)
  then show ?thesis using bounce_suppressed_leaves by (simp add: process_def)
next
  case None
  obtain st evs r where dl: "deliver (we_route env) (route_state_of d item) item = (st, evs, r)"
    by (cases "deliver (we_route env) (route_state_of d item) item")
  let ?d0 = "update_row (oq_id item) (\<lambda>q. q\<lparr>oq_transport := rs_transport st\<rparr>) d"
  let ?d1 = "upsert_capability (rs_capability st) ?d0"
  have "leaves item later ?d1 (case r of None \<Rightarrow> update_row (oq_id item) (\<lambda>q. q\<lparr>oq_status := Delivered\<rparr>) ?d1
      | Some e \<Rightarrow> record_failure env item e later ?d1)"
    by (cases r) (auto simp: settled_def intro!: leaves_update record_failure_leaves)
  then have "leaves item later ?d0 (case r of None \<Rightarrow> update_row (oq_id item) (\<lambda>q. q\<lparr>oq_status := Delivered\<rparr>) ?d1
      | Some e \<Rightarrow> record_failure env item e later ?d1)"
    by (rule leaves_same_queue [rotated]) simp
  then have "leaves item later d (case r of None \<Rightarrow> update_row (oq_id item) (\<lambda>q. q\<lparr>oq_status := Delivered\<rparr>) ?d1
      | Some e \<Rightarrow> record_failure env item e later ?d1)"
    by (rule leaves_after_transport)
  then show ?thesis
    using None dl by (cases r) (simp_all add: process_def deliver_db_def)
qed

lemma bounce_keeps_rows:
  "q \<in> set (db_queue (generate_bounce env now item e d)) \<Longrightarrow> oq_id q \<in> ids d \<Longrightarrow> q \<in> set (db_queue d)"
  using generate_bounce_queue [of env now item e d] fresh_queue_id_new [of d] by force

lemma record_failure_outcome:
  assumes q: "q \<in> set (db_queue (record_failure env item e later d))" "oq_id q = oq_id item" "oq_id item \<in> ids d"
  defines "c \<equiv> classify_failure (sc_enforce_text (we_smtp env)) e"
  defines "retry \<equiv> retry_at (we_jitter env) (item\<lparr>oq_failure_category := Some c\<rparr>) c later"
  shows "oq_failure_category q = Some c \<and>
    (if failure_permanent c \<or> retry = None then oq_status q = Bounced
     else oq_status q = Deferred \<and> retry = Some (oq_next_attempt q))"
proof (cases "failure_permanent c \<or> retry = None")
  case True
  obtain tx cod b d1 where
    eq: "record_failure env item e later d = generate_bounce env later (item\<lparr>oq_failure_category := Some c\<rparr>) b d1"
    "db_queue d1 = db_queue (update_row (oq_id item) (mark_failed tx cod c Bounced) d)"
    by (rule record_failure_bounced [OF True [unfolded retry_def] c_def [THEN meta_eq_to_obj_eq]])
  have "ids d1 = ids d"
    using ids_update [of "mark_failed tx cod c Bounced" "oq_id item" d] eq(2) by (simp add: ids_def keeps_id_def)
  moreover have "q \<in> set (db_queue (generate_bounce env later (item\<lparr>oq_failure_category := Some c\<rparr>) b d1))"
    using q(1) eq(1) by simp
  ultimately have "q \<in> set (db_queue d1)" using bounce_keeps_rows q(2,3) by simp
  then show ?thesis using True q(2) by (auto simp: eq(2) update_row_set)
next
  case False
  then obtain nx where nx: "\<not> failure_permanent c" "retry = Some nx" by auto
  obtain tx cod where "record_failure env item e later d
      = update_row (oq_id item) (\<lambda>q. (mark_failed tx cod c Deferred q)\<lparr>oq_next_attempt := nx\<rparr>) d"
    by (rule record_failure_deferred [OF nx [unfolded retry_def] c_def [THEN meta_eq_to_obj_eq]])
  with q nx show ?thesis by (auto simp: update_row_set)
qed


section \<open>Bounces stay bounded\<close>

lemma filter_append_count: "length (filter P (xs @ [x])) = length (filter P xs) + (if P x then 1 else 0)"
  by simp

lemma queue_remote_dsn_limit:
  assumes "0 < we_bounce_max env" "recent_remote_dsns (we_bounce_window env) now r d \<le> we_bounce_max env"
  shows "recent_remote_dsns (we_bounce_window env) now r (queue_remote_dsn env now item e d) \<le> we_bounce_max env"
proof -
  let ?w = "we_bounce_window env"
  let ?r = "trim_space (oq_sender item)"
  have count: "recent_remote_dsns ?w now r (enqueue now (dsn_row h x dom raw now) d)
      \<le> recent_remote_dsns ?w now r d + (if r = x then 1 else 0)" for h x dom raw
    by (simp add: recent_remote_dsns_def enqueue_def dsn_row_def)
  show ?thesis
  proof (cases "recent_remote_dsns ?w now ?r d < we_bounce_max env")
    case True
    with assms count show ?thesis
      by (auto simp: queue_remote_dsn_def Let_def within_dsn_rate_limit_def intro: order_trans)
        (smt (verit, best) count)+
  next
    case False
    with assms show ?thesis by (simp add: queue_remote_dsn_def Let_def within_dsn_rate_limit_def)
  qed
qed

lemma insert_bounce_count:
  "recent_dsn_count w now m (insert_bounce env now item e mb d) \<le> recent_dsn_count w now m d + (if m = mb then 1 else 0)"
  by (simp add: recent_dsn_count_def insert_bounce_def Let_def)

lemma insert_bounce_remote: "recent_remote_dsns w now r (insert_bounce env now item e mb d) = recent_remote_dsns w now r d"
  by (simp add: recent_remote_dsns_def insert_bounce_def Let_def)

lemma queue_remote_dsn_local: "recent_dsn_count w now m (queue_remote_dsn env now item e d) = recent_dsn_count w now m d"
  by (simp add: recent_dsn_count_def queue_remote_dsn_def Let_def enqueue_def)

text \<open>
  bounces cannot be turned into a flood: with a limit set, no bounce takes a local mailbox, or a
  sender outside, past that many delivery notices within the window; mail with a null sender, a notice
  itself among it, is never bounced, so a notice about a notice is never made.
\<close>

theorem bounces_rate_limited:
  assumes "0 < we_bounce_max env"
    and "recent_dsn_count (we_bounce_window env) now m d \<le> we_bounce_max env"
    and "recent_remote_dsns (we_bounce_window env) now r d \<le> we_bounce_max env"
  shows "recent_dsn_count (we_bounce_window env) now m (generate_bounce env now item e d) \<le> we_bounce_max env
       \<and> recent_remote_dsns (we_bounce_window env) now r (generate_bounce env now item e d) \<le> we_bounce_max env
       \<and> (oq_sender item = [] \<longrightarrow> generate_bounce env now item e d = d)"
proof -
  let ?w = "we_bounce_window env"
  have "recent_dsn_count ?w now m (insert_bounce env now item e mb d) \<le> we_bounce_max env"
    if "recent_dsn_count ?w now mb d < we_bounce_max env" for mb
    using insert_bounce_count [of ?w now m env item e mb d] that assms(2) by (auto split: if_splits)
  then show ?thesis
    using assms queue_remote_dsn_limit [OF assms(1,3)]
    by (auto simp: generate_bounce_def within_dsn_rate_limit_def queue_remote_dsn_local insert_bounce_remote
        split: option.splits)
qed

section \<open>Workers side by side\<close>

text \<open>
  The database with the rows the workers of all gateways hold. A finished attempt writes its row by id
  alone, also when the row was reclaimed meanwhile; a worker may also crash. What the network answers
  may differ at every step.
\<close>

record system =
  sy_db :: db
  sy_flight :: "outbound_queue list"

inductive worker_step :: "system \<Rightarrow> system \<Rightarrow> bool" where
  step_enqueue: "oq_status q = Pending \<Longrightarrow>
    worker_step \<lparr>sy_db = d, sy_flight = fl\<rparr> \<lparr>sy_db = enqueue now q d, sy_flight = fl\<rparr>"
| step_claim: "claim reclaim locked now d = Some (item, d') \<Longrightarrow>
    worker_step \<lparr>sy_db = d, sy_flight = fl\<rparr> \<lparr>sy_db = d', sy_flight = item # fl\<rparr>"
| step_beat: "item \<in> set fl \<Longrightarrow>
    worker_step \<lparr>sy_db = d, sy_flight = fl\<rparr> \<lparr>sy_db = fst (refresh_claim now item d), sy_flight = fl\<rparr>"
| step_finish: "item \<in> set fl \<Longrightarrow> process env item now later d = (d', evs) \<Longrightarrow>
    worker_step \<lparr>sy_db = d, sy_flight = fl\<rparr> \<lparr>sy_db = d', sy_flight = remove1 item fl\<rparr>"
| step_crash: "worker_step \<lparr>sy_db = d, sy_flight = fl\<rparr> \<lparr>sy_db = d, sy_flight = remove1 item fl\<rparr>"

inductive_cases worker_stepE: "worker_step s s'"

definition empty_queue :: "system \<Rightarrow> bool" where
  "empty_queue s \<longleftrightarrow> db_queue (sy_db s) = [] \<and> sy_flight s = []"

definition same_deadline :: "outbound_queue \<Rightarrow> outbound_queue \<Rightarrow> bool" where
  "same_deadline item q \<longleftrightarrow> (oq_id q = oq_id item \<longrightarrow> oq_expires_at q = oq_expires_at item)"

definition in_time :: "outbound_queue \<Rightarrow> bool" where
  "in_time q \<longleftrightarrow> (oq_status q = Deferred \<longrightarrow> oq_next_attempt q < oq_expires_at q)"

definition system_ok :: "system \<Rightarrow> bool" where
  "system_ok s \<longleftrightarrow> ids_distinct (sy_db s)
     \<and> (\<forall>q \<in> set (db_queue (sy_db s)). in_time q)
     \<and> (\<forall>item \<in> set (sy_flight s). oq_id item \<in> ids (sy_db s) \<and>
          (\<forall>q \<in> set (db_queue (sy_db s)). same_deadline item q))"

lemma before_create_id: "oq_id ((before_create now q)\<lparr>oq_id := i\<rparr>) = i"
  by simp

lemma enqueue_ok:
  assumes "system_ok \<lparr>sy_db = d, sy_flight = fl\<rparr>" "oq_status q = Pending"
  shows "system_ok \<lparr>sy_db = enqueue now q d, sy_flight = fl\<rparr>"
proof -
  let ?q = "(before_create now q)\<lparr>oq_id := fresh_queue_id d\<rparr>"
  have rows: "db_queue (enqueue now q d) = db_queue d @ [?q]" by (simp add: enqueue_def)
  have fresh: "fresh_queue_id d \<notin> set (map oq_id (db_queue d))" using fresh_queue_id_new [of d] by (simp add: ids_def)
  have "same_deadline item ?q" if "item \<in> set fl" for item
    using that assms(1) fresh by (auto simp: system_ok_def same_deadline_def ids_def)
  with assms rows fresh show ?thesis
    by (auto simp: system_ok_def ids_distinct_def ids_def in_time_def)
qed

lemma claim_ok:
  assumes ok: "system_ok \<lparr>sy_db = d, sy_flight = fl\<rparr>" and c: "claim reclaim locked now d = Some (item, d')"
  shows "system_ok \<lparr>sy_db = d', sy_flight = item # fl\<rparr>"
proof (rule claim_SomeD [OF c])
  fix q
  assume q: "q \<in> set (db_queue d)" and item: "item = mark_delivering now q"
    and d': "d' = update_row (oq_id q) (\<lambda>r. mark_delivering now q) d"
  have dist: "distinct (map oq_id (db_queue d))" using ok by (simp add: system_ok_def ids_distinct_def)
  have one: "r = q" if "r \<in> set (db_queue d)" "oq_id r = oq_id q" for r
    using dist that q by (meson distinct_map inj_on_eq_iff)
  have map_ids: "map oq_id (db_queue d') = map oq_id (db_queue d)"
    by (simp add: d' update_row_def mark_delivering_def)
  have rows: "x \<in> set (db_queue d') \<Longrightarrow> x = mark_delivering now q \<or> x \<in> set (db_queue d) \<and> oq_id x \<noteq> oq_id q" for x
    unfolding d' update_row_set by (auto split: if_splits)
  have md: "in_time (mark_delivering now q)" by (simp add: in_time_def mark_delivering_def)
  have "\<forall>x \<in> set (db_queue d'). in_time x"
    using rows ok md by (auto simp: system_ok_def)
  moreover have "oq_id it \<in> ids d' \<and> (\<forall>x \<in> set (db_queue d'). same_deadline it x)" if "it \<in> set (item # fl)" for it
  proof -
    have "ids d' = ids d" using map_ids by (simp add: ids_def)
    moreover have "oq_id item \<in> ids d" using q item by (auto simp: ids_def mark_delivering_def)
    moreover have "same_deadline item x" if "x \<in> set (db_queue d')" for x
      using rows [OF that] item by (auto simp: same_deadline_def mark_delivering_def)
    moreover have "same_deadline it x" if "it \<in> set fl" "x \<in> set (db_queue d')" for x
      using rows [OF that(2)] that(1) ok q by (auto simp: system_ok_def same_deadline_def mark_delivering_def)
    ultimately show ?thesis using that ok by (auto simp: system_ok_def)
  qed
  ultimately show ?thesis using map_ids dist by (simp add: system_ok_def ids_distinct_def)
qed

lemma leaves_ok:
  assumes ok: "system_ok \<lparr>sy_db = d, sy_flight = fl\<rparr>" and item: "item \<in> set fl" and l: "leaves item later d d'"
  shows "system_ok \<lparr>sy_db = d', sy_flight = remove1 item fl\<rparr>"
proof -
  from l obtain f new where
    rows: "db_queue d' = map (\<lambda>q. if oq_id q = oq_id item then f q else q) (db_queue d) @ new"
    and f: "settled later item f" and n: "notices d new" by (auto simp: leaves_def)
  have idf: "oq_id (if oq_id q = oq_id item then f q else q) = oq_id q"
    "oq_expires_at (if oq_id q = oq_id item then f q else q) = oq_expires_at q" for q
    using f by (auto simp: settled_def)
  have "distinct (map oq_id new)" using n by (cases new) (auto simp: notices_def)
  moreover have map_ids: "map oq_id (db_queue d') = map oq_id (db_queue d) @ map oq_id new"
    by (simp add: rows idf comp_def)
  moreover have "ids d \<inter> set (map oq_id new) = {}"
    using n by (auto simp: notices_def)
  ultimately have "ids_distinct d'"
    using ok unfolding ids_distinct_def map_ids distinct_append ids_def by (simp add: system_ok_def ids_distinct_def)
  moreover have "in_time q" if "q \<in> set (db_queue d')" for q
  proof -
    from that rows consider r where "r \<in> set (db_queue d)" "q = (if oq_id r = oq_id item then f r else r)"
      | "q \<in> set new" by auto
    then show ?thesis
    proof cases
      case 1
      then have "oq_id r = oq_id item \<longrightarrow> oq_expires_at r = oq_expires_at item" "in_time r"
        using ok item by (auto simp: system_ok_def same_deadline_def)
      moreover from f have "oq_expires_at (f r) = oq_expires_at r \<and>
          (oq_status (f r) = Delivered \<or> oq_status (f r) = Bounced \<or>
           oq_status (f r) = Deferred \<and> later < oq_next_attempt (f r) \<and> oq_next_attempt (f r) < oq_expires_at item)"
        unfolding settled_def by blast
      ultimately show ?thesis using 1 by (auto simp: in_time_def split: if_splits)
    qed (use n in \<open>auto simp: notices_def in_time_def\<close>)
  qed
  moreover have "oq_id it \<in> ids d' \<and> (\<forall>q \<in> set (db_queue d'). same_deadline it q)" if "it \<in> set (remove1 item fl)" for it
  proof -
    have it: "oq_id it \<in> ids d" "\<forall>q \<in> set (db_queue d). same_deadline it q"
      using that ok notin_set_remove1 by (fastforce simp: system_ok_def)+
    have "oq_id it \<in> ids d'"
      using it(1) arg_cong [OF map_ids, of set] by (simp add: ids_def)
    moreover have "same_deadline it q" if "q \<in> set (db_queue d')" for q
    proof -
      from that rows consider r where "r \<in> set (db_queue d)" "q = (if oq_id r = oq_id item then f r else r)"
        | "q \<in> set new" by auto
      then show ?thesis
      proof cases
        case 1
        then have "oq_id q = oq_id r" "oq_expires_at q = oq_expires_at r" using idf by simp_all
        with 1(1) it(2) show ?thesis by (simp add: same_deadline_def)
      next
        case 2
        with n have "oq_id q \<notin> ids d" by (auto simp: notices_def)
        with it(1) show ?thesis by (auto simp: same_deadline_def)
      qed
    qed
    ultimately show ?thesis by blast
  qed
  ultimately show ?thesis by (simp add: system_ok_def)
qed

lemma refresh_ok:
  assumes ok: "system_ok \<lparr>sy_db = d, sy_flight = fl\<rparr>"
  shows "system_ok \<lparr>sy_db = fst (refresh_claim now item d), sy_flight = fl\<rparr>"
proof -
  define g :: "outbound_queue \<Rightarrow> outbound_queue" where "g = (\<lambda>q. if oq_id q = oq_id item \<and> oq_status q = Delivering \<and> oq_attempts q = oq_attempts item
    then q\<lparr>oq_last_attempt := Some now\<rparr> else q)"
  have rows: "db_queue (fst (refresh_claim now item d)) = map g (db_queue d)"
    by (simp add: refresh_claim_def Let_def g_def)
  have g: "oq_id (g q) = oq_id q" "oq_expires_at (g q) = oq_expires_at q"
    "oq_status (g q) = oq_status q" "oq_next_attempt (g q) = oq_next_attempt q" for q
    by (simp_all add: g_def)
  have "oq_id \<circ> g = oq_id" by (simp add: fun_eq_iff g)
  then show ?thesis
    using ok unfolding system_ok_def ids_distinct_def ids_def by (simp add: rows in_time_def same_deadline_def g)
qed

interpretation queue_system: invariant_system empty_queue worker_step system_ok
proof
  show "empty_queue s \<Longrightarrow> system_ok s" for s
    by (simp add: empty_queue_def system_ok_def ids_distinct_def)
next
  fix s t assume "worker_step s t" and ok: "system_ok s"
  then show "system_ok t"
  proof (cases rule: worker_step.cases)
    case (step_finish item fl env now later d d' evs)
    then have "leaves item later d d'" using process_leaves [of item later d env now] by simp
    with step_finish ok show ?thesis using leaves_ok by blast
  next
    case (step_crash d fl item)
    with ok show ?thesis using notin_set_remove1 by (fastforce simp: system_ok_def)
  qed (use ok enqueue_ok claim_ok refresh_ok in auto)
qed

text \<open>
  C1: however many workers claim, send, crash and overtake each other, no message is stranded: a
  deferred row's next attempt is always before its expiry, so at that time it is claimable by any
  worker unless its sending domain's mail is stopped.
\<close>

theorem no_row_is_stranded:
  assumes "reach empty_queue worker_step s" "q \<in> set (db_queue (sy_db s))" "oq_status q = Deferred"
  shows "oq_next_attempt q < oq_expires_at q
       \<and> (\<not> queue_held (sy_db s) q \<longrightarrow> claimable reclaim (sy_db s) (oq_next_attempt q) q)"
proof -
  have "system_ok s" using assms(1) by (rule queue_system.reach_inv)
  with assms(2,3) have "oq_next_attempt q < oq_expires_at q" by (auto simp: system_ok_def in_time_def)
  with assms(3) show ?thesis by (simp add: claimable_def)
qed

section \<open>A queue at work\<close>

definition sample_worker :: worker_env where
  "sample_worker =
     \<lparr>we_route = sample_env, we_mailbox_of = (\<lambda>a. None), we_parse_address = Some, we_rfc1123z = (\<lambda>t. ''date''),
      we_time_text = (\<lambda>t. ''date''), we_bounce_max = default_bounce_max_per_recipient,
      we_bounce_window = default_bounce_window, we_suppression_ttl = default_suppression_ttl,
      we_reclaim = 11 * minute, we_suppression_err = False, we_insert_err = False, we_jitter = 0\<rparr>"

definition empty_db :: db where
  "empty_db = \<lparr>db_queue = [], db_domains = [], db_suppressions = [], db_messages = [], db_capabilities = []\<rparr>"

definition pending_row :: outbound_queue where
  "pending_row = sample_row\<lparr>oq_status := Pending, oq_attempts := 0, oq_last_attempt := None\<rparr>"

definition queued_db :: db where "queued_db = empty_db\<lparr>db_queue := [pending_row]\<rparr>"
definition claimed_row :: outbound_queue where "claimed_row = mark_delivering second pending_row"
definition claimed_db :: db where "claimed_db = empty_db\<lparr>db_queue := [claimed_row]\<rparr>"

lemma queued_db_enqueue: "enqueue 0 pending_row empty_db = queued_db"
  by (simp add: enqueue_def queued_db_def empty_db_def fresh_queue_id_def before_create_def pending_row_def
      sample_row_def zero_time_def queue_lifetime_def default_max_retries_def duration_defs)

lemma sample_claim: "claim (11 * minute) (\<lambda>i. False) second queued_db = Some (claimed_row, claimed_db)"
proof -
  have "claimable (11 * minute) queued_db second pending_row"
    by (simp add: claimable_def queue_held_def queued_db_def empty_db_def pending_row_def sample_row_def
        queue_lifetime_def duration_defs)
  then show ?thesis
    by (simp add: claim_def queued_db_def update_row_def claimed_db_def claimed_row_def)
qed

theorem claim_takes_a_due_row_witness:
  "claimed_row = mark_delivering second pending_row \<and> oq_next_attempt pending_row \<le> second
       \<and> second < oq_expires_at pending_row"
proof -
  from claim_takes_a_due_row [OF sample_claim] obtain q where
    "q \<in> set (db_queue queued_db)" "claimed_row = mark_delivering second q" "second < oq_expires_at q" by blast
  moreover have "oq_next_attempt pending_row \<le> second"
    by (simp add: pending_row_def sample_row_def duration_defs)
  ultimately show ?thesis by (simp add: queued_db_def)
qed

definition other_db :: db where
  "other_db = claimed_db\<lparr>db_queue := [claimed_row, pending_row\<lparr>oq_id := 2\<rparr>]\<rparr>"

definition two_rows_db :: db where
  "two_rows_db = queued_db\<lparr>db_queue := [pending_row, pending_row\<lparr>oq_id := 2\<rparr>]\<rparr>"

lemma two_rows_claim:
  "\<exists>d'. claim (11 * minute) (\<lambda>i. False) second two_rows_db = Some (claimed_row, d') \<and> d' = other_db"
proof -
  have "claimable (11 * minute) two_rows_db second pending_row"
    "claimable (11 * minute) two_rows_db second (pending_row\<lparr>oq_id := 2\<rparr>)"
    by (simp_all add: claimable_def queue_held_def two_rows_db_def queued_db_def empty_db_def pending_row_def sample_row_def
        queue_lifetime_def duration_defs)
  then show ?thesis
    by (simp add: claim_def two_rows_db_def queued_db_def update_row_def other_db_def claimed_db_def empty_db_def
        claimed_row_def pending_row_def sample_row_def)
qed

lemma second_claim:
  "\<exists>d'. claim (11 * minute) (\<lambda>i. False) (2 * second) (beats claimed_row [2 * second] other_db)
     = Some (mark_delivering (2 * second) (pending_row\<lparr>oq_id := 2\<rparr>), d')"
proof -
  let ?d = "beats claimed_row [2 * second] other_db"
  have rows: "db_queue ?d = [claimed_row\<lparr>oq_last_attempt := Some (2 * second)\<rparr>, pending_row\<lparr>oq_id := 2\<rparr>]"
    "db_domains ?d = []"
    by (simp_all add: beats_def refresh_claim_def Let_def other_db_def claimed_db_def empty_db_def claimed_row_def
        mark_delivering_def pending_row_def sample_row_def)
  have "\<not> queue_held ?d q" for q by (simp add: queue_held_def rows(2))
  then have "claimable (11 * minute) ?d (2 * second) (pending_row\<lparr>oq_id := 2\<rparr>)"
    "\<not> claimable (11 * minute) ?d (2 * second) (claimed_row\<lparr>oq_last_attempt := Some (2 * second)\<rparr>)"
    by (simp_all add: claimable_def pending_row_def sample_row_def claimed_row_def mark_delivering_def
        queue_lifetime_def duration_defs)
  then show ?thesis by (simp add: claim_def rows)
qed


lemma sample_reach: "reach empty_queue worker_step \<lparr>sy_db = claimed_db, sy_flight = [claimed_row]\<rparr>"
proof -
  have "reach empty_queue worker_step \<lparr>sy_db = empty_db, sy_flight = []\<rparr>"
    by (rule reach_start) (simp add: empty_queue_def empty_db_def)
  moreover have "worker_step \<lparr>sy_db = empty_db, sy_flight = []\<rparr> \<lparr>sy_db = enqueue 0 pending_row empty_db, sy_flight = []\<rparr>"
    by (rule step_enqueue) (simp add: pending_row_def)
  moreover have "worker_step \<lparr>sy_db = queued_db, sy_flight = []\<rparr> \<lparr>sy_db = claimed_db, sy_flight = [claimed_row]\<rparr>"
    by (rule step_claim [OF sample_claim])
  ultimately show ?thesis by (metis queued_db_enqueue reach_step)
qed

definition finished_db :: db where
  "finished_db = fst (process sample_worker claimed_row second (2 * second) claimed_db)"

lemma finished_rows:
  "map oq_status (db_queue finished_db) = [Deferred] \<and> map oq_next_attempt (db_queue finished_db) = [242 * second]"
  by code_simp

theorem no_row_is_stranded_witness:
  "\<exists>q. q \<in> set (db_queue finished_db) \<and> oq_status q = Deferred \<and> oq_next_attempt q < oq_expires_at q"
proof -
  from finished_rows obtain q where q: "db_queue finished_db = [q]" "oq_status q = Deferred"
    by (cases "db_queue finished_db") auto
  have "worker_step \<lparr>sy_db = claimed_db, sy_flight = [claimed_row]\<rparr> \<lparr>sy_db = finished_db, sy_flight = remove1 claimed_row [claimed_row]\<rparr>"
    by (rule step_finish [where env = sample_worker and now = second and later = "2 * second"
          and evs = "snd (process sample_worker claimed_row second (2 * second) claimed_db)"])
      (simp_all add: finished_db_def)
  then have "reach empty_queue worker_step \<lparr>sy_db = finished_db, sy_flight = remove1 claimed_row [claimed_row]\<rparr>"
    by (rule reach_step [OF sample_reach])
  from no_row_is_stranded [OF this, of q] q show ?thesis by auto
qed


theorem bounces_rate_limited_witness:
  "recent_dsn_count (we_bounce_window sample_worker) 0 1 (generate_bounce sample_worker 0 sample_row (refusal 550 [] []) empty_db) \<le> we_bounce_max sample_worker
   \<and> recent_remote_dsns (we_bounce_window sample_worker) 0 ''a@here.test'' (generate_bounce sample_worker 0 sample_row (refusal 550 [] []) empty_db) \<le> we_bounce_max sample_worker"
proof -
  have "0 < we_bounce_max sample_worker"
    by (simp add: sample_worker_def default_bounce_max_per_recipient_def)
  moreover from this have "recent_dsn_count (we_bounce_window sample_worker) 0 1 empty_db \<le> we_bounce_max sample_worker"
    "recent_remote_dsns (we_bounce_window sample_worker) 0 ''a@here.test'' empty_db \<le> we_bounce_max sample_worker"
    by (simp_all add: recent_dsn_count_def recent_remote_dsns_def empty_db_def)
  ultimately show ?thesis using bounces_rate_limited by blast
qed

end
