(* ===== verification/Pipeline_Auth.thy ===== *)
theory Pipeline_Auth
  imports Go_Prelude
begin

text \<open>
  The authentication verdicts of a pipeline run (\<^verbatim>\<open>pipeline/auth.go\<close>, \<^verbatim>\<open>dkim_coverage.go\<close>): the store the
  filters record them in, the Authentication-Results field written on a delivered message, and reading
  the field back from a stored one. Methods, results and properties are strings, as in the source.
\<close>

section \<open>Verdicts (auth.go)\<close>

definition auth_serv_id :: string where "auth_serv_id = ''restmail''"

definition auth_spf :: string where "auth_spf = ''spf''"
definition auth_dkim :: string where "auth_dkim = ''dkim''"
definition auth_arc :: string where "auth_arc = ''arc''"
definition auth_dmarc :: string where "auth_dmarc = ''dmarc''"

definition prop_mail_from :: string where "prop_mail_from = ''smtp.mailfrom''"
definition prop_helo :: string where "prop_helo = ''smtp.helo''"
definition prop_header_d :: string where "prop_header_d = ''header.d''"
definition prop_header_from :: string where "prop_header_from = ''header.from''"

record auth_result =
  ar_method :: string
  ar_result :: string
  ar_property :: string
  ar_domain :: string
  ar_selector :: string

definition host_name_byte :: "char \<Rightarrow> bool" where
  "host_name_byte c \<longleftrightarrow> is_lower c \<or> is_upper c \<or> is_digit c \<or> c = CHR ''-''"

definition is_host_name :: "string \<Rightarrow> bool" where
  "is_host_name name \<longleftrightarrow>
     name \<noteq> [] \<and> length name \<le> 253 \<and>
     list_all (\<lambda>label. label \<noteq> [] \<and> length label \<le> 63 \<and> list_all host_name_byte label)
       (split_byte (CHR ''.'') name)"

definition auth_result_string :: "auth_result \<Rightarrow> string" where
  "auth_result_string r =
     ar_method r @ ''='' @ ar_result r @
     (if ar_property r \<noteq> [] \<and> is_host_name (ar_domain r)
      then '' '' @ ar_property r @ ''='' @ ar_domain r else [])"

text \<open>A nil \<open>*AuthResults\<close> is \<open>None\<close>: it records nothing and holds nothing.\<close>

type_synonym auth_results = "auth_result list option"

definition auth_add :: "auth_result list \<Rightarrow> auth_results \<Rightarrow> auth_results" where
  "auth_add rs a = map_option (\<lambda>xs. xs @ rs) a"

definition auth_list :: "auth_results \<Rightarrow> auth_result list" where
  "auth_list a = (case a of None \<Rightarrow> [] | Some xs \<Rightarrow> xs)"

definition auth_find :: "string \<Rightarrow> string \<Rightarrow> auth_results \<Rightarrow> auth_result list" where
  "auth_find method property a =
     filter (\<lambda>r. ar_method r = method \<and> ar_property r = property) (auth_list a)"

definition auth_results_value :: "auth_result list \<Rightarrow> string" where
  "auth_results_value rs =
     (if rs = [] then auth_serv_id @ ''; none''
      else auth_serv_id @ ''; '' @ join ''; '' (map auth_result_string rs))"

definition crlf_tab :: string where "crlf_tab = [CHR 0x0D, CHR 0x0A, CHR 0x09]"

definition auth_results_header :: "auth_result list \<Rightarrow> string" where
  "auth_results_header rs =
     (if rs = [] then []
      else ''Authentication-Results: '' @ auth_serv_id @
           concat (map (\<lambda>r. '';'' @ crlf_tab @ auth_result_string r) rs) @ [CHR 0x0D, CHR 0x0A])"

datatype auth_verdict = Signed | Unsigned | Mismatch

fun auth_verdict_loop :: "bool \<Rightarrow> auth_result list \<Rightarrow> auth_verdict" where
  "auth_verdict_loop signed [] = (if signed then Signed else Unsigned)"
| "auth_verdict_loop signed (r # rs) =
     (if ar_method r = auth_dmarc \<and> ar_result r = ''fail'' then Mismatch
      else auth_verdict_loop (signed \<or> ar_method r = auth_dkim \<and> ar_result r = ''pass'') rs)"

definition auth_verdict :: "auth_result list \<Rightarrow> auth_verdict" where
  "auth_verdict rs = auth_verdict_loop False rs"

section \<open>Reading the stored field back\<close>

function unfold_field :: "string \<Rightarrow> string \<Rightarrow> string \<times> string" where
  "unfold_field field rest =
     (if rest \<noteq> [] \<and> (hd rest = CHR 0x09 \<or> hd rest = CHR '' '') then
        (let (line, rest', _) = cut_byte (CHR 0x0A) rest
         in unfold_field (field @ '' '' @ line) rest')
      else (field, rest))"
  by auto
termination
  by (relation "measure (\<lambda>(field, rest). length rest)") (auto simp: cut_byte_def split: option.splits)

declare unfold_field.simps [simp del]

definition parse_resinfo :: "string \<Rightarrow> auth_result option" where
  "parse_resinfo part =
     (case str_fields part of
        [] \<Rightarrow> None
      | t # ts \<Rightarrow>
          (let (method, result, found) = cut_byte (CHR ''='') t in
           if \<not> found then None
           else
             (let (property, domain, _) =
                    (case ts of [] \<Rightarrow> ([], [], False) | u # _ \<Rightarrow> cut_byte (CHR ''='') u)
              in Some \<lparr>ar_method = method, ar_result = result, ar_property = property,
                       ar_domain = domain, ar_selector = []\<rparr>)))"

definition parse_stored_auth_results :: "string \<Rightarrow> auth_result list option" where
  "parse_stored_auth_results raw =
     (let (first, rest, found) = cut_byte (CHR 0x0A) raw in
      if \<not> found then None
      else
        (let (name, value, colon) = cut_byte (CHR '':'') (fst (unfold_field first rest));
             parts = split_byte (CHR '';'') value
         in if \<not> colon \<or> \<not> equal_fold name ''Authentication-Results'' then None
            else if trim_space (hd parts) \<noteq> auth_serv_id then None
            else Some (List.map_filter parse_resinfo (tl parts))))"

section \<open>What a verified signature covers (dkim_coverage.go)\<close>

definition signed_all :: "string \<Rightarrow> string list \<Rightarrow> bool" where
  "signed_all h_tag names =
     (let signed = map to_lower (split_byte (CHR '':'') (concat (str_fields h_tag)))
      in list_all (\<lambda>f. to_lower f \<in> set signed) names)"

text \<open>
  \<open>split_message\<close> and \<open>parse_tags\<close> are go-dkim's SplitMessage, the fields of a header section, and
  ParseTagList, where an absent tag is the empty string.
\<close>

fun covers_loop ::
  "(string \<Rightarrow> string \<Rightarrow> string) \<Rightarrow> string list \<Rightarrow> (auth_result \<times> string) list \<Rightarrow> bool" where
  "covers_loop parse_tags names [] = False"
| "covers_loop parse_tags names ((verdict, sig) # ps) =
     (if ar_result verdict \<noteq> ''pass'' then covers_loop parse_tags names ps
      else if \<not> equal_fold (parse_tags sig ''d'') (ar_domain verdict) then False
      else if signed_all (parse_tags sig ''h'') names then True
      else covers_loop parse_tags names ps)"

definition stored_dkim_covers ::
  "(string \<Rightarrow> (string \<times> string) list) \<Rightarrow> (string \<Rightarrow> string \<Rightarrow> string) \<Rightarrow> string \<Rightarrow> string list \<Rightarrow> bool" where
  "stored_dkim_covers split_message parse_tags header names =
     (case parse_stored_auth_results header of
        None \<Rightarrow> False
      | Some results \<Rightarrow>
          (let verdicts = filter (\<lambda>r. ar_method r = auth_dkim \<and> ar_property r = prop_header_d) results;
               signatures = filter (\<lambda>(name, value). equal_fold name ''DKIM-Signature'') (split_message header)
           in if verdicts = [] \<or> length verdicts \<noteq> length signatures then False
              else covers_loop parse_tags names (zip verdicts (map snd signatures))))"

section \<open>The round trip\<close>

text \<open>A verdict as the stored field keeps it: the selector stays inside the server, and a property is
  written only for a plain host name.\<close>

definition stored :: "auth_result \<Rightarrow> auth_result" where
  "stored r =
     (if ar_property r \<noteq> [] \<and> is_host_name (ar_domain r) then r\<lparr>ar_selector := []\<rparr>
      else r\<lparr>ar_property := [], ar_domain := [], ar_selector := []\<rparr>)"

definition keyword_byte :: "char \<Rightarrow> bool" where
  "keyword_byte c \<longleftrightarrow> is_lower c \<or> c = CHR ''.''"

text \<open>What the filters record: keywords for method, result and property; any text as the domain.\<close>

definition recordable :: "auth_result \<Rightarrow> bool" where
  "recordable r \<longleftrightarrow>
     ar_method r \<noteq> [] \<and> list_all keyword_byte (ar_method r) \<and> list_all keyword_byte (ar_result r) \<and>
     list_all keyword_byte (ar_property r)"

definition resinfo_byte :: "char \<Rightarrow> bool" where
  "resinfo_byte c \<longleftrightarrow> keyword_byte c \<or> host_name_byte c \<or> c = CHR ''=''"

lemma byte_classes:
  "keyword_byte c \<Longrightarrow> \<not> is_space c" "host_name_byte c \<Longrightarrow> \<not> is_space c" "resinfo_byte c \<Longrightarrow> \<not> is_space c"
  "keyword_byte c \<Longrightarrow> c \<noteq> CHR ''='' \<and> c \<noteq> CHR '';'' \<and> c \<noteq> CHR 0x0A"
  "host_name_byte c \<Longrightarrow> c \<noteq> CHR ''='' \<and> c \<noteq> CHR '';'' \<and> c \<noteq> CHR 0x0A"
  "resinfo_byte c \<Longrightarrow> c \<noteq> CHR '';'' \<and> c \<noteq> CHR 0x0A"
  by (auto simp: keyword_byte_def host_name_byte_def resinfo_byte_def is_space_def is_lower_def is_upper_def
      is_digit_def Let_def)

lemma host_name_bytes: "is_host_name d \<Longrightarrow> c \<in> set d \<Longrightarrow> host_name_byte c \<or> c = CHR ''.''"
  using set_join [of "''.''" "split_byte (CHR ''.'') d"]
  by (auto simp: is_host_name_def list_all_iff join_split_byte)

lemma resinfo_bytes:
  assumes "recordable r"
  shows "\<forall>c \<in> set (auth_result_string r). c = CHR '' '' \<or> resinfo_byte c"
  using assms host_name_bytes [of "ar_domain r"]
  by (auto simp: auth_result_string_def recordable_def resinfo_byte_def keyword_byte_def list_all_iff)

lemma resinfo_free:
  assumes "recordable r"
  shows "CHR 0x0A \<notin> set (auth_result_string r)" "CHR '';'' \<notin> set (auth_result_string r)"
  using resinfo_bytes [OF assms] byte_classes(6) by force+

lemma parse_resinfo_string:
  assumes r: "recordable r" and sp: "list_all is_space pre" "list_all is_space post"
  shows "parse_resinfo (pre @ auth_result_string r @ post) = Some (stored r)"
proof -
  let ?t = "ar_method r @ ''='' @ ar_result r" and ?u = "ar_property r @ ''='' @ ar_domain r"
  have t: "?t \<noteq> []" "list_all (\<lambda>c. \<not> is_space c) ?t" "CHR ''='' \<notin> set (ar_method r)" "CHR ''='' \<notin> set (ar_property r)"
    using r byte_classes(1,4) by (auto simp: recordable_def list_all_iff is_space_def, metis+)
  have cut: "cut_byte (CHR ''='') ?t = (ar_method r, ar_result r, True)"
    "cut_byte (CHR ''='') ?u = (ar_property r, ar_domain r, True)"
    using t(3,4) cut_byte_append by simp_all
  show ?thesis
  proof (cases "ar_property r \<noteq> [] \<and> is_host_name (ar_domain r)")
    case True
    then have u: "?u \<noteq> []" "list_all (\<lambda>c. \<not> is_space c) ?u"
      using r byte_classes(1,2) host_name_bytes [of "ar_domain r"]
      by (fastforce simp: recordable_def list_all_iff is_space_def)+
    have "str_fields (?t @ CHR '' '' # ?u @ post) = [?t, ?u]"
      using fields_word_space [OF t(1,2), of "CHR '' ''" "?u @ post"] fields_last [OF u sp(2)]
      by (simp add: is_space_def)
    then have "str_fields (pre @ auth_result_string r @ post) = [?t, ?u]"
      using True by (simp add: fields_spaces [OF sp(1)] auth_result_string_def)
    then show ?thesis using True cut by (simp add: parse_resinfo_def stored_def)
  next
    case False
    then have "str_fields (pre @ auth_result_string r @ post) = [?t]"
      using fields_last [OF t(1,2) sp(2)] by (auto simp: fields_spaces [OF sp(1)] auth_result_string_def)
    then show ?thesis using False cut by (auto simp: parse_resinfo_def stored_def)
  qed
qed

text \<open>The unfolded field: the folded lines joined, the CR of each line still there.\<close>

fun unfolded_tail :: "auth_result list \<Rightarrow> string" where
  "unfolded_tail [] = [CHR 0x0D]"
| "unfolded_tail (r # rs) = '';'' @ [CHR 0x0D] @ '' '' @ [CHR 0x09] @ auth_result_string r @ unfolded_tail rs"

lemma unfold_lines:
  assumes "recordable r" "\<forall>r \<in> set rs. recordable r" "rest = [] \<or> (hd rest \<noteq> CHR 0x09 \<and> hd rest \<noteq> CHR '' '')"
  shows "unfold_field field (CHR 0x09 # auth_result_string r
            @ concat (map (\<lambda>r. '';'' @ crlf_tab @ auth_result_string r) rs) @ [CHR 0x0D, CHR 0x0A] @ rest)
       = (field @ '' '' @ [CHR 0x09] @ auth_result_string r @ unfolded_tail rs, rest)"
  using assms
proof (induction rs arbitrary: field r)
  case Nil
  have "cut_byte (CHR 0x0A) (CHR 0x09 # auth_result_string r @ [CHR 0x0D, CHR 0x0A] @ rest)
      = (CHR 0x09 # auth_result_string r @ [CHR 0x0D], rest, True)"
    using cut_byte_append [of "CHR 0x0A" "CHR 0x09 # auth_result_string r @ [CHR 0x0D]" rest] resinfo_free(1) [OF Nil(1)]
    by simp
  moreover have "unfold_field f rest = (f, rest)" for f
    using Nil(3) by (subst unfold_field.simps) auto
  ultimately show ?case by (subst unfold_field.simps) simp
next
  case (Cons q qs)
  let ?more = "CHR 0x09 # auth_result_string q
      @ concat (map (\<lambda>r. '';'' @ crlf_tab @ auth_result_string r) qs) @ [CHR 0x0D, CHR 0x0A] @ rest"
  have "cut_byte (CHR 0x0A) ((CHR 0x09 # auth_result_string r @ '';'' @ [CHR 0x0D]) @ CHR 0x0A # ?more)
      = (CHR 0x09 # auth_result_string r @ '';'' @ [CHR 0x0D], ?more, True)"
    by (rule cut_byte_append) (use resinfo_free(1) [OF Cons.prems(1)] in simp)
  then show ?case
    using Cons.IH [of q "field @ '' '' @ CHR 0x09 # auth_result_string r @ '';'' @ [CHR 0x0D]"] Cons.prems
    by (subst unfold_field.simps) (simp add: crlf_tab_def)
qed

lemma parse_tail:
  assumes "recordable r" "\<forall>r \<in> set rs. recordable r" "list_all is_space pre" "CHR '';'' \<notin> set pre"
  shows "List.map_filter parse_resinfo (split_byte (CHR '';'') (pre @ auth_result_string r @ unfolded_tail rs))
       = map stored (r # rs)"
  using assms
proof (induction rs arbitrary: r pre)
  case Nil
  then have "split_byte (CHR '';'') (pre @ auth_result_string r @ [CHR 0x0D]) = [pre @ auth_result_string r @ [CHR 0x0D]]"
    using resinfo_free(2) [OF Nil(1)] by (simp add: split_byte_none)
  moreover have "parse_resinfo (pre @ auth_result_string r @ [CHR 0x0D]) = Some (stored r)"
    by (rule parse_resinfo_string [OF Nil(1,3)]) (simp add: is_space_def)
  ultimately show ?case by (simp add: List.map_filter_simps)
next
  case (Cons q qs)
  let ?pre = "[CHR 0x0D] @ '' '' @ [CHR 0x09]"
  have "split_byte (CHR '';'') ((pre @ auth_result_string r) @ CHR '';'' # ?pre @ auth_result_string q @ unfolded_tail qs)
      = (pre @ auth_result_string r) # split_byte (CHR '';'') (?pre @ auth_result_string q @ unfolded_tail qs)"
    by (rule split_byte_append) (use resinfo_free(2) [OF Cons.prems(1)] Cons.prems(4) in simp)
  moreover have "parse_resinfo (pre @ auth_result_string r) = Some (stored r)"
    using parse_resinfo_string [OF Cons.prems(1,3), of "[]"] by simp
  moreover have "List.map_filter parse_resinfo (split_byte (CHR '';'') (?pre @ auth_result_string q @ unfolded_tail qs)) = map stored (q # qs)"
    using Cons.prems by (intro Cons.IH) (auto simp: is_space_def)
  ultimately show ?case by (simp add: List.map_filter_simps)
qed

lemma verdict_of_stored: "auth_verdict_loop signed (map stored rs) = auth_verdict_loop signed rs"
  by (induction rs arbitrary: signed) (auto simp: stored_def)

lemma header_reads_back:
  assumes "rs \<noteq> []" "\<forall>r \<in> set rs. recordable r" "rest = [] \<or> (hd rest \<noteq> CHR 0x09 \<and> hd rest \<noteq> CHR '' '')"
  shows "parse_stored_auth_results (auth_results_header rs @ rest) = Some (map stored rs)
       \<and> auth_verdict (map stored rs) = auth_verdict rs"
proof -
  obtain r qs where rs: "rs = r # qs" using assms(1) by (cases rs) auto
  let ?head = "''Authentication-Results'' @ CHR '':'' # '' restmail''"
  have raw: "auth_results_header rs @ rest = (?head @ '';'' @ [CHR 0x0D]) @ CHR 0x0A # CHR 0x09 # auth_result_string r
      @ concat (map (\<lambda>r. '';'' @ crlf_tab @ auth_result_string r) qs) @ [CHR 0x0D, CHR 0x0A] @ rest"
    by (simp add: auth_results_header_def rs auth_serv_id_def crlf_tab_def)
  have first: "cut_byte (CHR 0x0A) (auth_results_header rs @ rest)
      = (?head @ '';'' @ [CHR 0x0D], CHR 0x09 # auth_result_string r
          @ concat (map (\<lambda>r. '';'' @ crlf_tab @ auth_result_string r) qs) @ [CHR 0x0D, CHR 0x0A] @ rest, True)"
    unfolding raw by (rule cut_byte_append) simp
  let ?tail = "([CHR 0x0D] @ '' '' @ [CHR 0x09]) @ auth_result_string r @ unfolded_tail qs"
  have field: "fst (unfold_field (?head @ '';'' @ [CHR 0x0D]) (CHR 0x09 # auth_result_string r
          @ concat (map (\<lambda>r. '';'' @ crlf_tab @ auth_result_string r) qs) @ [CHR 0x0D, CHR 0x0A] @ rest))
      = ''Authentication-Results'' @ CHR '':'' # '' restmail'' @ CHR '';'' # ?tail"
    using assms rs by (subst unfold_lines) auto
  have colon: "cut_byte (CHR '':'') (''Authentication-Results'' @ CHR '':'' # '' restmail'' @ CHR '';'' # ?tail)
      = (''Authentication-Results'', '' restmail'' @ CHR '';'' # ?tail, True)"
    by (rule cut_byte_append) simp
  have parts: "split_byte (CHR '';'') ('' restmail'' @ CHR '';'' # ?tail) = '' restmail'' # split_byte (CHR '';'') ?tail"
    by (rule split_byte_append) simp
  have "trim_space '' restmail'' = auth_serv_id" by code_simp
  moreover have "List.map_filter parse_resinfo (split_byte (CHR '';'') ?tail) = map stored rs"
    unfolding rs using assms rs by (intro parse_tail) (auto simp: is_space_def)
  ultimately show ?thesis
    unfolding parse_stored_auth_results_def first auth_verdict_def
    by (simp only: Let_def case_prod_conv field colon parts list.sel verdict_of_stored equal_fold_refl) simp
qed


definition sample_verdicts :: "auth_result list" where
  "sample_verdicts =
     [\<lparr>ar_method = auth_dkim, ar_result = ''pass'', ar_property = prop_header_d, ar_domain = ''a.test'', ar_selector = ''s1''\<rparr>,
      \<lparr>ar_method = auth_spf, ar_result = ''fail'', ar_property = prop_mail_from,
        ar_domain = ''x; dmarc=pass'', ar_selector = []\<rparr>]"

lemma sample_recordable: "\<forall>r \<in> set sample_verdicts. recordable r"
  by code_simp


section \<open>Coverage\<close>

lemma covers_loop_sound:
  "covers_loop parse_tags names ps \<Longrightarrow>
     \<exists>(verdict, sig) \<in> set ps. ar_result verdict = ''pass'' \<and> equal_fold (parse_tags sig ''d'') (ar_domain verdict)
       \<and> signed_all (parse_tags sig ''h'') names"
  by (induction parse_tags names ps rule: covers_loop.induct) (auto split: if_splits)

lemma covers_at:
  assumes "covers_loop parse_tags names (zip vs ss)"
  obtains i where "i < length vs" "i < length ss" "ar_result (vs ! i) = ''pass''"
    "equal_fold (parse_tags (ss ! i) ''d'') (ar_domain (vs ! i))" "signed_all (parse_tags (ss ! i) ''h'') names"
  using covers_loop_sound [OF assms] that by (auto simp: in_set_zip)

text \<open>
  a header field counts as covered by DKIM only through one signature of the message: the verdicts
  recorded for the message pair off one to one with its DKIM-Signature fields, and some pair has a
  verdict of pass, the same signing domain on both sides, and an h= tag that names every field asked
  for. No signature borrows the verdict of another.
\<close>

theorem dkim_coverage_sound:
  assumes "stored_dkim_covers split_message parse_tags (auth_results_header rs @ rest) names"
    "rs \<noteq> []" "\<forall>r \<in> set rs. recordable r" "rest = [] \<or> (hd rest \<noteq> CHR 0x09 \<and> hd rest \<noteq> CHR '' '')"
  shows "\<exists>verdicts signatures i.
      verdicts = filter (\<lambda>r. ar_method r = auth_dkim \<and> ar_property r = prop_header_d) (map stored rs)
    \<and> signatures = filter (\<lambda>(name, value). equal_fold name ''DKIM-Signature'')
        (split_message (auth_results_header rs @ rest))
    \<and> length verdicts = length signatures \<and> i < length verdicts \<and> ar_result (verdicts ! i) = ''pass''
    \<and> equal_fold (parse_tags (snd (signatures ! i)) ''d'') (ar_domain (verdicts ! i))
    \<and> signed_all (parse_tags (snd (signatures ! i)) ''h'') names"
proof -
  let ?h = "auth_results_header rs @ rest"
  define vs where "vs = filter (\<lambda>r. ar_method r = auth_dkim \<and> ar_property r = prop_header_d) (map stored rs)"
  define ss where "ss = filter (\<lambda>(name, value). equal_fold name ''DKIM-Signature'') (split_message ?h)"
  have "parse_stored_auth_results ?h = Some (map stored rs)"
    using header_reads_back [OF assms(2-4)] by simp
  with assms(1) have len: "length vs = length ss" and loop: "covers_loop parse_tags names (zip vs (map snd ss))"
    by (auto simp: stored_dkim_covers_def vs_def ss_def Let_def split: if_splits)
  from loop obtain i where i: "i < length vs" "ar_result (vs ! i) = ''pass''"
    "equal_fold (parse_tags (map snd ss ! i) ''d'') (ar_domain (vs ! i))"
    "signed_all (parse_tags (map snd ss ! i) ''h'') names"
    by (rule covers_at)
  with len show ?thesis
    unfolding vs_def [symmetric] ss_def [symmetric] by (intro exI [of _ vs] exI [of _ ss] exI [of _ i]) auto
qed

definition sample_message :: string where
  "sample_message = auth_results_header sample_verdicts @ ''DKIM-Signature: s'' @ [CHR 0x0D, CHR 0x0A]"

definition sample_split :: "string \<Rightarrow> (string \<times> string) list" where
  "sample_split h = [(''Authentication-Results'', []), (''DKIM-Signature'', ''s'')]"

definition sample_tags :: "string \<Rightarrow> string \<Rightarrow> string" where
  "sample_tags sig t = (if t = ''d'' then ''a.test'' else if t = ''h'' then ''From:Subject'' else [])"

lemma sample_covers: "stored_dkim_covers sample_split sample_tags sample_message [''subject'', ''From'']"
  by code_simp

theorem dkim_coverage_sound_witness:
  "\<exists>sig. (''DKIM-Signature'', sig) \<in> set (sample_split sample_message)
     \<and> signed_all (sample_tags sig ''h'') [''subject'', ''From'']"
proof -
  have "stored_dkim_covers sample_split sample_tags
     (auth_results_header sample_verdicts @ ''DKIM-Signature: s'' @ [CHR 0x0D, CHR 0x0A]) [''subject'', ''From'']"
    using sample_covers by (simp add: sample_message_def)
  from dkim_coverage_sound [OF this _ sample_recordable] obtain signatures i where
    s: "signatures = filter (\<lambda>(name, value). equal_fold name ''DKIM-Signature'') (sample_split sample_message)"
    "i < length signatures" "signed_all (sample_tags (snd (signatures ! i)) ''h'') [''subject'', ''From'']"
    by (auto simp: sample_message_def sample_verdicts_def)
  have "signatures = [(''DKIM-Signature'', ''s'')]" unfolding s(1) by code_simp
  with s show ?thesis by (auto simp: sample_split_def)
qed

end
