(* ===== verification/Pipeline_Types.thy ===== *)
theory Pipeline_Types
  imports Pipeline_Auth "HOL-Library.AList"
begin

text \<open>
  The data of the message pipeline (\<^verbatim>\<open>pipeline/types.go\<close>): a message as it flows through the filters, what
  a filter answers, and how a pipeline is configured. A Go map is an association list with distinct
  keys, in the order Go would iterate it, which is arbitrary.
\<close>

section \<open>Messages\<close>

record address =
  ad_name :: string
  ad_address :: string

record envelope =
  ev_mail_from :: string
  ev_rcpt_to :: "string list"
  ev_client_ip :: string
  ev_client_hostname :: string
  ev_helo :: string
  ev_tls :: bool
  ev_direction :: string

record headers =
  hd_from :: "address list"
  hd_to :: "address list"
  hd_cc :: "address list"
  hd_bcc :: "address list"
  hd_subject :: string
  hd_date :: string
  hd_message_id :: string
  hd_in_reply_to :: string
  hd_references :: "string list"
  hd_raw :: "(string \<times> string list) list"
  hd_extra :: "(string \<times> string) list"

datatype body = Body (body_content_type: string) (body_content: string) (body_parts: "body list")

record attachment =
  at_filename :: string
  at_content_type :: string
  at_size :: int
  at_disposition :: string
  at_content_id :: string
  at_content :: string
  at_storage :: string
  at_ref :: string
  at_checksum :: string

record calendar_address =
  ca_address :: string
  ca_name :: string
  ca_role :: string
  ca_part_stat :: string
  ca_rsvp :: bool

record calendar_event =
  ce_method :: string
  ce_uid :: string
  ce_summary :: string
  ce_description :: string
  ce_location :: string
  ce_dtstart :: time
  ce_dtend :: time
  ce_all_day :: bool
  ce_organizer :: calendar_address
  ce_attendees :: "calendar_address list"
  ce_status :: string
  ce_sequence :: int
  ce_dtstamp :: time

record email =
  em_envelope :: envelope
  em_headers :: headers
  em_body :: body
  em_attachments :: "attachment list"
  em_inline :: "attachment list"
  em_calendar_events :: "calendar_event list"
  em_metadata :: "(string \<times> string) list"

definition lookup :: "(string \<times> string) list \<Rightarrow> string \<Rightarrow> string" where
  "lookup m k = (case map_of m k of None \<Rightarrow> [] | Some v \<Rightarrow> v)"

section \<open>What a filter answers\<close>

datatype filter_type = FilterTypeAction | FilterTypeTransform | OtherFilterType string

text \<open>An Action is a string in Go, and a webhook can answer any: \<open>OtherAction\<close> is one no constant names.\<close>

datatype action =
  ActionContinue | ActionReject | ActionQuarantine | ActionDiscard | ActionDefer | OtherAction string

fun action_of_string :: "string \<Rightarrow> action" where
  "action_of_string s =
     (if s = ''continue'' then ActionContinue
      else if s = ''reject'' then ActionReject
      else if s = ''quarantine'' then ActionQuarantine
      else if s = ''discard'' then ActionDiscard
      else if s = ''defer'' then ActionDefer
      else OtherAction s)"

fun action_string :: "action \<Rightarrow> string" where
  "action_string ActionContinue = ''continue''"
| "action_string ActionReject = ''reject''"
| "action_string ActionQuarantine = ''quarantine''"
| "action_string ActionDiscard = ''discard''"
| "action_string ActionDefer = ''defer''"
| "action_string (OtherAction s) = s"

record filter_log =
  fl_filter :: string
  fl_result :: string
  fl_detail :: string

record filter_result =
  fr_type :: filter_type
  fr_action :: action
  fr_message :: "email option"
  fr_skip_filters :: "string list"
  fr_reject_msg :: string
  fr_log :: filter_log

section \<open>Configuration\<close>

record filter_config =
  fc_name :: string
  fc_type :: filter_type
  fc_enabled :: bool
  fc_unskippable :: bool
  fc_config :: string

record pipeline_config =
  pc_id :: nat
  pc_domain_id :: nat
  pc_direction :: string
  pc_filters :: "filter_config list"
  pc_active :: bool
  pc_created_at :: time
  pc_updated_at :: time

text \<open>Elapsed: written in whole milliseconds, read back as such.\<close>

definition millisecond :: duration where "millisecond = 1000000"

definition elapsed_marshal :: "duration \<Rightarrow> string" where
  "elapsed_marshal e = int_dec (if 0 \<le> e then e div millisecond else - ((- e) div millisecond))"

definition elapsed_unmarshal :: "int \<Rightarrow> duration" where
  "elapsed_unmarshal ms = int64 (ms * millisecond)"

section \<open>Actions as strings\<close>

lemma action_string_of [simp]: "action_string (action_of_string s) = s"
  by simp

lemma action_of_string_inverse:
  "(\<And>s. a \<noteq> OtherAction s) \<Longrightarrow> action_of_string (action_string a) = a"
  by (cases a) simp_all

end
