(* ===== verification/Pipeline_Engine.thy ===== *)
theory Pipeline_Engine
  imports Pipeline_Types
begin

text \<open>
  The engine that runs a message through a pipeline (\<^verbatim>\<open>pipeline/engine.go\<close>, \<^verbatim>\<open>registry.go\<close>, \<^verbatim>\<open>split.go\<close>,
  \<^verbatim>\<open>observer.go\<close>). What a filter reads and writes outside the message, the database and its own counters,
  is the type \<open>'w\<close>. A filter gets the message by pointer: what it leaves in it is part of its answer.
\<close>

section \<open>Filters\<close>

text \<open>
  How a call of Execute ends: with a result, with a nil result and a nil error, with an error, or in a
  panic; \<open>fn_took\<close> is how long it ran, \<open>None\<close> for a call that never returns. \<open>fn_recorded\<close> are the verdicts
  it added to the run's, which is all a filter can do to them.
\<close>

datatype filter_end = Returns filter_result | ReturnsNil | ReturnsErr string | Panics string

record 'w filter_run =
  fn_world :: 'w
  fn_recorded :: "auth_result list"
  fn_email :: email
  fn_end :: filter_end
  fn_took :: "duration option"

type_synonym 'w filter_fn = "'w \<Rightarrow> auth_results \<Rightarrow> email \<Rightarrow> 'w filter_run"
type_synonym 'w factory = "string \<Rightarrow> string + 'w filter_fn"
type_synonym 'w registry = "(string \<times> 'w factory) list"

definition register :: "string \<Rightarrow> 'w factory \<Rightarrow> 'w registry \<Rightarrow> 'w registry" where
  "register name factory r = AList.update name factory r"

definition create :: "'w registry \<Rightarrow> string \<Rightarrow> string \<Rightarrow> string + 'w filter_fn" where
  "create r name config =
     (case map_of r name of
        None \<Rightarrow> Inl (''unknown filter: '' @ name)
      | Some factory \<Rightarrow> factory config)"

definition registry_list :: "'w registry \<Rightarrow> string list" where
  "registry_list r = map fst r"

section \<open>The engine\<close>

record 'w engine =
  en_registry :: "'w registry"
  en_filter_error_action :: action
  en_filter_timeout :: duration

definition default_filter_timeout :: duration where "default_filter_timeout = 60 * second"

definition new_engine :: "'w registry \<Rightarrow> 'w engine" where
  "new_engine r =
     \<lparr>en_registry = r, en_filter_error_action = ActionDefer, en_filter_timeout = default_filter_timeout\<rparr>"

definition set_filter_timeout :: "duration \<Rightarrow> 'w engine \<Rightarrow> 'w engine" where
  "set_filter_timeout d e = e\<lparr>en_filter_timeout := d\<rparr>"

definition set_filter_error_action :: "action \<Rightarrow> 'w engine \<Rightarrow> 'w engine" where
  "set_filter_error_action a e =
     (if a = ActionContinue \<or> a = ActionDefer \<or> a = ActionReject
      then e\<lparr>en_filter_error_action := a\<rparr> else e)"

record step_result =
  sr_filter_name :: string
  sr_filter_type :: filter_type
  sr_action :: action
  sr_skipped :: bool
  sr_skip_reason :: string
  sr_log :: filter_log
  sr_error :: string

text \<open>
  runFilter: the outcome of a call, cut off at the backstop or at \<open>cancel\<close>, the time after which the
  caller cancels the run. \<open>Wedged\<close> is a call that never comes back with no bound on it.
\<close>

datatype run_outcome = Ran filter_result | RanNil | RunErr string | Wedged

text \<open>\<open>time.Duration.String\<close>.\<close>

definition frac_text :: "nat \<Rightarrow> nat \<Rightarrow> string" where
  "frac_text v prec =
     (let ds = nat_dec (v mod 10 ^ prec);
          padded = replicate (prec - length ds) (CHR ''0'') @ ds;
          kept = rev (dropWhile (\<lambda>c. c = CHR ''0'') (rev padded))
      in if kept = [] then [] else CHR ''.'' # kept)"

definition duration_text :: "duration \<Rightarrow> string" where
  "duration_text d =
     (if d = 0 then ''0s''
      else
        (let u = nat (abs d); s = u div 10 ^ 9 in
         (if d < 0 then ''-'' else []) @
         (if u < 10 ^ 3 then nat_dec u @ ''ns''
          else if u < 10 ^ 6 then nat_dec (u div 10 ^ 3) @ frac_text u 3 @ [CHR 0xC2, CHR 0xB5, CHR ''s'']
          else if u < 10 ^ 9 then nat_dec (u div 10 ^ 6) @ frac_text u 6 @ ''ms''
          else
            (if s div 60 = 0 then []
             else (if s div 3600 = 0 then [] else nat_dec (s div 3600) @ ''h'') @ nat_dec (s div 60 mod 60) @ ''m'') @
            nat_dec (s mod 60) @ frac_text u 9 @ ''s'')))"

text \<open>\<open>%q\<close> of an ASCII string; the bytes of other characters are kept.\<close>

fun quote_byte :: "char \<Rightarrow> string" where
  "quote_byte c =
     (let n = (of_char c :: nat) in
      if n = 34 \<or> n = 92 then [CHR 0x5C, c]
      else if 7 \<le> n \<and> n \<le> 13 then [CHR 0x5C, ''abtnvfr'' ! (n - 7)]
      else if n < 32 \<or> n = 127 then
        [CHR 0x5C, CHR ''x'', ''0123456789abcdef'' ! (n div 16), ''0123456789abcdef'' ! (n mod 16)]
      else [c])"

definition go_quote :: "string \<Rightarrow> string" where
  "go_quote s = [CHR 0x22] @ concat (map quote_byte s) @ [CHR 0x22]"

definition run_filter :: "duration \<Rightarrow> duration option \<Rightarrow> filter_end \<Rightarrow> duration option \<Rightarrow> run_outcome" where
  "run_filter timeout cancel fin took =
     (let timed_out = (0 < timeout \<and> (case took of None \<Rightarrow> True | Some t \<Rightarrow> timeout \<le> t));
          cancelled = (case cancel of None \<Rightarrow> False
                       | Some c \<Rightarrow> (case took of None \<Rightarrow> True | Some t \<Rightarrow> c \<le> t))
      in if cancelled \<and> (0 < timeout \<longrightarrow> the cancel < timeout) then
           RunErr ''filter execution aborted, the caller cancelled it: context canceled''
         else if timed_out then
           RunErr (''filter execution aborted (timeout '' @ duration_text timeout @ ''): context deadline exceeded'')
         else case took of
           None \<Rightarrow> Wedged
         | Some t \<Rightarrow>
             (case fin of
                Returns r \<Rightarrow> Ran r
              | ReturnsNil \<Rightarrow> RanNil
              | ReturnsErr e \<Rightarrow> RunErr e
              | Panics p \<Rightarrow> RunErr (''filter panicked: '' @ p)))"

section \<open>A run\<close>

record run_state =
  ru_auth :: "auth_result list"
  ru_skip :: "string list"

definition new_run_state :: run_state where
  "new_run_state = \<lparr>ru_auth = [], ru_skip = []\<rparr>"

record 'w stage =
  sg_world :: 'w
  sg_auth :: "auth_result list"
  sg_email :: email
  sg_skip :: "string list"
  sg_steps :: "step_result list"
  sg_action :: action
  sg_reject_msg :: string

datatype 'w turn = Next "'w stage" | Break "'w stage" | Crash | Hang

definition empty_log :: filter_log where
  "empty_log = \<lparr>fl_filter = [], fl_result = [], fl_detail = []\<rparr>"

definition new_step :: "filter_config \<Rightarrow> step_result" where
  "new_step fc =
     \<lparr>sr_filter_name = fc_name fc, sr_filter_type = fc_type fc, sr_action = OtherAction [], sr_skipped = False,
      sr_skip_reason = [], sr_log = empty_log, sr_error = []\<rparr>"

definition record_step :: "step_result \<Rightarrow> 'w stage \<Rightarrow> 'w stage" where
  "record_step s st = st\<lparr>sg_steps := sg_steps st @ [s]\<rparr>"

text \<open>A filter that could not be made or failed: the message goes on only where the engine fails open.\<close>

definition filter_failed :: "'w engine \<Rightarrow> filter_config \<Rightarrow> string \<Rightarrow> string \<Rightarrow> 'w stage \<Rightarrow> 'w turn" where
  "filter_failed e fc err msg st =
     (let st' = record_step ((new_step fc)\<lparr>sr_error := err, sr_action := en_filter_error_action e\<rparr>) st
      in if en_filter_error_action e = ActionContinue then Next st'
         else Break (st'\<lparr>sg_action := en_filter_error_action e,
                         sg_reject_msg := ''filter '' @ go_quote (fc_name fc) @ msg\<rparr>))"

definition apply_result :: "filter_config \<Rightarrow> filter_result \<Rightarrow> 'w stage \<Rightarrow> 'w turn" where
  "apply_result fc r st0 =
     (let st = (record_step ((new_step fc)\<lparr>sr_action := fr_action r, sr_log := fr_log r\<rparr>) st0)
                 \<lparr>sg_skip := fr_skip_filters r @ sg_skip st0\<rparr>
      in case fr_action r of
           ActionReject \<Rightarrow> Break (st\<lparr>sg_action := ActionReject, sg_reject_msg := fr_reject_msg r\<rparr>)
         | ActionQuarantine \<Rightarrow> Break (st\<lparr>sg_action := ActionQuarantine\<rparr>)
         | ActionDiscard \<Rightarrow> Break (st\<lparr>sg_action := ActionDiscard\<rparr>)
         | ActionDefer \<Rightarrow> Break (st\<lparr>sg_action := ActionDefer\<rparr>)
         | ActionContinue \<Rightarrow>
             (case fr_message r of
                Some m \<Rightarrow> if fr_type r = FilterTypeTransform then Next (st\<lparr>sg_email := m\<rparr>) else Next st
              | None \<Rightarrow> Next st)
         | OtherAction _ \<Rightarrow> Next st)"

definition run_step :: "'w engine \<Rightarrow> duration option \<Rightarrow> filter_config \<Rightarrow> 'w stage \<Rightarrow> 'w turn" where
  "run_step e cancel fc st =
     (if fc_name fc \<in> set (sg_skip st) \<and> \<not> fc_unskippable fc then
        Next (record_step ((new_step fc)\<lparr>sr_skipped := True, sr_skip_reason := ''skipped by upstream filter'',
                                        sr_action := ActionContinue\<rparr>) st)
      else case create (en_registry e) (fc_name fc) (fc_config fc) of
        Inl err \<Rightarrow> filter_failed e fc (''create filter: '' @ err) '' unavailable'' st
      | Inr f \<Rightarrow>
          (let run = f (sg_world st) (Some (sg_auth st)) (sg_email st);
               st' = st\<lparr>sg_world := fn_world run, sg_auth := sg_auth st @ fn_recorded run, sg_email := fn_email run\<rparr>
           in case run_filter (en_filter_timeout e) cancel (fn_end run) (fn_took run) of
                RunErr err \<Rightarrow> filter_failed e fc (''execute: '' @ err) '' failed'' st'
              | Ran r \<Rightarrow> apply_result fc r st'
              | RanNil \<Rightarrow> Crash
              | Wedged \<Rightarrow> Hang))"

datatype 'w run_end = Finished "'w stage" | Crashed | Hung

fun run_filters :: "'w engine \<Rightarrow> duration option \<Rightarrow> filter_config list \<Rightarrow> 'w stage \<Rightarrow> 'w run_end" where
  "run_filters e cancel [] st = Finished st"
| "run_filters e cancel (fc # fcs) st =
     (if \<not> fc_enabled fc then run_filters e cancel fcs st
      else case run_step e cancel fc st of
        Next st' \<Rightarrow> run_filters e cancel fcs st'
      | Break st' \<Rightarrow> Finished st'
      | Crash \<Rightarrow> Crashed
      | Hang \<Rightarrow> Hung)"

section \<open>Execute\<close>

datatype observation = ObserveStep step_result | ObserveTerminal string action "step_result option"

record execution_result =
  ex_final_action :: action
  ex_final_email :: email
  ex_steps :: "step_result list"
  ex_reject_msg :: string
  ex_auth :: "auth_result list"

text \<open>ExecuteStage: the result, the observations in order, the state for the next stage, and the world.\<close>

definition start_stage :: "'w \<Rightarrow> email \<Rightarrow> run_state \<Rightarrow> 'w stage" where
  "start_stage w m state =
     \<lparr>sg_world = w, sg_auth = auth_list (auth_add (ru_auth state) (Some [])), sg_email = m, sg_skip = ru_skip state,
      sg_steps = [], sg_action = ActionContinue, sg_reject_msg = []\<rparr>"

definition stage_result :: "'w stage \<Rightarrow> execution_result" where
  "stage_result st =
     \<lparr>ex_final_action = sg_action st, ex_final_email = sg_email st, ex_steps = sg_steps st,
      ex_reject_msg = sg_reject_msg st, ex_auth = auth_list (Some (sg_auth st))\<rparr>"

definition observations :: "pipeline_config \<Rightarrow> 'w stage \<Rightarrow> observation list" where
  "observations pipeline st =
     map ObserveStep (sg_steps st) @
     [ObserveTerminal (pc_direction pipeline) (sg_action st)
        (if sg_action st \<noteq> ActionContinue \<and> sg_steps st \<noteq> [] then Some (last (sg_steps st)) else None)]"

definition execute_stage ::
  "'w engine \<Rightarrow> duration option \<Rightarrow> pipeline_config \<Rightarrow> 'w \<Rightarrow> email \<Rightarrow> run_state \<Rightarrow>
   (execution_result \<times> observation list \<times> run_state \<times> 'w) option" where
  "execute_stage e cancel pipeline w m state =
     (case run_filters e cancel (pc_filters pipeline) (start_stage w m state) of
        Finished st \<Rightarrow>
          Some (stage_result st, observations pipeline st,
                \<lparr>ru_auth = auth_list (Some (sg_auth st)), ru_skip = sg_skip st\<rparr>, sg_world st)
      | Crashed \<Rightarrow> None
      | Hung \<Rightarrow> None)"

definition execute ::
  "'w engine \<Rightarrow> duration option \<Rightarrow> pipeline_config \<Rightarrow> 'w \<Rightarrow> email \<Rightarrow>
   (execution_result \<times> observation list \<times> run_state \<times> 'w) option" where
  "execute e cancel pipeline w m = execute_stage e cancel pipeline w m new_run_state"

definition test_filter ::
  "'w engine \<Rightarrow> duration option \<Rightarrow> string \<Rightarrow> string \<Rightarrow> 'w \<Rightarrow> email \<Rightarrow> (string + filter_result option) option" where
  "test_filter e cancel name config w m =
     (case create (en_registry e) name config of
        Inl err \<Rightarrow> Some (Inl (''create filter '' @ name @ '': '' @ err))
      | Inr f \<Rightarrow>
          (let run = f w None m in
           case run_filter (en_filter_timeout e) cancel (fn_end run) (fn_took run) of
             RunErr err \<Rightarrow> Some (Inl (''execute filter: '' @ err))
           | Ran r \<Rightarrow> Some (Inr (Some r))
           | RanNil \<Rightarrow> Some (Inr None)
           | Wedged \<Rightarrow> None))"

section \<open>Required and content checks (split.go)\<close>

definition required_checks :: "string list" where
  "required_checks =
     [''size_check'', ''header_validate'', ''recipient_check'', ''sender_verify'', ''rate_limit'', ''spf_check'',
      ''dkim_verify'', ''arc_verify'', ''dmarc_check'', ''domain_allowlist'', ''contact_whitelist'', ''greylist'']"

definition split_pipeline :: "pipeline_config \<Rightarrow> pipeline_config \<times> pipeline_config" where
  "split_pipeline p =
     (p\<lparr>pc_filters := filter (\<lambda>f. fc_name f \<in> set required_checks) (pc_filters p)\<rparr>,
      p\<lparr>pc_filters := filter (\<lambda>f. fc_name f \<notin> set required_checks) (pc_filters p)\<rparr>)"

section \<open>What a run reports\<close>

text \<open>The error action an engine can be set to.\<close>

definition engine_ok :: "'w engine \<Rightarrow> bool" where
  "engine_ok e \<longleftrightarrow> en_filter_error_action e \<in> {ActionContinue, ActionDefer, ActionReject}"

lemma engine_ok_new [simp]: "engine_ok (new_engine r)"
  by (simp add: engine_ok_def new_engine_def)

lemma engine_ok_set [simp]:
  "engine_ok e \<Longrightarrow> engine_ok (set_filter_timeout d e)" "engine_ok e \<Longrightarrow> engine_ok (set_filter_error_action a e)"
  by (auto simp: engine_ok_def set_filter_timeout_def set_filter_error_action_def)

definition goes_on :: "action \<Rightarrow> bool" where
  "goes_on a \<longleftrightarrow> a \<notin> {ActionReject, ActionQuarantine, ActionDiscard, ActionDefer}"

text \<open>A step that let the message go on, and one that decided it.\<close>

definition passed :: "'w engine \<Rightarrow> filter_config \<Rightarrow> step_result \<Rightarrow> bool" where
  "passed e fc s \<longleftrightarrow>
     sr_filter_name s = fc_name fc \<and> goes_on (sr_action s) \<and>
     (sr_skipped s \<longrightarrow> \<not> fc_unskippable fc) \<and>
     (sr_error s \<noteq> [] \<longrightarrow> en_filter_error_action e = ActionContinue)"

definition decided :: "filter_config \<Rightarrow> step_result \<Rightarrow> action \<Rightarrow> bool" where
  "decided fc s a \<longleftrightarrow> sr_filter_name s = fc_name fc \<and> sr_action s = a \<and> \<not> goes_on a \<and> \<not> sr_skipped s"

lemma goes_on_cases: "engine_ok e \<Longrightarrow> \<not> goes_on (en_filter_error_action e) \<longleftrightarrow> en_filter_error_action e \<noteq> ActionContinue"
  by (auto simp: engine_ok_def goes_on_def)

lemma run_step_Next:
  assumes "run_step e cancel fc st = Next st'"
  shows "\<exists>s. sg_steps st' = sg_steps st @ [s] \<and> passed e fc s \<and> sg_action st' = sg_action st
     \<and> sg_reject_msg st' = sg_reject_msg st"
  using assms
  by (auto simp: run_step_def filter_failed_def apply_result_def record_step_def new_step_def passed_def goes_on_def Let_def
      split: if_splits sum.splits run_outcome.splits action.splits option.splits)

lemma run_step_Break:
  assumes "run_step e cancel fc st = Break st'" "engine_ok e"
  shows "\<exists>s. sg_steps st' = sg_steps st @ [s] \<and> decided fc s (sg_action st')"
  using assms
  by (auto simp: run_step_def filter_failed_def apply_result_def record_step_def new_step_def decided_def goes_on_def
      engine_ok_def Let_def
      split: if_splits sum.splits run_outcome.splits action.splits option.splits)

text \<open>A filter that records nothing, leaves the message and answers with none leaves both as they were.\<close>

lemma failed_keeps:
  "filter_failed e fc err msg st = Next st' \<Longrightarrow> sg_email st' = sg_email st \<and> sg_auth st' = sg_auth st"
  "filter_failed e fc err msg st = Break st' \<Longrightarrow> sg_email st' = sg_email st \<and> sg_auth st' = sg_auth st"
  by (auto simp: filter_failed_def record_step_def Let_def split: if_splits)

lemma applied_keeps:
  assumes "fr_message r = None"
  shows "apply_result fc r st = Next st' \<Longrightarrow> sg_email st' = sg_email st \<and> sg_auth st' = sg_auth st"
    "apply_result fc r st = Break st' \<Longrightarrow> sg_email st' = sg_email st \<and> sg_auth st' = sg_auth st"
  using assms by (auto simp: apply_result_def record_step_def Let_def split: action.splits)

lemma run_filter_Ran: "run_filter timeout cancel fin took = Ran r \<Longrightarrow> fin = Returns r"
  by (auto simp: run_filter_def Let_def split: if_splits filter_end.splits option.splits)

lemma run_step_keeps:
  assumes f: "create (en_registry e) (fc_name fc) (fc_config fc) = Inr f"
    and keeps: "\<And>w a m. fn_recorded (f w a m) = [] \<and> fn_email (f w a m) = m"
    and none: "\<And>w a m r. fn_end (f w a m) = Returns r \<Longrightarrow> fr_message r = None"
    and step: "run_step e cancel fc st = Next st' \<or> run_step e cancel fc st = Break st'"
  shows "sg_email st' = sg_email st \<and> sg_auth st' = sg_auth st"
proof (cases "fc_name fc \<in> set (sg_skip st) \<and> \<not> fc_unskippable fc")
  case True
  with step show ?thesis by (auto simp: run_step_def record_step_def)
next
  case False
  let ?run = "f (sg_world st) (Some (sg_auth st)) (sg_email st)"
  let ?st = "st\<lparr>sg_world := fn_world ?run, sg_auth := sg_auth st @ fn_recorded ?run, sg_email := fn_email ?run\<rparr>"
  have same: "sg_email ?st = sg_email st" "sg_auth ?st = sg_auth st" using keeps by simp_all
  show ?thesis
  proof (cases "run_filter (en_filter_timeout e) cancel (fn_end ?run) (fn_took ?run)")
    case (Ran r)
    with step f False have "apply_result fc r ?st = Next st' \<or> apply_result fc r ?st = Break st'"
      by (auto simp: run_step_def Let_def)
    with applied_keeps [OF none [OF run_filter_Ran [OF Ran]], of fc ?st st'] same show ?thesis by auto
  next
    case (RunErr err)
    with step f False have
      "filter_failed e fc (''execute: '' @ err) '' failed'' ?st = Next st' \<or>
       filter_failed e fc (''execute: '' @ err) '' failed'' ?st = Break st'" by (auto simp: run_step_def Let_def)
    with failed_keeps [of e fc "''execute: '' @ err" "'' failed''" ?st st'] same show ?thesis by auto
  qed (use step f False in \<open>auto simp: run_step_def Let_def\<close>)
qed

text \<open>The steps of a run over the enabled filters: all passed, or all but the last, which decided.\<close>

definition reports :: "'w engine \<Rightarrow> filter_config list \<Rightarrow> step_result list \<Rightarrow> action \<Rightarrow> bool" where
  "reports e fcs ss a \<longleftrightarrow>
     (if goes_on a then list_all2 (passed e) fcs ss
      else \<exists>fs fc gs ps s. fcs = fs @ fc # gs \<and> ss = ps @ [s] \<and> list_all2 (passed e) fs ps \<and> decided fc s a)"

lemma reports_Cons:
  "passed e fc s \<Longrightarrow> reports e fcs ss a \<Longrightarrow> reports e (fc # fcs) (s # ss) a"
  unfolding reports_def by (auto split: if_splits) (metis append_Cons list_all2_Cons)

lemma run_filters_reports:
  assumes "run_filters e cancel fcs st = Finished st'" "engine_ok e" "goes_on (sg_action st)"
  shows "\<exists>ss. sg_steps st' = sg_steps st @ ss \<and> reports e (filter fc_enabled fcs) ss (sg_action st')
     \<and> (goes_on (sg_action st') \<longrightarrow> sg_action st' = sg_action st \<and> sg_reject_msg st' = sg_reject_msg st)"
  using assms
proof (induction fcs arbitrary: st)
  case Nil
  then show ?case by (simp add: reports_def)
next
  case (Cons fc fcs)
  show ?case
  proof (cases "fc_enabled fc")
    case False
    with Cons show ?thesis by simp
  next
    case True
    show ?thesis
    proof (cases "run_step e cancel fc st")
      case (Next st1)
      from run_step_Next [OF Next] obtain s where s: "sg_steps st1 = sg_steps st @ [s]" "passed e fc s"
        "sg_action st1 = sg_action st" "sg_reject_msg st1 = sg_reject_msg st" by blast
      with Cons.IH [of st1] Cons.prems Next True obtain ss where
        "sg_steps st' = sg_steps st1 @ ss" "reports e (filter fc_enabled fcs) ss (sg_action st')"
        "goes_on (sg_action st') \<longrightarrow> sg_action st' = sg_action st1 \<and> sg_reject_msg st' = sg_reject_msg st1" by auto
      with s reports_Cons [OF s(2)] True show ?thesis by (intro exI [of _ "s # ss"]) simp
    next
      case (Break st1)
      with Cons.prems True have st1: "st1 = st'" by simp
      from run_step_Break [OF Break Cons.prems(2)] obtain s where
        s: "sg_steps st1 = sg_steps st @ [s]" "decided fc s (sg_action st1)" by blast
      then have "\<not> goes_on (sg_action st')" using st1 by (simp add: decided_def)
      moreover from this have "reports e (filter fc_enabled (fc # fcs)) [s] (sg_action st')"
        unfolding reports_def using s(2) st1 True by (auto intro!: exI [of _ "[]"])
      ultimately show ?thesis using s(1) st1 by auto
    qed (use Cons.prems True in auto)
  qed
qed


section \<open>Stages\<close>

definition add_steps :: "step_result list \<Rightarrow> 'w stage \<Rightarrow> 'w stage" where
  "add_steps ss st = st\<lparr>sg_steps := ss @ sg_steps st\<rparr>"

fun turn_steps :: "step_result list \<Rightarrow> 'w turn \<Rightarrow> 'w turn" where
  "turn_steps ss (Next st) = Next (add_steps ss st)"
| "turn_steps ss (Break st) = Break (add_steps ss st)"
| "turn_steps ss Crash = Crash"
| "turn_steps ss Hang = Hang"

fun end_steps :: "step_result list \<Rightarrow> 'w run_end \<Rightarrow> 'w run_end" where
  "end_steps ss (Finished st) = Finished (add_steps ss st)"
| "end_steps ss Crashed = Crashed"
| "end_steps ss Hung = Hung"

lemma run_step_add_steps: "run_step e cancel fc (add_steps ss st) = turn_steps ss (run_step e cancel fc st)"
  by (simp add: run_step_def filter_failed_def apply_result_def record_step_def add_steps_def Let_def
      split: sum.splits run_outcome.splits action.splits option.splits)

lemma run_filters_add_steps: "run_filters e cancel fcs (add_steps ss st) = end_steps ss (run_filters e cancel fcs st)"
  by (induction fcs arbitrary: st) (simp_all add: run_step_add_steps split: turn.splits)

lemma run_filters_append:
  assumes "engine_ok e" "goes_on (sg_action st)"
  shows "run_filters e cancel (fs @ gs) st =
     (case run_filters e cancel fs st of
        Finished st' \<Rightarrow> if goes_on (sg_action st') then run_filters e cancel gs st' else Finished st'
      | Crashed \<Rightarrow> Crashed
      | Hung \<Rightarrow> Hung)"
  using assms
proof (induction fs arbitrary: st)
  case (Cons fc fs)
  show ?case
  proof (cases "fc_enabled fc")
    case True
    show ?thesis
    proof (cases "run_step e cancel fc st")
      case (Next st1)
      with run_step_Next [OF Next] Cons True show ?thesis by auto
    next
      case (Break st1)
      with run_step_Break [OF Break Cons.prems(1)] True show ?thesis by (auto simp: decided_def)
    qed (use True in auto)
  qed (use Cons in simp)
qed simp

text \<open>What two stages give, the second run only where the first let the message on.\<close>

definition execute_staged ::
  "'w engine \<Rightarrow> duration option \<Rightarrow> pipeline_config \<Rightarrow> pipeline_config \<Rightarrow> 'w \<Rightarrow> email \<Rightarrow> run_state \<Rightarrow>
   (execution_result \<times> observation list \<times> run_state \<times> 'w) option" where
  "execute_staged e cancel req con w m state =
     (case execute_stage e cancel req w m state of
        None \<Rightarrow> None
      | Some (r1, o1, state1, w1) \<Rightarrow>
          if ex_final_action r1 \<noteq> ActionContinue then Some (r1, o1, state1, w1)
          else case execute_stage e cancel con w1 (ex_final_email r1) state1 of
            None \<Rightarrow> None
          | Some (r2, o2, state2, w2) \<Rightarrow>
              Some (r2\<lparr>ex_steps := ex_steps r1 @ ex_steps r2\<rparr>, butlast o1 @ o2, state2, w2))"

lemma stage_reaches:
  assumes "run_filters e cancel fs (start_stage w m state) = Finished st" "engine_ok e"
  shows "goes_on (sg_action st) \<longleftrightarrow> sg_action st = ActionContinue"
    "goes_on (sg_action st) \<Longrightarrow> sg_reject_msg st = []" "\<not> goes_on (sg_action st) \<Longrightarrow> sg_steps st \<noteq> []"
  using run_filters_reports [OF assms] by (auto simp: start_stage_def goes_on_def reports_def)

lemma staged_runs_as_one:
  assumes e: "engine_ok e"
  shows "execute_stage e cancel (p\<lparr>pc_filters := fs @ gs\<rparr>) w m state
     = execute_staged e cancel (p\<lparr>pc_filters := fs\<rparr>) (p\<lparr>pc_filters := gs\<rparr>) w m state"
proof (cases "run_filters e cancel fs (start_stage w m state)")
  case (Finished st)
  note r1 = stage_reaches [OF Finished e]
  show ?thesis
  proof (cases "goes_on (sg_action st)")
    case False
    then show ?thesis
      using Finished r1 by (simp add: execute_stage_def execute_staged_def run_filters_append [OF e]
          start_stage_def [of w m state] goes_on_def stage_result_def observations_def)
  next
    case True
    define st2 where "st2 = start_stage (sg_world st) (sg_email st) \<lparr>ru_auth = auth_list (Some (sg_auth st)), ru_skip = sg_skip st\<rparr>"
    have "st = add_steps (sg_steps st) st2"
      using True r1 by (simp add: st2_def start_stage_def add_steps_def auth_list_def auth_add_def)
    then have "run_filters e cancel gs st = end_steps (sg_steps st) (run_filters e cancel gs st2)"
      using run_filters_add_steps by metis
    moreover have "run_filters e cancel (fs @ gs) (start_stage w m state) = run_filters e cancel gs st"
      using Finished True by (simp add: run_filters_append [OF e] start_stage_def [of w m state] goes_on_def)
    ultimately have whole: "run_filters e cancel (fs @ gs) (start_stage w m state)
        = end_steps (sg_steps st) (run_filters e cancel gs st2)" by simp
    have first: "execute_stage e cancel (p\<lparr>pc_filters := fs\<rparr>) w m state
        = Some (stage_result st, observations (p\<lparr>pc_filters := fs\<rparr>) st,
            \<lparr>ru_auth = auth_list (Some (sg_auth st)), ru_skip = sg_skip st\<rparr>, sg_world st)"
      by (simp add: execute_stage_def Finished)
    have "sg_action st3 = ActionContinue \<or> sg_steps st3 \<noteq> []"
      if "run_filters e cancel gs st2 = Finished st3" for st3
      using stage_reaches [OF that [unfolded st2_def] e] by auto
    with whole first True r1(1) show ?thesis
      by (cases "run_filters e cancel gs st2")
        (auto simp: execute_staged_def execute_stage_def stage_result_def observations_def st2_def [symmetric]
          add_steps_def)
  qed
qed (use e in \<open>simp_all add: execute_stage_def execute_staged_def run_filters_append start_stage_def goes_on_def\<close>)


section \<open>A run always ends\<close>

text \<open>The contract of a filter: it never answers with neither a result nor an error.\<close>

definition answers :: "'w registry \<Rightarrow> bool" where
  "answers r \<longleftrightarrow> (\<forall>name config f w a m. create r name config = Inr f \<longrightarrow> fn_end (f w a m) \<noteq> ReturnsNil)"

lemma run_filter_bounded: "0 < timeout \<Longrightarrow> run_filter timeout cancel fin took \<noteq> Wedged"
  by (cases took) (auto simp: run_filter_def Let_def split: filter_end.splits)

lemma run_filter_nil: "run_filter timeout cancel fin took = RanNil \<Longrightarrow> fin = ReturnsNil"
  by (auto simp: run_filter_def Let_def split: if_splits filter_end.splits option.splits)

lemma run_step_answers:
  assumes "0 < en_filter_timeout e" "answers (en_registry e)"
  shows "run_step e cancel fc st \<noteq> Crash \<and> run_step e cancel fc st \<noteq> Hang"
proof -
  have "run_filter (en_filter_timeout e) cancel (fn_end (f w a m)) took \<noteq> RanNil"
    if "create (en_registry e) (fc_name fc) (fc_config fc) = Inr f" for f w a m took
    using assms(2) that run_filter_nil unfolding answers_def by blast
  with run_filter_bounded [OF assms(1)] show ?thesis
    by (auto simp: run_step_def filter_failed_def apply_result_def Let_def
        split: sum.splits run_outcome.splits action.splits option.splits)
qed

lemma run_filters_end:
  assumes "0 < en_filter_timeout e" "answers (en_registry e)"
  shows "\<exists>st'. run_filters e cancel fcs st = Finished st'"
proof (induction fcs arbitrary: st)
  case (Cons fc fcs)
  then show ?case using run_step_answers [OF assms, of cancel fc st] by (auto split: turn.splits)
qed simp

text \<open>Where the engine fails closed, a step that failed is the last one and gave the final action.\<close>

lemma run_step_error:
  assumes "en_filter_error_action e \<noteq> ActionContinue"
  shows "run_step e cancel fc st = Next st' \<Longrightarrow> \<exists>s. sg_steps st' = sg_steps st @ [s] \<and> sr_error s = []"
    "run_step e cancel fc st = Break st' \<Longrightarrow>
       \<exists>s. sg_steps st' = sg_steps st @ [s] \<and> (sr_error s = [] \<or> sg_action st' = en_filter_error_action e)"
  using assms
  by (auto simp: run_step_def filter_failed_def apply_result_def record_step_def new_step_def Let_def
      split: if_splits sum.splits run_outcome.splits action.splits option.splits)

lemma run_filters_errors:
  assumes "run_filters e cancel fcs st = Finished st'" "engine_ok e" "en_filter_error_action e \<noteq> ActionContinue"
  shows "s \<in> set (sg_steps st') \<Longrightarrow> sr_error s \<noteq> [] \<Longrightarrow> s \<in> set (sg_steps st) \<or> sg_action st' = en_filter_error_action e"
  using assms
proof (induction fcs arbitrary: st)
  case (Cons fc fcs)
  show ?case
  proof (cases "run_step e cancel fc st")
    case (Next st1)
    from run_step_error(1) [OF Cons.prems(5) Next] obtain t where t: "sg_steps st1 = sg_steps st @ [t]" "sr_error t = []"
      by blast
    have "s \<in> set (sg_steps st1) \<or> sg_action st' = en_filter_error_action e" if "fc_enabled fc"
      using Cons.IH [of st1] Cons.prems Next that by simp
    with t Cons show ?thesis by (cases "fc_enabled fc") auto
  next
    case (Break st1)
    with Cons run_step_error(2) [OF Cons.prems(5) Break] show ?thesis by (auto split: if_splits)
  qed (use Cons in \<open>auto split: if_splits\<close>)
qed simp


section \<open>A pipeline at work\<close>

definition sample_email :: email where
  "sample_email =
     \<lparr>em_envelope = \<lparr>ev_mail_from = ''a@there.test'', ev_rcpt_to = [''b@here.test''], ev_client_ip = ''192.0.2.1'',
        ev_client_hostname = [], ev_helo = ''mx.there.test'', ev_tls = True, ev_direction = ''inbound''\<rparr>,
      em_headers = \<lparr>hd_from = [\<lparr>ad_name = [], ad_address = ''a@there.test''\<rparr>], hd_to = [], hd_cc = [], hd_bcc = [],
        hd_subject = ''hi'', hd_date = ''now'', hd_message_id = [], hd_in_reply_to = [], hd_references = [],
        hd_raw = [(''Subject'', [''hi''])], hd_extra = []\<rparr>,
      em_body = Body ''text/plain'' ''hello'' [], em_attachments = [], em_inline = [], em_calendar_events = [],
      em_metadata = []\<rparr>"

definition plain_result :: "action \<Rightarrow> string list \<Rightarrow> filter_result" where
  "plain_result a skip =
     \<lparr>fr_type = FilterTypeAction, fr_action = a, fr_message = None, fr_skip_filters = skip, fr_reject_msg = [],
      fr_log = empty_log\<rparr>"

definition ends :: "filter_end \<Rightarrow> duration option \<Rightarrow> unit factory" where
  "ends fin took = (\<lambda>config. Inr (\<lambda>w a m. \<lparr>fn_world = w, fn_recorded = [], fn_email = m, fn_end = fin, fn_took = took\<rparr>))"

text \<open>A check that passes and says to skip greylisting, greylisting, and a content filter that hangs.\<close>

definition sample_registry :: "unit registry" where
  "sample_registry =
     register ''size_check'' (ends (Returns (plain_result ActionContinue [''greylist''])) (Some 1))
      (register ''greylist'' (ends (Returns (plain_result ActionDefer [])) (Some 1))
        (register ''sieve'' (ends (Panics ''poison'') None) []))"

definition sample_step :: "string \<Rightarrow> filter_config" where
  "sample_step name =
     \<lparr>fc_name = name, fc_type = FilterTypeAction, fc_enabled = True, fc_unskippable = False, fc_config = []\<rparr>"

definition sample_pipeline :: pipeline_config where
  "sample_pipeline =
     \<lparr>pc_id = 1, pc_domain_id = 1, pc_direction = ''inbound'',
      pc_filters = map sample_step [''size_check'', ''greylist'', ''sieve''],
      pc_active = True, pc_created_at = 0, pc_updated_at = 0\<rparr>"

definition sample_run :: "(execution_result \<times> observation list \<times> run_state \<times> unit) option" where
  "sample_run = execute_stage (new_engine sample_registry) None sample_pipeline () sample_email new_run_state"

lemma sample_run_steps:
  "map_option (\<lambda>(res, _). (map sr_skipped (ex_steps res), ex_final_action res)) sample_run
     = Some ([False, True, False], ActionDefer)"
  by (simp add: sample_run_def execute_stage_def sample_pipeline_def sample_step_def run_step_def start_stage_def
      create_def new_engine_def sample_registry_def register_def ends_def run_filter_def new_run_state_def
      default_filter_timeout_def duration_defs apply_result_def plain_result_def record_step_def new_step_def
      filter_failed_def stage_result_def Let_def)



lemma sample_answers: "answers (en_registry (new_engine sample_registry))"
  by (auto simp: answers_def create_def new_engine_def sample_registry_def register_def ends_def split: if_splits)


end
