(* ===== verification/Pipeline_Templates.thy ===== *)
theory Pipeline_Templates
  imports Pipeline_Engine
begin

text \<open>
  The pipelines a new domain starts with and the steps every inbound pipeline gets
  (\<^verbatim>\<open>pipeline/templates.go\<close>), and the reason recorded for a message that was not let on
  (\<^verbatim>\<open>pipeline/reason.go\<close>).
\<close>

section \<open>Reasons (reason.go)\<close>

datatype reason_code =
  ReasonDMARCReject | ReasonDMARCQuarantine | ReasonSPFFail | ReasonDKIMFail | ReasonGreylistDefer
| ReasonSizeExceeded | ReasonRateLimited | ReasonVirusDetected | ReasonSpamThreshold
| ReasonRecipientUnknown | ReasonHeaderInvalid | ReasonCustomReject | ReasonOther

definition reason :: "string \<Rightarrow> action \<Rightarrow> string \<Rightarrow> reason_code" where
  "reason filter_name act result =
     (let unmapped = (if act = ActionReject then ReasonCustomReject else ReasonOther) in
      if filter_name = ''dmarc_check'' then
        (if act = ActionReject then ReasonDMARCReject
         else if act = ActionQuarantine then ReasonDMARCQuarantine else unmapped)
      else if filter_name = ''spf_check'' then (if act \<noteq> ActionContinue then ReasonSPFFail else unmapped)
      else if filter_name = ''dkim_verify'' then (if act \<noteq> ActionContinue then ReasonDKIMFail else unmapped)
      else if filter_name = ''size_check'' then (if act = ActionReject then ReasonSizeExceeded else unmapped)
      else if filter_name = ''greylist'' then (if act = ActionDefer then ReasonGreylistDefer else unmapped)
      else if filter_name = ''rate_limit'' then (if act = ActionDefer then ReasonRateLimited else unmapped)
      else if filter_name = ''clamav'' then (if act \<noteq> ActionContinue then ReasonVirusDetected else unmapped)
      else if filter_name = ''rspamd'' then (if act \<noteq> ActionContinue then ReasonSpamThreshold else unmapped)
      else if filter_name = ''recipient_check'' then (if act = ActionReject then ReasonRecipientUnknown else unmapped)
      else if filter_name = ''header_validate'' then (if act = ActionReject then ReasonHeaderInvalid else unmapped)
      else unmapped)"

definition reason_for_step :: "step_result \<Rightarrow> reason_code" where
  "reason_for_step s = reason (sr_filter_name s) (sr_action s) (fl_result (sr_log s))"

section \<open>The default pipelines (templates.go)\<close>

definition step :: "string \<Rightarrow> filter_type \<Rightarrow> bool \<Rightarrow> string \<Rightarrow> filter_config" where
  "step name ty unskippable config =
     \<lparr>fc_name = name, fc_type = ty, fc_enabled = True, fc_unskippable = unskippable, fc_config = config\<rparr>"

definition default_inbound_filters :: "filter_config list" where
  \<open>default_inbound_filters =
     [step ''size_check'' FilterTypeAction True ''{"max_size_mb": 25}'',
      step ''spf_check'' FilterTypeAction True ''{"fail_action": "tag"}'',
      step ''dkim_verify'' FilterTypeTransform True ''{"fail_action": "tag"}'',
      step ''arc_verify'' FilterTypeTransform True ''{}'',
      step ''dmarc_check'' FilterTypeAction True ''{}'',
      step ''domain_allowlist'' FilterTypeAction False ''{}'',
      step ''contact_whitelist'' FilterTypeAction False ''{}'',
      step ''greylist'' FilterTypeAction False ''{"delay_minutes": 5, "ttl_days": 36}'',
      step ''header_validate'' FilterTypeAction False ''{}'',
      step ''recipient_check'' FilterTypeAction True ''{}'',
      step ''extract_attachments'' FilterTypeTransform False ''{"storage_dir": "/data/attachments"}'',
      step ''sieve'' FilterTypeTransform False ''{}'',
      step ''vacation'' FilterTypeAction False ''{"days": 7}'']\<close>

definition default_outbound_filters :: "filter_config list" where
  \<open>default_outbound_filters =
     [step ''sender_verify'' FilterTypeAction True ''{}'',
      step ''rate_limit'' FilterTypeAction False ''{"max_per_hour": 100, "max_per_minute": 20}'',
      step ''header_cleanup'' FilterTypeTransform False ''{}'']\<close>

definition default_vacation :: filter_config where
  \<open>default_vacation = step ''vacation'' FilterTypeAction False ''{"days": 7}''\<close>

text \<open>
  The loop of WithVacationStep: the steps kept so far, where the last Sieve step ends among them, and
  the vacation step with the configuration of the last stored one that has any.
\<close>

fun vacation_loop ::
  "filter_config list \<Rightarrow> filter_config list \<Rightarrow> nat option \<Rightarrow> filter_config \<Rightarrow> filter_config list \<times> nat option \<times> filter_config" where
  "vacation_loop [] out at vacation = (out, at, vacation)"
| "vacation_loop (s # ss) out at vacation =
     (if fc_name s = ''vacation'' then
        vacation_loop ss out at (if fc_config s \<noteq> [] then vacation\<lparr>fc_config := fc_config s\<rparr> else vacation)
      else vacation_loop ss (out @ [s]) (if fc_name s = ''sieve'' then Some (length out + 1) else at) vacation)"

definition with_vacation_step :: "filter_config list \<Rightarrow> filter_config list" where
  "with_vacation_step steps =
     (case vacation_loop steps [] None default_vacation of
        (out, None, vacation) \<Rightarrow> out @ [vacation]
      | (out, Some at, vacation) \<Rightarrow> take at out @ [vacation] @ drop at out)"

definition dmarc_reports_step :: filter_config where
  "dmarc_reports_step = step ''dmarc_reports_received'' FilterTypeAction True ''{}''"

definition with_dmarc_reports_step :: "filter_config list \<Rightarrow> filter_config list" where
  "with_dmarc_reports_step steps =
     (let kept = filter (\<lambda>s. fc_name s \<noteq> ''dmarc_reports_received'') steps
      in filter (\<lambda>s. fc_name s \<in> set required_checks) kept @ [dmarc_reports_step] @
         filter (\<lambda>s. fc_name s \<notin> set required_checks) kept)"

definition pipeline_of :: "nat \<Rightarrow> string \<Rightarrow> filter_config list \<Rightarrow> time \<Rightarrow> pipeline_config" where
  "pipeline_of domain_id direction fs now =
     \<lparr>pc_id = 0, pc_domain_id = domain_id, pc_direction = direction, pc_filters = fs, pc_active = True,
      pc_created_at = now, pc_updated_at = now\<rparr>"

definition default_inbound_pipeline :: "nat \<Rightarrow> time \<Rightarrow> pipeline_config" where
  "default_inbound_pipeline domain_id now =
     pipeline_of domain_id ''inbound'' (with_dmarc_reports_step default_inbound_filters) now"

definition default_outbound_pipeline :: "nat \<Rightarrow> time \<Rightarrow> pipeline_config" where
  "default_outbound_pipeline domain_id now = pipeline_of domain_id ''outbound'' default_outbound_filters now"

text \<open>DefaultPipelineJSON before encoding: the filters of the direction, none for any other.\<close>

definition default_pipeline_filters :: "string \<Rightarrow> filter_config list" where
  "default_pipeline_filters direction =
     (if direction = ''inbound'' then with_dmarc_reports_step default_inbound_filters
      else if direction = ''outbound'' then default_outbound_filters else [])"

section \<open>The steps every inbound pipeline gets\<close>

lemma vacation_loop_kept:
  "vacation_loop ss out at v = (out', at', v') \<Longrightarrow>
     out' = out @ filter (\<lambda>s. fc_name s \<noteq> ''vacation'') ss \<and> fc_name v' = fc_name v \<and> fc_enabled v' = fc_enabled v \<and>
     fc_type v' = fc_type v"
  by (induction ss out at v rule: vacation_loop.induct) (auto split: if_splits)

lemma vacation_loop_at:
  "vacation_loop ss out at v = (out', at', v') \<Longrightarrow>
   (case at of None \<Rightarrow> list_all (\<lambda>s. fc_name s \<noteq> ''sieve'') out
    | Some n \<Rightarrow> n \<le> length out \<and> list_all (\<lambda>s. fc_name s \<noteq> ''sieve'') (drop n out)) \<Longrightarrow>
   (case at' of None \<Rightarrow> list_all (\<lambda>s. fc_name s \<noteq> ''sieve'') out'
    | Some n \<Rightarrow> n \<le> length out' \<and> list_all (\<lambda>s. fc_name s \<noteq> ''sieve'') (drop n out'))"
  by (induction ss out at v rule: vacation_loop.induct) (auto split: if_splits option.splits)

lemma vacation_placed:
  "\<exists>before vac after. with_vacation_step steps = before @ vac # after
     \<and> before @ after = filter (\<lambda>s. fc_name s \<noteq> ''vacation'') steps
     \<and> fc_name vac = ''vacation'' \<and> fc_enabled vac \<and> fc_type vac = FilterTypeAction
     \<and> list_all (\<lambda>s. fc_name s \<noteq> ''sieve'') after"
proof -
  obtain out at v where l: "vacation_loop steps [] None default_vacation = (out, at, v)"
    by (metis prod_cases3)
  from vacation_loop_kept [OF l] vacation_loop_at [OF l]
  have k: "out = filter (\<lambda>s. fc_name s \<noteq> ''vacation'') steps" "fc_name v = ''vacation''" "fc_enabled v" "fc_type v = FilterTypeAction"
    "case at of None \<Rightarrow> list_all (\<lambda>s. fc_name s \<noteq> ''sieve'') out
     | Some n \<Rightarrow> n \<le> length out \<and> list_all (\<lambda>s. fc_name s \<noteq> ''sieve'') (drop n out)"
    by (auto simp: default_vacation_def step_def)
  show ?thesis
  proof (cases at)
    case None
    with l k show ?thesis
      by (intro exI [of _ out] exI [of _ v] exI [of _ "[]"]) (auto simp: with_vacation_step_def)
  next
    case (Some n)
    with l k show ?thesis
      by (intro exI [of _ "take n out"] exI [of _ v] exI [of _ "drop n out"]) (auto simp: with_vacation_step_def)
  qed
qed

definition other_step :: "filter_config \<Rightarrow> bool" where
  "other_step s \<longleftrightarrow> fc_name s \<noteq> ''vacation'' \<and> fc_name s \<noteq> ''dmarc_reports_received'' \<and> fc_name s \<notin> set required_checks"

text \<open>
  whatever pipeline a domain has stored, the one its inbound mail runs through is its required
  checks, the DMARC report step, enabled and unskippable, and then its other steps with one enabled
  vacation step among them that no Sieve step comes after, so that mail a script turned away is not
  answered. Splitting it for two stages takes it apart at the report step, so that running the stages
  is running it at once.
\<close>

theorem inbound_steps_complete:
  "\<exists>before vac after.
     with_dmarc_reports_step (with_vacation_step steps)
       = filter (\<lambda>s. fc_name s \<in> set required_checks) steps @ [dmarc_reports_step] @ before @ vac # after
   \<and> before @ after = filter other_step steps
   \<and> fc_name vac = ''vacation'' \<and> fc_enabled vac \<and> list_all (\<lambda>s. fc_name s \<noteq> ''sieve'') after
   \<and> split_pipeline (p\<lparr>pc_filters := with_dmarc_reports_step (with_vacation_step steps)\<rparr>)
       = (p\<lparr>pc_filters := filter (\<lambda>s. fc_name s \<in> set required_checks) steps\<rparr>,
          p\<lparr>pc_filters := [dmarc_reports_step] @ before @ vac # after\<rparr>)"
proof -
  let ?req = "\<lambda>s :: filter_config. fc_name s \<in> set required_checks"
  let ?keep = "\<lambda>s :: filter_config. fc_name s \<noteq> ''dmarc_reports_received'' \<and> fc_name s \<notin> set required_checks"
  from vacation_placed [of steps] obtain b v a where v: "with_vacation_step steps = b @ v # a"
    "b @ a = filter (\<lambda>s. fc_name s \<noteq> ''vacation'') steps" "fc_name v = ''vacation''" "fc_enabled v"
    "list_all (\<lambda>s. fc_name s \<noteq> ''sieve'') a" by blast
  have names: "''vacation'' \<notin> set required_checks" "''dmarc_reports_received'' \<notin> set required_checks"
    by (simp_all add: required_checks_def)
  have req: "filter ?req b @ filter ?req a = filter ?req steps"
    unfolding filter_append [symmetric] v(2) filter_filter using names by (intro filter_cong) auto
  have rest: "filter ?keep b @ filter ?keep a = filter other_step steps"
    unfolding filter_append [symmetric] v(2) filter_filter by (intro filter_cong) (auto simp: other_step_def)
  have steps: "with_dmarc_reports_step (with_vacation_step steps)
      = filter ?req steps @ [dmarc_reports_step] @ filter ?keep b @ v # filter ?keep a"
  proof -
    have "(\<lambda>s :: filter_config. ?req s \<and> fc_name s \<noteq> ''dmarc_reports_received'') = ?req" using names by auto
    then have "filter ?req (filter (\<lambda>s. fc_name s \<noteq> ''dmarc_reports_received'') xs) = filter ?req xs" for xs
      by (simp add: conj_commute)
    then show ?thesis
      using v(3) names by (simp add: with_dmarc_reports_step_def v(1) req [symmetric])
  qed
  have "list_all (\<lambda>s. fc_name s \<noteq> ''sieve'') (filter ?keep a)" using v(5) by (simp add: list_all_iff)
  moreover have "filter (\<lambda>s. \<not> ?req s) (filter ?req steps @ [dmarc_reports_step] @ filter ?keep b @ v # filter ?keep a)
      = [dmarc_reports_step] @ filter ?keep b @ v # filter ?keep a"
    using v(3) names by (auto simp: dmarc_reports_step_def step_def filter_empty_conv intro!: filter_cong)
  moreover have "filter ?req (filter ?req steps @ [dmarc_reports_step] @ filter ?keep b @ v # filter ?keep a) = filter ?req steps"
    using v(3) names by (auto simp: dmarc_reports_step_def step_def filter_empty_conv)
  ultimately show ?thesis
    using steps rest v(3,4)
    by (intro exI [of _ "filter ?keep b"] exI [of _ v] exI [of _ "filter ?keep a"]) (simp add: split_pipeline_def)
qed

end
