(* ===== verification/Pipeline_Filters.thy ===== *)
theory Pipeline_Filters
  imports Pipeline_Engine Mail_Address
begin

text \<open>
  Filters that decide on the message and the sender: \<^verbatim>\<open>pipeline/filters/\<close> size_check.go, header_validate.go,
  header_cleanup.go, clone.go, sender_verify.go, sender_auth.go, domain_allowlist.go,
  contact_whitelist.go, adapter.go and scanner_verify.go. The decoded JSON configuration is an argument
  of a filter's constructor. Tables are lists of rows; \<open>fd_query_err\<close> says for which tables a query fails.
\<close>

section \<open>What a filter gives back\<close>

type_synonym 'w answer = "'w \<times> auth_result list \<times> email \<times> (string + filter_result)"

text \<open>A filter of this theory as the engine calls it, running for \<open>took\<close>.\<close>

definition as_filter :: "duration option \<Rightarrow> ('w \<Rightarrow> auth_results \<Rightarrow> email \<Rightarrow> 'w answer) \<Rightarrow> 'w filter_fn" where
  "as_filter took f = (\<lambda>w auth m.
     let (w', recorded, m', r) = f w auth m in
     \<lparr>fn_world = w', fn_recorded = recorded, fn_email = m',
      fn_end = (case r of Inl e \<Rightarrow> ReturnsErr e | Inr res \<Rightarrow> Returns res), fn_took = took\<rparr>)"

definition result_of :: "action \<Rightarrow> string \<Rightarrow> string list \<Rightarrow> string \<Rightarrow> string \<Rightarrow> string \<Rightarrow> filter_result" where
  "result_of act reject_msg skip name result detail =
     \<lparr>fr_type = FilterTypeAction, fr_action = act, fr_message = None, fr_skip_filters = skip,
      fr_reject_msg = reject_msg, fr_log = \<lparr>fl_filter = name, fl_result = result, fl_detail = detail\<rparr>\<rparr>"

lemma result_of_sel [simp]:
  "fr_type (result_of a j k n r d) = FilterTypeAction" "fr_message (result_of a j k n r d) = None"
  "fr_action (result_of a j k n r d) = a" "fr_skip_filters (result_of a j k n r d) = k"
  by (simp_all add: result_of_def)

definition continue_result :: "string \<Rightarrow> string \<Rightarrow> filter_result" where
  "continue_result name detail = result_of ActionContinue [] [] name ''neutral'' detail"

section \<open>size_check\<close>

definition b64_char :: "char \<Rightarrow> bool" where
  "b64_char c \<longleftrightarrow> is_upper c \<or> is_lower c \<or> is_digit c \<or> c = CHR ''+'' \<or> c = CHR ''/''"

text \<open>How many bytes \<open>base64.StdEncoding.DecodeString\<close> gives back, of a string without line breaks, before
  the end or its first error.\<close>

fun b64_quanta :: "string \<Rightarrow> int" where
  "b64_quanta (a # b # c # d # rest) =
     (if \<not> b64_char a \<or> \<not> b64_char b then 0
      else if c = CHR ''='' then (if d = CHR ''='' then 1 else 0)
      else if \<not> b64_char c then 0
      else if d = CHR ''='' then 2
      else if \<not> b64_char d then 0
      else 3 + b64_quanta rest)"
| "b64_quanta _ = 0"

definition b64_length :: "string \<Rightarrow> int" where
  "b64_length s = b64_quanta (filter (\<lambda>c. c \<noteq> CHR 0x0D \<and> c \<noteq> CHR 0x0A) s)"

fun body_tree_size :: "body \<Rightarrow> int" where
  "body_tree_size (Body ct content parts) = int (length content) + sum_list (map body_tree_size parts)"

definition attachment_size :: "attachment \<Rightarrow> int" where
  "attachment_size a = (if at_content a \<noteq> [] then b64_length (at_content a) else at_size a)"

definition estimate_size :: "email \<Rightarrow> int" where
  "estimate_size m =
     int64 (sum_list (map (\<lambda>a. int (length (ad_address a) + length (ad_name a)) + 20) (hd_from (em_headers m)))
       + (int (length (hd_subject (em_headers m))) + 20)
       + body_tree_size (em_body m)
       + sum_list (map attachment_size (em_attachments m))
       + sum_list (map attachment_size (em_inline m)))"

definition default_smtp_max_message_size :: int where
  "default_smtp_max_message_size = 10 * 1024 * 1024"

definition new_size_check :: "int \<Rightarrow> int \<Rightarrow> int" where
  "new_size_check max_size_bytes max_size_mb =
     (let mx = (if max_size_bytes \<le> 0 \<and> 0 < max_size_mb then int64 (max_size_mb * 1024 * 1024) else max_size_bytes)
      in if mx \<le> 0 then default_smtp_max_message_size else mx)"

definition size_check :: "int \<Rightarrow> 'w \<Rightarrow> auth_results \<Rightarrow> email \<Rightarrow> 'w answer" where
  "size_check max_size w auth m =
     (let size = estimate_size m; detail = ''size='' @ int_dec size @ '' max='' @ int_dec max_size in
      (w, [], m, Inr
        (if max_size < size then
           result_of ActionReject
             (''552 Message too large: '' @ int_dec size @ '' bytes exceeds limit of '' @ int_dec max_size) []
             ''size_check'' ''reject'' detail
         else result_of ActionContinue [] [] ''size_check'' ''pass'' detail)))"

section \<open>header_validate\<close>

record header_validate_config =
  hv_require_from :: bool
  hv_require_date :: bool
  hv_require_message_id :: bool
  hv_reject_injection :: bool

definition default_header_validate :: header_validate_config where
  "default_header_validate =
     \<lparr>hv_require_from = True, hv_require_date = True, hv_require_message_id = False, hv_reject_injection = True\<rparr>"

definition injected :: "string \<Rightarrow> bool" where
  "injected v \<longleftrightarrow> contains v [CHR 0x0D, CHR 0x0A] \<or> contains v [CHR 0x0A]"

definition header_issues :: "header_validate_config \<Rightarrow> email \<Rightarrow> string list" where
  "header_issues cfg m =
     (if hv_require_from cfg \<and> hd_from (em_headers m) = [] then [''missing From header''] else []) @
     (if hv_require_date cfg \<and> hd_date (em_headers m) = [] then [''missing Date header''] else []) @
     (if hv_require_message_id cfg \<and> hd_message_id (em_headers m) = [] then [''missing Message-ID header''] else []) @
     (if hv_reject_injection cfg
      then concat (map (\<lambda>(key, values). map (\<lambda>v. ''header injection in '' @ key) (filter injected values))
             (hd_raw (em_headers m)))
      else [])"

definition header_validate :: "header_validate_config \<Rightarrow> 'w \<Rightarrow> auth_results \<Rightarrow> email \<Rightarrow> 'w answer" where
  "header_validate cfg w auth m =
     (let issues = header_issues cfg m in
      (w, [], m, Inr
        (if issues \<noteq> [] then
           result_of ActionReject (''550 Invalid headers: '' @ join '', '' issues) [] ''header_validate'' ''reject''
             (join ''; '' issues)
         else result_of ActionContinue [] [] ''header_validate'' ''pass'' ''all headers valid'')))"

section \<open>header_cleanup\<close>

definition internal_headers :: "string list" where
  "internal_headers = [''X-RestMail-Internal'', ''X-Pipeline-ID'', ''X-Queue-ID'', ''Bcc'']"

definition header_cleanup :: "'w \<Rightarrow> auth_results \<Rightarrow> email \<Rightarrow> 'w answer" where
  "header_cleanup w auth m =
     (let raw = fold AList.delete internal_headers (hd_raw (em_headers m));
          modified = m\<lparr>em_headers := (em_headers m)\<lparr>hd_raw := raw, hd_bcc := []\<rparr>\<rparr>
      in (w, [], m, Inr \<lparr>fr_type = FilterTypeTransform, fr_action = ActionContinue, fr_message = Some modified,
           fr_skip_filters = [], fr_reject_msg = [],
           fr_log = \<lparr>fl_filter = ''header_cleanup'', fl_result = ''transformed'',
                     fl_detail = ''removed internal headers, cleared BCC''\<rparr>\<rparr>))"

section \<open>Tables\<close>

record domain_entry =
  de_id :: nat
  de_name :: string

record mailbox_entry =
  mb_id :: nat
  mb_domain_id :: nat
  mb_local_part :: string

record contact_entry =
  co_mailbox_id :: nat
  co_email :: string
  co_trust_level :: string

record sender_rule =
  ru_domain_id :: nat
  ru_list_type :: string
  ru_pattern :: string

record filter_db =
  fd_domains :: "domain_entry list"
  fd_mailboxes :: "mailbox_entry list"
  fd_contacts :: "contact_entry list"
  fd_domain_rules :: "sender_rule list"
  fd_installation_rules :: "sender_rule list"
  fd_query_err :: "string \<Rightarrow> bool"

section \<open>sender_verify\<close>

definition message_sender :: "email \<Rightarrow> string" where
  "message_sender m =
     (if ev_mail_from (em_envelope m) = [] \<and> hd_from (em_headers m) \<noteq> []
      then ad_address (hd (hd_from (em_headers m)))
      else ev_mail_from (em_envelope m))"

definition mailboxes_named :: "filter_db \<Rightarrow> string \<Rightarrow> string \<Rightarrow> mailbox_entry list" where
  "mailboxes_named db local domain =
     filter (\<lambda>mb. mb_local_part mb = local \<and>
       list_ex (\<lambda>d. de_id d = mb_domain_id mb \<and> de_name d = domain) (fd_domains db)) (fd_mailboxes db)"

definition sender_verify :: "filter_db \<Rightarrow> auth_results \<Rightarrow> email \<Rightarrow> filter_db answer" where
  "sender_verify db auth m =
     (let sender = message_sender m; (local, domain, ok) = cut_byte (CHR ''@'') sender in
      (db, [], m, Inr
        (if sender = [] then
           result_of ActionReject ''550 Sender address required'' [] ''sender_verify'' ''reject'' ''no sender address''
         else if \<not> ok then
           result_of ActionReject ''550 Invalid sender address format'' [] ''sender_verify'' ''reject'' ''invalid address format''
         else if fd_query_err db ''mailboxes'' \<or> mailboxes_named db local domain = [] then
           result_of ActionReject (''550 <'' @ sender @ ''>: Sender not authorized'') [] ''sender_verify'' ''reject''
             (''sender '' @ sender @ '' not found in local mailboxes'')
         else
           result_of ActionContinue [] [] ''sender_verify'' ''pass'' (''sender '' @ sender @ '' verified''))))"

section \<open>sender_auth.go\<close>

text \<open>
  go-dmarc's AlignedMode is \<open>aligned_mode\<close>: authenticated and From domain, mode, and \<open>Inl\<close> for a DNS failure.
  The argument \<open>True\<close> is strict alignment.
\<close>

definition dmarc_aligned ::
  "(string \<Rightarrow> string option) \<Rightarrow> (string \<Rightarrow> string \<Rightarrow> bool \<Rightarrow> string + bool) \<Rightarrow> string \<Rightarrow> string \<Rightarrow> bool \<Rightarrow> string + bool" where
  "dmarc_aligned to_ascii aligned_mode auth_domain from_domain strict =
     (case domain_ascii to_ascii auth_domain of
        None \<Rightarrow> Inr False
      | Some auth_ascii \<Rightarrow>
          (case domain_ascii to_ascii from_domain of
             None \<Rightarrow> Inr False
           | Some from_ascii \<Rightarrow> aligned_mode auth_ascii from_ascii strict))"

definition sender_authenticated ::
  "(string \<Rightarrow> string option) \<Rightarrow> (string \<Rightarrow> string \<Rightarrow> bool \<Rightarrow> string + bool) \<Rightarrow> auth_results \<Rightarrow> string \<Rightarrow> bool" where
  "sender_authenticated to_ascii aligned_mode auth domain0 =
     (let domain = trim_space (trim_prefix (trim_space domain0) ''@'') in
      domain \<noteq> [] \<and>
      list_ex (\<lambda>r. ar_result r = ''pass'' \<and>
          dmarc_aligned to_ascii aligned_mode (ar_domain r) domain False = Inr True)
        (auth_find auth_spf prop_mail_from auth @ auth_find auth_dkim prop_header_d auth))"

section \<open>domain_allowlist\<close>

definition domain_match :: "filter_db \<Rightarrow> nat \<Rightarrow> string \<Rightarrow> string \<Rightarrow> string \<Rightarrow> bool" where
  "domain_match db domain_id sender sender_domain list_type \<longleftrightarrow>
     \<not> fd_query_err db ''domain_sender_rules'' \<and>
     list_ex (\<lambda>r. ru_domain_id r = domain_id \<and> ru_list_type r = list_type \<and>
        (ru_pattern r = sender \<or> ru_pattern r = sender_domain)) (fd_domain_rules db)"

definition installation_match :: "filter_db \<Rightarrow> string \<Rightarrow> string \<Rightarrow> string \<Rightarrow> bool" where
  "installation_match db sender sender_domain list_type \<longleftrightarrow>
     \<not> fd_query_err db ''installation_sender_rules'' \<and>
     list_ex (\<lambda>r. ru_list_type r = list_type \<and> (ru_pattern r = sender \<or> ru_pattern r = sender_domain))
       (fd_installation_rules db)"

text \<open>The domain's id, 0 for one not hosted here; a recipient whose query fails, or without @, is passed over.\<close>

definition domain_id :: "filter_db \<Rightarrow> string \<Rightarrow> nat" where
  "domain_id db name =
     (case filter (\<lambda>d. de_name d = name) (fd_domains db) of [] \<Rightarrow> 0 | ds \<Rightarrow> de_id (last ds))"

definition rcpt_domains :: "filter_db \<Rightarrow> string list \<Rightarrow> (string \<times> nat) list" where
  "rcpt_domains db rcpts =
     List.map_filter (\<lambda>rcpt.
       (let (_, domain, ok) = cut_byte (CHR ''@'') rcpt in
        if \<not> ok \<or> fd_query_err db ''domains'' then None else Some (domain, domain_id db domain))) rcpts"

definition scanning_skips :: "string list" where
  "scanning_skips = [''rspamd'', ''spamassassin'', ''greylist'']"

text \<open>The decision of domain_allowlist, for the sender, its domain and the recipients' domains.\<close>

definition allowlist_result ::
  "string \<Rightarrow> filter_db \<Rightarrow> bool \<Rightarrow> string \<Rightarrow> string \<Rightarrow> (string \<times> nat) list \<Rightarrow> filter_result" where
  "allowlist_result reject_message db authed sender sender_domain domains =
     (let blocks = filter (\<lambda>d. domain_match db (snd d) sender sender_domain ''block'') domains;
          allows = filter (\<lambda>d. domain_match db (snd d) sender sender_domain ''allow'') domains;
          blocked = (\<lambda>detail. result_of ActionReject reject_message [] ''domain_allowlist'' ''blocked'' detail);
          allowed_for = (if allows \<noteq> [] then ''domain '' @ fst (hd allows)
            else if installation_match db sender sender_domain ''allow'' then ''the installation'' else []);
          detail = ''sender '' @ sender @ '' allowed for '' @ allowed_for
      in if installation_match db sender sender_domain ''block'' then
           blocked (''sender '' @ sender @ '' blocked for the installation'')
         else if blocks \<noteq> [] then
           blocked (''sender '' @ sender @ '' blocked for domain '' @ fst (hd blocks))
         else if allowed_for \<noteq> [] then
           (if authed then result_of ActionContinue [] scanning_skips ''domain_allowlist'' ''allowed'' detail
            else result_of ActionContinue [] [] ''domain_allowlist'' ''allowed''
              (detail @ '' (unauthenticated sender: scanning not skipped)''))
         else continue_result ''domain_allowlist'' ''no matching rules'')"

definition domain_allowlist ::
  "(string \<Rightarrow> string option) \<Rightarrow> (string \<Rightarrow> string \<Rightarrow> bool \<Rightarrow> string + bool) \<Rightarrow> string \<Rightarrow>
   filter_db \<Rightarrow> auth_results \<Rightarrow> email \<Rightarrow> filter_db answer" where
  "domain_allowlist to_ascii aligned_mode reject_message db auth m =
     (let sender = message_sender m; (_, bare, ok) = cut_byte (CHR ''@'') sender in
      (db, [], m, Inr
        (if sender = [] then continue_result ''domain_allowlist'' ''no sender''
         else allowlist_result reject_message db
           (sender_authenticated to_ascii aligned_mode auth (if ok then bare else [])) sender
           (if ok then ''@'' @ bare else []) (rcpt_domains db (ev_rcpt_to (em_envelope m))))))"

section \<open>contact_whitelist\<close>

text \<open>The trust levels a recipient's contact query gives; Pluck into a string keeps the last one.\<close>

definition trust_level :: "filter_db \<Rightarrow> string \<Rightarrow> string \<Rightarrow> string \<Rightarrow> string" where
  "trust_level db local domain sender =
     (case map co_trust_level (filter (\<lambda>c. co_email c = sender \<and>
             list_ex (\<lambda>mb. mb_id mb = co_mailbox_id c) (mailboxes_named db local domain)) (fd_contacts db)) of
        [] \<Rightarrow> []
      | ts \<Rightarrow> last ts)"

fun contact_loop :: "filter_db \<Rightarrow> bool \<Rightarrow> string \<Rightarrow> string list \<Rightarrow> filter_result" where
  "contact_loop db authed sender [] =
     result_of ActionContinue [] [] ''contact_whitelist'' ''unknown''
       (''sender '' @ sender @ '' not in any recipient's contacts'')"
| "contact_loop db authed sender (rcpt # rcpts) =
     (let (local, domain, ok) = cut_byte (CHR ''@'') rcpt;
          trust = trust_level db local domain sender;
          gated = (\<lambda>skip what.
            if authed then result_of ActionContinue [] skip ''contact_whitelist'' ''pass''
                (''sender '' @ sender @ what @ rcpt)
            else result_of ActionContinue [] [] ''contact_whitelist'' ''pass''
                (''sender '' @ sender @ what @ rcpt @ '' (unauthenticated sender: scanning not skipped)''))
      in if \<not> ok \<or> fd_query_err db ''contacts'' then contact_loop db authed sender rcpts
         else if trust = ''blocked'' then
           result_of ActionReject ''550 Sender blocked by recipient'' [] ''contact_whitelist'' ''blocked''
             (''sender '' @ sender @ '' blocked by '' @ rcpt)
         else if trust = ''trusted'' then gated scanning_skips '' is trusted contact of ''
         else if trust = ''auto'' then gated [''rspamd'', ''spamassassin''] '' is auto-collected contact of ''
         else contact_loop db authed sender rcpts)"

definition contact_whitelist ::
  "(string \<Rightarrow> string option) \<Rightarrow> (string \<Rightarrow> string \<Rightarrow> bool \<Rightarrow> string + bool) \<Rightarrow>
   filter_db \<Rightarrow> auth_results \<Rightarrow> email \<Rightarrow> filter_db answer" where
  "contact_whitelist to_ascii aligned_mode db auth m =
     (let sender = message_sender m;
          sender_domain = (case last_index_byte sender (CHR ''@'') of None \<Rightarrow> [] | Some i \<Rightarrow> drop (i + 1) sender)
      in (db, [], m, Inr
        (if sender = [] then
           result_of ActionContinue [] [] ''contact_whitelist'' ''skip'' ''no sender to check''
         else contact_loop db (sender_authenticated to_ascii aligned_mode auth sender_domain) sender
           (ev_rcpt_to (em_envelope m)))))"

section \<open>External scanners (adapter.go, scanner_verify.go)\<close>

record adapter_result =
  ax_action :: action
  ax_details :: string
  ax_headers :: "(string \<times> string) list"
  ax_reject_msg :: string

definition parse_action :: "string \<Rightarrow> action \<Rightarrow> action" where
  "parse_action s def = (case action_of_string s of OtherAction _ \<Rightarrow> def | a \<Rightarrow> a)"

definition append_raw :: "string \<Rightarrow> string \<Rightarrow> (string \<times> string list) list \<Rightarrow> (string \<times> string list) list" where
  "append_raw k v raw = AList.update k ((case map_of raw k of None \<Rightarrow> [] | Some vs \<Rightarrow> vs) @ [v]) raw"

definition add_headers :: "(string \<times> string) list \<Rightarrow> email \<Rightarrow> email" where
  "add_headers hs m =
     m\<lparr>em_headers := (em_headers m)
       \<lparr>hd_extra := fold (\<lambda>(k, v). AList.update k v) hs (hd_extra (em_headers m)),
        hd_raw := fold (\<lambda>(k, v). append_raw k v) hs (hd_raw (em_headers m))\<rparr>\<rparr>"

text \<open>\<open>scan\<close> is the scanner: whether it is healthy, and what it says of the message.\<close>

definition adapter_filter ::
  "string \<Rightarrow> bool \<Rightarrow> (email \<Rightarrow> string + adapter_result) \<Rightarrow> action \<Rightarrow> 'w \<Rightarrow> auth_results \<Rightarrow> email \<Rightarrow> 'w answer" where
  "adapter_filter name healthy scan fallback w auth m =
     (if \<not> healthy then
        (w, [], m, Inr (result_of fallback [] [] name ''unavailable''
           (name @ '' service is not reachable, using fallback action: '' @ action_string fallback)))
      else case scan m of
        Inl err \<Rightarrow>
          (w, [], m, Inr (result_of fallback [] [] name ''error''
             (name @ '' scan failed: '' @ err @ '', using fallback action: '' @ action_string fallback)))
      | Inr r \<Rightarrow>
          (w, [], if ax_headers r \<noteq> [] then add_headers (ax_headers r) m else m,
           Inr (result_of (ax_action r) (ax_reject_msg r) [] name (action_string (ax_action r)) (ax_details r))))"

definition scanner_signature_header :: string where
  "scanner_signature_header = ''X-Scanner-Signature''"

text \<open>\<open>mac_hex\<close> is the hexadecimal HMAC-SHA256 of the body under the secret.\<close>

definition verify_scanner_signature ::
  "(string \<Rightarrow> string \<Rightarrow> string) \<Rightarrow> string \<Rightarrow> string \<Rightarrow> string \<Rightarrow> string option" where
  "verify_scanner_signature mac_hex secret sig body =
     (if secret = [] then None
      else if sig = [] then Some (''missing '' @ scanner_signature_header @ '' verdict signature (fail-closed)'')
      else if sig \<noteq> mac_hex secret body then
        Some (''invalid '' @ scanner_signature_header @ '' verdict signature (fail-closed)'')
      else None)"

section \<open>The contract of an action filter\<close>

text \<open>
  Filter's documentation: an action filter answers with an action and no message. The filters of this
  theory also leave the message they were given and the run's verdicts as they were; inside the engine
  such a step decides about the message and does nothing to it.
\<close>

locale action_filter =
  fixes f :: "'w \<Rightarrow> auth_results \<Rightarrow> email \<Rightarrow> 'w answer"
  assumes keeps: "f w auth m = (w', recorded, m', r) \<Longrightarrow> recorded = [] \<and> m' = m"
    and answers_action: "f w auth m = (w', recorded, m', Inr res) \<Longrightarrow> fr_type res = FilterTypeAction \<and> fr_message res = None"
begin

lemma as_filter_keeps: "fn_recorded (as_filter took f w auth m) = [] \<and> fn_email (as_filter took f w auth m) = m"
  using keeps [of w auth m] by (cases "f w auth m") (auto simp: as_filter_def)

lemma as_filter_action: "fn_end (as_filter took f w auth m) = Returns r \<Longrightarrow> fr_message r = None"
  using answers_action [of w auth m] by (cases "f w auth m") (auto simp: as_filter_def split: sum.splits)

lemma step_keeps:
  assumes "create (en_registry e) (fc_name fc) (fc_config fc) = Inr (as_filter took f)"
    and "run_step e cancel fc st = Next st' \<or> run_step e cancel fc st = Break st'"
  shows "sg_email st' = sg_email st \<and> sg_auth st' = sg_auth st"
  by (rule run_step_keeps [OF assms(1) as_filter_keeps as_filter_action assms(2)])

end

interpretation size_check: action_filter "size_check max_size"
  by unfold_locales (auto simp: size_check_def result_of_def Let_def)

interpretation header_validate: action_filter "header_validate cfg"
  by unfold_locales (auto simp: header_validate_def result_of_def Let_def)

interpretation sender_verify: action_filter sender_verify
  by unfold_locales (auto simp: sender_verify_def result_of_def Let_def split: prod.splits)

lemma contact_loop_action:
  "fr_type (contact_loop db authed sender rcpts) = FilterTypeAction \<and> fr_message (contact_loop db authed sender rcpts) = None"
  by (induction rcpts) (auto simp: result_of_def Let_def split: prod.splits)

interpretation contact_whitelist: action_filter "contact_whitelist to_ascii aligned_mode"
  by unfold_locales (auto simp: contact_whitelist_def result_of_def contact_loop_action Let_def)

lemma allowlist_action:
  "fr_type (allowlist_result rm db authed sender sd ds) = FilterTypeAction"
  "fr_message (allowlist_result rm db authed sender sd ds) = None"
  by (simp_all add: allowlist_result_def continue_result_def Let_def)

interpretation domain_allowlist: action_filter "domain_allowlist to_ascii aligned_mode reject_message"
  by unfold_locales
    (auto simp: domain_allowlist_def continue_result_def allowlist_action Let_def split: prod.splits)

section \<open>Who may skip scanning\<close>

text \<open>A rule names the sender by its address or by the domain after the first @.\<close>

definition names_sender :: "string \<Rightarrow> sender_rule \<Rightarrow> bool" where
  "names_sender sender r \<longleftrightarrow>
     ru_pattern r = sender \<or> (\<exists>local domain. sender = local @ CHR ''@'' # domain \<and> CHR ''@'' \<notin> set local \<and> ru_pattern r = ''@'' @ domain)
     \<or> (CHR ''@'' \<notin> set sender \<and> ru_pattern r = [])"

lemma names_sender_pattern:
  assumes "cut_byte (CHR ''@'') sender = (local, bare, ok)"
  shows "names_sender sender r \<longleftrightarrow> ru_pattern r = sender \<or> ru_pattern r = (if ok then ''@'' @ bare else [])"
proof (cases ok)
  case True
  have "local' = local \<and> domain = bare"
    if "sender = local' @ CHR ''@'' # domain" "CHR ''@'' \<notin> set local'" for local' domain
    using that assms cut_byte_append [of "CHR ''@''" local' domain] by simp
  moreover have here: "sender = local @ CHR ''@'' # bare" "CHR ''@'' \<notin> set local"
    using assms True by (simp_all add: cut_byte_found)
  ultimately have "(\<exists>local domain. sender = local @ CHR ''@'' # domain \<and> CHR ''@'' \<notin> set local \<and> ru_pattern r = ''@'' @ domain)
      \<longleftrightarrow> ru_pattern r = ''@'' @ bare" by blast
  moreover have "CHR ''@'' \<in> set sender" using here(1) by simp
  ultimately show ?thesis using True unfolding names_sender_def by simp
next
  case False
  with assms have "CHR ''@'' \<notin> set sender" by (auto simp: cut_byte_missing)
  with False show ?thesis by (auto simp: names_sender_def)
qed

text \<open>The rules of a type that apply to a message: the installation's, and those of a recipient's domain.\<close>

definition rule_applies :: "filter_db \<Rightarrow> email \<Rightarrow> string \<Rightarrow> bool" where
  "rule_applies db m list_type \<longleftrightarrow>
     (\<exists>r \<in> set (fd_installation_rules db). ru_list_type r = list_type \<and> names_sender (message_sender m) r)
   \<or> (\<exists>r \<in> set (fd_domain_rules db). ru_list_type r = list_type \<and> names_sender (message_sender m) r \<and>
        (\<exists>rcpt \<in> set (ev_rcpt_to (em_envelope m)). \<exists>local domain. rcpt = local @ CHR ''@'' # domain \<and>
           CHR ''@'' \<notin> set local \<and> ru_domain_id r = domain_id db domain))"

lemma set_map_filter_iff: "y \<in> set (List.map_filter f xs) \<longleftrightarrow> (\<exists>x \<in> set xs. f x = Some y)"
  by (induction xs) (auto simp: List.map_filter_simps split: option.splits)

lemma rcpt_domains_set:
  assumes "\<not> fd_query_err db ''domains''"
  shows "d \<in> set (rcpt_domains db rcpts) \<longleftrightarrow>
     snd d = domain_id db (fst d) \<and>
     (\<exists>rcpt \<in> set rcpts. \<exists>local. rcpt = local @ CHR ''@'' # fst d \<and> CHR ''@'' \<notin> set local)"
proof -
  have "(let (_, domain, ok) = cut_byte (CHR ''@'') rcpt in
          if \<not> ok \<or> fd_query_err db ''domains'' then None else Some (domain, domain_id db domain)) = Some d
      \<longleftrightarrow> snd d = domain_id db (fst d) \<and> (\<exists>local. rcpt = local @ CHR ''@'' # fst d \<and> CHR ''@'' \<notin> set local)" for rcpt
  proof (cases "cut_byte (CHR ''@'') rcpt")
    case (fields local domain ok)
    show ?thesis
    proof (cases ok)
      case True
      then have "rcpt = local @ CHR ''@'' # domain \<and> CHR ''@'' \<notin> set local" using fields by (simp add: cut_byte_found)
      moreover have "l = local \<and> x = domain" if "rcpt = l @ CHR ''@'' # x" "CHR ''@'' \<notin> set l" for l x
        using that fields cut_byte_append [of "CHR ''@''" l x] by simp
      ultimately have "(\<exists>l. rcpt = l @ CHR ''@'' # fst d \<and> CHR ''@'' \<notin> set l) \<longleftrightarrow> fst d = domain" by blast
      with fields True assms show ?thesis by (cases d) auto
    next
      case False
      with fields have "CHR ''@'' \<notin> set rcpt" by (auto simp: cut_byte_missing)
      then have "\<not> (\<exists>l. rcpt = l @ CHR ''@'' # fst d \<and> CHR ''@'' \<notin> set l)" by auto
      with fields False show ?thesis by simp
    qed
  qed
  then show ?thesis unfolding rcpt_domains_def set_map_filter_iff by blast
qed

lemma installation_match_iff:
  assumes "\<not> fd_query_err db ''installation_sender_rules''" "cut_byte (CHR ''@'') sender = (local, bare, ok)"
  shows "installation_match db sender (if ok then ''@'' @ bare else []) list_type \<longleftrightarrow>
     (\<exists>r \<in> set (fd_installation_rules db). ru_list_type r = list_type \<and> names_sender sender r)"
  using assms(1) by (auto simp: installation_match_def list_ex_iff names_sender_pattern [OF assms(2)])

lemma domain_match_iff:
  assumes "\<not> fd_query_err db ''domain_sender_rules''" "cut_byte (CHR ''@'') sender = (local, bare, ok)"
  shows "domain_match db i sender (if ok then ''@'' @ bare else []) list_type \<longleftrightarrow>
     (\<exists>r \<in> set (fd_domain_rules db). ru_domain_id r = i \<and> ru_list_type r = list_type \<and> names_sender sender r)"
  using assms(1) by (auto simp: domain_match_def list_ex_iff names_sender_pattern [OF assms(2)])

definition queries_work :: "filter_db \<Rightarrow> bool" where
  "queries_work db \<longleftrightarrow> \<not> list_ex (fd_query_err db) [''domains'', ''domain_sender_rules'', ''installation_sender_rules'']"

lemma rule_applies_iff:
  assumes "queries_work db" "cut_byte (CHR ''@'') (message_sender m) = (local, bare, ok)"
  shows "rule_applies db m list_type \<longleftrightarrow>
     installation_match db (message_sender m) (if ok then ''@'' @ bare else []) list_type \<or>
     (\<exists>d \<in> set (rcpt_domains db (ev_rcpt_to (em_envelope m))).
        domain_match db (snd d) (message_sender m) (if ok then ''@'' @ bare else []) list_type)"
proof -
  have q: "\<not> fd_query_err db ''domains''" "\<not> fd_query_err db ''domain_sender_rules''"
    "\<not> fd_query_err db ''installation_sender_rules''" using assms(1) by (auto simp: queries_work_def)
  define at where "at rcpt domain \<longleftrightarrow> (\<exists>local. rcpt = local @ CHR ''@'' # domain \<and> CHR ''@'' \<notin> set local)" for rcpt domain :: string
  have doms: "(\<exists>d \<in> set (rcpt_domains db rs). P (snd d)) \<longleftrightarrow> (\<exists>rcpt \<in> set rs. \<exists>domain. at rcpt domain \<and> P (domain_id db domain))"
    for P rs unfolding Bex_def rcpt_domains_set [OF q(1)] at_def by auto
  have "rule_applies db m list_type \<longleftrightarrow>
     (\<exists>r \<in> set (fd_installation_rules db). ru_list_type r = list_type \<and> names_sender (message_sender m) r)
   \<or> (\<exists>r \<in> set (fd_domain_rules db). ru_list_type r = list_type \<and> names_sender (message_sender m) r \<and>
        (\<exists>rcpt \<in> set (ev_rcpt_to (em_envelope m)). \<exists>domain. at rcpt domain \<and> ru_domain_id r = domain_id db domain))"
    unfolding rule_applies_def at_def by blast
  moreover have "(\<exists>d \<in> set (rcpt_domains db (ev_rcpt_to (em_envelope m))). \<exists>r \<in> set (fd_domain_rules db).
        ru_domain_id r = snd d \<and> ru_list_type r = list_type \<and> names_sender (message_sender m) r)
      \<longleftrightarrow> (\<exists>r \<in> set (fd_domain_rules db). ru_list_type r = list_type \<and> names_sender (message_sender m) r \<and>
        (\<exists>rcpt \<in> set (ev_rcpt_to (em_envelope m)). \<exists>domain. at rcpt domain \<and> ru_domain_id r = domain_id db domain))"
    using doms [of "ev_rcpt_to (em_envelope m)" "\<lambda>i. \<exists>r \<in> set (fd_domain_rules db).
        ru_domain_id r = i \<and> ru_list_type r = list_type \<and> names_sender (message_sender m) r"] by blast
  ultimately show ?thesis
    unfolding installation_match_iff [OF q(3) assms(2)] domain_match_iff [OF q(2) assms(2)] by simp
qed

text \<open>
  a block wins over an allow, whatever the scope of either: domain_allowlist turns a message away
  exactly when a block rule of the installation or of any recipient's domain names its sender, and no
  allow rule changes that. Filters are skipped only for a sender that an allow rule names, that no block
  rule names, and whose domain an SPF or DKIM verdict of this run authenticates.
\<close>

theorem block_wins_over_allow:
  assumes "queries_work db" "message_sender m \<noteq> []"
    and "domain_allowlist to_ascii aligned_mode reject_message db auth m = (db', recorded, m', Inr r)"
  shows "(fr_action r = ActionReject \<longleftrightarrow> rule_applies db m ''block'')
       \<and> (fr_action r \<noteq> ActionReject \<longrightarrow> fr_action r = ActionContinue)
       \<and> (fr_skip_filters r \<noteq> [] \<longrightarrow> rule_applies db m ''allow'' \<and> \<not> rule_applies db m ''block''
            \<and> (\<exists>local domain. message_sender m = local @ CHR ''@'' # domain \<and> CHR ''@'' \<notin> set local \<and>
                 sender_authenticated to_ascii aligned_mode auth domain))"
proof -
  obtain local bare ok where c: "cut_byte (CHR ''@'') (message_sender m) = (local, bare, ok)" by (metis prod_cases3)
  define auth' where "auth' = sender_authenticated to_ascii aligned_mode auth (if ok then bare else [])"
  have r: "r = allowlist_result reject_message db auth' (message_sender m) (if ok then ''@'' @ bare else [])
      (rcpt_domains db (ev_rcpt_to (em_envelope m)))"
    using assms(2,3) c by (auto simp: domain_allowlist_def auth'_def)
  have "auth' \<Longrightarrow> ok" by (rule ccontr) (simp add: auth'_def sender_authenticated_def trim_space_def trim_with_def trim_prefix_def)
  moreover have "ok \<Longrightarrow> message_sender m = local @ CHR ''@'' # bare \<and> CHR ''@'' \<notin> set local"
    using c by (simp add: cut_byte_found)
  ultimately have "auth' \<Longrightarrow> \<exists>local domain. message_sender m = local @ CHR ''@'' # domain \<and> CHR ''@'' \<notin> set local \<and>
      sender_authenticated to_ascii aligned_mode auth domain" unfolding auth'_def by auto
  moreover have "filter P xs \<noteq> [] \<longleftrightarrow> (\<exists>x \<in> set xs. P x)" for P and xs :: "(string \<times> nat) list"
    by (auto simp: filter_empty_conv)
  ultimately show ?thesis
    unfolding r allowlist_result_def rule_applies_iff [OF assms(1) c] Let_def
    by (simp add: continue_result_def split del: if_split split: if_split_asm cong: if_cong)
       (auto split: if_splits)
qed

text \<open>
  a contact entry of a recipient lets a message skip scanning only when a verdict of this run
  authenticates the domain of its sender; and the first recipient that has an entry for the sender
  decides for the message, so a sender that this recipient blocked is refused.
\<close>

theorem contact_skips_need_authentication:
  assumes "contact_whitelist to_ascii aligned_mode db auth m = (db', recorded, m', Inr r)"
  shows "(fr_skip_filters r \<noteq> [] \<longrightarrow>
            sender_authenticated to_ascii aligned_mode auth
              (case last_index_byte (message_sender m) (CHR ''@'') of None \<Rightarrow> [] | Some i \<Rightarrow> drop (i + 1) (message_sender m)))
       \<and> (fr_action r = ActionContinue \<or> fr_action r = ActionReject)
       \<and> (\<forall>local domain rest. message_sender m \<noteq> [] \<and> \<not> fd_query_err db ''contacts'' \<and> CHR ''@'' \<notin> set local \<and>
            ev_rcpt_to (em_envelope m) = (local @ CHR ''@'' # domain) # rest \<and>
            trust_level db local domain (message_sender m) = ''blocked'' \<longrightarrow> fr_action r = ActionReject)"
proof -
  have skip: "fr_skip_filters (contact_loop db authed s rcpts) \<noteq> [] \<Longrightarrow> authed"
    and act: "fr_action (contact_loop db authed s rcpts) \<in> {ActionContinue, ActionReject}" for authed s rcpts
    by (induction rcpts) (auto simp: Let_def split: prod.splits if_splits)
  define authed where "authed = sender_authenticated to_ascii aligned_mode auth
    (case last_index_byte (message_sender m) (CHR ''@'') of None \<Rightarrow> [] | Some i \<Rightarrow> drop (i + 1) (message_sender m))"
  have r: "r = (if message_sender m = [] then result_of ActionContinue [] [] ''contact_whitelist'' ''skip'' ''no sender to check''
      else contact_loop db authed (message_sender m) (ev_rcpt_to (em_envelope m)))"
    using assms by (auto simp: contact_whitelist_def authed_def Let_def)
  have "fr_action r = ActionContinue \<or> fr_action r = ActionReject"
    using act [of authed "message_sender m" "ev_rcpt_to (em_envelope m)"] by (auto simp: r)
  moreover have "fr_skip_filters r \<noteq> [] \<longrightarrow> authed"
    using skip [of authed "message_sender m" "ev_rcpt_to (em_envelope m)"] by (auto simp: r)
  moreover have "fr_action r = ActionReject"
    if "message_sender m \<noteq> []" "\<not> fd_query_err db ''contacts''" "CHR ''@'' \<notin> set local"
      "ev_rcpt_to (em_envelope m) = (local @ CHR ''@'' # domain) # rest"
      "trust_level db local domain (message_sender m) = ''blocked''" for local domain rest
    using that by (simp add: r cut_byte_append)
  ultimately show ?thesis unfolding authed_def by blast
qed

section \<open>Filters in the engine\<close>

text \<open>The filters of this theory as a registry: what each is registered as, with its settings.\<close>

record filter_settings =
  fs_max_size :: int
  fs_headers :: header_validate_config
  fs_reject_message :: string
  fs_to_ascii :: "string \<Rightarrow> string option"
  fs_aligned_mode :: "string \<Rightarrow> string \<Rightarrow> bool \<Rightarrow> string + bool"

definition check_registry :: "duration option \<Rightarrow> filter_settings \<Rightarrow> filter_db registry" where
  "check_registry took s =
     [(''size_check'', \<lambda>c. Inr (as_filter took (size_check (fs_max_size s)))),
      (''header_validate'', \<lambda>c. Inr (as_filter took (header_validate (fs_headers s)))),
      (''sender_verify'', \<lambda>c. Inr (as_filter took sender_verify)),
      (''domain_allowlist'', \<lambda>c. Inr (as_filter took (domain_allowlist (fs_to_ascii s) (fs_aligned_mode s) (fs_reject_message s)))),
      (''contact_whitelist'', \<lambda>c. Inr (as_filter took (contact_whitelist (fs_to_ascii s) (fs_aligned_mode s))))]"

lemma check_step_keeps:
  assumes reg: "en_registry e = check_registry took s"
    and step: "run_step e cancel fc st = Next st' \<or> run_step e cancel fc st = Break st'"
  shows "sg_email st' = sg_email st \<and> sg_auth st' = sg_auth st"
proof (cases "create (en_registry e) (fc_name fc) (fc_config fc)")
  case (Inl err)
  with step have "filter_failed e fc (''create filter: '' @ err) '' unavailable'' st = Next st' \<or>
      filter_failed e fc (''create filter: '' @ err) '' unavailable'' st = Break st' \<or>
      Next (record_step ((new_step fc)\<lparr>sr_skipped := True, sr_skip_reason := ''skipped by upstream filter'',
                                        sr_action := ActionContinue\<rparr>) st) = Next st'"
    by (auto simp: run_step_def split: if_splits)
  with failed_keeps [of e fc _ _ st st'] show ?thesis by (auto simp: record_step_def)
next
  case (Inr f)
  from Inr consider "f = as_filter took (size_check (fs_max_size s))" | "f = as_filter took (header_validate (fs_headers s))"
    | "f = as_filter took sender_verify"
    | "f = as_filter took (domain_allowlist (fs_to_ascii s) (fs_aligned_mode s) (fs_reject_message s))"
    | "f = as_filter took (contact_whitelist (fs_to_ascii s) (fs_aligned_mode s))"
    unfolding reg create_def check_registry_def by (auto split: if_splits)
  then show ?thesis
  proof cases
    case 1 then show ?thesis by (intro size_check.step_keeps [OF _ step]) (simp add: Inr)
  next
    case 2 then show ?thesis by (intro header_validate.step_keeps [OF _ step]) (simp add: Inr)
  next
    case 3 then show ?thesis by (intro sender_verify.step_keeps [OF _ step]) (simp add: Inr)
  next
    case 4 then show ?thesis by (intro domain_allowlist.step_keeps [OF _ step]) (simp add: Inr)
  next
    case 5 then show ?thesis by (intro contact_whitelist.step_keeps [OF _ step]) (simp add: Inr)
  qed
qed

lemma check_run_keeps:
  assumes "en_registry e = check_registry took s" "run_filters e cancel fcs st = Finished st'"
  shows "sg_email st' = sg_email st \<and> sg_auth st' = sg_auth st"
  using assms(2)
proof (induction fcs arbitrary: st)
  case (Cons fc fcs)
  then show ?case
    using check_step_keeps [OF assms(1), of cancel fc st] by (auto split: if_splits turn.splits)
qed simp

text \<open>
  whatever pipeline is made of the size, header, sender, allowlist and contact checks, in whatever
  order and with whatever outcome, the message that comes out of a run is the one that went in, byte
  for byte, and the run's verdicts are the ones it started with: these checks decide about mail and
  never change it.
\<close>

theorem checks_leave_the_message:
  assumes "en_registry e = check_registry took s"
    and "execute_stage e cancel p db m state = Some (res, obs, state', db')"
  shows "ex_final_email res = m \<and> ex_auth res = ru_auth state"
proof -
  from assms(2) obtain st where st: "run_filters e cancel (pc_filters p) (start_stage db m state) = Finished st"
    "res = stage_result st" by (auto simp: execute_stage_def split: run_end.splits)
  from check_run_keeps [OF assms(1) st(1)] show ?thesis
    by (simp add: st(2) stage_result_def start_stage_def auth_list_def auth_add_def)
qed

section \<open>Filters at work\<close>

definition sample_filter_db :: filter_db where
  "sample_filter_db =
     \<lparr>fd_domains = [\<lparr>de_id = 1, de_name = ''here.test''\<rparr>],
      fd_mailboxes = [\<lparr>mb_id = 7, mb_domain_id = 1, mb_local_part = ''b''\<rparr>],
      fd_contacts = [\<lparr>co_mailbox_id = 7, co_email = ''a@there.test'', co_trust_level = ''trusted''\<rparr>],
      fd_domain_rules = [\<lparr>ru_domain_id = 1, ru_list_type = ''allow'', ru_pattern = ''@there.test''\<rparr>],
      fd_installation_rules = [\<lparr>ru_domain_id = 0, ru_list_type = ''block'', ru_pattern = ''a@there.test''\<rparr>],
      fd_query_err = (\<lambda>t. False)\<rparr>"

definition sample_aligned :: "string \<Rightarrow> string \<Rightarrow> bool \<Rightarrow> string + bool" where
  "sample_aligned a b strict = Inr (a = b)"

definition sample_auth :: auth_results where
  "sample_auth = Some [\<lparr>ar_method = auth_dkim, ar_result = ''pass'', ar_property = prop_header_d,
     ar_domain = ''there.test'', ar_selector = []\<rparr>]"

theorem block_wins_over_allow_witness:
  "\<exists>r. domain_allowlist Some sample_aligned ''550 no'' sample_filter_db sample_auth sample_email
       = (sample_filter_db, [], sample_email, Inr r)
     \<and> fr_action r = ActionReject \<and> rule_applies sample_filter_db sample_email ''block''"
proof -
  obtain db' rec m' r where d: "domain_allowlist Some sample_aligned ''550 no'' sample_filter_db sample_auth sample_email
      = (db', rec, m', Inr r)"
    by (cases "cut_byte (CHR ''@'') (message_sender sample_email)") (simp add: domain_allowlist_def Let_def)
  have "db' = sample_filter_db" "rec = []" "m' = sample_email" using d by (auto simp: domain_allowlist_def Let_def split: prod.splits)
  moreover have "fr_action r = ActionReject"
  proof -
    have "map_option fr_action (case domain_allowlist Some sample_aligned ''550 no'' sample_filter_db sample_auth sample_email of
        (_, _, _, Inr r) \<Rightarrow> Some r | _ \<Rightarrow> None) = Some ActionReject" by code_simp
    with d show ?thesis by simp
  qed
  moreover have "queries_work sample_filter_db" "message_sender sample_email \<noteq> []" by code_simp+
  ultimately show ?thesis using block_wins_over_allow [OF _ _ d] d by auto
qed

theorem contact_skips_need_authentication_witness:
  "\<exists>r. contact_whitelist Some sample_aligned sample_filter_db sample_auth sample_email
       = (sample_filter_db, [], sample_email, Inr r)
     \<and> fr_skip_filters r = scanning_skips \<and> sender_authenticated Some sample_aligned sample_auth ''there.test''"
proof -
  obtain db' rec m' r where d: "contact_whitelist Some sample_aligned sample_filter_db sample_auth sample_email
      = (db', rec, m', Inr r)" by (auto simp: contact_whitelist_def Let_def)
  have "db' = sample_filter_db" "rec = []" "m' = sample_email" using d by (auto simp: contact_whitelist_def Let_def)
  moreover have "fr_skip_filters r = scanning_skips"
  proof -
    have "map_option fr_skip_filters (case contact_whitelist Some sample_aligned sample_filter_db sample_auth sample_email of
        (_, _, _, Inr r) \<Rightarrow> Some r | _ \<Rightarrow> None) = Some scanning_skips" by code_simp
    with d show ?thesis by simp
  qed
  moreover have "(case last_index_byte (message_sender sample_email) (CHR ''@'') of None \<Rightarrow> []
      | Some i \<Rightarrow> drop (i + 1) (message_sender sample_email)) = ''there.test''" by code_simp
  ultimately show ?thesis using contact_skips_need_authentication [OF d] d by (auto simp: scanning_skips_def)
qed

definition sample_settings :: filter_settings where
  "sample_settings =
     \<lparr>fs_max_size = 1000, fs_headers = default_header_validate, fs_reject_message = ''550 no'', fs_to_ascii = Some,
      fs_aligned_mode = sample_aligned\<rparr>"

definition check_engine :: "filter_db engine" where
  "check_engine = new_engine (check_registry (Some 1) sample_settings)"

lemma check_engine_runs:
  "map_option (\<lambda>(res, _). ex_final_action res)
     (execute_stage check_engine None sample_pipeline sample_filter_db sample_email new_run_state) = Some ActionDefer"
  by (simp add: check_engine_def execute_stage_def sample_pipeline_def sample_step_def run_step_def start_stage_def
      create_def new_engine_def check_registry_def sample_settings_def as_filter_def size_check_def result_of_def
      run_filter_def new_run_state_def default_filter_timeout_def duration_defs apply_result_def record_step_def
      new_step_def filter_failed_def stage_result_def Let_def estimate_size_def sample_email_def int64_def)

theorem checks_leave_the_message_witness:
  "\<exists>res obs state' db'. execute_stage check_engine None sample_pipeline sample_filter_db sample_email new_run_state
     = Some (res, obs, state', db') \<and> ex_final_email res = sample_email"
proof -
  from check_engine_runs obtain res obs state' db' where
    r: "execute_stage check_engine None sample_pipeline sample_filter_db sample_email new_run_state
      = Some (res, obs, state', db')" by (cases "execute_stage check_engine None sample_pipeline sample_filter_db sample_email new_run_state") auto
  have "en_registry check_engine = check_registry (Some 1) sample_settings" by (simp add: check_engine_def new_engine_def)
  from checks_leave_the_message [OF this r] r show ?thesis by auto
qed

end
