(* ===== verification/Pipeline_Dmarc.thy ===== *)
theory Pipeline_Dmarc
  imports Pipeline_Filters
begin

text \<open>
  The authentication filters (\<^verbatim>\<open>pipeline/filters/\<close> spf_check.go, dkim.go, dmarc_check.go). The SPF, DKIM and
  DMARC libraries and DNS are parameters: \<open>spf_helo\<close> and \<open>spf_mail_from\<close> give a result and a reason,
  \<open>dkim_verify_lib\<close> a result per signature, \<open>discover\<close> the published policy of a domain.
\<close>

section \<open>spf_check\<close>

definition fail_action_of :: "string \<Rightarrow> string \<Rightarrow> string + action" where
  "fail_action_of name fail_action =
     (if fail_action = [] \<or> fail_action = ''tag'' then Inr ActionContinue
      else if fail_action = ''reject'' then Inr ActionReject
      else if fail_action = ''quarantine'' then Inr ActionQuarantine
      else Inl (name @ '': fail_action '' @ go_quote fail_action @ '' is not tag, reject or quarantine''))"

definition new_spf_check :: "string \<Rightarrow> string + action" where
  "new_spf_check fail_action = fail_action_of ''spf_check'' fail_action"

definition is_ascii_text :: "string \<Rightarrow> bool" where
  "is_ascii_text s \<longleftrightarrow> list_all is_ascii s"

definition spf_auth_domain :: "string \<Rightarrow> string \<Rightarrow> string" where
  "spf_auth_domain mail_from helo =
     (let domain = (if mail_from \<noteq> [] then
                      (case last_index_byte mail_from (CHR ''@'') of None \<Rightarrow> mail_from | Some i \<Rightarrow> drop (i + 1) mail_from)
                    else helo)
      in if is_host_name domain then domain else [])"

definition spf_continue :: "string \<Rightarrow> string \<Rightarrow> filter_result" where
  "spf_continue result detail = result_of ActionContinue [] [] ''spf_check'' result detail"

definition spf_verdict :: "string \<Rightarrow> string \<Rightarrow> string \<Rightarrow> auth_result" where
  "spf_verdict result property domain =
     \<lparr>ar_method = auth_spf, ar_result = result, ar_property = property, ar_domain = domain, ar_selector = []\<rparr>"

record spf_library =
  sl_to_ascii :: "string \<Rightarrow> string option"
  sl_helo :: "string \<Rightarrow> string \<Rightarrow> string \<times> string"
  sl_mail_from :: "string \<Rightarrow> string \<Rightarrow> string \<Rightarrow> string \<times> string"

text \<open>The HELO identity is checked on its own when it is a host name and there is a MAIL FROM as well.\<close>

definition spf_helo_part :: "spf_library \<Rightarrow> string \<Rightarrow> string \<Rightarrow> string \<Rightarrow> bool \<Rightarrow> auth_result list \<times> string" where
  "spf_helo_part lib client_ip mail_from helo helo_valid =
     (if mail_from \<noteq> [] \<and> helo_valid \<and> is_host_name helo then
        (let hr = sl_helo lib client_ip helo in
         ([spf_verdict (fst hr) prop_helo helo], ''; HELO '' @ helo @ '': '' @ fst hr @ '' ('' @ snd hr @ '')''))
      else ([], []))"

definition spf_mail_part :: "spf_library \<Rightarrow> string \<Rightarrow> string \<Rightarrow> string \<Rightarrow> bool \<Rightarrow> bool \<Rightarrow> string \<times> string" where
  "spf_mail_part lib client_ip mail_from helo mail_from_valid helo_valid =
     (if mail_from \<noteq> [] \<and> \<not> mail_from_valid \<or> mail_from = [] \<and> \<not> helo_valid
      then (''none'', ''not a valid internationalized domain name'')
      else sl_mail_from lib client_ip mail_from helo)"

text \<open>The verdicts spf_check records, the MAIL FROM one last; its result, the log's detail, the domain.\<close>

definition spf_evaluate :: "spf_library \<Rightarrow> string \<Rightarrow> string \<Rightarrow> string \<Rightarrow> auth_result list \<times> string \<times> string \<times> string" where
  "spf_evaluate lib client_ip mail_from0 helo0 =
     (let ascii_from = smtp_address_ascii (sl_to_ascii lib) mail_from0;
          ascii_helo = domain_ascii (sl_to_ascii lib) helo0;
          mail_from = (case ascii_from of Some a \<Rightarrow> a | None \<Rightarrow> mail_from0);
          helo = (case ascii_helo of Some a \<Rightarrow> a | None \<Rightarrow> helo0);
          helo_valid = (ascii_helo \<noteq> None \<or> is_ascii_text helo0);
          helo_part = spf_helo_part lib client_ip mail_from helo helo_valid;
          resp = spf_mail_part lib client_ip mail_from helo (ascii_from \<noteq> None \<or> is_ascii_text mail_from0) helo_valid;
          domain = spf_auth_domain mail_from helo
      in (fst helo_part @ [spf_verdict (fst resp) prop_mail_from domain], fst resp, snd resp @ snd helo_part, domain))"

definition spf_check :: "spf_library \<Rightarrow> action \<Rightarrow> 'w \<Rightarrow> auth_results \<Rightarrow> email \<Rightarrow> 'w answer" where
  "spf_check lib fail_action w auth m =
     (let client_ip = ev_client_ip (em_envelope m);
          mail_from = ev_mail_from (em_envelope m);
          helo = ev_helo (em_envelope m)
      in if client_ip = [] then (w, [], m, Inr (spf_continue ''none'' ''no client IP to check''))
         else if mail_from = [] \<and> helo = [] then (w, [], m, Inr (spf_continue ''none'' ''no MAIL FROM or HELO to check''))
         else
           (let (results, res, detail, domain) = spf_evaluate lib client_ip mail_from helo;
                m' = m\<lparr>em_headers := (em_headers m)\<lparr>hd_raw :=
                       append_raw ''Authentication-Results'' (auth_results_value results) (hd_raw (em_headers m))\<rparr>\<rparr>;
                r = spf_continue res detail
            in (w, results, m', Inr
                 (if res = ''fail'' \<and> fail_action \<noteq> ActionContinue then
                    r\<lparr>fr_action := fail_action,
                      fr_reject_msg :=
                        (if fail_action = ActionReject
                         then ''550 5.7.23 SPF check failed'' @ (if domain \<noteq> [] then '' for '' @ domain else [])
                         else fr_reject_msg r)\<rparr>
                  else r))))"

section \<open>dkim_verify\<close>

record dkim_signature_result =
  ds_result :: string
  ds_domain :: string
  ds_selector :: string
  ds_reason :: string

definition new_dkim_verify :: "string \<Rightarrow> string + action" where
  "new_dkim_verify fail_action = fail_action_of ''dkim_verify'' fail_action"

definition dkim_rank :: "string \<Rightarrow> int" where
  "dkim_rank r =
     (if r = ''neutral'' then 1 else if r = ''permerror'' then 2 else if r = ''temperror'' then 3
      else if r = ''fail'' then 4 else if r = ''pass'' then 5 else 0)"

fun dkim_overall :: "string \<Rightarrow> dkim_signature_result list \<Rightarrow> string" where
  "dkim_overall overall [] = overall"
| "dkim_overall overall (r # rs) =
     dkim_overall (if dkim_rank overall < dkim_rank (ds_result r) then ds_result r else overall) rs"

definition dkim_verdict :: "dkim_signature_result \<Rightarrow> auth_result" where
  "dkim_verdict r =
     \<lparr>ar_method = auth_dkim, ar_result = ds_result r, ar_property = prop_header_d, ar_domain = ds_domain r,
      ar_selector = ds_selector r\<rparr>"

definition summarize_dkim :: "dkim_signature_result list \<Rightarrow> string \<times> string \<times> auth_result list" where
  "summarize_dkim rs =
     (dkim_overall ''none'' rs,
      join '' | '' (map (\<lambda>r. ''d='' @ ds_domain r @ '' s='' @ ds_selector r @ '' '' @ ds_result r @ '': '' @ ds_reason r) rs),
      map dkim_verdict rs)"

definition has_raw_header :: "(string \<times> string list) list \<Rightarrow> string \<Rightarrow> bool" where
  "has_raw_header raw name = (case map_of raw name of None \<Rightarrow> False | Some vs \<Rightarrow> vs \<noteq> [])"

definition bare_dkim :: "string \<Rightarrow> auth_result list" where
  "bare_dkim result = [\<lparr>ar_method = auth_dkim, ar_result = result, ar_property = [], ar_domain = [], ar_selector = []\<rparr>]"

definition dkim_check ::
  "(string \<Rightarrow> dkim_signature_result list) \<Rightarrow> action \<Rightarrow> 'w \<Rightarrow> auth_results \<Rightarrow> email \<Rightarrow> 'w answer" where
  "dkim_check dkim_verify_lib fail_action w auth m =
     (let raw = lookup (em_metadata m) ''raw_message'';
          results = dkim_verify_lib raw;
          (res, detail, verdicts) =
            (if raw \<noteq> [] then
               (if results \<noteq> [] then summarize_dkim results
                else (''none'', ''no DKIM signature present'', bare_dkim ''none''))
             else if has_raw_header (hd_raw (em_headers m)) ''Dkim-Signature'' then
               (''neutral'', ''DKIM signature present but raw message unavailable for verification'', bare_dkim ''neutral'')
             else (''none'', ''no DKIM signature present'', bare_dkim ''none''));
          modified = m\<lparr>em_headers := (em_headers m)\<lparr>hd_raw :=
            append_raw ''Authentication-Results'' (auth_results_value verdicts) (hd_raw (em_headers m))\<rparr>\<rparr>;
          acts = (res = ''fail'' \<and> fail_action \<noteq> ActionContinue)
      in (w, verdicts, m, Inr
           \<lparr>fr_type = FilterTypeTransform, fr_action = (if acts then fail_action else ActionContinue),
            fr_message = Some modified, fr_skip_filters = [],
            fr_reject_msg = (if acts \<and> fail_action = ActionReject
                             then ''550 5.7.20 DKIM signature verification failed'' else []),
            fr_log = \<lparr>fl_filter = ''dkim_verify'', fl_result = res, fl_detail = detail\<rparr>\<rparr>))"

section \<open>dmarc_check\<close>

record dmarc_policy =
  dp_raw :: string
  dp_requested :: string
  dp_applied :: string
  dp_aspf_strict :: bool
  dp_adkim_strict :: bool

record policy_override =
  po_type :: string
  po_comment :: string

record dmarc_row =
  dr_domain :: string
  dr_source_ip :: string
  dr_header_from :: string
  dr_disposition :: string
  dr_policy :: string
  dr_envelope_to :: string
  dr_dkim_domain :: string
  dr_dkim_selector :: string
  dr_dkim_result :: string
  dr_dkim_aligned :: bool
  dr_spf_domain :: string
  dr_spf_result :: string
  dr_spf_aligned :: bool
  dr_override_reason :: string
  dr_override_comment :: string

text \<open>What a loop over verdicts found: the one a report names and its rank, a pass, an aligned pass, and
  the last DNS failure.\<close>

record scan =
  sn_result :: "auth_result option"
  sn_rank :: int
  sn_pass :: bool
  sn_aligned :: bool
  sn_dns_err :: "string option"

definition empty_scan :: "string option \<Rightarrow> scan" where
  "empty_scan dns_err = \<lparr>sn_result = None, sn_rank = - 1, sn_pass = False, sn_aligned = False, sn_dns_err = dns_err\<rparr>"

definition note_alignment :: "(string \<Rightarrow> string + bool) \<Rightarrow> auth_result \<Rightarrow> scan \<Rightarrow> scan" where
  "note_alignment aligns r s =
     (if ar_result r = ''pass'' then
        (case aligns (ar_domain r) of
           Inl e \<Rightarrow> s\<lparr>sn_pass := True, sn_dns_err := Some e\<rparr>
         | Inr True \<Rightarrow> s\<lparr>sn_pass := True, sn_aligned := True\<rparr>
         | Inr False \<Rightarrow> s\<lparr>sn_pass := True\<rparr>)
      else s)"

fun spf_scan :: "(string \<Rightarrow> string + bool) \<Rightarrow> auth_result list \<Rightarrow> scan \<Rightarrow> scan" where
  "spf_scan aligns [] s = s"
| "spf_scan aligns (r # rs) s = spf_scan aligns rs ((note_alignment aligns r s)\<lparr>sn_result := Some r\<rparr>)"

fun dkim_scan :: "(string \<Rightarrow> string + bool) \<Rightarrow> auth_result list \<Rightarrow> scan \<Rightarrow> scan" where
  "dkim_scan aligns [] s = s"
| "dkim_scan aligns (r # rs) s =
     (let s' = note_alignment aligns r s;
          rank = (if ar_result r \<noteq> ''pass'' then 0 else if aligns (ar_domain r) = Inr True then 2 else 1 :: int)
      in dkim_scan aligns rs (if sn_rank s' < rank then s'\<lparr>sn_result := Some r, sn_rank := rank\<rparr> else s'))"

definition trusted_sealers :: "string list \<Rightarrow> string list" where
  "trusted_sealers sealers = filter (\<lambda>s. s \<noteq> []) (map (\<lambda>s. to_lower (trim_space s)) sealers)"

definition sealer_trusted :: "string list \<Rightarrow> string \<Rightarrow> bool" where
  "sealer_trusted trusted sealer \<longleftrightarrow> sealer \<noteq> [] \<and> trusted \<noteq> [] \<and> to_lower (trim_space sealer) \<in> set trusted"

text \<open>\<open>None\<close> for \<open>rows\<close> is a context without a database, where nothing is recorded.\<close>

definition capture_dmarc ::
  "email \<Rightarrow> string \<Rightarrow> string \<Rightarrow> string \<Rightarrow> scan \<Rightarrow> scan \<Rightarrow> policy_override option \<Rightarrow> dmarc_row list option \<Rightarrow> dmarc_row list option" where
  "capture_dmarc m domain policy disposition spf dkim override rows =
     (if rows = None \<or> ev_direction (em_envelope m) = ''outbound'' \<or> ev_client_ip (em_envelope m) = [] then rows
      else Some (the rows @ [\<lparr>
        dr_domain = domain, dr_source_ip = ev_client_ip (em_envelope m),
        dr_header_from = (case hd_from (em_headers m) of [] \<Rightarrow> [] | a # _ \<Rightarrow> ad_address a),
        dr_disposition = disposition, dr_policy = policy,
        dr_envelope_to = (case ev_rcpt_to (em_envelope m) of [] \<Rightarrow> [] | r # _ \<Rightarrow> domain_from_address r),
        dr_dkim_domain = (case sn_result dkim of None \<Rightarrow> [] | Some r \<Rightarrow> ar_domain r),
        dr_dkim_selector = (case sn_result dkim of None \<Rightarrow> [] | Some r \<Rightarrow> ar_selector r),
        dr_dkim_result = (case sn_result dkim of None \<Rightarrow> ''none'' | Some r \<Rightarrow> ar_result r),
        dr_dkim_aligned = sn_aligned dkim,
        dr_spf_domain = (case sn_result spf of None \<Rightarrow> [] | Some r \<Rightarrow> ar_domain r),
        dr_spf_result = (case sn_result spf of None \<Rightarrow> ''none'' | Some r \<Rightarrow> ar_result r),
        dr_spf_aligned = sn_aligned spf,
        dr_override_reason = (case override of None \<Rightarrow> [] | Some p \<Rightarrow> po_type p),
        dr_override_comment = (case override of None \<Rightarrow> [] | Some p \<Rightarrow> po_comment p)\<rparr>]))"

definition list_ids :: "email \<Rightarrow> string list" where
  "list_ids m = (case map_of (hd_raw (em_headers m)) ''List-Id'' of None \<Rightarrow> [] | Some vs \<Rightarrow> vs)"

text \<open>What is done with the message and why it departs from the requested policy.\<close>

definition dmarc_disposition ::
  "email \<Rightarrow> dmarc_policy \<Rightarrow> bool \<Rightarrow> bool \<Rightarrow> string \<Rightarrow> string \<times> policy_override option" where
  "dmarc_disposition m p aligned arc_override arc_sealer =
     (if aligned then
        ((if dp_requested p = ''quarantine'' \<or> dp_requested p = ''reject'' then ''pass'' else ''none''), None)
      else if arc_override then
        (''none'', if dp_requested p \<noteq> ''none''
           then Some \<lparr>po_type = ''trusted_forwarder'', po_comment = ''arc=pass from '' @ arc_sealer\<rparr> else None)
      else if dp_applied p = ''reject'' \<and> list_ids m \<noteq> [] then
        (''quarantine'', Some \<lparr>po_type = ''mailing_list'', po_comment = ''List-Id: '' @ trim_space (hd (list_ids m))\<rparr>)
      else
        (dp_applied p, if dp_applied p \<noteq> dp_requested p
           then Some \<lparr>po_type = ''policy_test_mode'',
                      po_comment = ''t=y: '' @ dp_requested p @ '' applied as '' @ dp_applied p\<rparr> else None))"

definition bool_text :: "bool \<Rightarrow> string" where
  "bool_text b = (if b then ''true'' else ''false'')"

record dmarc_library =
  dl_to_ascii :: "string \<Rightarrow> string option"
  dl_discover :: "string \<Rightarrow> dmarc_policy option"
  dl_aligned_mode :: "string \<Rightarrow> string \<Rightarrow> bool \<Rightarrow> string + bool"

definition dmarc_verdict :: "string \<Rightarrow> string \<Rightarrow> auth_result" where
  "dmarc_verdict result domain =
     \<lparr>ar_method = auth_dmarc, ar_result = result, ar_property = prop_header_from, ar_domain = domain, ar_selector = []\<rparr>"

definition arc_of :: "auth_results \<Rightarrow> string \<times> string" where
  "arc_of auth = (case auth_find auth_arc [] auth of [] \<Rightarrow> ([], []) | rs \<Rightarrow> (ar_result (last rs), ar_domain (last rs)))"

text \<open>dmarc_check once the From domain has a policy.\<close>

definition dmarc_apply ::
  "dmarc_library \<Rightarrow> string list \<Rightarrow> string \<Rightarrow> dmarc_policy \<Rightarrow> dmarc_row list option \<Rightarrow> auth_results \<Rightarrow> email \<Rightarrow>
   dmarc_row list option answer" where
  "dmarc_apply lib trusted domain p rows auth m =
     (let aligns = (\<lambda>strict d. dmarc_aligned (dl_to_ascii lib) (dl_aligned_mode lib) d domain strict);
          spf = spf_scan (aligns (dp_aspf_strict p)) (auth_find auth_spf prop_mail_from auth) (empty_scan None);
          dkim = dkim_scan (aligns (dp_adkim_strict p)) (auth_find auth_dkim prop_header_d auth) (empty_scan (sn_dns_err spf));
          (arc_status, arc_sealer) = arc_of auth;
          arc_override = (arc_status = ''pass'' \<and> sealer_trusted trusted arc_sealer);
          aligned = (sn_aligned spf \<or> sn_aligned dkim);
          answer = (\<lambda>act msg res detail. Inr (result_of act msg [] ''dmarc_check'' res detail))
      in case (if aligned then None else sn_dns_err dkim) of
           Some err \<Rightarrow>
             (rows, [dmarc_verdict ''temperror'' domain], m,
              answer ActionContinue [] ''temperror'' (''alignment for '' @ domain @ '' not known: '' @ err))
         | None \<Rightarrow>
             (let (disposition, override) = dmarc_disposition m p aligned arc_override arc_sealer;
                  rows' = capture_dmarc m domain (dp_requested p) disposition spf dkim override rows;
                  detail = ''policy='' @ dp_requested p @ '' domain='' @ domain @
                    (case override of None \<Rightarrow> []
                     | Some o' \<Rightarrow> '' applied='' @ disposition @ '' ('' @ po_type o' @ '': '' @ po_comment o' @ '')'')
              in (rows', [dmarc_verdict (if aligned then ''pass'' else ''fail'') domain], m,
                  if aligned then
                    answer ActionContinue [] ''pass''
                      (''policy='' @ dp_requested p @ '' spf_pass='' @ bool_text (sn_pass spf) @ '' spf_aligned='' @
                       bool_text (sn_aligned spf) @ '' dkim_pass='' @ bool_text (sn_pass dkim) @ '' dkim_aligned='' @
                       bool_text (sn_aligned dkim))
                  else if arc_override then
                    answer ActionContinue [] ''pass''
                      (''policy='' @ dp_requested p @ '' dmarc=fail but arc=pass from trusted sealer '' @ arc_sealer @
                       '' (ARC override) domain='' @ domain)
                  else if disposition = ''reject'' then
                    answer ActionReject (''550 DMARC policy reject for '' @ domain) ''fail'' detail
                  else if disposition = ''quarantine'' then answer ActionQuarantine [] ''fail'' detail
                  else answer ActionContinue [] ''fail'' (detail @ '' (no enforcement)''))))"

definition dmarc_check ::
  "dmarc_library \<Rightarrow> string list \<Rightarrow> dmarc_row list option \<Rightarrow> auth_results \<Rightarrow> email \<Rightarrow> dmarc_row list option answer" where
  "dmarc_check lib trusted rows auth m =
     (let none = (\<lambda>recorded detail. (rows, recorded, m, Inr (result_of ActionContinue [] [] ''dmarc_check'' ''none'' detail)))
      in case hd_from (em_headers m) of
           [] \<Rightarrow> none [] ''no From header''
         | a # _ \<Rightarrow>
             (case last_index_byte (ad_address a) (CHR ''@'') of
                None \<Rightarrow> none [] ''invalid From address''
              | Some at \<Rightarrow>
                  if at = 0 then none [] ''invalid From address''
                  else case domain_ascii (dl_to_ascii lib) (drop (at + 1) (ad_address a)) of
                    None \<Rightarrow> none [] ''invalid From domain''
                  | Some domain \<Rightarrow>
                      (case dl_discover lib domain of
                         None \<Rightarrow> none [dmarc_verdict ''none'' domain] (''no DMARC record for '' @ domain)
                       | Some p \<Rightarrow>
                           if dp_raw p = [] then none [dmarc_verdict ''none'' domain] (''no DMARC record for '' @ domain)
                           else dmarc_apply lib trusted domain p rows auth m)))"

section \<open>DMARC decides as the policy asks\<close>

lemma spf_scan_aligned:
  "sn_aligned (spf_scan aligns rs s) \<longleftrightarrow> sn_aligned s \<or> (\<exists>r \<in> set rs. ar_result r = ''pass'' \<and> aligns (ar_domain r) = Inr True)"
  by (induction rs arbitrary: s) (auto simp: note_alignment_def split: sum.splits bool.splits)

lemma dkim_scan_aligned:
  "sn_aligned (dkim_scan aligns rs s) \<longleftrightarrow> sn_aligned s \<or> (\<exists>r \<in> set rs. ar_result r = ''pass'' \<and> aligns (ar_domain r) = Inr True)"
proof (induction rs arbitrary: s)
  case (Cons r rs)
  have "sn_aligned (note_alignment aligns r s) \<longleftrightarrow> sn_aligned s \<or> ar_result r = ''pass'' \<and> aligns (ar_domain r) = Inr True"
    by (auto simp: note_alignment_def split: sum.splits bool.splits)
  then show ?case using Cons by (auto simp: Let_def)
qed simp

lemma scan_dns_err:
  assumes "\<And>d. \<not> isl (aligns d)"
  shows "sn_dns_err (spf_scan aligns rs s) = sn_dns_err s" "sn_dns_err (dkim_scan aligns rs s) = sn_dns_err s"
proof -
  have n: "sn_dns_err (note_alignment aligns r s) = sn_dns_err s" for r s
    using assms [of "ar_domain r"] by (auto simp: note_alignment_def split: sum.splits bool.splits)
  show "sn_dns_err (spf_scan aligns rs s) = sn_dns_err s" by (induction rs arbitrary: s) (auto simp: n)
  show "sn_dns_err (dkim_scan aligns rs s) = sn_dns_err s" by (induction rs arbitrary: s) (auto simp: n Let_def)
qed

text \<open>The run authenticates the From domain: an SPF pass of MAIL FROM or a DKIM pass, aligned with it.\<close>

definition authenticates :: "dmarc_library \<Rightarrow> dmarc_policy \<Rightarrow> string \<Rightarrow> auth_results \<Rightarrow> bool" where
  "authenticates lib p domain auth \<longleftrightarrow>
     (\<exists>r \<in> set (auth_find auth_spf prop_mail_from auth). ar_result r = ''pass'' \<and>
        dmarc_aligned (dl_to_ascii lib) (dl_aligned_mode lib) (ar_domain r) domain (dp_aspf_strict p) = Inr True)
   \<or> (\<exists>r \<in> set (auth_find auth_dkim prop_header_d auth). ar_result r = ''pass'' \<and>
        dmarc_aligned (dl_to_ascii lib) (dl_aligned_mode lib) (ar_domain r) domain (dp_adkim_strict p) = Inr True)"

definition vouched :: "string list \<Rightarrow> auth_results \<Rightarrow> bool" where
  "vouched trusted auth \<longleftrightarrow> fst (arc_of auth) = ''pass'' \<and> sealer_trusted trusted (snd (arc_of auth))"

lemma dmarc_apply_aligned:
  "(let aligns = (\<lambda>strict d. dmarc_aligned (dl_to_ascii lib) (dl_aligned_mode lib) d domain strict)
    in sn_aligned (spf_scan (aligns (dp_aspf_strict p)) (auth_find auth_spf prop_mail_from auth) (empty_scan None))
     \<or> sn_aligned (dkim_scan (aligns (dp_adkim_strict p)) (auth_find auth_dkim prop_header_d auth) (empty_scan e)))
   \<longleftrightarrow> authenticates lib p domain auth"
  by (simp add: spf_scan_aligned dkim_scan_aligned authenticates_def empty_scan_def Let_def)


section \<open>DKIM\<close>

lemma dkim_rank_pass: "dkim_rank r = 5 \<longleftrightarrow> r = ''pass''" "dkim_rank r = 4 \<longleftrightarrow> r = ''fail''" "dkim_rank r \<le> 5" "0 \<le> dkim_rank r"
  by (simp_all add: dkim_rank_def)

lemma dkim_overall_rank: "dkim_rank (dkim_overall o' rs) = Max (insert (dkim_rank o') (dkim_rank ` ds_result ` set rs))"
proof (induction rs arbitrary: o')
  case (Cons r rs)
  show ?case unfolding dkim_overall.simps Cons.IH
    by (cases "rs = []") (auto simp: max_def Max_insert insert_commute)
qed simp

lemma dkim_overall_max:
  "dkim_rank (dkim_overall ''none'' rs) \<ge> dkim_rank x" if "x \<in> ds_result ` set rs" for x
  using that unfolding dkim_overall_rank by (intro Max_ge) auto

lemma dkim_overall_in: "dkim_overall o' rs \<in> insert o' (ds_result ` set rs)"
proof (induction rs arbitrary: o')
  case (Cons r rs)
  show ?case unfolding dkim_overall.simps
    using Cons.IH [of "if dkim_rank o' < dkim_rank (ds_result r) then ds_result r else o'"] by (auto split: if_splits)
qed simp

text \<open>
  the DKIM result of a message is its strongest: pass as soon as one signature passes, fail when
  none passes and one fails, and otherwise neither. Only a message in the second case is refused or
  quarantined where the filter is set to act, so that one broken signature never costs a message that
  carries a good one.
\<close>

theorem dkim_strongest_signature_counts:
  assumes "lookup (em_metadata m) ''raw_message'' \<noteq> []" "dkim_verify_lib (lookup (em_metadata m) ''raw_message'') = rs" "rs \<noteq> []"
    and "fail_action \<in> {ActionReject, ActionQuarantine}"
    and "dkim_check dkim_verify_lib fail_action w auth m = (w', recorded, m', Inr r)"
  shows "recorded = map dkim_verdict rs
       \<and> (fl_result (fr_log r) = ''pass'' \<longleftrightarrow> ''pass'' \<in> ds_result ` set rs)
       \<and> (fr_action r = fail_action \<longleftrightarrow> ''fail'' \<in> ds_result ` set rs \<and> ''pass'' \<notin> ds_result ` set rs)
       \<and> (fr_action r = fail_action \<or> fr_action r = ActionContinue)"
proof -
  let ?o = "dkim_overall ''none'' rs"
  have r: "recorded = map dkim_verdict rs" "fl_result (fr_log r) = ?o"
    "fr_action r = (if ?o = ''fail'' then fail_action else ActionContinue)"
    using assms by (auto simp: dkim_check_def summarize_dkim_def Let_def split: if_splits)
  have pass: "?o = ''pass'' \<longleftrightarrow> ''pass'' \<in> ds_result ` set rs"
  proof
    assume "''pass'' \<in> ds_result ` set rs"
    from dkim_overall_max [OF this] have "dkim_rank ?o = 5" using dkim_rank_pass(3) [of ?o] by (simp add: dkim_rank_def)
    then show "?o = ''pass''" by (simp add: dkim_rank_pass)
  qed (use dkim_overall_in [of "''none''" rs] in auto)
  have "?o = ''fail'' \<longleftrightarrow> ''fail'' \<in> ds_result ` set rs \<and> ''pass'' \<notin> ds_result ` set rs"
  proof
    assume f: "''fail'' \<in> ds_result ` set rs \<and> ''pass'' \<notin> ds_result ` set rs"
    then have "dkim_rank ''fail'' \<le> dkim_rank ?o" using dkim_overall_max by blast
    moreover have "dkim_rank ?o \<noteq> 5" using f pass by (simp add: dkim_rank_pass)
    ultimately have "dkim_rank ?o = 4" using dkim_rank_pass(3) [of ?o] by (simp add: dkim_rank_def split: if_splits)
    then show "?o = ''fail''" by (simp add: dkim_rank_pass)
  next
    assume "?o = ''fail''"
    then show "''fail'' \<in> ds_result ` set rs \<and> ''pass'' \<notin> ds_result ` set rs"
      using dkim_overall_in [of "''none''" rs] pass by auto
  qed
  with pass r assms(4) show ?thesis by auto
qed

section \<open>What the filters record\<close>

lemma keyword_bytes: "list_all is_lower s \<Longrightarrow> list_all keyword_byte s"
  by (auto simp: list_all_iff keyword_byte_def)

lemma method_keywords:
  "auth_spf \<noteq> [] \<and> list_all keyword_byte auth_spf" "auth_dkim \<noteq> [] \<and> list_all keyword_byte auth_dkim"
  "auth_dmarc \<noteq> [] \<and> list_all keyword_byte auth_dmarc"
  "list_all keyword_byte prop_mail_from" "list_all keyword_byte prop_helo" "list_all keyword_byte prop_header_d"
  "list_all keyword_byte prop_header_from"
  by code_simp+

definition library_keywords :: "spf_library \<Rightarrow> (string \<Rightarrow> dkim_signature_result list) \<Rightarrow> bool" where
  "library_keywords lib dkim_lib \<longleftrightarrow>
     (\<forall>ip h. list_all is_lower (fst (sl_helo lib ip h))) \<and> (\<forall>ip f h. list_all is_lower (fst (sl_mail_from lib ip f h))) \<and>
     (\<forall>raw. list_all (\<lambda>r. list_all is_lower (ds_result r)) (dkim_lib raw))"

lemma spf_evaluate_records:
  assumes "library_keywords lib dkim_lib"
  shows "list_all recordable (fst (spf_evaluate lib ip f h))"
proof -
  have verdict: "recordable (spf_verdict res prop_mail_from d)" "recordable (spf_verdict res prop_helo d)" if "list_all is_lower res" for res d
    using keyword_bytes [OF that] method_keywords by (simp_all add: recordable_def spf_verdict_def)
  have "list_all recordable (fst (spf_helo_part lib ip f h v))" for f h v
    using assms verdict(2) by (simp add: spf_helo_part_def library_keywords_def Let_def)
  moreover have "list_all is_lower ''none''" by code_simp
  then have "list_all is_lower (fst (spf_mail_part lib ip f h u v))" for f h u v
    using assms by (simp add: spf_mail_part_def library_keywords_def)
  ultimately show ?thesis using verdict(1) by (simp add: spf_evaluate_def Let_def)
qed

lemma spf_records:
  assumes "library_keywords lib dkim_lib" "spf_check lib fail_action w auth m = (w', recorded, m', r)"
  shows "list_all recordable recorded"
  using assms(2) spf_evaluate_records [OF assms(1), of "ev_client_ip (em_envelope m)" "ev_mail_from (em_envelope m)" "ev_helo (em_envelope m)"]
  by (cases "spf_evaluate lib (ev_client_ip (em_envelope m)) (ev_mail_from (em_envelope m)) (ev_helo (em_envelope m))")
    (auto simp: spf_check_def Let_def split: if_splits)

lemma dkim_records:
  assumes "library_keywords lib dkim_lib" "dkim_check dkim_lib fail_action w auth m = (w', recorded, m', r)"
  shows "list_all recordable recorded"
proof -
  have "recordable (dkim_verdict r)" if "list_all is_lower (ds_result r)" for r
    using keyword_bytes [OF that] method_keywords by (simp add: recordable_def dkim_verdict_def)
  moreover have "list_all recordable (bare_dkim ''none'')" "list_all recordable (bare_dkim ''neutral'')" by code_simp+
  ultimately show ?thesis using assms
    by (auto simp: dkim_check_def summarize_dkim_def library_keywords_def list_all_iff Let_def split: if_splits)
qed

lemma dmarc_verdict_recordable: "list_all is_lower res \<Longrightarrow> recordable (dmarc_verdict res d)"
  using keyword_bytes method_keywords by (simp add: recordable_def dmarc_verdict_def)

lemma dmarc_apply_recorded:
  assumes "dmarc_apply lib trusted domain p rows auth m = (rows', recorded, m', r)"
  shows "\<exists>res. recorded = [dmarc_verdict res domain] \<and> res \<in> {''pass'', ''fail'', ''temperror''}"
  using assms by (auto simp: dmarc_apply_def Let_def split: if_splits option.splits prod.splits)

lemma dmarc_records:
  assumes "dmarc_check lib trusted rows auth m = (rows', recorded, m', r)"
  shows "list_all recordable recorded"
proof -
  have kw: "list_all is_lower ''pass''" "list_all is_lower ''fail''" "list_all is_lower ''temperror''" "list_all is_lower ''none''"
    by code_simp+
  have "list_all recordable rec" if "dmarc_apply lib trusted domain p rows auth m = (rows', rec, m', r)" for domain p rec
    using dmarc_apply_recorded [OF that] kw dmarc_verdict_recordable by auto
  with assms kw dmarc_verdict_recordable show ?thesis
    by (auto simp: dmarc_check_def split: list.splits option.splits if_splits)
qed

text \<open>
  C40: every verdict the SPF, DKIM and DMARC filters record is one the Authentication-Results field can
  carry: method, property and result are keywords whatever the message says, and only the domain is
  text the sender can choose; given that the SPF and DKIM libraries name their results by keywords.
\<close>

theorem filters_record_verdicts:
  assumes "library_keywords spf_lib dkim_lib"
    and "spf_check spf_lib spf_action w auth m = (w1, spf_recorded, m1, r1)"
    and "dkim_check dkim_lib dkim_action w auth' m' = (w2, dkim_recorded, m2, r2)"
    and "dmarc_check dmarc_lib trusted rows auth'' m'' = (rows', dmarc_recorded, m3, r3)"
  shows "list_all recordable (spf_recorded @ dkim_recorded @ dmarc_recorded)"
  using spf_records [OF assms(1,2)] dkim_records [OF assms(1,3)] dmarc_records [OF assms(4)] by simp

section \<open>A forged sender\<close>

definition strict_library :: dmarc_library where
  "strict_library =
     \<lparr>dl_to_ascii = Some,
      dl_discover = (\<lambda>d. Some \<lparr>dp_raw = ''v=DMARC1; p=reject'', dp_requested = ''reject'', dp_applied = ''reject'',
        dp_aspf_strict = False, dp_adkim_strict = False\<rparr>),
      dl_aligned_mode = (\<lambda>a b strict. Inr (a = b))\<rparr>"

definition other_auth :: auth_results where
  "other_auth = Some [\<lparr>ar_method = auth_dkim, ar_result = ''pass'', ar_property = prop_header_d,
     ar_domain = ''other.test'', ar_selector = []\<rparr>]"

lemma strict_dns: "\<not> isl (dmarc_aligned (dl_to_ascii strict_library) (dl_aligned_mode strict_library) d domain strict)"
  by (simp add: dmarc_aligned_def strict_library_def split: option.splits)


definition two_signatures :: "string \<Rightarrow> dkim_signature_result list" where
  "two_signatures raw =
     [\<lparr>ds_result = ''fail'', ds_domain = ''list.test'', ds_selector = ''s'', ds_reason = ''body hash''\<rparr>,
      \<lparr>ds_result = ''pass'', ds_domain = ''there.test'', ds_selector = ''s'', ds_reason = ''ok''\<rparr>]"

definition raw_email :: email where
  "raw_email = sample_email\<lparr>em_metadata := [(''raw_message'', ''Subject: hi'')]\<rparr>"

theorem dkim_strongest_signature_counts_witness:
  "\<exists>recorded m' r. dkim_check two_signatures ActionReject () None raw_email = ((), recorded, m', Inr r)
     \<and> fl_result (fr_log r) = ''pass'' \<and> fr_action r = ActionContinue"
proof -
  obtain w recorded m' x where run: "dkim_check two_signatures ActionReject () None raw_email = (w, recorded, m', x)"
    by (metis prod_cases4)
  have "isl (snd (snd (snd (dkim_check two_signatures ActionReject () None raw_email)))) = False" by code_simp
  with run obtain r where "x = Inr r" by (cases x) auto
  with run have d: "dkim_check two_signatures ActionReject () None raw_email = ((), recorded, m', Inr r)" by simp
  have m: "lookup (em_metadata raw_email) ''raw_message'' \<noteq> []" by code_simp
  from dkim_strongest_signature_counts [OF m refl _ _ d] d show ?thesis by (auto simp: two_signatures_def)
qed

definition plain_spf :: spf_library where
  "plain_spf = \<lparr>sl_to_ascii = Some, sl_helo = (\<lambda>ip h. (''none'', [])), sl_mail_from = (\<lambda>ip f h. (''pass'', ''mx''))\<rparr>"

lemma plain_keywords: "library_keywords plain_spf two_signatures"
  by (auto simp: library_keywords_def plain_spf_def two_signatures_def is_lower_def)

theorem filters_record_verdicts_witness:
  "\<exists>spf_recorded dkim_recorded dmarc_recorded. spf_recorded \<noteq> [] \<and>
     list_all recordable (spf_recorded @ dkim_recorded @ dmarc_recorded)"
proof -
  obtain w1 a m1 r1 where spf: "spf_check plain_spf ActionContinue () None sample_email = (w1, a, m1, r1)" by (metis prod_cases4)
  obtain w2 b m2 r2 where dkim: "dkim_check two_signatures ActionContinue () None raw_email = (w2, b, m2, r2)" by (metis prod_cases4)
  obtain rows c m3 r3 where dmarc: "dmarc_check strict_library [] None other_auth sample_email = (rows, c, m3, r3)" by (metis prod_cases4)
  have "fst (snd (spf_check plain_spf ActionContinue () None sample_email)) \<noteq> []" by code_simp
  then have "a \<noteq> []" using spf by simp
  with filters_record_verdicts [OF plain_keywords spf dkim dmarc] show ?thesis by blast
qed

end
