(* ===== verification/Pipeline_Greylist.thy ===== *)
theory Pipeline_Greylist
  imports Pipeline_Filters
begin

text \<open>
  Greylisting: the greylist filter, \<^verbatim>\<open>internal/pipeline/filters/greylist.go\<close>, and the worker that clears its
  table, \<^verbatim>\<open>internal/greylist/purger.go\<close>. The unique index on sender, recipient and address makes the table a
  map from such a triple to its entry, and an update by id an update of that entry. \<open>gf_lookup\<close> and
  \<open>gf_write\<close> are errors of the database; a lookup that finds nothing is no error. The texts of times in the
  log details are left out.
\<close>

section \<open>The filter\<close>

definition default_greylist_ttl_days :: int where "default_greylist_ttl_days = 36"

record greylist_config =
  gl_delay_minutes :: int
  gl_ttl_days :: int
  gl_whitelist_after_pass :: bool

definition default_greylist :: greylist_config where
  "default_greylist =
     \<lparr>gl_delay_minutes = 5, gl_ttl_days = default_greylist_ttl_days, gl_whitelist_after_pass = True\<rparr>"

definition new_greylist :: "greylist_config \<Rightarrow> greylist_config" where
  "new_greylist decoded =
     (if gl_ttl_days decoded \<le> 0 then decoded\<lparr>gl_ttl_days := default_greylist_ttl_days\<rparr> else decoded)"

definition greylist_ttl :: "greylist_config \<Rightarrow> duration" where
  "greylist_ttl cfg = int64 (int64 (gl_ttl_days cfg * 24) * hour)"

definition greylist_delay :: "greylist_config \<Rightarrow> duration" where
  "greylist_delay cfg = int64 (gl_delay_minutes cfg * minute)"

record greylist_entry =
  ge_first_seen :: time
  ge_retry_after :: time
  ge_passed :: bool
  ge_expires_at :: time

type_synonym triple = "string \<times> string \<times> string"
type_synonym greylist_table = "triple \<rightharpoonup> greylist_entry"

record greylist_fault =
  gf_lookup :: "string option"
  gf_write :: "string option"

definition no_fault :: greylist_fault where "no_fault = \<lparr>gf_lookup = None, gf_write = None\<rparr>"

definition greylist_result :: "action \<Rightarrow> string \<Rightarrow> string \<Rightarrow> filter_result" where
  "greylist_result act result detail = result_of act [] [] ''greylist'' result detail"

definition fresh_entry :: "greylist_config \<Rightarrow> time \<Rightarrow> greylist_entry" where
  "fresh_entry cfg now =
     \<lparr>ge_first_seen = now, ge_retry_after = now + greylist_delay cfg, ge_passed = False,
      ge_expires_at = now + greylist_ttl cfg\<rparr>"

text \<open>A change of the table that may fail, and the answer when it does not.\<close>

definition after_write ::
  "greylist_fault \<Rightarrow> string \<Rightarrow> greylist_table \<Rightarrow> greylist_table \<Rightarrow> filter_result \<Rightarrow> greylist_table \<times> (string + filter_result)" where
  "after_write fault what table table' r =
     (case gf_write fault of Some e \<Rightarrow> (table, Inl (what @ '': '' @ e)) | None \<Rightarrow> (table', Inr r))"

definition defer_new :: "greylist_config \<Rightarrow> greylist_fault \<Rightarrow> triple \<Rightarrow> time \<Rightarrow> greylist_table \<Rightarrow> greylist_table \<times> (string + filter_result)" where
  "defer_new cfg fault tr now table =
     after_write fault ''greylist create entry'' table (table(tr \<mapsto> fresh_entry cfg now))
       (greylist_result ActionDefer ''defer'' ''first attempt, retry after'')"

definition re_greylist ::
  "greylist_config \<Rightarrow> greylist_fault \<Rightarrow> triple \<Rightarrow> time \<Rightarrow> string \<Rightarrow> greylist_table \<Rightarrow> greylist_table \<times> (string + filter_result)" where
  "re_greylist cfg fault tr now reason table =
     after_write fault ''greylist re-greylist entry'' table (table(tr \<mapsto> fresh_entry cfg now))
       (greylist_result ActionDefer ''defer'' (reason @ '', re-greylisting, retry after''))"

definition triple_of :: "email \<Rightarrow> triple" where
  "triple_of m =
     (ev_mail_from (em_envelope m),
      case ev_rcpt_to (em_envelope m) of [] \<Rightarrow> [] | r # _ \<Rightarrow> r,
      ev_client_ip (em_envelope m))"

definition exempt :: "email \<Rightarrow> bool" where
  "exempt m \<longleftrightarrow> ev_mail_from (em_envelope m) = [] \<or> ev_client_ip (em_envelope m) = []"

definition greylist ::
  "greylist_config \<Rightarrow> greylist_fault \<Rightarrow> time \<Rightarrow> greylist_table \<Rightarrow> email \<Rightarrow> greylist_table \<times> (string + filter_result)" where
  "greylist cfg fault now table m =
     (if exempt m then (table, Inr (continue_result ''greylist'' ''no sender or client IP''))
      else
        (let tr = triple_of m in
         case gf_lookup fault of
           Some e \<Rightarrow> (table, Inl (''greylist lookup: '' @ e))
         | None \<Rightarrow>
             (case table tr of
                None \<Rightarrow> defer_new cfg fault tr now table
              | Some entry \<Rightarrow>
                  if ge_expires_at entry < now then re_greylist cfg fault tr now ''whitelist expired'' table
                  else if ge_passed entry then
                    (table, Inr (greylist_result ActionContinue ''pass'' ''previously passed greylisting''))
                  else if now < ge_retry_after entry then
                    (table, Inr (greylist_result ActionDefer ''defer'' ''retry too early, wait until''))
                  else if gl_whitelist_after_pass cfg then
                    after_write fault ''greylist mark passed'' table
                      (table(tr \<mapsto> entry\<lparr>ge_passed := True, ge_expires_at := now + greylist_ttl cfg\<rparr>))
                      (greylist_result ActionContinue ''pass'' ''greylist delay satisfied'')
                  else
                    after_write fault ''greylist clear entry'' table (table(tr := None))
                      (greylist_result ActionContinue ''pass'' ''greylist delay satisfied''))))"

definition purge_once :: "time \<Rightarrow> greylist_table \<Rightarrow> greylist_table" where
  "purge_once now table =
     (\<lambda>tr. case table tr of None \<Rightarrow> None | Some e \<Rightarrow> if ge_expires_at e < now then None else Some e)"

section \<open>A mail server at work\<close>

text \<open>
  The table, the clock and, for the record, when each triple's messages were put off. A message arrives
  or the worker runs, the clock not going back.
\<close>

record grey_state =
  gs_table :: greylist_table
  gs_clock :: time
  gs_deferred :: "(triple \<times> time) set"

definition action_of :: "string + filter_result \<Rightarrow> action option" where
  "action_of r = (case r of Inl _ \<Rightarrow> None | Inr x \<Rightarrow> Some (fr_action x))"

inductive grey_step :: "greylist_config \<Rightarrow> grey_state \<Rightarrow> grey_state \<Rightarrow> bool" for cfg where
  message: "gs_clock s \<le> now \<Longrightarrow> greylist cfg fault now (gs_table s) m = (table, r) \<Longrightarrow>
    grey_step cfg s \<lparr>gs_table = table, gs_clock = now,
      gs_deferred = (if action_of r = Some ActionDefer then insert (triple_of m, now) (gs_deferred s) else gs_deferred s)\<rparr>"
| purge: "gs_clock s \<le> now \<Longrightarrow>
    grey_step cfg s (s\<lparr>gs_table := purge_once now (gs_table s), gs_clock := now\<rparr>)"

definition grey_start :: "grey_state \<Rightarrow> bool" where
  "grey_start s \<longleftrightarrow> gs_table s = Map.empty \<and> gs_deferred s = {}"

definition entry_ok :: "greylist_config \<Rightarrow> grey_state \<Rightarrow> triple \<Rightarrow> greylist_entry \<Rightarrow> bool" where
  "entry_ok cfg s tr e \<longleftrightarrow>
     (tr, ge_first_seen e) \<in> gs_deferred s \<and> ge_first_seen e \<le> gs_clock s \<and>
     ge_retry_after e = ge_first_seen e + greylist_delay cfg \<and>
     (if ge_passed e then ge_retry_after e \<le> gs_clock s else ge_expires_at e = ge_first_seen e + greylist_ttl cfg)"

definition grey_ok :: "greylist_config \<Rightarrow> grey_state \<Rightarrow> bool" where
  "grey_ok cfg s \<longleftrightarrow> (\<forall>tr e. gs_table s tr = Some e \<longrightarrow> entry_ok cfg s tr e)"

lemma grey_okD: "grey_ok cfg s \<Longrightarrow> gs_table s tr = Some e \<Longrightarrow> entry_ok cfg s tr e"
  unfolding grey_ok_def by blast

lemma grey_okI: "(\<And>tr e. gs_table s tr = Some e \<Longrightarrow> entry_ok cfg s tr e) \<Longrightarrow> grey_ok cfg s"
  unfolding grey_ok_def by blast

lemma entry_ok_later:
  "entry_ok cfg s tr e \<Longrightarrow> gs_clock s \<le> gs_clock t \<Longrightarrow> gs_deferred s \<subseteq> gs_deferred t \<Longrightarrow> entry_ok cfg t tr e"
  by (auto simp: entry_ok_def split: if_splits)

lemma greylist_cases:
  assumes "greylist cfg fault now table m = (table', r)"
  obtains (same) "table' = table" "action_of r \<noteq> Some ActionContinue"
  | (exempt) "exempt m" "table' = table"
  | (fresh) "table' = table(triple_of m \<mapsto> fresh_entry cfg now)" "action_of r = Some ActionDefer"
  | (known) e where "table (triple_of m) = Some e" "ge_passed e" "now \<le> ge_expires_at e" "table' = table"
  | (passes) e where "table (triple_of m) = Some e" "\<not> ge_passed e" "ge_retry_after e \<le> now" "now \<le> ge_expires_at e"
      "table' = table(triple_of m \<mapsto> e\<lparr>ge_passed := True, ge_expires_at := now + greylist_ttl cfg\<rparr>)"
  | (strict) e where "table (triple_of m) = Some e" "\<not> ge_passed e" "ge_retry_after e \<le> now" "now \<le> ge_expires_at e"
      "table' = table(triple_of m := None)"
proof -
  have "table' = table \<and> action_of r \<noteq> Some ActionContinue \<or> exempt m \<and> table' = table \<or>
      table' = table(triple_of m \<mapsto> fresh_entry cfg now) \<and> action_of r = Some ActionDefer \<or>
      (\<exists>e. table (triple_of m) = Some e \<and> ge_passed e \<and> now \<le> ge_expires_at e \<and> table' = table) \<or>
      (\<exists>e. table (triple_of m) = Some e \<and> \<not> ge_passed e \<and> ge_retry_after e \<le> now \<and> now \<le> ge_expires_at e \<and>
        (table' = table(triple_of m \<mapsto> e\<lparr>ge_passed := True, ge_expires_at := now + greylist_ttl cfg\<rparr>) \<or>
         table' = table(triple_of m := None)))"
    using assms
    by (auto simp: greylist_def after_write_def defer_new_def re_greylist_def greylist_result_def action_of_def Let_def
        split: if_splits option.splits)
  then show thesis using that by blast
qed

lemma grey_step_ok: "grey_step cfg s t \<Longrightarrow> grey_ok cfg s \<Longrightarrow> grey_ok cfg t"
proof (induction rule: grey_step.induct)
  case (message s now fault m table r)
  let ?t = "\<lparr>gs_table = table, gs_clock = now,
      gs_deferred = (if action_of r = Some ActionDefer then insert (triple_of m, now) (gs_deferred s) else gs_deferred s)\<rparr>"
  have old: "entry_ok cfg ?t tr e" if "gs_table s tr = Some e" for tr e
    using entry_ok_later [OF grey_okD [OF message(3) that], of ?t] message(1) by (simp add: subset_insertI)
  from message(2) show ?case
  proof (cases rule: greylist_cases)
    case fresh
    then have "entry_ok cfg ?t (triple_of m) (fresh_entry cfg now)" by (simp add: entry_ok_def fresh_entry_def)
    with old fresh show ?thesis by (intro grey_okI) (auto split: if_splits)
  next
    case (passes e)
    with old [OF passes(1)] have "entry_ok cfg ?t (triple_of m) (e\<lparr>ge_passed := True, ge_expires_at := now + greylist_ttl cfg\<rparr>)"
      by (simp add: entry_ok_def)
    with old passes show ?thesis by (intro grey_okI) (auto split: if_splits)
  next
    case (strict e)
    with old show ?thesis by (intro grey_okI) (auto split: if_splits)
  qed (use old in \<open>auto intro: grey_okI\<close>)
next
  case (purge s now)
  have "gs_table s tr = Some e" if "purge_once now (gs_table s) tr = Some e" for tr e
    using that by (auto simp: purge_once_def split: option.splits if_splits)
  moreover have "entry_ok cfg (s\<lparr>gs_table := purge_once now (gs_table s), gs_clock := now\<rparr>) tr e" if "gs_table s tr = Some e" for tr e
    using entry_ok_later [OF grey_okD [OF purge(2) that]] purge(1) by simp
  ultimately show ?case by (intro grey_okI) simp
qed

interpretation greylisting: invariant_system grey_start "grey_step cfg" "grey_ok cfg" for cfg
  by unfold_locales (auto simp: grey_start_def intro: grey_step_ok grey_okI)

text \<open>
  Greylisting works as it should from an empty table on, through any arrivals and any runs of the
  worker. A message that has a sender and a client address is let on only when a message of the same
  sender, recipient and address was put off before, at least the configured delay ago. And one that is
  put off is not put off for good: it leaves an entry whose time to retry is at most the delay away, and
  from that time until the entry expires a retry is let on.
\<close>

theorem greylist_needs_retry:
  assumes "reach grey_start (grey_step cfg) s" "gs_clock s \<le> now" "greylist cfg fault now (gs_table s) m = (table, r)"
  shows "(action_of r = Some ActionContinue \<and> \<not> exempt m \<longrightarrow>
      (\<exists>t. (triple_of m, t) \<in> gs_deferred s \<and> t + greylist_delay cfg \<le> now))
    \<and> (action_of r = Some ActionDefer \<longrightarrow>
      (\<exists>e. table (triple_of m) = Some e \<and> ge_retry_after e \<le> now + greylist_delay cfg \<and>
         (\<forall>later m'. triple_of m' = triple_of m \<and> now \<le> later \<and> ge_retry_after e \<le> later \<and> later \<le> ge_expires_at e \<longrightarrow>
            action_of (snd (greylist cfg no_fault later table m')) = Some ActionContinue)))"
proof (intro conjI impI)
  have ok: "grey_ok cfg s" by (rule greylisting.reach_inv [OF assms(1)])
  assume a: "action_of r = Some ActionContinue \<and> \<not> exempt m"
  from assms(3) show "\<exists>t. (triple_of m, t) \<in> gs_deferred s \<and> t + greylist_delay cfg \<le> now"
    by (cases rule: greylist_cases)
      (use a assms(2) in \<open>auto dest!: grey_okD [OF ok] simp: entry_ok_def intro!: exI\<close>)
next
  have ok: "grey_ok cfg s" by (rule greylisting.reach_inv [OF assms(1)])
  assume a: "action_of r = Some ActionDefer"
  have "\<exists>e. table (triple_of m) = Some e \<and> \<not> ge_passed e \<and> ge_retry_after e \<le> now + greylist_delay cfg"
  proof (cases "gs_table s (triple_of m)")
    case None
    with a assms(3) show ?thesis
      by (auto simp: greylist_def after_write_def defer_new_def fresh_entry_def continue_result_def action_of_def Let_def
          split: if_splits option.splits)
  next
    case (Some e)
    with ok have "entry_ok cfg s (triple_of m) e" by (rule grey_okD)
    with a assms(2,3) Some show ?thesis
      by (auto simp: greylist_def after_write_def re_greylist_def fresh_entry_def continue_result_def greylist_result_def
          action_of_def entry_ok_def Let_def split: if_splits option.splits)
  qed
  then obtain e where e: "table (triple_of m) = Some e" "\<not> ge_passed e" "ge_retry_after e \<le> now + greylist_delay cfg" by blast
  have "action_of (snd (greylist cfg no_fault later table m')) = Some ActionContinue"
    if "triple_of m' = triple_of m" "ge_retry_after e \<le> later" "later \<le> ge_expires_at e" for later m'
    using that e by (auto simp: greylist_def no_fault_def after_write_def greylist_result_def continue_result_def action_of_def Let_def)
  with e show "\<exists>e. table (triple_of m) = Some e \<and> ge_retry_after e \<le> now + greylist_delay cfg \<and>
         (\<forall>later m'. triple_of m' = triple_of m \<and> now \<le> later \<and> ge_retry_after e \<le> later \<and> later \<le> ge_expires_at e \<longrightarrow>
            action_of (snd (greylist cfg no_fault later table m')) = Some ActionContinue)"
    by blast
qed

definition empty_greylist :: grey_state where
  "empty_greylist = \<lparr>gs_table = Map.empty, gs_clock = 0, gs_deferred = {}\<rparr>"

theorem greylist_needs_retry_witness:
  "action_of (snd (greylist default_greylist no_fault 0 Map.empty sample_email)) = Some ActionDefer \<and>
   action_of (snd (greylist default_greylist no_fault (5 * minute)
     (fst (greylist default_greylist no_fault 0 Map.empty sample_email)) sample_email)) = Some ActionContinue"
proof -
  have start: "reach grey_start (grey_step default_greylist) empty_greylist"
    by (rule reach_start) (simp add: grey_start_def empty_greylist_def)
  have m: "\<not> exempt sample_email" by (simp add: exempt_def sample_email_def)
  let ?r = "greylist default_greylist no_fault 0 (gs_table empty_greylist) sample_email"
  have table: "fst ?r = [triple_of sample_email \<mapsto> fresh_entry default_greylist 0]" and d: "action_of (snd ?r) = Some ActionDefer"
    using m by (simp_all add: greylist_def no_fault_def empty_greylist_def defer_new_def after_write_def greylist_result_def action_of_def)
  have "greylist default_greylist no_fault 0 (gs_table empty_greylist) sample_email = (fst ?r, snd ?r)" by simp
  from greylist_needs_retry [OF start _ this] d obtain e where e: "fst ?r (triple_of sample_email) = Some e"
      "\<forall>later m'. triple_of m' = triple_of sample_email \<and> 0 \<le> later \<and> ge_retry_after e \<le> later \<and> later \<le> ge_expires_at e \<longrightarrow>
        action_of (snd (greylist default_greylist no_fault later (fst ?r) m')) = Some ActionContinue"
    by (auto simp: empty_greylist_def)
  then have "e = fresh_entry default_greylist 0" by (simp add: table)
  moreover have "greylist_delay default_greylist = 5 * minute" "5 * minute \<le> greylist_ttl default_greylist" "0 \<le> 5 * minute"
    by (simp_all add: greylist_delay_def greylist_ttl_def default_greylist_def default_greylist_ttl_days_def duration_defs int64_def)
  ultimately show ?thesis using e(2) d by (simp add: fresh_entry_def empty_greylist_def)
qed

end
