(* ===== verification/Rate_Limits.thy ===== *)
theory Rate_Limits
  imports Pipeline_Filters
begin

text \<open>
  Counting submissions in windows of time: the per-account limiter of the submission ports and of the
  send API, \<^verbatim>\<open>internal/ratelimit/submission.go\<close>, and the rate_limit filter of the outbound pipeline,
  \<^verbatim>\<open>internal/pipeline/filters/rate_limit.go\<close>. Both keep, for each key, a count and the time the window
  ends; the locale \<open>window_counter\<close> is what they have in common and what a sender can get out of it.

  The map of windows is a partial function. Counts are \<open>int\<close>s: a window ends long before a count could
  reach \<open>2 ^ 63\<close>. The mutex makes each call one step; the clock is an argument, and calls are taken in
  the order of their times, as the monotonic clock gives them.
\<close>

section \<open>Windows\<close>

definition tick :: "duration \<Rightarrow> (int \<times> time) option \<Rightarrow> time \<Rightarrow> int \<times> time" where
  "tick width b now =
     (case b of
        None \<Rightarrow> (1, now + width)
      | Some (c, r) \<Rightarrow> if r < now then (1, now + width) else (c + 1, r))"

text \<open>
  A limiter with a counter per key: a call counts itself in its own key's window, or is refused and
  leaves the window alone; it is granted only as the first of a window or within the cap.
\<close>

locale window_counter =
  fixes call :: "'s \<Rightarrow> 'k \<Rightarrow> time \<Rightarrow> 's \<times> bool"
    and bucket :: "'s \<Rightarrow> 'k \<Rightarrow> (int \<times> time) option"
    and width :: duration and cap :: int
  assumes counts: "bucket (fst (call s k now)) k = Some (tick width (bucket s k) now) \<or>
      bucket (fst (call s k now)) k = bucket s k \<and> \<not> snd (call s k now)"
    and others: "k' \<noteq> k \<Longrightarrow> bucket (fst (call s k now)) k' = bucket s k'"
    and granted: "snd (call s k now) \<Longrightarrow> fst (tick width (bucket s k) now) \<le> max 1 cap"
begin

text \<open>The calls in turn, and what each was answered.\<close>

fun answers :: "'s \<Rightarrow> ('k \<times> time) list \<Rightarrow> bool list" where
  "answers s [] = []"
| "answers s ((k, now) # cs) = (case call s k now of (s', ok) \<Rightarrow> ok # answers s' cs)"

fun grants :: "'s \<Rightarrow> ('k \<times> time) list \<Rightarrow> 'k \<Rightarrow> time \<Rightarrow> nat" where
  "grants s [] k until = 0"
| "grants s ((k', now) # cs) k until =
     (case call s k' now of
        (s', ok) \<Rightarrow> (if ok \<and> k' = k \<and> now \<le> until then 1 else 0) + grants s' cs k until)"

lemma grants_count:
  "grants s cs k until =
     length (filter (\<lambda>((k', now), ok). ok \<and> k' = k \<and> now \<le> until) (zip cs (answers s cs)))"
  by (induction s cs k until rule: grants.induct) (auto split: prod.split)

lemma grants_late: "\<forall>c \<in> set cs. until < snd c \<Longrightarrow> grants s cs k until = 0"
  by (induction cs arbitrary: s) (auto split: prod.splits)

text \<open>The rest of a window, a window not yet open, and from any state.\<close>

lemma grants_inside:
  "sorted (map snd cs) \<Longrightarrow> bucket s k = Some (c, r) \<Longrightarrow> until \<le> r \<Longrightarrow> int (grants s cs k until) \<le> max 0 (max 1 cap - c)"
proof (induction cs arbitrary: s c)
  case (Cons x cs)
  obtain k' now where x: "x = (k', now)" by (cases x)
  obtain s' ok where call: "call s k' now = (s', ok)" by (cases "call s k' now")
  show ?case
  proof (cases "k' = k \<and> now \<le> until")
    case False
    show ?thesis
    proof (cases "k' = k")
      case True
      with False have "until < now" by simp
      with Cons(2) x have "\<forall>c \<in> set cs. until < snd c" by fastforce
      with True False show ?thesis by (simp add: x call grants_late)
    next
      case other: False
      then have "bucket s' k = Some (c, r)" using others [of k k' s now] Cons(3) call by simp
      with Cons x call other show ?thesis by simp
    qed
  next
    case True
    then have "now \<le> r" using Cons(4) by simp
    with Cons(3) have t: "tick width (bucket s k) now = (c + 1, r)" by (simp add: tick_def)
    have IH: "int (grants s' cs k until) \<le> max 0 (max 1 cap - d)" if "bucket s' k = Some (d, r)" for d
      using Cons that x by simp
    consider "bucket s' k = Some (c + 1, r)" | "bucket s' k = Some (c, r)" "\<not> ok"
      using counts [of s k now] True call t Cons(3) by auto
    then show ?thesis
    proof cases
      case 1
      have "ok \<Longrightarrow> c + 1 \<le> max 1 cap" using granted [of s k now] True call t by simp
      with IH [OF 1] show ?thesis using call by (auto simp: x)
    next
      case 2
      with IH [OF 2(1)] show ?thesis by (simp add: x call)
    qed
  qed
qed simp

lemma grants_fresh:
  "sorted (map snd cs) \<Longrightarrow> \<forall>c \<in> set cs. start \<le> snd c \<and> (\<forall>d r. bucket s k = Some (d, r) \<longrightarrow> r < snd c) \<Longrightarrow>
   until \<le> start + width \<Longrightarrow> int (grants s cs k until) \<le> max 1 cap"
proof (induction cs arbitrary: s)
  case (Cons x cs)
  obtain k' now where x: "x = (k', now)" by (cases x)
  obtain s' ok where call: "call s k' now = (s', ok)" by (cases "call s k' now")
  have t: "tick width (bucket s k) now = (1, now + width)"
    using Cons(3) x by (auto simp: tick_def split: option.split)
  consider "k' = k" "bucket s' k = Some (1, now + width)" | "\<not> (ok \<and> k' = k)" "bucket s' k = bucket s k"
    using counts [of s k now] others [of k k' s now] call t by (cases "k' = k") auto
  then show ?case
  proof cases
    case 1
    have "until \<le> now + width" using Cons(3,4) x by force
    then have "int (grants s' cs k until) \<le> max 0 (max 1 cap - 1)"
      using grants_inside [OF _ 1(2)] Cons(2) by simp
    then show ?thesis by (auto simp: x call)
  next
    case 2
    with Cons(1) [of s'] Cons(2-4) show ?thesis by (auto simp: x call)
  qed
qed simp

lemma grants_open:
  assumes "sorted (map snd cs)" "\<forall>c \<in> set cs. start \<le> snd c" "until \<le> start + width" "bucket s k = Some (c, r)"
  shows "int (grants s cs k until) \<le> max 0 (max 1 cap - c) + max 1 cap"
  using assms
proof (induction cs arbitrary: s c)
  case (Cons x cs)
  obtain k' now where x: "x = (k', now)" by (cases x)
  obtain s' ok where call: "call s k' now = (s', ok)" by (cases "call s k' now")
  have IH: "int (grants s' cs k until) \<le> max 0 (max 1 cap - d) + max 1 cap" if "bucket s' k = Some (d, r)" for d
    using Cons that by simp
  consider "k' \<noteq> k" | "k' = k" "r < now" | "k' = k" "now \<le> r" by linarith
  then show ?case
  proof cases
    case 1
    then have "bucket s' k = Some (c, r)" using others [of k k' s now] Cons(5) call by simp
    from IH [OF this] 1 show ?thesis by (simp add: x call)
  next
    case 2
    have "\<forall>d \<in> set (x # cs). start \<le> snd d \<and> (\<forall>c r. bucket s k = Some (c, r) \<longrightarrow> r < snd d)"
      using Cons(2,3,5) x 2 by fastforce
    from grants_fresh [OF Cons(2) this Cons(4)] show ?thesis by simp
  next
    case 3
    with Cons(5) have t: "tick width (bucket s k) now = (c + 1, r)" by (simp add: tick_def)
    consider "bucket s' k = Some (c + 1, r)" | "bucket s' k = Some (c, r)" "\<not> ok"
      using counts [of s k now] 3 call t Cons(5) by auto
    then show ?thesis
    proof cases
      case 1
      have "ok \<Longrightarrow> c + 1 \<le> max 1 cap" using granted [of s k now] 3 call t by simp
      with IH [OF 1] show ?thesis using call by (auto simp: x)
    next
      case 2
      with IH [OF 2(1)] show ?thesis by (simp add: x call)
    qed
  qed
qed simp

text \<open>However the calls fall, a stretch of time as long as the window holds fewer than two caps of grants.\<close>

lemma grants_bound:
  assumes "sorted (map snd cs)" "\<forall>c \<in> set cs. start \<le> snd c" "until \<le> start + width"
    and "\<forall>c r. bucket s k = Some (c, r) \<longrightarrow> 1 \<le> c"
  shows "int (grants s cs k until) < 2 * max 1 cap"
proof (cases "bucket s k")
  case None
  with assms grants_fresh [of cs start s k until] show ?thesis by simp
next
  case (Some b)
  obtain c r where b: "bucket s k = Some (c, r)" using Some by (cases b) simp
  with assms grants_open [OF assms(1-3) b] show ?thesis by simp
qed

text \<open>A count never runs ahead of the calls made since its window opened.\<close>

definition counted :: "('k \<times> time) list \<Rightarrow> 's \<Rightarrow> bool" where
  "counted past s \<longleftrightarrow>
     (\<forall>k c r. bucket s k = Some (c, r) \<longrightarrow>
        1 \<le> c \<and> c \<le> int (length (filter (\<lambda>x. fst x = k \<and> r - width \<le> snd x) past)))"

lemma countedD:
  "counted past s \<Longrightarrow> bucket s k = Some (c, r) \<Longrightarrow>
     1 \<le> c \<and> c \<le> int (length (filter (\<lambda>x. fst x = k \<and> r - width \<le> snd x) past))"
  by (simp add: counted_def)

lemma counted_call:
  assumes "counted past s" "\<forall>x \<in> set past. snd x \<le> now" "0 \<le> width"
  shows "counted (past @ [(k, now)]) (fst (call s k now))"
proof -
  have "1 \<le> c \<and> c \<le> int (length (filter (\<lambda>x. fst x = l \<and> r - width \<le> snd x) (past @ [(k, now)])))"
    if b: "bucket (fst (call s k now)) l = Some (c, r)" for l c r
  proof (cases "bucket (fst (call s k now)) l = bucket s l")
    case True
    with assms(1) b have "1 \<le> c \<and> c \<le> int (length (filter (\<lambda>x. fst x = l \<and> r - width \<le> snd x) past))"
      by (simp add: counted_def)
    then show ?thesis by (simp only: filter_append length_append of_nat_add) simp
  next
    case False
    then have l: "l = k" using others [of l k s now] by auto
    with False b counts [of s k now] have t: "tick width (bucket s k) now = (c, r)" by auto
    show ?thesis
    proof (cases "\<exists>d q. bucket s k = Some (d, q) \<and> now \<le> q")
      case True
      then obtain d q where d: "bucket s k = Some (d, q)" "now \<le> q" by auto
      with t have cr: "c = d + 1" "r = q" by (auto simp: tick_def split: if_splits)
      have d1: "1 \<le> d" "d \<le> int (length (filter (\<lambda>x. fst x = k \<and> q - width \<le> snd x) past))"
        using assms(1) d by (simp_all add: counted_def)
      then have "filter (\<lambda>x. fst x = k \<and> q - width \<le> snd x) past \<noteq> []" by auto
      then obtain x where "x \<in> set past" "q - width \<le> snd x" by (auto simp: filter_empty_conv)
      with assms(2) have "q - width \<le> now" by fastforce
      with cr d1 l show ?thesis by simp
    next
      case False
      with t have "c = 1" "r = now + width" by (auto simp: tick_def split: option.splits if_splits)
      with l show ?thesis by simp
    qed
  qed
  then show ?thesis by (simp add: counted_def)
qed

fun after :: "'s \<Rightarrow> ('k \<times> time) list \<Rightarrow> 's" where
  "after s [] = s"
| "after s ((k, now) # cs) = after (fst (call s k now)) cs"

lemma answers_append: "answers s (xs @ ys) = answers s xs @ answers (after s xs) ys"
  by (induction s xs rule: after.induct) (simp_all add: split_beta)

lemma length_answers [simp]: "length (answers s cs) = length cs"
  by (induction cs arbitrary: s) (auto split: prod.split)

lemma counted_after:
  "counted past s \<Longrightarrow> sorted (map snd (past @ cs)) \<Longrightarrow> 0 \<le> width \<Longrightarrow> counted (past @ cs) (after s cs)"
proof (induction cs arbitrary: past s)
  case (Cons x cs)
  obtain k now where x: "x = (k, now)" by (cases x)
  have "\<forall>y \<in> set past. snd y \<le> now" using Cons(3) x by (auto simp: sorted_append)
  with Cons(2,4) have "counted (past @ [x]) (fst (call s k now))" by (simp add: x counted_call)
  with Cons(1) [of "past @ [x]"] Cons(3,4) show ?case by (simp add: x)
qed simp

lemma counted_start: "\<forall>k. bucket s k = None \<Longrightarrow> counted [] s"
  by (simp add: counted_def)

lemma rate_bound:
  assumes "\<forall>k. bucket s k = None" "sorted (map snd cs)" "0 \<le> width"
  shows "int (length (filter (\<lambda>((k', now), ok). ok \<and> k' = k \<and> t \<le> now \<and> now \<le> t + width)
      (zip cs (answers s cs)))) < 2 * max 1 cap"
proof -
  let ?p = "takeWhile (\<lambda>c. snd c < t) cs" and ?q = "dropWhile (\<lambda>c. snd c < t) cs"
  let ?in = "\<lambda>((k', now), ok). ok \<and> k' = k \<and> t \<le> now \<and> now \<le> t + width"
  have cs: "cs = ?p @ ?q" by simp
  have sq: "sorted (map snd ?q)" "sorted (map snd (?p @ ?q))"
    using assms(2) cs by (metis map_append sorted_append, simp)
  have "\<forall>c \<in> set ?q. t \<le> snd c"
  proof (cases ?q)
    case (Cons x xs)
    then have "\<not> snd x < t" using hd_dropWhile [of "\<lambda>c. snd c < t" cs] by auto
    with sq(1) Cons show ?thesis by auto
  next
    case Nil
    show ?thesis unfolding Nil by simp
  qed
  moreover have "counted ?p (after s ?p)"
  proof -
    have "sorted (map snd ?p)" using sq(2) by (simp only: map_append sorted_append)
    then show ?thesis using counted_after [OF counted_start [OF assms(1)], of ?p] assms(3) by simp
  qed
  ultimately have q: "int (grants (after s ?p) ?q k (t + width)) < 2 * max 1 cap"
    by (intro grants_bound [OF sq(1), of t]) (simp_all add: counted_def)
  have "filter ?in (zip ?p (answers s ?p)) = []"
    by (auto simp: filter_empty_conv dest!: set_zip_leftD set_takeWhileD)
  moreover have "zip cs (answers s cs) = zip ?p (answers s ?p) @ zip ?q (answers (after s ?p) ?q)"
    by (subst (1 2) cs) (simp only: answers_append zip_append length_answers)
  moreover have "filter ?in (zip ?q (answers (after s ?p) ?q)) =
      filter (\<lambda>((k', now), ok). ok \<and> k' = k \<and> now \<le> t + width) (zip ?q (answers (after s ?p) ?q))"
    using \<open>\<forall>c \<in> set ?q. t \<le> snd c\<close> by (intro filter_cong) (fastforce dest: set_zip_leftD)+
  ultimately show ?thesis using q by (simp add: grants_count)
qed

end

section \<open>The submission limiter\<close>

definition default_per_minute :: int where "default_per_minute = 20"
definition default_per_hour :: int where "default_per_hour = 100"

record window =
  wi_minute_count :: int
  wi_minute_reset :: "time option"
  wi_hour_count :: int
  wi_hour_reset :: "time option"

record submission_limiter =
  sl_per_minute :: int
  sl_per_hour :: int
  sl_buckets :: "string \<rightharpoonup> window"

definition new_submission_limiter :: "int \<Rightarrow> int \<Rightarrow> submission_limiter" where
  "new_submission_limiter per_minute per_hour =
     \<lparr>sl_per_minute = per_minute, sl_per_hour = per_hour, sl_buckets = Map.empty\<rparr>"

definition expired :: "time option \<Rightarrow> time \<Rightarrow> bool" where
  "expired reset now \<longleftrightarrow> (case reset of None \<Rightarrow> True | Some r \<Rightarrow> r < now)"

text \<open>The minute and the hour of a window, rolled over and counted up.\<close>

definition count_up :: "window \<Rightarrow> time \<Rightarrow> window" where
  "count_up b0 now =
     (let b1 = (if expired (wi_minute_reset b0) now
                then b0\<lparr>wi_minute_count := 0, wi_minute_reset := Some (now + minute)\<rparr> else b0);
          b2 = (if expired (wi_hour_reset b1) now
                then b1\<lparr>wi_hour_count := 0, wi_hour_reset := Some (now + hour)\<rparr> else b1)
      in b2\<lparr>wi_minute_count := wi_minute_count b2 + 1, wi_hour_count := wi_hour_count b2 + 1\<rparr>)"

definition allow :: "submission_limiter \<Rightarrow> string \<Rightarrow> time \<Rightarrow> submission_limiter \<times> bool" where
  "allow l key now =
     (let b0 = (case sl_buckets l key of
                  None \<Rightarrow> \<lparr>wi_minute_count = 0, wi_minute_reset = None, wi_hour_count = 0, wi_hour_reset = None\<rparr>
                | Some b \<Rightarrow> b);
          b = count_up b0 now
      in (l\<lparr>sl_buckets := (sl_buckets l)(key \<mapsto> b)\<rparr>,
          if 0 < sl_per_minute l \<and> sl_per_minute l < wi_minute_count b then False
          else if 0 < sl_per_hour l \<and> sl_per_hour l < wi_hour_count b then False
          else True))"

text \<open>Allow on a pointer that may be nil, which allows everything.\<close>

definition allow_opt :: "submission_limiter option \<Rightarrow> string \<Rightarrow> time \<Rightarrow> submission_limiter option \<times> bool" where
  "allow_opt l key now =
     (case l of None \<Rightarrow> (None, True) | Some x \<Rightarrow> apfst Some (allow x key now))"

section \<open>The rate_limit filter\<close>

record rate_limit_config =
  rl_max_per_hour :: int
  rl_max_per_minute :: int

definition default_rate_limit :: rate_limit_config where
  "default_rate_limit = \<lparr>rl_max_per_hour = 100, rl_max_per_minute = 20\<rparr>"

record rate_bucket =
  rb_count :: int
  rb_reset_at :: time

type_synonym rate_limit_store = "string \<rightharpoonup> rate_bucket"

definition new_rate_limit_store :: rate_limit_store where "new_rate_limit_store = Map.empty"

definition rate_key :: "email \<Rightarrow> string" where
  "rate_key m =
     (let acct = lookup (em_metadata m) ''auth_account'' in
      if acct \<noteq> [] then ''acct:'' @ acct else ''sender:'' @ message_sender m)"

text \<open>
  One bucket of a message: the store afterwards, and whether the message stays within \<open>maximum\<close>. The
  first message of a bucket is not compared with it.
\<close>

definition count_message :: "rate_limit_store \<Rightarrow> string \<Rightarrow> duration \<Rightarrow> int \<Rightarrow> time \<Rightarrow> rate_limit_store \<times> bool" where
  "count_message st key width maximum now =
     (case st key of
        None \<Rightarrow> (st(key \<mapsto> \<lparr>rb_count = 1, rb_reset_at = now + width\<rparr>), True)
      | Some b \<Rightarrow>
          if rb_reset_at b < now then (st(key \<mapsto> \<lparr>rb_count = 1, rb_reset_at = now + width\<rparr>), True)
          else (st(key \<mapsto> b\<lparr>rb_count := rb_count b + 1\<rparr>), rb_count b + 1 \<le> maximum))"

definition over_limit :: "string \<Rightarrow> string \<Rightarrow> filter_result" where
  "over_limit msg detail = result_of ActionDefer msg [] ''rate_limit'' ''defer'' detail"

definition rate_limit ::
  "rate_limit_config \<Rightarrow> bool \<Rightarrow> time \<Rightarrow> rate_limit_store \<Rightarrow> email \<Rightarrow> rate_limit_store \<times> filter_result" where
  "rate_limit cfg human_release now st m =
     (if human_release then
        (st, result_of ActionContinue [] [] ''rate_limit'' ''human_release''
           ''Per-account cap overridden by an audited human release'')
      else
        (let key = rate_key m;
             (st1, in_minute) = count_message st (''min:'' @ key) minute (rl_max_per_minute cfg) now in
         if \<not> in_minute then
           (st1, over_limit ''452 Too many messages, try again later''
              (key @ '' exceeded '' @ int_dec (rl_max_per_minute cfg) @ ''/min limit''))
         else
           (let (st2, in_hour) = count_message st1 (''hour:'' @ key) hour (rl_max_per_hour cfg) now in
            if \<not> in_hour then
              (st2, over_limit ''452 Hourly sending limit exceeded''
                 (key @ '' exceeded '' @ int_dec (rl_max_per_hour cfg) @ ''/hour limit''))
            else (st2, result_of ActionContinue [] [] ''rate_limit'' ''pass'' []))))"

section \<open>Both count in windows\<close>

text \<open>The caps of a limiter never change; the interpretations are on the limiters with given ones.\<close>

definition allow_with :: "int \<Rightarrow> int \<Rightarrow> (string \<rightharpoonup> window) \<Rightarrow> string \<Rightarrow> time \<Rightarrow> (string \<rightharpoonup> window) \<times> bool" where
  "allow_with m h bs key now =
     apfst sl_buckets (allow \<lparr>sl_per_minute = m, sl_per_hour = h, sl_buckets = bs\<rparr> key now)"

definition minute_of :: "(string \<rightharpoonup> window) \<Rightarrow> string \<Rightarrow> (int \<times> time) option" where
  "minute_of bs k =
     (case bs k of None \<Rightarrow> None | Some b \<Rightarrow> map_option (Pair (wi_minute_count b)) (wi_minute_reset b))"

definition hour_of :: "(string \<rightharpoonup> window) \<Rightarrow> string \<Rightarrow> (int \<times> time) option" where
  "hour_of bs k =
     (case bs k of None \<Rightarrow> None | Some b \<Rightarrow> map_option (Pair (wi_hour_count b)) (wi_hour_reset b))"

lemmas bucket_defs = minute_of_def hour_of_def tick_def allow_with_def allow_def count_up_def expired_def Let_def

interpretation by_minute: window_counter "allow_with (1 + int m) h" minute_of minute "1 + int m" for m h
  by unfold_locales (auto simp: bucket_defs split: option.splits if_splits)

interpretation by_hour: window_counter "allow_with m (1 + int h)" hour_of hour "1 + int h" for m h
  by unfold_locales (auto simp: bucket_defs split: option.splits if_splits)

text \<open>The calls of Allow in turn, and the answers.\<close>

fun allow_run :: "submission_limiter \<Rightarrow> (string \<times> time) list \<Rightarrow> submission_limiter \<times> bool list" where
  "allow_run l [] = (l, [])"
| "allow_run l ((k, now) # cs) =
     (case allow l k now of (l', ok) \<Rightarrow> (case allow_run l' cs of (l'', oks) \<Rightarrow> (l'', ok # oks)))"

lemma allow_caps [simp]:
  "sl_per_minute (fst (allow l k now)) = sl_per_minute l" "sl_per_hour (fst (allow l k now)) = sl_per_hour l"
  by (simp_all add: allow_def Let_def)

lemma allow_allow_with:
  "allow l k now =
     (\<lparr>sl_per_minute = sl_per_minute l, sl_per_hour = sl_per_hour l,
       sl_buckets = fst (allow_with (sl_per_minute l) (sl_per_hour l) (sl_buckets l) k now)\<rparr>,
      snd (allow_with (sl_per_minute l) (sl_per_hour l) (sl_buckets l) k now))"
  by (cases l) (simp add: allow_with_def allow_def Let_def)

lemma allow_run_answers:
  "sl_per_minute l = 1 + int m \<Longrightarrow> snd (allow_run l cs) = by_minute.answers m (sl_per_hour l) (sl_buckets l) cs"
  "sl_per_hour l = 1 + int h \<Longrightarrow> snd (allow_run l cs) = by_hour.answers (sl_per_minute l) h (sl_buckets l) cs"
  by (induction l cs rule: allow_run.induct) (simp_all add: allow_allow_with split_beta)

lemma allow_run_after:
  "sl_per_minute l = 1 + int m \<Longrightarrow> sl_buckets (fst (allow_run l cs)) = by_minute.after m (sl_per_hour l) (sl_buckets l) cs"
  "sl_per_hour l = 1 + int h \<Longrightarrow> sl_buckets (fst (allow_run l cs)) = by_hour.after (sl_per_minute l) h (sl_buckets l) cs"
  by (induction l cs rule: allow_run.induct) (simp_all add: allow_allow_with split_beta)

text \<open>How many calls of a key, among those made, fall between two times.\<close>

definition calls_in :: "(string \<times> time) list \<Rightarrow> string \<Rightarrow> time \<Rightarrow> time \<Rightarrow> int" where
  "calls_in cs key t u = int (length (filter (\<lambda>(k, now). k = key \<and> t \<le> now \<and> now \<le> u) cs))"

definition granted_in :: "submission_limiter \<Rightarrow> (string \<times> time) list \<Rightarrow> string \<Rightarrow> time \<Rightarrow> time \<Rightarrow> int" where
  "granted_in l cs key t u =
     int (length (filter (\<lambda>((k, now), ok). ok \<and> k = key \<and> t \<le> now \<and> now \<le> u) (zip cs (snd (allow_run l cs)))))"

lemma window_widths [simp]: "0 \<le> minute" "0 \<le> hour"
  by (simp_all add: less_imp_le)

lemma positive_cap: "0 < (c::int) \<Longrightarrow> c = 1 + int (nat (c - 1))"
  by simp

lemma refused_over:
  assumes "\<not> snd (allow l key now)"
  shows "0 < sl_per_minute l \<and> sl_per_minute l < fst (tick minute (minute_of (sl_buckets l) key) now) \<or>
    0 < sl_per_hour l \<and> sl_per_hour l < fst (tick hour (hour_of (sl_buckets l) key) now)"
  using assms by (auto simp: bucket_defs split: option.splits if_splits)

lemma counts_recent:
  assumes "\<forall>x \<in> set cs. snd x \<le> now"
  shows "int (length (filter (\<lambda>x. fst x = key \<and> r - w \<le> snd x) (cs @ [(key, now)]))) = calls_in (cs @ [(key, now)]) key (r - w) now"
proof -
  have "filter (\<lambda>x. fst x = key \<and> r - w \<le> snd x) (cs @ [(key, now)]) =
      filter (\<lambda>(k, at). k = key \<and> r - w \<le> at \<and> at \<le> now) (cs @ [(key, now)])"
    using assms by (intro filter_cong) auto
  then show ?thesis by (simp add: calls_in_def)
qed

lemma calls_in_mono: "t' \<le> t \<Longrightarrow> calls_in cs key t u \<le> calls_in cs key t' u"
  by (induction cs) (auto simp: calls_in_def)

text \<open>A count after a call is at most the calls within the width of the window.\<close>

lemma tick_recent:
  assumes "1 \<le> c \<and> c \<le> calls_in (cs @ [(key, now)]) key (r - w) now" "now \<le> r"
  shows "c \<le> calls_in (cs @ [(key, now)]) key (now - w) now"
  using assms calls_in_mono [of "now - w" "r - w" "cs @ [(key, now)]" key now] by simp

lemma tick_open: "0 \<le> w \<Longrightarrow> tick w b now = (c, r) \<Longrightarrow> now \<le> r"
  by (auto simp: tick_def split: option.splits if_splits)

lemma minute_tick: "minute_of (sl_buckets (fst (allow l key now))) key = Some (tick minute (minute_of (sl_buckets l) key) now)"
  and hour_tick: "hour_of (sl_buckets (fst (allow l key now))) key = Some (tick hour (hour_of (sl_buckets l) key) now)"
  by (auto simp: bucket_defs split: option.splits if_splits)

lemma allow_run_append:
  "allow_run l (xs @ ys) =
     (case allow_run l xs of (l', oks) \<Rightarrow> (case allow_run l' ys of (l'', oks') \<Rightarrow> (l'', oks @ oks')))"
  by (induction l xs rule: allow_run.induct) (auto split: prod.splits)

lemma allow_run_caps:
  "sl_per_minute (fst (allow_run l cs)) = sl_per_minute l \<and> sl_per_hour (fst (allow_run l cs)) = sl_per_hour l"
  by (induction cs arbitrary: l) (auto simp: split_beta)

lemma minute_count:
  assumes "sorted (map snd (cs @ [(key, now)]))" "sl_buckets l = Map.empty" "0 < sl_per_minute l"
  shows "fst (tick minute (minute_of (sl_buckets (fst (allow_run l cs))) key) now) \<le>
    calls_in (cs @ [(key, now)]) key (now - minute) now"
proof -
  let ?all = "cs @ [(key, now)]"
  obtain m where m: "sl_per_minute l = 1 + int m" using positive_cap [OF assms(3)] by blast
  have "by_minute.counted [] (sl_buckets l)" by (rule by_minute.counted_start) (simp add: assms(2) minute_of_def)
  from by_minute.counted_after [OF this, of ?all] assms(1)
  have "by_minute.counted ?all (by_minute.after m (sl_per_hour l) (sl_buckets l) ?all)" by simp
  moreover have after: "by_minute.after m (sl_per_hour l) (sl_buckets l) ?all = sl_buckets (fst (allow (fst (allow_run l cs)) key now))"
    using allow_run_after(1) [of l m ?all] m by (simp add: allow_run_append split_beta)
  moreover obtain c r where t: "tick minute (minute_of (sl_buckets (fst (allow_run l cs))) key) now = (c, r)"
    by (cases "tick minute (minute_of (sl_buckets (fst (allow_run l cs))) key) now")
  ultimately have "1 \<le> c \<and> c \<le> int (length (filter (\<lambda>x. fst x = key \<and> r - minute \<le> snd x) ?all))"
    using minute_tick [of "fst (allow_run l cs)" key now] by (intro by_minute.countedD) (simp_all only: after)
  moreover have "\<forall>x \<in> set cs. snd x \<le> now" using assms(1) by (auto simp: sorted_append)
  ultimately have "c \<le> calls_in ?all key (now - minute) now"
    using tick_open [OF _ t] by (intro tick_recent) (simp_all only: counts_recent, simp_all)
  with t show ?thesis by simp
qed

lemma hour_count:
  assumes "sorted (map snd (cs @ [(key, now)]))" "sl_buckets l = Map.empty" "0 < sl_per_hour l"
  shows "fst (tick hour (hour_of (sl_buckets (fst (allow_run l cs))) key) now) \<le>
    calls_in (cs @ [(key, now)]) key (now - hour) now"
proof -
  let ?all = "cs @ [(key, now)]"
  obtain h where h: "sl_per_hour l = 1 + int h" using positive_cap [OF assms(3)] by blast
  have "by_hour.counted [] (sl_buckets l)" by (rule by_hour.counted_start) (simp add: assms(2) hour_of_def)
  from by_hour.counted_after [OF this, of ?all] assms(1)
  have "by_hour.counted ?all (by_hour.after (sl_per_minute l) h (sl_buckets l) ?all)" by simp
  moreover have after: "by_hour.after (sl_per_minute l) h (sl_buckets l) ?all = sl_buckets (fst (allow (fst (allow_run l cs)) key now))"
    using allow_run_after(2) [of l h ?all] h by (simp add: allow_run_append split_beta)
  moreover obtain c r where t: "tick hour (hour_of (sl_buckets (fst (allow_run l cs))) key) now = (c, r)"
    by (cases "tick hour (hour_of (sl_buckets (fst (allow_run l cs))) key) now")
  ultimately have "1 \<le> c \<and> c \<le> int (length (filter (\<lambda>x. fst x = key \<and> r - hour \<le> snd x) ?all))"
    using hour_tick [of "fst (allow_run l cs)" key now] by (intro by_hour.countedD) (simp_all only: after)
  moreover have "\<forall>x \<in> set cs. snd x \<le> now" using assms(1) by (auto simp: sorted_append)
  ultimately have "c \<le> calls_in ?all key (now - hour) now"
    using tick_open [OF _ t] by (intro tick_recent) (simp_all only: counts_recent, simp_all)
  with t show ?thesis by simp
qed

text \<open>
  The limiter every submission port and the send API share, from its start. In no stretch of a minute
  does one account get twice its cap of submissions accepted, and likewise in an hour, however the calls
  of this and other accounts are timed and interleaved. And nothing is refused without cause: a call is
  accepted when the account's calls of the last minute, it included, are within the cap per minute and
  those of the last hour within the cap per hour; a cap that is not positive limits nothing.
\<close>

theorem submissions_rate_limited:
  assumes sorted: "sorted (map snd (calls @ [(key, now)]))" and l: "l = new_submission_limiter per_minute per_hour"
  shows "(0 < per_minute \<longrightarrow> granted_in l calls key t (t + minute) < 2 * per_minute)
    \<and> (0 < per_hour \<longrightarrow> granted_in l calls key t (t + hour) < 2 * per_hour)
    \<and> ((per_minute \<le> 0 \<or> calls_in (calls @ [(key, now)]) key (now - minute) now \<le> per_minute) \<and>
       (per_hour \<le> 0 \<or> calls_in (calls @ [(key, now)]) key (now - hour) now \<le> per_hour) \<longrightarrow>
       last (snd (allow_run l (calls @ [(key, now)]))))"
proof (intro conjI impI)
  have b: "sl_buckets l = Map.empty" "sl_per_minute l = per_minute" "sl_per_hour l = per_hour"
    by (simp_all add: l new_submission_limiter_def)
  have none: "\<forall>k. minute_of Map.empty k = None" "\<forall>k. hour_of Map.empty k = None"
    by (simp_all add: minute_of_def hour_of_def)
  have sc: "sorted (map snd calls)" using sorted by (simp add: sorted_append)
  show "granted_in l calls key t (t + minute) < 2 * per_minute" if pos: "0 < per_minute"
  proof -
    obtain m where m: "per_minute = 1 + int m" using positive_cap [OF pos] by blast
    then have "snd (allow_run l calls) = by_minute.answers m per_hour Map.empty calls"
      using allow_run_answers(1) [of l m calls] b by simp
    with by_minute.rate_bound [OF none(1) sc, where m = m and h = per_hour and k = key and t = t] show ?thesis
      by (simp add: granted_in_def m)
  qed
  show "granted_in l calls key t (t + hour) < 2 * per_hour" if pos: "0 < per_hour"
  proof -
    obtain h where h: "per_hour = 1 + int h" using positive_cap [OF pos] by blast
    then have "snd (allow_run l calls) = by_hour.answers per_minute h Map.empty calls"
      using allow_run_answers(2) [of l h calls] b by simp
    with by_hour.rate_bound [OF none(2) sc, where m = per_minute and h = h and k = key and t = t] show ?thesis
      by (simp add: granted_in_def h)
  qed
  assume "(per_minute \<le> 0 \<or> calls_in (calls @ [(key, now)]) key (now - minute) now \<le> per_minute) \<and>
       (per_hour \<le> 0 \<or> calls_in (calls @ [(key, now)]) key (now - hour) now \<le> per_hour)"
  then have "snd (allow (fst (allow_run l calls)) key now)"
    using refused_over [of "fst (allow_run l calls)" key now] allow_run_caps [of l calls] b
      minute_count [OF sorted b(1)] hour_count [OF sorted b(1)] by fastforce
  then show "last (snd (allow_run l (calls @ [(key, now)])))"
    by (simp add: allow_run_append split_beta)
qed

theorem submissions_rate_limited_witness:
  "granted_in (new_submission_limiter 1 5) [(''a'', 0), (''b'', 1), (''a'', 2)] ''a'' 0 minute < 2
   \<and> granted_in (new_submission_limiter 1 5) [(''a'', 0), (''b'', 1), (''a'', 2)] ''a'' 0 hour < 10
   \<and> last (snd (allow_run (new_submission_limiter 1 5) ([(''a'', 0), (''b'', 1), (''a'', 2)] @ [(''a'', 2 * minute)])))"
  using submissions_rate_limited [of "[(''a'', 0), (''b'', 1), (''a'', 2)]" "''a''" "2 * minute"
      "new_submission_limiter 1 5" 1 5 0]
  by (simp add: calls_in_def duration_defs)

section \<open>What the filter lets through\<close>

text \<open>A message of the key \<open>key\<close> at the filter: only its key matters.\<close>

definition rate_call :: "rate_limit_config \<Rightarrow> rate_limit_store \<Rightarrow> string \<Rightarrow> time \<Rightarrow> rate_limit_store \<times> bool" where
  "rate_call cfg st key now =
     (case count_message st (''min:'' @ key) minute (rl_max_per_minute cfg) now of
        (st1, in_minute) \<Rightarrow>
          if in_minute then count_message st1 (''hour:'' @ key) hour (rl_max_per_hour cfg) now else (st1, False))"

lemma rate_limit_call:
  "fst (rate_limit cfg False now st m) = fst (rate_call cfg st (rate_key m) now)"
  "fr_action (snd (rate_limit cfg False now st m)) =
     (if snd (rate_call cfg st (rate_key m) now) then ActionContinue else ActionDefer)"
  by (auto simp: rate_limit_def rate_call_def over_limit_def Let_def split_beta)

definition store_bucket :: "string \<Rightarrow> rate_limit_store \<Rightarrow> string \<Rightarrow> (int \<times> time) option" where
  "store_bucket tier st key = map_option (\<lambda>b. (rb_count b, rb_reset_at b)) (st (tier @ key))"

lemma count_message_bucket:
  "x = tier @ k \<Longrightarrow> store_bucket tier (fst (count_message st x w n now)) k = Some (tick w (store_bucket tier st k) now)"
  "x \<noteq> tier @ k \<Longrightarrow> store_bucket tier (fst (count_message st x w n now)) k = store_bucket tier st k"
  "snd (count_message st x w n now) \<Longrightarrow> x = tier @ k \<Longrightarrow> fst (tick w (store_bucket tier st k) now) \<le> max 1 n"
  by (auto simp: count_message_def store_bucket_def tick_def split: option.splits if_splits)

lemma rate_call_eqs:
  "rate_call cfg st key now =
     (if snd (count_message st (''min:'' @ key) minute (rl_max_per_minute cfg) now)
      then count_message (fst (count_message st (''min:'' @ key) minute (rl_max_per_minute cfg) now))
             (''hour:'' @ key) hour (rl_max_per_hour cfg) now
      else (fst (count_message st (''min:'' @ key) minute (rl_max_per_minute cfg) now), False))"
  by (simp add: rate_call_def split_beta)

interpretation filter_minute: window_counter "rate_call cfg" "store_bucket ''min:''" minute "rl_max_per_minute cfg" for cfg
proof
  fix s and k :: string and now
  show "fst (tick minute (store_bucket ''min:'' s k) now) \<le> max 1 (rl_max_per_minute cfg)" if "snd (rate_call cfg s k now)"
    using that count_message_bucket(3) [of s "''min:'' @ k" minute "rl_max_per_minute cfg" now "''min:''" k]
    by (simp add: rate_call_eqs split: if_splits)
qed (simp_all add: rate_call_eqs count_message_bucket)

interpretation filter_hour: window_counter "rate_call cfg" "store_bucket ''hour:''" hour "rl_max_per_hour cfg" for cfg
proof
  fix s and k :: string and now
  let ?s = "fst (count_message s (''min:'' @ k) minute (rl_max_per_minute cfg) now)"
  have "store_bucket ''hour:'' ?s k = store_bucket ''hour:'' s k" by (simp add: count_message_bucket)
  then show "fst (tick hour (store_bucket ''hour:'' s k) now) \<le> max 1 (rl_max_per_hour cfg)" if "snd (rate_call cfg s k now)"
    using that count_message_bucket(3) [of ?s "''hour:'' @ k" hour "rl_max_per_hour cfg" now "''hour:''" k]
    by (simp add: rate_call_eqs split: if_splits)
qed (simp_all add: rate_call_eqs count_message_bucket)

definition let_on :: "rate_limit_config \<Rightarrow> (string \<times> time) list \<Rightarrow> string \<Rightarrow> time \<Rightarrow> time \<Rightarrow> int" where
  "let_on cfg calls key t u =
     int (length (filter (\<lambda>((k, now), ok). ok \<and> k = key \<and> t \<le> now \<and> now \<le> u)
       (zip calls (filter_minute.answers cfg new_rate_limit_store calls))))"

text \<open>No account gets twice its cap of messages past the filter in a minute, or in an hour.\<close>

lemma filter_rate_bounded:
  assumes "sorted (map snd calls)"
  shows "let_on cfg calls key t (t + minute) < 2 * max 1 (rl_max_per_minute cfg)"
    "let_on cfg calls key t (t + hour) < 2 * max 1 (rl_max_per_hour cfg)"
  using filter_minute.rate_bound [OF _ assms, where s = new_rate_limit_store and cfg = cfg and k = key and t = t]
    filter_hour.rate_bound [OF _ assms, where s = new_rate_limit_store and cfg = cfg and k = key and t = t]
  by (simp_all add: let_on_def store_bucket_def new_rate_limit_store_def)

end
