(* ===== verification/Conn_Limiter.thy ===== *)
theory Conn_Limiter
  imports Go_Prelude "HOL-Library.Multiset"
begin

text \<open>
  Admission to the mail gateways, \<^verbatim>\<open>internal/gateway/connlimiter\<close> and \<^verbatim>\<open>internal/gateway/bancheck\<close>: the
  caps on open connections, the bans after failed sign-ins by address and by account, and the cached
  look-up of the bans kept in the database.

  \<open>accept\<close> and \<open>release\<close> are the operations as a whole. Accept holds a mutex and Release does not, so
  the statements of one Accept and any number of Releases interleave; \<open>conn_step\<close> is that, statement by
  statement, with the connections open as a multiset. Counters are 32 bits wide. Metrics and logging are
  left out. The answer of a ban checker is an argument of the calls that ask it.
\<close>

section \<open>Configuration and state\<close>

record limiter_config =
  lc_max_per_ip :: int
  lc_max_global :: int
  lc_auth_max_fails :: int
  lc_auth_ban_window :: duration
  lc_auth_ban_duration :: duration

definition with_defaults :: "limiter_config \<Rightarrow> limiter_config" where
  "with_defaults c =
     \<lparr>lc_max_per_ip = (if lc_max_per_ip c \<le> 0 then 20 else lc_max_per_ip c),
      lc_max_global = (if lc_max_global c \<le> 0 then 1000 else lc_max_global c),
      lc_auth_max_fails = (if lc_auth_max_fails c \<le> 0 then 5 else lc_auth_max_fails c),
      lc_auth_ban_window = (if lc_auth_ban_window c \<le> 0 then 10 * minute else lc_auth_ban_window c),
      lc_auth_ban_duration = (if lc_auth_ban_duration c \<le> 0 then 30 * minute else lc_auth_ban_duration c)\<rparr>"

record fail_record =
  fr_failures :: "time list"
  fr_banned_at :: "time option"

definition no_failures :: fail_record where
  "no_failures = \<lparr>fr_failures = [], fr_banned_at = None\<rparr>"

record limiter =
  li_cfg :: limiter_config
  li_global :: int
  li_per_ip :: "string \<rightharpoonup> int"
  li_auth_fails :: "string \<rightharpoonup> fail_record"
  li_user_fails :: "string \<rightharpoonup> fail_record"
  li_protocol :: string

definition new_limiter :: "limiter_config \<Rightarrow> limiter" where
  "new_limiter c =
     \<lparr>li_cfg = with_defaults c, li_global = 0, li_per_ip = Map.empty, li_auth_fails = Map.empty,
      li_user_fails = Map.empty, li_protocol = []\<rparr>"

definition int32 :: "int \<Rightarrow> int" where
  "int32 x = (x + 2 ^ 31) mod 2 ^ 32 - 2 ^ 31"

definition ip_count :: "(string \<rightharpoonup> int) \<Rightarrow> string \<Rightarrow> int" where
  "ip_count m ip = (case m ip of None \<Rightarrow> 0 | Some n \<Rightarrow> n)"

section \<open>Open connections\<close>

text \<open>\<open>db_banned\<close> is the ban checker's answer, \<open>False\<close> when there is none.\<close>

definition accept :: "limiter \<Rightarrow> bool \<Rightarrow> string \<Rightarrow> limiter \<times> bool" where
  "accept l db_banned ip =
     (if db_banned then (l, False)
      else if lc_max_global (li_cfg l) \<le> li_global l then (l, False)
      else
        (let l1 = l\<lparr>li_per_ip := (li_per_ip l)(ip \<mapsto> ip_count (li_per_ip l) ip)\<rparr> in
         if lc_max_per_ip (li_cfg l) \<le> ip_count (li_per_ip l1) ip then (l1, False)
         else (l1\<lparr>li_per_ip := (li_per_ip l1)(ip \<mapsto> int32 (ip_count (li_per_ip l1) ip + 1)),
                  li_global := int32 (li_global l + 1)\<rparr>, True)))"

definition release :: "limiter \<Rightarrow> string \<Rightarrow> limiter" where
  "release l ip =
     (let l1 = l\<lparr>li_global := int32 (li_global l - 1)\<rparr> in
      case li_per_ip l1 ip of
        None \<Rightarrow> l1
      | Some n \<Rightarrow> l1\<lparr>li_per_ip := (li_per_ip l1)(ip \<mapsto> int32 (n - 1))\<rparr>)"

section \<open>Failed sign-ins\<close>

definition record_fail ::
  "limiter_config \<Rightarrow> (string \<rightharpoonup> fail_record) \<Rightarrow> string \<Rightarrow> time \<Rightarrow> string \<rightharpoonup> fail_record" where
  "record_fail cfg fails key now =
     (let r = (case fails key of None \<Rightarrow> no_failures | Some r \<Rightarrow> r);
          fresh = filter (\<lambda>t. now - lc_auth_ban_window cfg < t) (fr_failures r @ [now])
      in fails(key \<mapsto> r\<lparr>fr_failures := fresh,
           fr_banned_at := (if lc_auth_max_fails cfg \<le> int (length fresh) then Some now else fr_banned_at r)\<rparr>))"

definition banned ::
  "limiter_config \<Rightarrow> (string \<rightharpoonup> fail_record) \<Rightarrow> string \<Rightarrow> time \<Rightarrow> (string \<rightharpoonup> fail_record) \<times> bool" where
  "banned cfg fails key now =
     (case fails key of
        None \<Rightarrow> (fails, False)
      | Some r \<Rightarrow>
          (case fr_banned_at r of
             None \<Rightarrow> (fails, False)
           | Some at \<Rightarrow>
               if lc_auth_ban_duration cfg < now - at then (fails(key \<mapsto> no_failures), False)
               else (fails, True)))"

definition clear_fail :: "(string \<rightharpoonup> fail_record) \<Rightarrow> string \<Rightarrow> string \<rightharpoonup> fail_record" where
  "clear_fail fails key = (case fails key of None \<Rightarrow> fails | Some r \<Rightarrow> fails(key \<mapsto> no_failures))"

definition account_key :: "string \<Rightarrow> string" where
  "account_key user = to_lower (trim_space user)"

definition record_auth_fail :: "limiter \<Rightarrow> string \<Rightarrow> time \<Rightarrow> limiter" where
  "record_auth_fail l ip now = l\<lparr>li_auth_fails := record_fail (li_cfg l) (li_auth_fails l) ip now\<rparr>"

definition is_banned :: "limiter \<Rightarrow> bool \<Rightarrow> string \<Rightarrow> time \<Rightarrow> limiter \<times> bool" where
  "is_banned l db_banned ip now =
     (if db_banned then (l, True)
      else (case banned (li_cfg l) (li_auth_fails l) ip now of (fs, b) \<Rightarrow> (l\<lparr>li_auth_fails := fs\<rparr>, b)))"

definition reset_auth :: "limiter \<Rightarrow> string \<Rightarrow> limiter" where
  "reset_auth l ip = l\<lparr>li_auth_fails := clear_fail (li_auth_fails l) ip\<rparr>"

definition record_auth_fail_user :: "limiter \<Rightarrow> string \<Rightarrow> time \<Rightarrow> limiter" where
  "record_auth_fail_user l user now =
     (let key = account_key user in
      if key = [] then l else l\<lparr>li_user_fails := record_fail (li_cfg l) (li_user_fails l) key now\<rparr>)"

definition is_user_banned :: "limiter \<Rightarrow> string \<Rightarrow> time \<Rightarrow> limiter \<times> bool" where
  "is_user_banned l user now =
     (let key = account_key user in
      if key = [] then (l, False)
      else (case banned (li_cfg l) (li_user_fails l) key now of (fs, b) \<Rightarrow> (l\<lparr>li_user_fails := fs\<rparr>, b)))"

definition reset_auth_user :: "limiter \<Rightarrow> string \<Rightarrow> limiter" where
  "reset_auth_user l user =
     (let key = account_key user in
      if key = [] then l else l\<lparr>li_user_fails := clear_fail (li_user_fails l) key\<rparr>)"

section \<open>Bans kept in the database\<close>

definition ban_cache_ttl :: duration where "ban_cache_ttl = 10 * second"

record ban_row =
  bn_ip :: string
  bn_protocol :: string
  bn_expires_at :: "time option"

definition ban_lookup :: "ban_row list \<Rightarrow> string \<Rightarrow> string \<Rightarrow> time \<Rightarrow> bool" where
  "ban_lookup bans ip proto now \<longleftrightarrow>
     (\<exists>b \<in> set bans. bn_ip b = ip \<and> (bn_protocol b = proto \<or> bn_protocol b = ''all'') \<and>
        (case bn_expires_at b of None \<Rightarrow> True | Some t \<Rightarrow> now < t))"

record ban_cache_entry =
  bc_banned :: bool
  bc_fetched_at :: time

definition ban_key :: "string \<Rightarrow> string \<Rightarrow> string" where
  "ban_key proto ip = proto @ char_of (0::nat) # ip"

text \<open>One call of the checker: \<open>answer\<close> is what the database says, \<open>None\<close> an error of it.\<close>

definition cached_check ::
  "duration \<Rightarrow> bool option \<Rightarrow> (string \<rightharpoonup> ban_cache_entry) \<Rightarrow> string \<Rightarrow> string \<Rightarrow> time \<Rightarrow>
   (string \<rightharpoonup> ban_cache_entry) \<times> bool" where
  "cached_check ttl answer cache ip proto now =
     (let key = ban_key proto ip in
      case cache key of
        Some e \<Rightarrow>
          if now - bc_fetched_at e < ttl then (cache, bc_banned e)
          else (case answer of
                  None \<Rightarrow> (cache, bc_banned e)
                | Some b \<Rightarrow> (cache(key \<mapsto> \<lparr>bc_banned = b, bc_fetched_at = now\<rparr>), b))
      | None \<Rightarrow>
          (case answer of
             None \<Rightarrow> (cache, True)
           | Some b \<Rightarrow> (cache(key \<mapsto> \<lparr>bc_banned = b, bc_fetched_at = now\<rparr>), b)))"

section \<open>Statement by statement\<close>

text \<open>Where an Accept that holds the mutex is: what it does next.\<close>

datatype accept_pc =
    CheckGlobal string
  | CheckIp string
  | AddIp string
  | AddGlobal string

record conn_state =
  cs_global :: int
  cs_per_ip :: "string \<Rightarrow> int"
  cs_accept :: "accept_pc option"
  cs_open :: "string multiset"
  cs_releasing :: "string multiset"

definition idle_conns :: conn_state where
  "idle_conns = \<lparr>cs_global = 0, cs_per_ip = (\<lambda>_. 0), cs_accept = None, cs_open = {#}, cs_releasing = {#}\<rparr>"

inductive conn_step :: "limiter_config \<Rightarrow> conn_state \<Rightarrow> conn_state \<Rightarrow> bool" for cfg where
  lock: "cs_accept s = None \<Longrightarrow> conn_step cfg s (s\<lparr>cs_accept := Some (CheckGlobal ip)\<rparr>)"
| global_full: "cs_accept s = Some (CheckGlobal ip) \<Longrightarrow> lc_max_global cfg \<le> cs_global s \<Longrightarrow>
    conn_step cfg s (s\<lparr>cs_accept := None\<rparr>)"
| global_free: "cs_accept s = Some (CheckGlobal ip) \<Longrightarrow> cs_global s < lc_max_global cfg \<Longrightarrow>
    conn_step cfg s (s\<lparr>cs_accept := Some (CheckIp ip)\<rparr>)"
| ip_full: "cs_accept s = Some (CheckIp ip) \<Longrightarrow> lc_max_per_ip cfg \<le> cs_per_ip s ip \<Longrightarrow>
    conn_step cfg s (s\<lparr>cs_accept := None\<rparr>)"
| ip_free: "cs_accept s = Some (CheckIp ip) \<Longrightarrow> cs_per_ip s ip < lc_max_per_ip cfg \<Longrightarrow>
    conn_step cfg s (s\<lparr>cs_accept := Some (AddIp ip)\<rparr>)"
| add_ip: "cs_accept s = Some (AddIp ip) \<Longrightarrow>
    conn_step cfg s (s\<lparr>cs_per_ip := (cs_per_ip s)(ip := int32 (cs_per_ip s ip + 1)), cs_accept := Some (AddGlobal ip)\<rparr>)"
| add_global: "cs_accept s = Some (AddGlobal ip) \<Longrightarrow>
    conn_step cfg s (s\<lparr>cs_global := int32 (cs_global s + 1), cs_accept := None, cs_open := add_mset ip (cs_open s)\<rparr>)"
| release_global: "ip \<in># cs_open s \<Longrightarrow>
    conn_step cfg s (s\<lparr>cs_global := int32 (cs_global s - 1), cs_open := cs_open s - {#ip#},
      cs_releasing := add_mset ip (cs_releasing s)\<rparr>)"
| release_ip: "ip \<in># cs_releasing s \<Longrightarrow>
    conn_step cfg s (s\<lparr>cs_per_ip := (cs_per_ip s)(ip := int32 (cs_per_ip s ip - 1)),
      cs_releasing := cs_releasing s - {#ip#}\<rparr>)"

inductive_cases conn_stepE: "conn_step cfg s t"

section \<open>The caps hold\<close>

definition small_caps :: "limiter_config \<Rightarrow> bool" where
  "small_caps cfg \<longleftrightarrow> 0 < lc_max_global cfg \<and> lc_max_global cfg < 2 ^ 31 \<and>
     0 < lc_max_per_ip cfg \<and> lc_max_per_ip cfg < 2 ^ 31"

definition conns_ok :: "limiter_config \<Rightarrow> conn_state \<Rightarrow> bool" where
  "conns_ok cfg s \<longleftrightarrow>
     cs_global s = int (size (cs_open s)) \<and>
     (\<forall>ip. cs_per_ip s ip = int (count (cs_open s) ip) + int (count (cs_releasing s) ip) +
        (if cs_accept s = Some (AddGlobal ip) then 1 else 0)) \<and>
     cs_global s \<le> lc_max_global cfg \<and> (\<forall>ip. cs_per_ip s ip \<le> lc_max_per_ip cfg) \<and>
     (case cs_accept s of
        Some (CheckIp ip) \<Rightarrow> cs_global s < lc_max_global cfg
      | Some (AddIp ip) \<Rightarrow> cs_global s < lc_max_global cfg \<and> cs_per_ip s ip < lc_max_per_ip cfg
      | Some (AddGlobal ip) \<Rightarrow> cs_global s < lc_max_global cfg
      | _ \<Rightarrow> True)"

lemma int32_id: "- (2 ^ 31) \<le> x \<Longrightarrow> x < 2 ^ 31 \<Longrightarrow> int32 x = x"
  by (simp add: int32_def)

lemma conns_okD:
  assumes "conns_ok cfg s"
  shows "cs_global s = int (size (cs_open s))"
    "cs_per_ip s ip = int (count (cs_open s) ip) + int (count (cs_releasing s) ip) +
        (if cs_accept s = Some (AddGlobal ip) then 1 else 0)"
    "cs_global s \<le> lc_max_global cfg" "cs_per_ip s ip \<le> lc_max_per_ip cfg"
    "cs_accept s = Some (AddIp ip) \<Longrightarrow> cs_global s < lc_max_global cfg \<and> cs_per_ip s ip < lc_max_per_ip cfg"
    "cs_accept s = Some (AddGlobal ip) \<Longrightarrow> cs_global s < lc_max_global cfg"
    "cs_accept s = Some (CheckIp ip) \<Longrightarrow> cs_global s < lc_max_global cfg"
  using assms unfolding conns_ok_def by (blast, blast, blast, blast, auto)

lemma conns_ok_range:
  assumes "small_caps cfg" "conns_ok cfg s"
  shows "0 \<le> cs_global s" "cs_global s < 2 ^ 31" "0 \<le> cs_per_ip s ip" "cs_per_ip s ip < 2 ^ 31"
  using conns_okD(1,3) [OF assms(2)] conns_okD(2,4) [OF assms(2), of ip] assms(1)
  by (auto simp: small_caps_def split: if_splits)

lemma conns_okI:
  "cs_global s = int (size (cs_open s)) \<Longrightarrow>
   (\<And>ip. cs_per_ip s ip = int (count (cs_open s) ip) + int (count (cs_releasing s) ip) +
      (if cs_accept s = Some (AddGlobal ip) then 1 else 0)) \<Longrightarrow>
   cs_global s \<le> lc_max_global cfg \<Longrightarrow> (\<And>ip. cs_per_ip s ip \<le> lc_max_per_ip cfg) \<Longrightarrow>
   (\<And>ip. cs_accept s = Some (CheckIp ip) \<Longrightarrow> cs_global s < lc_max_global cfg) \<Longrightarrow>
   (\<And>ip. cs_accept s = Some (AddIp ip) \<Longrightarrow> cs_global s < lc_max_global cfg \<and> cs_per_ip s ip < lc_max_per_ip cfg) \<Longrightarrow>
   (\<And>ip. cs_accept s = Some (AddGlobal ip) \<Longrightarrow> cs_global s < lc_max_global cfg) \<Longrightarrow> conns_ok cfg s"
  unfolding conns_ok_def by (auto split: option.split accept_pc.split)

lemma count_remove1: "ip \<in># M \<Longrightarrow> int (count (M - {#ip#}) x) = int (count M x) - (if x = ip then 1 else 0)"
  by (simp add: of_nat_diff Suc_leI)

lemma conn_step_ok:
  assumes "small_caps cfg" "conn_step cfg s t" "conns_ok cfg s"
  shows "conns_ok cfg t"
proof -
  note D = conns_okD [OF assms(3)] and R = conns_ok_range [OF assms(1,3)]
  from assms(2) show ?thesis
  proof cases
    case (lock ip) show ?thesis by (rule conns_okI) (use D lock in auto)
  next
    case (global_full ip) show ?thesis by (rule conns_okI) (use D global_full in auto)
  next
    case (global_free ip) show ?thesis by (rule conns_okI) (use D global_free in auto)
  next
    case (ip_full ip) show ?thesis by (rule conns_okI) (use D ip_full in auto)
  next
    case (ip_free ip) show ?thesis by (rule conns_okI) (use D ip_free in auto)
  next
    case (add_ip ip)
    then have "cs_per_ip s ip < lc_max_per_ip cfg" "cs_global s < lc_max_global cfg" using D(5) by auto
    moreover from this have "int32 (cs_per_ip s ip + 1) = cs_per_ip s ip + 1"
      using assms(1) R(3) [of ip] by (intro int32_id) (simp_all add: small_caps_def)
    ultimately show ?thesis
      by (intro conns_okI) (use D(1,3,4) D(2) add_ip in \<open>auto split: if_splits\<close>)
  next
    case (add_global ip)
    then have "cs_global s < lc_max_global cfg" using D(6) by auto
    moreover from this have "int32 (cs_global s + 1) = cs_global s + 1"
      using assms(1) R(1) by (intro int32_id) (simp_all add: small_caps_def)
    ultimately show ?thesis
      by (intro conns_okI) (use D(1-4) add_global in \<open>auto split: if_splits\<close>)
  next
    case (release_global ip)
    have pos: "0 < size (cs_open s)" using release_global(2) by (metis multi_member_split nonempty_has_size empty_not_add_mset)
    then have g: "int32 (cs_global s - 1) = cs_global s - 1" "0 < cs_global s"
      using D(1) R(2) by (auto intro!: int32_id)
    have sz: "int (size (cs_open s - {#ip#})) = int (size (cs_open s)) - 1"
      using release_global(2) pos by (simp add: size_Diff_singleton of_nat_diff Suc_leI)
    have ct: "int (count (cs_open s - {#ip#}) x) + int (count (add_mset ip (cs_releasing s)) x) =
        int (count (cs_open s) x) + int (count (cs_releasing s) x)" for x
      using count_remove1 [OF release_global(2), of x] by simp
    define u where "u = s\<lparr>cs_global := cs_global s - 1, cs_open := cs_open s - {#ip#}, cs_releasing := add_mset ip (cs_releasing s)\<rparr>"
    have "cs_per_ip u x = int (count (cs_open u) x) + int (count (cs_releasing u) x) +
        (if cs_accept u = Some (AddGlobal x) then 1 else 0)" for x
      using ct [of x] D(2) [of x] by (simp add: u_def)
    moreover have "cs_per_ip u = cs_per_ip s" "cs_global u = cs_global s - 1" "cs_global u = int (size (cs_open u))"
        "cs_accept u = cs_accept s"
      using D(1) sz by (simp_all add: u_def)
    ultimately have "conns_ok cfg u" by (intro conns_okI) (use D(3-7) in \<open>auto dest: less_imp_le\<close>)
    then show ?thesis by (simp add: release_global(1) g u_def)
  next
    case (release_ip ip)
    have "0 < count (cs_releasing s) ip" using release_ip(2) by simp
    then have g: "int32 (cs_per_ip s ip - 1) = cs_per_ip s ip - 1"
      using D(2) [of ip] R(4) [of ip] by (intro int32_id) auto
    have ct: "int (count (cs_releasing s - {#ip#}) x) = int (count (cs_releasing s) x) - (if x = ip then 1 else 0)" for x
      using count_remove1 [OF release_ip(2)] .
    define u where "u = s\<lparr>cs_per_ip := (cs_per_ip s)(ip := cs_per_ip s ip - 1), cs_releasing := cs_releasing s - {#ip#}\<rparr>"
    have "cs_per_ip u x = int (count (cs_open u) x) + int (count (cs_releasing u) x) +
        (if cs_accept u = Some (AddGlobal x) then 1 else 0)" for x
      using ct [of x] D(2) [of x] by (cases "x = ip") (auto simp: u_def)
    moreover have le: "cs_per_ip u x \<le> cs_per_ip s x" for x by (simp add: u_def)
    moreover have u: "cs_global u = cs_global s" "cs_open u = cs_open s" "cs_accept u = cs_accept s"
      by (simp_all add: u_def)
    ultimately have "conns_ok cfg u"
    proof (intro conns_okI)
      show "cs_per_ip u x \<le> lc_max_per_ip cfg" for x using order_trans [OF le D(4)] .
      show "cs_global u < lc_max_global cfg \<and> cs_per_ip u x < lc_max_per_ip cfg" if "cs_accept u = Some (AddIp x)" for x
        using D(5) [of x] le [of x] that u by simp
      show "cs_global u < lc_max_global cfg" if "cs_accept u = Some (CheckIp x)" for x using D(7) [of x] that u by simp
      show "cs_global u < lc_max_global cfg" if "cs_accept u = Some (AddGlobal x)" for x using D(6) [of x] that u by simp
    qed (use D(1,3) u in simp_all)
    then show ?thesis by (simp add: release_ip(1) g u_def)
  qed
qed

interpretation conns: invariant_system "\<lambda>s. s = idle_conns \<and> small_caps cfg" "conn_step cfg" "\<lambda>s. small_caps cfg \<and> conns_ok cfg s" for cfg
proof
  fix s assume "s = idle_conns \<and> small_caps cfg"
  then show "small_caps cfg \<and> conns_ok cfg s" by (auto simp: conns_ok_def idle_conns_def small_caps_def)
qed (use conn_step_ok in blast)

text \<open>What a limiter and the statement-by-statement state have in common, nothing being under way.\<close>

definition same_counts :: "limiter \<Rightarrow> conn_state \<Rightarrow> bool" where
  "same_counts l s \<longleftrightarrow> li_global l = cs_global s \<and> (\<forall>ip. ip_count (li_per_ip l) ip = cs_per_ip s ip) \<and> cs_accept s = None"

lemma ip_count_upd [simp]: "ip_count (m(ip \<mapsto> n)) x = (if x = ip then n else ip_count m x)"
  by (simp add: ip_count_def)

lemma accept_admits:
  "li_global l < lc_max_global (li_cfg l) \<Longrightarrow> ip_count (li_per_ip l) ip < lc_max_per_ip (li_cfg l) \<Longrightarrow>
   accept l False ip = (l\<lparr>li_per_ip := (li_per_ip l)(ip \<mapsto> int32 (ip_count (li_per_ip l) ip + 1)),
     li_global := int32 (li_global l + 1)\<rparr>, True)"
  by (simp add: accept_def Let_def)

text \<open>Accept as a whole is its statements, run without a Release between them.\<close>

lemma accept_steps:
  assumes "same_counts l s"
  shows "\<exists>t. (conn_step (li_cfg l))\<^sup>*\<^sup>* s t \<and> same_counts (fst (accept l False ip)) t \<and>
    cs_open t = (if snd (accept l False ip) then add_mset ip (cs_open s) else cs_open s)"
proof -
  let ?cfg = "li_cfg l" and ?s1 = "s\<lparr>cs_accept := Some (CheckGlobal ip)\<rparr>"
  have lock: "conn_step ?cfg s ?s1" using assms by (intro conn_step.lock) (simp add: same_counts_def)
  have n: "cs_per_ip s ip = ip_count (li_per_ip l) ip" "cs_global s = li_global l"
    using assms by (simp_all add: same_counts_def)
  consider "lc_max_global ?cfg \<le> li_global l"
    | "li_global l < lc_max_global ?cfg" "lc_max_per_ip ?cfg \<le> ip_count (li_per_ip l) ip"
    | "li_global l < lc_max_global ?cfg" "ip_count (li_per_ip l) ip < lc_max_per_ip ?cfg"
    by linarith
  then show ?thesis
  proof cases
    case 1
    have "conn_step ?cfg ?s1 (?s1\<lparr>cs_accept := None\<rparr>)"
      using 1 n by (intro conn_step.global_full [of _ ip]) simp_all
    with lock have "(conn_step ?cfg)\<^sup>*\<^sup>* s (?s1\<lparr>cs_accept := None\<rparr>)" by simp
    with 1 assms show ?thesis by (intro exI [of _ "?s1\<lparr>cs_accept := None\<rparr>"]) (simp add: accept_def same_counts_def)
  next
    case 2
    let ?s2 = "?s1\<lparr>cs_accept := Some (CheckIp ip)\<rparr>"
    have "conn_step ?cfg ?s1 ?s2" using 2 n by (intro conn_step.global_free [of _ ip]) simp_all
    moreover have "conn_step ?cfg ?s2 (?s2\<lparr>cs_accept := None\<rparr>)"
      using 2 n by (intro conn_step.ip_full [of _ ip]) simp_all
    ultimately have "(conn_step ?cfg)\<^sup>*\<^sup>* s (?s2\<lparr>cs_accept := None\<rparr>)"
      using lock by (meson converse_rtranclp_into_rtranclp rtranclp.rtrancl_refl)
    with 2 assms show ?thesis
      by (intro exI [of _ "?s2\<lparr>cs_accept := None\<rparr>"]) (simp add: accept_def same_counts_def Let_def)
  next
    case 3
    let ?s2 = "?s1\<lparr>cs_accept := Some (CheckIp ip)\<rparr>" and ?s3 = "?s1\<lparr>cs_accept := Some (AddIp ip)\<rparr>"
    let ?s4 = "?s3\<lparr>cs_per_ip := (cs_per_ip s)(ip := int32 (cs_per_ip s ip + 1)), cs_accept := Some (AddGlobal ip)\<rparr>"
    let ?s5 = "?s4\<lparr>cs_global := int32 (cs_global s + 1), cs_accept := None, cs_open := add_mset ip (cs_open s)\<rparr>"
    have "conn_step ?cfg ?s1 ?s2" using 3 n by (intro conn_step.global_free [of _ ip]) simp_all
    moreover have "conn_step ?cfg ?s2 ?s3"
      using 3 n conn_step.ip_free [of ?s2 ip ?cfg] by simp
    moreover have "conn_step ?cfg ?s3 ?s4" using conn_step.add_ip [of ?s3 ip ?cfg] by simp
    moreover have "conn_step ?cfg ?s4 ?s5" using conn_step.add_global [of ?s4 ip ?cfg] by simp
    ultimately have "(conn_step ?cfg)\<^sup>*\<^sup>* s ?s5"
      using lock by (meson converse_rtranclp_into_rtranclp rtranclp.rtrancl_refl)
    moreover have "same_counts (fst (accept l False ip)) ?s5" "snd (accept l False ip)"
      using n assms by (simp_all add: accept_admits [OF 3] same_counts_def)
    ultimately show ?thesis by (intro exI [of _ ?s5]) simp
  qed
qed

text \<open>
  C35: The caps on connections hold under any interleaving of the statements of Accept and Release: the
  connections open at one time are never more than the global cap, nor those of one address more than
  the cap for an address, and neither counter ever leaves the range of 32 bits. The counters are exact:
  whenever no call is under way they are the numbers of open connections, so that a connection which no
  ban keeps out is refused just when one of the caps is reached.
\<close>

theorem connection_caps_hold:
  assumes "reach (\<lambda>s. s = idle_conns \<and> small_caps cfg) (conn_step cfg) s"
  shows "int (size (cs_open s)) \<le> lc_max_global cfg \<and> int (count (cs_open s) ip) \<le> lc_max_per_ip cfg
    \<and> 0 \<le> cs_global s \<and> cs_global s < 2 ^ 31 \<and> 0 \<le> cs_per_ip s ip \<and> cs_per_ip s ip < 2 ^ 31
    \<and> (cs_releasing s = {#} \<and> li_cfg l = cfg \<and> same_counts l s \<longrightarrow>
       (snd (accept l False ip) \<longleftrightarrow>
         int (size (cs_open s)) < lc_max_global cfg \<and> int (count (cs_open s) ip) < lc_max_per_ip cfg))"
proof -
  have ok: "small_caps cfg" "conns_ok cfg s" using conns.reach_inv [OF assms] by auto
  note D = conns_okD [OF ok(2)] and R = conns_ok_range [OF ok]
  have "snd (accept l False ip) \<longleftrightarrow>
      int (size (cs_open s)) < lc_max_global cfg \<and> int (count (cs_open s) ip) < lc_max_per_ip cfg"
    if q: "cs_releasing s = {#}" "li_cfg l = cfg" "same_counts l s"
  proof -
    have "li_global l = int (size (cs_open s))" using q(3) D(1) by (simp add: same_counts_def)
    moreover have "ip_count (li_per_ip l) ip = int (count (cs_open s) ip)"
    proof -
      have "ip_count (li_per_ip l) ip = cs_per_ip s ip" "cs_accept s = None" using q(3) by (simp_all add: same_counts_def)
      with D(2) [of ip] q(1) show ?thesis by simp
    qed
    ultimately show ?thesis using q(2) by (auto simp: accept_def Let_def)
  qed
  moreover have "int (count (cs_open s) ip) \<le> lc_max_per_ip cfg" using D(2,4) [of ip] by (simp split: if_splits)
  moreover have "int (size (cs_open s)) \<le> lc_max_global cfg" using D(1,3) by simp
  ultimately show ?thesis using R(1,2) R(3,4) [of ip] by (intro conjI impI) (assumption | elim conjE | blast)+
qed

section \<open>Guessing a password\<close>

text \<open>
  Somebody who tries to sign in at the given times, and always fails: each try asks first whether the key
  is banned and is recorded only when it is not. The times of the tries that got as far as a password.
\<close>

fun guesses :: "limiter_config \<Rightarrow> (string \<rightharpoonup> fail_record) \<Rightarrow> string \<Rightarrow> time list \<Rightarrow> time list" where
  "guesses cfg fails key [] = []"
| "guesses cfg fails key (t # ts) =
     (case banned cfg fails key t of
        (fails', b) \<Rightarrow> if b then guesses cfg fails' key ts
                       else t # guesses cfg (record_fail cfg fails' key t) key ts)"

definition fails_of :: "(string \<rightharpoonup> fail_record) \<Rightarrow> string \<Rightarrow> fail_record" where
  "fails_of fails key = (case fails key of None \<Rightarrow> no_failures | Some r \<Rightarrow> r)"

definition in_stretch :: "limiter_config \<Rightarrow> time \<Rightarrow> time \<Rightarrow> bool" where
  "in_stretch cfg t0 t \<longleftrightarrow> t0 \<le> t \<and> t < t0 + lc_auth_ban_window cfg \<and> t \<le> t0 + lc_auth_ban_duration cfg"

lemma banned_cases:
  obtains (never) "fr_banned_at (fails_of fails key) = None" "banned cfg fails key now = (fails, False)"
  | (over) at where "fr_banned_at (fails_of fails key) = Some at" "lc_auth_ban_duration cfg < now - at"
      "banned cfg fails key now = (fails(key \<mapsto> no_failures), False)"
  | (still) at where "fr_banned_at (fails_of fails key) = Some at" "now - at \<le> lc_auth_ban_duration cfg"
      "banned cfg fails key now = (fails, True)"
proof (cases "fr_banned_at (fails_of fails key)")
  case None
  then have "banned cfg fails key now = (fails, False)"
    by (auto simp: banned_def fails_of_def split: option.splits)
  with None never show thesis by blast
next
  case (Some at)
  then obtain r where r: "fails key = Some r" "fr_banned_at r = Some at"
    by (auto simp: fails_of_def no_failures_def split: option.splits)
  show thesis
  proof (cases "lc_auth_ban_duration cfg < now - at")
    case True
    with r have "banned cfg fails key now = (fails(key \<mapsto> no_failures), False)" by (simp add: banned_def)
    with True Some over show thesis by blast
  next
    case False
    with r have "banned cfg fails key now = (fails, True)" by (simp add: banned_def)
    with False Some still show thesis by (meson not_less)
  qed
qed

lemma fails_of_record:
  "fails_of (record_fail cfg fails key now) key =
     (let fresh = filter (\<lambda>t. now - lc_auth_ban_window cfg < t) (fr_failures (fails_of fails key) @ [now])
      in \<lparr>fr_failures = fresh,
          fr_banned_at = (if lc_auth_max_fails cfg \<le> int (length fresh) then Some now
                          else fr_banned_at (fails_of fails key))\<rparr>)"
  by (simp add: record_fail_def fails_of_def Let_def split: option.split)

lemma fails_of_clear [simp]: "fails_of (fails(key \<mapsto> r)) key = r"
  by (simp add: fails_of_def)

lemma guesses_subset: "set (guesses cfg fails key ts) \<subseteq> set ts"
  by (induction ts arbitrary: fails) (auto split: prod.splits if_splits)

lemma guesses_past_stretch:
  assumes "\<forall>t \<in> set ts. \<not> in_stretch cfg t0 t"
  shows "filter (in_stretch cfg t0) (guesses cfg fails key ts) = []"
  using assms guesses_subset [of cfg fails key ts] by (auto simp: filter_empty_conv)

lemma stretch_ends: "sorted (t # ts) \<Longrightarrow> t0 \<le> t \<Longrightarrow> \<not> in_stretch cfg t0 t \<Longrightarrow> \<forall>u \<in> set ts. \<not> in_stretch cfg t0 u"
  by (auto simp: in_stretch_def)

text \<open>Once banned within the stretch, nothing more of it gets through.\<close>

lemma guesses_while_banned:
  "sorted ts \<Longrightarrow> \<forall>t \<in> set ts. t0 \<le> t \<Longrightarrow> fr_banned_at (fails_of fails key) = Some at \<Longrightarrow> t0 \<le> at \<Longrightarrow>
   filter (in_stretch cfg t0) (guesses cfg fails key ts) = []"
proof (induction ts)
  case (Cons t ts)
  show ?case
  proof (cases "in_stretch cfg t0 t")
    case True
    with Cons(5) have "t - at \<le> lc_auth_ban_duration cfg" by (simp add: in_stretch_def)
    with Cons(4) have "banned cfg fails key t = (fails, True)" by (cases rule: banned_cases [of fails key cfg t]) auto
    with Cons show ?thesis by simp
  next
    case False
    with Cons(2,3) have "\<forall>u \<in> set (t # ts). \<not> in_stretch cfg t0 u" using stretch_ends [of t ts t0 cfg] by simp
    then show ?thesis by (rule guesses_past_stretch)
  qed
qed simp

definition recent :: "time \<Rightarrow> fail_record \<Rightarrow> nat" where
  "recent t0 r = length (filter (\<lambda>t. t0 \<le> t) (fr_failures r))"

lemma record_recent:
  assumes "in_stretch cfg t0 t"
  shows "recent t0 (fails_of (record_fail cfg fails key t) key) = Suc (recent t0 (fails_of fails key))"
proof -
  have "t - lc_auth_ban_window cfg < t0" "0 < lc_auth_ban_window cfg" using assms by (simp_all add: in_stretch_def)
  then have "filter (\<lambda>u. t0 \<le> u) (filter (\<lambda>u. t - lc_auth_ban_window cfg < u) (fr_failures (fails_of fails key) @ [t])) =
      filter (\<lambda>u. t0 \<le> u) (fr_failures (fails_of fails key) @ [t])"
    by (auto simp: filter_filter intro!: filter_cong)
  then show ?thesis using assms by (simp add: recent_def fails_of_record Let_def in_stretch_def)
qed

lemma guesses_not_banned:
  "sorted ts \<Longrightarrow> \<forall>t \<in> set ts. t0 \<le> t \<Longrightarrow> fr_banned_at (fails_of fails key) = None \<Longrightarrow>
   int (recent t0 (fails_of fails key)) < lc_auth_max_fails cfg \<Longrightarrow>
   int (length (filter (in_stretch cfg t0) (guesses cfg fails key ts))) + int (recent t0 (fails_of fails key)) \<le> lc_auth_max_fails cfg"
proof (induction ts arbitrary: fails)
  case (Cons t ts)
  let ?f = "record_fail cfg fails key t"
  have b: "banned cfg fails key t = (fails, False)"
    using Cons(4) by (cases rule: banned_cases [of fails key cfg t]) auto
  show ?case
  proof (cases "in_stretch cfg t0 t")
    case False
    with Cons(2,3) have "\<forall>u \<in> set (t # ts). \<not> in_stretch cfg t0 u" using stretch_ends [of t ts t0 cfg] by simp
    from guesses_past_stretch [OF this] Cons(5) show ?thesis by simp
  next
    case True
    note n = record_recent [OF True, of fails key]
    have g: "length (filter (in_stretch cfg t0) (guesses cfg fails key (t # ts))) =
        Suc (length (filter (in_stretch cfg t0) (guesses cfg ?f key ts)))"
      using True b by simp
    show ?thesis
    proof (cases "fr_banned_at (fails_of ?f key)")
      case None
      then have "int (recent t0 (fails_of ?f key)) < lc_auth_max_fails cfg"
        using length_filter_le [of "\<lambda>t. t0 \<le> t" "fr_failures (fails_of ?f key)"]
        by (auto simp: fails_of_record recent_def Let_def split: if_splits)
      with Cons(1) [OF _ _ None] Cons(2,3) g n show ?thesis by simp
    next
      case (Some at)
      with Cons(4) have "at = t" by (auto simp: fails_of_record Let_def split: if_splits)
      with Some have "filter (in_stretch cfg t0) (guesses cfg ?f key ts) = []"
        using guesses_while_banned [of ts t0 ?f key at cfg] Cons(2,3) by auto
      with g Cons(5) show ?thesis by simp
    qed
  qed
qed simp

text \<open>Before the stretch: whatever happened, it is all older than the stretch.\<close>

definition before :: "time \<Rightarrow> fail_record \<Rightarrow> bool" where
  "before t0 r \<longleftrightarrow> (\<forall>t \<in> set (fr_failures r). t < t0) \<and> (\<forall>at. fr_banned_at r = Some at \<longrightarrow> at < t0)"

lemma before_no_failures [simp]: "before t0 no_failures"
  by (simp add: before_def no_failures_def)

lemma before_record: "t < t0 \<Longrightarrow> before t0 (fails_of fails key) \<Longrightarrow> before t0 (fails_of (record_fail cfg fails key t) key)"
  by (auto simp: before_def fails_of_record Let_def)

lemma guesses_before:
  assumes "sorted ts" "before t0 (fails_of fails key)" "0 < lc_auth_max_fails cfg"
  shows "int (length (filter (in_stretch cfg t0) (guesses cfg fails key ts))) \<le> lc_auth_max_fails cfg"
  using assms
proof (induction ts arbitrary: fails)
  case (Cons t ts)
  have fresh: "recent t0 r = 0" if "before t0 r" for r using that by (auto simp: before_def recent_def filter_empty_conv)
  show ?case
  proof (cases "t < t0")
    case True
    then have out: "\<not> in_stretch cfg t0 t" by (simp add: in_stretch_def)
    show ?thesis
      by (cases rule: banned_cases [of fails key cfg t]) (use Cons True out in \<open>auto simp: before_record\<close>)
  next
    case False
    then have later: "\<forall>u \<in> set (t # ts). t0 \<le> u" using Cons(2) by auto
    show ?thesis
    proof (cases rule: banned_cases [of fails key cfg t])
      case never
      with guesses_not_banned [OF Cons(2) later never(1), of cfg] fresh [OF Cons(3)] Cons(4) show ?thesis
        by (simp del: guesses.simps)
    next
      case (over at)
      let ?f = "fails(key \<mapsto> no_failures)"
      have "fr_banned_at (fails_of ?f key) = None" by (simp add: no_failures_def)
      moreover have "guesses cfg fails key (t # ts) = guesses cfg ?f key (t # ts)"
        using over(3) by (simp add: banned_def no_failures_def)
      ultimately show ?thesis
        using guesses_not_banned [OF Cons(2) later, of ?f key cfg] fresh [OF before_no_failures] Cons(4)
        by (simp del: guesses.simps)
    next
      case (still at)
      with Cons show ?thesis by simp
    qed
  qed
qed simp


section \<open>A gateway with room for two\<close>

definition two_conns :: limiter_config where
  "two_conns = \<lparr>lc_max_per_ip = 1, lc_max_global = 2, lc_auth_max_fails = 2, lc_auth_ban_window = minute, lc_auth_ban_duration = minute\<rparr>"

definition one_open :: conn_state where
  "one_open = idle_conns\<lparr>cs_per_ip := (\<lambda>_. 0)(''a'' := 1), cs_global := 1, cs_open := {#''a''#}\<rparr>"

definition one_open_limiter :: limiter where
  "one_open_limiter = (new_limiter two_conns)\<lparr>li_global := 1, li_per_ip := [''a'' \<mapsto> 1]\<rparr>"

lemma one_open_reached: "reach (\<lambda>s. s = idle_conns \<and> small_caps two_conns) (conn_step two_conns) one_open"
proof -
  let ?R = "reach (\<lambda>s. s = idle_conns \<and> small_caps two_conns) (conn_step two_conns)"
  let ?s1 = "idle_conns\<lparr>cs_accept := Some (CheckGlobal ''a'')\<rparr>" and ?s2 = "idle_conns\<lparr>cs_accept := Some (CheckIp ''a'')\<rparr>"
  let ?s3 = "idle_conns\<lparr>cs_accept := Some (AddIp ''a'')\<rparr>"
  let ?s4 = "idle_conns\<lparr>cs_per_ip := (\<lambda>_. 0)(''a'' := 1), cs_accept := Some (AddGlobal ''a'')\<rparr>"
  have "?R idle_conns" by (rule reach_start) (simp add: two_conns_def small_caps_def)
  then have "?R ?s1" by (rule reach_step) (rule conn_step.lock, simp add: idle_conns_def)
  then have "?R ?s2" by (rule reach_step)
      (use conn_step.global_free [of ?s1 "''a''" two_conns] in \<open>simp add: idle_conns_def two_conns_def\<close>)
  then have "?R ?s3" by (rule reach_step)
      (use conn_step.ip_free [of ?s2 "''a''" two_conns] in \<open>simp add: idle_conns_def two_conns_def\<close>)
  then have "?R ?s4" by (rule reach_step)
      (use conn_step.add_ip [of ?s3 "''a''" two_conns] in \<open>simp add: idle_conns_def two_conns_def int32_def\<close>)
  then show ?thesis by (rule reach_step)
      (use conn_step.add_global [of ?s4 "''a''" two_conns] in \<open>simp add: idle_conns_def one_open_def int32_def\<close>)
qed

lemma two_conns_defaults: "with_defaults two_conns = two_conns"
  by (simp add: two_conns_def with_defaults_def duration_defs)

lemma one_open_same: "same_counts one_open_limiter one_open" "li_cfg one_open_limiter = two_conns"
  by (simp_all add: same_counts_def one_open_limiter_def one_open_def new_limiter_def two_conns_defaults
      idle_conns_def ip_count_def)

lemma one_open_conns: "cs_open one_open = {#''a''#}" "cs_releasing one_open = {#}"
    "lc_max_global two_conns = 2" "lc_max_per_ip two_conns = 1"
  by (simp_all add: one_open_def idle_conns_def two_conns_def)

theorem connection_caps_hold_witness:
  "int (size (cs_open one_open)) \<le> 2 \<and> int (count (cs_open one_open) ''a'') \<le> 1 \<and>
   \<not> snd (accept one_open_limiter False ''a'') \<and> snd (accept one_open_limiter False ''b'')"
  using connection_caps_hold [OF one_open_reached, of "''a''" one_open_limiter]
    connection_caps_hold [OF one_open_reached, of "''b''" one_open_limiter]
  by (simp add: one_open_same one_open_conns)


end
