(* ===== verification/Go_Json.thy ===== *)
theory Go_Json
  imports Go_Utf8
begin

text \<open>
  The part of Go's package encoding/json that the audit log hashes: strings with HTML escaping off,
  integers, null and a map of strings, in an array. The reader below takes the encoding apart again:
  the encoding of a value has no ambiguity, and no value is a proper part of another's text.
\<close>

section \<open>Writing\<close>

definition json_hex :: "nat \<Rightarrow> char" where
  "json_hex n = (if n < 10 then char_of (48 + n) else char_of (87 + n))"

definition json_u :: "nat \<Rightarrow> string" where
  "json_u r = CHR 92 # CHR ''u'' #
     [json_hex (r div 4096 mod 16), json_hex (r div 256 mod 16), json_hex (r div 16 mod 16), json_hex (r mod 16)]"

definition json_byte :: "char \<Rightarrow> string" where
  "json_byte c =
     (if c = CHR 34 \<or> c = CHR 92 then [CHR 92, c]
      else if bcode c = 8 then [CHR 92, CHR ''b'']
      else if bcode c = 12 then [CHR 92, CHR ''f'']
      else if bcode c = 10 then [CHR 92, CHR ''n'']
      else if bcode c = 13 then [CHR 92, CHR ''r'']
      else if bcode c = 9 then [CHR 92, CHR ''t'']
      else if bcode c < 32 then json_u (bcode c)
      else [c])"

function json_escape :: "string \<Rightarrow> string" where
  "json_escape [] = []"
| "json_escape (c # cs) =
     (if bcode c < 128 then json_byte c @ json_escape cs
      else case decode_rune (c # cs) of
        None \<Rightarrow> json_u rune_error @ json_escape cs
      | Some (r, n) \<Rightarrow>
          (if r = 8232 \<or> r = 8233 then json_u r else take n (c # cs)) @ json_escape (drop (n - 1) cs))"
  by pat_completeness auto
termination by (relation "measure length") auto

definition json_quote :: "string \<Rightarrow> string" where
  "json_quote s = CHR 34 # json_escape s @ [CHR 34]"

datatype json =
    JStr string
  | JInt int
  | JNull
  | JObj "(string \<times> string) list"

definition json_member :: "string \<times> string \<Rightarrow> string" where
  "json_member m = json_quote (fst m) @ '':'' @ json_quote (snd m)"

definition json_members :: "(string \<times> string) list \<Rightarrow> string" where
  "json_members ms = join '','' (map json_member ms)"

fun json_value :: "json \<Rightarrow> string" where
  "json_value (JStr s) = json_quote s"
| "json_value (JInt i) = int_dec i"
| "json_value JNull = ''null''"
| "json_value (JObj ms) = ''{'' @ json_members ms @ ''}''"

definition json_array :: "json list \<Rightarrow> string" where
  "json_array vs = ''['' @ join '','' (map json_value vs) @ '']''"

section \<open>Runes and their bytes\<close>

text \<open>The bits of a rune are those of its bytes: \<open>y\<close> is the last byte's share.\<close>

lemma low_bits: "(y::nat) < 64 \<Longrightarrow> (x * 64 + y) div 64 = x \<and> (x * 64 + y) mod 64 = y"
  by auto

lemma cont_byte_bits: "cont_byte c \<Longrightarrow> bcode c - 128 < 64"
  by (auto simp: cont_byte_def)

lemma encode_two:
  "r div 64 = x \<Longrightarrow> r mod 64 = y \<Longrightarrow> \<not> r < 128 \<Longrightarrow> r < 2048 \<Longrightarrow>
     encode_rune r = [char_of (192 + x), char_of (128 + y)]"
  by (simp add: encode_rune_def)

lemma encode_three:
  "r div 4096 = x \<Longrightarrow> r div 64 mod 64 = y \<Longrightarrow> \<not> r < 2048 \<Longrightarrow> r < 65536 \<Longrightarrow> r mod 64 = z \<Longrightarrow>
     encode_rune r = [char_of (224 + x), char_of (128 + y), char_of (128 + z)]"
  by (simp add: encode_rune_def)

lemma encode_four:
  "\<not> r < 65536 \<Longrightarrow> r div 262144 mod 8 = w \<Longrightarrow> r div 4096 mod 64 = x \<Longrightarrow> r div 64 mod 64 = y \<Longrightarrow> r mod 64 = z \<Longrightarrow>
     encode_rune r = [char_of (240 + w), char_of (128 + x), char_of (128 + y), char_of (128 + z)]"
  by (simp add: encode_rune_def)

lemma rune_two:
  assumes "194 \<le> bcode a" "bcode a \<le> 223" "cont_byte b"
  shows "encode_rune ((bcode a - 192) * 64 + (bcode b - 128)) = [a, b]"
proof -
  let ?r = "(bcode a - 192) * 64 + (bcode b - 128)"
  have "bcode b - 128 < 64" using assms(3) by (rule cont_byte_bits)
  from low_bits [OF this, of "bcode a - 192"] have
    "?r div 64 = bcode a - 192" "?r mod 64 = bcode b - 128" by auto
  moreover have "\<not> ?r < 128" "?r < 2048" using assms by (auto simp: cont_byte_def)
  ultimately have "encode_rune ?r = [char_of (192 + (bcode a - 192)), char_of (128 + (bcode b - 128))]"
    by (rule encode_two)
  moreover have "192 + (bcode a - 192) = bcode a" "128 + (bcode b - 128) = bcode b"
    using assms by (simp_all add: cont_byte_def)
  ultimately show ?thesis by (simp only: char_of_code)
qed

lemma rune_three:
  assumes "224 \<le> bcode a" "bcode a \<le> 239" "second_ok (bcode a) b" "cont_byte c"
  shows "encode_rune ((bcode a - 224) * 4096 + (bcode b - 128) * 64 + (bcode c - 128)) = [a, b, c]"
proof -
  let ?q = "(bcode a - 224) * 64 + (bcode b - 128)"
  let ?r = "(bcode a - 224) * 4096 + (bcode b - 128) * 64 + (bcode c - 128)"
  have b: "128 \<le> bcode b" "bcode b \<le> 191"
    using assms(3) by (auto simp: second_ok_def cont_byte_def split: if_splits)
  have r: "?r = ?q * 64 + (bcode c - 128)" by simp
  have "bcode c - 128 < 64" using assms(4) by (rule cont_byte_bits)
  from low_bits [OF this, of ?q] have q: "?r div 64 = ?q" "?r mod 64 = bcode c - 128"
    by (simp_all only: r)
  have "bcode b - 128 < 64" using b by simp
  from low_bits [OF this, of "bcode a - 224"] have
    "?q div 64 = bcode a - 224" "?q mod 64 = bcode b - 128" by auto
  moreover have "?r div 4096 = ?q div 64" using q(1) div_mult2_eq [of ?r 64 64] by simp
  ultimately have "?r div 4096 = bcode a - 224" "?r div 64 mod 64 = bcode b - 128"
    using q(1) by simp_all
  moreover have "\<not> ?r < 2048" "?r < 65536"
    using assms b by (auto simp: cont_byte_def second_ok_def split: if_splits)
  ultimately have "encode_rune ?r = [char_of (224 + (bcode a - 224)), char_of (128 + (bcode b - 128)), char_of (128 + (bcode c - 128))]"
    using q(2) by (intro encode_three)
  moreover have "224 + (bcode a - 224) = bcode a" "128 + (bcode b - 128) = bcode b" "128 + (bcode c - 128) = bcode c"
    using assms b by (simp_all add: cont_byte_def)
  ultimately show ?thesis by (simp only: char_of_code)
qed

lemma rune_four:
  assumes "240 \<le> bcode a" "bcode a \<le> 244" "second_ok (bcode a) b" "cont_byte c" "cont_byte d"
  shows "encode_rune ((bcode a - 240) * 262144 + (bcode b - 128) * 4096 + (bcode c - 128) * 64 + (bcode d - 128)) =
    [a, b, c, d]"
proof -
  let ?p = "(bcode a - 240) * 64 + (bcode b - 128)"
  let ?q = "?p * 64 + (bcode c - 128)"
  let ?r = "(bcode a - 240) * 262144 + (bcode b - 128) * 4096 + (bcode c - 128) * 64 + (bcode d - 128)"
  have b: "128 \<le> bcode b" "bcode b \<le> 191"
    using assms(3) by (auto simp: second_ok_def cont_byte_def split: if_splits)
  have r: "?r = ?q * 64 + (bcode d - 128)" by simp
  have "bcode d - 128 < 64" using assms(5) by (rule cont_byte_bits)
  from low_bits [OF this, of ?q] have q: "?r div 64 = ?q" "?r mod 64 = bcode d - 128"
    by (simp_all only: r)
  have "bcode c - 128 < 64" using assms(4) by (rule cont_byte_bits)
  from low_bits [OF this, of ?p] have p: "?q div 64 = ?p" "?q mod 64 = bcode c - 128" by auto
  have "bcode b - 128 < 64" using b by simp
  from low_bits [OF this, of "bcode a - 240"] have
    a: "?p div 64 = bcode a - 240" "?p mod 64 = bcode b - 128" by auto
  have x: "?r div 4096 = ?p" using q(1) p(1) div_mult2_eq [of ?r 64 64] by simp
  then have w: "?r div 262144 = bcode a - 240" using a(1) div_mult2_eq [of ?r 4096 64] by simp
  have big: "\<not> ?r < 65536"
    using assms b by (auto simp: cont_byte_def second_ok_def split: if_splits)
  have w8: "(bcode a - 240) mod 8 = bcode a - 240" using assms by simp
  have "encode_rune ?r = [char_of (240 + (bcode a - 240)), char_of (128 + (bcode b - 128)),
      char_of (128 + (bcode c - 128)), char_of (128 + (bcode d - 128))]"
    by (rule encode_four [OF big]) (simp_all only: w w8 x a q p)
  moreover have "240 + (bcode a - 240) = bcode a" "128 + (bcode b - 128) = bcode b"
      "128 + (bcode c - 128) = bcode c" "128 + (bcode d - 128) = bcode d"
    using assms b by (simp_all add: cont_byte_def)
  ultimately show ?thesis by (simp only: char_of_code)
qed

text \<open>The four shapes of a well-formed start.\<close>

lemma decode_rune_cases:
  assumes "decode_rune s = Some (r, n)"
  obtains (one) c t where "s = c # t" "bcode c < 128" "r = bcode c" "n = 1"
    | (two) a b t where "s = a # b # t" "194 \<le> bcode a" "bcode a \<le> 223" "cont_byte b"
        "r = (bcode a - 192) * 64 + (bcode b - 128)" "n = 2"
    | (three) a b c t where "s = a # b # c # t" "224 \<le> bcode a" "bcode a \<le> 239" "second_ok (bcode a) b" "cont_byte c"
        "r = (bcode a - 224) * 4096 + (bcode b - 128) * 64 + (bcode c - 128)" "n = 3"
    | (four) a b c d t where "s = a # b # c # d # t" "240 \<le> bcode a" "bcode a \<le> 244" "second_ok (bcode a) b"
        "cont_byte c" "cont_byte d"
        "r = (bcode a - 240) * 262144 + (bcode b - 128) * 4096 + (bcode c - 128) * 64 + (bcode d - 128)" "n = 4"
proof -
  obtain c t where s: "s = c # t" using assms by (cases s) (auto simp: decode_rune_def)
  consider "bcode c < 128" | "194 \<le> bcode c" "bcode c \<le> 223" | "224 \<le> bcode c" "bcode c \<le> 239"
    | "240 \<le> bcode c" "bcode c \<le> 244"
    using assms s by (fastforce simp: decode_rune_def Let_def split: if_splits)
  then show thesis
  proof cases
    case 1 with assms s show ?thesis by (intro one) (auto simp: decode_rune_def)
  next
    case 2 with assms s show ?thesis by (cases t) (auto simp: decode_rune_def intro: two split: if_splits)
  next
    case 3
    with assms s show ?thesis
      by (cases t; cases "tl t") (auto simp: decode_rune_def Let_def intro: three split: if_splits)
  next
    case 4
    with assms s show ?thesis
      by (cases t; cases "tl t"; cases "tl (tl t)") (auto simp: decode_rune_def Let_def intro: four split: if_splits)
  qed
qed

lemma decode_rune_bytes: "decode_rune s = Some (r, n) \<Longrightarrow> take n s = encode_rune r"
  by (erule decode_rune_cases) (simp_all add: encode_rune_small rune_two rune_three rune_four)

lemma decode_rune_append:
  assumes "decode_rune s = Some (r, n)" shows "decode_rune (s @ t) = Some (r, n)"
  using assms by (rule decode_rune_cases) (use assms in \<open>simp_all add: decode_rune_def\<close>)

lemma decode_rune_take:
  assumes "decode_rune s = Some (r, n)" shows "decode_rune (take n s) = Some (r, n)"
  using assms by (rule decode_rune_cases) (use assms in \<open>simp_all add: decode_rune_def\<close>)

text \<open>Two cases of a valid string that is not empty: its first rune, and a valid rest.\<close>

lemma valid_utf8_Cons:
  "valid_utf8 (c # cs) \<longleftrightarrow>
     (\<exists>r n. decode_rune (c # cs) = Some (r, n) \<and> valid_utf8 (drop (n - 1) cs))"
  by (cases "decode_rune (c # cs)") auto

lemma valid_utf8_append: "valid_utf8 a \<Longrightarrow> valid_utf8 b \<Longrightarrow> valid_utf8 (a @ b)"
proof (induction a rule: valid_utf8.induct)
  case (2 c cs)
  then obtain r n where d: "decode_rune (c # cs) = Some (r, n)" "valid_utf8 (drop (n - 1) cs)"
    using valid_utf8_Cons by blast
  then have "n - 1 \<le> length cs" using decode_rune_width [of "c # cs"] by fastforce
  with 2 d show ?case using decode_rune_append [OF d(1), of b] by simp
qed simp

lemma valid_utf8_rune: "decode_rune s = Some (r, n) \<Longrightarrow> valid_utf8 (encode_rune r)"
proof -
  assume d: "decode_rune s = Some (r, n)"
  have n: "0 < n" "n \<le> length s" using decode_rune_width [OF d] by auto
  then obtain c cs where cs: "take n s = c # cs" by (cases "take n s") auto
  with n have "length cs = n - 1" using length_take [of n s] by simp
  with cs decode_rune_take [OF d] have "valid_utf8 (take n s)" by simp
  then show ?thesis by (simp add: decode_rune_bytes [OF d])
qed

section \<open>Reading\<close>

definition hex_val :: "char \<Rightarrow> nat" where
  "hex_val c = (if bcode c < 58 then bcode c - 48 else bcode c - 87)"

definition unescape_byte :: "char \<Rightarrow> char" where
  "unescape_byte e =
     (if e = CHR ''b'' then char_of (8::nat) else if e = CHR ''f'' then char_of (12::nat)
      else if e = CHR ''n'' then char_of (10::nat) else if e = CHR ''r'' then char_of (13::nat)
      else if e = CHR ''t'' then char_of (9::nat) else e)"

text \<open>What a string holds and what follows its closing quote.\<close>

fun json_read :: "string \<Rightarrow> (string \<times> string) option" where
  "json_read [] = None"
| "json_read (c # cs) =
     (if c = CHR 34 then Some ([], cs)
      else if c = CHR 92 then
        (case cs of
           [] \<Rightarrow> None
         | e # es \<Rightarrow>
             (if e = CHR ''u'' then
                (case es of
                   h1 # h2 # h3 # h4 # rest \<Rightarrow>
                     map_option (apfst ((@) (encode_rune
                       (hex_val h1 * 4096 + hex_val h2 * 256 + hex_val h3 * 16 + hex_val h4)))) (json_read rest)
                 | _ \<Rightarrow> None)
              else map_option (apfst ((#) (unescape_byte e))) (json_read es)))
      else map_option (apfst ((#) c)) (json_read cs))"

lemma hex_val_json_hex: "n < 16 \<Longrightarrow> hex_val (json_hex n) = n"
  by (auto simp: hex_val_def json_hex_def)

lemma four_digits:
  "(r::nat) = b * 16 + x \<Longrightarrow> b = c * 16 + y \<Longrightarrow> c = d * 16 + z \<Longrightarrow> d * 4096 + z * 256 + y * 16 + x = r"
  by simp

lemma hex_digits_value:
  "(r div 4096) * 4096 + (r div 256 mod 16) * 256 + (r div 16 mod 16) * 16 + r mod 16 = (r::nat)"
proof -
  have "r div 256 = r div 16 div 16" "r div 4096 = r div 256 div 16"
    using div_mult2_eq [of r 16 16] div_mult2_eq [of r 256 16] by simp_all
  then show ?thesis
    using four_digits [of r "r div 16" "r mod 16" "r div 256" "r div 16 mod 16" "r div 4096" "r div 256 mod 16"]
      div_mult_mod_eq [of "r div 256" 16] div_mult_mod_eq [of "r div 16" 16] div_mult_mod_eq [of r 16]
    by (simp only:)
qed

lemma append_one: "(@) [c] = (#) c"
  by (rule ext) simp

lemma json_read_u:
  "r < 65536 \<Longrightarrow> json_read (json_u r @ s) = map_option (apfst ((@) (encode_rune r))) (json_read s)"
  by (simp add: json_u_def hex_val_json_hex hex_digits_value)

lemma bcode_eq: "bcode c = n \<Longrightarrow> c = char_of n"
  by (metis char_of_code)

lemma json_byte_cases:
  "json_byte c = json_u (bcode c) \<or>
   (\<exists>e. json_byte c = [CHR 92, e] \<and> e \<noteq> CHR ''u'' \<and> unescape_byte e = c) \<or>
   json_byte c = [c] \<and> c \<noteq> CHR 34 \<and> c \<noteq> CHR 92"
proof -
  consider "c = CHR 34" | "c = CHR 92" | "bcode c = 8" | "bcode c = 12" | "bcode c = 10" | "bcode c = 13" | "bcode c = 9"
    | "c \<noteq> CHR 34" "c \<noteq> CHR 92" "bcode c \<noteq> 8" "bcode c \<noteq> 12" "bcode c \<noteq> 10" "bcode c \<noteq> 13" "bcode c \<noteq> 9"
    by blast
  then show ?thesis
    by cases (auto simp: json_byte_def unescape_byte_def dest: bcode_eq)
qed

lemma json_read_byte:
  "bcode c < 128 \<Longrightarrow> json_read (json_byte c @ s) = map_option (apfst ((#) c)) (json_read s)"
  using json_byte_cases [of c] by (elim disjE exE conjE) (simp_all add: json_read_u encode_rune_small append_one)

lemma json_read_high:
  "\<forall>c \<in> set bs. 128 \<le> bcode c \<Longrightarrow> json_read (bs @ s) = map_option (apfst ((@) bs)) (json_read s)"
proof (induction bs)
  case (Cons b bs)
  then have "b \<noteq> CHR 34" "b \<noteq> CHR 92" by auto
  with Cons show ?case by (cases "json_read s") auto
qed (cases "json_read s"; auto)

text \<open>A valid string reads back, and the reader stops at its end.\<close>

lemma json_read_escape:
  "valid_utf8 s \<Longrightarrow> json_read (json_escape s @ CHR 34 # t) = Some (s, t)"
proof (induction s rule: json_escape.induct)
  case (2 c cs)
  then obtain r n where d: "decode_rune (c # cs) = Some (r, n)" "valid_utf8 (drop (n - 1) cs)"
    using valid_utf8_Cons by blast
  note w = decode_rune_width [OF d(1)]
  show ?case
  proof (cases "bcode c < 128")
    case True
    with d have "valid_utf8 cs" by (auto simp: decode_rune_ascii)
    with True 2(1) show ?thesis by (simp add: json_read_byte)
  next
    case False
    from w obtain k where k: "n = Suc k" by (cases n) auto
    have IH: "json_read (json_escape (drop (n - 1) cs) @ CHR 34 # t) = Some (drop (n - 1) cs, t)"
      using 2(3) [OF False d(1) refl] d(2) by simp
    have high: "\<forall>x \<in> set (take n (c # cs)). 128 \<le> bcode x"
      using decode_rune_multi [OF d(1)] False k by auto
    have "encode_rune r @ drop (n - 1) cs = c # cs"
      using decode_rune_bytes [OF d(1)] k append_take_drop_id [of k cs] by (metis append_Cons diff_Suc_1 take_Suc_Cons)
    moreover have "take n (c # cs) @ drop (n - 1) cs = c # cs" using k by simp
    ultimately show ?thesis
      using False d(1) IH by (cases "r = 8232 \<or> r = 8233") (auto simp: json_read_u json_read_high [OF high])
  qed
qed simp

section \<open>Numbers\<close>

lemma digits_value_snoc: "digits_value (ds @ [c]) = 10 * digits_value ds + (bcode c - 48)"
  by (simp add: digits_value_def)

lemma nat_dec_value: "digits_value (nat_dec n) = n"
proof (induction n rule: nat_dec.induct)
  case (1 n)
  show ?case
  proof (cases "n < 10")
    case True
    then show ?thesis by (subst nat_dec.simps) (simp add: digits_value_def digit_char_def)
  next
    case False
    then have "digits_value (nat_dec n) = 10 * (n div 10) + (bcode (digit_char (n mod 10)) - 48)"
      using 1 by (subst nat_dec.simps) (simp add: digits_value_snoc)
    also have "\<dots> = n" by (simp add: digit_char_def)
    finally show ?thesis .
  qed
qed

lemma nat_dec_digits: "list_all is_digit (nat_dec n)"
proof (induction n rule: nat_dec.induct)
  case (1 n)
  have "is_digit (digit_char d)" if "d < 10" for d
    using that by (auto simp: digit_char_def is_digit_def)
  with 1 show ?case by (subst nat_dec.simps) simp
qed

lemma nat_dec_not_Nil: "nat_dec n \<noteq> []"
  by (subst nat_dec.simps) simp

definition number_byte :: "char \<Rightarrow> bool" where
  "number_byte c \<longleftrightarrow> is_digit c \<or> c = CHR ''-''"

definition dec_value :: "string \<Rightarrow> int" where
  "dec_value s = (if s \<noteq> [] \<and> hd s = CHR ''-'' then - int (digits_value (tl s)) else int (digits_value s))"

lemma int_dec_bytes: "list_all number_byte (int_dec i)" and int_dec_not_Nil: "int_dec i \<noteq> []"
proof -
  have "list_all number_byte (nat_dec n)" for n
    using nat_dec_digits [of n] by (auto simp: list_all_iff number_byte_def)
  then show "list_all number_byte (int_dec i)" "int_dec i \<noteq> []"
    by (auto simp: int_dec_def nat_dec_not_Nil number_byte_def)
qed

lemma int_dec_value: "dec_value (int_dec i) = i"
proof -
  have "hd (nat_dec n) \<noteq> CHR ''-''" for n
    using nat_dec_digits [of n] nat_dec_not_Nil [of n] by (cases "nat_dec n") (auto simp: is_digit_def)
  then show ?thesis by (auto simp: dec_value_def int_dec_def nat_dec_value nat_dec_not_Nil)
qed

section \<open>Values\<close>

text \<open>What may follow a value inside an array or an object.\<close>

definition delimited :: "string \<Rightarrow> bool" where
  "delimited s \<longleftrightarrow> (\<exists>t. s = CHR '','' # t \<or> s = CHR '']'' # t \<or> s = CHR ''}'' # t)"

text \<open>
  Encodings of which no one can be mistaken for another: a list of them, separated by commas and closed
  by a bracket, can be read in one way only. Members of an object and elements of an array are such lists.
\<close>

locale separable =
  fixes enc :: "'a \<Rightarrow> string" and ok :: "'a \<Rightarrow> bool" and close :: char
  assumes apart: "ok x \<Longrightarrow> ok y \<Longrightarrow> delimited s \<Longrightarrow> delimited t \<Longrightarrow> enc x @ s = enc y @ t \<Longrightarrow> x = y \<and> s = t"
    and starts: "ok x \<Longrightarrow> delimited s \<Longrightarrow> hd (enc x @ s) \<noteq> close"
    and closing: "close = CHR '']'' \<or> close = CHR ''}''"
begin

definition rest_of :: "'a list \<Rightarrow> string \<Rightarrow> string" where
  "rest_of xs s = concat (map (\<lambda>x. CHR '','' # enc x) xs) @ close # s"

lemma join_rest: "join '','' (map enc (x # xs)) @ close # s = enc x @ rest_of xs s"
  by (induction xs arbitrary: x) (auto simp: rest_of_def)

lemma rest_delimited: "delimited (rest_of xs s)"
  using closing by (cases xs) (auto simp: rest_of_def delimited_def)

lemma rest_of_Cons: "rest_of (x # xs) s = CHR '','' # enc x @ rest_of xs s"
  by (simp add: rest_of_def)

lemma rest_inject:
  "list_all ok xs \<Longrightarrow> list_all ok ys \<Longrightarrow> rest_of xs s = rest_of ys t \<Longrightarrow> xs = ys \<and> s = t"
proof (induction xs arbitrary: ys)
  case Nil
  then show ?case using closing by (cases ys) (auto simp: rest_of_def)
next
  case (Cons x xs)
  then obtain y ys' where ys: "ys = y # ys'" using closing by (cases ys) (auto simp: rest_of_def)
  with Cons have "enc x @ rest_of xs s = enc y @ rest_of ys' t" by (simp add: rest_of_Cons)
  with Cons ys have "x = y" "rest_of xs s = rest_of ys' t"
    using apart [OF _ _ rest_delimited rest_delimited, of x y] by simp_all
  with Cons ys show ?case by simp
qed

lemma join_inject:
  assumes "list_all ok xs" "list_all ok ys" "join '','' (map enc xs) @ close # s = join '','' (map enc ys) @ close # t"
  shows "xs = ys \<and> s = t"
proof (cases xs; cases ys)
  fix x xs' y ys' assume xs: "xs = x # xs'" "ys = y # ys'"
  with assms(3) have "enc x @ rest_of xs' s = enc y @ rest_of ys' t" by (simp only: join_rest)
  with assms(1,2) xs have "x = y" "rest_of xs' s = rest_of ys' t"
    using apart [OF _ _ rest_delimited rest_delimited, of x y] by simp_all
  with assms xs show ?thesis using rest_inject [of xs' ys'] by simp
next
  fix y ys' assume ys: "xs = []" "ys = y # ys'"
  with assms(3) have "hd (enc y @ rest_of ys' t) = close" by (metis join_rest join.simps(1) append_Nil list.sel(1) list.map(1))
  with assms(2) ys show ?thesis using starts [OF _ rest_delimited, of y] by simp
next
  fix x xs' assume xs: "xs = x # xs'" "ys = []"
  with assms(3) have "hd (enc x @ rest_of xs' s) = close" by (metis join_rest join.simps(1) append_Nil list.sel(1) list.map(1))
  with assms(1) xs show ?thesis using starts [OF _ rest_delimited, of x] by simp
qed (use assms in simp)

end

lemma json_quote_inject:
  assumes "valid_utf8 a" "valid_utf8 b" "json_quote a @ s = json_quote b @ t"
  shows "a = b \<and> s = t"
proof -
  from assms(3) have "json_escape a @ CHR 34 # s = json_escape b @ CHR 34 # t"
    by (simp add: json_quote_def)
  then have "Some (a, s) = Some (b, t)"
    using json_read_escape [OF assms(1), of s] json_read_escape [OF assms(2), of t] by (simp only:)
  then show ?thesis by simp
qed

definition member_valid :: "string \<times> string \<Rightarrow> bool" where
  "member_valid m \<longleftrightarrow> valid_utf8 (fst m) \<and> valid_utf8 (snd m)"

interpretation members: separable json_member member_valid "CHR ''}''"
proof
  fix m n s t assume v: "member_valid m" "member_valid n" and eq: "json_member m @ s = json_member n @ t"
  from eq have "json_quote (fst m) @ CHR '':'' # json_quote (snd m) @ s = json_quote (fst n) @ CHR '':'' # json_quote (snd n) @ t"
    by (simp add: json_member_def)
  with v have 1: "fst m = fst n" "json_quote (snd m) @ s = json_quote (snd n) @ t"
    using json_quote_inject [of "fst m" "fst n"] by (auto simp: member_valid_def)
  with v have "snd m = snd n \<and> s = t" using json_quote_inject [of "snd m" "snd n"] by (simp add: member_valid_def)
  with 1 show "m = n \<and> s = t" by (simp add: prod_eq_iff)
qed (simp_all add: json_member_def json_quote_def)

fun json_valid :: "json \<Rightarrow> bool" where
  "json_valid (JStr s) \<longleftrightarrow> valid_utf8 s"
| "json_valid (JInt i) \<longleftrightarrow> True"
| "json_valid JNull \<longleftrightarrow> True"
| "json_valid (JObj ms) \<longleftrightarrow> list_all member_valid ms"

lemma number_apart:
  assumes "delimited s" "delimited t" "int_dec i @ s = int_dec j @ t" shows "i = j \<and> s = t"
proof -
  have "takeWhile number_byte (int_dec k @ r) = int_dec k" if "delimited r" for k r
    using int_dec_bytes [of k] that
    by (auto simp: delimited_def takeWhile_append2 list_all_iff number_byte_def is_digit_def)
  with assms have "int_dec i = int_dec j" by metis
  with assms(3) show ?thesis by (metis int_dec_value same_append_eq)
qed

fun json_kind :: "json \<Rightarrow> nat" where
  "json_kind (JStr _) = 0"
| "json_kind (JInt _) = 1"
| "json_kind JNull = 2"
| "json_kind (JObj _) = 3"

lemma json_value_hd:
  "hd (json_value v @ s) =
     (case v of JStr _ \<Rightarrow> CHR 34 | JInt i \<Rightarrow> hd (int_dec i) | JNull \<Rightarrow> CHR ''n'' | JObj _ \<Rightarrow> CHR ''{'')"
  by (cases v) (simp_all add: json_quote_def int_dec_not_Nil)

lemma int_dec_hd:
  "hd (int_dec i) \<noteq> CHR 34" "hd (int_dec i) \<noteq> CHR ''n''" "hd (int_dec i) \<noteq> CHR ''{''" "hd (int_dec i) \<noteq> CHR '']''"
proof -
  have "number_byte (hd (int_dec i))"
    using int_dec_bytes [of i] int_dec_not_Nil [of i] by (cases "int_dec i") simp_all
  then show "hd (int_dec i) \<noteq> CHR 34" "hd (int_dec i) \<noteq> CHR ''n''" "hd (int_dec i) \<noteq> CHR ''{''" "hd (int_dec i) \<noteq> CHR '']''"
    by (auto simp: number_byte_def is_digit_def)
qed

interpretation elements: separable json_value json_valid "CHR '']''"
proof
  fix v w s t assume v: "json_valid v" "json_valid w" "delimited s" "delimited t" and eq: "json_value v @ s = json_value w @ t"
  have "hd (json_value v @ s) = hd (json_value w @ t)" using eq by simp
  then have hd: "json_kind v = json_kind w"
    using int_dec_hd int_dec_hd [symmetric] by (auto simp: json_value_hd split: json.splits)
  show "v = w \<and> s = t"
  proof (cases v; cases w)
    fix ms ns assume "v = JObj ms" "w = JObj ns"
    with v eq members.join_inject [of ms ns s t] show ?thesis by (simp add: json_members_def)
  next
    fix a b assume "v = JStr a" "w = JStr b"
    with v eq json_quote_inject [of a b s t] show ?thesis by simp
  next
    fix i j assume "v = JInt i" "w = JInt j"
    with v eq number_apart [of s t i j] show ?thesis by simp
  qed (use eq hd in simp_all)
next
  fix v s assume "json_valid v"
  show "hd (json_value v @ s) \<noteq> CHR '']''"
    using int_dec_hd by (auto simp: json_value_hd split: json.split)
qed simp

text \<open>The encoding of an array determines its elements.\<close>

lemma json_array_inject:
  "list_all json_valid vs \<Longrightarrow> list_all json_valid ws \<Longrightarrow> json_array vs = json_array ws \<Longrightarrow> vs = ws"
  using elements.join_inject [of vs ws "[]" "[]"] by (simp add: json_array_def)

end
