(* ===== verification/Audit_Log.thy ===== *)
theory Audit_Log
  imports Go_Json Mail_Address
begin

text \<open>
  The audit log, \<^verbatim>\<open>internal/audit\<close> and \<^verbatim>\<open>internal/db/models/audit.go\<close>: the hash of an entry, the
  normal form an entry is stored in, appending to the log, and the check of the chain, over a list and
  over the database a batch at a time, with and without an anchor.

  SHA-256 and the RFC 3339 text of a time are fields of \<open>audit_env\<close>. A target, a Go map of strings, is
  the list of its pairs in key order, as encoding/json writes it; the pairs given to \<open>normalize\<close> come in
  the order the runtime visits them. The table is the list of its rows; its primary key and its unique
  index refuse a second row with the same number or hash.
\<close>

section \<open>Entries\<close>

record audit_entry =
  ae_seq :: int
  ae_occurred_at :: time
  ae_actor_kind :: string
  ae_actor_id :: "nat option"
  ae_actor_name :: string
  ae_credential_id :: "nat option"
  ae_session_id :: string
  ae_action :: string
  ae_outcome :: string
  ae_error_code :: string
  ae_method :: string
  ae_route :: string
  ae_status :: int
  ae_target :: "(string \<times> string) list"
  ae_ip :: string
  ae_user_agent :: string
  ae_request_id :: string
  ae_prev_hash :: string
  ae_hash :: string

record audit_env =
  au_sha256 :: "string \<Rightarrow> string"
  au_rfc3339 :: "time \<Rightarrow> string"

definition hash_version :: string where "hash_version = ''restmail-audit-v1''"
definition genesis_hash :: string where "genesis_hash = replicate 64 (CHR ''0'')"
definition max_text :: nat where "max_text = 512"
definition audit_actor_account :: string where "audit_actor_account = ''account''"
definition audit_actor_anonymous :: string where "audit_actor_anonymous = ''anonymous''"

text \<open>The zero time, which IsZero tests for: the first instant of year 1, counted from 1970.\<close>

definition zero_time :: time where "zero_time = - 62135596800 * second"
definition microsecond :: duration where "microsecond = 1000"

fun optional_id :: "nat option \<Rightarrow> json" where
  "optional_id None = JNull"
| "optional_id (Some n) = JInt (int n)"

definition hashed_fields :: "audit_env \<Rightarrow> audit_entry \<Rightarrow> json list" where
  "hashed_fields env e =
     [JStr hash_version, JInt (ae_seq e), JStr (au_rfc3339 env (ae_occurred_at e)), JStr (ae_actor_kind e),
      optional_id (ae_actor_id e), JStr (ae_actor_name e), optional_id (ae_credential_id e), JStr (ae_session_id e),
      JStr (ae_action e), JStr (ae_outcome e), JStr (ae_error_code e), JStr (ae_method e), JStr (ae_route e),
      JInt (ae_status e), JObj (ae_target e), JStr (ae_ip e), JStr (ae_user_agent e), JStr (ae_request_id e),
      JStr (ae_prev_hash e)]"

definition entry_hash :: "audit_env \<Rightarrow> audit_entry \<Rightarrow> string" where
  "entry_hash env e = hex_bytes (map of_char (au_sha256 env (json_array (hashed_fields env e))))"

section \<open>The form an entry is stored in\<close>

text \<open>\<open>strings.ToValidUTF8\<close>: a run of bytes that are no UTF-8 becomes one U+FFFD.\<close>

function to_valid_utf8 :: "bool \<Rightarrow> string \<Rightarrow> string" where
  "to_valid_utf8 inside [] = []"
| "to_valid_utf8 inside (c # cs) =
     (case decode_rune (c # cs) of
        Some (r, n) \<Rightarrow> take n (c # cs) @ to_valid_utf8 False (drop (n - 1) cs)
      | None \<Rightarrow> (if inside then [] else encode_rune rune_error) @ to_valid_utf8 True cs)"
  by pat_completeness auto
termination by (relation "measure (\<lambda>(_, s). length s)") auto

definition without_nul :: "string \<Rightarrow> string" where
  "without_nul s = concat (map (\<lambda>c. if bcode c = 0 then encode_rune rune_error else [c]) s)"

definition clean :: "string \<Rightarrow> string" where
  "clean s =
     (let s1 = without_nul (to_valid_utf8 False s)
      in if max_text < length (runes s1) then encode_runes (take max_text (runes s1)) else s1)"

fun target_put :: "string \<Rightarrow> string \<Rightarrow> (string \<times> string) list \<Rightarrow> (string \<times> string) list" where
  "target_put k v [] = [(k, v)]"
| "target_put k v ((k', v') # ms) =
     (if k < k' then (k, v) # (k', v') # ms
      else if k = k' then (k, v) # ms
      else (k', v') # target_put k v ms)"

definition clean_target :: "(string \<times> string) list \<Rightarrow> (string \<times> string) list" where
  "clean_target t = foldl (\<lambda>m (k, v). target_put (clean k) (clean v) m) [] t"

definition normalize :: "time \<Rightarrow> audit_entry \<Rightarrow> audit_entry" where
  "normalize now e =
     (let at = (if ae_occurred_at e = zero_time then now else ae_occurred_at e);
          kind = (if ae_actor_kind e = [] then audit_actor_anonymous else ae_actor_kind e)
      in e\<lparr>ae_occurred_at := at - at mod microsecond, ae_actor_kind := clean kind,
           ae_actor_name := clean (ae_actor_name e), ae_session_id := clean (ae_session_id e),
           ae_action := clean (ae_action e), ae_outcome := clean (ae_outcome e),
           ae_error_code := clean (ae_error_code e), ae_method := clean (ae_method e),
           ae_route := clean (ae_route e), ae_ip := clean (ae_ip e), ae_user_agent := clean (ae_user_agent e),
           ae_request_id := clean (ae_request_id e), ae_target := clean_target (ae_target e)\<rparr>)"

section \<open>Appending\<close>

definition last_entry :: "audit_entry list \<Rightarrow> int \<times> string" where
  "last_entry table =
     (case rev (sort_key ae_seq table) of [] \<Rightarrow> (0, []) | e # _ \<Rightarrow> (ae_seq e, ae_hash e))"

text \<open>
  Append inside its transaction: \<open>fault\<close> is an error of the database. The entry as stored, or the error
  and the table as it was.
\<close>

definition append_entry ::
  "audit_env \<Rightarrow> string option \<Rightarrow> time \<Rightarrow> audit_entry \<Rightarrow> audit_entry list \<Rightarrow> audit_entry list \<times> (string + audit_entry)" where
  "append_entry env fault now e0 table =
     (case fault of
        Some err \<Rightarrow> (table, Inl err)
      | None \<Rightarrow>
          (let (last_seq, last_hash) = last_entry table;
               e1 = (normalize now e0)\<lparr>ae_seq := last_seq + 1,
                      ae_prev_hash := if 0 < last_seq then last_hash else genesis_hash\<rparr>;
               e = e1\<lparr>ae_hash := entry_hash env e1\<rparr>
           in if ae_seq e \<in> set (map ae_seq table) \<or> ae_hash e \<in> set (map ae_hash table)
              then (table, Inl ''duplicate key value violates unique constraint'')
              else (table @ [e], Inr e)))"

definition actor_id :: "(string \<Rightarrow> string + nat option) \<Rightarrow> string \<Rightarrow> string \<Rightarrow> string + nat option" where
  "actor_id mailbox kind name = (if kind \<noteq> audit_actor_account then Inr None else mailbox name)"

section \<open>Checking the chain\<close>

record anchor =
  an_seq :: int
  an_hash :: string

record verify_result =
  vr_ok :: bool
  vr_checked :: int
  vr_first_seq :: int
  vr_last_seq :: int
  vr_last_hash :: string
  vr_broken_at :: "int option"
  vr_reason :: string
  vr_note :: string
  vr_anchor :: "anchor option"

record chain =
  ch_res :: verify_result
  ch_prev_seq :: int
  ch_prev_hash :: string
  ch_anchor :: "anchor option"

definition new_chain :: "anchor option \<Rightarrow> chain" where
  "new_chain a =
     \<lparr>ch_res = \<lparr>vr_ok = True, vr_checked = 0, vr_first_seq = 0, vr_last_seq = 0, vr_last_hash = genesis_hash,
                vr_broken_at = None, vr_reason = [], vr_note = [], vr_anchor = a\<rparr>,
      ch_prev_seq = 0, ch_prev_hash = genesis_hash, ch_anchor = a\<rparr>"

definition chain_broken :: "audit_entry \<Rightarrow> string \<Rightarrow> chain \<Rightarrow> chain" where
  "chain_broken e reason c =
     c\<lparr>ch_res := (ch_res c)\<lparr>vr_ok := False, vr_broken_at := Some (ae_seq e), vr_reason := reason\<rparr>\<rparr>"

definition chain_start :: "audit_entry \<Rightarrow> chain \<Rightarrow> chain" where
  "chain_start e c =
     (if vr_checked (ch_res c) = 0 then
        (let c1 = c\<lparr>ch_res := (ch_res c)\<lparr>vr_first_seq := ae_seq e\<rparr>\<rparr> in
         if 1 < ae_seq e then
           c1\<lparr>ch_prev_seq := ae_seq e - 1, ch_prev_hash := ae_prev_hash e,
              ch_res := (ch_res c1)\<lparr>vr_note := ''the log starts at seq '' @ int_dec (ae_seq e) @
                ''; the check starts from that entry's prev_hash''\<rparr>\<rparr>
         else c1)
      else c)"

definition chain_add :: "audit_env \<Rightarrow> audit_entry \<Rightarrow> chain \<Rightarrow> chain \<times> bool" where
  "chain_add env e c0 =
     (if \<not> vr_ok (ch_res c0) then (c0, False)
      else
        (let c = chain_start e c0 in
         if ae_seq e \<noteq> ch_prev_seq c + 1 then
           (chain_broken e (''expected seq '' @ int_dec (ch_prev_seq c + 1) @ '', found '' @ int_dec (ae_seq e)) c, False)
         else if ae_prev_hash e \<noteq> ch_prev_hash c then
           (chain_broken e ''prev_hash is not the hash of the entry before'' c, False)
         else if entry_hash env e \<noteq> ae_hash e then
           (chain_broken e ''hash does not match the entry's contents'' c, False)
         else if (case ch_anchor c of None \<Rightarrow> False | Some a \<Rightarrow> ae_seq e = an_seq a \<and> ae_hash e \<noteq> an_hash a) then
           (chain_broken e ''hash does not match the anchor: the log was rewritten up to here'' c, False)
         else
           (c\<lparr>ch_prev_seq := ae_seq e, ch_prev_hash := ae_hash e,
              ch_res := (ch_res c)\<lparr>vr_checked := vr_checked (ch_res c) + 1, vr_last_seq := ae_seq e,
                vr_last_hash := ae_hash e\<rparr>\<rparr>, True)))"

definition anchor_missing :: "anchor \<Rightarrow> string \<Rightarrow> verify_result \<Rightarrow> verify_result" where
  "anchor_missing a reason r = r\<lparr>vr_ok := False, vr_broken_at := Some (an_seq a), vr_reason := reason\<rparr>"

definition chain_finish :: "chain \<Rightarrow> verify_result" where
  "chain_finish c =
     (let r = ch_res c in
      case ch_anchor c of
        None \<Rightarrow> r
      | Some a \<Rightarrow>
          if \<not> vr_ok r then r
          else if vr_checked r = 0 then
            anchor_missing a (''the log is empty, but the anchor is at seq '' @ int_dec (an_seq a)) r
          else if an_seq a < vr_first_seq r then
            anchor_missing a (''the log starts at seq '' @ int_dec (vr_first_seq r) @
              '', after the anchor at seq '' @ int_dec (an_seq a)) r
          else if vr_last_seq r < an_seq a then
            anchor_missing a (''the log ends at seq '' @ int_dec (vr_last_seq r) @
              '', before the anchor at seq '' @ int_dec (an_seq a)) r
          else r)"

fun chain_loop :: "audit_env \<Rightarrow> audit_entry list \<Rightarrow> chain \<Rightarrow> chain \<times> bool" where
  "chain_loop env [] c = (c, True)"
| "chain_loop env (e # es) c =
     (case chain_add env e c of (c', ok) \<Rightarrow> if ok then chain_loop env es c' else (c', False))"

definition verify_anchored :: "audit_env \<Rightarrow> audit_entry list \<Rightarrow> anchor option \<Rightarrow> verify_result" where
  "verify_anchored env es a = chain_finish (fst (chain_loop env es (new_chain a)))"

definition verify :: "audit_env \<Rightarrow> audit_entry list \<Rightarrow> verify_result" where
  "verify env es = verify_anchored env es None"

definition verify_batch :: nat where "verify_batch = 1000"

text \<open>One query of VerifyDBAnchored: the next rows in order of number.\<close>

definition next_batch :: "nat \<Rightarrow> audit_entry list \<Rightarrow> chain \<Rightarrow> audit_entry list" where
  "next_batch limit table c =
     take limit (sort_key ae_seq (filter (\<lambda>e. 0 < vr_checked (ch_res c) \<longrightarrow> ch_prev_seq c < ae_seq e) table))"

text \<open>The loop ends by itself; \<open>fuel\<close> bounds the queries and \<open>None\<close> means it did not suffice.\<close>

fun verify_db_loop :: "nat \<Rightarrow> audit_env \<Rightarrow> nat \<Rightarrow> audit_entry list \<Rightarrow> chain \<Rightarrow> verify_result option" where
  "verify_db_loop 0 env limit table c = None"
| "verify_db_loop (Suc fuel) env limit table c =
     (let batch = next_batch limit table c;
          (c', ok) = chain_loop env batch c
      in if \<not> ok then Some (ch_res c')
         else if length batch < limit then Some (chain_finish c')
         else verify_db_loop fuel env limit table c')"

definition verify_db_anchored :: "nat \<Rightarrow> audit_env \<Rightarrow> audit_entry list \<Rightarrow> anchor option \<Rightarrow> verify_result option" where
  "verify_db_anchored fuel env table a = verify_db_loop fuel env verify_batch table (new_chain a)"

section \<open>What is stored is UTF-8 in its normal form\<close>

lemma valid_rune_error: "valid_utf8 (encode_rune rune_error)"
  by (simp add: encode_rune_def rune_error_def decode_rune_def second_ok_def cont_byte_def)

lemma valid_to_valid_utf8: "valid_utf8 (to_valid_utf8 inside s)"
proof (induction inside s rule: to_valid_utf8.induct)
  case (2 inside c cs)
  show ?case
  proof (cases "decode_rune (c # cs)")
    case None
    with 2 show ?thesis by (simp add: valid_utf8_append valid_rune_error)
  next
    case (Some p)
    obtain r n where d: "decode_rune (c # cs) = Some (r, n)" using Some by (cases p) simp
    then have "valid_utf8 (take n (c # cs))" by (simp only: decode_rune_bytes valid_utf8_rune)
    with 2 d show ?thesis by (simp add: valid_utf8_append)
  qed
qed simp

lemma without_nul_append: "without_nul (a @ b) = without_nul a @ without_nul b"
  by (simp add: without_nul_def)

lemma without_nul_high: "\<forall>c \<in> set s. bcode c \<noteq> 0 \<Longrightarrow> without_nul s = s"
  by (induction s) (simp_all add: without_nul_def)

lemma valid_without_nul: "valid_utf8 s \<Longrightarrow> valid_utf8 (without_nul s)"
proof (induction s rule: valid_utf8.induct)
  case (2 c cs)
  then obtain r n where d: "decode_rune (c # cs) = Some (r, n)" "valid_utf8 (drop (n - 1) cs)"
    using valid_utf8_Cons by blast
  then obtain k where k: "n = Suc k" using decode_rune_width [OF d(1)] by (cases n) auto
  have "c # cs = take n (c # cs) @ drop (n - 1) cs" using k by simp
  then have split: "without_nul (c # cs) = without_nul (take n (c # cs)) @ without_nul (drop (n - 1) cs)"
    by (metis without_nul_append)
  have "valid_utf8 (without_nul (take n (c # cs)))"
  proof (cases "bcode c < 128")
    case True
    with d have "k = 0" using k by (simp add: decode_rune_ascii)
    with True show ?thesis by (simp add: k without_nul_def valid_rune_error decode_rune_ascii)
  next
    case False
    with d k have "\<forall>x \<in> set (take n (c # cs)). bcode x \<noteq> 0" using decode_rune_multi [OF d(1)] by fastforce
    then have "without_nul (take n (c # cs)) = take n (c # cs)" by (rule without_nul_high)
    then show ?thesis using d(1) by (simp only: decode_rune_bytes valid_utf8_rune)
  qed
  moreover have "valid_utf8 (without_nul (drop (n - 1) cs))" using 2 d by simp
  ultimately show ?case by (simp add: split valid_utf8_append)
qed (simp add: without_nul_def)

lemma valid_take_runes: "valid_utf8 s \<Longrightarrow> valid_utf8 (encode_runes (take k (runes s)))"
proof (induction s arbitrary: k rule: valid_utf8.induct)
  case (2 c cs)
  then obtain r n where d: "decode_rune (c # cs) = Some (r, n)" "valid_utf8 (drop (n - 1) cs)"
    using valid_utf8_Cons by blast
  with 2 show ?case using valid_utf8_rune [OF d(1)] by (cases k) (simp_all add: valid_utf8_append)
qed simp

lemma valid_clean: "valid_utf8 (clean s)"
  by (simp add: clean_def Let_def valid_take_runes valid_without_nul valid_to_valid_utf8)

definition target_ok :: "(string \<times> string) list \<Rightarrow> bool" where
  "target_ok t \<longleftrightarrow> sorted_wrt (<) (map fst t) \<and> list_all member_valid t"

lemma target_put_keys: "set (map fst (target_put k v t)) = insert k (set (map fst t))"
proof (induction t)
  case (Cons m ms)
  obtain k' v' where m: "m = (k', v')" by (cases m)
  show ?case
  proof (cases "k < k' \<or> k = k'")
    case True
    then show ?thesis by (auto simp: m)
  next
    case False
    with Cons show ?thesis by (simp add: m insert_commute)
  qed
qed simp

lemma target_put_sorted: "sorted_wrt (<) (map fst t) \<Longrightarrow> sorted_wrt (<) (map fst (target_put k v t))"
proof (induction t)
  case (Cons m ms)
  obtain k' v' where m: "m = (k', v')" by (cases m)
  with Cons(2) have above: "\<forall>x \<in> set (map fst ms). k' < x" "sorted_wrt (<) (map fst ms)" by simp_all
  consider "k < k'" | "k = k'" | "k' < k" by (rule linorder_cases [of k k'])
  then show ?case
  proof cases
    case 1
    with above have "\<forall>x \<in> set (map fst ms). k < x" by (meson less_trans)
    with 1 above show ?thesis by (simp add: m)
  next
    case 2 with above show ?thesis by (simp add: m)
  next
    case 3
    then have "target_put k v (m # ms) = (k', v') # target_put k v ms" using less_asym by (auto simp: m)
    moreover have "\<forall>x \<in> set (map fst (target_put k v ms)). k' < x"
      unfolding target_put_keys using 3 above by simp
    ultimately show ?thesis using Cons(1) above(2) by simp
  qed
qed simp

lemma target_put_valid:
  "list_all member_valid t \<Longrightarrow> valid_utf8 k \<Longrightarrow> valid_utf8 v \<Longrightarrow> list_all member_valid (target_put k v t)"
  by (induction t) (auto simp: member_valid_def)

lemma clean_target_ok: "target_ok (clean_target t)"
proof -
  have "target_ok m \<Longrightarrow> target_ok (foldl (\<lambda>m (k, v). target_put (clean k) (clean v) m) m t)" for m
    by (induction t arbitrary: m) (auto simp: target_ok_def target_put_sorted target_put_valid valid_clean)
  then show ?thesis by (simp add: clean_target_def target_ok_def)
qed

text \<open>What the columns of the table can hold: Postgres keeps text that is UTF-8.\<close>

definition storable :: "audit_entry \<Rightarrow> bool" where
  "storable e \<longleftrightarrow>
     list_all valid_utf8 [ae_actor_kind e, ae_actor_name e, ae_session_id e, ae_action e, ae_outcome e,
       ae_error_code e, ae_method e, ae_route e, ae_ip e, ae_user_agent e, ae_request_id e, ae_prev_hash e] \<and>
     target_ok (ae_target e)"

lemma normalize_storable: "valid_utf8 h \<Longrightarrow> storable ((normalize now e)\<lparr>ae_seq := n, ae_prev_hash := h\<rparr>)"
  by (simp add: storable_def normalize_def Let_def valid_clean clean_target_ok)

section \<open>Two entries with one hash\<close>

text \<open>
  A collision of SHA-256 among the texts of given entries: nobody is known to be able to make one.
\<close>

definition collision :: "audit_env \<Rightarrow> audit_entry set \<Rightarrow> audit_entry set \<Rightarrow> bool" where
  "collision env A B \<longleftrightarrow>
     (\<exists>a \<in> A. \<exists>b \<in> B. json_array (hashed_fields env a) \<noteq> json_array (hashed_fields env b) \<and>
        au_sha256 env (json_array (hashed_fields env a)) = au_sha256 env (json_array (hashed_fields env b)))"

lemma optional_id_inject: "optional_id a = optional_id b \<longleftrightarrow> a = b"
  by (cases a; cases b) simp_all

lemma optional_id_valid [simp]: "json_valid (optional_id a)"
  by (cases a) simp_all

definition times_ok :: "audit_env \<Rightarrow> bool" where
  "times_ok env \<longleftrightarrow> inj (au_rfc3339 env) \<and> (\<forall>t. valid_utf8 (au_rfc3339 env t))"

lemma hashed_fields_valid: "storable e \<Longrightarrow> times_ok env \<Longrightarrow> list_all json_valid (hashed_fields env e)"
  by (simp add: hashed_fields_def storable_def target_ok_def times_ok_def hash_version_def decode_rune_def)

lemma hashed_fields_inject:
  assumes "times_ok env" "hashed_fields env a = hashed_fields env b" "ae_hash a = ae_hash b"
  shows "a = b"
proof -
  have "au_rfc3339 env (ae_occurred_at a) = au_rfc3339 env (ae_occurred_at b)"
    using assms(2) by (simp add: hashed_fields_def)
  with assms(1) have "ae_occurred_at a = ae_occurred_at b" by (auto simp: times_ok_def dest: injD)
  with assms(2,3) show ?thesis
    by (intro audit_entry.equality) (simp_all add: hashed_fields_def optional_id_inject)
qed

lemma hex_digit_inject: "a < 16 \<Longrightarrow> b < 16 \<Longrightarrow> hex_digit a = hex_digit b \<Longrightarrow> a = b"
proof -
  assume "a < 16" "b < 16" "hex_digit a = hex_digit b"
  then have "bcode (hex_digit a) = bcode (hex_digit b)" by simp
  with \<open>a < 16\<close> \<open>b < 16\<close> show "a = b" by (auto simp: hex_digit_def split: if_splits)
qed

lemma hex_bytes_inject: "hex_bytes (map of_char a) = hex_bytes (map of_char b) \<Longrightarrow> a = b"
proof (induction a arbitrary: b)
  case Nil
  then show ?case by (cases b) (simp_all add: hex_bytes_def hex_byte_def)
next
  case (Cons x xs)
  then obtain y ys where b: "b = y # ys" by (cases b) (simp_all add: hex_bytes_def hex_byte_def)
  have byte: "bcode c div 16 < 16" for c
    using of_char_lt_256 [of c] by (simp add: less_mult_imp_div_less)
  from Cons(2) b have "bcode x div 16 = bcode y div 16" "bcode x mod 16 = bcode y mod 16"
    using hex_digit_inject [of "bcode x div 16 mod 16" "bcode y div 16 mod 16"]
      hex_digit_inject [of "bcode x mod 16" "bcode y mod 16"]
    by (simp_all add: hex_bytes_def hex_byte_def byte)
  then have "bcode x = bcode y" by (metis div_mult_mod_eq)
  with Cons b show ?case by (simp add: hex_bytes_def hex_byte_def)
qed

lemma hash_determines_entry:
  assumes "times_ok env" "storable a" "storable b" "a \<in> A" "b \<in> B"
    and "entry_hash env a = ae_hash a" "entry_hash env b = ae_hash b" "ae_hash a = ae_hash b"
  shows "collision env A B \<or> a = b"
proof (cases "json_array (hashed_fields env a) = json_array (hashed_fields env b)")
  case True
  then have "hashed_fields env a = hashed_fields env b"
    using assms(1-3) by (intro json_array_inject hashed_fields_valid)
  with assms(1,8) show ?thesis using hashed_fields_inject by blast
next
  case False
  have "entry_hash env a = entry_hash env b" by (simp only: assms(6-8))
  then have "au_sha256 env (json_array (hashed_fields env a)) = au_sha256 env (json_array (hashed_fields env b))"
    unfolding entry_hash_def by (rule hex_bytes_inject)
  with False assms(4,5) have "collision env A B" unfolding collision_def by blast
  then show ?thesis ..
qed

section \<open>Chains\<close>

text \<open>The chain as its documentation has it: each entry follows the one before and hashes to its own hash.\<close>

fun linked :: "audit_env \<Rightarrow> int \<Rightarrow> string \<Rightarrow> audit_entry list \<Rightarrow> bool" where
  "linked env n h [] \<longleftrightarrow> True"
| "linked env n h (e # es) \<longleftrightarrow>
     ae_seq e = n + 1 \<and> ae_prev_hash e = h \<and> entry_hash env e = ae_hash e \<and> linked env (ae_seq e) (ae_hash e) es"

lemma linked_append:
  "linked env n h (es @ [e]) \<longleftrightarrow>
     linked env n h es \<and> linked env (n + int (length es)) (last (h # map ae_hash es)) [e]"
  by (induction es arbitrary: n h) (auto simp: algebra_simps)

lemma linked_nth:
  "linked env n h es \<Longrightarrow> j < length es \<Longrightarrow>
     ae_seq (es ! j) = n + 1 + int j \<and> entry_hash env (es ! j) = ae_hash (es ! j) \<and>
     ae_prev_hash (es ! j) = (if j = 0 then h else ae_hash (es ! (j - 1)))"
proof (induction es arbitrary: n h j)
  case (Cons e es)
  then show ?case by (cases j) (auto simp: nth_Cons')
qed simp

lemma linked_seqs: "linked env n h es \<Longrightarrow> map ae_seq es = map (\<lambda>j. n + 1 + int j) [0..<length es]"
  by (intro nth_equalityI) (auto simp: linked_nth)

lemma linked_sorted: "linked env n h es \<Longrightarrow> sorted (map ae_seq es) \<and> distinct (map ae_seq es)"
  by (simp add: linked_seqs sorted_iff_nth_mono distinct_conv_nth)

definition anchor_holds :: "anchor option \<Rightarrow> audit_entry list \<Rightarrow> bool" where
  "anchor_holds a es \<longleftrightarrow> (\<forall>x. a = Some x \<longrightarrow> (\<forall>e \<in> set es. ae_seq e = an_seq x \<longrightarrow> ae_hash e = an_hash x))"

definition checked_from :: "int \<Rightarrow> string \<Rightarrow> audit_entry list \<Rightarrow> chain \<Rightarrow> chain" where
  "checked_from n h es c =
     c\<lparr>ch_prev_seq := n + int (length es), ch_prev_hash := last (h # map ae_hash es),
       ch_res := (ch_res c)\<lparr>vr_checked := vr_checked (ch_res c) + int (length es),
         vr_last_seq := if es = [] then vr_last_seq (ch_res c) else n + int (length es),
         vr_last_hash := last (vr_last_hash (ch_res c) # map ae_hash es)\<rparr>\<rparr>"

lemma chain_start_keeps [simp]:
  "ch_anchor (chain_start e c) = ch_anchor c" "vr_ok (ch_res (chain_start e c)) = vr_ok (ch_res c)"
  "vr_checked (ch_res (chain_start e c)) = vr_checked (ch_res c)"
  by (simp_all add: chain_start_def Let_def)

lemma chain_add_iff:
  fixes e :: audit_entry and c :: chain
  assumes "vr_ok (ch_res c)"
  defines "d \<equiv> chain_start e c"
  shows "snd (chain_add env e c) \<longleftrightarrow>
      linked env (ch_prev_seq d) (ch_prev_hash d) [e] \<and> anchor_holds (ch_anchor c) [e]"
    and "snd (chain_add env e c) \<Longrightarrow> fst (chain_add env e c) = checked_from (ch_prev_seq d) (ch_prev_hash d) [e] d"
    and "\<not> snd (chain_add env e c) \<Longrightarrow> \<not> vr_ok (ch_res (fst (chain_add env e c)))"
  using assms(1)
  by (auto simp: chain_add_def Let_def d_def anchor_holds_def checked_from_def chain_broken_def
      split: option.splits if_splits)

lemma checked_from_Cons:
  "ae_seq e = n + 1 \<Longrightarrow> checked_from (ae_seq e) (ae_hash e) es (checked_from n h [e] c) = checked_from n h (e # es) c"
  by (simp add: checked_from_def)

lemma checked_from_keeps:
  "ch_anchor (checked_from n h es c) = ch_anchor c" "vr_ok (ch_res (checked_from n h es c)) = vr_ok (ch_res c)"
  "vr_checked (ch_res (checked_from n h es c)) = vr_checked (ch_res c) + int (length es)"
  "vr_first_seq (ch_res (checked_from n h es c)) = vr_first_seq (ch_res c)"
  "ch_prev_seq (checked_from n h [e] c) = n + 1" "ch_prev_hash (checked_from n h [e] c) = ae_hash e"
  by (simp_all add: checked_from_def)

text \<open>Past the first entry, the loop goes through exactly when the entries are linked and meet the anchor.\<close>

lemma chain_loop_started:
  assumes "vr_ok (ch_res c)" "0 < vr_checked (ch_res c)"
  shows "(snd (chain_loop env es c) \<longleftrightarrow>
      linked env (ch_prev_seq c) (ch_prev_hash c) es \<and> anchor_holds (ch_anchor c) es) \<and>
    (if snd (chain_loop env es c) then fst (chain_loop env es c) = checked_from (ch_prev_seq c) (ch_prev_hash c) es c
     else \<not> vr_ok (ch_res (fst (chain_loop env es c))))"
  using assms
proof (induction es arbitrary: c)
  case Nil
  then show ?case by (simp add: checked_from_def anchor_holds_def)
next
  case (Cons e es)
  have start: "chain_start e c = c" using Cons(3) by (simp add: chain_start_def)
  note add = chain_add_iff [OF Cons(2), of env e, unfolded start]
  show ?case
  proof (cases "snd (chain_add env e c)")
    case False
    then have "chain_loop env (e # es) c = (fst (chain_add env e c), False)" by (simp add: split_beta)
    moreover have "\<not> (linked env (ch_prev_seq c) (ch_prev_hash c) (e # es) \<and> anchor_holds (ch_anchor c) (e # es))"
      using False add(1) by (auto simp: anchor_holds_def)
    ultimately show ?thesis using add(3) [OF False] by simp
  next
    case True
    let ?c = "checked_from (ch_prev_seq c) (ch_prev_hash c) [e] c"
    have loop: "chain_loop env (e # es) c = chain_loop env es ?c" using True add(2) by (simp add: split_beta)
    have e: "ae_seq e = ch_prev_seq c + 1" "ae_prev_hash e = ch_prev_hash c" "entry_hash env e = ae_hash e"
      "anchor_holds (ch_anchor c) [e]"
      using True add(1) by auto
    have IH: "vr_ok (ch_res ?c)" "0 < vr_checked (ch_res ?c)" using Cons(2,3) by (simp_all add: checked_from_keeps)
    have eq1: "linked env (ch_prev_seq ?c) (ch_prev_hash ?c) es \<and> anchor_holds (ch_anchor ?c) es \<longleftrightarrow>
        linked env (ch_prev_seq c) (ch_prev_hash c) (e # es) \<and> anchor_holds (ch_anchor c) (e # es)"
      using e by (auto simp: checked_from_keeps anchor_holds_def)
    have eq2: "checked_from (ch_prev_seq ?c) (ch_prev_hash ?c) es ?c =
        checked_from (ch_prev_seq c) (ch_prev_hash c) (e # es) c"
      using checked_from_Cons [OF e(1), of es "ch_prev_hash c" c] e(1) by (simp add: checked_from_keeps)
    show ?thesis unfolding loop by (rule Cons(1) [OF IH, unfolded eq1 eq2])
  qed
qed

definition start_seq :: "audit_entry list \<Rightarrow> int" where
  "start_seq es = (if es \<noteq> [] \<and> 1 < ae_seq (hd es) then ae_seq (hd es) - 1 else 0)"

definition start_hash :: "audit_entry list \<Rightarrow> string" where
  "start_hash es = (if es \<noteq> [] \<and> 1 < ae_seq (hd es) then ae_prev_hash (hd es) else genesis_hash)"

lemma chain_loop_new:
  fixes es :: "audit_entry list" and a :: "anchor option"
  assumes "es \<noteq> []"
  defines "c \<equiv> chain_start (hd es) (new_chain a)"
  shows "(snd (chain_loop env es (new_chain a)) \<longleftrightarrow>
      linked env (start_seq es) (start_hash es) es \<and> anchor_holds a es) \<and>
    (if snd (chain_loop env es (new_chain a))
     then fst (chain_loop env es (new_chain a)) = checked_from (start_seq es) (start_hash es) es c
     else \<not> vr_ok (ch_res (fst (chain_loop env es (new_chain a)))))"
proof -
  obtain e es' where es: "es = e # es'" using assms(1) by (cases es) auto
  have c: "ch_prev_seq c = start_seq es" "ch_prev_hash c = start_hash es" "ch_anchor c = a" "vr_ok (ch_res c)"
      "vr_checked (ch_res c) = 0"
    by (simp_all add: c_def es chain_start_def new_chain_def start_seq_def start_hash_def Let_def)
  have ok: "vr_ok (ch_res (new_chain a))" "ch_anchor (new_chain a) = a" by (simp_all add: new_chain_def)
  note add = chain_add_iff [OF ok(1), of env e, folded c_def [unfolded es list.sel], unfolded c ok]
  show ?thesis
  proof (cases "snd (chain_add env e (new_chain a))")
    case False
    then have "chain_loop env es (new_chain a) = (fst (chain_add env e (new_chain a)), False)"
      by (simp add: es split_beta)
    moreover have "\<not> (linked env (start_seq es) (start_hash es) es \<and> anchor_holds a es)"
      using False add(1) by (auto simp: anchor_holds_def es)
    ultimately show ?thesis using add(3) [OF False] by simp
  next
    case True
    let ?c = "checked_from (start_seq es) (start_hash es) [e] c"
    have loop: "chain_loop env es (new_chain a) = chain_loop env es' ?c" using True add(2) by (simp add: split_beta es)
    have e: "ae_seq e = start_seq es + 1" "ae_prev_hash e = start_hash es" "entry_hash env e = ae_hash e"
      "anchor_holds a [e]"
      using True add(1) by auto
    have "vr_ok (ch_res ?c)" "0 < vr_checked (ch_res ?c)" using c by (simp_all add: checked_from_keeps)
    note rest = chain_loop_started [OF this, of env es']
    have eq1: "linked env (ch_prev_seq ?c) (ch_prev_hash ?c) es' \<and> anchor_holds (ch_anchor ?c) es' \<longleftrightarrow>
        linked env (start_seq es) (start_hash es) es \<and> anchor_holds a es"
      using e c by (auto simp: checked_from_keeps anchor_holds_def es)
    have eq2: "checked_from (ch_prev_seq ?c) (ch_prev_hash ?c) es' ?c = checked_from (start_seq es) (start_hash es) es c"
      using checked_from_Cons [OF e(1), of es' "start_hash es" c] e(1) by (simp add: checked_from_keeps es)
    show ?thesis unfolding loop by (rule rest [unfolded eq1 eq2])
  qed
qed

lemma verify_anchored_ok:
  "vr_ok (verify_anchored env es a) \<longleftrightarrow>
     (if es = [] then a = None
      else linked env (start_seq es) (start_hash es) es \<and> anchor_holds a es \<and>
        (\<forall>x. a = Some x \<longrightarrow> ae_seq (hd es) \<le> an_seq x \<and> an_seq x \<le> start_seq es + int (length es)))"
proof (cases "es = []")
  case True
  then show ?thesis
    by (auto simp: verify_anchored_def chain_finish_def new_chain_def anchor_missing_def Let_def split: option.splits)
next
  case False
  let ?l = "chain_loop env es (new_chain a)" and ?c = "chain_start (hd es) (new_chain a)"
  have c: "vr_ok (ch_res ?c)" "ch_anchor ?c = a" "vr_checked (ch_res ?c) = 0" "vr_first_seq (ch_res ?c) = ae_seq (hd es)"
    by (simp_all add: chain_start_def new_chain_def Let_def)
  note loop = chain_loop_new [OF False, of env a]
  show ?thesis
  proof (cases "snd ?l")
    case True
    with loop have "verify_anchored env es a = chain_finish (checked_from (start_seq es) (start_hash es) es ?c)"
      by (simp add: verify_anchored_def)
    moreover have "vr_last_seq (ch_res (checked_from (start_seq es) (start_hash es) es ?c)) = start_seq es + int (length es)"
      using False by (simp add: checked_from_def)
    ultimately show ?thesis
      using True loop False c
      by (auto simp: chain_finish_def checked_from_keeps anchor_missing_def Let_def split: option.splits)
  next
    case no: False
    with loop have "\<not> vr_ok (ch_res (fst ?l))" by simp
    then have "\<not> vr_ok (verify_anchored env es a)"
      by (auto simp: verify_anchored_def chain_finish_def Let_def anchor_missing_def split: option.splits)
    with no loop False show ?thesis by auto
  qed
qed

section \<open>A log that was only appended to\<close>

definition empty_table :: "audit_entry list \<Rightarrow> bool" where "empty_table t \<longleftrightarrow> t = []"

definition audit_step :: "audit_env \<Rightarrow> audit_entry list \<Rightarrow> audit_entry list \<Rightarrow> bool" where
  "audit_step env t t' \<longleftrightarrow> (\<exists>fault now e. fst (append_entry env fault now e t) = t')"

definition log_ok :: "audit_env \<Rightarrow> audit_entry list \<Rightarrow> bool" where
  "log_ok env t \<longleftrightarrow> linked env 0 genesis_hash t \<and> list_all storable t \<and> list_all (\<lambda>e. valid_utf8 (ae_hash e)) t"

lemma last_entry_linked:
  assumes "linked env 0 genesis_hash t" "t \<noteq> []"
  shows "last_entry t = (int (length t), ae_hash (last t))"
proof -
  obtain ts e where t: "t = ts @ [e]" using assms(2) by (metis rev_exhaust)
  have "sort_key ae_seq t = t" using linked_sorted [OF assms(1)] by (simp add: sort_key_id_if_sorted)
  moreover have "ae_seq e = int (length t)" using assms(1) by (simp add: t linked_append)
  ultimately show ?thesis by (simp add: last_entry_def t)
qed

lemma valid_hash: "valid_utf8 (entry_hash env e)"
  using runes_ascii [OF ascii_hex_bytes] by (simp add: entry_hash_def)

lemma append_keeps_log:
  assumes "log_ok env t" shows "log_ok env (fst (append_entry env fault now e t))"
proof -
  have 0: "linked env 0 genesis_hash t" using assms by (simp add: log_ok_def)
  define seq where "seq = fst (last_entry t) + 1"
  define prev where "prev = (if 0 < fst (last_entry t) then snd (last_entry t) else genesis_hash)"
  define e1 where "e1 = (normalize now e)\<lparr>ae_seq := seq, ae_prev_hash := prev\<rparr>"
  define new where "new = e1\<lparr>ae_hash := entry_hash env e1\<rparr>"
  have last: "seq = int (length t) + 1 \<and> prev = last (genesis_hash # map ae_hash t)"
  proof (cases "t = []")
    case True then show ?thesis by (simp add: seq_def prev_def last_entry_def)
  next
    case False
    with last_entry_linked [OF 0 False] show ?thesis by (simp add: seq_def prev_def last_map)
  qed
  have hash: "entry_hash env new = ae_hash new"
    by (simp add: new_def entry_hash_def hashed_fields_def)
  have "valid_utf8 genesis_hash"
    using runes_ascii [of genesis_hash] by (simp add: genesis_hash_def list_all_iff is_ascii_def)
  then have "valid_utf8 prev"
    using last assms by (auto simp: log_ok_def list_all_iff last_map)
  then have "storable e1" unfolding e1_def by (rule normalize_storable)
  then have store: "storable new" by (simp add: storable_def new_def)
  have "fst (append_entry env fault now e t) = t \<or> fst (append_entry env fault now e t) = t @ [new]"
    by (auto simp: append_entry_def Let_def split_beta new_def e1_def seq_def prev_def split: option.splits)
  moreover have "log_ok env (t @ [new])"
    using assms last hash store valid_hash [of env e1]
    by (auto simp: log_ok_def linked_append new_def e1_def simp del: linked.simps)
      (simp_all add: new_def e1_def)
  ultimately show ?thesis using assms by metis
qed

interpretation log_system: invariant_system empty_table "audit_step env" "log_ok env" for env
  by unfold_locales (auto simp: empty_table_def audit_step_def append_keeps_log intro: append_keeps_log,
      simp add: log_ok_def)

lemma append_prefix: "\<exists>new. fst (append_entry env fault now e t) = t @ new"
  by (auto simp: append_entry_def Let_def split_beta split: option.splits)

lemma steps_prefix: "(audit_step env)\<^sup>*\<^sup>* t t' \<Longrightarrow> \<exists>new. t' = t @ new"
proof (induction rule: rtranclp_induct)
  case (step y z)
  then obtain fault now e where "fst (append_entry env fault now e y) = z" by (auto simp: audit_step_def)
  with append_prefix [of env fault now e y] have "\<exists>new. z = y @ new" by simp
  with step(3) show ?case by auto
qed simp

lemma linked_start: "linked env 0 genesis_hash es \<Longrightarrow> start_seq es = 0 \<and> start_hash es = genesis_hash"
  by (cases es) (simp_all add: start_seq_def start_hash_def)

lemma verify_linked:
  assumes "linked env 0 genesis_hash es"
  shows "verify env es =
    \<lparr>vr_ok = True, vr_checked = int (length es), vr_first_seq = (if es = [] then 0 else 1),
     vr_last_seq = int (length es), vr_last_hash = last (genesis_hash # map ae_hash es),
     vr_broken_at = None, vr_reason = [], vr_note = [], vr_anchor = None\<rparr>"
proof (cases "es = []")
  case True
  then show ?thesis by (simp add: verify_def verify_anchored_def chain_finish_def new_chain_def)
next
  case False
  have hd: "ae_seq (hd es) = 1" using assms False by (cases es) simp_all
  have "snd (chain_loop env es (new_chain None))"
    using chain_loop_new [OF False, of env None] linked_start [OF assms] assms by (simp add: anchor_holds_def)
  then have "fst (chain_loop env es (new_chain None)) =
      checked_from 0 genesis_hash es (chain_start (hd es) (new_chain None))"
    using chain_loop_new [OF False, of env None] linked_start [OF assms] by simp
  with False hd show ?thesis
    by (simp add: verify_def verify_anchored_def chain_finish_def checked_from_def chain_start_def new_chain_def Let_def)
qed

text \<open>
  C17: However many entries are appended, and whatever they hold, the log as it is in the table passes
  the check of its chain: every entry is counted, from number 1 on without a gap, and the check ends at
  the hash of the last. Entries already in the table are still there, unchanged and in their place,
  after any further appends, also when some of those fail.
\<close>

theorem audit_log_verifies:
  assumes "reach empty_table (audit_step env) table"
  shows "verify env (sort_key ae_seq table) =
      \<lparr>vr_ok = True, vr_checked = int (length table), vr_first_seq = (if table = [] then 0 else 1),
       vr_last_seq = int (length table), vr_last_hash = last (genesis_hash # map ae_hash table),
       vr_broken_at = None, vr_reason = [], vr_note = [], vr_anchor = None\<rparr>
    \<and> map ae_seq table = map (\<lambda>j. int j + 1) [0..<length table]
    \<and> (\<forall>later. (audit_step env)\<^sup>*\<^sup>* table later \<longrightarrow> take (length table) later = table)"
proof -
  have l: "linked env 0 genesis_hash table"
    using log_system.reach_inv [OF assms] by (simp add: log_ok_def)
  have "sort_key ae_seq table = table" using linked_sorted [OF l] by (simp add: sort_key_id_if_sorted)
  moreover have "map ae_seq table = map (\<lambda>j. int j + 1) [0..<length table]"
    using linked_seqs [OF l] by (simp add: add.commute)
  ultimately show ?thesis using verify_linked [OF l] steps_prefix by fastforce
qed

section \<open>A log that was rewritten\<close>

lemma rewritten_back:
  assumes env: "times_ok env"
    and log: "linked env 0 genesis_hash log" "list_all storable log"
    and seen: "linked env (int n) h seen" "list_all storable seen"
    and top: "n + j < length log" "j < length seen" "ae_hash (seen ! j) = ae_hash (log ! (n + j))"
  shows "collision env (set log) (set seen) \<or> take (Suc j) seen = take (Suc j) (drop n log)"
  using top
proof (induction j)
  case 0
  have "storable (log ! n)" "storable (seen ! 0)" using log(2) seen(2) 0 by (auto simp: list_all_iff)
  then have "collision env (set log) (set seen) \<or> log ! n = seen ! 0"
    using 0 linked_nth [OF log(1), of n] linked_nth [OF seen(1), of 0]
    by (intro hash_determines_entry [OF env]) auto
  with 0 show ?case by (auto simp: take_Suc_conv_app_nth)
next
  case (Suc j)
  have st: "storable (log ! (n + Suc j))" "storable (seen ! Suc j)"
    using log(2) seen(2) Suc by (auto simp: list_all_iff)
  have "collision env (set log) (set seen) \<or> log ! (n + Suc j) = seen ! Suc j"
    using Suc st linked_nth [OF log(1), of "n + Suc j"] linked_nth [OF seen(1), of "Suc j"]
    by (intro hash_determines_entry [OF env]) auto
  then show ?case
  proof
    assume eq: "log ! (n + Suc j) = seen ! Suc j"
    have "ae_hash (seen ! j) = ae_prev_hash (seen ! Suc j)" "ae_hash (log ! (n + j)) = ae_prev_hash (log ! (n + Suc j))"
      using linked_nth [OF log(1), of "n + Suc j"] linked_nth [OF seen(1), of "Suc j"] Suc(2,3) by simp_all
    then have "ae_hash (seen ! j) = ae_hash (log ! (n + j))" by (simp only: eq)
    with Suc have IH: "collision env (set log) (set seen) \<or> take (Suc j) seen = take (Suc j) (drop n log)" by simp
    have "take (Suc (Suc j)) seen = take (Suc j) seen @ [seen ! Suc j]"
      "take (Suc (Suc j)) (drop n log) = take (Suc j) (drop n log) @ [log ! (n + Suc j)]"
      using Suc(2,3) by (simp_all add: take_Suc_conv_app_nth)
    with IH eq show ?case by metis
  qed simp
qed

text \<open>
  C15: With the number and the hash of one entry of the log kept elsewhere, no rewriting of the log up to
  that entry goes unnoticed. Say a log was written by appends only and the anchor is its entry \<open>k + 1\<close>.
  If what the table holds later passes the check against that anchor, then, from the number it starts at
  up to the anchored entry, it is the log as it was written, entry for entry; or else the two hold
  different entries whose texts have the same SHA-256. That the texts of two different entries differ is
  part of what is shown: the JSON an entry is hashed as has one reading only.
\<close>

theorem audit_rewrite_found:
  assumes "reach empty_table (audit_step env) log" "k < length log" "times_ok env" "list_all storable seen"
    and "a = \<lparr>an_seq = ae_seq (log ! k), an_hash = ae_hash (log ! k)\<rparr>"
    and "vr_ok (verify_anchored env seen (Some a))"
  defines "n \<equiv> nat (ae_seq (hd seen) - 1)"
  shows "collision env (set log) (set seen) \<or>
    seen \<noteq> [] \<and> n \<le> k \<and> k - n < length seen \<and> take (Suc k - n) seen = drop n (take (Suc k) log)"
proof -
  have log: "linked env 0 genesis_hash log" "list_all storable log"
    using log_system.reach_inv [OF assms(1)] by (simp_all add: log_ok_def)
  from assms(6) have ok: "seen \<noteq> []" "linked env (start_seq seen) (start_hash seen) seen" "anchor_holds (Some a) seen"
      "ae_seq (hd seen) \<le> an_seq a" "an_seq a \<le> start_seq seen + int (length seen)"
    by (auto simp: verify_anchored_ok split: if_splits)
  have k: "an_seq a = int k + 1" using linked_nth [OF log(1) assms(2)] by (simp add: assms(5))
  have start: "start_seq seen = int n"
    using ok(1,2) linked_nth [OF ok(2), of 0] by (auto simp: n_def start_seq_def hd_conv_nth split: if_splits)
  have seq: "ae_seq (hd seen) = int n + 1"
    using linked_nth [OF ok(2), of 0] ok(1) start by (simp add: hd_conv_nth)
  have nk: "n \<le> k" "k - n < length seen" using ok(4,5) k seq start by linarith+
  have "ae_seq (seen ! (k - n)) = an_seq a" using linked_nth [OF ok(2) nk(2)] start nk(1) k by simp
  then have "ae_hash (seen ! (k - n)) = ae_hash (log ! (n + (k - n)))"
    using ok(3) nk by (simp add: anchor_holds_def assms(5))
  then have "collision env (set log) (set seen) \<or> take (Suc (k - n)) seen = take (Suc (k - n)) (drop n log)"
    using rewritten_back [OF assms(3) log ok(2) [unfolded start] assms(4), of "k - n"] nk assms(2) by simp
  then show ?thesis using ok(1) nk by (auto simp: Suc_diff_le drop_take)
qed

section \<open>The check over the database\<close>

lemma chain_loop_append:
  "chain_loop env (xs @ ys) c =
     (if snd (chain_loop env xs c) then chain_loop env ys (fst (chain_loop env xs c)) else (fst (chain_loop env xs c), False))"
  by (induction xs arbitrary: c) (auto simp: split_beta)

lemma chain_loop_not_ok: "\<not> snd (chain_loop env es c) \<Longrightarrow> \<not> vr_ok (ch_res (fst (chain_loop env es c)))"
proof (induction es arbitrary: c)
  case (Cons e es)
  show ?case
  proof (cases "snd (chain_add env e c)")
    case True
    with Cons show ?thesis by (simp add: split_beta)
  next
    case False
    then have "\<not> vr_ok (ch_res (fst (chain_add env e c)))"
      by (cases "vr_ok (ch_res c)") (simp_all add: chain_add_iff(3), simp add: chain_add_def)
    with False show ?thesis by (simp add: split_beta)
  qed
qed simp

lemma chain_finish_broken: "\<not> vr_ok (ch_res c) \<Longrightarrow> chain_finish c = ch_res c"
  by (simp add: chain_finish_def Let_def split: option.split)

text \<open>After the rows \<open>xs\<close>, a query finds the next ones of the sorted table.\<close>

lemma next_batch_rest:
  assumes table: "sort_key ae_seq table = xs @ ys" "distinct (map ae_seq table)"
    and loop: "chain_loop env xs (new_chain a) = (c, True)"
  shows "next_batch limit table c = take limit ys"
proof (cases "xs = []")
  case True
  with loop table show ?thesis by (auto simp: next_batch_def new_chain_def)
next
  case False
  let ?S = "xs @ ys"
  have d: "sorted (map ae_seq ?S)" "distinct (map ae_seq ?S)"
    using table sorted_sort_key [of ae_seq table] by (simp_all only: flip: table(1)) (simp add: distinct_map)
  note l = chain_loop_new [OF False, of env a, unfolded loop, simplified]
  have c: "ch_prev_seq c = start_seq xs + int (length xs)" "0 < vr_checked (ch_res c)"
    using l False by (simp_all add: checked_from_def new_chain_def)
  have xs: "ae_seq x \<le> ch_prev_seq c" if "x \<in> set xs" for x
    using that l linked_nth [of env "start_seq xs" "start_hash xs" xs] c(1) by (fastforce simp: in_set_conv_nth)
  have last: "ae_seq (last xs) = ch_prev_seq c"
    using l linked_nth [of env "start_seq xs" "start_hash xs" xs "length xs - 1"] c(1) False
    by (simp add: last_conv_nth of_nat_diff Suc_le_eq)
  have ys: "ch_prev_seq c < ae_seq y" if "y \<in> set ys" for y
  proof -
    have "last xs \<in> set xs" using False by simp
    with d that have "ae_seq (last xs) \<le> ae_seq y" "ae_seq (last xs) \<noteq> ae_seq y"
      by (auto simp: sorted_append)
    with last show ?thesis by simp
  qed
  have "filter (\<lambda>e. ch_prev_seq c < ae_seq e) ?S = ys"
    using xs ys by (auto simp: filter_empty_conv not_less intro: filter_True)
  then show ?thesis using c(2) by (simp add: next_batch_def filter_sort [symmetric] table(1))
qed

lemma verify_db_loop_eq:
  assumes "distinct (map ae_seq table)" "0 < limit"
  shows "sort_key ae_seq table = xs @ ys \<Longrightarrow> chain_loop env xs (new_chain a) = (c, True) \<Longrightarrow> length ys < fuel \<Longrightarrow>
     verify_db_loop fuel env limit table c = Some (chain_finish (fst (chain_loop env ys c)))"
proof (induction fuel arbitrary: xs ys c)
  case (Suc fuel)
  let ?b = "take limit ys"
  have b: "next_batch limit table c = ?b" using next_batch_rest [OF Suc(2) assms(1) Suc(3)] .
  have ys: "ys = ?b @ drop limit ys" by simp
  obtain c' ok where loop: "chain_loop env ?b c = (c', ok)" by (cases "chain_loop env ?b c")
  have all: "chain_loop env ys c = (if ok then chain_loop env (drop limit ys) c' else (c', False))"
    by (subst ys, subst chain_loop_append) (simp add: loop)
  show ?case
  proof (cases "ok \<and> limit \<le> length ys")
    case True
    then have *: "sort_key ae_seq table = (xs @ ?b) @ drop limit ys" "chain_loop env (xs @ ?b) (new_chain a) = (c', True)"
      using Suc(2,3) loop by (simp_all add: chain_loop_append)
    have "length (drop limit ys) < fuel" using Suc(4) True assms(2) unfolding length_drop by linarith
    from Suc(1) [OF * this] True show ?thesis by (simp add: b loop all)
  next
    case False
    with all loop show ?thesis
      using chain_loop_not_ok [of env ?b c] by (auto simp: b loop chain_finish_broken)
  qed
qed simp

text \<open>
  C33: Checking the table a thousand rows at a time, with a query for each batch, ends, after fewer
  queries than there are rows and one, and answers exactly what checking all its entries in one list in
  order of number answers, whatever the entries hold and whether or not there is an anchor.
\<close>

theorem verify_db_is_verify:
  assumes "distinct (map ae_seq table)" "length table < fuel"
  shows "verify_db_anchored fuel env table a = Some (verify_anchored env (sort_key ae_seq table) a)"
  using verify_db_loop_eq [OF assms(1), of verify_batch "[]" "sort_key ae_seq table" env a "new_chain a" fuel] assms(2)
  by (simp add: verify_db_anchored_def verify_anchored_def verify_batch_def)

section \<open>A log of one sign-in\<close>

definition sample_audit :: audit_env where
  "sample_audit = \<lparr>au_sha256 = (\<lambda>s. s), au_rfc3339 = int_dec\<rparr>"

definition sign_in :: audit_entry where
  "sign_in =
     \<lparr>ae_seq = 0, ae_occurred_at = zero_time, ae_actor_kind = audit_actor_account, ae_actor_id = Some 7,
      ae_actor_name = ''a@b.example'', ae_credential_id = None, ae_session_id = ''s'', ae_action = ''session.create'',
      ae_outcome = ''success'', ae_error_code = [], ae_method = ''POST'', ae_route = ''/api/v1/auth/login'',
      ae_status = 200, ae_target = [(''id'', ''7'')], ae_ip = ''192.0.2.1'', ae_user_agent = [], ae_request_id = ''r'',
      ae_prev_hash = [], ae_hash = []\<rparr>"

definition sample_log :: "audit_entry list" where
  "sample_log = fst (append_entry sample_audit None 1234567 sign_in [])"

lemma sample_log_reached: "reach empty_table (audit_step sample_audit) sample_log"
proof -
  have "reach empty_table (audit_step sample_audit) []" by (rule reach_start) (simp add: empty_table_def)
  then show ?thesis by (rule reach_step) (auto simp: audit_step_def sample_log_def)
qed

lemma sample_log_one: "length sample_log = 1"
  by (simp add: sample_log_def append_entry_def last_entry_def Let_def)

lemma sample_times_ok: "times_ok sample_audit"
proof -
  have "valid_utf8 (int_dec t)" for t
  proof -
    have "is_ascii c" if "number_byte c" for c using that by (auto simp: number_byte_def is_digit_def is_ascii_def)
    then have "list_all is_ascii (int_dec t)" using int_dec_bytes [of t] by (auto simp: list_all_iff)
    then show ?thesis using runes_ascii by blast
  qed
  moreover have "inj int_dec" by (metis injI int_dec_value)
  ultimately show ?thesis by (simp add: times_ok_def sample_audit_def)
qed

theorem audit_log_verifies_witness:
  "vr_ok (verify sample_audit (sort_key ae_seq sample_log)) \<and>
   vr_checked (verify sample_audit (sort_key ae_seq sample_log)) = 1 \<and> map ae_seq sample_log = [1]"
  using audit_log_verifies [OF sample_log_reached] sample_log_one by simp

theorem audit_rewrite_found_witness:
  "vr_ok (verify_anchored sample_audit sample_log
     (Some \<lparr>an_seq = ae_seq (sample_log ! 0), an_hash = ae_hash (sample_log ! 0)\<rparr>)) \<and>
   sample_log \<noteq> [] \<and> take 1 sample_log = drop 0 (take 1 sample_log)"
proof -
  let ?a = "\<lparr>an_seq = ae_seq (sample_log ! 0), an_hash = ae_hash (sample_log ! 0)\<rparr>"
  have ok: "log_ok sample_audit sample_log" using log_system.reach_inv [OF sample_log_reached] .
  obtain e where e: "sample_log = [e]" using sample_log_one by (auto simp: length_Suc_conv)
  with ok have l: "linked sample_audit 0 genesis_hash [e]" "list_all storable sample_log" by (simp_all add: log_ok_def)
  then have v: "vr_ok (verify_anchored sample_audit sample_log (Some ?a))"
    using linked_start [OF l(1)] by (simp add: e verify_anchored_ok anchor_holds_def)
  from audit_rewrite_found [OF sample_log_reached _ sample_times_ok l(2) refl v] e l v
  show ?thesis by (auto simp: collision_def sample_audit_def)
qed

theorem verify_db_is_verify_witness:
  "verify_db_anchored 3 sample_audit [sign_in\<lparr>ae_seq := 2\<rparr>, sign_in\<lparr>ae_seq := 1\<rparr>] None =
   Some (verify_anchored sample_audit [sign_in\<lparr>ae_seq := 1\<rparr>, sign_in\<lparr>ae_seq := 2\<rparr>] None)"
  using verify_db_is_verify [of "[sign_in\<lparr>ae_seq := 2\<rparr>, sign_in\<lparr>ae_seq := 1\<rparr>]" 3 sample_audit None] by simp

end
