(* ===== verification/Send_Limits.thy ===== *)
theory Send_Limits
  imports Audit_Log
begin

text \<open>
  Budgets for sending, \<^verbatim>\<open>internal/sendlimits\<close>: limits inherited along the chain of owners of an account,
  and the reservation of one submission against every budget it counts towards, those of the accounts
  above it, of their domains and of the server. One transaction under an advisory lock is one step; an
  error anywhere in it leaves the database as it was. \<open>fault\<close> is an error of the database, \<open>sl_hold\<close> what
  the caller's Hold callback answers; its own writes are not part of this model. An id of 0 is Go's way
  of having none.
\<close>

section \<open>Limits\<close>

record send_limit_values =
  messages_per_hour :: int
  messages_per_day :: int
  recipients_per_hour :: int
  recipients_per_day :: int

definition limit_values :: "send_limit_values \<Rightarrow> int list" where
  "limit_values v = [messages_per_hour v, messages_per_day v, recipients_per_hour v, recipients_per_day v]"

definition from_values :: "int list \<Rightarrow> send_limit_values" where
  "from_values xs =
     \<lparr>messages_per_hour = xs ! 0, messages_per_day = xs ! 1, recipients_per_hour = xs ! 2, recipients_per_day = xs ! 3\<rparr>"

definition inherit :: "send_limit_values \<Rightarrow> send_limit_values option \<Rightarrow> send_limit_values" where
  "inherit parent override =
     (case override of
        None \<Rightarrow> parent
      | Some v \<Rightarrow> from_values (map2 (\<lambda>p c. if 0 < p \<and> (c = 0 \<or> p < c) then p else c) (limit_values parent) (limit_values v)))"

definition within_limits :: "send_limit_values \<Rightarrow> send_limit_values \<Rightarrow> bool" where
  "within_limits parent child \<longleftrightarrow>
     list_all2 (\<lambda>p c. \<not> (c < 0 \<or> 0 < p \<and> (c = 0 \<or> p < c))) (limit_values parent) (limit_values child)"

text \<open>A counter row is its key, scope, width in seconds and start, and its messages and recipients.\<close>

type_synonym counter_key = "string \<times> int \<times> time"

record counts =
  ct_messages :: int
  ct_recipients :: int

definition no_counts :: counts where "no_counts = \<lparr>ct_messages = 0, ct_recipients = 0\<rparr>"

text \<open>Which limit one more submission would pass, in the order of the fields; none is the empty string.\<close>

definition exceeded :: "send_limit_values \<Rightarrow> counts \<Rightarrow> counts \<Rightarrow> int \<Rightarrow> string" where
  "exceeded cap hr day recipients =
     (let limits = limit_values cap;
          used = [ct_messages hr, ct_messages day, ct_recipients hr, ct_recipients day];
          added = [1, 1, recipients, recipients];
          names = [''messages_per_hour'', ''messages_per_day'', ''recipients_per_hour'', ''recipients_per_day'']
      in case filter (\<lambda>i. 0 < limits ! i \<and> (limits ! i < added ! i \<or> limits ! i - added ! i < used ! i)) [0..<4] of
           [] \<Rightarrow> [] | i # _ \<Rightarrow> names ! i)"

definition day :: duration where "day = 24 * hour"

definition bucket_start :: "time \<Rightarrow> duration \<Rightarrow> time" where
  "bucket_start now width = now - now mod width"

section \<open>Accounts\<close>

record account_row =
  ac_id :: nat
  ac_address :: string
  ac_owner :: "nat option"
  ac_domain :: nat
  ac_active :: bool

record notice_message =
  nm_id :: nat
  nm_msg_id :: string
  nm_thread_id :: string
  nm_mailbox :: nat
  nm_body :: string
  nm_received_at :: time

record send_db =
  sd_accounts :: "account_row list"
  sd_policies :: "string \<rightharpoonup> send_limit_values"
  sd_counters :: "counter_key \<rightharpoonup> counts"
  sd_notices :: "nat \<times> time \<rightharpoonup> nat"
  sd_messages :: "notice_message list"
  sd_audit :: "audit_entry list"

record send_service =
  ss_defaults :: send_limit_values
  ss_domain :: send_limit_values
  ss_server :: send_limit_values
  ss_per_minute :: int

record layer =
  la_scope :: string
  la_limits :: send_limit_values
  la_owner :: nat

record hit =
  hi_scope :: string
  hi_dimension :: string
  hi_owner :: nat
  hi_retry_at :: time
  hi_notice_id :: nat

definition account_scope :: "nat \<Rightarrow> string" where
  "account_scope i = ''account:'' @ nat_dec i"

definition domain_scope :: "nat \<Rightarrow> string" where
  "domain_scope i = ''domain:'' @ nat_dec i"

definition find_account :: "account_row list \<Rightarrow> nat \<Rightarrow> account_row option" where
  "find_account rows i = List.find (\<lambda>m. ac_id m = i) rows"

definition limit_policy :: "send_db \<Rightarrow> string \<Rightarrow> send_limit_values \<Rightarrow> send_limit_values" where
  "limit_policy d scope fallback = (case sd_policies d scope of None \<Rightarrow> fallback | Some v \<Rightarrow> v)"

definition err_account_inactive :: string where "err_account_inactive = ''inactive account in send ownership chain''"
definition err_owner_ceiling :: string where "err_owner_ceiling = ''owned account send limits must not exceed the owner's limits''"

definition owner_or_zero :: "account_row \<Rightarrow> nat" where
  "owner_or_zero m = (case ac_owner m of None \<Rightarrow> 0 | Some n \<Rightarrow> n)"

function account_chain :: "account_row list \<Rightarrow> nat \<Rightarrow> account_row list \<Rightarrow> string + account_row list" where
  "account_chain rows i chain =
     (if i = 0 then Inr chain
      else if i \<in> set (map ac_id chain) \<or> 64 \<le> length chain then Inl ''invalid account ownership chain''
      else case find_account rows i of
             None \<Rightarrow> Inl ''record not found''
           | Some m \<Rightarrow> if \<not> ac_active m then Inl err_account_inactive
                       else account_chain rows (owner_or_zero m) (chain @ [m]))"
  by pat_completeness auto
termination by (relation "measure (\<lambda>(_, _, chain). 64 - length chain)") auto

declare account_chain.simps [simp del]

definition above_or_self :: "account_row \<Rightarrow> nat" where
  "above_or_self m = (case ac_owner m of None \<Rightarrow> ac_id m | Some n \<Rightarrow> n)"

text \<open>From the account at the top of the chain down.\<close>

fun chain_layers :: "send_db \<Rightarrow> bool \<Rightarrow> send_limit_values \<Rightarrow> account_row list \<Rightarrow> layer list" where
  "chain_layers d root inherited [] = []"
| "chain_layers d root inherited (m # ms) =
     (let v0 = limit_policy d (account_scope (ac_id m)) inherited;
          v = (if root then v0 else inherit inherited (Some v0))
      in \<lparr>la_scope = account_scope (ac_id m), la_limits = v, la_owner = above_or_self m\<rparr> # chain_layers d False v ms)"

definition account_layers :: "send_service \<Rightarrow> send_db \<Rightarrow> nat \<Rightarrow> string + layer list \<times> nat" where
  "account_layers s d i =
     (case account_chain (sd_accounts d) i [] of
        Inl e \<Rightarrow> Inl e
      | Inr [] \<Rightarrow> Inl ''missing submitting account''
      | Inr (m # ms) \<Rightarrow> Inr (chain_layers d True (ss_defaults s) (rev (m # ms)), above_or_self m))"

definition effective_account :: "send_service \<Rightarrow> send_db \<Rightarrow> nat \<Rightarrow> string + send_limit_values" where
  "effective_account s d i =
     (case account_layers s d i of Inl e \<Rightarrow> Inl e | Inr (ls, _) \<Rightarrow> Inr (la_limits (last ls)))"

definition unlimited :: send_limit_values where
  "unlimited = \<lparr>messages_per_hour = 0, messages_per_day = 0, recipients_per_hour = 0, recipients_per_day = 0\<rparr>"

definition set_account :: "send_service \<Rightarrow> string option \<Rightarrow> nat \<Rightarrow> send_limit_values \<Rightarrow> send_db \<Rightarrow> send_db \<times> string option" where
  "set_account s fault i v d =
     (case fault of Some e \<Rightarrow> (d, Some e) | None \<Rightarrow>
      if \<not> within_limits unlimited v then (d, Some ''send limits must be nonnegative'')
      else case find_account (sd_accounts d) i of
        None \<Rightarrow> (d, Some ''record not found'')
      | Some m \<Rightarrow>
          (let put = (d\<lparr>sd_policies := (sd_policies d)(account_scope i \<mapsto> v)\<rparr>, None) in
           case ac_owner m of
             None \<Rightarrow> put
           | Some n \<Rightarrow>
               (case effective_account s d n of
                  Inl e \<Rightarrow> (d, Some e)
                | Inr p \<Rightarrow> if \<not> within_limits p v then (d, Some err_owner_ceiling) else put)))"

section \<open>Reserving\<close>

record send_attempt =
  sa_account :: nat
  sa_sender :: nat
  sa_header_sender :: nat
  sa_recipients :: int
  sa_entry :: "audit_entry option"
  sa_bypass_accounts :: bool
  sa_hold :: "string option"
  sa_force_hit :: string

definition sender_of :: "send_attempt \<Rightarrow> nat" where
  "sender_of a = (if sa_sender a = 0 then sa_account a else sa_sender a)"

fun domain_layers :: "send_service \<Rightarrow> send_db \<Rightarrow> nat \<Rightarrow> nat list \<Rightarrow> string + layer list" where
  "domain_layers s d owner [] = Inr []"
| "domain_layers s d owner (i # is) =
     (if i = 0 then domain_layers s d owner is
      else case find_account (sd_accounts d) i of
        None \<Rightarrow> Inl ''record not found''
      | Some m \<Rightarrow>
          (case domain_layers s d owner is of
             Inl e \<Rightarrow> Inl e
           | Inr ls \<Rightarrow> Inr (\<lparr>la_scope = domain_scope (ac_domain m),
               la_limits = limit_policy d (domain_scope (ac_domain m)) (ss_domain s), la_owner = owner\<rparr> # ls)))"

text \<open>Every budget the attempt counts towards, and the owner to be told.\<close>

definition attempt_layers :: "send_service \<Rightarrow> send_db \<Rightarrow> send_attempt \<Rightarrow> string + layer list \<times> nat" where
  "attempt_layers s d a =
     (case account_layers s d (sa_account a) of Inl e \<Rightarrow> Inl e | Inr (own, owner) \<Rightarrow>
      case account_layers s d (sender_of a) of Inl e \<Rightarrow> Inl e | Inr (extra, _) \<Rightarrow>
      case (if sa_header_sender a \<noteq> 0 \<and> sa_header_sender a \<noteq> sender_of a
            then (case account_layers s d (sa_header_sender a) of Inl e \<Rightarrow> Inl e | Inr (h, _) \<Rightarrow> Inr h)
            else Inr []) of Inl e \<Rightarrow> Inl e | Inr header \<Rightarrow>
      case domain_layers s d owner [sa_account a, sender_of a, sa_header_sender a] of Inl e \<Rightarrow> Inl e | Inr ds \<Rightarrow>
      Inr (own @ extra @ header @ ds @
        [\<lparr>la_scope = ''*'', la_limits = limit_policy d ''*'' (ss_server s), la_owner = owner\<rparr>], owner))"

definition hour_key :: "string \<Rightarrow> time \<Rightarrow> counter_key" where
  "hour_key scope now = (scope, 3600, bucket_start now hour)"

definition day_key :: "string \<Rightarrow> time \<Rightarrow> counter_key" where
  "day_key scope now = (scope, 86400, bucket_start now day)"

definition minute_key :: "nat \<Rightarrow> time \<Rightarrow> counter_key" where
  "minute_key i now = (account_scope i, 60, bucket_start now minute)"

definition counter :: "send_db \<Rightarrow> counter_key \<Rightarrow> counts" where
  "counter d k = (case sd_counters d k of None \<Rightarrow> no_counts | Some c \<Rightarrow> c)"

definition layer_exceeded :: "send_db \<Rightarrow> time \<Rightarrow> send_attempt \<Rightarrow> layer \<Rightarrow> string" where
  "layer_exceeded d now a l =
     (if sa_bypass_accounts a \<and> has_prefix (la_scope l) ''account:'' then []
      else exceeded (la_limits l) (counter d (hour_key (la_scope l) now)) (counter d (day_key (la_scope l) now))
             (sa_recipients a))"

text \<open>The layers in turn, each scope once: the first budget that is full, and the counters looked at.\<close>

fun check_layers ::
  "send_db \<Rightarrow> time \<Rightarrow> send_attempt \<Rightarrow> string list \<Rightarrow> counter_key list \<Rightarrow> layer list \<Rightarrow> hit option \<times> counter_key list" where
  "check_layers d now a seen keys [] = (None, keys)"
| "check_layers d now a seen keys (l # ls) =
     (if la_scope l \<in> set seen then check_layers d now a seen keys ls
      else
        (let keys' = keys @ [hour_key (la_scope l) now, day_key (la_scope l) now];
             dimension = layer_exceeded d now a l;
             width = (if has_suffix dimension ''_day'' then day else hour)
         in if dimension \<noteq> [] then
              (Some \<lparr>hi_scope = la_scope l, hi_dimension = dimension, hi_owner = la_owner l,
                     hi_retry_at = bucket_start now width + width, hi_notice_id = 0\<rparr>, keys')
            else check_layers d now a (la_scope l # seen) keys' ls))"

definition count_submission :: "int \<Rightarrow> counter_key \<Rightarrow> send_db \<Rightarrow> send_db" where
  "count_submission recipients k d =
     d\<lparr>sd_counters := (sd_counters d)(k \<mapsto>
         \<lparr>ct_messages = int64 (ct_messages (counter d k) + 1), ct_recipients = int64 (ct_recipients (counter d k) + recipients)\<rparr>)\<rparr>"

record send_env =
  se_audit :: audit_env
  se_random :: "nat list"
  se_rfc3339 :: "time \<Rightarrow> string"

definition next_message_id :: "send_db \<Rightarrow> nat" where
  "next_message_id d = Suc (fold max (map nm_id (sd_messages d)) 0)"

definition limit_notice :: "send_env \<Rightarrow> hit \<Rightarrow> time \<Rightarrow> send_db \<Rightarrow> string + hit \<times> send_db" where
  "limit_notice env h now d =
     (let key = (hi_owner h, bucket_start now hour) in
      if sd_notices d key \<noteq> None then Inr (h, d)
      else case find_account (sd_accounts d) (hi_owner h) of
        None \<Rightarrow> Inl ''record not found''
      | Some owner \<Rightarrow>
          (let body = ''Sending has reached '' @ hi_dimension h @ '' ('' @ hi_scope h @
                 ''). Further mail is held: REST Mail retains API submissions; SMTP clients receive a temporary failure and retain their submissions. Sign in with two-factor authentication to review held mail or change send limits. Next budget reset: '' @
                 se_rfc3339 env (hi_retry_at h) @ ''.'';
               mid = generate_message_id (se_random env) (domain_from_address (ac_address owner));
               i = next_message_id d
           in Inr (h\<lparr>hi_notice_id := i\<rparr>,
                d\<lparr>sd_notices := (sd_notices d)(key \<mapsto> i),
                  sd_messages := sd_messages d @ [\<lparr>nm_id = i, nm_msg_id = mid, nm_thread_id = header_thread_id mid [] [],
                    nm_mailbox = ac_id owner, nm_body = body, nm_received_at = now\<rparr>]\<rparr>)))"

definition hit_entry :: "send_env \<Rightarrow> send_attempt \<Rightarrow> hit \<Rightarrow> time \<Rightarrow> audit_entry \<Rightarrow> audit_entry" where
  "hit_entry env a h now e =
     e\<lparr>ae_action := ''send_limits.hit'', ae_outcome := ''denied'', ae_error_code := ''send_limit_exceeded'',
       ae_occurred_at := now,
       ae_target := [(''account_id'', nat_dec (sa_account a)), (''dimension'', hi_dimension h),
         (''owner_id'', nat_dec (hi_owner h)), (''recipients'', int_dec (sa_recipients a)),
         (''retry_at'', se_rfc3339 env (hi_retry_at h)), (''scope'', hi_scope h)]\<rparr>"

definition refuse :: "send_env \<Rightarrow> send_attempt \<Rightarrow> hit \<Rightarrow> time \<Rightarrow> send_db \<Rightarrow> string + hit \<times> send_db" where
  "refuse env a h now d =
     (case sa_entry a of None \<Rightarrow> Inl ''limit hit requires actor audit'' | Some e0 \<Rightarrow>
      case (if ae_actor_name e0 \<noteq> [] then Inr e0
            else case find_account (sd_accounts d) (sa_account a) of
              None \<Rightarrow> Inl ''record not found''
            | Some m \<Rightarrow> Inr (e0\<lparr>ae_actor_name := ac_address m\<rparr>)) of Inl err \<Rightarrow> Inl err | Inr e1 \<Rightarrow>
      case sa_hold a of Some err \<Rightarrow> Inl err | None \<Rightarrow>
      case limit_notice env h now d of Inl err \<Rightarrow> Inl err | Inr (h', d1) \<Rightarrow>
      case append_entry (se_audit env) None now (hit_entry env a h now e1) (sd_audit d1) of
        (_, Inl err) \<Rightarrow> Inl err
      | (log, Inr _) \<Rightarrow> Inr (h', d1\<lparr>sd_audit := log\<rparr>))"

definition decide :: "send_service \<Rightarrow> send_db \<Rightarrow> time \<Rightarrow> send_attempt \<Rightarrow> layer list \<Rightarrow> nat \<Rightarrow> hit option \<times> counter_key list" where
  "decide s d now a layers owner =
     (let (h0, keys) = check_layers d now a [] [] layers;
          h1 = (if h0 = None \<and> sa_force_hit a \<noteq> []
                then Some \<lparr>hi_scope = ''pipeline'', hi_dimension = sa_force_hit a, hi_owner = owner,
                           hi_retry_at = now + minute, hi_notice_id = 0\<rparr> else h0)
      in if h1 = None \<and> 0 < ss_per_minute s \<and> \<not> sa_bypass_accounts a then
           (let k = minute_key (sa_account a) now in
            if ss_per_minute s \<le> ct_messages (counter d k) then
              (Some \<lparr>hi_scope = account_scope (sa_account a), hi_dimension = ''messages_per_minute'', hi_owner = owner,
                     hi_retry_at = bucket_start now minute + minute, hi_notice_id = 0\<rparr>, keys)
            else (None, keys @ [k]))
         else (h1, keys))"

definition reserve ::
  "send_service \<Rightarrow> send_env \<Rightarrow> string option \<Rightarrow> time \<Rightarrow> send_attempt \<Rightarrow> send_db \<Rightarrow> send_db \<times> (string + hit option)" where
  "reserve s env fault now a d =
     (case fault of Some e \<Rightarrow> (d, Inl e) | None \<Rightarrow>
      if sa_recipients a < 1 then (d, Inl ''submission needs recipients'')
      else case attempt_layers s d a of Inl e \<Rightarrow> (d, Inl e) | Inr (layers, owner) \<Rightarrow>
      case decide s d now a layers owner of
        (Some h, _) \<Rightarrow>
          (case refuse env a h now d of Inl e \<Rightarrow> (d, Inl e) | Inr (h', d') \<Rightarrow> (d', Inr (Some h')))
      | (None, keys) \<Rightarrow> (fold (count_submission (sa_recipients a)) keys d, Inr None))"

section \<open>Inherited limits\<close>

lemma values_four: "limit_values (from_values [a, b, c, e]) = [a, b, c, e]"
  by (simp add: limit_values_def from_values_def)

text \<open>However high an account's own limits are set, what it inherits stays within its owner's.\<close>

lemma inherit_within:
  "within_limits unlimited v \<Longrightarrow> within_limits p (inherit p (Some v))"
  by (auto simp: within_limits_def inherit_def unlimited_def limit_values_def from_values_def)

lemma within_inherit: "within_limits p v \<Longrightarrow> inherit p (Some v) = v"
  by (auto simp: within_limits_def inherit_def limit_values_def from_values_def)

section \<open>One scope, one budget\<close>

text \<open>
  The chain of owners of an account as its documentation has it, from the account up, and the limits of
  the account at its start. An account has one such chain, so whichever way its scope enters a
  reservation it has the same limits there.
\<close>

inductive owner_walk :: "account_row list \<Rightarrow> nat \<Rightarrow> account_row list \<Rightarrow> bool" for rows where
  walk_end: "owner_walk rows 0 []"
| walk_up: "i \<noteq> 0 \<Longrightarrow> find_account rows i = Some m \<Longrightarrow> owner_walk rows (owner_or_zero m) ms \<Longrightarrow> owner_walk rows i (m # ms)"

lemma owner_walk_unique: "owner_walk rows i ms \<Longrightarrow> owner_walk rows i ns \<Longrightarrow> ms = ns"
proof (induction arbitrary: ns rule: owner_walk.induct)
  case walk_end
  then show ?case by (auto elim: owner_walk.cases)
next
  case (walk_up i m ms)
  from walk_up(5) walk_up(1,2) obtain ns' where "ns = m # ns'" "owner_walk rows (owner_or_zero m) ns'"
    by (auto elim: owner_walk.cases)
  with walk_up(4) show ?case by simp
qed

lemma account_chain_walk:
  "account_chain rows i chain = Inr c \<Longrightarrow> \<exists>ms. c = chain @ ms \<and> owner_walk rows i ms"
proof (induction rows i chain rule: account_chain.induct)
  case (1 rows i chain)
  show ?case
  proof (cases "i = 0")
    case True
    with 1(2) show ?thesis by (auto simp: account_chain.simps intro: walk_end)
  next
    case False
    with 1(2) obtain m where m: "find_account rows i = Some m" "account_chain rows (owner_or_zero m) (chain @ [m]) = Inr c"
        "\<not> (i \<in> set (map ac_id chain) \<or> 64 \<le> length chain)" "ac_active m"
      by (subst (asm) account_chain.simps) (auto split: if_splits option.splits)
    with 1(1) [OF False] obtain ms where "c = chain @ [m] @ ms" "owner_walk rows (owner_or_zero m) ms" by auto
    with False m(1) show ?thesis by (auto intro: walk_up)
  qed
qed

fun chain_limits :: "send_service \<Rightarrow> send_db \<Rightarrow> account_row list \<Rightarrow> send_limit_values" where
  "chain_limits s d [] = ss_defaults s"
| "chain_limits s d (m # ms) =
     (let p = chain_limits s d ms; v = limit_policy d (account_scope (ac_id m)) p
      in if ms = [] then v else inherit p (Some v))"

lemma chain_layers_length [simp]: "length (chain_layers d root v xs) = length xs"
  by (induction d root v xs rule: chain_layers.induct) (auto simp: Let_def)

lemma chain_layers_Nil [simp]: "chain_layers d root v xs = [] \<longleftrightarrow> xs = []"
  by (metis chain_layers_length length_0_conv)

lemma chain_layers_append:
  "chain_layers d root v (xs @ ys) =
     chain_layers d root v xs @
     chain_layers d (root \<and> xs = []) (if xs = [] then v else la_limits (last (chain_layers d root v xs))) ys"
  by (induction d root v xs rule: chain_layers.induct) (auto simp: Let_def)

lemma chain_layers_limits:
  "chain_layers d True (ss_defaults s) (rev ms) =
     rev (map (\<lambda>k. \<lparr>la_scope = account_scope (ac_id (ms ! k)), la_limits = chain_limits s d (drop k ms),
        la_owner = above_or_self (ms ! k)\<rparr>) [0..<length ms])"
proof (induction ms)
  case (Cons m ms)
  let ?f = "\<lambda>ns k. \<lparr>la_scope = account_scope (ac_id (ns ! k)), la_limits = chain_limits s d (drop k ns),
        la_owner = above_or_self (ns ! k)\<rparr>"
  have up: "[0..<length (m # ms)] = 0 # map Suc [0..<length ms]" by (simp add: upt_conv_Cons map_Suc_upt del: upt_Suc)
  have last: "ms \<noteq> [] \<Longrightarrow> la_limits (last (chain_layers d True (ss_defaults s) (rev ms))) = chain_limits s d ms"
    using Cons by (cases ms) (simp_all add: upt_conv_Cons del: upt_Suc)
  have "chain_layers d True (ss_defaults s) (rev (m # ms)) =
      chain_layers d True (ss_defaults s) (rev ms) @ [?f (m # ms) 0]"
    using last by (cases "ms = []") (simp_all add: chain_layers_append Let_def)
  also have "\<dots> = rev (map (?f (m # ms)) [0..<length (m # ms)])"
    unfolding up Cons by (simp add: o_def)
  finally show ?case .
qed simp

text \<open>The layers of an account: the accounts up its chain, each with the limits of its own chain.\<close>

lemma owner_walk_drop: "owner_walk rows i ms \<Longrightarrow> k < length ms \<Longrightarrow> owner_walk rows (ac_id (ms ! k)) (drop k ms)"
proof (induction arbitrary: k rule: owner_walk.induct)
  case (walk_up i m ms)
  have "ac_id m = i" using walk_up(2) by (auto simp: find_account_def find_Some_iff)
  with walk_up show ?case by (cases k) (auto intro: owner_walk.walk_up)
qed simp

lemma account_layers_limits:
  assumes "account_layers s d i = Inr (ls, owner)" "l \<in> set ls"
  shows "\<exists>j ms. la_scope l = account_scope j \<and> owner_walk (sd_accounts d) j ms \<and> la_limits l = chain_limits s d ms"
proof -
  obtain m ms where c: "account_chain (sd_accounts d) i [] = Inr (m # ms)" "ls = chain_layers d True (ss_defaults s) (rev (m # ms))"
    using assms(1) by (auto simp: account_layers_def split: sum.splits list.splits)
  then have w: "owner_walk (sd_accounts d) i (m # ms)" using account_chain_walk by fastforce
  from assms(2) c(2) obtain k where "k < length (m # ms)" "la_scope l = account_scope (ac_id ((m # ms) ! k))"
      "la_limits l = chain_limits s d (drop k (m # ms))"
    unfolding chain_layers_limits by (auto simp del: upt_Suc)
  with owner_walk_drop [OF w] show ?thesis by blast
qed

lemma nat_dec_inject: "nat_dec a = nat_dec b \<longleftrightarrow> a = b"
  by (metis nat_dec_value)

lemma scopes_apart:
  "account_scope i = account_scope j \<longleftrightarrow> i = j" "domain_scope i = domain_scope j \<longleftrightarrow> i = j"
  "account_scope i \<noteq> domain_scope j" "domain_scope j \<noteq> account_scope i"
  "account_scope i \<noteq> ''*''" "domain_scope i \<noteq> ''*''" "''*'' \<noteq> account_scope i" "''*'' \<noteq> domain_scope i"
  by (simp_all add: account_scope_def domain_scope_def nat_dec_inject)

definition scope_limits :: "send_service \<Rightarrow> send_db \<Rightarrow> string \<Rightarrow> send_limit_values \<Rightarrow> bool" where
  "scope_limits s d scope v \<longleftrightarrow>
     (\<exists>j ms. scope = account_scope j \<and> owner_walk (sd_accounts d) j ms \<and> v = chain_limits s d ms) \<or>
     (\<exists>j. scope = domain_scope j \<and> v = limit_policy d scope (ss_domain s)) \<or>
     scope = ''*'' \<and> v = limit_policy d scope (ss_server s)"

lemma scope_limits_unique: "scope_limits s d scope v \<Longrightarrow> scope_limits s d scope w \<Longrightarrow> v = w"
  by (auto simp: scope_limits_def scopes_apart dest: owner_walk_unique)

lemma domain_layers_limits:
  "domain_layers s d owner is = Inr ls \<Longrightarrow> l \<in> set ls \<Longrightarrow> \<exists>j. la_scope l = domain_scope j \<and> la_limits l = limit_policy d (la_scope l) (ss_domain s)"
proof (induction "is" arbitrary: ls)
  case (Cons i "is")
  show ?case
  proof (cases "i = 0")
    case True
    with Cons show ?thesis by simp
  next
    case False
    obtain m where m: "find_account (sd_accounts d) i = Some m"
      using Cons(2) False by (cases "find_account (sd_accounts d) i") simp_all
    obtain ks where ks: "domain_layers s d owner is = Inr ks"
      using Cons(2) False m by (cases "domain_layers s d owner is") simp_all
    have "ls = \<lparr>la_scope = domain_scope (ac_domain m), la_limits = limit_policy d (domain_scope (ac_domain m)) (ss_domain s),
          la_owner = owner\<rparr> # ks"
      using Cons(2) False m ks by simp
    with Cons(1) [OF ks] Cons(3) show ?thesis by auto
  qed
qed simp

lemma attempt_layers_limits:
  assumes "attempt_layers s d a = Inr (ls, owner)" "l \<in> set ls"
  shows "scope_limits s d (la_scope l) (la_limits l)"
proof -
  from assms(1) obtain own extra header ds o1 where
    parts: "account_layers s d (sa_account a) = Inr (own, owner)" "account_layers s d (sender_of a) = Inr (extra, o1)"
      "header = [] \<or> (\<exists>o2. account_layers s d (sa_header_sender a) = Inr (header, o2))"
      "domain_layers s d owner [sa_account a, sender_of a, sa_header_sender a] = Inr ds"
      "ls = own @ extra @ header @ ds @ [\<lparr>la_scope = ''*'', la_limits = limit_policy d ''*'' (ss_server s), la_owner = owner\<rparr>]"
    by (auto simp: attempt_layers_def simp del: domain_layers.simps split: sum.splits prod.splits if_splits)
  then consider (acct) i ks o' where "account_layers s d i = Inr (ks, o')" "l \<in> set ks" | (dom) "l \<in> set ds" | (srv) "la_scope l = ''*''"
      "la_limits l = limit_policy d ''*'' (ss_server s)"
    using assms(2) by auto
  then show ?thesis
  proof cases
    case acct then show ?thesis using account_layers_limits by (fastforce simp: scope_limits_def)
  next
    case dom then show ?thesis using domain_layers_limits [OF parts(4) dom] by (auto simp: scope_limits_def)
  next
    case srv then show ?thesis by (simp add: scope_limits_def)
  qed
qed

section \<open>No budget is overdrawn\<close>

definition fits :: "send_limit_values \<Rightarrow> counts \<Rightarrow> counts \<Rightarrow> bool" where
  "fits cap hr dy \<longleftrightarrow>
     (0 < messages_per_hour cap \<longrightarrow> ct_messages hr \<le> messages_per_hour cap) \<and>
     (0 < messages_per_day cap \<longrightarrow> ct_messages dy \<le> messages_per_day cap) \<and>
     (0 < recipients_per_hour cap \<longrightarrow> ct_recipients hr \<le> recipients_per_hour cap) \<and>
     (0 < recipients_per_day cap \<longrightarrow> ct_recipients dy \<le> recipients_per_day cap)"

definition one_more :: "int \<Rightarrow> counts \<Rightarrow> counts" where
  "one_more recipients c = \<lparr>ct_messages = int64 (ct_messages c + 1), ct_recipients = int64 (ct_recipients c + recipients)\<rparr>"

definition int64_values :: "send_limit_values \<Rightarrow> bool" where
  "int64_values v \<longleftrightarrow> list_all (\<lambda>n. n < 2 ^ 63) (limit_values v)"

definition int64_counts :: "counts \<Rightarrow> bool" where
  "int64_counts c \<longleftrightarrow> 0 \<le> ct_messages c \<and> 0 \<le> ct_recipients c"

lemma exceeded_none:
  "exceeded cap hr dy r = [] \<longleftrightarrow>
     \<not> (0 < messages_per_hour cap \<and> (messages_per_hour cap < 1 \<or> messages_per_hour cap - 1 < ct_messages hr)) \<and>
     \<not> (0 < messages_per_day cap \<and> (messages_per_day cap < 1 \<or> messages_per_day cap - 1 < ct_messages dy)) \<and>
     \<not> (0 < recipients_per_hour cap \<and> (recipients_per_hour cap < r \<or> recipients_per_hour cap - r < ct_recipients hr)) \<and>
     \<not> (0 < recipients_per_day cap \<and> (recipients_per_day cap < r \<or> recipients_per_day cap - r < ct_recipients dy))"
proof -
  have four: "[0..<4] = [0, 1, 2, 3::nat]" by code_simp
  show ?thesis by (auto simp: exceeded_def Let_def four limit_values_def numeral_2_eq_2 numeral_3_eq_3 split: if_splits)
qed

lemma exceeded_fits:
  assumes "exceeded cap hr dy r = []" "int64_values cap" "int64_counts hr" "int64_counts dy" "1 \<le> r"
  shows "fits cap (one_more r hr) (one_more r dy)"
proof -
  have "int64 (u + x) \<le> n" if "0 < n" "n < 2 ^ 63" "\<not> (n < x \<or> n - x < u)" "0 \<le> u" "1 \<le> x" for u x n :: int
    using that by (subst int64_id) auto
  with assms show ?thesis
    by (auto simp: fits_def exceeded_none one_more_def int64_values_def int64_counts_def limit_values_def)
qed

definition layer_keys :: "time \<Rightarrow> layer list \<Rightarrow> counter_key list" where
  "layer_keys now ls = concat (map (\<lambda>l. [hour_key (la_scope l) now, day_key (la_scope l) now]) ls)"

lemma check_layers_None:
  "check_layers d now a seen keys ls = (None, ks) \<Longrightarrow>
   \<exists>new. ks = keys @ layer_keys now new \<and> set new \<subseteq> set ls \<and> distinct (map la_scope new) \<and>
     la_scope ` set new \<inter> set seen = {} \<and> (\<forall>l \<in> set ls. la_scope l \<in> set seen \<union> la_scope ` set new) \<and>
     (\<forall>l \<in> set new. layer_exceeded d now a l = [])"
proof (induction ls arbitrary: seen keys)
  case Nil
  then show ?case by (intro exI [of _ "[]"]) (simp add: layer_keys_def)
next
  case (Cons l ls)
  show ?case
  proof (cases "la_scope l \<in> set seen")
    case True
    with Cons(2) have "check_layers d now a seen keys ls = (None, ks)" by simp
    from Cons(1) [OF this] obtain new where "ks = keys @ layer_keys now new" "set new \<subseteq> set ls" "distinct (map la_scope new)"
        "la_scope ` set new \<inter> set seen = {}" "\<forall>x \<in> set ls. la_scope x \<in> set seen \<union> la_scope ` set new"
        "\<forall>x \<in> set new. layer_exceeded d now a x = []"
      by blast
    with True show ?thesis by (intro exI [of _ new]) auto
  next
    case False
    with Cons(2) have ok: "layer_exceeded d now a l = []"
        "check_layers d now a (la_scope l # seen) (keys @ [hour_key (la_scope l) now, day_key (la_scope l) now]) ls = (None, ks)"
      by (auto simp: Let_def split: if_splits)
    from Cons(1) [OF ok(2)] obtain new where new: "ks = (keys @ [hour_key (la_scope l) now, day_key (la_scope l) now]) @ layer_keys now new"
        "set new \<subseteq> set ls" "distinct (map la_scope new)" "la_scope ` set new \<inter> set (la_scope l # seen) = {}"
        "\<forall>x \<in> set ls. la_scope x \<in> set (la_scope l # seen) \<union> la_scope ` set new" "\<forall>x \<in> set new. layer_exceeded d now a x = []"
      by blast
    then have "ks = keys @ layer_keys now (l # new)" by (simp add: layer_keys_def)
    moreover have "distinct (map la_scope (l # new))" "la_scope ` set (l # new) \<inter> set seen = {}"
      using new(3,4) False by auto
    ultimately show ?thesis using new(2,5,6) ok(1) by (intro exI [of _ "l # new"]) auto
  qed
qed

lemma keys_apart:
  "hour_key a t = hour_key b t \<longleftrightarrow> a = b" "day_key a t = day_key b t \<longleftrightarrow> a = b" "hour_key a t \<noteq> day_key b t"
  "day_key a t \<noteq> hour_key b t" "minute_key i t \<noteq> hour_key a t" "minute_key i t \<noteq> day_key a t"
  by (simp_all add: hour_key_def day_key_def minute_key_def)

lemma layer_keys_set: "set (layer_keys now ls) = (\<lambda>l. hour_key (la_scope l) now) ` set ls \<union> (\<lambda>l. day_key (la_scope l) now) ` set ls"
  by (auto simp: layer_keys_def)

lemma layer_keys_distinct: "distinct (map la_scope ls) \<Longrightarrow> distinct (layer_keys now ls)"
proof (induction ls)
  case (Cons l ls)
  have "layer_keys now (l # ls) = hour_key (la_scope l) now # day_key (la_scope l) now # layer_keys now ls"
    by (simp add: layer_keys_def)
  moreover have "hour_key (la_scope l) now \<notin> set (layer_keys now ls)" "day_key (la_scope l) now \<notin> set (layer_keys now ls)"
    using Cons(2) by (auto simp: layer_keys_set keys_apart)
  ultimately show ?case using Cons by (simp add: keys_apart)
qed (simp add: layer_keys_def)

lemma counter_count: "counter (count_submission r k d) x = (if x = k then one_more r (counter d k) else counter d x)"
  by (simp add: counter_def count_submission_def one_more_def)

lemma counter_fold:
  "distinct keys \<Longrightarrow> counter (fold (count_submission r) keys d) x = (if x \<in> set keys then one_more r (counter d x) else counter d x)"
  by (induction keys arbitrary: d) (auto simp: counter_count)

lemma limit_notice_keeps: "limit_notice env h now d = Inr (h', d') \<Longrightarrow> sd_counters d' = sd_counters d \<and> sd_audit d' = sd_audit d"
  by (auto simp: limit_notice_def Let_def split: if_splits option.splits)

lemma clean_hit_action: "clean ''send_limits.hit'' = ''send_limits.hit''"
  by code_simp

lemma append_entry_Inr:
  "append_entry env None now e t = (log, Inr x) \<Longrightarrow> log = t @ [x] \<and> ae_action x = clean (ae_action e)"
  by (auto simp: append_entry_def normalize_def Let_def split_beta split: if_splits)

lemma refuse_records:
  assumes "refuse env a h now d = Inr (h', d')"
  shows "sd_counters d' = sd_counters d \<and> (\<exists>e. sd_audit d' = sd_audit d @ [e] \<and> ae_action e = ''send_limits.hit'')"
proof -
  from assms obtain e1 d1 log x where *: "limit_notice env h now d = Inr (h', d1)"
      "append_entry (se_audit env) None now (hit_entry env a h now e1) (sd_audit d1) = (log, Inr x)" "d' = d1\<lparr>sd_audit := log\<rparr>"
    by (auto simp: refuse_def split: option.splits sum.splits prod.splits)
  with limit_notice_keeps [OF *(1)] append_entry_Inr [OF *(2)] show ?thesis
    by (simp add: hit_entry_def clean_hit_action)
qed

definition charged :: "send_attempt \<Rightarrow> time \<Rightarrow> send_db \<Rightarrow> send_db \<Rightarrow> layer \<Rightarrow> bool" where
  "charged a now d d' l \<longleftrightarrow>
     counter d' (hour_key (la_scope l) now) = one_more (sa_recipients a) (counter d (hour_key (la_scope l) now)) \<and>
     counter d' (day_key (la_scope l) now) = one_more (sa_recipients a) (counter d (day_key (la_scope l) now)) \<and>
     (sa_bypass_accounts a \<and> has_prefix (la_scope l) ''account:'' \<or>
      fits (la_limits l) (counter d' (hour_key (la_scope l) now)) (counter d' (day_key (la_scope l) now)))"

lemma accepted_charges:
  assumes k: "decide s d now a layers owner = (None, keys)" "d' = fold (count_submission (sa_recipients a)) keys d"
    and f: "1 \<le> sa_recipients a" "attempt_layers s d a = Inr (layers, owner)"
    and c: "\<forall>k. int64_counts (counter d k)" and v: "\<forall>scope v. scope_limits s d scope v \<longrightarrow> int64_values v"
    and m: "ss_per_minute s < 2 ^ 63"
  shows "(\<forall>l \<in> set layers. charged a now d d' l) \<and>
    (0 < ss_per_minute s \<and> \<not> sa_bypass_accounts a \<longrightarrow>
      ct_messages (counter d' (minute_key (sa_account a) now)) \<le> ss_per_minute s)"
proof -
  let ?mk = "minute_key (sa_account a) now" and ?per_minute = "0 < ss_per_minute s \<and> \<not> sa_bypass_accounts a"
  from k(1) obtain ks where ks: "check_layers d now a [] [] layers = (None, ks)"
      "keys = ks @ (if ?per_minute then [?mk] else [])" "?per_minute \<Longrightarrow> ct_messages (counter d ?mk) < ss_per_minute s"
    by (auto simp: decide_def Let_def split: prod.splits if_splits)
  from check_layers_None [OF ks(1)] obtain new where new: "ks = layer_keys now new" "set new \<subseteq> set layers" "distinct (map la_scope new)"
      "\<forall>l \<in> set layers. la_scope l \<in> la_scope ` set new" "\<forall>l \<in> set new. layer_exceeded d now a l = []"
    by auto
  have "?mk \<notin> set ks" by (auto simp: new(1) layer_keys_set keys_apart)
  then have "distinct keys" using layer_keys_distinct [OF new(3)] by (auto simp: ks(2) new(1))
  note count = counter_fold [OF this, of "sa_recipients a" d, folded k(2)]
  have "charged a now d d' l" if l: "l \<in> set layers" for l
  proof -
    obtain n where n: "n \<in> set new" "la_scope n = la_scope l" using new(4) l by fastforce
    have lim: "scope_limits s d (la_scope l) (la_limits l)" "scope_limits s d (la_scope l) (la_limits n)"
      using attempt_layers_limits [OF f(2) l] attempt_layers_limits [OF f(2), of n] n new(2) by auto
    then have same: "la_limits n = la_limits l" using scope_limits_unique by blast
    have "hour_key (la_scope l) now \<in> set keys" "day_key (la_scope l) now \<in> set keys"
      using n by (auto simp: ks(2) new(1) layer_keys_set simp flip: n(2))
    then have after: "counter d' (hour_key (la_scope l) now) = one_more (sa_recipients a) (counter d (hour_key (la_scope l) now))"
        "counter d' (day_key (la_scope l) now) = one_more (sa_recipients a) (counter d (day_key (la_scope l) now))"
      by (simp_all add: count)
    moreover have "fits (la_limits l) (counter d' (hour_key (la_scope l) now)) (counter d' (day_key (la_scope l) now))"
      if "\<not> (sa_bypass_accounts a \<and> has_prefix (la_scope l) ''account:'')"
    proof -
      have "layer_exceeded d now a n = []" using new(5) n(1) by blast
      then have "exceeded (la_limits l) (counter d (hour_key (la_scope l) now)) (counter d (day_key (la_scope l) now))
          (sa_recipients a) = []"
        using that n(2) same by (auto simp: layer_exceeded_def)
      from exceeded_fits [OF this _ _ _ f(1)] show ?thesis unfolding after using c v lim(1) by blast
    qed
    ultimately show ?thesis unfolding charged_def by blast
  qed
  moreover have "ct_messages (counter d' ?mk) \<le> ss_per_minute s" if pm: ?per_minute
  proof -
    have "counter d' ?mk = one_more (sa_recipients a) (counter d ?mk)" using pm by (simp add: count ks(2))
    moreover have "0 \<le> ct_messages (counter d ?mk)" using c unfolding int64_counts_def by blast
    then have "int64 (ct_messages (counter d ?mk) + 1) = ct_messages (counter d ?mk) + 1"
      using ks(3) [OF pm] m by (intro int64_id) simp_all
    ultimately show ?thesis using ks(3) [OF pm] by (simp add: one_more_def)
  qed
  ultimately show ?thesis by blast
qed

text \<open>
  C22: A submission is accepted only when it fits every budget it counts towards. After a reservation
  that succeeds, the counters of this hour and this day, of every account up the owners' chain of who
  submits, of the sender and of the From header's identity, of their domains and of the server, are what
  they were plus one message and its recipients, and none is above its limit; a human release is held to
  the limits of domains and server only. A cap per minute holds for the submitting account. When the
  reservation is refused or fails, no counter changes, and a refusal is in the audit log.
\<close>

theorem budgets_never_overdrawn:
  assumes r: "reserve s env fault now a d = (d', res)"
    and c: "\<forall>k. int64_counts (counter d k)" and v: "\<forall>scope v. scope_limits s d scope v \<longrightarrow> int64_values v"
    and m: "ss_per_minute s < 2 ^ 63"
  shows "case res of
      Inr None \<Rightarrow>
        (\<exists>layers owner. attempt_layers s d a = Inr (layers, owner) \<and>
           (\<forall>l \<in> set layers. charged a now d d' l)) \<and>
        (0 < ss_per_minute s \<and> \<not> sa_bypass_accounts a \<longrightarrow>
           ct_messages (counter d' (minute_key (sa_account a) now)) \<le> ss_per_minute s)
    | Inr (Some h) \<Rightarrow> sd_counters d' = sd_counters d \<and>
        (\<exists>e. sd_audit d' = sd_audit d @ [e] \<and> ae_action e = ''send_limits.hit'')
    | Inl e \<Rightarrow> d' = d"
proof (cases res)
  case (Inl e)
  then show ?thesis using r by (auto simp: reserve_def split: option.splits if_splits sum.splits prod.splits)
next
  case (Inr h)
  from r Inr obtain layers owner where f: "fault = None" "1 \<le> sa_recipients a" "attempt_layers s d a = Inr (layers, owner)"
    by (auto simp: reserve_def split: option.splits if_splits sum.splits)
  show ?thesis
  proof (cases h)
    case (Some x)
    with r Inr f obtain y where "refuse env a y now d = Inr (x, d')"
      by (auto simp: reserve_def split: option.splits if_splits sum.splits prod.splits)
    from refuse_records [OF this] Inr Some show ?thesis by simp
  next
    case None
    with r Inr f obtain keys where k: "decide s d now a layers owner = (None, keys)"
        "d' = fold (count_submission (sa_recipients a)) keys d"
      by (auto simp: reserve_def split: option.splits if_splits sum.splits prod.splits)
    from accepted_charges [OF k f(2,3) c v m] Inr None f(3) show ?thesis by auto
  qed
qed

section \<open>One account with two messages an hour\<close>

definition two_an_hour :: send_service where
  "two_an_hour =
     \<lparr>ss_defaults = \<lparr>messages_per_hour = 2, messages_per_day = 0, recipients_per_hour = 0, recipients_per_day = 0\<rparr>,
      ss_domain = unlimited, ss_server = unlimited, ss_per_minute = 5\<rparr>"

definition one_account :: send_db where
  "one_account =
     \<lparr>sd_accounts = [\<lparr>ac_id = 1, ac_address = ''a@b.example'', ac_owner = None, ac_domain = 3, ac_active = True\<rparr>],
      sd_policies = Map.empty, sd_counters = Map.empty, sd_notices = Map.empty, sd_messages = [], sd_audit = []\<rparr>"

definition one_submission :: send_attempt where
  "one_submission =
     \<lparr>sa_account = 1, sa_sender = 0, sa_header_sender = 0, sa_recipients = 4, sa_entry = Some sign_in,
      sa_bypass_accounts = False, sa_hold = None, sa_force_hit = []\<rparr>"

definition sample_send_env :: send_env where
  "sample_send_env = \<lparr>se_audit = sample_audit, se_random = [], se_rfc3339 = int_dec\<rparr>"

lemma one_account_limits: "chain_limits two_an_hour one_account ms = ss_defaults two_an_hour"
  by (induction ms) (simp_all add: Let_def limit_policy_def one_account_def inherit_def two_an_hour_def limit_values_def from_values_def)

lemma one_account_int64: "\<forall>scope v. scope_limits two_an_hour one_account scope v \<longrightarrow> int64_values v"
proof (intro allI impI)
  fix scope v assume "scope_limits two_an_hour one_account scope v"
  then have "v = ss_defaults two_an_hour \<or> v = unlimited"
    by (auto simp: scope_limits_def one_account_limits limit_policy_def) (simp_all add: one_account_def two_an_hour_def)
  then show "int64_values v" by (auto simp: int64_values_def limit_values_def two_an_hour_def unlimited_def)
qed

lemma one_submission_accepted:
  "snd (reserve two_an_hour sample_send_env None 0 one_submission one_account) = Inr None"
  by (simp add: reserve_def one_submission_def attempt_layers_def account_layers_def account_chain.simps find_account_def
      one_account_def sender_of_def owner_or_zero_def Let_def above_or_self_def decide_def limit_policy_def two_an_hour_def
      layer_exceeded_def exceeded_none unlimited_def counter_def no_counts_def scopes_apart)

theorem budgets_never_overdrawn_witness:
  "\<exists>layers owner. attempt_layers two_an_hour one_account one_submission = Inr (layers, owner) \<and>
     list_all (charged one_submission 0 one_account
       (fst (reserve two_an_hour sample_send_env None 0 one_submission one_account))) layers"
proof -
  have r: "reserve two_an_hour sample_send_env None 0 one_submission one_account =
      (fst (reserve two_an_hour sample_send_env None 0 one_submission one_account), Inr None)"
    using one_submission_accepted by (metis prod.collapse)
  have "\<forall>k. int64_counts (counter one_account k)" by (simp add: counter_def one_account_def int64_counts_def no_counts_def)
  from budgets_never_overdrawn [OF r this one_account_int64] show ?thesis
    by (auto simp: two_an_hour_def list_all_iff)
qed

end
