(* ===== verification/Grants_Scopes.thy ===== *)
theory Grants_Scopes
  imports Send_Limits
begin

text \<open>
  Scopes and what is held at them, \<^verbatim>\<open>internal/grants/scope.go\<close> and the methods of Held in
  \<^verbatim>\<open>internal/grants/held.go\<close>. A Held is the list of its entries. Scopes nest: the installation covers its
  domains and a domain its mailboxes. The locale \<open>nested_scopes\<close> states what the code relies on of that
  nesting, a preorder in which two scopes over a common one are comparable, and derives that the narrower of
  two scopes covers exactly what both cover; \<open>Within\<close> and \<open>IntersectScopes\<close> are meets for that reason.
\<close>

section \<open>Scopes\<close>

definition scope_all :: string where "scope_all = ''*''"
definition domain_prefix :: string where "domain_prefix = ''domain:''"
definition mailbox_prefix :: string where "mailbox_prefix = ''mailbox:''"

definition scope_of_domain :: "string \<Rightarrow> string" where
  "scope_of_domain name = domain_prefix @ to_lower name"

definition scope_of_mailbox :: "string \<Rightarrow> string" where
  "scope_of_mailbox address = mailbox_prefix @ to_lower address"

text \<open>\<open>strings.CutPrefix\<close>.\<close>

definition cut_prefix :: "string \<Rightarrow> string \<Rightarrow> string option" where
  "cut_prefix s p = (if has_prefix s p then Some (drop (length p) s) else None)"

definition valid_label :: "string \<Rightarrow> bool" where
  "valid_label label \<longleftrightarrow>
     label \<noteq> [] \<and> length label \<le> 63 \<and> list_all (\<lambda>c. is_lower c \<or> is_digit c \<or> c = CHR ''-'') label"

definition valid_domain :: "string \<Rightarrow> bool" where
  "valid_domain name \<longleftrightarrow>
     name \<noteq> [] \<and> length name \<le> 253 \<and> list_all valid_label (split_byte (CHR ''.'') name)"

definition err_bad_scope :: string where
  "err_bad_scope = ''scope must be \"*\", \"domain:<name>\" or \"mailbox:<address>\"''"

definition parse_scope :: "string \<Rightarrow> string + string" where
  "parse_scope s0 =
     (let s = to_lower (trim_space s0) in
      if s = scope_all then Inr s
      else if (case cut_prefix s domain_prefix of Some name \<Rightarrow> valid_domain name | None \<Rightarrow> False) then Inr s
      else if (case cut_prefix s mailbox_prefix of
                 None \<Rightarrow> False
               | Some address \<Rightarrow>
                   (case cut_byte (CHR ''@'') address of
                      (local, domain, found) \<Rightarrow>
                        found \<and> local \<noteq> [] \<and> \<not> contains_any local [CHR '' '', CHR 0x09, CHR 0x0D, CHR 0x0A, CHR ''@'']
                        \<and> valid_domain domain)) then Inr s
      else Inl err_bad_scope)"

definition covers :: "string \<Rightarrow> string \<Rightarrow> bool" where
  "covers scope target =
     (if scope = scope_all \<or> scope = target then True
      else case cut_prefix scope domain_prefix of None \<Rightarrow> False | Some domain \<Rightarrow>
           case cut_prefix target mailbox_prefix of None \<Rightarrow> False | Some address \<Rightarrow>
           case last_index_byte address (CHR ''@'') of None \<Rightarrow> False | Some at \<Rightarrow> drop (at + 1) address = domain)"

section \<open>What an account holds\<close>

definition wildcard :: string where "wildcard = ''*''"

record grant_entry =
  en_scope :: string
  en_capability :: string

type_synonym held = "grant_entry list"

definition entry_allows :: "grant_entry \<Rightarrow> string \<Rightarrow> string \<Rightarrow> bool" where
  "entry_allows e capability target \<longleftrightarrow>
     (en_capability e = wildcard \<or> en_capability e = capability) \<and> covers (en_scope e) target"

definition allows :: "held \<Rightarrow> string \<Rightarrow> string \<Rightarrow> bool" where
  "allows h capability target \<longleftrightarrow> list_ex (\<lambda>e. entry_allows e capability target) h"

definition allows_somewhere :: "held \<Rightarrow> string \<Rightarrow> bool" where
  "allows_somewhere h capability \<longleftrightarrow> list_ex (\<lambda>e. en_capability e = wildcard \<or> en_capability e = capability) h"

definition can_grant :: "held \<Rightarrow> string list \<Rightarrow> string \<Rightarrow> bool" where
  "can_grant h capabilities scope \<longleftrightarrow> list_all (\<lambda>c. allows h c scope) capabilities"

text \<open>A loop that appends what a map of things seen has not: the first occurrences, in order.\<close>

fun firsts :: "'a list \<Rightarrow> 'a list \<Rightarrow> 'a list" where
  "firsts seen [] = []"
| "firsts seen (x # xs) = (if x \<in> set seen then firsts seen xs else x # firsts (x # seen) xs)"

fun capabilities_from :: "string list \<Rightarrow> held \<Rightarrow> string list option" where
  "capabilities_from out [] = Some out"
| "capabilities_from out (e # es) =
     (if en_scope e \<noteq> scope_all \<or> en_capability e \<in> set out then capabilities_from out es
      else if en_capability e = wildcard then None
      else capabilities_from (out @ [en_capability e]) es)"

definition global_capabilities :: "held \<Rightarrow> string list" where
  "global_capabilities h = (case capabilities_from [] h of None \<Rightarrow> [wildcard] | Some out \<Rightarrow> sort out)"

definition scoped_capabilities :: "held \<Rightarrow> held" where
  "scoped_capabilities h =
     sort_key en_scope (sort_key en_capability (firsts [] (filter (\<lambda>e. en_scope e \<noteq> scope_all) h)))"

definition scopes_of :: "held \<Rightarrow> string \<Rightarrow> string list" where
  "scopes_of h capability =
     sort (firsts [] (map en_scope (filter (\<lambda>e. en_capability e = capability \<or> en_capability e = wildcard) h)))"

definition shared_capability :: "string \<Rightarrow> string \<Rightarrow> string option" where
  "shared_capability held ceiling =
     (if held = ceiling \<or> ceiling = wildcard then Some held
      else if held = wildcard then Some ceiling
      else None)"

definition shared_scope :: "string \<Rightarrow> string \<Rightarrow> string option" where
  "shared_scope held ceiling =
     (if covers ceiling held then Some held else if covers held ceiling then Some ceiling else None)"

definition shared_entry :: "grant_entry \<Rightarrow> grant_entry \<Rightarrow> grant_entry option" where
  "shared_entry e c =
     (case shared_capability (en_capability e) (en_capability c) of None \<Rightarrow> None | Some capability \<Rightarrow>
      case shared_scope (en_scope e) (en_scope c) of None \<Rightarrow> None | Some scope \<Rightarrow>
        Some \<lparr>en_scope = scope, en_capability = capability\<rparr>)"

definition within :: "held \<Rightarrow> held \<Rightarrow> held" where
  "within h ceiling = firsts [] (concat (map (\<lambda>e. List.map_filter (shared_entry e) ceiling) h))"

text \<open>
  The empty string stands for no scope; it is covered by the installation and by itself, and then not kept.
\<close>

definition intersect_scopes :: "string list \<Rightarrow> string list \<Rightarrow> string list" where
  "intersect_scopes a b =
     sort (firsts [] (concat (map (\<lambda>left. filter (\<lambda>scope. scope \<noteq> [])
       (List.map_filter (\<lambda>right. if covers left right then Some right
                               else if covers right left then Some left else None) b)) a)))"

section \<open>Nested scopes\<close>

locale nested_scopes =
  fixes above :: "'s \<Rightarrow> 's \<Rightarrow> bool"
  assumes above_refl: "above s s"
    and above_trans: "above r s \<Longrightarrow> above s t \<Longrightarrow> above r t"
    and above_forest: "above r t \<Longrightarrow> above s t \<Longrightarrow> above r s \<or> above s r"
begin

definition narrower :: "'s \<Rightarrow> 's \<Rightarrow> 's option" where
  "narrower s t = (if above t s then Some s else if above s t then Some t else None)"

lemma narrower_covers:
  "narrower s t = Some m \<Longrightarrow> above m x \<longleftrightarrow> above s x \<and> above t x"
  by (auto simp: narrower_def split: if_splits intro: above_trans)

lemma narrower_exists: "above s x \<Longrightarrow> above t x \<Longrightarrow> \<exists>m. narrower s t = Some m"
  using above_forest by (auto simp: narrower_def)

lemma narrower_meet: "(\<exists>m. narrower s t = Some m \<and> above m x) \<longleftrightarrow> above s x \<and> above t x"
  using narrower_covers narrower_exists by blast

end

lemma cut_prefix_append: "cut_prefix s p = Some r \<longleftrightarrow> s = p @ r"
  by (auto simp: cut_prefix_def has_prefix_iff)

lemma cut_prefix_self [simp]: "cut_prefix (p @ r) p = Some r"
  by (simp add: cut_prefix_append)

lemmas scope_prefix_defs = scope_all_def domain_prefix_def mailbox_prefix_def

lemma covers_cases:
  "covers s t \<longleftrightarrow> s = scope_all \<or> s = t \<or>
     (\<exists>d a i. s = domain_prefix @ d \<and> t = mailbox_prefix @ a \<and> last_index_byte a (CHR ''@'') = Some i \<and> drop (i + 1) a = d)"
  by (auto simp: covers_def cut_prefix_append split: option.splits)

lemma covers_refl [simp]: "covers s s" and covers_all [simp]: "covers scope_all s"
  by (simp_all add: covers_def)

lemma scope_prefixes_differ [simp]:
  "domain_prefix @ d \<noteq> mailbox_prefix @ a" "mailbox_prefix @ a \<noteq> domain_prefix @ d"
  "domain_prefix @ d \<noteq> scope_all" "mailbox_prefix @ a \<noteq> scope_all" "scope_all \<noteq> []" "domain_prefix @ d \<noteq> []"
  by (simp_all add: scope_prefix_defs)

lemma covers_mailbox [simp]: "covers (mailbox_prefix @ a) t \<longleftrightarrow> t = mailbox_prefix @ a"
  by (auto simp: covers_cases)

lemma covers_domain: "covers (domain_prefix @ d) t \<longleftrightarrow> t = domain_prefix @ d \<or>
     (\<exists>a i. t = mailbox_prefix @ a \<and> last_index_byte a (CHR ''@'') = Some i \<and> drop (i + 1) a = d)"
  by (auto simp: covers_cases)

lemma covers_trans: "covers r s \<Longrightarrow> covers s t \<Longrightarrow> covers r t"
  using covers_cases [of r s] by auto

lemma covers_forest: "covers r t \<Longrightarrow> covers s t \<Longrightarrow> covers r s \<or> covers s r"
  using covers_cases [of r t] covers_cases [of s t] by auto

lemma covers_from_all: "covers s scope_all \<longleftrightarrow> s = scope_all"
  using covers_cases [of s scope_all] by (auto simp: scope_prefix_defs)

interpretation scopes: nested_scopes covers
  by unfold_locales (use covers_trans covers_forest in auto)

lemma shared_scope_meet: "(\<exists>m. shared_scope s t = Some m \<and> covers m x) \<longleftrightarrow> covers s x \<and> covers t x"
  using scopes.narrower_meet by (simp add: shared_scope_def scopes.narrower_def)

section \<open>Held as a set of permissions\<close>

lemma set_firsts: "set (firsts seen xs) = set xs - set seen"
  by (induction xs arbitrary: seen) auto

lemma distinct_firsts: "distinct (firsts seen xs)"
  by (induction xs arbitrary: seen) (auto simp: set_firsts)

lemma allows_iff: "allows h c t \<longleftrightarrow> (\<exists>e\<in>set h. entry_allows e c t)"
  by (simp add: allows_def list_ex_iff)

lemma allows_Nil [simp]: "\<not> allows [] c t"
  by (simp add: allows_iff)

lemma allows_append [simp]: "allows (h @ h') c t \<longleftrightarrow> allows h c t \<or> allows h' c t"
  by (auto simp: allows_iff)

lemma shared_capability_meet:
  "(\<exists>k. shared_capability a b = Some k \<and> (k = wildcard \<or> k = c)) \<longleftrightarrow>
     (a = wildcard \<or> a = c) \<and> (b = wildcard \<or> b = c)"
  by (auto simp: shared_capability_def)

lemma shared_entry_meet:
  "(\<exists>m. shared_entry e f = Some m \<and> entry_allows m c t) \<longleftrightarrow> entry_allows e c t \<and> entry_allows f c t"
proof -
  have "(\<exists>m. shared_entry e f = Some m \<and> entry_allows m c t) \<longleftrightarrow>
      (\<exists>k. shared_capability (en_capability e) (en_capability f) = Some k \<and> (k = wildcard \<or> k = c)) \<and>
      (\<exists>s. shared_scope (en_scope e) (en_scope f) = Some s \<and> covers s t)"
    by (auto simp: shared_entry_def entry_allows_def split: option.splits)
  then show ?thesis
    unfolding shared_capability_meet shared_scope_meet by (auto simp: entry_allows_def)
qed

lemma set_map_filter: "set (List.map_filter f xs) = {y. \<exists>x\<in>set xs. f x = Some y}"
  by (force simp: List.map_filter_def)

lemma set_within: "set (within h g) = {m. \<exists>e\<in>set h. \<exists>f\<in>set g. shared_entry e f = Some m}"
  by (auto simp: within_def set_firsts set_map_filter)

lemma allows_within: "allows (within h g) c t \<longleftrightarrow> allows h c t \<and> allows g c t"
proof -
  have "allows (within h g) c t \<longleftrightarrow> (\<exists>e\<in>set h. \<exists>f\<in>set g. \<exists>m. shared_entry e f = Some m \<and> entry_allows m c t)"
    by (auto simp: allows_iff set_within)
  then show ?thesis unfolding shared_entry_meet by (auto simp: allows_iff)
qed

lemma concat_map_empty: "concat (map (\<lambda>x. []) xs) = []"
  by (induction xs) simp_all

lemma within_Nil [simp]: "within h [] = []" "within [] h = []"
  by (simp_all add: within_def List.map_filter_def concat_map_empty)

lemma allows_covered: "allows h c s \<Longrightarrow> covers s t \<Longrightarrow> allows h c t"
  by (auto simp: allows_iff entry_allows_def intro: covers_trans)

lemma allows_wildcard: "allows h wildcard t \<Longrightarrow> allows h c t"
  by (auto simp: allows_iff entry_allows_def)

lemma superadmin_allows: "allows h wildcard scope_all \<Longrightarrow> allows h c t"
  using allows_wildcard allows_covered covers_all by blast

text \<open>The places a capability is held, and what two lists of places share.\<close>

lemma scopes_of_allows: "allows h c t \<longleftrightarrow> (\<exists>s\<in>set (scopes_of h c). covers s t)"
  by (auto simp: allows_iff entry_allows_def scopes_of_def set_firsts)

lemma intersect_scopes_meet:
  assumes "t \<noteq> []"
  shows "(\<exists>s\<in>set (intersect_scopes a b). covers s t) \<longleftrightarrow> (\<exists>s\<in>set a. covers s t) \<and> (\<exists>s\<in>set b. covers s t)"
proof -
  have ne: "s \<noteq> []" if "covers s t" for s
    using that assms covers_cases [of s t] by (auto simp: scope_prefix_defs)
  have kept: "s \<in> set (intersect_scopes a b) \<longleftrightarrow> s \<noteq> [] \<and> (\<exists>l\<in>set a. \<exists>r\<in>set b. shared_scope r l = Some s)" for s
    by (auto simp: intersect_scopes_def set_firsts set_map_filter shared_scope_def)
  have "(\<exists>s\<in>set (intersect_scopes a b). covers s t) \<longleftrightarrow>
      (\<exists>l\<in>set a. \<exists>r\<in>set b. \<exists>m. shared_scope r l = Some m \<and> covers m t)"
    unfolding Bex_def kept using ne by blast
  then show ?thesis unfolding shared_scope_meet by blast
qed

text \<open>The global snapshot names exactly the capabilities held everywhere.\<close>

lemma capabilities_from_set:
  fixes h :: held
  shows "case capabilities_from out h of
     None \<Rightarrow> \<exists>e\<in>set h. en_scope e = scope_all \<and> en_capability e = wildcard
   | Some r \<Rightarrow> set r = set out \<union> {en_capability e |e. e \<in> set h \<and> en_scope e = scope_all}"
  by (induction out h rule: capabilities_from.induct) (auto split: option.splits)

lemma global_capabilities_allow:
  "wildcard \<in> set (global_capabilities h) \<or> c \<in> set (global_capabilities h) \<longleftrightarrow> allows h c scope_all"
  using capabilities_from_set [where out = "[]" and h = h]
  by (auto simp: global_capabilities_def allows_iff entry_allows_def covers_from_all split: option.splits) metis

text \<open>
  Parsing gives a scope in its stored form. A mailbox has one \<open>@\<close>, so its domain is the one \<open>Covers\<close> finds
  behind the last, and a scope of that domain covers it.
\<close>

lemma parse_scope_forms:
  assumes "parse_scope s = Inr t"
  shows "t = scope_all \<or> (\<exists>d. t = domain_prefix @ d \<and> valid_domain d)
    \<or> (\<exists>l d. t = mailbox_prefix @ l @ CHR ''@'' # d \<and> l \<noteq> [] \<and> CHR ''@'' \<notin> set l \<and> valid_domain d)"
  using assms
  by (auto simp: parse_scope_def Let_def cut_prefix_append cut_byte_found split: if_splits option.splits prod.splits)

lemma valid_domain_no_at: "valid_domain d \<Longrightarrow> CHR ''@'' \<notin> set d"
proof
  assume d: "valid_domain d" and at: "CHR ''@'' \<in> set d"
  obtain p where p: "p \<in> set (split_byte (CHR ''.'') d)" "CHR ''@'' \<in> set p"
    using set_join [of "[CHR ''.'']" "split_byte (CHR ''.'') d"] at by (auto simp: join_split_byte)
  then have "valid_label p" using d by (simp add: valid_domain_def list_all_iff)
  then have "is_lower (CHR ''@'') \<or> is_digit (CHR ''@'')" using p(2) by (auto simp: valid_label_def list_all_iff)
  then show False by (simp add: is_lower_def is_digit_def)
qed

lemma domain_covers_its_mailboxes:
  assumes "parse_scope s = Inr (mailbox_prefix @ l @ CHR ''@'' # d)" "valid_domain d"
  shows "covers (domain_prefix @ d) (mailbox_prefix @ l @ CHR ''@'' # d)"
proof -
  have "last_index_byte (l @ CHR ''@'' # d) (CHR ''@'') = Some (length l)"
    using valid_domain_no_at [OF assms(2)] by (simp add: go_cut)
  then show ?thesis by (auto simp: covers_domain)
qed

end
