(* ===== verification/Grants_Load.thy ===== *)
theory Grants_Load
  imports Grants_Scopes
begin

text \<open>
  What an account holds now, \<^verbatim>\<open>Load\<close> of \<^verbatim>\<open>internal/grants/held.go\<close>: its grants in force, the implicit ones on
  its own mailbox, those an owner grant reaches further down (\<open>ownedBelow\<close>), all cut down to what its owners hold
  (\<open>loadBounded\<close>), to the ceiling of the server and to its sessions (\<^verbatim>\<open>internal/grants/server.go\<close>,
  \<^verbatim>\<open>internal/grants/server_ceiling.go\<close>, \<^verbatim>\<open>internal/grants/receive.go\<close>). The tables are lists of rows, with the sequences that hand
  out their ids; a query is a filter or a join of them. \<open>fault\<close> is an error of the database, which every reader passes on. A time that is Go's zero
  is \<open>None\<close>. The order in which Go ranges over a map is not fixed; here it is that of first occurrence.
\<close>

section \<open>Tables\<close>

record role_row =
  ro_id :: nat
  ro_name :: string

record capability_row =
  cp_id :: nat
  cp_name :: string

record grant_row =
  gr_id :: nat
  gr_holder_kind :: string
  gr_holder_id :: nat
  gr_role_id :: nat
  gr_scope :: string
  gr_mode :: string
  gr_granted_by_kind :: string
  gr_granted_by_id :: "nat option"
  gr_granted_at :: time
  gr_expires_at :: "time option"

record activation_row =
  av_id :: nat
  av_grant_id :: nat
  av_activated_at :: time
  av_expires_at :: time
  av_reason :: string
  av_ended_at :: "time option"

record credential_row =
  cd_account_id :: nat
  cd_kind :: string
  cd_confirmed_at :: "time option"
  cd_revoked_at :: "time option"

record grants_db =
  gd_roles :: "role_row list"
  gd_capabilities :: "capability_row list"
  gd_role_caps :: "(nat \<times> nat) list"
  gd_grants :: "grant_row list"
  gd_activations :: "activation_row list"
  gd_accounts :: "account_row list"
  gd_credentials :: "credential_row list"
  gd_audit :: "audit_entry list"
  gd_role_seq :: nat
  gd_grant_seq :: nat
  gd_activation_seq :: nat

definition holder_account :: string where "holder_account = ''account''"
definition holder_server :: string where "holder_server = ''server''"
definition server_holder_id :: nat where "server_holder_id = 1"
definition role_server :: string where "role_server = ''server''"
definition role_owner :: string where "role_owner = ''owner''"
definition grant_active :: string where "grant_active = ''active''"
definition grant_eligible :: string where "grant_eligible = ''eligible''"

definition cap_mail_import :: string where "cap_mail_import = ''mail:import''"
definition cap_mail_receive :: string where "cap_mail_receive = ''mail:receive''"
definition cap_mailbox_session :: string where "cap_mailbox_session = ''mailbox:session''"
definition cap_admin_session :: string where "cap_admin_session = ''admin:session''"

definition owner_capabilities :: "string list" where
  "owner_capabilities =
     [''mail:read'', ''mail:write'', cap_mail_import, ''mail:send'', cap_mail_receive, ''mail:send_as'',
      ''mail:send_on_behalf'', ''mailbox:manage'', cap_mailbox_session]"

section \<open>Grants in force\<close>

definition unexpired :: "time \<Rightarrow> grant_row \<Rightarrow> bool" where
  "unexpired now g \<longleftrightarrow> (case gr_expires_at g of None \<Rightarrow> True | Some at \<Rightarrow> now < at)"

definition live :: "time \<Rightarrow> activation_row \<Rightarrow> bool" where
  "live now a \<longleftrightarrow> av_ended_at a = None \<and> now < av_expires_at a"

text \<open>The rows of \<open>grant_activations\<close> a left join pairs with a grant: its live ones, or none.\<close>

definition live_join :: "grants_db \<Rightarrow> time \<Rightarrow> grant_row \<Rightarrow> activation_row option list" where
  "live_join d now g =
     (let as = filter (\<lambda>a. av_grant_id a = gr_id g \<and> live now a) (gd_activations d)
      in if as = [] then [None] else map Some as)"

definition in_force :: "time \<Rightarrow> grant_row \<Rightarrow> activation_row option \<Rightarrow> bool" where
  "in_force now g a \<longleftrightarrow>
     (gr_mode g = grant_active \<or> gr_mode g = grant_eligible \<and> a \<noteq> None) \<and> unexpired now g"

definition role_capabilities :: "grants_db \<Rightarrow> nat \<Rightarrow> string list" where
  "role_capabilities d role =
     sort (concat (map (\<lambda>(r, c). if r = role then map cp_name (filter (\<lambda>k. cp_id k = c) (gd_capabilities d)) else [])
       (gd_role_caps d)))"

record held_row =
  hr_scope :: string
  hr_capability :: string
  hr_role :: string
  hr_expires_at :: "time option"
  hr_activation_expires_at :: "time option"

definition grant_rows :: "grants_db \<Rightarrow> time \<Rightarrow> (grant_row \<Rightarrow> role_row \<Rightarrow> bool) \<Rightarrow> held_row list" where
  "grant_rows d now wanted =
     [\<lparr>hr_scope = gr_scope g, hr_capability = c, hr_role = ro_name r, hr_expires_at = gr_expires_at g,
       hr_activation_expires_at = map_option av_expires_at a\<rparr>.
        g \<leftarrow> gd_grants d, r \<leftarrow> filter (\<lambda>r. ro_id r = gr_role_id g) (gd_roles d), wanted g r,
        c \<leftarrow> role_capabilities d (gr_role_id g), a \<leftarrow> live_join d now g, in_force now g a]"

text \<open>The earlier of two expiries, and the earliest of a list of rows.\<close>

fun earlier :: "time option \<Rightarrow> time option \<Rightarrow> time option" where
  "earlier None b = b"
| "earlier a None = a"
| "earlier (Some a) (Some b) = Some (if b < a then b else a)"

definition rows_expire :: "held_row list \<Rightarrow> time option" where
  "rows_expire rows = foldl (\<lambda>e r. earlier (earlier e (hr_expires_at r)) (hr_activation_expires_at r)) None rows"

section \<open>Loading\<close>

definition max_owner_depth :: nat where "max_owner_depth = 8"

definition active_at :: "grants_db \<Rightarrow> string \<Rightarrow> account_row list" where
  "active_at d address = filter (\<lambda>m. ac_address m = address \<and> ac_active m) (gd_accounts d)"

definition active_owned :: "grants_db \<Rightarrow> nat \<Rightarrow> account_row list" where
  "active_owned d owner = sort_key ac_address (filter (\<lambda>m. ac_owner m = Some owner \<and> ac_active m) (gd_accounts d))"

definition owner_rows :: "grants_db \<Rightarrow> time \<Rightarrow> nat \<Rightarrow> string \<Rightarrow> held_row list" where
  "owner_rows d now holder scope =
     grant_rows d now (\<lambda>g r. gr_holder_kind g = holder_account \<and> gr_holder_id g = holder \<and> gr_scope g = scope
       \<and> ro_name r = role_owner)"

text \<open>
  \<open>visited\<close> is the path above, so each address on it is met once; \<open>depth\<close> bounds the recursion.
\<close>

function owned_below ::
  "grants_db \<Rightarrow> time \<Rightarrow> string \<Rightarrow> string list \<Rightarrow> nat \<Rightarrow> string list \<Rightarrow> held \<times> time option" where
  "owned_below d now address capabilities depth visited =
     (if address \<in> set visited \<or> max_owner_depth \<le> depth \<or> capabilities = [] then ([], None)
      else case active_at d address of
        [owner] \<Rightarrow>
          foldl (\<lambda>(out, expires) child.
              (let scope = scope_of_mailbox (ac_address child);
                   rows = owner_rows d now (ac_id owner) scope;
                   kept = filter (\<lambda>c. c \<in> set (map hr_capability rows)) capabilities;
                   (below, below_expires) = owned_below d now (ac_address child) kept (depth + 1) (address # visited)
               in (out @ map (\<lambda>c. \<lparr>en_scope = scope, en_capability = c\<rparr>) kept @ below,
                   earlier (earlier expires (rows_expire rows)) below_expires)))
            ([], None) (active_owned d (ac_id owner))
      | _ \<Rightarrow> ([], None))"
  by pat_completeness auto
termination by (relation "measure (\<lambda>(_, _, _, _, depth, _). max_owner_depth - depth)") auto

declare owned_below.simps [simp del]

definition own_account :: "grants_db \<Rightarrow> nat \<Rightarrow> account_row list" where
  "own_account d i = filter (\<lambda>m. ac_id m = i \<and> ac_active m) (gd_accounts d)"

definition own_entries :: "account_row list \<Rightarrow> held" where
  "own_entries own =
     (case own of
        [m] \<Rightarrow> map (\<lambda>c. \<lparr>en_scope = scope_of_mailbox (ac_address m), en_capability = c\<rparr>)
                 (filter (\<lambda>c. c \<noteq> cap_mail_receive \<and> c \<noteq> cap_mail_import) owner_capabilities)
      | _ \<Rightarrow> [])"

definition account_rows :: "grants_db \<Rightarrow> time \<Rightarrow> nat \<Rightarrow> held_row list" where
  "account_rows d now i =
     sort_key hr_scope (sort_key hr_capability
       (grant_rows d now (\<lambda>g _. gr_holder_kind g = holder_account \<and> gr_holder_id g = i)))"

definition owned_scopes :: "held_row list \<Rightarrow> (string \<times> string list) list" where
  "owned_scopes rows =
     (let mine = filter (\<lambda>r. hr_role r = role_owner \<and> has_prefix (hr_scope r) mailbox_prefix) rows
      in map (\<lambda>s. (s, map hr_capability (filter (\<lambda>r. hr_scope r = s) mine))) (firsts [] (map hr_scope mine)))"

text \<open>What the account holds by itself, before its owner bounds it.\<close>

definition unbounded :: "grants_db \<Rightarrow> time \<Rightarrow> nat \<Rightarrow> held \<times> time option" where
  "unbounded d now i =
     (let rows = account_rows d now i;
          below = map (\<lambda>(scope, capabilities).
            owned_below d now (trim_prefix scope mailbox_prefix) capabilities 0 []) (owned_scopes rows)
      in (own_entries (own_account d i)
            @ map (\<lambda>r. \<lparr>en_scope = hr_scope r, en_capability = hr_capability r\<rparr>) rows @ concat (map fst below),
          foldl earlier (rows_expire rows) (map snd below)))"

function load_bounded :: "grants_db \<Rightarrow> time \<Rightarrow> nat \<Rightarrow> nat list \<Rightarrow> held \<times> time option" where
  "load_bounded d now i visited =
     (if i \<in> set visited \<or> max_owner_depth \<le> length visited then ([], None)
      else
        (let (held, expires) = unbounded d now i in
         case own_account d i of
           [m] \<Rightarrow>
             (case ac_owner m of
                None \<Rightarrow> (held, expires)
              | Some owner \<Rightarrow>
                  if own_account d owner = [] then ([], None)
                  else
                    (let (ceiling, ceiling_expires) = load_bounded d now owner (i # visited)
                     in (within held ceiling, earlier expires ceiling_expires)))
         | _ \<Rightarrow> (held, expires)))"
  by pat_completeness auto
termination by (relation "measure (\<lambda>(_, _, _, visited). max_owner_depth - length visited)") auto

declare load_bounded.simps [simp del]

definition actor_held :: "grants_db \<Rightarrow> time \<Rightarrow> nat \<Rightarrow> held \<times> time option" where
  "actor_held d now i = load_bounded d now i []"

section \<open>The ceiling of the server and sessions\<close>

definition stored_server_ceiling :: "grants_db \<Rightarrow> time \<Rightarrow> held" where
  "stored_server_ceiling d now =
     [\<lparr>en_scope = gr_scope g, en_capability = c\<rparr>.
        g \<leftarrow> gd_grants d,
        gr_holder_kind g = holder_server \<and> gr_holder_id g = server_holder_id \<and> gr_scope g = scope_all
          \<and> gr_mode g = grant_active \<and> unexpired now g,
        c \<leftarrow> role_capabilities d (gr_role_id g), c \<noteq> wildcard]"

definition mailbox_capability :: "string \<Rightarrow> bool" where
  "mailbox_capability c \<longleftrightarrow> c \<in> set owner_capabilities"

definition session_needed :: "held \<Rightarrow> grant_entry \<Rightarrow> string" where
  "session_needed h e =
     (let c = en_capability e in
      if c = cap_mailbox_session \<or> c = cap_admin_session \<or> c = cap_mail_receive then []
      else if c = cap_mail_import then
        (if \<not> allows h cap_admin_session (en_scope e) then cap_mailbox_session else cap_admin_session)
      else if mailbox_capability c then cap_mailbox_session
      else cap_admin_session)"

definition within_sessions :: "held \<Rightarrow> held" where
  "within_sessions h = filter (\<lambda>e. session_needed h e = [] \<or> allows h (session_needed h e) (en_scope e)) h"

definition within_server :: "held option \<Rightarrow> grants_db \<Rightarrow> time \<Rightarrow> held \<Rightarrow> held" where
  "within_server override d now h =
     (if allows h wildcard scope_all then h
      else case override of
        Some ceiling \<Rightarrow> within_sessions (within h ceiling)
      | None \<Rightarrow> within_sessions (within h (stored_server_ceiling d now)))"

definition load_held :: "held option \<Rightarrow> string option \<Rightarrow> grants_db \<Rightarrow> time \<Rightarrow> nat \<Rightarrow> string + held" where
  "load_held override fault d now i =
     (case fault of Some e \<Rightarrow> Inl e | None \<Rightarrow> Inr (within_server override d now (fst (actor_held d now i))))"

definition may_hold_mailbox_session :: "held \<Rightarrow> string \<Rightarrow> bool" where
  "may_hold_mailbox_session h address \<longleftrightarrow> allows h cap_mailbox_session (scope_of_mailbox address)"

definition may_hold_admin_session :: "held \<Rightarrow> bool" where
  "may_hold_admin_session h \<longleftrightarrow> allows_somewhere h cap_admin_session"

definition can_receive :: "held option \<Rightarrow> string option \<Rightarrow> grants_db \<Rightarrow> time \<Rightarrow> account_row \<Rightarrow> string + bool" where
  "can_receive override fault d now m =
     (if \<not> ac_active m then Inr False
      else case load_held override fault d now (ac_id m) of
        Inl e \<Rightarrow> Inl e
      | Inr h \<Rightarrow> Inr (allows h cap_mail_receive (scope_of_mailbox (ac_address m))))"

text \<open>The ceiling an operator configures outside the database: the parsed list, or an error that stops boot.\<close>

datatype ceiling_err = EmptyCapability | WildcardCapability | UnknownCapability string

datatype override_err = VocabularyUnread string | InvalidOverride ceiling_err

definition check_server_capability :: "string \<Rightarrow> string list \<Rightarrow> ceiling_err option" where
  "check_server_capability name vocabulary =
     (if name = [] then Some EmptyCapability
      else if name = wildcard then Some WildcardCapability
      else if name \<notin> set vocabulary then Some (UnknownCapability name)
      else None)"

fun parse_names :: "string list \<Rightarrow> string list \<Rightarrow> ceiling_err + held" where
  "parse_names known [] = Inr []"
| "parse_names known (name # names) =
     (case check_server_capability (trim_space name) known of
        Some e \<Rightarrow> Inl e
      | None \<Rightarrow> (case parse_names known names of
                   Inl e \<Rightarrow> Inl e
                 | Inr es \<Rightarrow> Inr (\<lparr>en_scope = scope_all, en_capability = trim_space name\<rparr> # es)))"

definition parse_server_capabilities :: "string \<Rightarrow> string list \<Rightarrow> ceiling_err + held" where
  "parse_server_capabilities raw known =
     (if trim_space raw = [] then Inr [] else parse_names known (split_byte (CHR '','') raw))"

definition vocabulary :: "grants_db \<Rightarrow> string list" where
  "vocabulary d = filter (\<lambda>c. c \<noteq> wildcard) (map cp_name (gd_capabilities d))"

definition configure_server_override :: "string option \<Rightarrow> grants_db \<Rightarrow> string option \<Rightarrow> override_err + held option" where
  "configure_server_override fault d raw =
     (case raw of None \<Rightarrow> Inr None | Some r \<Rightarrow>
      case fault of Some e \<Rightarrow> Inl (VocabularyUnread e) | None \<Rightarrow>
      case parse_server_capabilities r (vocabulary d) of
        Inl e \<Rightarrow> Inl (InvalidOverride e)
      | Inr h \<Rightarrow> Inr (Some h))"

section \<open>An owned account is bounded by its owners\<close>

definition owned_by :: "grants_db \<Rightarrow> nat \<Rightarrow> nat \<Rightarrow> bool" where
  "owned_by d i owner \<longleftrightarrow> (\<exists>m. own_account d i = [m] \<and> ac_owner m = Some owner)"

text \<open>A longer path of accounts already met can only cut the chain of owners sooner, and leave nothing.\<close>

lemma load_bounded_visited:
  assumes "allows (fst (load_bounded d now i ws)) c t" "set vs \<subseteq> set ws" "length vs \<le> length ws"
  shows "allows (fst (load_bounded d now i vs)) c t"
  using assms
proof (induction d now i ws arbitrary: vs rule: load_bounded.induct)
  case (1 d now i ws)
  have open_: "i \<notin> set ws" "length ws < max_owner_depth"
    using "1.prems"(1) by (auto simp: load_bounded.simps [of d now i ws] not_le [symmetric])
  then have open_vs: "\<not> (i \<in> set vs \<or> max_owner_depth \<le> length vs)" using "1.prems"(2,3) by auto
  show ?case
  proof (cases "\<exists>m owner. own_account d i = [m] \<and> ac_owner m = Some owner")
    case False
    then have "load_bounded d now i vs = unbounded d now i" "load_bounded d now i ws = unbounded d now i"
      using open_ open_vs by (auto simp: load_bounded.simps [of d now i] split: list.splits option.splits prod.splits)
    then show ?thesis using "1.prems"(1) by simp
  next
    case True
    then obtain m owner where m: "own_account d i = [m]" "ac_owner m = Some owner" by blast
    have owner: "own_account d owner \<noteq> []"
      using "1.prems"(1) open_ m by (auto simp: load_bounded.simps [of d now i ws] split: prod.splits)
    have unfold_: "fst (load_bounded d now i xs) =
        within (fst (unbounded d now i)) (fst (load_bounded d now owner (i # xs)))"
      if "\<not> (i \<in> set xs \<or> max_owner_depth \<le> length xs)" for xs
      using that m owner by (simp add: load_bounded.simps [of d now i] split_beta Let_def)
    have "allows (fst (load_bounded d now owner (i # ws))) c t \<Longrightarrow>
        allows (fst (load_bounded d now owner (i # vs))) c t"
      using "1.IH" [OF _ refl prod.collapse m(1) refl m(2) owner, of "i # vs"] open_ "1.prems"(2,3) by auto
    then show ?thesis using "1.prems"(1) open_ open_vs by (simp add: unfold_ allows_within)
  qed
qed

lemma owned_held:
  assumes "owned_by d i owner" "allows (fst (actor_held d now i)) c t"
  shows "allows (fst (actor_held d now owner)) c t \<and> own_account d owner \<noteq> []"
proof -
  obtain m where m: "own_account d i = [m]" "ac_owner m = Some owner" using assms(1) by (auto simp: owned_by_def)
  have "own_account d owner \<noteq> []" "allows (fst (load_bounded d now owner [i])) c t"
    using assms(2) m
    by (auto simp: actor_held_def load_bounded.simps [of d now i] max_owner_depth_def split_beta Let_def allows_within
        split: if_splits)
  then show ?thesis using load_bounded_visited [of d now owner "[i]" c t "[]"] by (simp add: actor_held_def)
qed

lemma owned_chain_held:
  assumes "(owned_by d)\<^sup>+\<^sup>+ i owner" "allows (fst (actor_held d now i)) c t"
  shows "allows (fst (actor_held d now owner)) c t \<and> own_account d owner \<noteq> []"
  using assms by (induction rule: tranclp_induct) (auto dest: owned_held)

section \<open>The ceiling and the sessions bound everyone else\<close>

definition plain :: "held \<Rightarrow> bool" where
  "plain h \<longleftrightarrow> (\<forall>e\<in>set h. en_capability e \<noteq> wildcard)"

lemma plain_within: "plain g \<Longrightarrow> plain (within h g)"
  by (auto simp: plain_def set_within shared_entry_def shared_capability_def split: option.splits if_splits)

lemma plain_stored: "plain (stored_server_ceiling d now)"
  by (auto simp: plain_def stored_server_ceiling_def)

lemma plain_parsed: "parse_names known names = Inr h \<Longrightarrow> plain h"
  by (induction known names arbitrary: h rule: parse_names.induct)
    (auto simp: plain_def check_server_capability_def split: option.splits sum.splits if_splits)

lemma plain_override: "configure_server_override fault d raw = Inr (Some h) \<Longrightarrow> plain h"
  by (auto simp: configure_server_override_def parse_server_capabilities_def plain_parsed plain_def
      split: option.splits sum.splits if_splits dest: plain_parsed)

definition server_ceiling :: "held option \<Rightarrow> grants_db \<Rightarrow> time \<Rightarrow> held" where
  "server_ceiling override d now = (case override of Some h \<Rightarrow> h | None \<Rightarrow> stored_server_ceiling d now)"

lemma within_server_alt:
  "within_server override d now h =
     (if allows h wildcard scope_all then h else within_sessions (within h (server_ceiling override d now)))"
  by (simp add: within_server_def server_ceiling_def split: option.split)

lemma within_sessions_allows: "allows (within_sessions h) c t \<Longrightarrow> allows h c t"
  by (auto simp: allows_iff within_sessions_def)

lemma sessions_kept:
  assumes "plain h" "s = cap_mailbox_session \<or> s = cap_admin_session" "allows h s t"
  shows "allows (within_sessions h) s t"
proof -
  obtain e where e: "e \<in> set h" "entry_allows e s t" using assms(3) by (auto simp: allows_iff)
  then have "en_capability e = s" using assms(1) by (auto simp: plain_def entry_allows_def)
  then have "session_needed h e = []" using assms(2) by (auto simp: session_needed_def Let_def)
  then have "e \<in> set (within_sessions h)" using e(1) by (simp add: within_sessions_def)
  then show ?thesis using e(2) allows_iff by blast
qed

definition session_for :: "string \<Rightarrow> string set" where
  "session_for c =
     (if c = cap_mail_import then {cap_mailbox_session, cap_admin_session}
      else if mailbox_capability c then {cap_mailbox_session} else {cap_admin_session})"

lemma within_sessions_session:
  assumes h: "plain h" and a: "allows (within_sessions h) c t"
    and c: "c \<notin> {cap_mailbox_session, cap_admin_session, cap_mail_receive}"
  shows "\<exists>s\<in>session_for c. allows (within_sessions h) s t"
proof -
  obtain e where e: "e \<in> set h" "en_capability e = c" "covers (en_scope e) t"
    "session_needed h e = [] \<or> allows h (session_needed h e) (en_scope e)"
    using a h by (auto simp: allows_iff entry_allows_def within_sessions_def plain_def)
  have s: "session_needed h e \<in> session_for c" "session_needed h e \<noteq> []"
    "session_needed h e = cap_mailbox_session \<or> session_needed h e = cap_admin_session"
    using c e(2) by (auto simp: session_needed_def session_for_def Let_def cap_mailbox_session_def cap_admin_session_def)
  then have "allows h (session_needed h e) t" using e(3,4) allows_covered by blast
  then show ?thesis using sessions_kept [OF h s(3)] s(1) by blast
qed

lemma plain_allows_wildcard: "plain h \<Longrightarrow> \<not> allows h wildcard t"
  by (auto simp: plain_def allows_iff entry_allows_def)

section \<open>What a database holds stays held until the expiry it reports\<close>

definition before :: "time \<Rightarrow> time option \<Rightarrow> bool" where
  "before t e \<longleftrightarrow> (case e of None \<Rightarrow> True | Some at \<Rightarrow> t < at)"

lemma before_earlier [simp]: "before t (earlier a b) \<longleftrightarrow> before t a \<and> before t b"
  by (cases a; cases b) (auto simp: before_def)

lemma before_None [simp]: "before t None"
  by (simp add: before_def)

lemma before_foldl:
  "before t (foldl (\<lambda>e x. earlier (earlier e (g x)) (k x)) e xs) \<longleftrightarrow>
     before t e \<and> (\<forall>x\<in>set xs. before t (g x) \<and> before t (k x))"
  by (induction xs arbitrary: e) auto

lemma before_foldl_earlier: "before t (foldl earlier e es) \<longleftrightarrow> before t e \<and> (\<forall>x\<in>set es. before t x)"
  by (induction es arbitrary: e) auto

lemma before_rows:
  "before t (rows_expire rows) \<longleftrightarrow>
     (\<forall>r\<in>set rows. before t (hr_expires_at r) \<and> before t (hr_activation_expires_at r))"
  by (simp add: rows_expire_def before_foldl)

lemma foldl_outputs:
  "foldl (\<lambda>(out, e) x. (out @ f x, earlier (earlier e (g x)) (k x))) (out, e) xs =
     (out @ concat (map f xs), foldl (\<lambda>e x. earlier (earlier e (g x)) (k x)) e xs)"
  by (induction xs arbitrary: out e) auto

lemma unexpired_later: "now \<le> t \<Longrightarrow> unexpired t g \<Longrightarrow> unexpired now g"
  by (auto simp: unexpired_def split: option.splits)

lemma unexpired_before: "unexpired t g \<longleftrightarrow> before t (gr_expires_at g)"
  by (simp add: unexpired_def before_def)

lemma live_later: "now \<le> t \<Longrightarrow> live t a \<Longrightarrow> live now a"
  by (auto simp: live_def)

lemma live_join_not_Nil: "live_join d now g \<noteq> []"
  by (simp add: live_join_def Let_def)

lemma live_join_stable:
  assumes "now \<le> t" "\<And>a. a \<in> set (live_join d now g) \<Longrightarrow> before t (map_option av_expires_at a)"
  shows "live_join d t g = live_join d now g"
proof -
  have "live t a \<longleftrightarrow> live now a" if "a \<in> set (gd_activations d)" "av_grant_id a = gr_id g" for a
  proof
    assume "live now a"
    then have "Some a \<in> set (live_join d now g)"
      using that by (auto simp: live_join_def Let_def filter_empty_conv)
    from assms(2) [OF this] \<open>live now a\<close> show "live t a" by (simp add: live_def before_def)
  qed (rule live_later [OF assms(1)])
  then have "filter (\<lambda>a. av_grant_id a = gr_id g \<and> live t a) (gd_activations d) =
      filter (\<lambda>a. av_grant_id a = gr_id g \<and> live now a) (gd_activations d)"
    by (intro filter_cong) auto
  then show ?thesis by (simp only: live_join_def)
qed

text \<open>The rows one grant contributes.\<close>

definition one_grant_rows :: "grants_db \<Rightarrow> time \<Rightarrow> (grant_row \<Rightarrow> role_row \<Rightarrow> bool) \<Rightarrow> grant_row \<Rightarrow> held_row list" where
  "one_grant_rows d now wanted g =
     [\<lparr>hr_scope = gr_scope g, hr_capability = c, hr_role = ro_name r, hr_expires_at = gr_expires_at g,
       hr_activation_expires_at = map_option av_expires_at a\<rparr>.
        r \<leftarrow> filter (\<lambda>r. ro_id r = gr_role_id g) (gd_roles d), wanted g r,
        c \<leftarrow> role_capabilities d (gr_role_id g), a \<leftarrow> live_join d now g, in_force now g a]"

lemma grant_rows_concat: "grant_rows d now wanted = concat (map (one_grant_rows d now wanted) (gd_grants d))"
  by (simp add: grant_rows_def one_grant_rows_def [abs_def])

lemma in_force_some: "in_force now g a \<Longrightarrow> a \<in> set (live_join d now g) \<Longrightarrow> b \<in> set (live_join d now g) \<Longrightarrow> in_force now g b"
  by (auto simp: in_force_def live_join_def Let_def split: if_splits)

lemma set_one_grant_rows:
  "set (one_grant_rows d now wanted g) =
     {row. \<exists>r c a. r \<in> set (gd_roles d) \<and> ro_id r = gr_role_id g \<and> wanted g r \<and>
       c \<in> set (role_capabilities d (gr_role_id g)) \<and> a \<in> set (live_join d now g) \<and> in_force now g a \<and>
       row = \<lparr>hr_scope = gr_scope g, hr_capability = c, hr_role = ro_name r, hr_expires_at = gr_expires_at g,
         hr_activation_expires_at = map_option av_expires_at a\<rparr>}"
  by (auto simp: one_grant_rows_def split: if_splits)

lemma one_grant_rows_Nil:
  "one_grant_rows d now wanted g \<noteq> [] \<longleftrightarrow>
     (\<exists>r c a. r \<in> set (gd_roles d) \<and> ro_id r = gr_role_id g \<and> wanted g r \<and>
       c \<in> set (role_capabilities d (gr_role_id g)) \<and> a \<in> set (live_join d now g) \<and> in_force now g a)"
  using set_one_grant_rows [of d now wanted g] unfolding ex_in_conv [symmetric] set_empty [symmetric] by blast

lemma in_force_row:
  assumes "one_grant_rows d now wanted g \<noteq> []" "a \<in> set (live_join d now g)"
  shows "\<exists>row\<in>set (one_grant_rows d now wanted g). hr_expires_at row = gr_expires_at g
    \<and> hr_activation_expires_at row = map_option av_expires_at a"
proof -
  obtain r c b where r: "r \<in> set (gd_roles d)" "ro_id r = gr_role_id g" "wanted g r"
    "c \<in> set (role_capabilities d (gr_role_id g))" "b \<in> set (live_join d now g)" "in_force now g b"
    using assms(1) unfolding one_grant_rows_Nil by blast
  have "in_force now g a" using in_force_some [OF r(6,5) assms(2)] .
  then have "\<lparr>hr_scope = gr_scope g, hr_capability = c, hr_role = ro_name r, hr_expires_at = gr_expires_at g,
      hr_activation_expires_at = map_option av_expires_at a\<rparr> \<in> set (one_grant_rows d now wanted g)"
    unfolding set_one_grant_rows using r(1-4) assms(2) by blast
  then show ?thesis by (rule rev_bexI) simp
qed

lemma in_force_later:
  assumes "now \<le> t" "b \<in> set (live_join d t g)" "in_force t g b"
  shows "\<exists>a\<in>set (live_join d now g). in_force now g a"
proof (cases "gr_mode g = grant_active")
  case True
  obtain a where "a \<in> set (live_join d now g)" using live_join_not_Nil [of d now g] by (cases "live_join d now g") auto
  then show ?thesis using True assms(3) unexpired_later [OF assms(1)] by (auto simp: in_force_def)
next
  case False
  then obtain x where b: "b = Some x" "gr_mode g = grant_eligible" "unexpired t g"
    using assms(3) by (auto simp: in_force_def)
  then have "x \<in> set (gd_activations d)" "av_grant_id x = gr_id g" "live t x"
    using assms(2) by (auto simp: live_join_def Let_def split: if_splits)
  then have "Some x \<in> set (live_join d now g)"
    using live_later [OF assms(1)] by (auto simp: live_join_def Let_def filter_empty_conv)
  then show ?thesis using b unexpired_later [OF assms(1)] by (auto simp: in_force_def)
qed

lemma one_grant_rows_stable:
  assumes "now \<le> t" "\<forall>row\<in>set (one_grant_rows d now wanted g).
      before t (hr_expires_at row) \<and> before t (hr_activation_expires_at row)"
  shows "one_grant_rows d t wanted g = one_grant_rows d now wanted g"
proof (cases "one_grant_rows d now wanted g = []")
  case True
  have "one_grant_rows d t wanted g = []"
  proof (rule ccontr)
    assume "one_grant_rows d t wanted g \<noteq> []"
    then obtain r c b where r: "r \<in> set (gd_roles d)" "ro_id r = gr_role_id g" "wanted g r"
      "c \<in> set (role_capabilities d (gr_role_id g))" "b \<in> set (live_join d t g)" "in_force t g b"
      unfolding one_grant_rows_Nil by blast
    then obtain a where "a \<in> set (live_join d now g)" "in_force now g a" using in_force_later [OF assms(1)] by blast
    then have "one_grant_rows d now wanted g \<noteq> []" unfolding one_grant_rows_Nil using r(1-4) by blast
    then show False using True by simp
  qed
  then show ?thesis using True by simp
next
  case False
  have "before t (map_option av_expires_at a)" if "a \<in> set (live_join d now g)" for a
    using in_force_row [OF False that] assms(2) by fastforce
  then have join: "live_join d t g = live_join d now g" by (rule live_join_stable [OF assms(1)])
  obtain a where a: "a \<in> set (live_join d now g)" using live_join_not_Nil [of d now g] by (cases "live_join d now g") auto
  then have "unexpired t g" using in_force_row [OF False a] assms(2) by (auto simp: unexpired_before)
  then have force: "in_force t g a \<longleftrightarrow> in_force now g a" for a using unexpired_later [OF assms(1)] by (auto simp: in_force_def)
  show ?thesis unfolding one_grant_rows_def join force ..
qed

lemma grant_rows_stable:
  assumes "now \<le> t" "before t (rows_expire (grant_rows d now wanted))"
  shows "grant_rows d t wanted = grant_rows d now wanted"
proof -
  have "one_grant_rows d t wanted g = one_grant_rows d now wanted g" if "g \<in> set (gd_grants d)" for g
    using assms that by (intro one_grant_rows_stable) (auto simp: before_rows grant_rows_concat)
  then show ?thesis unfolding grant_rows_concat by (intro arg_cong [where f = concat] map_cong) auto
qed

lemma account_rows_stable:
  "now \<le> t \<Longrightarrow> before t (rows_expire (account_rows d now i)) \<Longrightarrow> account_rows d t i = account_rows d now i"
  using grant_rows_stable [of now t d "\<lambda>g _. gr_holder_kind g = holder_account \<and> gr_holder_id g = i"]
  by (simp add: account_rows_def before_rows)

lemma owner_rows_stable:
  "now \<le> t \<Longrightarrow> before t (rows_expire (owner_rows d now i s)) \<Longrightarrow> owner_rows d t i s = owner_rows d now i s"
  unfolding owner_rows_def by (rule grant_rows_stable)

text \<open>One step of the descent, with its results collected instead of accumulated.\<close>

definition kept_capabilities :: "grants_db \<Rightarrow> time \<Rightarrow> nat \<Rightarrow> string list \<Rightarrow> account_row \<Rightarrow> string list" where
  "kept_capabilities d now owner capabilities child =
     filter (\<lambda>c. c \<in> set (map hr_capability (owner_rows d now owner (scope_of_mailbox (ac_address child))))) capabilities"

lemma owned_below_step:
  assumes "\<not> (address \<in> set visited \<or> max_owner_depth \<le> depth \<or> capabilities = [])" "active_at d address = [owner]"
  shows "owned_below d now address capabilities depth visited =
    (concat (map (\<lambda>child. map (\<lambda>c. \<lparr>en_scope = scope_of_mailbox (ac_address child), en_capability = c\<rparr>)
         (kept_capabilities d now (ac_id owner) capabilities child)
         @ fst (owned_below d now (ac_address child) (kept_capabilities d now (ac_id owner) capabilities child)
             (depth + 1) (address # visited))) (active_owned d (ac_id owner))),
     foldl (\<lambda>e child. earlier (earlier e (rows_expire (owner_rows d now (ac_id owner) (scope_of_mailbox (ac_address child)))))
         (snd (owned_below d now (ac_address child) (kept_capabilities d now (ac_id owner) capabilities child)
             (depth + 1) (address # visited)))) None (active_owned d (ac_id owner)))"
  using assms unfolding owned_below.simps [of d now address] kept_capabilities_def
  by (simp add: split_beta Let_def foldl_outputs [where out = "[]", simplified] del: append_assoc)

lemma owned_below_stable:
  assumes "now \<le> t" "before t (snd (owned_below d now address capabilities depth visited))"
  shows "owned_below d t address capabilities depth visited = owned_below d now address capabilities depth visited"
  using assms
proof (induction d now address capabilities depth visited rule: owned_below.induct)
  case (1 d now address capabilities depth visited)
  show ?case
  proof (cases "(address \<in> set visited \<or> max_owner_depth \<le> depth \<or> capabilities = []) \<or> (\<nexists>owner. active_at d address = [owner])")
    case True
    then show ?thesis by (auto simp: owned_below.simps [of d _ address] split: list.splits)
  next
    case False
    then obtain owner where owner: "active_at d address = [owner]"
      and go: "\<not> (address \<in> set visited \<or> max_owner_depth \<le> depth \<or> capabilities = [])" by blast
    let ?rows = "\<lambda>now child. owner_rows d now (ac_id owner) (scope_of_mailbox (ac_address child))"
    let ?kept = "\<lambda>now. kept_capabilities d now (ac_id owner) capabilities"
    let ?below = "\<lambda>now child. owned_below d now (ac_address child) (?kept now child) (depth + 1) (address # visited)"
    have b: "before t (rows_expire (?rows now child))" "before t (snd (?below now child))"
      if "child \<in> set (active_owned d (ac_id owner))" for child
      using "1.prems"(2) that unfolding owned_below_step [OF go owner] by (auto simp: before_foldl)
    have rows: "?rows t child = ?rows now child" if "child \<in> set (active_owned d (ac_id owner))" for child
      using owner_rows_stable [OF "1.prems"(1)] b(1) [OF that] .
    then have kept: "?kept t child = ?kept now child" if "child \<in> set (active_owned d (ac_id owner))" for child
      using that by (simp add: kept_capabilities_def)
    have below: "?below t child = ?below now child" if child: "child \<in> set (active_owned d (ac_id owner))" for child
      using "1.IH" [OF go owner refl child refl refl refl refl "1.prems"(1)] b(2) [OF child] kept [OF child]
      by (simp add: kept_capabilities_def)
    show ?thesis unfolding owned_below_step [OF go owner] using rows kept below
      by (auto intro!: arg_cong [where f = concat] map_cong foldl_cong)
  qed
qed

lemma unbounded_stable:
  assumes "now \<le> t" "before t (snd (unbounded d now i))"
  shows "unbounded d t i = unbounded d now i"
proof -
  have rows: "account_rows d t i = account_rows d now i"
    using assms by (intro account_rows_stable) (auto simp: unbounded_def Let_def before_foldl_earlier)
  have "owned_below d t (trim_prefix s mailbox_prefix) cs 0 [] = owned_below d now (trim_prefix s mailbox_prefix) cs 0 []"
    if "(s, cs) \<in> set (owned_scopes (account_rows d now i))" for s cs
    using assms that by (intro owned_below_stable) (auto simp: unbounded_def Let_def before_foldl_earlier)
  then have "map (\<lambda>(s, cs). owned_below d t (trim_prefix s mailbox_prefix) cs 0 []) (owned_scopes (account_rows d now i)) =
      map (\<lambda>(s, cs). owned_below d now (trim_prefix s mailbox_prefix) cs 0 []) (owned_scopes (account_rows d now i))"
    by (intro map_cong) auto
  then show ?thesis unfolding unbounded_def Let_def rows by (simp only:)
qed

lemma load_bounded_stable:
  assumes "now \<le> t" "before t (snd (load_bounded d now i visited))"
  shows "load_bounded d t i visited = load_bounded d now i visited"
  using assms
proof (induction d now i visited rule: load_bounded.induct)
  case (1 d now i visited)
  show ?case
  proof (cases "(i \<in> set visited \<or> max_owner_depth \<le> length visited)
      \<or> (\<exists>m owner. own_account d i = [m] \<and> ac_owner m = Some owner \<and> own_account d owner = [])")
    case True
    then show ?thesis by (auto simp: load_bounded.simps [of d _ i] split_beta Let_def)
  next
    case False
    then have go: "\<not> (i \<in> set visited \<or> max_owner_depth \<le> length visited)" by blast
    have mine: "unbounded d t i = unbounded d now i" if "before t (snd (unbounded d now i))"
      using unbounded_stable [OF "1.prems"(1) that] .
    show ?thesis
    proof (cases "\<exists>m owner. own_account d i = [m] \<and> ac_owner m = Some owner")
      case True
      then obtain m owner where m: "own_account d i = [m]" "ac_owner m = Some owner" by blast
      have owner: "own_account d owner \<noteq> []" using False m by auto
      have eq: "load_bounded d x i visited =
          (within (fst (unbounded d x i)) (fst (load_bounded d x owner (i # visited))),
           earlier (snd (unbounded d x i)) (snd (load_bounded d x owner (i # visited))))" for x
        using go m owner by (simp add: load_bounded.simps [of d x i] split_beta Let_def)
      have b: "before t (snd (unbounded d now i))" "before t (snd (load_bounded d now owner (i # visited)))"
        using "1.prems"(2) unfolding eq by simp_all
      have "load_bounded d t owner (i # visited) = load_bounded d now owner (i # visited)"
        using "1.IH" [OF go refl prod.collapse m(1) refl m(2) owner "1.prems"(1) b(2)] .
      then show ?thesis unfolding eq mine [OF b(1)] by simp
    next
      case none: False
      then have "load_bounded d x i visited = unbounded d x i" for x
        using go by (auto simp: load_bounded.simps [of d x i] split: list.splits option.splits prod.splits)
      then show ?thesis using mine "1.prems"(2) by simp
    qed
  qed
qed

lemma actor_held_stable:
  "now \<le> t \<Longrightarrow> before t (snd (actor_held d now i)) \<Longrightarrow> actor_held d t i = actor_held d now i"
  unfolding actor_held_def by (rule load_bounded_stable)

section \<open>An installation with an administrator and its agent\<close>

definition account_grant :: "nat \<Rightarrow> nat \<Rightarrow> nat \<Rightarrow> string \<Rightarrow> grant_row" where
  "account_grant i holder role scope =
     \<lparr>gr_id = i, gr_holder_kind = holder_account, gr_holder_id = holder, gr_role_id = role, gr_scope = scope,
      gr_mode = grant_active, gr_granted_by_kind = ''system'', gr_granted_by_id = None, gr_granted_at = 0,
      gr_expires_at = None\<rparr>"

definition sample_grants :: grants_db where
  "sample_grants =
     \<lparr>gd_roles = [\<lparr>ro_id = 1, ro_name = role_owner\<rparr>, \<lparr>ro_id = 2, ro_name = ''admin''\<rparr>, \<lparr>ro_id = 3, ro_name = role_server\<rparr>,
        \<lparr>ro_id = 4, ro_name = ''superadmin''\<rparr>],
      gd_capabilities = [\<lparr>cp_id = 1, cp_name = ''mail:read''\<rparr>, \<lparr>cp_id = 2, cp_name = ''mail:send''\<rparr>,
        \<lparr>cp_id = 3, cp_name = cap_mailbox_session\<rparr>, \<lparr>cp_id = 4, cp_name = cap_admin_session\<rparr>,
        \<lparr>cp_id = 5, cp_name = wildcard\<rparr>, \<lparr>cp_id = 6, cp_name = ''domains:read''\<rparr>],
      gd_role_caps = [(1, 1), (1, 2), (1, 3), (2, 4), (2, 6), (3, 1), (3, 3), (3, 4), (3, 6), (4, 5)],
      gd_grants = [account_grant 1 1 4 scope_all, account_grant 2 2 1 ''mailbox:bot@a.example'',
        account_grant 3 2 2 ''domain:a.example'',
        (account_grant 4 1 3 scope_all)\<lparr>gr_holder_kind := holder_server\<rparr>],
      gd_activations = [],
      gd_accounts = [
        \<lparr>ac_id = 1, ac_address = ''root@a.example'', ac_owner = None, ac_domain = 1, ac_active = True\<rparr>,
        \<lparr>ac_id = 2, ac_address = ''ann@a.example'', ac_owner = None, ac_domain = 1, ac_active = True\<rparr>,
        \<lparr>ac_id = 3, ac_address = ''bot@a.example'', ac_owner = Some 2, ac_domain = 1, ac_active = True\<rparr>],
      gd_credentials = [], gd_audit = [], gd_role_seq = 4, gd_grant_seq = 4, gd_activation_seq = 0\<rparr>"

lemma sample_agent_holds:
  "load_held None None sample_grants 0 3 =
     Inr [\<lparr>en_scope = ''mailbox:bot@a.example'', en_capability = ''mail:read''\<rparr>,
          \<lparr>en_scope = ''mailbox:bot@a.example'', en_capability = cap_mailbox_session\<rparr>]"
  by code_simp

text \<open>
  The cut to sessions is made entry by entry and not target by target: a capability held on a domain is dropped
  when its session is held on one mailbox of it only, even for that mailbox. So an owner may be refused on a
  mailbox where an account it owns, which holds the capability there alone, is not.
\<close>

lemma session_cut_by_entry:
  "let owner = [\<lparr>en_scope = ''domain:a.example'', en_capability = ''mail:read''\<rparr>,
                \<lparr>en_scope = ''mailbox:bot@a.example'', en_capability = cap_mailbox_session\<rparr>];
       agent = within (own_entries (own_account sample_grants 3)) owner
   in allows owner ''mail:read'' ''mailbox:bot@a.example''
      \<and> \<not> allows (within_sessions owner) ''mail:read'' ''mailbox:bot@a.example''
      \<and> allows (within_sessions agent) ''mail:read'' ''mailbox:bot@a.example''"
  by code_simp

section \<open>Properties\<close>

text \<open>
  C20: An owned account is never allowed what any of its owners, up the whole chain, does not hold itself at that
  moment, and is allowed nothing once one of them is inactive: whatever \<^verbatim>\<open>grants.Load\<close> answers for the account,
  with or without an operator's ceiling, every account above it is active and its own grants, read at the
  same instant and bounded by their owners in turn, allow the same capability on the same target.\<close>

theorem owned_within_owners:
  assumes "load_held override fault d now i = Inr h" "allows h c t" "(owned_by d)\<^sup>+\<^sup>+ i owner"
  shows "allows (fst (actor_held d now owner)) c t \<and> own_account d owner \<noteq> []"
proof -
  have "allows (fst (actor_held d now i)) c t"
    using assms(1,2)
    by (auto simp: load_held_def within_server_alt allows_within dest!: within_sessions_allows split: option.splits if_splits)
  then show ?thesis by (rule owned_chain_held [OF assms(3)])
qed

theorem owned_within_owners_witness:
  "allows (fst (actor_held sample_grants 0 2)) ''mail:read'' ''mailbox:bot@a.example'' \<and> own_account sample_grants 2 \<noteq> []"
proof (rule owned_within_owners [OF sample_agent_holds])
  show "allows [\<lparr>en_scope = ''mailbox:bot@a.example'', en_capability = ''mail:read''\<rparr>,
      \<lparr>en_scope = ''mailbox:bot@a.example'', en_capability = cap_mailbox_session\<rparr>] ''mail:read'' ''mailbox:bot@a.example''"
    by code_simp
  have "owned_by sample_grants 3 2" by (simp add: owned_by_def own_account_def sample_grants_def)
  then show "(owned_by sample_grants)\<^sup>+\<^sup>+ 3 2" by blast
qed

text \<open>
  Nobody but a superadmin goes past the server. If what \<^verbatim>\<open>grants.Load\<close> answers for an account does not hold every
  capability on the whole installation, each capability it allows is named in the ceiling in force, the
  stored one or the one the operator configured, and is reached through a session held on the same target:
  a mailbox capability through \<open>mailbox:session\<close>, importing through either, every other through
  \<open>admin:session\<close>; only the session capabilities themselves and receiving need none.\<close>

theorem nobody_exceeds_the_server:
  assumes "configure_server_override fault0 d0 raw = Inr override" "load_held override fault d now i = Inr h"
    "\<not> allows h wildcard scope_all" "allows h c t"
  shows "c \<in> en_capability ` set (server_ceiling override d now)
    \<and> (c = cap_mailbox_session \<or> c = cap_admin_session \<or> c = cap_mail_receive \<or> (\<exists>s\<in>session_for c. allows h s t))"
proof -
  let ?held = "fst (actor_held d now i)" and ?ceiling = "server_ceiling override d now"
  have h: "h = within_sessions (within ?held ?ceiling)"
    using assms(2,3) by (auto simp: load_held_def within_server_alt split: option.splits if_splits)
  have plain: "plain ?ceiling"
    using assms(1) plain_override by (auto simp: server_ceiling_def plain_stored split: option.splits)
  have "allows ?ceiling c t" using assms(4) unfolding h by (auto dest!: within_sessions_allows simp: allows_within)
  then have "c \<in> en_capability ` set ?ceiling" using plain by (auto simp: plain_def allows_iff entry_allows_def)
  moreover have "c = cap_mailbox_session \<or> c = cap_admin_session \<or> c = cap_mail_receive \<or> (\<exists>s\<in>session_for c. allows h s t)"
    using within_sessions_session [OF plain_within [OF plain]] assms(4) unfolding h by blast
  ultimately show ?thesis by blast
qed

theorem nobody_exceeds_the_server_witness:
  "\<exists>h. load_held (Some [\<lparr>en_scope = scope_all, en_capability = cap_admin_session\<rparr>,
            \<lparr>en_scope = scope_all, en_capability = ''domains:read''\<rparr>]) None sample_grants 0 2 = Inr h
     \<and> allows h ''domains:read'' ''mailbox:ann@a.example'' \<and> allows h cap_admin_session ''mailbox:ann@a.example''"
proof -
  let ?o = "Some [\<lparr>en_scope = scope_all, en_capability = cap_admin_session\<rparr>,
            \<lparr>en_scope = scope_all, en_capability = ''domains:read''\<rparr>]"
  let ?h = "[\<lparr>en_scope = ''domain:a.example'', en_capability = cap_admin_session\<rparr>,
            \<lparr>en_scope = ''domain:a.example'', en_capability = ''domains:read''\<rparr>]"
  have o: "configure_server_override None sample_grants (Some ''admin:session, domains:read'') = Inr ?o" by code_simp
  have l: "load_held ?o None sample_grants 0 2 = Inr ?h" by code_simp
  have n: "\<not> allows ?h wildcard scope_all" by code_simp
  have a: "allows ?h ''domains:read'' ''mailbox:ann@a.example''" by code_simp
  have "session_for ''domains:read'' = {cap_admin_session}" by code_simp
  then have "allows ?h cap_admin_session ''mailbox:ann@a.example''"
    using nobody_exceeds_the_server [OF o l n a] by (simp add: cap_mailbox_session_def cap_admin_session_def cap_mail_receive_def)
  then show ?thesis using l a by blast
qed

end
