(* ===== verification/Grants_Cache.thy ===== *)
theory Grants_Cache
  imports Grants_Load "HOL-Library.AList"
begin

text \<open>
  The cache of what accounts hold, \<open>Cache\<close> of \<^verbatim>\<open>internal/grants/held.go\<close>, with any number of readers at once. A reader that
  misses takes the generation under the lock, reads the database without it, and stores what it read under
  the lock unless the generation has moved on. A grant change of this process commits first and empties the
  cache afterwards, so between the two a change is \<^emph>\<open>pending\<close>; other replicas commit without telling this one.
  The generation is a natural number here; the code's 64-bit counter would need \<open>2 ^ 64\<close> changes to wrap.
\<close>

section \<open>The cache\<close>

definition cache_ttl :: duration where "cache_ttl = 5 * second"
definition max_cached :: nat where "max_cached = 4096"

record grants_cache =
  ca_gen :: nat
  ca_entries :: "(nat \<times> held \<times> time) list"

definition new_cache :: grants_cache where
  "new_cache = \<lparr>ca_gen = 0, ca_entries = []\<rparr>"

definition cache_lookup :: "grants_cache \<Rightarrow> time \<Rightarrow> nat \<Rightarrow> held option" where
  "cache_lookup c now i =
     (case map_of (ca_entries c) i of
        Some (h, until) \<Rightarrow> if now < until then Some h else None
      | None \<Rightarrow> None)"

definition cache_until :: "duration \<Rightarrow> time \<Rightarrow> time option \<Rightarrow> time" where
  "cache_until ttl now expires =
     (case expires of Some e \<Rightarrow> if e < now + ttl then e else now + ttl | None \<Rightarrow> now + ttl)"

definition cache_store :: "nat \<Rightarrow> nat \<Rightarrow> held \<Rightarrow> time \<Rightarrow> grants_cache \<Rightarrow> grants_cache" where
  "cache_store gen i h until c =
     (if ca_gen c = gen then
        (let es = (if max_cached \<le> length (ca_entries c) then [] else ca_entries c)
         in c\<lparr>ca_entries := AList.update i (h, until) es\<rparr>)
      else c)"

definition invalidate :: "grants_cache \<Rightarrow> grants_cache" where
  "invalidate c = c\<lparr>ca_gen := ca_gen c + 1, ca_entries := []\<rparr>"

text \<open>\<open>Cache.Held\<close> of a reader that nothing interrupts: its answer, and the cache it leaves.\<close>

definition cache_held ::
  "duration \<Rightarrow> held option \<Rightarrow> string option \<Rightarrow> grants_db \<Rightarrow> time \<Rightarrow> nat \<Rightarrow> grants_cache \<Rightarrow> grants_cache \<times> (string + held)" where
  "cache_held ttl override fault d now i c =
     (case cache_lookup c now i of
        Some h \<Rightarrow> (c, case fault of Some e \<Rightarrow> Inl e | None \<Rightarrow> Inr (within_server override d now h))
      | None \<Rightarrow>
          (case fault of Some e \<Rightarrow> (c, Inl e) | None \<Rightarrow>
             (let (h, expires) = actor_held d now i
              in (cache_store (ca_gen c) i h (cache_until ttl now expires) c, Inr (within_server override d now h)))))"

section \<open>Readers and writers at once\<close>

datatype flight =
    Reading (fl_key: nat) (fl_start: time) (fl_gen: nat)
  | Loaded (fl_key: nat) (fl_start: time) (fl_gen: nat) (fl_held: held) (fl_until: time)

record cache_system =
  cs_db :: grants_db
  cs_now :: time
  cs_cache :: grants_cache
  cs_flights :: "flight list"
  cs_pending :: nat
  cs_elsewhere :: "time option"

text \<open>
  A load is several queries and no transaction: if a change commits between them, what it read is torn. That
  is possible only while a change of this process is pending, after the generation has moved on, or if
  another replica committed since the load began; the step \<open>torn\<close> lets it read anything then.
\<close>

inductive cache_step :: "duration \<Rightarrow> cache_system \<Rightarrow> cache_system \<Rightarrow> bool" for ttl :: duration where
  tick: "cs_now s \<le> t \<Longrightarrow> cache_step ttl s (s\<lparr>cs_now := t\<rparr>)"
| commit: "cache_step ttl s (s\<lparr>cs_db := d, cs_pending := cs_pending s + 1\<rparr>)"
| commit_elsewhere: "cache_step ttl s (s\<lparr>cs_db := d, cs_elsewhere := Some (cs_now s)\<rparr>)"
| invalidate: "cache_step ttl s (s\<lparr>cs_cache := invalidate (cs_cache s), cs_pending := cs_pending s - 1\<rparr>)"
| miss: "cache_lookup (cs_cache s) (cs_now s) i = None \<Longrightarrow>
    cache_step ttl s (s\<lparr>cs_flights := Reading i (cs_now s) (ca_gen (cs_cache s)) # cs_flights s\<rparr>)"
| load: "Reading i t0 gen \<in> set (cs_flights s) \<Longrightarrow> actor_held (cs_db s) t0 i = (h, expires) \<Longrightarrow>
    cache_step ttl s (s\<lparr>cs_flights := Loaded i t0 gen h (cache_until ttl t0 expires) # remove1 (Reading i t0 gen) (cs_flights s)\<rparr>)"
| torn: "Reading i t0 gen \<in> set (cs_flights s) \<Longrightarrow>
    0 < cs_pending s \<or> gen \<noteq> ca_gen (cs_cache s) \<or> (\<exists>e. cs_elsewhere s = Some e \<and> t0 \<le> e) \<Longrightarrow>
    cache_step ttl s (s\<lparr>cs_flights := Loaded i t0 gen h (cache_until ttl t0 expires) # remove1 (Reading i t0 gen) (cs_flights s)\<rparr>)"
| fails: "f \<in> set (cs_flights s) \<Longrightarrow> cache_step ttl s (s\<lparr>cs_flights := remove1 f (cs_flights s)\<rparr>)"
| store: "Loaded i t0 gen h until \<in> set (cs_flights s) \<Longrightarrow>
    cache_step ttl s (s\<lparr>cs_cache := cache_store gen i h until (cs_cache s),
      cs_flights := remove1 (Loaded i t0 gen h until) (cs_flights s)\<rparr>)"

inductive_cases cache_stepE: "cache_step ttl s s'"

definition cache_start :: "cache_system \<Rightarrow> bool" where
  "cache_start s \<longleftrightarrow> cs_cache s = new_cache \<and> cs_flights s = [] \<and> cs_pending s = 0 \<and> cs_elsewhere s = None"

section \<open>What is cached is what the database holds\<close>

definition fresh :: "duration \<Rightarrow> cache_system \<Rightarrow> nat \<Rightarrow> held \<Rightarrow> time \<Rightarrow> bool" where
  "fresh ttl s i h u \<longleftrightarrow>
     (\<exists>t0 \<le> cs_now s. h = fst (actor_held (cs_db s) t0 i) \<and> u = cache_until ttl t0 (snd (actor_held (cs_db s) t0 i)))
     \<or> (\<exists>e. cs_elsewhere s = Some e \<and> u \<le> e + ttl)"

definition cache_ok :: "duration \<Rightarrow> cache_system \<Rightarrow> bool" where
  "cache_ok ttl s \<longleftrightarrow>
     (\<forall>f\<in>set (cs_flights s). fl_gen f \<le> ca_gen (cs_cache s) \<and> fl_start f \<le> cs_now s)
     \<and> (cs_pending s = 0 \<longrightarrow>
          (\<forall>i h u. (i, h, u) \<in> set (ca_entries (cs_cache s)) \<longrightarrow> fresh ttl s i h u)
          \<and> (\<forall>i t0 h u. Loaded i t0 (ca_gen (cs_cache s)) h u \<in> set (cs_flights s) \<longrightarrow> fresh ttl s i h u))
     \<and> (\<forall>i h u. (i, h, u) \<in> set (ca_entries (cs_cache s)) \<longrightarrow> u \<le> cs_now s + ttl)
     \<and> (\<forall>i t0 gen h u. Loaded i t0 gen h u \<in> set (cs_flights s) \<longrightarrow> u \<le> t0 + ttl)"

lemma cache_until_le: "cache_until ttl now e \<le> now + ttl"
  by (auto simp: cache_until_def split: option.split)

lemma cache_until_before: "t < cache_until ttl now e \<Longrightarrow> before t e"
  by (auto simp: cache_until_def before_def split: option.splits if_splits)

lemma set_alist_update: "set (AList.update k v xs) \<subseteq> insert (k, v) (set xs)"
  by (induction xs) auto

lemma set_cache_store: "set (ca_entries (cache_store gen i h u c)) \<subseteq> (if ca_gen c = gen then {(i, h, u)} else {}) \<union> set (ca_entries c)"
  using set_alist_update [of i "(h, u)"] by (auto simp: cache_store_def Let_def)

lemma ca_gen_store [simp]: "ca_gen (cache_store gen i h u c) = ca_gen c"
  by (simp add: cache_store_def Let_def)

lemma fresh_mono:
  "fresh ttl s i h u \<Longrightarrow> cs_db s' = cs_db s \<Longrightarrow> cs_now s \<le> cs_now s' \<Longrightarrow> cs_elsewhere s' = cs_elsewhere s \<Longrightarrow> fresh ttl s' i h u"
  by (auto simp: fresh_def intro: order_trans)

text \<open>The invariant in the form its parts are used and established.\<close>

lemma cache_okI:
  assumes "\<And>f. f \<in> set (cs_flights s) \<Longrightarrow> fl_gen f \<le> ca_gen (cs_cache s) \<and> fl_start f \<le> cs_now s"
    and "\<And>i h u. cs_pending s = 0 \<Longrightarrow> (i, h, u) \<in> set (ca_entries (cs_cache s)) \<Longrightarrow> fresh ttl s i h u"
    and "\<And>i t0 h u. cs_pending s = 0 \<Longrightarrow> Loaded i t0 (ca_gen (cs_cache s)) h u \<in> set (cs_flights s) \<Longrightarrow> fresh ttl s i h u"
    and "\<And>i h u. (i, h, u) \<in> set (ca_entries (cs_cache s)) \<Longrightarrow> u \<le> cs_now s + ttl"
    and "\<And>i t0 gen h u. Loaded i t0 gen h u \<in> set (cs_flights s) \<Longrightarrow> u \<le> t0 + ttl"
  shows "cache_ok ttl s"
  using assms unfolding cache_ok_def by blast

lemma cache_okD:
  assumes "cache_ok ttl s"
  shows "f \<in> set (cs_flights s) \<Longrightarrow> fl_gen f \<le> ca_gen (cs_cache s) \<and> fl_start f \<le> cs_now s"
    and "cs_pending s = 0 \<Longrightarrow> (i, h, u) \<in> set (ca_entries (cs_cache s)) \<Longrightarrow> fresh ttl s i h u"
    and "cs_pending s = 0 \<Longrightarrow> Loaded i t0 (ca_gen (cs_cache s)) h u \<in> set (cs_flights s) \<Longrightarrow> fresh ttl s i h u"
    and "(i, h, u) \<in> set (ca_entries (cs_cache s)) \<Longrightarrow> u \<le> cs_now s + ttl"
    and "Loaded i t0 gen h u \<in> set (cs_flights s) \<Longrightarrow> u \<le> t0 + ttl"
  using assms unfolding cache_ok_def by blast+

lemma loaded_start:
  "cache_ok ttl s \<Longrightarrow> Loaded i t0 gen h u \<in> set (cs_flights s) \<Longrightarrow> u \<le> cs_now s + ttl"
  using cache_okD(1) [of ttl s "Loaded i t0 gen h u"] cache_okD(5) [of ttl s i t0 gen h u] by simp

lemma commit_elsewhere_ok:
  assumes ok: "cache_ok ttl s"
  shows "cache_ok ttl (s\<lparr>cs_db := d, cs_elsewhere := Some (cs_now s)\<rparr>)"
  by (rule cache_okI) (use cache_okD [OF ok] loaded_start [OF ok] in \<open>auto simp: fresh_def\<close>)

lemma in_remove1: "x \<in> set (remove1 y xs) \<Longrightarrow> x \<in> set xs"
  by (meson notin_set_remove1)

lemma loaded_ok:
  assumes ok: "cache_ok ttl s" and r: "Reading i t0 gen \<in> set (cs_flights s)"
    and new: "cs_pending s = 0 \<Longrightarrow> gen = ca_gen (cs_cache s) \<Longrightarrow> fresh ttl s i h (cache_until ttl t0 e)"
  shows "cache_ok ttl (s\<lparr>cs_flights := Loaded i t0 gen h (cache_until ttl t0 e) # remove1 (Reading i t0 gen) (cs_flights s)\<rparr>)"
    (is "cache_ok ttl ?s")
proof -
  have mono: "fresh ttl s j k v \<Longrightarrow> fresh ttl ?s j k v" for j k v by (erule fresh_mono) simp_all
  show ?thesis
    by (rule cache_okI)
      (use cache_okD [OF ok] cache_okD(1) [OF ok r] new mono cache_until_le [of ttl t0 e] in \<open>auto 0 4 dest!: in_remove1\<close>)
qed

lemma store_ok:
  assumes ok: "cache_ok ttl s" and l: "Loaded i t0 gen h u \<in> set (cs_flights s)"
  shows "cache_ok ttl (s\<lparr>cs_cache := cache_store gen i h u (cs_cache s),
      cs_flights := remove1 (Loaded i t0 gen h u) (cs_flights s)\<rparr>)" (is "cache_ok ttl ?s")
proof -
  have mono: "fresh ttl s j k v \<Longrightarrow> fresh ttl ?s j k v" for j k v by (erule fresh_mono) simp_all
  have entry: "(j, k, v) \<in> set (ca_entries (cs_cache s)) \<or> ca_gen (cs_cache s) = gen \<and> (j, k, v) = (i, h, u)"
    if "(j, k, v) \<in> set (ca_entries (cs_cache ?s))" for j k v
    using that set_cache_store [of gen i h u "cs_cache s"] by (auto split: if_splits)
  show ?thesis
  proof (rule cache_okI)
    fix j k v assume "cs_pending ?s = 0" "(j, k, v) \<in> set (ca_entries (cs_cache ?s))"
    then show "fresh ttl ?s j k v" using entry [of j k v] cache_okD(2,3) [OF ok] l by (auto intro!: mono)
  next
    fix j k v assume "(j, k, v) \<in> set (ca_entries (cs_cache ?s))"
    then show "v \<le> cs_now ?s + ttl" using entry [of j k v] cache_okD(4) [OF ok] loaded_start [OF ok l] by auto
  qed (use cache_okD [OF ok] mono in \<open>auto 0 4 dest!: in_remove1\<close>)
qed

lemma cache_step_ok: "cache_step ttl s s' \<Longrightarrow> cache_ok ttl s \<Longrightarrow> cache_ok ttl s'"
proof (induction rule: cache_step.induct)
  case (tick s t)
  have mono: "fresh ttl s j k v \<Longrightarrow> fresh ttl (s\<lparr>cs_now := t\<rparr>) j k v" for j k v
    using tick.hyps by (auto elim!: fresh_mono)
  show ?case
    by (rule cache_okI) (use tick.hyps cache_okD [OF tick.prems] mono in \<open>fastforce+\<close>)
next
  case (commit s d)
  show ?case by (rule cache_okI) (use cache_okD [OF commit.prems] in auto)
next
  case (commit_elsewhere s d)
  then show ?case by (rule commit_elsewhere_ok)
next
  case (invalidate s)
  have "fl_gen f \<noteq> Suc (ca_gen (cs_cache s))" if "f \<in> set (cs_flights s)" for f
    using cache_okD(1) [OF invalidate.prems that] by simp
  then show ?case
    by (intro cache_okI) (use cache_okD [OF invalidate.prems] in \<open>fastforce simp: invalidate_def\<close>)+
next
  case (miss s i)
  have mono: "fresh ttl s j k v \<Longrightarrow> fresh ttl (s\<lparr>cs_flights := Reading i (cs_now s) (ca_gen (cs_cache s)) # cs_flights s\<rparr>) j k v" for j k v
    by (erule fresh_mono) simp_all
  show ?case by (rule cache_okI) (use cache_okD [OF miss.prems] mono in auto)
next
  case (load i t0 gen s h expires)
  then have "t0 \<le> cs_now s" using cache_okD(1) [OF load.prems load.hyps(1)] by simp
  then show ?case using load.hyps(2) by (intro loaded_ok [OF load.prems load.hyps(1)]) (auto simp: fresh_def)
next
  case (torn i t0 gen s h expires)
  have "fresh ttl s i h (cache_until ttl t0 expires)" if "cs_pending s = 0" "gen = ca_gen (cs_cache s)"
    using torn.hyps(2) that cache_until_le [of ttl t0 expires] by (auto simp: fresh_def)
  then show ?case by (rule loaded_ok [OF torn.prems torn.hyps(1)])
next
  case (fails f s)
  have mono: "fresh ttl s j k v \<Longrightarrow> fresh ttl (s\<lparr>cs_flights := remove1 f (cs_flights s)\<rparr>) j k v" for j k v
    by (erule fresh_mono) simp_all
  show ?case by (rule cache_okI) (use cache_okD [OF fails.prems] mono in \<open>auto 0 4 dest!: in_remove1\<close>)
next
  case (store i t0 gen h u s)
  then show ?case by (intro store_ok)
qed

interpretation cache_runs: invariant_system cache_start "cache_step ttl" "cache_ok ttl" for ttl
proof unfold_locales
  show "cache_start s \<Longrightarrow> cache_ok ttl s" for s by (auto simp: cache_start_def cache_ok_def new_cache_def)
qed (rule cache_step_ok)

section \<open>Properties\<close>

text \<open>
  C21: The cache answers as the database does. Whatever readers and grant changes have interleaved, once no change
  of this process is still waiting to empty the cache, and the last change made by another replica, if any, is
  at least the lifetime of an entry old, \<^verbatim>\<open>Cache.Held\<close> answers exactly what \<^verbatim>\<open>grants.Load\<close> would read at that instant,
  an expired grant or activation included.\<close>

theorem cache_answers_as_database:
  assumes "reach cache_start (cache_step ttl) s" "cs_pending s = 0"
    "case cs_elsewhere s of None \<Rightarrow> True | Some e \<Rightarrow> e + ttl \<le> cs_now s"
  shows "snd (cache_held ttl override fault (cs_db s) (cs_now s) i (cs_cache s)) =
    load_held override fault (cs_db s) (cs_now s) i"
proof (cases "cache_lookup (cs_cache s) (cs_now s) i")
  case None
  then show ?thesis by (simp add: cache_held_def load_held_def split_beta Let_def split: option.split)
next
  case (Some h)
  then obtain u where u: "(i, h, u) \<in> set (ca_entries (cs_cache s))" "cs_now s < u"
    by (auto simp: cache_lookup_def split: option.splits if_splits dest: map_of_SomeD)
  have "fresh ttl s i h u" using cache_okD(2) [OF cache_runs.reach_inv [OF assms(1)] assms(2) u(1)] .
  then obtain t0 where t0: "t0 \<le> cs_now s" "h = fst (actor_held (cs_db s) t0 i)"
    "u = cache_until ttl t0 (snd (actor_held (cs_db s) t0 i))"
    using u(2) assms(3) by (auto simp: fresh_def)
  then have "actor_held (cs_db s) (cs_now s) i = actor_held (cs_db s) t0 i"
    using u(2) cache_until_before by (intro actor_held_stable) auto
  then show ?thesis using Some t0(2) by (simp add: cache_held_def load_held_def split: option.split)
qed

definition cache_before :: cache_system where
  "cache_before = \<lparr>cs_db = sample_grants, cs_now = 0, cs_cache = new_cache, cs_flights = [], cs_pending = 0, cs_elsewhere = None\<rparr>"

definition cache_after :: cache_system where
  "cache_after = cache_before\<lparr>cs_now := second,
     cs_cache := cache_store 0 3 (fst (actor_held sample_grants 0 3)) (cache_until cache_ttl 0 (snd (actor_held sample_grants 0 3))) new_cache\<rparr>"

lemma cache_after_reached: "reach cache_start (cache_step cache_ttl) cache_after"
proof -
  let ?r = "Reading 3 0 0"
  let ?l = "Loaded 3 0 0 (fst (actor_held sample_grants 0 3)) (cache_until cache_ttl 0 (snd (actor_held sample_grants 0 3)))"
  have "reach cache_start (cache_step cache_ttl) cache_before"
    by (rule reach_start) (simp add: cache_start_def cache_before_def)
  then have "reach cache_start (cache_step cache_ttl) (cache_before\<lparr>cs_flights := [?r]\<rparr>)"
    by (rule reach_step) (use miss [of cache_before 3 cache_ttl] in \<open>simp add: cache_before_def new_cache_def cache_lookup_def\<close>)
  then have "reach cache_start (cache_step cache_ttl) (cache_before\<lparr>cs_flights := [?l]\<rparr>)"
    by (rule reach_step)
      (use load [of 3 0 0 "cache_before\<lparr>cs_flights := [?r]\<rparr>" "fst (actor_held sample_grants 0 3)" "snd (actor_held sample_grants 0 3)" cache_ttl]
        in \<open>simp add: cache_before_def\<close>)
  then have "reach cache_start (cache_step cache_ttl) (cache_after\<lparr>cs_now := 0\<rparr>)"
    by (rule reach_step)
      (use store [of 3 0 0 "fst (actor_held sample_grants 0 3)" "cache_until cache_ttl 0 (snd (actor_held sample_grants 0 3))"
         "cache_before\<lparr>cs_flights := [?l]\<rparr>" cache_ttl] in \<open>simp add: cache_before_def cache_after_def\<close>)
  then show ?thesis
    by (rule reach_step) (use tick [of "cache_after\<lparr>cs_now := 0\<rparr>" second cache_ttl] in \<open>simp add: cache_after_def cache_before_def second_def\<close>)
qed

theorem cache_answers_as_database_witness:
  "cache_lookup (cs_cache cache_after) second 3 \<noteq> None
   \<and> snd (cache_held cache_ttl None None sample_grants second 3 (cs_cache cache_after)) = load_held None None sample_grants second 3"
proof -
  have s: "cs_pending cache_after = 0" "cs_elsewhere cache_after = None" "cs_db cache_after = sample_grants" "cs_now cache_after = second"
    by (simp_all add: cache_after_def cache_before_def)
  have "cache_lookup (cs_cache cache_after) second 3 \<noteq> None" by code_simp
  then show ?thesis using cache_answers_as_database [OF cache_after_reached s(1), of None None 3] by (simp add: s)
qed

end
