(* ===== verification/Grants_Change.thy ===== *)
theory Grants_Change
  imports Grants_Load
begin

text \<open>
  Changes to grants, \<^verbatim>\<open>internal/grants/change.go\<close>, \<^verbatim>\<open>internal/grants/activation.go\<close>, the writing half of
  \<^verbatim>\<open>internal/grants/server_ceiling.go\<close> and \<^verbatim>\<open>internal/grants/server.go\<close>, and the handlers that authorise them,
  \<^verbatim>\<open>internal/api/handlers/grants.go\<close>, \<^verbatim>\<open>internal/api/handlers/escalation.go\<close> and
  \<^verbatim>\<open>internal/api/handlers/fresh_two_factor.go\<close>. Every change runs in one transaction under one advisory lock and
  writes its audit entry there: an operation maps the database to an error or to the database it commits,
  and an error rolls back. \<open>fault\<close> is an error of the database. The entry a request starts with
  (\<^verbatim>\<open>middleware.RequestEntry\<close>), the form of a time in it and the answer to a one-time code are arguments.
\<close>

datatype grants_err =
    ErrExceedsHeld | ErrExists | ErrLastSuperadmin
  | ErrNotEligible | ErrAlreadySwitchedOn | ErrNotSwitchedOn | ErrGrantExpired | ErrAlreadyEligible
  | ErrSuperadminRequired | ErrServerOverridden | ErrInvalidCapability ceiling_err
  | ErrInvalidRequest "string list" | ErrNoSuchHolder | ErrNoSuchRole | ErrNoSuchGrant
  | ErrTwoFactorRequired | ErrRecentTwoFactorRequired | ErrNoSecondFactor | ErrFreshCodeRequired | ErrFreshCodeInvalid
  | ErrDatabase string

record grants_env =
  ge_audit :: audit_env
  ge_rfc3339 :: "time \<Rightarrow> string"

definition outcome_success :: string where "outcome_success = ''success''"

section \<open>The audit entry of a change\<close>

definition put_all :: "(string \<times> string) list \<Rightarrow> (string \<times> string) list \<Rightarrow> (string \<times> string) list" where
  "put_all kvs t = foldl (\<lambda>t (k, v). target_put k v t) t kvs"

definition describe_grant :: "grants_env \<Rightarrow> grants_db \<Rightarrow> grant_row \<Rightarrow> (string \<times> string) list" where
  "describe_grant env d g =
     put_all
       ([(''grant_id'', nat_dec (gr_id g)), (''holder_kind'', gr_holder_kind g), (''holder_id'', nat_dec (gr_holder_id g)),
         (''role_id'', nat_dec (gr_role_id g)), (''scope'', gr_scope g), (''mode'', gr_mode g)]
        @ (case filter (\<lambda>r. ro_id r = gr_role_id g) (gd_roles d) of [r] \<Rightarrow> [(''role'', ro_name r)] | _ \<Rightarrow> [])
        @ (case gr_expires_at g of Some at \<Rightarrow> [(''expires_at'', ge_rfc3339 env at)] | None \<Rightarrow> [])) []"

definition write_audit :: "grants_env \<Rightarrow> time \<Rightarrow> audit_entry \<Rightarrow> grants_db \<Rightarrow> grants_err + grants_db" where
  "write_audit env now e d =
     (case append_entry (ge_audit env) None now e (gd_audit d) of
        (_, Inl err) \<Rightarrow> Inl (ErrDatabase err)
      | (log, Inr _) \<Rightarrow> Inr (d\<lparr>gd_audit := log\<rparr>))"

definition append_change :: "grants_env \<Rightarrow> time \<Rightarrow> grant_row \<Rightarrow> audit_entry \<Rightarrow> grants_db \<Rightarrow> grants_err + grants_db" where
  "append_change env now g entry d =
     write_audit env now
       (entry\<lparr>ae_outcome := outcome_success, ae_target := put_all (describe_grant env d g) (ae_target entry)\<rparr>) d"

definition append_activation ::
  "grants_env \<Rightarrow> time \<Rightarrow> grant_row \<Rightarrow> activation_row \<Rightarrow> audit_entry \<Rightarrow> grants_db \<Rightarrow> grants_err + grants_db" where
  "append_activation env now g a entry d =
     append_change env now g
       (entry\<lparr>ae_target := put_all
          ([(''activation_id'', nat_dec (av_id a)), (''reason'', av_reason a), (''started_at'', ge_rfc3339 env (av_activated_at a)),
            (''ends_at'', ge_rfc3339 env (av_expires_at a))]
           @ (case av_ended_at a of Some t \<Rightarrow> [(''ended_at'', ge_rfc3339 env t)] | None \<Rightarrow> [])) (ae_target entry)\<rparr>) d"

section \<open>Adding and removing\<close>

definition authorize_change ::
  "held option \<Rightarrow> grants_db \<Rightarrow> time \<Rightarrow> nat \<Rightarrow> nat \<Rightarrow> string \<Rightarrow> grants_err option" where
  "authorize_change override d now granter role scope =
     (case load_held override None d now granter of
        Inl e \<Rightarrow> Some (ErrDatabase e)
      | Inr h \<Rightarrow> if can_grant h (role_capabilities d role) scope then None else Some ErrExceedsHeld)"

definition same_grant :: "grant_row \<Rightarrow> grant_row \<Rightarrow> bool" where
  "same_grant g g' \<longleftrightarrow>
     gr_holder_kind g = gr_holder_kind g' \<and> gr_holder_id g = gr_holder_id g' \<and> gr_role_id g = gr_role_id g' \<and> gr_scope g = gr_scope g'"

text \<open>The row a grant becomes: with the next id, and granted now unless it says when.\<close>

definition stored_grant :: "time \<Rightarrow> grant_row \<Rightarrow> grants_db \<Rightarrow> grant_row" where
  "stored_grant now g d =
     g\<lparr>gr_id := gd_grant_seq d + 1, gr_granted_at := if gr_granted_at g = zero_time then now else gr_granted_at g\<rparr>"

definition add_grant :: "grants_env \<Rightarrow> time \<Rightarrow> grant_row \<Rightarrow> audit_entry \<Rightarrow> grants_db \<Rightarrow> grants_err + grants_db" where
  "add_grant env now g entry d =
     (if gr_holder_kind g = holder_server then Inl ErrExceedsHeld
      else if list_ex (\<lambda>r. ro_id r = gr_role_id g \<and> ro_name r = role_server) (gd_roles d) then Inl ErrExceedsHeld
      else if list_ex (same_grant g) (gd_grants d) then Inl ErrExists
      else let g' = stored_grant now g d
           in append_change env now g' (entry\<lparr>ae_action := ''grants.create''\<rparr>)
                (d\<lparr>gd_grants := gd_grants d @ [g'], gd_grant_seq := gd_grant_seq d + 1\<rparr>))"

definition live_activation :: "grants_db \<Rightarrow> time \<Rightarrow> nat \<Rightarrow> activation_row option" where
  "live_activation d now grant = List.find (\<lambda>a. av_grant_id a = grant \<and> live now a) (gd_activations d)"

definition credential_totp :: string where "credential_totp = ''totp''"

definition has_totp :: "grants_db \<Rightarrow> nat \<Rightarrow> bool" where
  "has_totp d account \<longleftrightarrow>
     list_ex (\<lambda>k. cd_kind k = credential_totp \<and> cd_account_id k = account \<and> cd_confirmed_at k \<noteq> None \<and> cd_revoked_at k = None)
       (gd_credentials d)"

definition usable_superadmin :: "grants_db \<Rightarrow> time \<Rightarrow> grant_row \<Rightarrow> bool" where
  "usable_superadmin d now g \<longleftrightarrow>
     gr_holder_kind g = holder_account \<and> gr_scope g = scope_all \<and> wildcard \<in> set (role_capabilities d (gr_role_id g))
     \<and> list_ex (\<lambda>m. ac_id m = gr_holder_id g \<and> ac_active m) (gd_accounts d)
     \<and> (gr_mode g = grant_active \<or> gr_mode g = grant_eligible \<and> has_totp d (gr_holder_id g))
     \<and> unexpired now g"

definition was_superadmin :: "grants_db \<Rightarrow> time \<Rightarrow> grant_row \<Rightarrow> bool" where
  "was_superadmin d now g =
     (if gr_scope g \<noteq> scope_all \<or> gr_holder_kind g \<noteq> holder_account then False
      else if \<not> unexpired now g then False
      else if gr_mode g \<noteq> grant_active \<and> (gr_mode g \<noteq> grant_eligible \<or> \<not> has_totp d (gr_holder_id g)) then False
      else case filter (\<lambda>m. ac_id m = gr_holder_id g) (gd_accounts d) of
             [] \<Rightarrow> False
           | m # _ \<Rightarrow> ac_active m \<and> wildcard \<in> set (role_capabilities d (gr_role_id g)))"

text \<open>\<open>now2\<close> is the later reading of the clock that \<open>wasSuperadmin\<close> makes.\<close>

definition remove_grant ::
  "grants_env \<Rightarrow> time \<Rightarrow> time \<Rightarrow> grant_row \<Rightarrow> audit_entry \<Rightarrow> grants_db \<Rightarrow> grants_err + grants_db" where
  "remove_grant env now now2 g entry d =
     (if gr_holder_kind g = holder_server then Inl ErrExceedsHeld
      else
        (let a = live_activation d now (gr_id g);
             d1 = d\<lparr>gd_activations := filter (\<lambda>a. av_grant_id a \<noteq> gr_id g) (gd_activations d),
                    gd_grants := filter (\<lambda>r. gr_id r \<noteq> gr_id g) (gd_grants d)\<rparr>
         in if filter (usable_superadmin d1 now) (gd_grants d1) = [] \<and> was_superadmin d1 now2 g then Inl ErrLastSuperadmin
            else case (case a of
                         None \<Rightarrow> Inr d1
                       | Some x \<Rightarrow> append_activation env now g (x\<lparr>av_ended_at := Some now\<rparr>)
                                     (entry\<lparr>ae_action := ''grants.deactivate''\<rparr>) d1) of
                   Inl e \<Rightarrow> Inl e
                 | Inr d2 \<Rightarrow> append_change env now g (entry\<lparr>ae_action := ''grants.delete''\<rparr>) d2))"

definition system_entry :: "audit_entry \<Rightarrow> audit_entry" where
  "system_entry e = e\<lparr>ae_actor_kind := ''system'', ae_actor_name := ''system''\<rparr>"

definition blank_entry :: audit_entry where
  "blank_entry =
     \<lparr>ae_seq = 0, ae_occurred_at = zero_time, ae_actor_kind = [], ae_actor_id = None, ae_actor_name = [],
      ae_credential_id = None, ae_session_id = [], ae_action = [], ae_outcome = [], ae_error_code = [], ae_method = [],
      ae_route = [], ae_status = 0, ae_target = [], ae_ip = [], ae_user_agent = [], ae_request_id = [],
      ae_prev_hash = [], ae_hash = []\<rparr>"

definition ensure_system ::
  "grants_env \<Rightarrow> time \<Rightarrow> nat \<Rightarrow> nat \<Rightarrow> string \<Rightarrow> string \<Rightarrow> grants_db \<Rightarrow> grants_err + grants_db \<times> bool" where
  "ensure_system env now account role scope mode d =
     (case add_grant env now
        \<lparr>gr_id = 0, gr_holder_kind = holder_account, gr_holder_id = account, gr_role_id = role, gr_scope = scope,
         gr_mode = mode, gr_granted_by_kind = ''system'', gr_granted_by_id = None, gr_granted_at = zero_time,
         gr_expires_at = None\<rparr> (system_entry blank_entry) d of
        Inr d' \<Rightarrow> Inr (d', True)
      | Inl e \<Rightarrow> if e = ErrExists then Inr (d, False) else Inl e)"

text \<open>The grants a new mailbox gets, one transaction: receiving, then importing.\<close>

definition ensure_own :: "grants_env \<Rightarrow> time \<Rightarrow> account_row \<Rightarrow> string \<Rightarrow> grants_db \<Rightarrow> grants_err + grants_db" where
  "ensure_own env now m role d =
     (case List.find (\<lambda>r. ro_name r = role) (gd_roles d) of
        None \<Rightarrow> Inl (ErrDatabase ''record not found'')
      | Some r \<Rightarrow> (case ensure_system env now (ac_id m) (ro_id r) (scope_of_mailbox (ac_address m)) grant_active d of
                     Inl e \<Rightarrow> Inl e | Inr (d', _) \<Rightarrow> Inr d'))"

definition ensure_defaults :: "grants_env \<Rightarrow> time \<Rightarrow> account_row \<Rightarrow> grants_db \<Rightarrow> grants_err + grants_db" where
  "ensure_defaults env now m d =
     (case ensure_own env now m ''receiver'' d of Inl e \<Rightarrow> Inl e | Inr d1 \<Rightarrow> ensure_own env now m ''importer'' d1)"

section \<open>Switching an eligible grant on and off\<close>

definition default_activation :: duration where "default_activation = 60 * minute"
definition max_activation :: duration where "max_activation = 240 * minute"

definition end_activation :: "nat \<Rightarrow> time \<Rightarrow> grants_db \<Rightarrow> grants_db" where
  "end_activation i t d =
     d\<lparr>gd_activations := map (\<lambda>a. if av_id a = i then a\<lparr>av_ended_at := Some t\<rparr> else a) (gd_activations d)\<rparr>"

definition unknown_grant :: "nat \<Rightarrow> grant_row" where
  "unknown_grant i =
     \<lparr>gr_id = i, gr_holder_kind = [], gr_holder_id = 0, gr_role_id = 0, gr_scope = [], gr_mode = [], gr_granted_by_kind = [],
      gr_granted_by_id = None, gr_granted_at = zero_time, gr_expires_at = None\<rparr>"

fun record_expired :: "grants_env \<Rightarrow> time \<Rightarrow> activation_row list \<Rightarrow> grants_db \<Rightarrow> grants_err + grants_db" where
  "record_expired env now [] d = Inr d"
| "record_expired env now (a # as) d =
     (let g = (case List.find (\<lambda>g. gr_id g = av_grant_id a) (gd_grants d) of Some g \<Rightarrow> g | None \<Rightarrow> unknown_grant (av_grant_id a))
      in case append_activation env now g (a\<lparr>av_ended_at := Some (av_expires_at a)\<rparr>)
             ((system_entry blank_entry)\<lparr>ae_action := ''grants.expire''\<rparr>) (end_activation (av_id a) (av_expires_at a) d) of
           Inl e \<Rightarrow> Inl e
         | Inr d' \<Rightarrow> record_expired env now as d')"

definition run_out :: "nat \<Rightarrow> time \<Rightarrow> activation_row \<Rightarrow> bool" where
  "run_out grant now a \<longleftrightarrow> av_ended_at a = None \<and> av_expires_at a \<le> now \<and> (grant \<noteq> 0 \<longrightarrow> av_grant_id a = grant)"

definition end_expired :: "grants_env \<Rightarrow> nat \<Rightarrow> time \<Rightarrow> grants_db \<Rightarrow> grants_err + grants_db \<times> nat" where
  "end_expired env grant now d =
     (let expired = sort_key av_id (filter (run_out grant now) (gd_activations d))
      in case record_expired env now expired d of Inl e \<Rightarrow> Inl e | Inr d' \<Rightarrow> Inr (d', length expired))"

definition end_all_expired :: "grants_env \<Rightarrow> string option \<Rightarrow> time \<Rightarrow> grants_db \<Rightarrow> grants_db \<times> (grants_err + nat)" where
  "end_all_expired env fault now d =
     (case fault of Some e \<Rightarrow> (d, Inl (ErrDatabase e)) | None \<Rightarrow>
      if filter (run_out 0 now) (gd_activations d) = [] then (d, Inr 0)
      else case end_expired env 0 now d of Inl e \<Rightarrow> (d, Inl e) | Inr (d', n) \<Rightarrow> (d', Inr n))"

definition activation_ends :: "time \<Rightarrow> duration \<Rightarrow> grant_row \<Rightarrow> time" where
  "activation_ends now len g =
     (case gr_expires_at g of Some at \<Rightarrow> if at < now + len then at else now + len | None \<Rightarrow> now + len)"

definition activate_grant ::
  "grants_env \<Rightarrow> time \<Rightarrow> duration \<Rightarrow> string \<Rightarrow> grant_row \<Rightarrow> audit_entry \<Rightarrow> grants_db \<Rightarrow> grants_err + grants_db \<times> activation_row" where
  "activate_grant env now len reason g entry d =
     (if gr_mode g \<noteq> grant_eligible then Inl ErrNotEligible
      else if \<not> unexpired now g then Inl ErrGrantExpired
      else case end_expired env (gr_id g) now d of Inl e \<Rightarrow> Inl e | Inr (d1, _) \<Rightarrow>
      if live_activation d1 now (gr_id g) \<noteq> None then Inl ErrAlreadySwitchedOn
      else if list_ex (\<lambda>a. av_grant_id a = gr_id g \<and> av_ended_at a = None) (gd_activations d1)
      then Inl (ErrDatabase ''duplicate key value violates unique constraint'')
      else let a = \<lparr>av_id = gd_activation_seq d1 + 1, av_grant_id = gr_id g, av_activated_at = now,
                    av_expires_at = activation_ends now len g, av_reason = reason, av_ended_at = None\<rparr>
           in case append_activation env now g a (entry\<lparr>ae_action := ''grants.activate''\<rparr>)
                (d1\<lparr>gd_activations := gd_activations d1 @ [a], gd_activation_seq := gd_activation_seq d1 + 1\<rparr>) of
                Inl e \<Rightarrow> Inl e | Inr d2 \<Rightarrow> Inr (d2, a))"

definition deactivate_grant ::
  "grants_env \<Rightarrow> time \<Rightarrow> grant_row \<Rightarrow> audit_entry \<Rightarrow> grants_db \<Rightarrow> grants_err + grants_db \<times> activation_row" where
  "deactivate_grant env now g entry d =
     (case end_expired env (gr_id g) now d of Inl e \<Rightarrow> Inl e | Inr (d1, _) \<Rightarrow>
      case live_activation d1 now (gr_id g) of None \<Rightarrow> Inl ErrNotSwitchedOn | Some a \<Rightarrow>
      case append_activation env now g (a\<lparr>av_ended_at := Some now\<rparr>) (entry\<lparr>ae_action := ''grants.deactivate''\<rparr>)
             (end_activation (av_id a) now d1) of
        Inl e \<Rightarrow> Inl e | Inr d2 \<Rightarrow> Inr (d2, a\<lparr>av_ended_at := Some now\<rparr>))"

definition make_eligible :: "grants_env \<Rightarrow> time \<Rightarrow> grant_row \<Rightarrow> audit_entry \<Rightarrow> grants_db \<Rightarrow> grants_err + grants_db" where
  "make_eligible env now g entry d =
     (if gr_mode g = grant_eligible then Inl ErrAlreadyEligible
      else append_change env now (g\<lparr>gr_mode := grant_eligible\<rparr>) (entry\<lparr>ae_action := ''grants.make_eligible''\<rparr>)
             (d\<lparr>gd_grants := map (\<lambda>r. if gr_id r = gr_id g then r\<lparr>gr_mode := grant_eligible\<rparr> else r) (gd_grants d)\<rparr>))"

section \<open>The server's ceiling\<close>

definition require_superadmin :: "held option \<Rightarrow> grants_db \<Rightarrow> time \<Rightarrow> nat \<Rightarrow> grants_err option" where
  "require_superadmin override d now account =
     (case load_held override None d now account of
        Inl e \<Rightarrow> Some (ErrDatabase e)
      | Inr h \<Rightarrow> if allows h wildcard scope_all then None else Some ErrSuperadminRequired)"

definition sorted_capabilities :: "held \<Rightarrow> string list" where
  "sorted_capabilities h = sort (firsts [] (map en_capability h))"

definition server_ceiling_names :: "held option \<Rightarrow> grants_db \<Rightarrow> time \<Rightarrow> string list \<times> bool" where
  "server_ceiling_names override d now =
     (case override of
        Some h \<Rightarrow> (sorted_capabilities h, True)
      | None \<Rightarrow> (sorted_capabilities (stored_server_ceiling d now), False))"

definition difference :: "string list \<Rightarrow> string list \<Rightarrow> string list" where
  "difference a b = filter (\<lambda>x. x \<notin> set b) a"

fun first_refused :: "string list \<Rightarrow> string list \<Rightarrow> ceiling_err option" where
  "first_refused known [] = None"
| "first_refused known (name # names) =
     (case check_server_capability (trim_space name) known of Some e \<Rightarrow> Some e | None \<Rightarrow> first_refused known names)"

definition server_grant :: "nat \<Rightarrow> string \<Rightarrow> nat option \<Rightarrow> time \<Rightarrow> grant_row" where
  "server_grant role by_kind by_id now =
     \<lparr>gr_id = 0, gr_holder_kind = holder_server, gr_holder_id = server_holder_id, gr_role_id = role, gr_scope = scope_all,
      gr_mode = grant_active, gr_granted_by_kind = by_kind, gr_granted_by_id = by_id, gr_granted_at = now, gr_expires_at = None\<rparr>"

definition insert_grant :: "grant_row \<Rightarrow> grants_db \<Rightarrow> grants_db" where
  "insert_grant g d =
     d\<lparr>gd_grants := gd_grants d @ [g\<lparr>gr_id := gd_grant_seq d + 1\<rparr>], gd_grant_seq := gd_grant_seq d + 1\<rparr>"

definition capability_ids :: "grants_db \<Rightarrow> string list \<Rightarrow> nat list" where
  "capability_ids d names = map cp_id (filter (\<lambda>c. cp_name c \<in> set names) (gd_capabilities d))"

definition restore_server_grant :: "nat \<Rightarrow> audit_entry \<Rightarrow> time \<Rightarrow> grants_db \<Rightarrow> grants_db" where
  "restore_server_grant role entry now d =
     (let mine = same_grant (server_grant role [] None now)
      in if list_ex mine (gd_grants d)
         then d\<lparr>gd_grants := map (\<lambda>g. if mine g then g\<lparr>gr_mode := grant_active, gr_expires_at := None\<rparr> else g) (gd_grants d)\<rparr>
         else insert_grant (server_grant role (ae_actor_kind entry) (ae_actor_id entry) now) d)"

definition set_server_ceiling ::
  "grants_env \<Rightarrow> held option \<Rightarrow> time \<Rightarrow> string list \<Rightarrow> audit_entry \<Rightarrow> grants_db \<Rightarrow> grants_err + grants_db \<times> string list" where
  "set_server_ceiling env override now names entry d =
     (if override \<noteq> None then Inl ErrServerOverridden
      else case first_refused (vocabulary d) names of Some e \<Rightarrow> Inl (ErrInvalidCapability e) | None \<Rightarrow>
      let after = sort (firsts [] (map trim_space names));
          before = sorted_capabilities (stored_server_ceiling d now)
      in case List.find (\<lambda>r. ro_name r = role_server) (gd_roles d) of
           None \<Rightarrow> Inl (ErrDatabase ''find the server role: record not found'')
         | Some role \<Rightarrow>
             (let d1 = d\<lparr>gd_role_caps := filter (\<lambda>(r, _). r \<noteq> ro_id role) (gd_role_caps d)
                          @ map (\<lambda>c. (ro_id role, c)) (capability_ids d after)\<rparr>;
                  d2 = restore_server_grant (ro_id role) entry now d1
              in case write_audit env now
                   (entry\<lparr>ae_action := ''server_capabilities.update'', ae_outcome := outcome_success,
                      ae_target := put_all [(''before'', join '','' before), (''after'', join '','' after),
                        (''added'', join '','' (difference after before)), (''removed'', join '','' (difference before after))]
                        (ae_target entry)\<rparr>) d2 of
                   Inl e \<Rightarrow> Inl e
                 | Inr d3 \<Rightarrow> Inr (d3, after)))"

definition ensure_server_ceiling :: "time \<Rightarrow> grants_db \<Rightarrow> grants_db" where
  "ensure_server_ceiling now d =
     (if list_ex (\<lambda>r. ro_name r = role_server) (gd_roles d) then d
      else let role = gd_role_seq d + 1
           in insert_grant (server_grant role ''system'' None now)
                (d\<lparr>gd_roles := gd_roles d @ [\<lparr>ro_id = role, ro_name = role_server\<rparr>], gd_role_seq := role,
                   gd_role_caps := gd_role_caps d @ map (\<lambda>c. (role, c)) (capability_ids d (vocabulary d))\<rparr>))"

definition allow_on_server :: "nat \<Rightarrow> grants_db \<Rightarrow> grants_db" where
  "allow_on_server capability d =
     d\<lparr>gd_role_caps := gd_role_caps d @
        filter (\<lambda>rc. rc \<notin> set (gd_role_caps d))
          (map (\<lambda>r. (ro_id r, capability)) (filter (\<lambda>r. ro_name r = role_server) (gd_roles d)))\<rparr>"

section \<open>Handlers\<close>

record grants_claims =
  cl_account :: nat
  cl_credential_id :: nat
  cl_credential_kind :: string
  cl_two_factor :: bool
  cl_amr :: "string list"
  cl_auth_time :: "time option"

definition max_fresh_two_factor_window :: duration where "max_fresh_two_factor_window = 15 * minute"

definition human_two_factor :: "grants_claims option \<Rightarrow> bool" where
  "human_two_factor claims =
     (case claims of None \<Rightarrow> False
      | Some c \<Rightarrow> cl_credential_id c = 0 \<and> cl_credential_kind c = [] \<and> (cl_two_factor c \<or> ''otp'' \<in> set (cl_amr c)))"

definition require_two_factor :: "grants_claims option \<Rightarrow> grants_err option" where
  "require_two_factor claims = (if human_two_factor claims then None else Some ErrTwoFactorRequired)"

definition require_fresh_two_factor :: "duration option \<Rightarrow> time \<Rightarrow> grants_claims option \<Rightarrow> grants_err option" where
  "require_fresh_two_factor window now claims =
     (case require_two_factor claims of Some e \<Rightarrow> Some e | None \<Rightarrow>
      let w = (case window of None \<Rightarrow> max_fresh_two_factor_window | Some w \<Rightarrow> w)
      in case Option.bind claims cl_auth_time of
           None \<Rightarrow> Some ErrRecentTwoFactorRequired
         | Some at \<Rightarrow> if now < at \<or> w < now - at then Some ErrRecentTwoFactorRequired else None)"

definition fresh_grant_capability :: "string \<Rightarrow> bool" where
  "fresh_grant_capability c \<longleftrightarrow> c \<noteq> ''mail:write'' \<and> c \<noteq> cap_mail_receive"

text \<open>What a request brings: its claims, its entry for the log, the operator's window for a fresh second factor.\<close>

record grants_request =
  rq_claims :: grants_claims
  rq_entry :: audit_entry
  rq_window :: "duration option"

definition change_add ::
  "grants_env \<Rightarrow> held option \<Rightarrow> time \<Rightarrow> grants_request \<Rightarrow> grant_row \<Rightarrow> grants_db \<Rightarrow> grants_err + grants_db" where
  "change_add env override now r g d =
     (case require_two_factor (Some (rq_claims r)) of Some e \<Rightarrow> Inl e | None \<Rightarrow>
      case (if list_ex fresh_grant_capability (role_capabilities d (gr_role_id g))
            then require_fresh_two_factor (rq_window r) now (Some (rq_claims r)) else None) of Some e \<Rightarrow> Inl e | None \<Rightarrow>
      case authorize_change override d now (cl_account (rq_claims r)) (gr_role_id g) (gr_scope g) of Some e \<Rightarrow> Inl e | None \<Rightarrow>
        add_grant env now (g\<lparr>gr_granted_by_kind := audit_actor_account, gr_granted_by_id := Some (cl_account (rq_claims r))\<rparr>)
          (rq_entry r) d)"

definition change_remove ::
  "grants_env \<Rightarrow> held option \<Rightarrow> time \<Rightarrow> time \<Rightarrow> grants_request \<Rightarrow> grant_row \<Rightarrow> grants_db \<Rightarrow> grants_err + grants_db" where
  "change_remove env override now now2 r g d =
     (case require_two_factor (Some (rq_claims r)) of Some e \<Rightarrow> Inl e | None \<Rightarrow>
      case authorize_change override d now (cl_account (rq_claims r)) (gr_role_id g) (gr_scope g) of Some e \<Rightarrow> Inl e | None \<Rightarrow>
        remove_grant env now now2 g (rq_entry r) d)"

record create_request =
  cr_holder :: "(string \<times> nat) option"
  cr_role :: string
  cr_scope :: string
  cr_mode :: string
  cr_expires_at :: "time option"

definition create_problems :: "time \<Rightarrow> create_request \<Rightarrow> string list" where
  "create_problems now req =
     (case cr_holder req of
        None \<Rightarrow> [''holder'']
      | Some (kind, i) \<Rightarrow> if kind = [] \<or> i = 0 \<or> kind \<noteq> holder_account then [''holder''] else [])
     @ (if cr_role req = [] then [''role''] else [])
     @ (case parse_scope (cr_scope req) of Inl _ \<Rightarrow> [''scope''] | Inr _ \<Rightarrow> [])
     @ (if cr_mode req \<noteq> [] \<and> cr_mode req \<noteq> grant_active \<and> cr_mode req \<noteq> grant_eligible then [''mode''] else [])
     @ (case cr_expires_at req of Some at \<Rightarrow> if at \<le> now then [''expires_at''] else [] | None \<Rightarrow> [])"

definition create_grant ::
  "grants_env \<Rightarrow> held option \<Rightarrow> string option \<Rightarrow> time \<Rightarrow> grants_request \<Rightarrow> create_request \<Rightarrow> grants_db \<Rightarrow> grants_err + grants_db" where
  "create_grant env override fault now r req d =
     (if create_problems now req \<noteq> [] then Inl (ErrInvalidRequest (create_problems now req))
      else case fault of Some e \<Rightarrow> Inl (ErrDatabase e) | None \<Rightarrow>
      let holder = snd (the (cr_holder req)) in
      if \<not> list_ex (\<lambda>m. ac_id m = holder) (gd_accounts d) then Inl ErrNoSuchHolder
      else case List.find (\<lambda>x. ro_name x = cr_role req) (gd_roles d) of None \<Rightarrow> Inl ErrNoSuchRole | Some role \<Rightarrow>
        change_add env override now r
          \<lparr>gr_id = 0, gr_holder_kind = holder_account, gr_holder_id = holder, gr_role_id = ro_id role,
           gr_scope = (case parse_scope (cr_scope req) of Inr s \<Rightarrow> s | Inl _ \<Rightarrow> []),
           gr_mode = (if cr_mode req = [] then grant_active else cr_mode req),
           gr_granted_by_kind = [], gr_granted_by_id = None, gr_granted_at = zero_time, gr_expires_at = cr_expires_at req\<rparr> d)"

definition grant_by_id :: "grants_db \<Rightarrow> nat \<Rightarrow> grant_row option" where
  "grant_by_id d i = List.find (\<lambda>g. gr_id g = i) (gd_grants d)"

definition delete_grant ::
  "grants_env \<Rightarrow> held option \<Rightarrow> string option \<Rightarrow> time \<Rightarrow> time \<Rightarrow> grants_request \<Rightarrow> nat \<Rightarrow> grants_db \<Rightarrow> grants_err + grants_db" where
  "delete_grant env override fault now now2 r i d =
     (case require_two_factor (Some (rq_claims r)) of Some e \<Rightarrow> Inl e | None \<Rightarrow>
      case fault of Some e \<Rightarrow> Inl (ErrDatabase e) | None \<Rightarrow>
      case grant_by_id d i of None \<Rightarrow> Inl ErrNoSuchGrant | Some g \<Rightarrow> change_remove env override now now2 r g d)"

definition own_grant :: "grants_db \<Rightarrow> nat \<Rightarrow> nat \<Rightarrow> grants_err + grant_row" where
  "own_grant d account i =
     (case grant_by_id d i of None \<Rightarrow> Inl ErrNoSuchGrant
      | Some g \<Rightarrow> if gr_holder_kind g \<noteq> holder_account \<or> gr_holder_id g \<noteq> account then Inl ErrNoSuchGrant else Inr g)"

text \<open>
  The code a request gives, checked against the account's authenticators and recovery codes; \<open>check_code\<close> is the answer of
  \<^verbatim>\<open>verifyTOTPOrRecovery\<close>, which may use up a recovery code but touches no authenticator.
\<close>

definition fresh_second_factor ::
  "(nat \<Rightarrow> string \<Rightarrow> string \<Rightarrow> string + bool) \<Rightarrow> grants_db \<Rightarrow> nat \<Rightarrow> string \<Rightarrow> string \<Rightarrow> grants_err option" where
  "fresh_second_factor check_code d account totp recovery =
     (if \<not> has_totp d account then Some ErrNoSecondFactor
      else if trim_space totp = [] \<and> trim_space recovery = [] then Some ErrFreshCodeRequired
      else case check_code account totp recovery of
             Inl e \<Rightarrow> Some (ErrDatabase e)
           | Inr ok \<Rightarrow> if ok then None else Some ErrFreshCodeInvalid)"

definition max_reason_length :: nat where "max_reason_length = 500"

record activate_request =
  aq_reason :: string
  aq_minutes :: "int option"
  aq_totp :: string
  aq_recovery :: string

definition activate_problems :: "activate_request \<Rightarrow> string list" where
  "activate_problems req =
     (let reason = trim_space (aq_reason req) in
      (if reason = [] \<or> max_reason_length < length (runes reason) then [''reason''] else [])
      @ (case aq_minutes req of Some m \<Rightarrow> if m < 1 \<or> max_activation div minute < m then [''minutes''] else [] | None \<Rightarrow> []))"

definition activation_length :: "activate_request \<Rightarrow> duration" where
  "activation_length req = (case aq_minutes req of None \<Rightarrow> default_activation | Some m \<Rightarrow> m * minute)"

definition activate_handler ::
  "grants_env \<Rightarrow> (nat \<Rightarrow> string \<Rightarrow> string \<Rightarrow> string + bool) \<Rightarrow> string option \<Rightarrow> time \<Rightarrow> grants_request \<Rightarrow> nat \<Rightarrow> activate_request \<Rightarrow>
     grants_db \<Rightarrow> grants_err + grants_db" where
  "activate_handler env check_code fault now r i req d =
     (if activate_problems req \<noteq> [] then Inl (ErrInvalidRequest (activate_problems req))
      else case require_two_factor (Some (rq_claims r)) of Some e \<Rightarrow> Inl e | None \<Rightarrow>
      case fault of Some e \<Rightarrow> Inl (ErrDatabase e) | None \<Rightarrow>
      case fresh_second_factor check_code d (cl_account (rq_claims r)) (aq_totp req) (aq_recovery req) of Some e \<Rightarrow> Inl e | None \<Rightarrow>
      case own_grant d (cl_account (rq_claims r)) i of Inl e \<Rightarrow> Inl e | Inr g \<Rightarrow>
      case activate_grant env now (activation_length req) (trim_space (aq_reason req)) g (rq_entry r) d of
        Inl e \<Rightarrow> Inl e | Inr (d', _) \<Rightarrow> Inr d')"

definition deactivate_handler ::
  "grants_env \<Rightarrow> string option \<Rightarrow> time \<Rightarrow> grants_request \<Rightarrow> nat \<Rightarrow> grants_db \<Rightarrow> grants_err + grants_db" where
  "deactivate_handler env fault now r i d =
     (case require_two_factor (Some (rq_claims r)) of Some e \<Rightarrow> Inl e | None \<Rightarrow>
      case fault of Some e \<Rightarrow> Inl (ErrDatabase e) | None \<Rightarrow>
      case own_grant d (cl_account (rq_claims r)) i of Inl e \<Rightarrow> Inl e | Inr g \<Rightarrow>
      case deactivate_grant env now g (rq_entry r) d of Inl e \<Rightarrow> Inl e | Inr (d', _) \<Rightarrow> Inr d')"

definition make_eligible_handler ::
  "grants_env \<Rightarrow> (nat \<Rightarrow> string \<Rightarrow> string \<Rightarrow> string + bool) \<Rightarrow> string option \<Rightarrow> time \<Rightarrow> grants_request \<Rightarrow> nat \<Rightarrow> string \<Rightarrow> string \<Rightarrow>
     grants_db \<Rightarrow> grants_err + grants_db" where
  "make_eligible_handler env check_code fault now r i totp recovery d =
     (case require_two_factor (Some (rq_claims r)) of Some e \<Rightarrow> Inl e | None \<Rightarrow>
      case fault of Some e \<Rightarrow> Inl (ErrDatabase e) | None \<Rightarrow>
      case fresh_second_factor check_code d (cl_account (rq_claims r)) totp recovery of Some e \<Rightarrow> Inl e | None \<Rightarrow>
      case own_grant d (cl_account (rq_claims r)) i of Inl e \<Rightarrow> Inl e | Inr g \<Rightarrow> make_eligible env now g (rq_entry r) d)"

section \<open>What a change leaves alone\<close>

lemma write_audit_db: "write_audit env now e d = Inr d' \<Longrightarrow> \<exists>log. d' = d\<lparr>gd_audit := log\<rparr>"
  by (auto simp: write_audit_def split: prod.splits sum.splits)

lemma append_change_db: "append_change env now g e d = Inr d' \<Longrightarrow> \<exists>log. d' = d\<lparr>gd_audit := log\<rparr>"
  unfolding append_change_def by (rule write_audit_db)

lemma append_activation_db: "append_activation env now g a e d = Inr d' \<Longrightarrow> \<exists>log. d' = d\<lparr>gd_audit := log\<rparr>"
  unfolding append_activation_def by (rule append_change_db)

lemmas audit_only = append_change_db append_activation_db

text \<open>Recording what has run out changes activations and the log, nothing else.\<close>

definition same_grants :: "grants_db \<Rightarrow> grants_db \<Rightarrow> bool" where
  "same_grants d d' \<longleftrightarrow>
     gd_roles d' = gd_roles d \<and> gd_capabilities d' = gd_capabilities d \<and> gd_role_caps d' = gd_role_caps d
     \<and> gd_grants d' = gd_grants d \<and> gd_accounts d' = gd_accounts d \<and> gd_credentials d' = gd_credentials d
     \<and> gd_grant_seq d' = gd_grant_seq d \<and> gd_activation_seq d' = gd_activation_seq d"

lemma same_grants_refl: "same_grants d d"
  by (simp add: same_grants_def)

lemma same_grants_trans: "same_grants d d' \<Longrightarrow> same_grants d' d'' \<Longrightarrow> same_grants d d''"
  by (simp add: same_grants_def)

lemma same_grants_audit: "same_grants d d1 \<Longrightarrow> same_grants d (d1\<lparr>gd_audit := log\<rparr>)"
  by (simp add: same_grants_def)

lemma same_grants_end: "same_grants d d1 \<Longrightarrow> same_grants d (end_activation i t d1)"
  by (simp add: same_grants_def end_activation_def)

lemma record_expired_same: "record_expired env now as d = Inr d' \<Longrightarrow> same_grants d d'"
proof (induction env now as d rule: record_expired.induct)
  case (2 env now a as d)
  then show ?case
    by (auto simp: Let_def split: sum.splits dest!: append_activation_db
        intro: same_grants_trans [OF same_grants_audit [OF same_grants_end [OF same_grants_refl]]])
qed (simp add: same_grants_refl)

lemma end_expired_same: "end_expired env g now d = Inr (d', n) \<Longrightarrow> same_grants d d'"
  by (auto simp: end_expired_def Let_def record_expired_same split: sum.splits dest: record_expired_same)

lemma usable_same:
  assumes "gd_capabilities d' = gd_capabilities d" "gd_role_caps d' = gd_role_caps d" "gd_accounts d' = gd_accounts d"
    "gd_credentials d' = gd_credentials d"
  shows "usable_superadmin d' now g \<longleftrightarrow> usable_superadmin d now g"
  using assms by (simp add: usable_superadmin_def role_capabilities_def has_totp_def)

lemma usable_later: "now \<le> t \<Longrightarrow> usable_superadmin d t g \<Longrightarrow> usable_superadmin d now g"
  by (auto simp: usable_superadmin_def intro: unexpired_later)

lemma was_superadmin_usable:
  assumes "distinct (map ac_id (gd_accounts d))"
  shows "usable_superadmin d now g \<Longrightarrow> was_superadmin d now g"
proof -
  assume u: "usable_superadmin d now g"
  then obtain m where m: "m \<in> set (gd_accounts d)" "ac_id m = gr_holder_id g" "ac_active m"
    by (auto simp: usable_superadmin_def list_ex_iff)
  have "ac_active x" if "x \<in> set (gd_accounts d)" "ac_id x = gr_holder_id g" for x
    using that m assms by (metis inj_onD distinct_map)
  then have "ac_active x" if "filter (\<lambda>m. ac_id m = gr_holder_id g) (gd_accounts d) = x # xs" for x xs
    using that by (metis (mono_tags, lifting) filter_eq_ConsD in_set_conv_decomp)
  moreover have "filter (\<lambda>m. ac_id m = gr_holder_id g) (gd_accounts d) \<noteq> []" using m by (auto simp: filter_empty_conv)
  ultimately show ?thesis using u
    by (auto simp: was_superadmin_def usable_superadmin_def split: list.split)
qed

section \<open>Every change there is\<close>

inductive grant_change :: "grants_env \<Rightarrow> time \<Rightarrow> time \<Rightarrow> grants_db \<Rightarrow> grants_db \<Rightarrow> bool"
  for env :: grants_env and now now2 :: time where
  create: "create_grant env override fault now r req d = Inr d' \<Longrightarrow> grant_change env now now2 d d'"
| delete: "delete_grant env override fault now now2 r i d = Inr d' \<Longrightarrow> grant_change env now now2 d d'"
| activate: "activate_handler env check_code fault now r i req d = Inr d' \<Longrightarrow> grant_change env now now2 d d'"
| deactivate: "deactivate_handler env fault now r i d = Inr d' \<Longrightarrow> grant_change env now now2 d d'"
| eligible: "make_eligible_handler env check_code fault now r i totp recovery d = Inr d' \<Longrightarrow> grant_change env now now2 d d'"
| sweep: "end_all_expired env fault now d = (d', n) \<Longrightarrow> grant_change env now now2 d d'"
| defaults: "ensure_defaults env now m d = Inr d' \<Longrightarrow> grant_change env now now2 d d'"

definition keys_ok :: "grants_db \<Rightarrow> bool" where
  "keys_ok d \<longleftrightarrow> distinct (map ac_id (gd_accounts d)) \<and> distinct (map gr_id (gd_grants d))"

text \<open>A change that keeps the rows of every grant, or only adds one.\<close>

definition keeps_grants :: "grants_db \<Rightarrow> grants_db \<Rightarrow> bool" where
  "keeps_grants d d' \<longleftrightarrow>
     gd_capabilities d' = gd_capabilities d \<and> gd_role_caps d' = gd_role_caps d \<and> gd_accounts d' = gd_accounts d
     \<and> gd_credentials d' = gd_credentials d \<and> set (gd_grants d) \<subseteq> set (gd_grants d')"

lemma keeps_refl: "keeps_grants d d"
  by (simp add: keeps_grants_def)

lemma keeps_trans: "keeps_grants d d' \<Longrightarrow> keeps_grants d' d'' \<Longrightarrow> keeps_grants d d''"
  by (auto simp: keeps_grants_def)

lemma keeps_usable:
  "keeps_grants d d' \<Longrightarrow> \<exists>g\<in>set (gd_grants d). usable_superadmin d now g \<Longrightarrow> \<exists>g\<in>set (gd_grants d'). usable_superadmin d' now g"
  using usable_same [of d' d] by (auto simp: keeps_grants_def)

lemma same_keeps: "same_grants d d' \<Longrightarrow> keeps_grants d d'"
  by (simp add: same_grants_def keeps_grants_def)

lemma add_grant_db:
  assumes "add_grant env now g e d = Inr d'"
  shows "\<exists>log. d' = d\<lparr>gd_grants := gd_grants d @ [stored_grant now g d], gd_grant_seq := gd_grant_seq d + 1, gd_audit := log\<rparr>"
  using assms by (auto simp: add_grant_def Let_def split: if_splits dest!: append_change_db)

lemma add_grant_keeps: "add_grant env now g e d = Inr d' \<Longrightarrow> keeps_grants d d'"
  by (auto simp: keeps_grants_def dest!: add_grant_db)

lemma change_add_keeps: "change_add env override now r g d = Inr d' \<Longrightarrow> keeps_grants d d'"
  by (auto simp: change_add_def split: option.splits intro: add_grant_keeps)

lemma create_grant_keeps: "create_grant env override fault now r req d = Inr d' \<Longrightarrow> keeps_grants d d'"
  by (auto simp: create_grant_def Let_def split: option.splits if_splits intro: change_add_keeps)

lemma ensure_own_keeps: "ensure_own env now m role d = Inr d' \<Longrightarrow> keeps_grants d d'"
  by (auto simp: ensure_own_def ensure_system_def keeps_refl split: option.splits sum.splits prod.splits if_splits
      intro: add_grant_keeps)

lemma ensure_defaults_keeps: "ensure_defaults env now m d = Inr d' \<Longrightarrow> keeps_grants d d'"
  by (auto simp: ensure_defaults_def split: sum.splits intro: keeps_trans ensure_own_keeps)

lemma activate_grant_keeps: "activate_grant env now len reason g e d = Inr (d', a) \<Longrightarrow> keeps_grants d d'"
  by (auto simp: activate_grant_def Let_def split: sum.splits prod.splits if_splits
      dest!: append_activation_db end_expired_same same_keeps) (auto simp: keeps_grants_def)

lemma deactivate_grant_keeps: "deactivate_grant env now g e d = Inr (d', a) \<Longrightarrow> keeps_grants d d'"
  by (auto simp: deactivate_grant_def end_activation_def split: sum.splits prod.splits option.splits
      dest!: append_activation_db end_expired_same same_keeps) (auto simp: keeps_grants_def)

lemma activate_handler_keeps: "activate_handler env ck fault now r i req d = Inr d' \<Longrightarrow> keeps_grants d d'"
  by (auto simp: activate_handler_def split: option.splits sum.splits prod.splits if_splits intro: activate_grant_keeps)

lemma deactivate_handler_keeps: "deactivate_handler env fault now r i d = Inr d' \<Longrightarrow> keeps_grants d d'"
  by (auto simp: deactivate_handler_def split: option.splits sum.splits prod.splits if_splits intro: deactivate_grant_keeps)

lemma sweep_keeps: "end_all_expired env fault now d = (d', n) \<Longrightarrow> keeps_grants d d'"
  by (auto simp: end_all_expired_def keeps_refl split: option.splits sum.splits prod.splits if_splits
      dest: end_expired_same intro: same_keeps)

lemmas change_keeps = create_grant_keeps ensure_defaults_keeps activate_handler_keeps deactivate_handler_keeps sweep_keeps

text \<open>The two changes that take something away.\<close>

lemma remove_grant_kept:
  assumes keys: "keys_ok d" and g: "g \<in> set (gd_grants d)" and le: "now \<le> now2"
    and ok: "remove_grant env now now2 g e d = Inr d'" and was: "u \<in> set (gd_grants d)" "usable_superadmin d now2 u"
  shows "\<exists>v\<in>set (gd_grants d'). usable_superadmin d' now v"
proof -
  define d1 where "d1 = d\<lparr>gd_activations := filter (\<lambda>a. av_grant_id a \<noteq> gr_id g) (gd_activations d),
                    gd_grants := filter (\<lambda>r. gr_id r \<noteq> gr_id g) (gd_grants d)\<rparr>"
  have us: "usable_superadmin d1 t x \<longleftrightarrow> usable_superadmin d t x" for t x by (rule usable_same) (simp_all add: d1_def)
  have "filter (usable_superadmin d1 now) (gd_grants d1) \<noteq> [] \<or> \<not> was_superadmin d1 now2 g"
    and d': "\<exists>log. d' = d1\<lparr>gd_audit := log\<rparr>"
    using ok by (auto simp: remove_grant_def Let_def d1_def [symmetric] split: if_splits sum.splits option.splits dest!: audit_only)
  then consider "filter (usable_superadmin d1 now) (gd_grants d1) \<noteq> []" | "\<not> usable_superadmin d now2 g"
    using was_superadmin_usable [of d1 now2 g] keys us by (auto simp: keys_ok_def d1_def)
  then have "\<exists>v\<in>set (gd_grants d1). usable_superadmin d1 now v"
  proof cases
    case 1 then show ?thesis by (auto simp: filter_empty_conv)
  next
    case 2
    then have "u \<noteq> g" using was(2) by auto
    then have "gr_id u \<noteq> gr_id g" using keys g was(1) by (auto simp: keys_ok_def distinct_map dest: inj_onD)
    then have "u \<in> set (gd_grants d1)" using was(1) by (simp add: d1_def)
    then show ?thesis using us usable_later [OF le was(2)] by blast
  qed
  then show ?thesis using d' usable_same [of d' d1] by auto
qed

lemma find_mem: "List.find P xs = Some x \<Longrightarrow> x \<in> set xs \<and> P x"
  by (auto simp: find_Some_iff)

lemma make_eligible_kept:
  assumes keys: "keys_ok d" and g: "g \<in> set (gd_grants d)" and totp: "has_totp d (gr_holder_id g)"
    and ok: "make_eligible env now g e d = Inr d'" and was: "u \<in> set (gd_grants d)" "usable_superadmin d now u"
  shows "\<exists>v\<in>set (gd_grants d'). usable_superadmin d' now v"
proof -
  let ?f = "\<lambda>r. if gr_id r = gr_id g then r\<lparr>gr_mode := grant_eligible\<rparr> else r"
  have d': "\<exists>log. d' = d\<lparr>gd_grants := map ?f (gd_grants d), gd_audit := log\<rparr>"
    using ok by (auto simp: make_eligible_def split: if_splits dest!: append_change_db)
  have "gr_id u = gr_id g \<Longrightarrow> u = g" using keys g was(1) by (auto simp: keys_ok_def distinct_map dest: inj_onD)
  then have "usable_superadmin d now (?f u)" using was(2) totp by (auto simp: usable_superadmin_def unexpired_def)
  then show ?thesis using d' usable_same [of d' d] was(1) by auto
qed

section \<open>Keys and activations\<close>

definition not_past :: "time \<Rightarrow> time option \<Rightarrow> bool" where
  "not_past t expiry \<longleftrightarrow> (case expiry of None \<Rightarrow> True | Some e \<Rightarrow> t \<le> e)"

definition activation_ok :: "grant_row list \<Rightarrow> nat \<Rightarrow> activation_row \<Rightarrow> bool" where
  "activation_ok gs n a \<longleftrightarrow>
     av_expires_at a \<le> av_activated_at a + max_activation \<and> av_grant_id a \<le> n
     \<and> (\<forall>g\<in>set gs. gr_id g = av_grant_id a \<longrightarrow> not_past (av_expires_at a) (gr_expires_at g))"

definition one_open :: "activation_row list \<Rightarrow> bool" where
  "one_open as \<longleftrightarrow> distinct (map av_grant_id (filter (\<lambda>a. av_ended_at a = None) as))"

definition grants_ok :: "grants_db \<Rightarrow> bool" where
  "grants_ok d \<longleftrightarrow>
     keys_ok d \<and> (\<forall>g\<in>set (gd_grants d). gr_id g \<le> gd_grant_seq d)
     \<and> (\<forall>a\<in>set (gd_activations d). activation_ok (gd_grants d) (gd_grant_seq d) a) \<and> one_open (gd_activations d)"

lemma grants_ok_audit [simp]: "grants_ok (d\<lparr>gd_audit := log\<rparr>) = grants_ok d"
  by (simp add: grants_ok_def keys_ok_def)

text \<open>Ending activations keeps every bound, and opens none.\<close>

lemma one_open_map:
  assumes "one_open as" "\<And>a. av_grant_id (f a) = av_grant_id a" "\<And>a. av_ended_at (f a) = None \<Longrightarrow> av_ended_at a = None"
  shows "one_open (map f as)"
  using assms by (induction as) (auto simp: one_open_def split: if_splits)

lemma activation_ok_ended: "activation_ok gs n (a\<lparr>av_ended_at := e\<rparr>) = activation_ok gs n a"
  by (simp add: activation_ok_def)

lemma end_activation_ok: "grants_ok d \<Longrightarrow> grants_ok (end_activation i t d)"
  unfolding grants_ok_def keys_ok_def end_activation_def
  by (auto intro!: one_open_map simp: activation_ok_ended split: if_splits)

lemma record_expired_ok: "record_expired env now as d = Inr d' \<Longrightarrow> grants_ok d \<Longrightarrow> grants_ok d'"
  by (induction env now as d rule: record_expired.induct)
    (auto simp: Let_def end_activation_ok split: sum.splits dest!: append_activation_db)

lemma end_expired_ok: "end_expired env g now d = Inr (d', n) \<Longrightarrow> grants_ok d \<Longrightarrow> grants_ok d'"
  by (auto simp: end_expired_def Let_def split: sum.splits intro: record_expired_ok)

lemma add_grant_ok:
  assumes "add_grant env now g e d = Inr d'" "grants_ok d"
  shows "grants_ok d'"
proof -
  have new: "gr_id (stored_grant now g d) = Suc (gd_grant_seq d)" by (simp add: stored_grant_def)
  have "Suc (gd_grant_seq d) \<notin> gr_id ` set (gd_grants d)" using assms(2) by (force simp: grants_ok_def)
  then show ?thesis using add_grant_db [OF assms(1)] assms(2) new
    by (fastforce simp: grants_ok_def keys_ok_def activation_ok_def)
qed

lemma ensure_own_ok: "ensure_own env now m role d = Inr d' \<Longrightarrow> grants_ok d \<Longrightarrow> grants_ok d'"
  by (auto simp: ensure_own_def ensure_system_def split: option.splits sum.splits prod.splits if_splits intro: add_grant_ok)

lemma create_grant_ok: "create_grant env override fault now r req d = Inr d' \<Longrightarrow> grants_ok d \<Longrightarrow> grants_ok d'"
  by (auto simp: create_grant_def change_add_def Let_def split: option.splits if_splits intro: add_grant_ok)

lemma own_grantD: "own_grant d account i = Inr g \<Longrightarrow> g \<in> set (gd_grants d) \<and> gr_holder_kind g = holder_account \<and> gr_holder_id g = account"
  by (auto simp: own_grant_def grant_by_id_def split: option.splits if_splits dest: find_mem)

lemma activation_length_bounded: "activate_problems req = [] \<Longrightarrow> activation_length req \<le> max_activation"
  by (auto simp: activate_problems_def activation_length_def default_activation_def max_activation_def duration_defs Let_def
      split: option.splits if_splits)

lemma activate_grant_ok:
  assumes ok: "activate_grant env now len reason g e d = Inr (d', a)" and d: "grants_ok d"
    and g: "g \<in> set (gd_grants d)" and len: "len \<le> max_activation"
  shows "grants_ok d'"
proof -
  obtain d1 n where d1: "end_expired env (gr_id g) now d = Inr (d1, n)"
    using ok by (auto simp: activate_grant_def split: sum.splits if_splits)
  have same: "gd_grants d1 = gd_grants d" "gd_grant_seq d1 = gd_grant_seq d" "gd_accounts d1 = gd_accounts d"
    using end_expired_same [OF d1] by (simp_all add: same_grants_def)
  have ok1: "grants_ok d1" using end_expired_ok [OF d1 d] .
  let ?a = "\<lparr>av_id = gd_activation_seq d1 + 1, av_grant_id = gr_id g, av_activated_at = now,
                    av_expires_at = activation_ends now len g, av_reason = reason, av_ended_at = None\<rparr>"
  have closed: "\<not> list_ex (\<lambda>a. av_grant_id a = gr_id g \<and> av_ended_at a = None) (gd_activations d1)"
    and d': "\<exists>log. d' = d1\<lparr>gd_activations := gd_activations d1 @ [?a], gd_activation_seq := gd_activation_seq d1 + 1, gd_audit := log\<rparr>"
    using ok d1 by (auto simp: activate_grant_def Let_def split: sum.splits if_splits dest!: append_activation_db)
  have "x = g" if "x \<in> set (gd_grants d)" "gr_id x = gr_id g" for x
    using that d g by (auto simp: grants_ok_def keys_ok_def distinct_map dest: inj_onD)
  then have "\<forall>x\<in>set (gd_grants d). gr_id x = gr_id g \<longrightarrow> x = g" by blast
  moreover have "not_past (activation_ends now len g) (gr_expires_at g)"
    "activation_ends now len g \<le> now + max_activation"
    using len by (auto simp: activation_ends_def not_past_def split: option.split)
  ultimately have "activation_ok (gd_grants d) (gd_grant_seq d) ?a"
    using g d by (auto simp: activation_ok_def grants_ok_def)
  moreover have "one_open (gd_activations d1 @ [?a])"
    using ok1 closed by (auto simp: one_open_def grants_ok_def list_ex_iff)
  ultimately show ?thesis using d' ok1 same by (auto simp: grants_ok_def keys_ok_def)
qed

lemma activate_handler_ok: "activate_handler env ck fault now r i req d = Inr d' \<Longrightarrow> grants_ok d \<Longrightarrow> grants_ok d'"
  by (auto simp: activate_handler_def split: option.splits sum.splits prod.splits if_splits
      dest!: own_grantD intro: activate_grant_ok activation_length_bounded)

lemma deactivate_handler_ok: "deactivate_handler env fault now r i d = Inr d' \<Longrightarrow> grants_ok d \<Longrightarrow> grants_ok d'"
  by (auto simp: deactivate_handler_def deactivate_grant_def end_activation_ok
      split: option.splits sum.splits prod.splits dest!: append_activation_db end_expired_ok)

lemma one_open_filter: "one_open as \<Longrightarrow> one_open (filter P as)"
  by (induction as) (auto simp: one_open_def split: if_splits)

lemma remove_grant_ok:
  assumes "remove_grant env now now2 g e d = Inr d'" "grants_ok d" shows "grants_ok d'"
proof -
  let ?d1 = "d\<lparr>gd_activations := filter (\<lambda>a. av_grant_id a \<noteq> gr_id g) (gd_activations d),
                gd_grants := filter (\<lambda>r. gr_id r \<noteq> gr_id g) (gd_grants d)\<rparr>"
  have "grants_ok ?d1"
    using assms(2) by (auto simp: grants_ok_def keys_ok_def activation_ok_def distinct_map inj_on_def one_open_filter)
  moreover have "\<exists>log. d' = ?d1\<lparr>gd_audit := log\<rparr>"
    using assms(1) by (auto simp: remove_grant_def Let_def split: if_splits sum.splits option.splits dest!: audit_only)
  ultimately show ?thesis by auto
qed

lemma delete_grant_ok: "delete_grant env override fault now now2 r i d = Inr d' \<Longrightarrow> grants_ok d \<Longrightarrow> grants_ok d'"
  by (auto simp: delete_grant_def change_remove_def split: option.splits intro: remove_grant_ok)

lemma make_eligible_ok:
  assumes "make_eligible env now g e d = Inr d'" "grants_ok d" shows "grants_ok d'"
proof -
  let ?f = "\<lambda>r. if gr_id r = gr_id g then r\<lparr>gr_mode := grant_eligible\<rparr> else r"
  have f: "gr_id (?f r) = gr_id r" "gr_expires_at (?f r) = gr_expires_at r" for r by auto
  have "map gr_id (map ?f (gd_grants d)) = map gr_id (gd_grants d)" by simp
  then have "grants_ok (d\<lparr>gd_grants := map ?f (gd_grants d)\<rparr>)"
    using assms(2) by (auto simp: grants_ok_def keys_ok_def activation_ok_def f simp del: map_map)
  moreover have "\<exists>log. d' = d\<lparr>gd_grants := map ?f (gd_grants d), gd_audit := log\<rparr>"
    using assms(1) by (auto simp: make_eligible_def split: if_splits dest!: append_change_db)
  ultimately show ?thesis by auto
qed

lemma grant_change_ok: "grant_change env now now2 d d' \<Longrightarrow> grants_ok d \<Longrightarrow> grants_ok d'"
proof (induction rule: grant_change.induct)
  case (eligible ck fault r i totp recovery d d')
  then show ?case
    by (auto simp: make_eligible_handler_def split: option.splits sum.splits intro: make_eligible_ok)
next
  case (sweep fault d d' n)
  then show ?case
    by (auto simp: end_all_expired_def split: option.splits sum.splits prod.splits if_splits dest: end_expired_ok)
next
  case (defaults m d d')
  then show ?case by (auto simp: ensure_defaults_def split: sum.splits intro: ensure_own_ok)
qed (auto intro: create_grant_ok delete_grant_ok activate_handler_ok deactivate_handler_ok)

definition grants_start :: "grants_db \<Rightarrow> bool" where
  "grants_start d \<longleftrightarrow> keys_ok d \<and> (\<forall>g\<in>set (gd_grants d). gr_id g \<le> gd_grant_seq d) \<and> gd_activations d = []"

definition grants_step :: "grants_env \<Rightarrow> grants_db \<Rightarrow> grants_db \<Rightarrow> bool" where
  "grants_step env d d' \<longleftrightarrow> (\<exists>now now2. now \<le> now2 \<and> grant_change env now now2 d d')"

interpretation grants_run: invariant_system grants_start "grants_step env" grants_ok for env
proof unfold_locales
  show "grants_start d \<Longrightarrow> grants_ok d" for d by (simp add: grants_start_def grants_ok_def one_open_def)
  show "grants_step env d d' \<Longrightarrow> grants_ok d \<Longrightarrow> grants_ok d'" for d d' using grant_change_ok by (auto simp: grants_step_def)
qed

section \<open>Properties\<close>

text \<open>
  C19: Nobody locks everyone out. In a database reached by the changes there are (granting, removing, switching on
  and off, making eligible, recording expiries, giving a new mailbox its defaults), no change takes away the
  last grant of every capability on the installation: if an active account holds one it can use, active or
  eligible with an authenticator to switch it on, when the change is checked, then one is still held and
  usable once it has committed. \<open>now2\<close> is the second time \<^verbatim>\<open>grants.Remove\<close> reads the clock.\<close>

theorem last_superadmin_kept:
  assumes "reach grants_start (grants_step env) d" "grant_change env now now2 d d'" "now \<le> now2"
    "u \<in> set (gd_grants d)" "usable_superadmin d now2 u"
  shows "\<exists>v\<in>set (gd_grants d'). usable_superadmin d' now v"
proof -
  have keys: "keys_ok d" using grants_run.reach_inv [OF assms(1)] by (simp add: grants_ok_def)
  have ex: "\<exists>g\<in>set (gd_grants d). usable_superadmin d now g" using assms(3-5) usable_later by blast
  show ?thesis using assms(2)
  proof cases
    case (delete override fault r i)
    then obtain g where "g \<in> set (gd_grants d)" "remove_grant env now now2 g (rq_entry r) d = Inr d'"
      by (auto simp: delete_grant_def change_remove_def grant_by_id_def split: option.splits dest: find_mem)
    then show ?thesis using remove_grant_kept [OF keys _ assms(3) _ assms(4,5)] by blast
  next
    case (eligible ck fault r i totp recovery)
    then obtain g where "g \<in> set (gd_grants d)" "has_totp d (gr_holder_id g)" "make_eligible env now g (rq_entry r) d = Inr d'"
      by (auto simp: make_eligible_handler_def fresh_second_factor_def split: option.splits sum.splits if_splits dest!: own_grantD)
    then show ?thesis using make_eligible_kept [OF keys] ex by blast
  qed (auto dest: change_keeps intro: keeps_usable [OF _ ex])
qed

definition sample_grants_env :: grants_env where
  "sample_grants_env = \<lparr>ge_audit = sample_audit, ge_rfc3339 = int_dec\<rparr>"

text \<open>A superadmin's session, two minutes after its second factor.\<close>

definition sample_session :: "nat \<Rightarrow> grants_request" where
  "sample_session account =
     \<lparr>rq_claims = \<lparr>cl_account = account, cl_credential_id = 0, cl_credential_kind = [], cl_two_factor = True,
        cl_amr = [''pwd'', ''otp''], cl_auth_time = Some 0\<rparr>, rq_entry = sign_in, rq_window = None\<rparr>"

lemma first_change_written:
  assumes "gd_audit d = []"
  shows "\<exists>log. append_change env now g e d = Inr (d\<lparr>gd_audit := log\<rparr>)"
  using assms by (auto simp: append_change_def write_audit_def append_entry_def last_entry_def Let_def)

definition without_grant :: "nat \<Rightarrow> grants_db \<Rightarrow> grants_db" where
  "without_grant i d =
     d\<lparr>gd_activations := filter (\<lambda>a. av_grant_id a \<noteq> i) (gd_activations d), gd_grants := filter (\<lambda>r. gr_id r \<noteq> i) (gd_grants d)\<rparr>"

lemma sample_deleted:
  "\<exists>log. delete_grant sample_grants_env None None (2 * minute) (2 * minute) (sample_session 1) 3 sample_grants =
     Inr (without_grant 3 sample_grants\<lparr>gd_audit := log\<rparr>)"
proof -
  let ?g = "account_grant 3 2 2 ''domain:a.example''"
  have log0: "gd_audit (without_grant 3 sample_grants) = []" by (simp add: without_grant_def sample_grants_def)
  have "require_two_factor (Some (rq_claims (sample_session 1))) = None" "grant_by_id sample_grants 3 = Some ?g"
    "authorize_change None sample_grants (2 * minute) 1 2 ''domain:a.example'' = None"
    "gr_holder_kind ?g = holder_server \<longleftrightarrow> False" "live_activation sample_grants (2 * minute) 3 = None"
    "was_superadmin (without_grant 3 sample_grants) (2 * minute) ?g \<longleftrightarrow> False"
    by code_simp+
  moreover have "cl_account (rq_claims (sample_session 1)) = 1" "gr_id ?g = 3" "gr_role_id ?g = 2" "gr_scope ?g = ''domain:a.example''"
    by (simp_all add: sample_session_def account_grant_def)
  moreover obtain log where "append_change sample_grants_env (2 * minute) ?g (rq_entry (sample_session 1)\<lparr>ae_action := ''grants.delete''\<rparr>)
      (without_grant 3 sample_grants) = Inr (without_grant 3 sample_grants\<lparr>gd_audit := log\<rparr>)"
    using first_change_written [OF log0] by blast
  ultimately show ?thesis
    by (intro exI [of _ log]) (simp add: delete_grant_def change_remove_def remove_grant_def without_grant_def [symmetric])
qed

lemma sample_grants_start: "reach grants_start (grants_step env) sample_grants"
  by (rule reach_start) code_simp

theorem last_superadmin_kept_witness:
  "\<exists>d'. grant_change sample_grants_env (2 * minute) (2 * minute) sample_grants d' \<and> length (gd_grants d') = 3
     \<and> (\<exists>v\<in>set (gd_grants d'). usable_superadmin d' (2 * minute) v)"
proof -
  obtain log where del: "delete_grant sample_grants_env None None (2 * minute) (2 * minute) (sample_session 1) 3 sample_grants =
     Inr (without_grant 3 sample_grants\<lparr>gd_audit := log\<rparr>)" (is "_ = Inr ?d") using sample_deleted by blast
  then have step: "grant_change sample_grants_env (2 * minute) (2 * minute) sample_grants ?d" by (rule delete)
  have "hd (gd_grants sample_grants) \<in> set (gd_grants sample_grants)" by (simp add: sample_grants_def)
  moreover have "usable_superadmin sample_grants (2 * minute) (hd (gd_grants sample_grants))" by code_simp
  ultimately have "\<exists>v\<in>set (gd_grants ?d). usable_superadmin ?d (2 * minute) v"
    by (rule last_superadmin_kept [OF sample_grants_start step order_refl])
  moreover have "length (gd_grants (without_grant 3 sample_grants)) = 3" by code_simp
  then have "length (gd_grants ?d) = 3" by simp
  ultimately show ?thesis using step by blast
qed

text \<open>What an account holds by its own grants, before the accounts it owns and its owners count.\<close>

definition direct_held :: "grants_db \<Rightarrow> time \<Rightarrow> nat \<Rightarrow> held" where
  "direct_held d t j = map (\<lambda>r. \<lparr>en_scope = hr_scope r, en_capability = hr_capability r\<rparr>) (account_rows d t j)"

lemma role_capabilities_cong:
  assumes "gd_capabilities d' = gd_capabilities d" "gd_role_caps d' = gd_role_caps d"
  shows "role_capabilities d' = role_capabilities d"
  unfolding role_capabilities_def fun_eq_iff assms by (intro allI refl)

lemma live_join_cong: "gd_activations d' = gd_activations d \<Longrightarrow> live_join d' t = live_join d t"
  by (auto simp: live_join_def)

lemma direct_held_added:
  assumes "d' = d\<lparr>gd_grants := gd_grants d @ [g], gd_grant_seq := n, gd_audit := log\<rparr>"
    "allows (direct_held d' t j) c target" "\<not> allows (direct_held d t j) c target"
  shows "gr_holder_id g = j \<and> (\<exists>k\<in>set (role_capabilities d (gr_role_id g)).
    (k = wildcard \<or> k = c) \<and> covers (gr_scope g) target)"
proof -
  let ?w = "\<lambda>g (_::role_row). gr_holder_kind g = holder_account \<and> gr_holder_id g = j"
  have eq: "live_join d' t = live_join d t" "role_capabilities d' = role_capabilities d" "gd_roles d' = gd_roles d"
    by (rule live_join_cong role_capabilities_cong; simp add: assms(1))+ (simp add: assms(1))
  have same: "one_grant_rows d' t ?w x = one_grant_rows d t ?w x" for x
    unfolding one_grant_rows_def eq by (rule refl)
  have "set (account_rows d' t j) = set (account_rows d t j) \<union> set (one_grant_rows d t ?w g)"
    by (simp add: account_rows_def grant_rows_concat same) (auto simp: assms(1))
  then obtain row where "row \<in> set (one_grant_rows d t ?w g)" "hr_capability row = wildcard \<or> hr_capability row = c"
    "covers (hr_scope row) target"
    using assms(2,3) by (auto simp: direct_held_def allows_iff entry_allows_def)
  then show ?thesis by (auto simp: set_one_grant_rows)
qed


definition sample_create :: create_request where
  "sample_create =
     \<lparr>cr_holder = Some (holder_account, 3), cr_role = ''admin'', cr_scope = '' Domain:A.example'', cr_mode = [], cr_expires_at = None\<rparr>"

definition sample_new_grant :: grant_row where
  "sample_new_grant =
     (account_grant 0 3 2 ''domain:a.example'')\<lparr>gr_granted_by_kind := audit_actor_account, gr_granted_by_id := Some 2,
        gr_granted_at := zero_time\<rparr>"

definition sample_granted :: grants_db where
  "sample_granted = sample_grants\<lparr>gd_grants := gd_grants sample_grants @ [stored_grant (2 * minute) sample_new_grant sample_grants],
     gd_grant_seq := 5\<rparr>"

lemma sample_created:
  "\<exists>log. create_grant sample_grants_env None None (2 * minute) (sample_session 2) sample_create sample_grants =
     Inr (sample_granted\<lparr>gd_audit := log\<rparr>)"
proof -
  let ?r = "sample_session 2"
  have log0: "gd_audit sample_granted = []" by (simp add: sample_granted_def sample_grants_def)
  have "create_problems (2 * minute) sample_create = []" "list_ex (\<lambda>m. ac_id m = 3) (gd_accounts sample_grants)"
    "List.find (\<lambda>x. ro_name x = cr_role sample_create) (gd_roles sample_grants) = Some \<lparr>ro_id = 2, ro_name = ''admin''\<rparr>"
    "parse_scope (cr_scope sample_create) = Inr ''domain:a.example''" "cr_mode sample_create = []"
    "require_two_factor (Some (rq_claims ?r)) = None" "require_fresh_two_factor (rq_window ?r) (2 * minute) (Some (rq_claims ?r)) = None"
    "authorize_change None sample_grants (2 * minute) 2 2 ''domain:a.example'' = None"
    "holder_account = holder_server \<longleftrightarrow> False" "list_ex (\<lambda>r. ro_id r = 2 \<and> ro_name r = role_server) (gd_roles sample_grants) \<longleftrightarrow> False"
    "list_ex (same_grant sample_new_grant) (gd_grants sample_grants) \<longleftrightarrow> False"
    by code_simp+
  moreover have "cl_account (rq_claims ?r) = 2" "cr_holder sample_create = Some (holder_account, 3)" "cr_expires_at sample_create = None"
    "gd_grant_seq sample_grants = 4"
    by (simp_all add: sample_session_def sample_create_def sample_grants_def)
  moreover have "\<lparr>gr_id = 0, gr_holder_kind = holder_account, gr_holder_id = 3, gr_role_id = 2, gr_scope = ''domain:a.example'',
      gr_mode = grant_active, gr_granted_by_kind = audit_actor_account, gr_granted_by_id = Some 2, gr_granted_at = zero_time,
      gr_expires_at = None\<rparr> = sample_new_grant"
    by (simp add: sample_new_grant_def account_grant_def)
  moreover obtain log where "append_change sample_grants_env (2 * minute) (stored_grant (2 * minute) sample_new_grant sample_grants)
      (rq_entry ?r\<lparr>ae_action := ''grants.create''\<rparr>) sample_granted = Inr (sample_granted\<lparr>gd_audit := log\<rparr>)"
    using first_change_written [OF log0] by blast
  moreover have "gr_role_id sample_new_grant = 2" "gr_holder_kind sample_new_grant = holder_account"
    by (simp_all add: sample_new_grant_def account_grant_def)
  ultimately show ?thesis
    by (intro exI [of _ log]) (simp add: create_grant_def change_add_def add_grant_def sample_granted_def [symmetric])
qed

lemma direct_held_audit [simp]: "direct_held (d\<lparr>gd_audit := log\<rparr>) t j = direct_held d t j"
proof -
  have eq: "live_join (d\<lparr>gd_audit := log\<rparr>) t = live_join d t" "role_capabilities (d\<lparr>gd_audit := log\<rparr>) = role_capabilities d"
    "gd_roles (d\<lparr>gd_audit := log\<rparr>) = gd_roles d" "gd_grants (d\<lparr>gd_audit := log\<rparr>) = gd_grants d"
    by (rule live_join_cong role_capabilities_cong; simp)+ simp_all
  show ?thesis unfolding direct_held_def account_rows_def grant_rows_def eq by (rule refl)
qed


text \<open>
  Escalation is limited. In every database the changes reach, an activation ends within four hours of being
  switched on and not after the expiry of the grant it switches on, and no grant has two activations that
  have not ended.\<close>

theorem activations_bounded:
  assumes "reach grants_start (grants_step env) d" "a \<in> set (gd_activations d)"
  shows "av_expires_at a \<le> av_activated_at a + 240 * minute
    \<and> (\<forall>g. g \<in> set (gd_grants d) \<and> gr_id g = av_grant_id a \<longrightarrow> not_past (av_expires_at a) (gr_expires_at g))
    \<and> distinct (map av_grant_id (filter (\<lambda>a. av_ended_at a = None) (gd_activations d)))"
  using grants_run.reach_inv [OF assms(1)] assms(2)
  by (auto simp: grants_ok_def activation_ok_def one_open_def max_activation_def)

definition sample_eligible :: grants_db where
  "sample_eligible = sample_grants\<lparr>
     gd_grants := map (\<lambda>g. if gr_id g = 3 then g\<lparr>gr_mode := grant_eligible, gr_expires_at := Some hour\<rparr> else g) (gd_grants sample_grants),
     gd_credentials := [\<lparr>cd_account_id = 2, cd_kind = credential_totp, cd_confirmed_at = Some 0, cd_revoked_at = None\<rparr>]\<rparr>"

definition sample_activate :: activate_request where
  "sample_activate = \<lparr>aq_reason = ''migration'', aq_minutes = Some 90, aq_totp = ''123456'', aq_recovery = []\<rparr>"

definition sample_activation :: activation_row where
  "sample_activation = \<lparr>av_id = 1, av_grant_id = 3, av_activated_at = 2 * minute, av_expires_at = hour, av_reason = ''migration'', av_ended_at = None\<rparr>"

definition sample_activated :: grants_db where
  "sample_activated = sample_eligible\<lparr>gd_activations := gd_activations sample_eligible @ [sample_activation], gd_activation_seq := 1\<rparr>"

lemma sample_switched_on:
  "\<exists>log. activate_handler sample_grants_env (\<lambda>_ _ _. Inr True) None (2 * minute) (sample_session 2) 3 sample_activate sample_eligible =
     Inr (sample_activated\<lparr>gd_audit := log\<rparr>)"
proof -
  let ?r = "sample_session 2" and ?g = "(account_grant 3 2 2 ''domain:a.example'')\<lparr>gr_mode := grant_eligible, gr_expires_at := Some hour\<rparr>"
  have "activate_problems sample_activate = []" "require_two_factor (Some (rq_claims ?r)) = None"
    "fresh_second_factor (\<lambda>_ _ _. Inr True) sample_eligible 2 (aq_totp sample_activate) (aq_recovery sample_activate) = None"
    "own_grant sample_eligible 2 3 = Inr ?g" "unexpired (2 * minute) ?g" "filter (run_out 3 (2 * minute)) (gd_activations sample_eligible) = []"
    "live_activation sample_eligible (2 * minute) 3 = None"
    "activation_ends (2 * minute) (activation_length sample_activate) ?g = hour" "trim_space (aq_reason sample_activate) = ''migration''"
    "gd_activations sample_eligible = []" "gd_activation_seq sample_eligible = 0"
    by code_simp+
  moreover have "cl_account (rq_claims ?r) = 2" "gr_mode ?g = grant_eligible" "gr_id ?g = 3"
    by (simp_all add: sample_session_def account_grant_def)
  moreover have "\<lparr>av_id = Suc 0, av_grant_id = 3, av_activated_at = 2 * minute, av_expires_at = hour, av_reason = ''migration'', av_ended_at = None\<rparr> = sample_activation"
    "sample_eligible\<lparr>gd_activations := [sample_activation], gd_activation_seq := Suc 0\<rparr> = sample_activated"
    by (simp_all add: sample_activation_def sample_activated_def sample_eligible_def sample_grants_def)
  moreover have "gd_audit sample_activated = []" by (simp add: sample_activated_def sample_eligible_def sample_grants_def)
  note written = first_change_written [OF this]
  obtain log where "append_activation sample_grants_env (2 * minute) ?g sample_activation
      (rq_entry ?r\<lparr>ae_action := ''grants.activate''\<rparr>) sample_activated = Inr (sample_activated\<lparr>gd_audit := log\<rparr>)"
    unfolding append_activation_def using written by blast
  ultimately show ?thesis
    by (intro exI [of _ log]) (simp add: activate_handler_def activate_grant_def end_expired_def)
qed

theorem activations_bounded_witness:
  "\<exists>d. reach grants_start (grants_step sample_grants_env) d \<and> sample_activation \<in> set (gd_activations d)
     \<and> av_expires_at sample_activation \<le> av_activated_at sample_activation + 240 * minute"
proof -
  obtain log where on: "activate_handler sample_grants_env (\<lambda>_ _ _. Inr True) None (2 * minute) (sample_session 2) 3 sample_activate
      sample_eligible = Inr (sample_activated\<lparr>gd_audit := log\<rparr>)" using sample_switched_on by blast
  have "grants_start sample_eligible" by code_simp
  then have "reach grants_start (grants_step sample_grants_env) sample_eligible" by (rule reach_start)
  moreover have "grants_step sample_grants_env sample_eligible (sample_activated\<lparr>gd_audit := log\<rparr>)"
    unfolding grants_step_def using activate [OF on, of "2 * minute"] by blast
  ultimately have r: "reach grants_start (grants_step sample_grants_env) (sample_activated\<lparr>gd_audit := log\<rparr>)" by (rule reach_step)
  have a: "sample_activation \<in> set (gd_activations (sample_activated\<lparr>gd_audit := log\<rparr>))" by (simp add: sample_activated_def)
  show ?thesis using r a activations_bounded [OF r a] by blast
qed

end
