(* ===== verification/Smtp_Session.thy ===== *)
theory Smtp_Session
  imports Srs Conn_Limiter Rate_Limits Grants_Load "HOL-Library.Sublist"
begin

text \<open>
  The SMTP server's side of a connection, \<^verbatim>\<open>internal/gateway/smtp\<close>: the session go-smtp drives (\<^verbatim>\<open>session.go\<close>), the
  checks of internationalised mail (\<^verbatim>\<open>smtputf8.go\<close>), the tarpit (\<^verbatim>\<open>tarpit.go\<close>), the helpers of \<^verbatim>\<open>util.go\<close> and
  \<^verbatim>\<open>received.go\<close>, and what the store reads of the grants (\<^verbatim>\<open>dbstore.go\<close>). Parsing commands, SASL framing and the
  dot-stuffed body are go-smtp's. The REST API answers through \<open>api_error\<close> or a value; the MIME parser, the
  spool file and the outbound transforms are arguments: what they say of the message, less the fields a delivery only copies
  from the parser (names, subject, threading, bodies), is in \<open>spooled\<close> and
  \<open>data_answers\<close>. Answers to the calls made for one recipient are indexed by its position.
\<close>

section \<open>Replies\<close>

record smtp_refusal =
  rf_code :: nat
  rf_enhanced :: "nat \<times> nat \<times> nat"
  rf_message :: string

definition smtp_reply :: "nat \<Rightarrow> nat \<times> nat \<times> nat \<Rightarrow> string \<Rightarrow> smtp_refusal" where
  "smtp_reply code enhanced msg = \<lparr>rf_code = code, rf_enhanced = enhanced, rf_message = msg\<rparr>"

definition message_disk_failure :: smtp_refusal where
  "message_disk_failure = smtp_reply 451 (4, 3, 0) ''Error reading message data''"

definition temporary_failure :: smtp_refusal where
  "temporary_failure = smtp_reply 451 (4, 3, 0) ''Temporary service failure''"

definition no_such_user :: smtp_refusal where
  "no_such_user = smtp_reply 550 (5, 1, 1) ''No such user''"

section \<open>Internationalised mail\<close>

definition smtp_contains_non_ascii :: "string \<Rightarrow> bool" where
  "smtp_contains_non_ascii s \<longleftrightarrow> list_ex (\<lambda>c. 128 \<le> bcode c) s"

definition validate_utf8_address :: "string \<Rightarrow> bool \<Rightarrow> nat \<Rightarrow> smtp_refusal option" where
  "validate_utf8_address address enabled code =
     (if \<not> valid_utf8 address then Some (smtp_reply code (5, 1, 3) ''Invalid UTF-8 in envelope address'')
      else if \<not> enabled \<and> smtp_contains_non_ascii address
      then Some (smtp_reply code (5, 6, 7) ''Internationalized envelope address requires SMTPUTF8'')
      else None)"

text \<open>The header block, rune by rune: whether a byte of it is no UTF-8, and whether a rune of it is not ASCII.\<close>

definition blank_line :: "string \<Rightarrow> bool" where
  "blank_line s \<longleftrightarrow> has_prefix s [CHR 0x0A] \<or> has_prefix s [CHR 0x0D, CHR 0x0A]"

function header_scan :: "bool \<Rightarrow> string \<Rightarrow> bool \<times> bool" where
  "header_scan line_start [] = (False, False)"
| "header_scan line_start (c # cs) =
     (if line_start \<and> blank_line (c # cs) then (False, False)
      else case decode_rune (c # cs) of
        None \<Rightarrow> (let (invalid, non_ascii) = header_scan False cs in (True, True))
      | Some (r, n) \<Rightarrow>
          (let (invalid, non_ascii) = header_scan (r = 10) (drop (n - 1) cs) in (invalid, 128 \<le> r \<or> non_ascii)))"
  by pat_completeness auto
termination by (relation "measure (\<lambda>(_, s). length s)") auto

definition validate_utf8_headers :: "bool \<Rightarrow> string \<Rightarrow> bool \<Rightarrow> smtp_refusal option" where
  "validate_utf8_headers readable message enabled =
     (if \<not> readable then Some message_disk_failure
      else case header_scan True message of (invalid, non_ascii) \<Rightarrow>
        if invalid then Some (smtp_reply 550 (5, 6, 0) ''Invalid UTF-8 in message headers'')
        else if \<not> enabled \<and> non_ascii then Some (smtp_reply 554 (5, 6, 9) ''Internationalized message headers require SMTPUTF8'')
        else None)"

section \<open>The tarpit\<close>

record tarpit_policy =
  tp_enabled :: bool
  tp_base :: duration
  tp_soft_limit :: int
  tp_max :: duration

definition default_tarpit_policy :: tarpit_policy where
  "default_tarpit_policy = \<lparr>tp_enabled = True, tp_base = second, tp_soft_limit = 2, tp_max = 15 * second\<rparr>"

definition tarpit_delay :: "int \<Rightarrow> int \<Rightarrow> duration \<Rightarrow> duration \<Rightarrow> duration" where
  "tarpit_delay errs soft base cap =
     (if base \<le> 0 \<or> cap \<le> 0 then 0
      else if errs \<le> soft then 0
      else let over = int64 (errs - soft); steps = cap div base
           in if steps \<le> 0 \<or> steps < over then cap else int64 (base * over))"

definition delay_for :: "tarpit_policy \<Rightarrow> int \<Rightarrow> duration" where
  "delay_for p errs = (if \<not> tp_enabled p then 0 else tarpit_delay errs (tp_soft_limit p) (tp_base p) (tp_max p))"

section \<open>Helpers\<close>

definition first_rune :: "string \<Rightarrow> string" where
  "first_rune s = (case runes s of [] \<Rightarrow> [] | r # _ \<Rightarrow> encode_rune r)"

definition mask_email :: "string \<Rightarrow> string" where
  "mask_email addr0 =
     (let addr = trim_space addr0 in
      if addr = [] then []
      else case last_index_byte addr (CHR ''@'') of
        Some at \<Rightarrow> if at = 0 then first_rune addr @ ''***'' else first_rune (take at addr) @ ''***'' @ drop at addr
      | None \<Rightarrow> first_rune addr @ ''***'')"

definition split_host_port :: "string \<Rightarrow> string \<times> string" where
  "split_host_port addr =
     (if has_prefix addr ''['' then
        (case index_byte addr (CHR '']'') of
           None \<Rightarrow> (addr, [])
         | Some e \<Rightarrow>
             (let host = take (e - 1) (drop 1 addr)
              in if e + 1 < length addr \<and> addr ! (e + 1) = CHR '':'' then (host, drop (e + 2) addr) else (host, [])))
      else case last_index_byte addr (CHR '':'') of
        None \<Rightarrow> (addr, [])
      | Some i \<Rightarrow> (take i addr, drop (i + 1) addr))"

definition extract_ip :: "string \<Rightarrow> string" where
  "extract_ip addr = fst (split_host_port addr)"

definition received_with :: "bool \<Rightarrow> bool \<Rightarrow> bool \<Rightarrow> string" where
  "received_with tls authenticated utf8 =
     (if utf8 then ''UTF8SMTP'' else ''ESMTP'') @ (if tls then ''S'' else []) @ (if authenticated then ''A'' else [])"

definition single_recipient :: "string list \<Rightarrow> string" where
  "single_recipient rcpts = (case rcpts of [r] \<Rightarrow> r | _ \<Rightarrow> [])"

section \<open>The session\<close>

text \<open>The TLS state of a connection is its protocol version and the name of its cipher suite; STARTTLS begins a new session.\<close>

record smtp_session =
  sm_submission :: bool
  sm_tls :: bool
  sm_tls_version :: nat
  sm_tls_cipher :: string
  sm_remote :: string
  sm_helo :: string
  sm_authenticated :: bool
  sm_auth_email :: string
  sm_account_id :: nat
  sm_api_session :: string
  sm_credential_id :: nat
  sm_credential_kind :: string
  sm_mail_from :: string
  sm_rcpt_to :: "string list"
  sm_srs_relays :: "(string \<times> string) list"
  sm_body_type :: string
  sm_utf8 :: bool
  sm_require_tls :: bool
  sm_tx_start :: "time option"
  sm_tarpit_n :: int

record session_config =
  xc_hostname :: string
  xc_signer :: "signer option"
  xc_mac :: "string \<Rightarrow> string \<Rightarrow> nat list"
  xc_bounce_max :: int
  xc_window :: duration
  xc_tarpit :: tarpit_policy
  xc_max_received :: nat
  xc_rfc5322 :: "time \<Rightarrow> string"

definition new_session :: "bool \<Rightarrow> (nat \<times> string) option \<Rightarrow> string \<Rightarrow> string \<Rightarrow> smtp_session" where
  "new_session submission tls remote helo =
     \<lparr>sm_submission = submission, sm_tls = (tls \<noteq> None), sm_tls_version = (case tls of None \<Rightarrow> 0 | Some (v, _) \<Rightarrow> v),
      sm_tls_cipher = (case tls of None \<Rightarrow> [] | Some (_, c) \<Rightarrow> c), sm_remote = remote, sm_helo = helo, sm_authenticated = False,
      sm_auth_email = [], sm_account_id = 0, sm_api_session = [], sm_credential_id = 0, sm_credential_kind = [],
      sm_mail_from = [], sm_rcpt_to = [], sm_srs_relays = [], sm_body_type = [], sm_utf8 = False, sm_require_tls = False,
      sm_tx_start = None, sm_tarpit_n = 0\<rparr>"

definition end_transaction :: "smtp_session \<Rightarrow> smtp_session" where
  "end_transaction s = s\<lparr>sm_tx_start := None\<rparr>"

text \<open>A rejection counts, and is answered after a delay; the delay is the second component.\<close>

definition tarpit_reject :: "session_config \<Rightarrow> smtp_session \<Rightarrow> smtp_session \<times> duration" where
  "tarpit_reject cfg s = (s\<lparr>sm_tarpit_n := sm_tarpit_n s + 1\<rparr>, delay_for (xc_tarpit cfg) (sm_tarpit_n s + 1))"

definition close_api_session :: "smtp_session \<Rightarrow> smtp_session" where
  "close_api_session s = s\<lparr>sm_api_session := []\<rparr>"

definition smtp_reset :: "smtp_session \<Rightarrow> smtp_session" where
  "smtp_reset s =
     (end_transaction s)\<lparr>sm_mail_from := [], sm_rcpt_to := [], sm_srs_relays := [], sm_body_type := [], sm_utf8 := False,
        sm_require_tls := False\<rparr>"

definition smtp_logout :: "smtp_session \<Rightarrow> smtp_session" where
  "smtp_logout s = close_api_session (end_transaction s)"

section \<open>Signing in\<close>

datatype api_error = ApiError (ap_status: nat) (ap_code: string) (ap_message: string) | OtherError string

record session_opened =
  so_account :: nat
  so_credential_id :: nat
  so_credential_kind :: string
  so_token :: string

definition is_auth_rejection :: "api_error \<Rightarrow> bool" where
  "is_auth_rejection e =
     (case e of ApiError status code _ \<Rightarrow> code \<noteq> ''access_restricted'' \<and> (status = 401 \<or> status = 403) | OtherError _ \<Rightarrow> False)"

definition too_many_auth_failures :: smtp_refusal where
  "too_many_auth_failures = smtp_reply 421 (4, 7, 0) ''Too many authentication failures''"

definition login_banned :: "limiter \<Rightarrow> bool \<Rightarrow> string \<Rightarrow> string \<Rightarrow> time \<Rightarrow> limiter \<times> bool" where
  "login_banned l db_banned ip user now =
     (case is_banned l db_banned ip now of (l1, True) \<Rightarrow> (l1, True) | (l1, False) \<Rightarrow> is_user_banned l1 user now)"

text \<open>
  \<open>open_session\<close> is the API's answer to a user and a password; \<open>None\<close> in the last component of the result says it was never
  asked. \<open>db_banned\<close> is what the ban table says of the client, before and after.
\<close>

definition smtp_login ::
  "session_config \<Rightarrow> (string \<Rightarrow> string \<Rightarrow> api_error + session_opened) \<Rightarrow> bool \<times> bool \<Rightarrow> time \<Rightarrow> string \<Rightarrow> string \<Rightarrow>
     limiter \<Rightarrow> smtp_session \<Rightarrow> limiter \<times> smtp_session \<times> smtp_refusal option \<times> (string \<times> string) option" where
  "smtp_login cfg open_session db_banned now user password l s =
     (let ip = extract_ip (sm_remote s) in
      case login_banned l (fst db_banned) ip user now of
        (l1, True) \<Rightarrow> (l1, fst (tarpit_reject cfg s), Some too_many_auth_failures, None)
      | (l1, False) \<Rightarrow>
          (case open_session user password of
             Inl e \<Rightarrow>
               if \<not> is_auth_rejection e
               then (l1, s, Some (smtp_reply 454 (4, 7, 0) ''Temporary authentication failure, try again later''), Some (user, password))
               else
                 (let l2 = record_auth_fail_user (record_auth_fail l1 ip now) user now; s1 = fst (tarpit_reject cfg s)
                  in case login_banned l2 (snd db_banned) ip user now of
                       (l3, b) \<Rightarrow> (l3, s1, Some (if b then too_many_auth_failures else smtp_reply 535 (5, 7, 8) ''Authentication failed''),
                                   Some (user, password)))
           | Inr r \<Rightarrow>
               (reset_auth_user (reset_auth l1 ip) user,
                (close_api_session s)\<lparr>sm_authenticated := True, sm_auth_email := user, sm_account_id := so_account r,
                  sm_credential_id := so_credential_id r, sm_credential_kind := so_credential_kind r, sm_api_session := so_token r\<rparr>,
                None, Some (user, password))))"

definition auth_mechanisms :: "smtp_session \<Rightarrow> string list" where
  "auth_mechanisms s = (if sm_submission s then [''PLAIN'', ''LOGIN''] else [])"

text \<open>The server of the LOGIN mechanism: what it asks next, or the user and password it has been given.\<close>

record login_sasl =
  ls_username :: string
  ls_started :: bool
  ls_got_username :: bool

definition login_sasl_next :: "string option \<Rightarrow> login_sasl \<Rightarrow> login_sasl \<times> (string + string \<times> string)" where
  "login_sasl_next response l =
     (if \<not> ls_started l \<and> response = None then (l\<lparr>ls_started := True\<rparr>, Inl ''Username:'')
      else let r = (case response of None \<Rightarrow> [] | Some r \<Rightarrow> r); l1 = l\<lparr>ls_started := True\<rparr>
           in if \<not> ls_got_username l1 then (l1\<lparr>ls_username := r, ls_got_username := True\<rparr>, Inl ''Password:'')
              else (l1, Inr (ls_username l1, r)))"

definition plain_identity :: "string \<Rightarrow> string \<Rightarrow> smtp_refusal option" where
  "plain_identity identity user =
     (if identity \<noteq> [] \<and> identity \<noteq> user then Some (smtp_reply 535 (5, 7, 8) ''Authentication failed'') else None)"

definition rate_limit_key :: "smtp_session \<Rightarrow> string" where
  "rate_limit_key s = (if sm_account_id s \<noteq> 0 then ''acct:'' @ nat_dec (sm_account_id s) else ''user:'' @ sm_auth_email s)"

section \<open>Who may send as whom\<close>

text \<open>The store's answers, one reading of the database.\<close>

record sender_store =
  sr_matches :: "nat \<Rightarrow> string \<Rightarrow> string + bool"
  sr_authorized :: "nat \<Rightarrow> string \<Rightarrow> string + bool"
  sr_may_send :: "nat \<Rightarrow> string + bool"
  sr_credential_usable :: "nat \<Rightarrow> string + bool"
  sr_policy :: "string \<Rightarrow> string + string"
  sr_hosted :: "string \<Rightarrow> string + bool"

definition cap_mail_send :: string where "cap_mail_send = ''mail:send''"

text \<open>
  The production store over the grants tables. \<open>find_mailbox\<close> resolves an address to its account
  (\<^verbatim>\<open>repositories.FindMailboxByAddress\<close>): an error, none, or the account.
\<close>

definition sender_matches_account ::
  "(string \<Rightarrow> string + account_row option) \<Rightarrow> nat \<Rightarrow> string \<Rightarrow> string + bool" where
  "sender_matches_account find_mailbox account addr =
     (case find_mailbox addr of Inl e \<Rightarrow> Inl e | Inr None \<Rightarrow> Inr False | Inr (Some m) \<Rightarrow> Inr (ac_id m = account))"

definition sender_authorized ::
  "(string \<Rightarrow> string + account_row option) \<Rightarrow> held option \<Rightarrow> string option \<Rightarrow> grants_db \<Rightarrow> time \<Rightarrow> nat \<Rightarrow> string \<Rightarrow> string + bool" where
  "sender_authorized find_mailbox override fault d now account addr =
     (case find_mailbox addr of Inl e \<Rightarrow> Inl e | Inr None \<Rightarrow> Inr False | Inr (Some m) \<Rightarrow>
      case load_held override fault d now account of
        Inl e \<Rightarrow> Inl e
      | Inr h \<Rightarrow> Inr (allows h cap_mail_send (scope_of_mailbox (ac_address m))))"

definition account_may_send :: "held option \<Rightarrow> string option \<Rightarrow> grants_db \<Rightarrow> time \<Rightarrow> nat \<Rightarrow> string + bool" where
  "account_may_send override fault d now account =
     (case fault of Some e \<Rightarrow> Inl e | None \<Rightarrow>
      case own_account d account of [] \<Rightarrow> Inr False | m # _ \<Rightarrow>
      case load_held override fault d now account of
        Inl e \<Rightarrow> Inl e
      | Inr h \<Rightarrow> Inr (allows h cap_mail_send (scope_of_mailbox (ac_address m))))"

definition may_send_as :: "sender_store \<Rightarrow> smtp_session \<Rightarrow> string \<Rightarrow> string + bool" where
  "may_send_as st s addr =
     (case (if addr = sm_auth_email s then Inr True else sr_matches st (sm_account_id s) addr) of
        Inl e \<Rightarrow> Inl e
      | Inr True \<Rightarrow> sr_may_send st (sm_account_id s)
      | Inr False \<Rightarrow>
          if sm_credential_kind s \<noteq> ''password'' then Inr False else sr_authorized st (sm_account_id s) addr)"

definition authorized_sender :: "sender_store \<Rightarrow> smtp_session \<Rightarrow> string \<Rightarrow> bool" where
  "authorized_sender st s addr \<longleftrightarrow> may_send_as st s addr = Inr True"

section \<open>MAIL\<close>

record mail_options =
  mo_utf8 :: bool
  mo_require_tls :: bool
  mo_body :: string

definition signed_in :: "smtp_session \<Rightarrow> bool" where
  "signed_in s \<longleftrightarrow> sm_submission s \<and> sm_authenticated s"

definition sign_out :: "smtp_session \<Rightarrow> smtp_session" where
  "sign_out s =
     close_api_session (s\<lparr>sm_authenticated := False, sm_auth_email := [], sm_account_id := 0, sm_credential_id := 0,
       sm_credential_kind := []\<rparr>)"

definition begin_transaction :: "time \<Rightarrow> string \<Rightarrow> mail_options option \<Rightarrow> smtp_session \<Rightarrow> smtp_session" where
  "begin_transaction now sender opts s =
     s\<lparr>sm_mail_from := sender, sm_tx_start := Some now, sm_rcpt_to := [], sm_srs_relays := [],
       sm_body_type := (case opts of None \<Rightarrow> [] | Some o' \<Rightarrow> mo_body o'),
       sm_utf8 := (case opts of None \<Rightarrow> False | Some o' \<Rightarrow> mo_utf8 o'),
       sm_require_tls := (case opts of None \<Rightarrow> False | Some o' \<Rightarrow> mo_require_tls o')\<rparr>"

definition smtp_mail ::
  "sender_store \<Rightarrow> time \<Rightarrow> string \<Rightarrow> mail_options option \<Rightarrow> smtp_session \<Rightarrow> smtp_session \<times> smtp_refusal option" where
  "smtp_mail st now sender opts s =
     (if \<not> sm_tls s \<and> sm_submission s then (s, Some (smtp_reply 530 (5, 7, 0) ''Must issue a STARTTLS command first''))
      else if sm_submission s \<and> \<not> sm_authenticated s then (s, Some (smtp_reply 530 (5, 7, 0) ''Authentication required''))
      else case validate_utf8_address sender (case opts of None \<Rightarrow> False | Some o' \<Rightarrow> mo_utf8 o') 550 of Some r \<Rightarrow> (s, Some r) | None \<Rightarrow>
      case (if signed_in s \<and> sm_credential_id s \<noteq> 0 then sr_credential_usable st (sm_credential_id s) else Inr True) of
        Inl _ \<Rightarrow> (s, Some temporary_failure)
      | Inr False \<Rightarrow> (sign_out s, Some (smtp_reply 530 (5, 7, 0) ''Authentication required''))
      | Inr True \<Rightarrow>
          if signed_in s \<and> \<not> authorized_sender st s sender
          then (s, Some (smtp_reply 553 (5, 7, 1) ''Sender address not authorized for this account''))
          else (begin_transaction now sender opts s, None))"

section \<open>RCPT\<close>

definition alias_refusal_message :: string where
  "alias_refusal_message = ''Alias delivery is not available for this recipient.''"

definition alias_routing_refusal :: "api_error \<Rightarrow> string option" where
  "alias_routing_refusal e =
     (case e of
        ApiError status code msg \<Rightarrow>
          if (status = 403 \<or> status = 550) \<and> code = ''rejected'' \<and> msg = alias_refusal_message then Some msg else None
      | OtherError _ \<Rightarrow> None)"

text \<open>
  A recipient that is an SRS address of a hosted domain: not handled, or the session after it and the reply.
\<close>

definition rcpt_srs ::
  "session_config \<Rightarrow> sender_store \<Rightarrow> time \<Rightarrow> string \<Rightarrow> smtp_session \<Rightarrow> (smtp_session \<times> smtp_refusal option) option" where
  "rcpt_srs cfg st now to s =
     (case xc_signer cfg of None \<Rightarrow> None | Some signer \<Rightarrow>
      if signed_in s \<or> \<not> is_address to then None
      else case sr_hosted st (domain_from_address to) of
        Inl _ \<Rightarrow> Some (s, Some temporary_failure)
      | Inr False \<Rightarrow> None
      | Inr True \<Rightarrow>
          (case reverse (xc_mac cfg) signer to now of
             Inl _ \<Rightarrow> Some (fst (tarpit_reject cfg s), Some no_such_user)
           | Inr original \<Rightarrow>
               Some (s\<lparr>sm_srs_relays := (to, original) # sm_srs_relays s, sm_rcpt_to := sm_rcpt_to s @ [to]\<rparr>, None)))"

definition smtp_rcpt ::
  "session_config \<Rightarrow> sender_store \<Rightarrow> time \<Rightarrow> (string \<Rightarrow> api_error + bool) \<Rightarrow> string \<Rightarrow> smtp_session \<Rightarrow>
     smtp_session \<times> smtp_refusal option" where
  "smtp_rcpt cfg st now check_mailbox to s =
     (case validate_utf8_address to (sm_utf8 s) 553 of Some r \<Rightarrow> (s, Some r) | None \<Rightarrow>
      case rcpt_srs cfg st now to s of Some result \<Rightarrow> result | None \<Rightarrow>
      case check_mailbox to of
        Inl e \<Rightarrow>
          (case alias_routing_refusal e of
             Some reason \<Rightarrow> (fst (tarpit_reject cfg s), Some (smtp_reply 550 (5, 1, 1) reason))
           | None \<Rightarrow> (s, Some temporary_failure))
      | Inr exists_here \<Rightarrow>
          if \<not> exists_here \<and> \<not> signed_in s then (fst (tarpit_reject cfg s), Some no_such_user)
          else (s\<lparr>sm_rcpt_to := sm_rcpt_to s @ [to]\<rparr>, None))"

section \<open>DATA\<close>

record parsed_message =
  pm_from :: string
  pm_message_id :: string

datatype parse_outcome = StructureLimit | ParseFailed | Parsed parsed_message

text \<open>
  The message on disk: its bytes, whether they can be read back, how many Received fields it has (\<open>None\<close> an error), what
  the MIME parser makes of it, and whether it has a List-Unsubscribe header.
\<close>

record spooled =
  sp_raw :: string
  sp_readable :: bool
  sp_received :: "nat option"
  sp_parse :: parse_outcome
  sp_unsubscribe :: bool

datatype spool_result = SpoolRefused smtp_refusal | SpoolFailed | Spooled spooled

record data_answers =
  da_budget :: "(string + bool) option"
  da_check :: "nat \<Rightarrow> api_error + bool"
  da_whole :: "string option"
  da_bodies :: "string option"
  da_persist :: "string + nat option"
  da_enqueue :: "nat \<Rightarrow> string option"
  da_relay :: "nat \<Rightarrow> string option"
  da_prepare :: "string option"
  da_deliver :: "nat \<Rightarrow> api_error option"
  da_random :: "nat list"

record outbound_message =
  om_sender :: string
  om_recipient :: string
  om_domain :: string
  om_raw :: string
  om_body_type :: string
  om_message_id :: "nat option"
  om_require_tls :: bool

record local_delivery =
  ld_address :: string
  ld_sender :: string
  ld_message_id :: string
  ld_client_ip :: string
  ld_helo :: string
  ld_prepared :: bool
  ld_received_tls :: "bool option \<times> string \<times> string"
  ld_require_tls :: bool

record bounce_relay =
  br_recipient :: string
  br_sending_domain :: string
  br_raw :: string
  br_body_type :: string
  br_max_per_recipient :: int
  br_window :: duration

datatype smtp_effect = Queued outbound_message | Delivered local_delivery | Relayed bounce_relay | Persisted string

definition authorize_from_header :: "sender_store \<Rightarrow> smtp_session \<Rightarrow> string \<Rightarrow> smtp_refusal option" where
  "authorize_from_header st s addr =
     (if addr = [] then Some (smtp_reply 550 (5, 6, 0) ''A valid From header is required'')
      else if \<not> authorized_sender st s addr
      then Some (smtp_reply 550 (5, 7, 1) ''From header address not authorized for this account'')
      else None)"

definition follow_sending_policy :: "sender_store \<Rightarrow> string \<Rightarrow> bool \<Rightarrow> smtp_refusal option" where
  "follow_sending_policy st addr unsubscribe =
     (case sr_policy st addr of
        Inl _ \<Rightarrow> Some (smtp_reply 451 (4, 3, 0) ''Could not check the domain's sending policy, try again later'')
      | Inr policy \<Rightarrow>
          if policy = ''bulk'' \<and> \<not> unsubscribe
          then Some (smtp_reply 550 (5, 7, 1) ''This domain sends bulk mail: a List-Unsubscribe header is required'')
          else if policy = ''transactional'' \<and> unsubscribe
          then Some (smtp_reply 550 (5, 7, 1) ''This domain sends transactional mail: a List-Unsubscribe header is not allowed'')
          else None)"

definition budget_refusal :: "(string + bool) option \<Rightarrow> smtp_refusal option" where
  "budget_refusal budget =
     (case budget of None \<Rightarrow> None
      | Some (Inl e) \<Rightarrow>
          if e = err_account_inactive then Some (smtp_reply 550 (5, 7, 1) ''The sending account is inactive'')
          else Some (smtp_reply 451 (4, 7, 1) ''Sending temporarily held; retain this message and retry later'')
      | Some (Inr limited) \<Rightarrow>
          if limited then Some (smtp_reply 451 (4, 7, 1) ''Sending temporarily held; retain this message and retry later'') else None)"

text \<open>The checks a signed-in submission passes before anything is committed.\<close>

definition submission_checks ::
  "sender_store \<Rightarrow> data_answers \<Rightarrow> smtp_session \<Rightarrow> string \<Rightarrow> bool \<Rightarrow> smtp_refusal option" where
  "submission_checks st ans s addr unsubscribe =
     (if \<not> signed_in s then None
      else case authorize_from_header st s addr of Some r \<Rightarrow> Some r | None \<Rightarrow>
           case follow_sending_policy st addr unsubscribe of Some r \<Rightarrow> Some r | None \<Rightarrow> budget_refusal (da_budget ans))"

definition delivery_failure :: "api_error \<Rightarrow> smtp_refusal" where
  "delivery_failure e =
     (case e of
        ApiError status _ _ \<Rightarrow>
          if status = 404 then no_such_user
          else if status = 403 \<or> status = 550 then smtp_reply 550 (5, 7, 1) ''Rejected by policy''
          else if status = 422 then smtp_reply 452 (4, 2, 2) ''Mailbox full''
          else if status = 503 \<or> status = 451 then smtp_reply 451 (4, 3, 0) ''Try again later''
          else smtp_reply 451 (4, 3, 0) ''Temporary delivery failure''
      | OtherError _ \<Rightarrow> smtp_reply 451 (4, 3, 0) ''Temporary delivery failure'')"

definition tls_version_name :: "nat \<Rightarrow> string" where
  "tls_version_name v =
     (if v = 0x0304 then ''TLS1.3'' else if v = 0x0303 then ''TLS1.2'' else if v = 0x0302 then ''TLS1.1''
      else if v = 0x0301 then ''TLS1.0'' else [])"

definition inbound_transport_security :: "bool \<Rightarrow> nat \<Rightarrow> string \<Rightarrow> bool \<Rightarrow> bool option \<times> string \<times> string" where
  "inbound_transport_security submission version cipher tls =
     (if submission then (None, [], [])
      else if tls then (Some tls, tls_version_name version, cipher) else (Some tls, [], []))"

definition trace_header :: "session_config \<Rightarrow> nat list \<Rightarrow> time \<Rightarrow> smtp_session \<Rightarrow> string" where
  "trace_header cfg random now s =
     build_received_header (xc_rfc5322 cfg) (Some random) now
       \<lparr>ri_from = sm_helo s, ri_remote_ip = extract_ip (sm_remote s), ri_by = xc_hostname cfg,
        ri_with = received_with (sm_tls s) (sm_authenticated s) (sm_utf8 s), ri_id = generate_queue_id (Some random) now,
        ri_for = single_recipient (sm_rcpt_to s), ri_timestamp = Some now\<rparr>"

text \<open>What the loop over the recipients carries: counts, the reply if all fail, and what has been committed.\<close>

record data_state =
  ds_accepted :: nat
  ds_failed :: nat
  ds_fail :: smtp_refusal
  ds_submitted_once :: bool
  ds_submitted :: "nat option"
  ds_prepare_local :: bool
  ds_prepared :: bool
  ds_local_err :: bool
  ds_alias_failure :: string
  ds_effects :: "smtp_effect list"

definition ds_refuse :: "smtp_refusal \<Rightarrow> data_state \<Rightarrow> data_state" where
  "ds_refuse r st = st\<lparr>ds_fail := r, ds_failed := ds_failed st + 1\<rparr>"

definition ds_fail_one :: "data_state \<Rightarrow> data_state" where
  "ds_fail_one st = st\<lparr>ds_failed := ds_failed st + 1\<rparr>"

definition ds_commit :: "smtp_effect \<Rightarrow> data_state \<Rightarrow> data_state" where
  "ds_commit e st = st\<lparr>ds_accepted := ds_accepted st + 1, ds_effects := ds_effects st @ [e]\<rparr>"

definition domain_after_at :: "string \<Rightarrow> string" where
  "domain_after_at rcpt = (case last_index_byte rcpt (CHR ''@'') of None \<Rightarrow> rcpt | Some i \<Rightarrow> drop (i + 1) rcpt)"

definition relay_recipient ::
  "session_config \<Rightarrow> data_answers \<Rightarrow> smtp_session \<Rightarrow> string \<Rightarrow> nat \<Rightarrow> string \<Rightarrow> string \<Rightarrow> data_state \<Rightarrow> data_state" where
  "relay_recipient cfg ans s raw i rcpt original st =
     (case (case da_whole ans of Some e \<Rightarrow> Some e | None \<Rightarrow> da_relay ans i) of
        Some _ \<Rightarrow> ds_fail_one st
      | None \<Rightarrow> ds_commit (Relayed \<lparr>br_recipient = original, br_sending_domain = domain_from_address rcpt, br_raw = raw,
                   br_body_type = sm_body_type s, br_max_per_recipient = xc_bounce_max cfg, br_window = xc_window cfg\<rparr>) st)"

text \<open>The sender's own copy of a submission, once, before its first row in the queue.\<close>

definition persist_submission :: "data_answers \<Rightarrow> smtp_session \<Rightarrow> string \<Rightarrow> data_state \<Rightarrow> data_state" where
  "persist_submission ans s message_id st =
     (if sm_authenticated s \<and> \<not> ds_submitted_once st then
        (case (case da_whole ans of Some e \<Rightarrow> Some e | None \<Rightarrow> da_bodies ans) of
           Some _ \<Rightarrow> st\<lparr>ds_submitted_once := True\<rparr>
         | None \<Rightarrow>
             (case da_persist ans of
                Inl _ \<Rightarrow> st\<lparr>ds_submitted_once := True\<rparr>
              | Inr ref \<Rightarrow> st\<lparr>ds_submitted_once := True, ds_submitted := ref, ds_effects := ds_effects st @ [Persisted message_id]\<rparr>))
      else st)"

definition queue_recipient ::
  "data_answers \<Rightarrow> smtp_session \<Rightarrow> string \<Rightarrow> string \<Rightarrow> nat \<Rightarrow> string \<Rightarrow> data_state \<Rightarrow> data_state" where
  "queue_recipient ans s raw message_id i rcpt st0 =
     (let st = persist_submission ans s message_id st0
      in case (case da_whole ans of Some e \<Rightarrow> Some e | None \<Rightarrow> da_enqueue ans i) of
           Some _ \<Rightarrow> ds_fail_one st
         | None \<Rightarrow> ds_commit (Queued \<lparr>om_sender = sm_mail_from s, om_recipient = rcpt, om_domain = domain_after_at rcpt, om_raw = raw,
                      om_body_type = sm_body_type s, om_message_id = ds_submitted st, om_require_tls = sm_require_tls s\<rparr>) st)"

definition prepare_local :: "data_answers \<Rightarrow> data_state \<Rightarrow> data_state" where
  "prepare_local ans st =
     (if ds_prepare_local st then
        (case (case da_whole ans of Some e \<Rightarrow> Some e | None \<Rightarrow> da_prepare ans) of
           Some _ \<Rightarrow> st\<lparr>ds_prepare_local := False, ds_local_err := True\<rparr>
         | None \<Rightarrow> st\<lparr>ds_prepare_local := False, ds_prepared := True\<rparr>)
      else st)"

definition deliver_recipient ::
  "data_answers \<Rightarrow> smtp_session \<Rightarrow> string \<Rightarrow> nat \<Rightarrow> string \<Rightarrow> data_state \<Rightarrow> data_state" where
  "deliver_recipient ans s message_id i rcpt st0 =
     (let st = prepare_local ans st0 in
      if ds_local_err st then ds_refuse (smtp_reply 451 (4, 3, 0) ''Temporary delivery failure'') st
      else case da_deliver ans i of
        Some e \<Rightarrow>
          ds_refuse (delivery_failure e)
            (case alias_routing_refusal e of Some reason \<Rightarrow> st\<lparr>ds_alias_failure := reason\<rparr> | None \<Rightarrow> st)
      | None \<Rightarrow>
          ds_commit (Delivered \<lparr>ld_address = rcpt, ld_sender = sm_mail_from s, ld_message_id = message_id,
            ld_client_ip = (if signed_in s then [] else extract_ip (sm_remote s)), ld_helo = (if signed_in s then [] else sm_helo s),
            ld_prepared = ds_prepared st, ld_received_tls = inbound_transport_security (sm_submission s) (sm_tls_version s) (sm_tls_cipher s) (sm_tls s),
            ld_require_tls = sm_require_tls s\<rparr>) st)"

definition one_recipient ::
  "session_config \<Rightarrow> data_answers \<Rightarrow> smtp_session \<Rightarrow> string \<Rightarrow> string \<Rightarrow> (string \<Rightarrow> api_error + bool) \<Rightarrow> nat \<Rightarrow> string \<Rightarrow> data_state \<Rightarrow> data_state" where
  "one_recipient cfg ans s raw message_id found_here i rcpt st =
     (case map_of (sm_srs_relays s) rcpt of
        Some original \<Rightarrow> relay_recipient cfg ans s raw i rcpt original st
      | None \<Rightarrow>
          (case found_here rcpt of
             Inl _ \<Rightarrow> ds_fail_one st
           | Inr exists_here \<Rightarrow>
               if exists_here then deliver_recipient ans s message_id i rcpt st
               else if \<not> signed_in s then ds_refuse no_such_user st
               else queue_recipient ans s raw message_id i rcpt st))"

fun recipients_loop ::
  "session_config \<Rightarrow> data_answers \<Rightarrow> smtp_session \<Rightarrow> string \<Rightarrow> string \<Rightarrow> (string \<Rightarrow> api_error + bool) \<Rightarrow> nat \<Rightarrow> string list \<Rightarrow> data_state \<Rightarrow> data_state" where
  "recipients_loop cfg ans s raw message_id found_here i [] st = st"
| "recipients_loop cfg ans s raw message_id found_here i (rcpt # rcpts) st =
     recipients_loop cfg ans s raw message_id found_here (i + 1) rcpts (one_recipient cfg ans s raw message_id found_here i rcpt st)"

text \<open>Every recipient that is no bounce is looked up again, in order; a reserved alias ends it there.\<close>

fun recheck ::
  "data_answers \<Rightarrow> smtp_session \<Rightarrow> nat \<Rightarrow> string list \<Rightarrow> (string \<times> (api_error + bool)) list \<Rightarrow> string + (string \<times> (api_error + bool)) list" where
  "recheck ans s i [] found = Inr found"
| "recheck ans s i (rcpt # rcpts) found =
     (if map_of (sm_srs_relays s) rcpt \<noteq> None then recheck ans s (i + 1) rcpts found
      else case (case da_check ans i of Inl e \<Rightarrow> alias_routing_refusal e | Inr _ \<Rightarrow> None) of
        Some reason \<Rightarrow> Inl reason
      | None \<Rightarrow> recheck ans s (i + 1) rcpts ((rcpt, da_check ans i) # found))"

definition lookup_in :: "(string \<times> (api_error + bool)) list \<Rightarrow> string \<Rightarrow> api_error + bool" where
  "lookup_in found rcpt = (case map_of found rcpt of Some r \<Rightarrow> r | None \<Rightarrow> Inl (OtherError []))"

definition first_state :: "smtp_session \<Rightarrow> data_state" where
  "first_state s =
     \<lparr>ds_accepted = 0, ds_failed = 0, ds_fail = smtp_reply 451 (4, 3, 0) ''Temporary delivery failure'', ds_submitted_once = False,
      ds_submitted = None, ds_prepare_local = signed_in s, ds_prepared = False, ds_local_err = False, ds_alias_failure = [],
      ds_effects = []\<rparr>"

definition deliver_all ::
  "session_config \<Rightarrow> data_answers \<Rightarrow> time \<Rightarrow> smtp_session \<Rightarrow> string \<Rightarrow> parsed_message \<Rightarrow> smtp_effect list \<times> smtp_refusal option" where
  "deliver_all cfg ans now s raw0 pm =
     (let message_id = (if pm_message_id pm = [] then generate_message_id (da_random ans) (domain_from_address (sm_mail_from s))
                        else pm_message_id pm);
          raw = trace_header cfg (da_random ans) now s @ raw0
      in case recheck ans s 0 (sm_rcpt_to s) [] of
           Inl reason \<Rightarrow> ([], Some (smtp_reply 550 (5, 1, 1) reason))
         | Inr found \<Rightarrow>
             (let st = recipients_loop cfg ans s raw message_id (lookup_in found) 0 (sm_rcpt_to s) (first_state s)
              in (ds_effects st,
                  if ds_alias_failure st \<noteq> [] then Some (smtp_reply 550 (5, 1, 1) (ds_alias_failure st))
                  else if ds_accepted st = 0 then Some (ds_fail st) else None)))"

definition over_rate :: "data_answers \<Rightarrow> smtp_session \<Rightarrow> time \<Rightarrow> submission_limiter option \<Rightarrow> submission_limiter option \<times> bool" where
  "over_rate ans s now lim =
     (if signed_in s \<and> da_budget ans = None
      then (case allow_opt lim (rate_limit_key s) now of (lim', ok) \<Rightarrow> (lim', \<not> ok)) else (lim, False))"

definition data_outcome ::
  "session_config \<Rightarrow> sender_store \<Rightarrow> data_answers \<Rightarrow> time \<Rightarrow> spool_result \<Rightarrow> submission_limiter option \<Rightarrow> smtp_session \<Rightarrow>
     submission_limiter option \<times> smtp_effect list \<times> smtp_refusal option" where
  "data_outcome cfg st ans now sp lim s =
     (case sp of
        SpoolRefused r \<Rightarrow> (lim, [], Some r)
      | SpoolFailed \<Rightarrow> (lim, [], Some message_disk_failure)
      | Spooled m \<Rightarrow>
          case validate_utf8_headers (sp_readable m) (sp_raw m) (sm_utf8 s) of Some r \<Rightarrow> (lim, [], Some r) | None \<Rightarrow>
          case sp_received m of None \<Rightarrow> (lim, [], Some message_disk_failure) | Some n \<Rightarrow>
          if xc_max_received cfg < n + 1
          then (lim, [], Some (smtp_reply 554 (5, 4, 6) ''Routing loop detected: too many Received headers''))
          else case over_rate ans s now lim of (lim', limited) \<Rightarrow>
          if limited then (lim', [], Some (smtp_reply 451 (4, 7, 1) ''Account rate limit exceeded, try again later''))
          else case sp_parse m of
            StructureLimit \<Rightarrow>
              (lim', [], Some (smtp_reply 554 (5, 6, 0) ''Message structure too complex: too deeply nested or too many MIME parts''))
          | ParseFailed \<Rightarrow> (lim', [], Some message_disk_failure)
          | Parsed pm \<Rightarrow>
              (case submission_checks st ans s (pm_from pm) (sp_unsubscribe m) of
                 Some r \<Rightarrow> (lim', [], Some r)
               | None \<Rightarrow> (lim', deliver_all cfg ans now s (sp_raw m) pm)))"

definition smtp_data ::
  "session_config \<Rightarrow> sender_store \<Rightarrow> data_answers \<Rightarrow> time \<Rightarrow> spool_result \<Rightarrow> submission_limiter option \<Rightarrow> smtp_session \<Rightarrow>
     submission_limiter option \<times> smtp_session \<times> smtp_effect list \<times> smtp_refusal option" where
  "smtp_data cfg st ans now sp lim s =
     (case data_outcome cfg st ans now sp lim s of (lim', effects, reply) \<Rightarrow> (lim', end_transaction s, effects, reply))"


section \<open>The session go-smtp drives\<close>

text \<open>
  What go-smtp calls, and when: AUTH until one succeeds, MAIL at any time, RCPT and DATA once a MAIL has been accepted,
  Reset after DATA and at RSET. \<open>P\<close> says what every reading of the store during the session satisfies.
\<close>

record smtp_conn =
  cn_session :: smtp_session
  cn_did_auth :: bool
  cn_mail_ok :: bool

definition new_conn :: "bool \<Rightarrow> (nat \<times> string) option \<Rightarrow> string \<Rightarrow> string \<Rightarrow> smtp_conn" where
  "new_conn submission tls remote helo =
     \<lparr>cn_session = new_session submission tls remote helo, cn_did_auth = False, cn_mail_ok = False\<rparr>"

definition conn_start :: "smtp_conn \<Rightarrow> bool" where
  "conn_start c \<longleftrightarrow> (\<exists>submission tls remote helo. c = new_conn submission tls remote helo)"

inductive smtp_step :: "session_config \<Rightarrow> (sender_store \<Rightarrow> bool) \<Rightarrow> smtp_conn \<Rightarrow> smtp_conn \<Rightarrow> bool"
  for cfg :: session_config and P :: "sender_store \<Rightarrow> bool"
where
  auth: "\<not> cn_did_auth c \<Longrightarrow> smtp_login cfg open_session db_banned now user password l (cn_session c) = (l', s', reply, asked) \<Longrightarrow>
    smtp_step cfg P c (c\<lparr>cn_session := s', cn_did_auth := (reply = None)\<rparr>)"
| mail: "P st \<Longrightarrow> smtp_mail st now sender opts (cn_session c) = (s', reply) \<Longrightarrow>
    smtp_step cfg P c (c\<lparr>cn_session := s', cn_mail_ok := (reply = None \<or> cn_mail_ok c)\<rparr>)"
| rcpt: "cn_mail_ok c \<Longrightarrow> P st \<Longrightarrow> smtp_rcpt cfg st now check_mailbox to (cn_session c) = (s', reply) \<Longrightarrow>
    smtp_step cfg P c (c\<lparr>cn_session := s'\<rparr>)"
| data: "cn_mail_ok c \<Longrightarrow> P st \<Longrightarrow> smtp_data cfg st ans now sp lim (cn_session c) = (lim', s', effects, reply) \<Longrightarrow>
    smtp_step cfg P c (c\<lparr>cn_session := smtp_reset s', cn_mail_ok := False\<rparr>)"
| rset: "smtp_step cfg P c (c\<lparr>cn_session := smtp_reset (cn_session c), cn_mail_ok := False\<rparr>)"

section \<open>The tarpit is bounded\<close>

lemma tarpit_delay_bounded:
  assumes "cap < 2 ^ 63" "\<bar>errs\<bar> < 2 ^ 62" "\<bar>soft\<bar> < 2 ^ 62"
  shows "0 \<le> tarpit_delay errs soft base cap \<and> tarpit_delay errs soft base cap \<le> max 0 cap"
proof (cases "base \<le> 0 \<or> cap \<le> 0 \<or> errs \<le> soft")
  case True
  then show ?thesis by (auto simp: tarpit_delay_def)
next
  case False
  then have pos: "0 < base" "0 < cap" "soft < errs" by auto
  have over: "int64 (errs - soft) = errs - soft" using assms pos by (intro int64_id) auto
  show ?thesis
  proof (cases "cap div base \<le> 0 \<or> cap div base < errs - soft")
    case True
    then show ?thesis using pos by (auto simp: tarpit_delay_def over)
  next
    case False
    then have "base * (errs - soft) \<le> base * (cap div base)" using pos by (intro mult_left_mono) auto
    also have "\<dots> \<le> cap" by (metis add_increasing2 mod_int_pos_iff mult_div_mod_eq order.strict_implies_order order_refl pos(1) pos(2))
    finally have le: "base * (errs - soft) \<le> cap" .
    moreover have "0 \<le> base * (errs - soft)" using pos by auto
    ultimately have "int64 (base * (errs - soft)) = base * (errs - soft)" using assms by (intro int64_id) auto
    then show ?thesis using False pos le by (auto simp: tarpit_delay_def over)
  qed
qed


section \<open>Who a session may send for\<close>

definition conn_ok :: "session_config \<Rightarrow> (sender_store \<Rightarrow> bool) \<Rightarrow> smtp_conn \<Rightarrow> bool" where
  "conn_ok cfg P c \<longleftrightarrow>
     (sm_authenticated (cn_session c) \<longrightarrow> cn_did_auth c)
   \<and> (cn_mail_ok c \<longrightarrow> sm_submission (cn_session c) \<longrightarrow> cn_did_auth c)
   \<and> (cn_mail_ok c \<longrightarrow> signed_in (cn_session c) \<longrightarrow>
        sm_tls (cn_session c) \<and> (\<exists>st. P st \<and> authorized_sender st (cn_session c) (sm_mail_from (cn_session c))))
   \<and> (\<forall>r\<in>set (sm_srs_relays (cn_session c)).
        \<exists>signer now. xc_signer cfg = Some signer \<and> reverse (xc_mac cfg) signer (fst r) now = Inr (snd r))"

lemmas session_defs = signed_in_def end_transaction_def tarpit_reject_def smtp_reset_def
  sign_out_def close_api_session_def begin_transaction_def

lemma authorized_sender_cong:
  assumes "sm_auth_email s' = sm_auth_email s" "sm_account_id s' = sm_account_id s" "sm_credential_kind s' = sm_credential_kind s"
  shows "authorized_sender st s' = authorized_sender st s"
  unfolding authorized_sender_def may_send_as_def assms ..

lemma authorized_sender_updates [simp]:
  "authorized_sender st (s\<lparr>sm_tarpit_n := n\<rparr>) = authorized_sender st s"
  "authorized_sender st (s\<lparr>sm_rcpt_to := rs\<rparr>) = authorized_sender st s"
  "authorized_sender st (s\<lparr>sm_srs_relays := srs\<rparr>) = authorized_sender st s"
  "authorized_sender st (begin_transaction now sender opts s) = authorized_sender st s"
  by (rule authorized_sender_cong; simp add: begin_transaction_def)+

lemma conn_ok_start: "conn_start c \<Longrightarrow> conn_ok cfg P c"
  by (auto simp: conn_start_def new_conn_def conn_ok_def new_session_def signed_in_def)

lemma login_keeps:
  assumes "smtp_login cfg open_session db_banned now user password l s = (l', s', reply, asked)"
  shows "sm_submission s' = sm_submission s" "sm_srs_relays s' = sm_srs_relays s"
    "reply = None \<or> sm_authenticated s' = sm_authenticated s"
  using assms by (auto simp: smtp_login_def Let_def session_defs split: prod.splits bool.splits sum.splits if_splits)

lemma conn_ok_login:
  assumes "conn_ok cfg P c" "\<not> cn_did_auth c"
    "smtp_login cfg open_session db_banned now user password l (cn_session c) = (l', s', reply, asked)"
  shows "conn_ok cfg P (c\<lparr>cn_session := s', cn_did_auth := (reply = None)\<rparr>)"
  using assms(1,2) login_keeps [OF assms(3)] by (auto simp: conn_ok_def signed_in_def)

lemma conn_ok_mail:
  assumes "conn_ok cfg P c" "P st" "smtp_mail st now sender opts (cn_session c) = (s', reply)"
  shows "conn_ok cfg P (c\<lparr>cn_session := s', cn_mail_ok := (reply = None \<or> cn_mail_ok c)\<rparr>)"
proof -
  let ?s = "cn_session c"
  consider (kept) "s' = ?s" "reply \<noteq> None" | (out) "s' = sign_out ?s" "reply \<noteq> None"
    | (begun) "s' = begin_transaction now sender opts ?s" "reply = None" "sm_submission ?s \<longrightarrow> sm_tls ?s \<and> sm_authenticated ?s"
        "signed_in ?s \<longrightarrow> authorized_sender st ?s sender"
    using assms(3) by (auto simp: smtp_mail_def split: if_splits option.splits sum.splits bool.splits)
  then show ?thesis
  proof cases
    case kept
    then show ?thesis using assms(1) by (auto simp: conn_ok_def)
  next
    case out
    then show ?thesis using assms(1) by (auto simp: conn_ok_def session_defs)
  next
    case begun
    then have "signed_in s' \<Longrightarrow> sm_tls s' \<and> authorized_sender st s' (sm_mail_from s')"
      by (simp add: signed_in_def) (simp add: begin_transaction_def)
    then show ?thesis using assms(1,2) begun by (auto simp: conn_ok_def begin_transaction_def)
  qed
qed

lemma session_changes:
  "\<exists>n rs. s = s\<lparr>sm_tarpit_n := n, sm_rcpt_to := rs\<rparr>"
  "\<exists>n rs. fst (tarpit_reject cfg s) = s\<lparr>sm_tarpit_n := n, sm_rcpt_to := rs\<rparr>"
  "\<exists>n rs. s\<lparr>sm_rcpt_to := ts\<rparr> = s\<lparr>sm_tarpit_n := n, sm_rcpt_to := rs\<rparr>"
  by (rule exI [of _ "sm_tarpit_n s"], rule exI [of _ "sm_rcpt_to s"], simp,
      rule exI [of _ "sm_tarpit_n s + 1"], rule exI [of _ "sm_rcpt_to s"], simp add: tarpit_reject_def,
      rule exI [of _ "sm_tarpit_n s"], rule exI [of _ ts], simp)

lemma rcpt_srs_changes:
  assumes "rcpt_srs cfg st now to s = Some (s', reply)"
  shows "(\<exists>n rs. s' = s\<lparr>sm_tarpit_n := n, sm_rcpt_to := rs\<rparr>) \<or>
      (\<exists>original signer rs. s' = s\<lparr>sm_srs_relays := (to, original) # sm_srs_relays s, sm_rcpt_to := rs\<rparr> \<and>
         xc_signer cfg = Some signer \<and> reverse (xc_mac cfg) signer to now = Inr original)"
proof -
  have "s' = s \<or> s' = fst (tarpit_reject cfg s) \<or> (\<exists>original signer rs.
      s' = s\<lparr>sm_srs_relays := (to, original) # sm_srs_relays s, sm_rcpt_to := rs\<rparr> \<and>
         xc_signer cfg = Some signer \<and> reverse (xc_mac cfg) signer to now = Inr original)"
    using assms by (auto simp: rcpt_srs_def split: option.splits if_splits sum.splits bool.splits)
  then show ?thesis using session_changes by metis
qed

lemma rcpt_changes:
  assumes "smtp_rcpt cfg st now check_mailbox to s = (s', reply)"
  shows "(\<exists>n rs. s' = s\<lparr>sm_tarpit_n := n, sm_rcpt_to := rs\<rparr>) \<or>
      (\<exists>original signer rs. s' = s\<lparr>sm_srs_relays := (to, original) # sm_srs_relays s, sm_rcpt_to := rs\<rparr> \<and>
         xc_signer cfg = Some signer \<and> reverse (xc_mac cfg) signer to now = Inr original)"
proof (cases "rcpt_srs cfg st now to s = Some (s', reply)")
  case True
  then show ?thesis by (rule rcpt_srs_changes)
next
  case False
  then have "s' = s \<or> s' = fst (tarpit_reject cfg s) \<or> s' = s\<lparr>sm_rcpt_to := sm_rcpt_to s @ [to]\<rparr>"
    using assms by (auto simp: smtp_rcpt_def split: option.splits if_splits sum.splits)
  then show ?thesis using session_changes by metis
qed

lemma conn_ok_rcpt:
  assumes "conn_ok cfg P c" "smtp_rcpt cfg st now check_mailbox to (cn_session c) = (s', reply)"
  shows "conn_ok cfg P (c\<lparr>cn_session := s'\<rparr>)"
proof -
  let ?s = "cn_session c"
  consider (kept) n rs where "s' = ?s\<lparr>sm_tarpit_n := n, sm_rcpt_to := rs\<rparr>"
    | (relay) original signer rs where "s' = ?s\<lparr>sm_srs_relays := (to, original) # sm_srs_relays ?s, sm_rcpt_to := rs\<rparr>"
        "xc_signer cfg = Some signer" "reverse (xc_mac cfg) signer to now = Inr original"
  proof -
    have "(\<exists>n rs. s' = ?s\<lparr>sm_tarpit_n := n, sm_rcpt_to := rs\<rparr>) \<or>
      (\<exists>original signer rs. s' = ?s\<lparr>sm_srs_relays := (to, original) # sm_srs_relays ?s, sm_rcpt_to := rs\<rparr> \<and>
         xc_signer cfg = Some signer \<and> reverse (xc_mac cfg) signer to now = Inr original)"
      using assms(2) by (rule rcpt_changes)
    then show thesis using that by blast
  qed
  then show ?thesis
  proof cases
    case kept
    then show ?thesis using assms(1) by (simp add: conn_ok_def session_defs)
  next
    case relay
    then show ?thesis using assms(1) by (auto simp: conn_ok_def session_defs)
  qed
qed

lemma conn_ok_data:
  assumes "conn_ok cfg P c" "smtp_data cfg st ans now sp lim (cn_session c) = (lim', s', effects, reply)"
  shows "conn_ok cfg P (c\<lparr>cn_session := smtp_reset s', cn_mail_ok := False\<rparr>)"
  using assms by (auto simp: conn_ok_def smtp_data_def session_defs split: prod.splits)

lemma conn_ok_step: "smtp_step cfg P c c' \<Longrightarrow> conn_ok cfg P c \<Longrightarrow> conn_ok cfg P c'"
proof (induction rule: smtp_step.induct)
  case (rset c)
  then show ?case by (simp add: conn_ok_def session_defs)
qed (blast intro: conn_ok_login conn_ok_mail conn_ok_rcpt conn_ok_data)+

interpretation smtp: invariant_system conn_start "smtp_step cfg P" "conn_ok cfg P" for cfg P
  by unfold_locales (blast intro: conn_ok_start conn_ok_step)+


section \<open>What DATA commits\<close>

text \<open>The effects that hand the message on; the sender's own copy does not.\<close>

fun commits :: "smtp_effect \<Rightarrow> bool" where
  "commits (Persisted _) = False"
| "commits _ = True"

fun reached_by :: "smtp_effect \<Rightarrow> string list" where
  "reached_by (Queued m) = [om_recipient m]"
| "reached_by (Delivered d) = [ld_address d]"
| "reached_by _ = []"

fun effect_allowed :: "smtp_session \<Rightarrow> (string \<Rightarrow> api_error + bool) \<Rightarrow> smtp_effect \<Rightarrow> bool" where
  "effect_allowed s found_here (Queued m) \<longleftrightarrow>
     signed_in s \<and> om_sender m = sm_mail_from s \<and> om_require_tls m = sm_require_tls s \<and> found_here (om_recipient m) = Inr False"
| "effect_allowed s found_here (Delivered d) \<longleftrightarrow> ld_sender d = sm_mail_from s \<and> found_here (ld_address d) = Inr True"
| "effect_allowed s found_here (Relayed b) \<longleftrightarrow> (\<exists>r\<in>set (sm_srs_relays s). br_recipient b = snd r)"
| "effect_allowed s found_here (Persisted _) \<longleftrightarrow> signed_in s"

definition alias_refused :: "data_answers \<Rightarrow> nat \<Rightarrow> bool" where
  "alias_refused ans i \<longleftrightarrow> (case da_deliver ans i of Some e \<Rightarrow> alias_routing_refusal e \<noteq> None | None \<Rightarrow> False)"

text \<open>One recipient adds effects of its own, and counts what it commits.\<close>

definition adds :: "data_answers \<Rightarrow> smtp_session \<Rightarrow> (string \<Rightarrow> api_error + bool) \<Rightarrow> nat set \<Rightarrow> string list \<Rightarrow> data_state \<Rightarrow> data_state \<Rightarrow> bool" where
  "adds ans s found_here is rcpts st st' \<longleftrightarrow>
     (\<exists>es. ds_effects st' = ds_effects st @ es \<and> ds_accepted st' = ds_accepted st + length (filter commits es)
       \<and> subseq (concat (map reached_by es)) rcpts \<and> list_all (effect_allowed s found_here) es
       \<and> (ds_alias_failure st' = ds_alias_failure st \<or> (\<exists>i\<in>is. alias_refused ans i)))"

lemma adds_refl: "adds ans s found_here {} [] st st"
  by (auto simp: adds_def)

lemma adds_trans:
  assumes "adds ans s found_here is rs st st'" "adds ans s found_here js ts st' st''"
  shows "adds ans s found_here (is \<union> js) (rs @ ts) st st''"
proof -
  obtain es fs where "ds_effects st' = ds_effects st @ es" "ds_effects st'' = ds_effects st' @ fs"
    "ds_accepted st' = ds_accepted st + length (filter commits es)" "ds_accepted st'' = ds_accepted st' + length (filter commits fs)"
    "subseq (concat (map reached_by es)) rs" "subseq (concat (map reached_by fs)) ts"
    "list_all (effect_allowed s found_here) es" "list_all (effect_allowed s found_here) fs"
    "ds_alias_failure st' = ds_alias_failure st \<or> (\<exists>i\<in>is. alias_refused ans i)"
    "ds_alias_failure st'' = ds_alias_failure st' \<or> (\<exists>i\<in>js. alias_refused ans i)"
    using assms unfolding adds_def by blast
  then show ?thesis unfolding adds_def by (intro exI [of _ "es @ fs"]) (auto intro: list_emb_append_mono)
qed

lemma adds_nothing:
  assumes "ds_effects st' = ds_effects st" "ds_accepted st' = ds_accepted st"
    "ds_alias_failure st' = ds_alias_failure st \<or> (\<exists>i\<in>is. alias_refused ans i)"
  shows "adds ans s found_here is rcpts st st'"
  using assms by (auto simp: adds_def)

lemma adds_commit:
  assumes "commits e" "subseq (reached_by e) rcpts" "effect_allowed s found_here e"
  shows "adds ans s found_here is rcpts st (ds_commit e st)"
  using assms by (auto simp: adds_def ds_commit_def intro!: exI [of _ "[e]"])

lemma relay_adds:
  assumes "map_of (sm_srs_relays s) rcpt = Some original"
  shows "adds ans s found_here {i} [rcpt] st (relay_recipient cfg ans s raw i rcpt original st)"
  using map_of_SomeD [OF assms]
  by (auto simp: relay_recipient_def ds_fail_one_def split: option.splits intro!: adds_nothing adds_commit bexI [of _ "(rcpt, original)"])

lemma persist_adds:
  assumes "signed_in s"
  shows "adds ans s found_here {} [] st (persist_submission ans s message_id st)"
  using assms
  by (auto simp: adds_def persist_submission_def split: option.splits sum.splits intro: exI [of _ "[Persisted message_id]"] exI [of _ "[]"])

lemma queue_adds:
  assumes "signed_in s" "found_here rcpt = Inr False"
  shows "adds ans s found_here {i} [rcpt] st (queue_recipient ans s raw message_id i rcpt st)"
proof -
  let ?st = "persist_submission ans s message_id st"
  have "adds ans s found_here {i} [rcpt] ?st (queue_recipient ans s raw message_id i rcpt st)"
    using assms by (auto simp: queue_recipient_def ds_fail_one_def Let_def split: option.splits intro!: adds_nothing adds_commit)
  then show ?thesis using adds_trans [OF persist_adds [OF assms(1)]] by fastforce
qed

lemma deliver_adds:
  assumes "found_here rcpt = Inr True"
  shows "adds ans s found_here {i} [rcpt] st (deliver_recipient ans s message_id i rcpt st)"
proof -
  let ?st = "prepare_local ans st"
  have "adds ans s found_here {} [] st ?st"
    by (rule adds_nothing) (auto simp: prepare_local_def split: option.splits)
  moreover have "adds ans s found_here {i} [rcpt] ?st (deliver_recipient ans s message_id i rcpt st)"
    using assms
    by (auto simp: deliver_recipient_def ds_refuse_def Let_def alias_refused_def split: option.splits intro!: adds_nothing adds_commit)
  ultimately show ?thesis using adds_trans by fastforce
qed

lemma one_recipient_adds: "adds ans s found_here {i} [rcpt] st (one_recipient cfg ans s raw message_id found_here i rcpt st)"
  by (auto simp: one_recipient_def ds_fail_one_def ds_refuse_def split: option.splits sum.splits
      intro: adds_nothing relay_adds queue_adds deliver_adds)

lemma recipients_loop_adds:
  "adds ans s found_here {i..<i + length rcpts} rcpts st (recipients_loop cfg ans s raw message_id found_here i rcpts st)"
proof (induction rcpts arbitrary: i st)
  case Nil
  then show ?case by (simp add: adds_refl)
next
  case (Cons rcpt rcpts)
  have "{i} \<union> {i + 1..<i + 1 + length rcpts} = {i..<i + length (rcpt # rcpts)}" by auto
  moreover have "adds ans s found_here {i} [rcpt] st (one_recipient cfg ans s raw message_id found_here i rcpt st)"
    by (rule one_recipient_adds)
  ultimately show ?case using adds_trans [OF _ Cons.IH [of "i + 1"]] by fastforce
qed


lemma recheck_sound:
  assumes "recheck ans s i rcpts found0 = Inr found" "(r, v) \<in> set found"
  shows "(r, v) \<in> set found0 \<or> (\<exists>j<length rcpts. rcpts ! j = r \<and> da_check ans (i + j) = v)"
  using assms
proof (induction rcpts arbitrary: i found0)
  case (Cons rcpt rcpts)
  from Cons.prems obtain found1 where "recheck ans s (i + 1) rcpts found1 = Inr found"
    and sub: "set found1 \<subseteq> insert (rcpt, da_check ans i) (set found0)"
    by (auto split: if_splits option.splits)
  with Cons have "(r, v) \<in> set found1 \<or> (\<exists>j<length rcpts. rcpts ! j = r \<and> da_check ans (i + 1 + j) = v)" by blast
  then show ?case
  proof
    assume "(r, v) \<in> set found1"
    then show ?thesis using sub by force
  next
    assume "\<exists>j<length rcpts. rcpts ! j = r \<and> da_check ans (i + 1 + j) = v"
    then obtain j where "j < length rcpts" "rcpts ! j = r" "da_check ans (i + 1 + j) = v" by blast
    then show ?thesis by (intro disjI2 exI [of _ "Suc j"]) simp
  qed
qed simp

lemma found_again:
  assumes "recheck ans s 0 rcpts [] = Inr found" "lookup_in found r = Inr b"
  shows "\<exists>i<length rcpts. rcpts ! i = r \<and> da_check ans i = Inr b"
proof -
  have "(r, Inr b) \<in> set found" using assms(2) by (auto simp: lookup_in_def split: option.splits dest: map_of_SomeD)
  then show ?thesis using recheck_sound [OF assms(1)] by force
qed

text \<open>A message whose handling reaches the recipients has passed every check before them.\<close>

definition checks_passed :: "sender_store \<Rightarrow> data_answers \<Rightarrow> spool_result \<Rightarrow> smtp_session \<Rightarrow> bool" where
  "checks_passed st ans sp s \<longleftrightarrow>
     (case sp of
        Spooled m \<Rightarrow> (case sp_parse m of Parsed pm \<Rightarrow> submission_checks st ans s (pm_from pm) (sp_unsubscribe m) = None | _ \<Rightarrow> False)
      | _ \<Rightarrow> False)"

lemma data_cases:
  assumes "smtp_data cfg st ans now sp lim s = (lim', s', effects, reply)"
  obtains (refused) r where "effects = []" "reply = Some r"
  | (handled) found loop where "checks_passed st ans sp s" "recheck ans s 0 (sm_rcpt_to s) [] = Inr found"
      "adds ans s (lookup_in found) {0..<length (sm_rcpt_to s)} (sm_rcpt_to s) (first_state s) loop" "effects = ds_effects loop"
      "reply = (if ds_alias_failure loop \<noteq> [] then Some (smtp_reply 550 (5, 1, 1) (ds_alias_failure loop))
         else if ds_accepted loop = 0 then Some (ds_fail loop) else None)"
proof -
  have out: "data_outcome cfg st ans now sp lim s = (lim', effects, reply)"
    using assms by (auto simp: smtp_data_def split: prod.splits)
  show thesis
  proof (cases "\<exists>m pm. sp = Spooled m \<and> checks_passed st ans sp s \<and> sp_parse m = Parsed pm
      \<and> (effects, reply) = deliver_all cfg ans now s (sp_raw m) pm")
    case False
    then have "effects = [] \<and> reply \<noteq> None"
      using out by (auto simp: data_outcome_def checks_passed_def split: spool_result.splits option.splits prod.splits if_splits parse_outcome.splits) metis+
    then show thesis using refused by blast
  next
    case True
    then obtain m :: spooled and pm where m: "checks_passed st ans sp s" "(effects, reply) = deliver_all cfg ans now s (sp_raw m) pm" by blast
    show thesis
    proof (cases "recheck ans s 0 (sm_rcpt_to s) []")
      case (Inl reason)
      then show thesis using m(2) refused by (simp add: deliver_all_def Let_def)
    next
      case (Inr found)
      then show thesis
        using m handled [OF m(1) Inr recipients_loop_adds [of _ _ _ 0, simplified]] by (simp add: deliver_all_def Let_def)
    qed
  qed
qed


lemma signed_in_checks:
  assumes "checks_passed st ans sp s" "signed_in s"
  shows "\<exists>m pm. sp = Spooled m \<and> sp_parse m = Parsed pm \<and> authorized_sender st s (pm_from pm)"
proof -
  obtain m pm where m: "sp = Spooled m" "sp_parse m = Parsed pm" "submission_checks st ans s (pm_from pm) (sp_unsubscribe m) = None"
    using assms(1) by (auto simp: checks_passed_def split: spool_result.splits parse_outcome.splits)
  then have "authorize_from_header st s (pm_from pm) = None"
    using assms(2) by (simp add: submission_checks_def split: option.splits)
  then show ?thesis using m by (auto simp: authorize_from_header_def split: if_splits)
qed

text \<open>
  C10: The gateway is no open relay. Whatever the commands of a connection were, whatever the API answered and however often the
  store changed on the way: a message DATA puts in the outbound queue was submitted over TLS on a signed-in submission
  connection, in a transaction whose envelope sender the store allowed the account, with a From header the store allows
  it now, to a recipient of the transaction; what it delivers here is for a recipient of the transaction the API said is here; and
  what it passes back through SRS goes to the address a valid SRS recipient carries, nowhere else.\<close>

theorem no_open_relay:
  assumes "reach conn_start (smtp_step cfg P) c" "cn_mail_ok c" "s = cn_session c"
    and "smtp_data cfg st ans now sp lim s = (lim', s', effects, reply)" "e \<in> set effects"
  shows "case e of
      Queued m \<Rightarrow> sm_submission s \<and> sm_authenticated s \<and> sm_tls s \<and> (\<exists>st0. P st0 \<and> authorized_sender st0 s (om_sender m))
        \<and> (\<exists>sm pm. sp = Spooled sm \<and> sp_parse sm = Parsed pm \<and> authorized_sender st s (pm_from pm))
        \<and> om_recipient m \<in> set (sm_rcpt_to s)
    | Delivered d \<Rightarrow> \<exists>i<length (sm_rcpt_to s). sm_rcpt_to s ! i = ld_address d \<and> da_check ans i = Inr True
    | Relayed b \<Rightarrow> \<exists>signer to at. xc_signer cfg = Some signer \<and> reverse (xc_mac cfg) signer to at = Inr (br_recipient b)
    | Persisted _ \<Rightarrow> sm_submission s \<and> sm_authenticated s"
  using assms(4)
proof (cases rule: data_cases)
  case refused
  then show ?thesis using assms(5) by simp
next
  case (handled found loop)
  have ok: "conn_ok cfg P c" by (rule smtp.reach_inv [OF assms(1)])
  have "effect_allowed s (lookup_in found) e"
    using handled assms(5) by (auto simp: adds_def first_state_def list_all_iff)
  then show ?thesis
  proof (cases e)
    case (Queued m)
    with \<open>effect_allowed s _ e\<close> have "signed_in s" "om_sender m = sm_mail_from s" "om_recipient m \<in> set (sm_rcpt_to s)"
      using found_again [OF handled(2)] by (auto simp: in_set_conv_nth)
    then show ?thesis using Queued ok assms(2,3) signed_in_checks [OF handled(1)] by (auto simp: conn_ok_def signed_in_def)
  next
    case (Relayed b)
    then show ?thesis using \<open>effect_allowed s _ e\<close> ok assms(3) by (fastforce simp: conn_ok_def)
  qed (use found_again [OF handled(2)] in \<open>auto simp: signed_in_def\<close>)
qed

definition db_store ::
  "(string \<Rightarrow> string + account_row option) \<Rightarrow> held option \<Rightarrow> string option \<Rightarrow> grants_db \<Rightarrow> time \<Rightarrow> (nat \<Rightarrow> string + bool) \<Rightarrow>
     (string \<Rightarrow> string + string) \<Rightarrow> (string \<Rightarrow> string + bool) \<Rightarrow> sender_store" where
  "db_store find_mailbox override fault d now usable policy hosted =
     \<lparr>sr_matches = sender_matches_account find_mailbox, sr_authorized = sender_authorized find_mailbox override fault d now,
      sr_may_send = account_may_send override fault d now, sr_credential_usable = usable, sr_policy = policy, sr_hosted = hosted\<rparr>"

lemma held_within_ceiling:
  assumes "load_held override fault d now i = Inr h" "\<not> allows h wildcard scope_all" "allows h c t"
  shows "allows (server_ceiling override d now) c t"
proof -
  have "h = within_sessions (within (fst (actor_held d now i)) (server_ceiling override d now))"
    using assms(1,2) by (auto simp: load_held_def within_server_alt split: option.splits if_splits)
  then show ?thesis using assms(3) by (auto dest!: within_sessions_allows simp: allows_within)
qed

lemma authorized_by_grant:
  assumes "authorized_sender (db_store find_mailbox override fault d now usable policy hosted) s addr"
  shows "\<exists>h box. load_held override fault d now (sm_account_id s) = Inr h \<and> allows h cap_mail_send (scope_of_mailbox (ac_address box))
     \<and> (box \<in> set (own_account d (sm_account_id s)) \<or> sm_credential_kind s = ''password'' \<and> find_mailbox addr = Inr (Some box))"
  using assms
  by (auto simp: authorized_sender_def may_send_as_def db_store_def account_may_send_def sender_authorized_def
      split: if_splits sum.splits bool.splits option.splits list.splits)

text \<open>
  C12: Sending needs a grant, at every message. What DATA queues comes from an account that holds \<open>mail:send\<close> in the grants
  tables as they stand then, on its own mailbox or, signed in with its password, on the mailbox its From header names; and
  unless it holds everything everywhere the server's ceiling allows \<open>mail:send\<close> there too. So a grant revoked, or the
  capability taken from the ceiling, stops a session that signed in before.\<close>

theorem sending_needs_a_grant:
  assumes "smtp_data cfg (db_store find_mailbox override fault d now usable policy hosted) ans at sp lim s = (lim', s', effects, reply)"
    and "Queued m \<in> set effects"
  shows "\<exists>h box sm pm. load_held override fault d now (sm_account_id s) = Inr h
     \<and> allows h cap_mail_send (scope_of_mailbox (ac_address box))
     \<and> sp = Spooled sm \<and> sp_parse sm = Parsed pm
     \<and> (box \<in> set (own_account d (sm_account_id s)) \<or> sm_credential_kind s = ''password'' \<and> find_mailbox (pm_from pm) = Inr (Some box))
     \<and> (allows h wildcard scope_all \<or> allows (server_ceiling override d now) cap_mail_send (scope_of_mailbox (ac_address box)))"
  using assms(1)
proof (cases rule: data_cases)
  case refused
  then show ?thesis using assms(2) by simp
next
  case (handled found loop)
  then have "signed_in s" using assms(2) by (auto simp: adds_def first_state_def list_all_iff)
  then obtain sm pm where "sp = Spooled sm" "sp_parse sm = Parsed pm"
    and "authorized_sender (db_store find_mailbox override fault d now usable policy hosted) s (pm_from pm)"
    using signed_in_checks [OF handled(1)] by blast
  moreover then obtain h box where "load_held override fault d now (sm_account_id s) = Inr h"
    "allows h cap_mail_send (scope_of_mailbox (ac_address box))"
    "box \<in> set (own_account d (sm_account_id s)) \<or> sm_credential_kind s = ''password'' \<and> find_mailbox (pm_from pm) = Inr (Some box)"
    using authorized_by_grant by blast
  ultimately show ?thesis using held_within_ceiling by blast
qed



section \<open>A session\<close>

text \<open>
  Ann signs in on the submission port and writes to a mailbox here, to a reserved alias and to an address elsewhere.
\<close>

definition sample_store :: sender_store where
  "sample_store = db_store (\<lambda>_. Inr None) (Some [\<lparr>en_scope = scope_all, en_capability = ''mail:send''\<rparr>,
       \<lparr>en_scope = scope_all, en_capability = cap_mailbox_session\<rparr>]) None sample_grants 0 (\<lambda>_. Inr True) (\<lambda>_. Inr ''mixed'') (\<lambda>_. Inr False)"

definition sample_smtp_config :: session_config where
  "sample_smtp_config =
     \<lparr>xc_hostname = ''mx.a.example'', xc_signer = None, xc_mac = (\<lambda>_ _. []), xc_bounce_max = 10, xc_window = minute,
      xc_tarpit = default_tarpit_policy, xc_max_received = 50, xc_rfc5322 = (\<lambda>_. ''Mon, 1 Jan 2024 00:00:00 +0000'')\<rparr>"

definition sample_answers :: data_answers where
  "sample_answers =
     \<lparr>da_budget = None, da_check = (\<lambda>i. Inr (i = 0 \<or> i = 2)), da_whole = None, da_bodies = None, da_persist = Inr (Some 7),
      da_enqueue = (\<lambda>_. None), da_relay = (\<lambda>_. None), da_prepare = None,
      da_deliver = (\<lambda>i. if i = 2 then Some (ApiError 550 ''rejected'' alias_refusal_message) else None), da_random = replicate 16 0\<rparr>"

definition sample_spooled :: spooled where
  "sample_spooled = \<lparr>sp_raw = ''From: ann@a.example'', sp_readable = True, sp_received = Some 0,
     sp_parse = Parsed \<lparr>pm_from = ''ann@a.example'', pm_message_id = ''1@a.example''\<rparr>, sp_unsubscribe = False\<rparr>"

definition sample_open :: "string \<Rightarrow> string \<Rightarrow> api_error + session_opened" where
  "sample_open user password =
     (if user = ''ann@a.example'' \<and> password = ''secret''
      then Inr \<lparr>so_account = 2, so_credential_id = 0, so_credential_kind = ''password'', so_token = ''t''\<rparr>
      else Inl (ApiError 401 ''unauthorized'' []))"

definition sample_conn :: "string list \<Rightarrow> smtp_conn" where
  "sample_conn rcpts =
     \<lparr>cn_session = (new_session True (Some (772, ''TLS_AES_128_GCM_SHA256'')) ''192.0.2.1:4321'' ''client'')\<lparr>sm_authenticated := True, sm_auth_email := ''ann@a.example'',
        sm_account_id := 2, sm_credential_kind := ''password'', sm_api_session := ''t'', sm_mail_from := ''ann@a.example'',
        sm_tx_start := Some 0, sm_rcpt_to := rcpts\<rparr>, cn_did_auth = True, cn_mail_ok = True\<rparr>"

definition sample_login :: "limiter \<times> smtp_session \<times> smtp_refusal option \<times> (string \<times> string) option" where
  "sample_login = smtp_login sample_smtp_config sample_open (False, False) 0 ''ann@a.example'' ''secret''
     (new_limiter \<lparr>lc_max_per_ip = 0, lc_max_global = 0, lc_auth_max_fails = 0, lc_auth_ban_window = 0, lc_auth_ban_duration = 0\<rparr>)
     (new_session True (Some (772, ''TLS_AES_128_GCM_SHA256'')) ''192.0.2.1:4321'' ''client'')"

lemma auth_step:
  assumes "\<not> cn_did_auth c" "r = smtp_login cfg open_session db_banned now user password l (cn_session c)"
  shows "smtp_step cfg P c (c\<lparr>cn_session := fst (snd r), cn_did_auth := (fst (snd (snd r)) = None)\<rparr>)"
  by (rule auth [where open_session = open_session and db_banned = db_banned and now = now and user = user and password = password
        and l = l and l' = "fst r" and asked = "snd (snd (snd r))", OF assms(1)]) (simp add: assms(2))

lemma sample_rcpt_step:
  assumes "validate_utf8_address to False 553 = None"
  shows "smtp_step sample_smtp_config ((=) st) (sample_conn rs) (sample_conn (rs @ [to]))"
proof -
  have "smtp_rcpt sample_smtp_config st 0 (\<lambda>_. Inr True) to (cn_session (sample_conn rs)) = (cn_session (sample_conn (rs @ [to])), None)"
    using assms by (simp add: smtp_rcpt_def sample_conn_def new_session_def rcpt_srs_def sample_smtp_config_def)
  moreover have "(sample_conn rs)\<lparr>cn_session := cn_session (sample_conn (rs @ [to]))\<rparr> = sample_conn (rs @ [to])" "cn_mail_ok (sample_conn rs)"
    by (simp_all add: sample_conn_def)
  ultimately show ?thesis using rcpt [of "sample_conn rs" "(=) st" st] by metis
qed

lemma sample_signed_in_reached:
  "reach conn_start (smtp_step sample_smtp_config P)
     ((sample_conn [])\<lparr>cn_session := (cn_session (sample_conn []))\<lparr>sm_mail_from := [], sm_tx_start := None\<rparr>, cn_mail_ok := False\<rparr>)"
    (is "reach _ ?step ?auth")
proof -
  let ?new = "new_conn True (Some (772, ''TLS_AES_128_GCM_SHA256'')) ''192.0.2.1:4321'' ''client''"
  have "?step ?new (?new\<lparr>cn_session := fst (snd sample_login), cn_did_auth := (fst (snd (snd sample_login)) = None)\<rparr>)"
    by (rule auth_step) (simp_all add: new_conn_def sample_login_def)
  moreover have "fst (snd sample_login) = cn_session ?auth" "fst (snd (snd sample_login)) = None" by code_simp+
  ultimately have "?step ?new ?auth" by (simp add: new_conn_def sample_conn_def)
  then show ?thesis by (intro reach_step [OF reach_start]) (auto simp: conn_start_def)
qed

lemma sample_conn_reached:
  "reach conn_start (smtp_step sample_smtp_config ((=) sample_store)) (sample_conn [''bob@a.example'', ''eve@b.example''])"
    (is "reach _ ?step _")
proof -
  let ?auth = "(sample_conn [])\<lparr>cn_session := (cn_session (sample_conn []))\<lparr>sm_mail_from := [], sm_tx_start := None\<rparr>, cn_mail_ok := False\<rparr>"
  have "smtp_mail sample_store 0 ''ann@a.example'' None (cn_session ?auth) = (cn_session (sample_conn []), None)" by code_simp
  from mail [where P = "(=) sample_store", OF refl this] have "?step ?auth (sample_conn [])" by (simp add: sample_conn_def)
  then have "reach conn_start ?step (sample_conn [])"
    by (rule reach_step [OF sample_signed_in_reached])
  then have "reach conn_start ?step (sample_conn [''bob@a.example''])"
    by (rule reach_step) (rule sample_rcpt_step [of _ _ "[]", simplified], code_simp)
  then show ?thesis
    by (rule reach_step) (rule sample_rcpt_step [of _ _ "[''bob@a.example'']", simplified], code_simp)
qed


definition sample_data :: "string list \<Rightarrow> submission_limiter option \<times> smtp_session \<times> smtp_effect list \<times> smtp_refusal option" where
  "sample_data rcpts = smtp_data sample_smtp_config sample_store sample_answers 0 (Spooled sample_spooled) None (cn_session (sample_conn rcpts))"

lemma sample_data_result:
  "smtp_data sample_smtp_config sample_store sample_answers 0 (Spooled sample_spooled) None
     (cn_session (sample_conn rcpts)) =
   (fst (sample_data rcpts), fst (snd (sample_data rcpts)), fst (snd (snd (sample_data rcpts))), snd (snd (snd (sample_data rcpts))))"
  by (simp add: sample_data_def)

lemma sample_queued: "\<exists>m. Queued m \<in> set (fst (snd (snd (sample_data [''bob@a.example'', ''eve@b.example'']))))"
proof -
  have "list_ex (\<lambda>e. case e of Queued _ \<Rightarrow> True | _ \<Rightarrow> False) (fst (snd (snd (sample_data [''bob@a.example'', ''eve@b.example'']))))" by code_simp
  then show ?thesis by (auto simp: list_ex_iff split: smtp_effect.splits) (metis smtp_effect.exhaust)
qed

theorem no_open_relay_witness:
  "\<exists>m. Queued m \<in> set (fst (snd (snd (sample_data [''bob@a.example'', ''eve@b.example'']))))
     \<and> authorized_sender sample_store (cn_session (sample_conn [''bob@a.example'', ''eve@b.example''])) (om_sender m)"
proof -
  obtain m where m: "Queued m \<in> set (fst (snd (snd (sample_data [''bob@a.example'', ''eve@b.example'']))))" using sample_queued by blast
  have "cn_mail_ok (sample_conn rs)" for rs by (simp add: sample_conn_def)
  from no_open_relay [OF sample_conn_reached this refl sample_data_result m] m show ?thesis by auto
qed

theorem sending_needs_a_grant_witness:
  "\<exists>m h. Queued m \<in> set (fst (snd (snd (sample_data [''bob@a.example'', ''eve@b.example'']))))
     \<and> load_held (Some [\<lparr>en_scope = scope_all, en_capability = ''mail:send''\<rparr>, \<lparr>en_scope = scope_all, en_capability = cap_mailbox_session\<rparr>])
         None sample_grants 0 2 = Inr h"
proof -
  obtain m where m: "Queued m \<in> set (fst (snd (snd (sample_data [''bob@a.example'', ''eve@b.example'']))))" using sample_queued by blast
  have "sm_account_id (cn_session (sample_conn rs)) = 2" for rs by (simp add: sample_conn_def new_session_def)
  with sending_needs_a_grant [OF sample_data_result [unfolded sample_store_def] m] m show ?thesis by auto
qed


text \<open>
  The exception the reply makes: an alias refused while delivering answers 550 for the whole message, although Bob has it
  and it is queued for Eve, so a client that sends it again sends those two a second copy.
\<close>

lemma alias_refusal_after_commit:
  "map reached_by (fst (snd (snd (sample_data [''bob@a.example'', ''eve@b.example'', ''alias@a.example''])))) =
     [[''bob@a.example''], [], [''eve@b.example'']]"
  "snd (snd (snd (sample_data [''bob@a.example'', ''eve@b.example'', ''alias@a.example'']))) =
     Some (smtp_reply 550 (5, 1, 1) alias_refusal_message)"
  by code_simp+

end
