(* ===== verification/Go_Unmarshal.thy ===== *)
theory Go_Unmarshal
  imports Go_Json
begin

text \<open>
  Package encoding/json on a slice of strings: \<^verbatim>\<open>json.Marshal\<close>, with HTML escaping on, and \<^verbatim>\<open>json.Unmarshal\<close> of
  any text into one. What is marshalled reads back.
\<close>

section \<open>Writing and reading\<close>

text \<open>\<open>json.Marshal\<close> escapes for HTML what the encoder of \<open>Go_Json\<close> leaves.\<close>

definition html_escape :: "string \<Rightarrow> string" where
  "html_escape s = concat (map (\<lambda>c. if c = CHR ''<'' \<or> c = CHR ''>'' \<or> c = CHR ''&'' then json_u (bcode c) else [c]) s)"

definition marshal_string :: "string \<Rightarrow> string" where
  "marshal_string s = CHR 34 # html_escape (json_escape s) @ [CHR 34]"

text \<open>\<open>json.Unmarshal\<close> into a slice of strings.\<close>

definition hex_digit_value :: "char \<Rightarrow> nat option" where
  "hex_digit_value c =
     (let n = bcode c in
      if 48 \<le> n \<and> n \<le> 57 then Some (n - 48) else if 97 \<le> n \<and> n \<le> 102 then Some (n - 87)
      else if 65 \<le> n \<and> n \<le> 70 then Some (n - 55) else None)"

fun hex4 :: "string \<Rightarrow> (nat \<times> string) option" where
  "hex4 (a # b # c # d # rest) =
     (case (hex_digit_value a, hex_digit_value b, hex_digit_value c, hex_digit_value d) of
        (Some a', Some b', Some c', Some d') \<Rightarrow> Some (a' * 4096 + b' * 256 + c' * 16 + d', rest)
      | _ \<Rightarrow> None)"
| "hex4 _ = None"

definition surrogate_half :: "nat \<Rightarrow> bool" where "surrogate_half r \<longleftrightarrow> 0xD800 \<le> r \<and> r < 0xE000"

text \<open>A second half after \<open>r\<close> makes one rune of both; a half alone is read as U+FFFD.\<close>

definition unescape_u :: "string \<Rightarrow> (string \<times> string) option" where
  "unescape_u s =
     (case hex4 s of
        None \<Rightarrow> None
      | Some (r, rest) \<Rightarrow>
          if \<not> surrogate_half r then Some (encode_rune r, rest)
          else case rest of
            b # u # rest1 \<Rightarrow>
              (if b = CHR 92 \<and> u = CHR ''u'' then
                 (case hex4 rest1 of
                    Some (r2, rest2) \<Rightarrow>
                      if r < 0xDC00 \<and> 0xDC00 \<le> r2 \<and> r2 < 0xE000
                      then Some (encode_rune ((r - 0xD800) * 1024 + (r2 - 0xDC00) + 0x10000), rest2)
                      else Some (encode_rune rune_error, rest)
                  | None \<Rightarrow> Some (encode_rune rune_error, rest))
               else Some (encode_rune rune_error, rest))
          | _ \<Rightarrow> Some (encode_rune rune_error, rest))"

lemma hex4_shorter: "hex4 s = Some (r, t) \<Longrightarrow> length t < length s"
  by (induction s rule: hex4.induct) (auto split: option.splits)

lemma unescape_u_shorter: "unescape_u s = Some (c, t) \<Longrightarrow> length t < length s"
  by (auto simp: unescape_u_def split: option.splits if_splits list.splits prod.splits dest!: hex4_shorter)

function unmarshal_string :: "string \<Rightarrow> (string \<times> string) option" where
  "unmarshal_string [] = None"
| "unmarshal_string (c # cs) =
     (if c = CHR 34 then Some ([], cs)
      else if c = CHR 92 then
        (case cs of
           [] \<Rightarrow> None
         | e # es \<Rightarrow>
             if e = CHR ''u'' then
               (case unescape_u es of None \<Rightarrow> None | Some (r, rest) \<Rightarrow> map_option (apfst ((@) r)) (unmarshal_string rest))
             else if e \<in> set [CHR 34, CHR 92, CHR ''/'', CHR ''b'', CHR ''f'', CHR ''n'', CHR ''r'', CHR ''t'']
             then map_option (apfst ((#) (unescape_byte e))) (unmarshal_string es) else None)
      else if bcode c < 32 then None
      else case decode_rune (c # cs) of
        None \<Rightarrow> map_option (apfst ((@) (encode_rune rune_error))) (unmarshal_string cs)
      | Some (r, n) \<Rightarrow> map_option (apfst ((@) (take n (c # cs)))) (unmarshal_string (drop (n - 1) cs)))"
  by pat_completeness auto
termination
  by (relation "measure length") (auto dest: unescape_u_shorter)

definition json_space :: "char \<Rightarrow> bool" where
  "json_space c \<longleftrightarrow> c = CHR '' '' \<or> c = CHR 0x09 \<or> c = CHR 0x0A \<or> c = CHR 0x0D"

text \<open>An element is a string, or null, which leaves the empty string. The fuel is the number of elements that can follow.\<close>

definition unmarshal_element :: "string \<Rightarrow> (string \<times> string) option" where
  "unmarshal_element s =
     (case s of [] \<Rightarrow> None
      | c # cs \<Rightarrow> if c = CHR 34 then unmarshal_string cs else if has_prefix s ''null'' then Some ([], drop 4 s) else None)"

fun unmarshal_elements :: "nat \<Rightarrow> string \<Rightarrow> (string list \<times> string) option" where
  "unmarshal_elements 0 s = None"
| "unmarshal_elements (Suc n) s =
     (case unmarshal_element (dropWhile json_space s) of
        None \<Rightarrow> None
      | Some (x, rest) \<Rightarrow>
          (case dropWhile json_space rest of
             [] \<Rightarrow> None
           | c # rest1 \<Rightarrow>
               if c = CHR '']'' then Some ([x], rest1)
               else if c = CHR '','' then map_option (apfst ((#) x)) (unmarshal_elements n rest1) else None))"

definition unmarshal_strings :: "string \<Rightarrow> string list option" where
  "unmarshal_strings s0 =
     (let s = dropWhile json_space s0 in
      if has_prefix s ''null'' \<and> dropWhile json_space (drop 4 s) = [] then Some []
      else case s of
        c # cs \<Rightarrow>
          if c \<noteq> CHR ''['' then None
          else (case dropWhile json_space cs of
                  [] \<Rightarrow> None
                | d # ds \<Rightarrow>
                    if d = CHR '']'' then (if dropWhile json_space ds = [] then Some [] else None)
                    else (case unmarshal_elements (length cs) cs of
                            Some (xs, rest) \<Rightarrow> if dropWhile json_space rest = [] then Some xs else None
                          | None \<Rightarrow> None))
      | [] \<Rightarrow> None)"


section \<open>What is marshalled reads back\<close>

lemma html_escape_append: "html_escape (a @ b) = html_escape a @ html_escape b"
  by (simp add: html_escape_def)

lemma json_hex_plain: "n < 16 \<Longrightarrow> json_hex n \<noteq> CHR ''<'' \<and> json_hex n \<noteq> CHR ''>'' \<and> json_hex n \<noteq> CHR ''&''"
proof -
  assume "n < 16"
  then have "bcode (json_hex n) \<in> {48..57} \<union> {97..102}" by (auto simp: json_hex_def)
  then show ?thesis by auto
qed

lemma html_escape_u: "html_escape (json_u r) = json_u r"
  using json_hex_plain by (simp add: json_u_def html_escape_def)

lemma html_escape_high: "\<forall>c\<in>set bs. 128 \<le> bcode c \<Longrightarrow> html_escape bs = bs"
proof (induction bs)
  case (Cons b bs)
  then have "b \<noteq> CHR ''<''" "b \<noteq> CHR ''>''" "b \<noteq> CHR ''&''" by auto
  then show ?case using Cons by (simp add: html_escape_def)
qed (simp add: html_escape_def)

lemma hex_digit_value_hex: "n < 16 \<Longrightarrow> hex_digit_value (json_hex n) = Some n"
  by (auto simp: hex_digit_value_def json_hex_def)

lemma unescape_u_small:
  assumes "r < 65536" "\<not> surrogate_half r"
  shows "unescape_u (drop 2 (json_u r) @ s) = Some (encode_rune r, s)"
proof -
  have "r div 4096 mod 16 = r div 4096" using assms(1) by simp
  then show ?thesis using assms hex_digits_value [of r] by (simp add: unescape_u_def json_u_def hex_digit_value_hex)
qed

lemma unmarshal_u:
  assumes "r < 65536" "\<not> surrogate_half r"
  shows "unmarshal_string (json_u r @ s) = map_option (apfst ((@) (encode_rune r))) (unmarshal_string s)"
proof -
  have "unmarshal_string (json_u r @ s) =
      (case unescape_u (drop 2 (json_u r) @ s) of None \<Rightarrow> None | Some (r, rest) \<Rightarrow> map_option (apfst ((@) r)) (unmarshal_string rest))"
    by (simp add: json_u_def)
  then show ?thesis by (simp add: unescape_u_small [OF assms])
qed

lemma unmarshal_byte:
  assumes "bcode c < 128"
  shows "unmarshal_string (html_escape (json_byte c) @ s) = map_option (apfst ((#) c)) (unmarshal_string s)"
proof -
  have u: "unmarshal_string (json_u (bcode c) @ s) = map_option (apfst ((#) c)) (unmarshal_string s)"
    using assms unmarshal_u [of "bcode c" s] by (simp add: surrogate_half_def encode_rune_small append_one)
  consider "c = CHR 34" | "c = CHR 92" | "bcode c = 8" | "bcode c = 12" | "bcode c = 10" | "bcode c = 13" | "bcode c = 9"
    | (ctl) "bcode c < 32" "bcode c \<notin> {8, 9, 10, 12, 13}"
    | (html) "c = CHR ''<'' \<or> c = CHR ''>'' \<or> c = CHR ''&''"
    | (plain) "32 \<le> bcode c" "c \<noteq> CHR 34" "c \<noteq> CHR 92" "c \<noteq> CHR ''<''" "c \<noteq> CHR ''>''" "c \<noteq> CHR ''&''"
    by fastforce
  then show ?thesis
  proof cases
    case ctl
    then have "json_byte c = json_u (bcode c)" by (auto simp: json_byte_def)
    then show ?thesis by (simp add: html_escape_u u)
  next
    case html
    then have "html_escape (json_byte c) = json_u (bcode c)" by (auto simp: json_byte_def html_escape_def)
    then show ?thesis by (simp add: u)
  next
    case plain
    then have "html_escape (json_byte c) = [c]" by (auto simp: json_byte_def html_escape_def)
    moreover have "decode_rune (c # s) = Some (bcode c, 1)" using assms by (simp add: decode_rune_ascii)
    ultimately show ?thesis using plain by (simp add: append_one)
  qed (auto simp: json_byte_def html_escape_def unescape_byte_def dest!: bcode_eq)
qed

lemma unmarshal_rune:
  assumes "decode_rune (c # cs) = Some (r, n)" "128 \<le> bcode c"
  shows "unmarshal_string (take n (c # cs) @ s) = map_option (apfst ((@) (take n (c # cs)))) (unmarshal_string s)"
proof -
  note w = decode_rune_width [OF assms(1)]
  then obtain k where k: "n = Suc k" by (cases n) auto
  have "decode_rune (take n (c # cs) @ s) = Some (r, n)"
    using decode_rune_append [OF decode_rune_take [OF assms(1)]] by simp
  moreover have "c \<noteq> CHR 34" "c \<noteq> CHR 92" "\<not> bcode c < 32" using assms(2) by auto
  ultimately show ?thesis using k w by simp
qed

lemma unmarshal_escape:
  "valid_utf8 s \<Longrightarrow> unmarshal_string (html_escape (json_escape s) @ CHR 34 # t) = Some (s, t)"
proof (induction s rule: json_escape.induct)
  case 1
  then show ?case by (simp add: html_escape_def)
next
  case (2 c cs)
  then obtain r n where d: "decode_rune (c # cs) = Some (r, n)" "valid_utf8 (drop (n - 1) cs)"
    using valid_utf8_Cons by blast
  show ?case
  proof (cases "bcode c < 128")
    case True
    with d have "valid_utf8 cs" by (auto simp: decode_rune_ascii)
    with True 2(1) show ?thesis by (simp add: unmarshal_byte html_escape_append)
  next
    case False
    from decode_rune_width [OF d(1)] obtain k where k: "n = Suc k" by (cases n) auto
    have IH: "unmarshal_string (html_escape (json_escape (drop (n - 1) cs)) @ CHR 34 # t) = Some (drop (n - 1) cs, t)"
      using 2(3) [OF False d(1) refl] d(2) by simp
    have high: "\<forall>x \<in> set (take n (c # cs)). 128 \<le> bcode x"
      using decode_rune_multi [OF d(1)] False k by auto
    have whole: "take n (c # cs) @ drop (n - 1) cs = c # cs" using k by simp
    have "encode_rune r = take n (c # cs)" using decode_rune_bytes [OF d(1)] by simp
    then show ?thesis
      using False d(1) IH whole unmarshal_rune [OF d(1)] html_escape_high [OF high]
      by (cases "r = 8232 \<or> r = 8233") (auto simp: html_escape_append html_escape_u unmarshal_u surrogate_half_def)
  qed
qed

lemma unmarshal_element_marshal:
  "valid_utf8 x \<Longrightarrow> unmarshal_element (dropWhile json_space (marshal_string x @ t)) = Some (x, t)"
  by (simp add: marshal_string_def unmarshal_element_def json_space_def unmarshal_escape)

lemma unmarshal_elements_marshal:
  "list_all valid_utf8 (x # xs) \<Longrightarrow> length xs < n \<Longrightarrow>
     unmarshal_elements n (join '','' (map marshal_string (x # xs)) @ '']'' @ t) = Some (x # xs, t)"
proof (induction xs arbitrary: x n)
  case Nil
  then obtain m where "n = Suc m" by (cases n) auto
  then show ?case using Nil by (simp add: unmarshal_element_marshal json_space_def)
next
  case (Cons y ys)
  then obtain m where m: "n = Suc m" by (cases n) auto
  then have "unmarshal_elements m (join '','' (map marshal_string (y # ys)) @ '']'' @ t) = Some (y # ys, t)" using Cons by simp
  then show ?case using Cons.prems m by (simp add: unmarshal_element_marshal json_space_def)
qed

end
