(* ===== verification/Pipeline_Sieve.thy ===== *)
theory Pipeline_Sieve
  imports Pipeline_Filters Go_Unmarshal
begin

text \<open>
  Sieve: the filter of \<^verbatim>\<open>internal/pipeline/filters/sieve.go\<close>, the steps a mailbox's own script takes in a pipeline
  (\<^verbatim>\<open>internal/api/handlers/account_sieve.go\<close>) and the forwarding of what a script redirects
  (\<^verbatim>\<open>internal/api/handlers/redirect_forward.go\<close>). The parser and interpreter are go-sieve's, so a parsed script is an
  argument: from a message it gives the actions it calls on the executor, in order, and its outcome. The executor's methods
  answer nothing, so a script cannot depend on them. The decoded JSON configuration is an argument of the constructor.
\<close>

section \<open>Redirect targets as metadata\<close>

definition encode_redirect_targets :: "string list \<Rightarrow> string" where
  "encode_redirect_targets targets = ''['' @ join '','' (map marshal_string targets) @ '']''"

definition decode_redirect_targets :: "string \<Rightarrow> string list" where
  "decode_redirect_targets raw = (if raw = [] then [] else case unmarshal_strings raw of None \<Rightarrow> [] | Some out \<Rightarrow> out)"

section \<open>Scripts\<close>

record vacation_action =
  va_reply_to :: string
  va_handle :: string
  va_handle_set :: bool
  va_subject :: string
  va_subject_set :: bool
  va_body :: string
  va_mime :: bool
  va_from :: string
  va_interval :: duration

datatype sieve_action =
    Keep
  | FileInto string bool
  | Redirect string bool
  | Flag string "string list"
  | Vacation vacation_action
  | Notify string string

datatype disposition = SieveContinue | SieveDiscard | SieveReject

record sieve_outcome =
  so_disposition :: disposition
  so_reject_reason :: string
  so_extended_reject :: bool
  so_implicit_keep :: bool
  so_error :: "string option"

record sieve_message =
  sg_headers :: headers
  sg_from :: string
  sg_to :: "string list"
  sg_body :: body
  sg_attachment_sizes :: "int list"

record sieve_script =
  sc_empty :: bool
  sc_evaluate :: "sieve_message \<Rightarrow> sieve_action list \<times> sieve_outcome"

record redirect_policy =
  rp_allow_external :: bool
  rp_allowed_domains :: "string list"

definition default_sieve_redirect_policy :: redirect_policy where
  "default_sieve_redirect_policy = \<lparr>rp_allow_external = False, rp_allowed_domains = []\<rparr>"

record sieve_config =
  sf_script :: string
  sf_script_hash :: string
  sf_mailbox_id :: nat

record sieve_filter =
  fi_script :: "sieve_script option"
  fi_redirect :: redirect_policy

definition hash_sieve_script :: "(string \<Rightarrow> string) \<Rightarrow> string \<Rightarrow> string" where
  "hash_sieve_script sha256 script = hex_bytes (map of_char (sha256 script))"

definition new_sieve_filter ::
  "(string \<Rightarrow> string + sieve_script) \<Rightarrow> (string \<Rightarrow> string) \<Rightarrow> redirect_policy \<Rightarrow> sieve_config \<Rightarrow> string + sieve_filter" where
  "new_sieve_filter parse sha256 policy cfg =
     (if sf_script cfg = [] then Inr \<lparr>fi_script = None, fi_redirect = policy\<rparr>
      else if sf_script_hash cfg \<noteq> [] \<and> hash_sieve_script sha256 (sf_script cfg) \<noteq> sf_script_hash cfg
      then Inl (''sieve script hash mismatch (mailbox_id='' @ nat_dec (sf_mailbox_id cfg) @
                ''): stored script no longer matches its validated install-time hash'')
      else case parse (sf_script cfg) of
        Inl e \<Rightarrow> Inl (''parse sieve: '' @ e)
      | Inr script \<Rightarrow> Inr \<lparr>fi_script = Some script, fi_redirect = policy\<rparr>)"

section \<open>Addresses\<close>

definition domain_of :: "string \<Rightarrow> string" where
  "domain_of addr0 =
     (let addr = trim_space addr0 in
      case last_index_byte addr (CHR ''@'') of
        Some i \<Rightarrow> if i + 1 < length addr then to_lower (trim_suffix (drop (i + 1) addr) ''.'') else []
      | None \<Rightarrow> [])"

definition normalize_addr :: "string \<Rightarrow> string" where
  "normalize_addr addr = to_lower (trim_space (trim_suffix (trim_prefix (trim_space addr) ''<'') ''>''))"

definition delivered_to_headers :: "(string \<times> string list) list \<Rightarrow> string list" where
  "delivered_to_headers raw = concat (map snd (filter (\<lambda>h. equal_fold (fst h) ''Delivered-To'') raw))"

definition distinct_domains :: "string list \<Rightarrow> string list" where
  "distinct_domains addrs = fold (\<lambda>a out. let d = domain_of a in if d = [] \<or> d \<in> set out then out else out @ [d]) addrs []"

definition recipient_domains :: "email \<Rightarrow> string list" where
  "recipient_domains m =
     (let out = distinct_domains (ev_rcpt_to (em_envelope m)) in
      if out = [] then distinct_domains (map ad_address (hd_to (em_headers m) @ hd_cc (em_headers m))) else out)"

section \<open>The executor\<close>

record sieve_exec =
  ex_email :: email
  ex_applied :: "string list"
  ex_targets :: "string list"
  ex_local :: bool

definition set_metadata :: "string \<Rightarrow> string \<Rightarrow> email \<Rightarrow> email" where
  "set_metadata k v m = m\<lparr>em_metadata := AList.update k v (em_metadata m)\<rparr>"

definition applied :: "string \<Rightarrow> sieve_exec \<Rightarrow> sieve_exec" where
  "applied what x = x\<lparr>ex_applied := ex_applied x @ [what]\<rparr>"

definition redirect_allowed :: "redirect_policy \<Rightarrow> string list \<Rightarrow> string \<Rightarrow> bool" where
  "redirect_allowed policy local_domains addr \<longleftrightarrow>
     domain_of addr \<noteq> [] \<and>
     (domain_of addr \<in> set local_domains \<or> rp_allow_external policy \<or>
      list_ex (\<lambda>d. equal_fold (trim_space d) (domain_of addr)) (rp_allowed_domains policy))"

definition redirect_loops :: "email \<Rightarrow> string \<Rightarrow> bool" where
  "redirect_loops m addr \<longleftrightarrow>
     (let target = normalize_addr addr in
      target = [] \<or> list_ex (\<lambda>dt. normalize_addr dt = target) (delivered_to_headers (hd_raw (em_headers m)))
        \<or> list_ex (\<lambda>r. normalize_addr r = target) (ev_rcpt_to (em_envelope m)))"

definition exec_redirect :: "redirect_policy \<Rightarrow> string list \<Rightarrow> string \<Rightarrow> bool \<Rightarrow> sieve_exec \<Rightarrow> sieve_exec" where
  "exec_redirect policy local_domains addr is_copy x =
     (if \<not> redirect_allowed policy local_domains addr then applied (''redirect-denied:'' @ addr) x
      else if redirect_loops (ex_email x) addr then applied (''redirect-loop-suppressed:'' @ addr) x
      else applied ((if is_copy then ''redirect:copy:'' else ''redirect:'') @ addr) (x\<lparr>ex_targets := ex_targets x @ [addr]\<rparr>))"

fun unique_strings_from :: "string list \<Rightarrow> string list \<Rightarrow> string list" where
  "unique_strings_from seen [] = []"
| "unique_strings_from seen (s # ss) =
     (if s \<in> set seen then unique_strings_from seen ss else s # unique_strings_from (s # seen) ss)"

definition unique_strings :: "string list \<Rightarrow> string list" where "unique_strings ss = unique_strings_from [] ss"

definition apply_flags :: "string \<Rightarrow> string list \<Rightarrow> email \<Rightarrow> email" where
  "apply_flags op fs m =
     (let current = str_fields (lookup (em_metadata m) ''imap_flags'');
          now = (if op = ''setflag'' then unique_strings fs
                 else if op = ''addflag'' then unique_strings (current @ fs)
                 else if op = ''removeflag'' then filter (\<lambda>f. f \<notin> set fs) current
                 else current)
      in set_metadata ''imap_flags'' (join '' '' now) m)"

definition vacation_dedup_key :: "(string \<Rightarrow> string) \<Rightarrow> string \<Rightarrow> string \<Rightarrow> string" where
  "vacation_dedup_key sha256 sender handle =
     hex_bytes (map of_char (take 8 (sha256 (to_lower (trim_space sender) @ [CHR 0x00] @ handle))))"

definition go_bool :: "bool \<Rightarrow> string" where "go_bool b = (if b then ''true'' else ''false'')"

definition vacation_handle_text :: "vacation_action \<Rightarrow> string" where
  "vacation_handle_text v =
     (if va_handle_set v then va_handle v
      else ''derived'' @ [CHR 0x00] @ va_subject v @ [CHR 0x00] @ va_from v @ [CHR 0x00] @ go_bool (va_mime v) @ [CHR 0x00] @ va_body v)"

definition quot :: "int \<Rightarrow> int \<Rightarrow> int" where
  "quot a b = (if 0 \<le> a then a div b else - ((- a) div b))"

definition exec_vacation :: "(string \<Rightarrow> string) \<Rightarrow> vacation_action \<Rightarrow> sieve_exec \<Rightarrow> sieve_exec" where
  "exec_vacation sha256 v x =
     (let last_sent = ''vacation_last_sent_'' @ vacation_dedup_key sha256 (va_reply_to v) (va_handle v) in
      if map_of (em_metadata (ex_email x)) last_sent \<noteq> None then applied ''vacation:dedup-suppressed'' x
      else
        (let m1 = set_metadata ''vacation_reply_to'' (va_reply_to v) (ex_email x);
             m2 = (if va_subject_set v then set_metadata ''vacation_reply_subject'' (va_subject v) m1 else m1);
             m3 = set_metadata ''vacation_reply_body'' (va_body v) m2;
             m4 = (if va_mime v then set_metadata ''vacation_reply_mime'' ''true'' m3 else m3);
             m5 = (if va_from v \<noteq> [] then set_metadata ''vacation_reply_from'' (va_from v) m4 else m4);
             m6 = set_metadata ''vacation_handle'' (hex_bytes (map of_char (take 16 (sha256 (vacation_handle_text v))))) m5;
             m7 = set_metadata ''vacation_seconds'' (int_dec (quot (va_interval v) second)) m6
         in applied (''vacation:'' @ va_reply_to v) (x\<lparr>ex_email := set_metadata last_sent ''pending'' m7\<rparr>)))"

fun exec_action :: "(string \<Rightarrow> string) \<Rightarrow> redirect_policy \<Rightarrow> string list \<Rightarrow> sieve_action \<Rightarrow> sieve_exec \<Rightarrow> sieve_exec" where
  "exec_action sha256 policy locals Keep x = applied ''keep'' (x\<lparr>ex_local := True\<rparr>)"
| "exec_action sha256 policy locals (FileInto folder mk) x =
     applied (''fileinto:'' @ folder)
       (x\<lparr>ex_email := (if mk then set_metadata ''deliver_to_folder_create'' ''true'' else id)
            (set_metadata ''deliver_to_folder'' folder (ex_email x)), ex_local := True\<rparr>)"
| "exec_action sha256 policy locals (Redirect addr is_copy) x = exec_redirect policy locals addr is_copy x"
| "exec_action sha256 policy locals (Flag op fs) x =
     applied (op @ '':'' @ join '' '' fs) (x\<lparr>ex_email := apply_flags op fs (ex_email x)\<rparr>)"
| "exec_action sha256 policy locals (Vacation v) x = exec_vacation sha256 v x"
| "exec_action sha256 policy locals (Notify method msg) x =
     applied (''notify:'' @ method)
       (x\<lparr>ex_email := set_metadata ''notify_message'' msg (set_metadata ''notify_method'' method (ex_email x))\<rparr>)"

section \<open>The filter\<close>

definition sieve_message_of :: "email \<Rightarrow> sieve_message" where
  "sieve_message_of m =
     \<lparr>sg_headers = (em_headers m)\<lparr>hd_extra := []\<rparr>,
      sg_from = (if lookup (em_metadata m) ''envelope_from'' \<noteq> [] then lookup (em_metadata m) ''envelope_from'' else ev_mail_from (em_envelope m)),
      sg_to = (if lookup (em_metadata m) ''envelope_to'' \<noteq> [] then [lookup (em_metadata m) ''envelope_to''] else ev_rcpt_to (em_envelope m)),
      sg_body = em_body m, sg_attachment_sizes = map at_size (em_attachments m)\<rparr>"

definition transform_result :: "action \<Rightarrow> email option \<Rightarrow> string \<Rightarrow> string \<Rightarrow> string \<Rightarrow> filter_result" where
  "transform_result act msg reject_msg result detail =
     \<lparr>fr_type = FilterTypeTransform, fr_action = act, fr_message = msg, fr_skip_filters = [], fr_reject_msg = reject_msg,
      fr_log = \<lparr>fl_filter = ''sieve'', fl_result = result, fl_detail = detail\<rparr>\<rparr>"

definition reject_verb :: "sieve_outcome \<Rightarrow> string" where
  "reject_verb oc = (if so_extended_reject oc then ''sieve ereject'' else ''sieve reject'')"

definition record_redirects :: "sieve_outcome \<Rightarrow> sieve_exec \<Rightarrow> email" where
  "record_redirects oc x =
     (if ex_targets x = [] then ex_email x
      else let m = set_metadata ''redirect_to'' (encode_redirect_targets (ex_targets x)) (ex_email x)
           in if so_implicit_keep oc \<or> ex_local x then m else set_metadata ''redirect_suppress_keep'' ''true'' m)"

definition sieve_log :: "sieve_outcome \<Rightarrow> sieve_exec \<Rightarrow> string \<times> string" where
  "sieve_log oc x =
     (case so_error oc of
        Some e \<Rightarrow> (''kept'', ''evaluation error, kept (fail-safe): '' @ e)
      | None \<Rightarrow>
          if ex_applied x \<noteq> [] then (''transformed'', ''applied: '' @ join '', '' (ex_applied x))
          else if so_implicit_keep oc then (''kept'', ''implicit keep -> INBOX'')
          else (''transformed'', ''no rules matched''))"

definition sieve_result :: "sieve_outcome \<Rightarrow> sieve_exec \<Rightarrow> filter_result" where
  "sieve_result oc x =
     (case so_disposition oc of
        SieveDiscard \<Rightarrow> transform_result ActionDiscard None [] ''discard'' ''sieve discard action''
      | SieveReject \<Rightarrow>
          transform_result ActionReject None (''550 '' @ so_reject_reason oc) ''reject'' (reject_verb oc @ '': '' @ so_reject_reason oc)
      | SieveContinue \<Rightarrow>
          transform_result ActionContinue (Some (record_redirects oc x)) [] (fst (sieve_log oc x)) (snd (sieve_log oc x)))"

definition start_exec :: "email \<Rightarrow> sieve_exec" where
  "start_exec m = \<lparr>ex_email = m, ex_applied = [], ex_targets = [], ex_local = False\<rparr>"

definition run_script :: "(string \<Rightarrow> string) \<Rightarrow> redirect_policy \<Rightarrow> sieve_action list \<Rightarrow> email \<Rightarrow> sieve_exec" where
  "run_script sha256 policy actions m =
     fold (exec_action sha256 policy (recipient_domains m)) actions (start_exec m)"

definition sieve_execute :: "(string \<Rightarrow> string) \<Rightarrow> sieve_filter \<Rightarrow> email \<Rightarrow> filter_result" where
  "sieve_execute sha256 f m =
     (case fi_script f of
        None \<Rightarrow> transform_result ActionContinue (Some m) [] ''pass'' ''no sieve rules''
      | Some script \<Rightarrow>
          if sc_empty script then transform_result ActionContinue (Some m) [] ''pass'' ''no sieve rules''
          else case sc_evaluate script (sieve_message_of m) of
            (actions, oc) \<Rightarrow> sieve_result oc (run_script sha256 (fi_redirect f) actions m))"


section \<open>Validation when a script is installed\<close>

record recording =
  rc_actions :: "string list"
  rc_err :: "string option"

definition first_err :: "string \<Rightarrow> string option \<Rightarrow> string option" where
  "first_err e prev = (case prev of None \<Rightarrow> Some e | Some p \<Rightarrow> Some p)"

fun record_action :: "sieve_action \<Rightarrow> recording \<Rightarrow> recording" where
  "record_action Keep r = r\<lparr>rc_actions := rc_actions r @ [''keep'']\<rparr>"
| "record_action (FileInto folder _) r = r\<lparr>rc_actions := rc_actions r @ [''fileinto:'' @ folder]\<rparr>"
| "record_action (Redirect addr _) r =
     r\<lparr>rc_actions := rc_actions r @ [''redirect:'' @ addr],
       rc_err := (if domain_of addr = []
                  then first_err (''redirect target '' @ go_quote addr @ '' is not a valid email address (no domain)'') (rc_err r)
                  else rc_err r)\<rparr>"
| "record_action (Flag op fs) r = r\<lparr>rc_actions := rc_actions r @ [op @ '':'' @ join '' '' fs]\<rparr>"
| "record_action (Vacation v) r =
     r\<lparr>rc_actions := rc_actions r @ [''vacation:'' @ va_reply_to v],
       rc_err := first_err (''the Sieve 'vacation' action is not supported by this server '' @
         ''(configure out-of-office via the mailbox vacation settings instead)'') (rc_err r)\<rparr>"
| "record_action (Notify method _) r =
     r\<lparr>rc_actions := rc_actions r @ [''notify:'' @ method],
       rc_err := first_err (''the Sieve 'notify' action is not supported by this server'') (rc_err r)\<rparr>"

definition dry_run_message :: sieve_message where
  "dry_run_message =
     \<lparr>sg_headers = \<lparr>hd_from = [\<lparr>ad_name = ''Test Sender'', ad_address = ''sender@example.com''\<rparr>],
        hd_to = [\<lparr>ad_name = [], ad_address = ''recipient@example.com''\<rparr>], hd_cc = [], hd_bcc = [],
        hd_subject = ''Sieve install validation'', hd_date = ''Mon, 02 Jan 2006 15:04:05 -0700'',
        hd_message_id = ''<install-validation@example.com>'', hd_in_reply_to = [], hd_references = [],
        hd_raw = [(''From'', [''Test Sender <sender@example.com>'']), (''To'', [''recipient@example.com'']),
          (''Subject'', [''Sieve install validation''])], hd_extra = []\<rparr>,
      sg_from = ''sender@example.com'', sg_to = [''recipient@example.com''],
      sg_body = Body ''text/plain'' ''This is a synthetic message used to dry-run a Sieve script at install time.'' [],
      sg_attachment_sizes = []\<rparr>"

definition dry_run_sieve :: "sieve_script \<Rightarrow> string option" where
  "dry_run_sieve script =
     rc_err (fold record_action (fst (sc_evaluate script dry_run_message)) \<lparr>rc_actions = [], rc_err = None\<rparr>)"

text \<open>The first match of \<^verbatim>\<open>requires "([^"]+)" to be declared with require\<close>.\<close>

fun missing_require_cap :: "string \<Rightarrow> string" where
  "missing_require_cap [] = []"
| "missing_require_cap (c # cs) =
     (let intro = ''requires '' @ [CHR 34]; s = c # cs; rest = drop (length intro) s; name = takeWhile (\<lambda>d. d \<noteq> CHR 34) rest in
      if has_prefix s intro \<and> name \<noteq> [] \<and>
         has_prefix (drop (length name) rest) (CHR 34 # '' to be declared with require'') then name
      else missing_require_cap cs)"

record sieve_install_error =
  ie_stage :: string
  ie_missing_require :: string
  ie_err :: string

definition validate_sieve_for_install :: "(string \<Rightarrow> string + sieve_script) \<Rightarrow> string \<Rightarrow> sieve_install_error option" where
  "validate_sieve_for_install parse script =
     (if trim_space script = [] then None
      else case parse script of
        Inl e \<Rightarrow> Some \<lparr>ie_stage = ''parse'', ie_missing_require = missing_require_cap e, ie_err = e\<rparr>
      | Inr parsed \<Rightarrow>
          (case dry_run_sieve parsed of
             Some e \<Rightarrow> Some \<lparr>ie_stage = ''dryrun'', ie_missing_require = [], ie_err = e\<rparr>
           | None \<Rightarrow> None))"

definition install_error_text :: "sieve_install_error \<Rightarrow> string" where
  "install_error_text e =
     (if ie_stage e = ''dryrun'' then ''sieve script failed a safe dry-run: '' @ ie_err e
      else if ie_missing_require e \<noteq> [] then
        ''sieve parse error: '' @ ie_err e @ '' (the script uses an extension it does not declare '' @ map char_of [226, 128, 148 :: nat] @
        '' add: require '' @ [CHR 34] @ ie_missing_require e @ [CHR 34] @ '';)''
      else ''sieve parse error: '' @ ie_err e)"

section \<open>The mailbox's own script in a pipeline (account_sieve.go)\<close>

record sieve_row =
  sv_mailbox :: nat
  sv_script :: string
  sv_hash :: string
  sv_active :: bool

text \<open>\<open>fault\<close> is an error of the query other than finding no row.\<close>

definition active_sieve_script :: "string option \<Rightarrow> sieve_row list \<Rightarrow> nat \<Rightarrow> string + sieve_row option" where
  "active_sieve_script fault rows mailbox =
     (case fault of Some e \<Rightarrow> Inl (''read the account's Sieve script: '' @ e) | None \<Rightarrow>
      case filter (\<lambda>r. sv_mailbox r = mailbox \<and> sv_active r) rows of
        [] \<Rightarrow> Inr None
      | r # _ \<Rightarrow> if trim_space (sv_script r) = [] then Inr None else Inr (Some r))"

definition sieve_step_config :: "nat \<Rightarrow> string \<Rightarrow> string \<Rightarrow> string" where
  "sieve_step_config mailbox script hash =
     ''{'' @ marshal_string ''mailbox_id'' @ '':'' @ nat_dec mailbox @ '','' @ marshal_string ''script'' @ '':'' @ marshal_string script
       @ '','' @ marshal_string ''script_hash'' @ '':'' @ marshal_string hash @ ''}''"

definition own_sieve_step :: "string \<Rightarrow> filter_config" where
  "own_sieve_step config = \<lparr>fc_name = ''sieve'', fc_type = FilterTypeTransform, fc_enabled = True, fc_unskippable = False, fc_config = config\<rparr>"

definition sieve_step :: "filter_config \<Rightarrow> bool" where
  "sieve_step c \<longleftrightarrow> fc_name c = ''sieve'' \<and> fc_enabled c"

text \<open>
  \<open>script_in\<close> reads the script of a step's configuration. The steps already passed are the third argument, the position of
  the last sieve step among them the second.
\<close>

fun place_script ::
  "(string \<Rightarrow> string + string) \<Rightarrow> string \<Rightarrow> nat option \<Rightarrow> filter_config list \<Rightarrow> filter_config list \<Rightarrow> string + filter_config list" where
  "place_script script_in config latest front [] =
     Inr (case latest of None \<Rightarrow> front | Some i \<Rightarrow> take (i + 1) front @ own_sieve_step config # drop (i + 1) front)"
| "place_script script_in config latest front (c # cs) =
     (if \<not> sieve_step c then place_script script_in config latest (front @ [c]) cs
      else case (if fc_config c = [] then Inr [] else script_in (fc_config c)) of
        Inl e \<Rightarrow> Inl (''the pipeline's sieve step '' @ nat_dec (length front) @ '': '' @ e)
      | Inr own \<Rightarrow>
          if own = [] then Inr (front @ c\<lparr>fc_config := config\<rparr> # cs)
          else place_script script_in config (Some (length front)) (front @ [c]) cs)"

definition with_sieve_script ::
  "(string \<Rightarrow> string + string) \<Rightarrow> pipeline_config \<Rightarrow> nat \<Rightarrow> string \<Rightarrow> string \<Rightarrow> string + pipeline_config" where
  "with_sieve_script script_in cfg mailbox script hash =
     map_sum id (\<lambda>fs. cfg\<lparr>pc_filters := fs\<rparr>)
       (place_script script_in (sieve_step_config mailbox script hash) None [] (pc_filters cfg))"

definition with_account_sieve ::
  "(string \<Rightarrow> string + string) \<Rightarrow> string option \<Rightarrow> sieve_row list \<Rightarrow> pipeline_config \<Rightarrow> nat \<Rightarrow> string + pipeline_config" where
  "with_account_sieve script_in fault rows cfg mailbox =
     (case active_sieve_script fault rows mailbox of
        Inl e \<Rightarrow> Inl e
      | Inr None \<Rightarrow> Inr cfg
      | Inr (Some r) \<Rightarrow> with_sieve_script script_in cfg mailbox (sv_script r) (sv_hash r))"

text \<open>The timestamps of the pipeline built here are kept from the domain's; nothing reads them.\<close>

definition vacation_after :: "filter_config list \<Rightarrow> filter_config list" where
  "vacation_after fs = filter (\<lambda>c. fc_name c = ''vacation'' \<and> fc_enabled c) (dropWhile (\<lambda>c. \<not> sieve_step c) fs)"

definition account_sieve_only ::
  "(string \<Rightarrow> string + string) \<Rightarrow> string option \<Rightarrow> sieve_row list \<Rightarrow> pipeline_config option \<Rightarrow> nat \<Rightarrow> string + pipeline_config option" where
  "account_sieve_only script_in fault rows cfg mailbox =
     (case cfg of None \<Rightarrow> Inr None | Some c \<Rightarrow>
      if \<not> list_ex sieve_step (pc_filters c) then Inr None
      else case active_sieve_script fault rows mailbox of
        Inl e \<Rightarrow> Inl e
      | Inr None \<Rightarrow> Inr None
      | Inr (Some r) \<Rightarrow>
          map_sum id Some (with_sieve_script script_in
            (c\<lparr>pc_active := True, pc_filters := own_sieve_step [] # vacation_after (pc_filters c)\<rparr>)
            mailbox (sv_script r) (sv_hash r)))"

definition once_only_actions :: "string list" where
  "once_only_actions = [''redirect_'', ''notify_'', ''vacation_'']"

definition recipient_copy :: "(email \<Rightarrow> string + email) \<Rightarrow> email \<Rightarrow> string \<Rightarrow> string + email" where
  "recipient_copy through_json m rcpt =
     map_sum id (\<lambda>c. c\<lparr>em_envelope := (em_envelope c)\<lparr>ev_rcpt_to := [rcpt]\<rparr>,
         em_metadata := filter (\<lambda>kv. \<not> list_ex (has_prefix (fst kv)) once_only_actions) (em_metadata c)\<rparr>)
       (through_json m)"

definition sieve_folder :: "email option \<Rightarrow> string" where
  "sieve_folder m =
     (case m of None \<Rightarrow> ''INBOX'' | Some e \<Rightarrow>
      let folder = lookup (em_metadata e) ''deliver_to_folder'' in
      if folder = [] \<or> folder_name_problem folder \<noteq> [] then ''INBOX'' else canonical_folder folder)"

record sieve_flags =
  fg_seen :: bool
  fg_flagged :: bool
  fg_draft :: bool
  fg_rule_class :: string

definition rule_class_of :: "string list \<Rightarrow> string" where
  "rule_class_of keywords = (if list_ex (\<lambda>k. equal_fold k ''$receipt'') keywords then ''receipt'' else [])"

definition sieve_flags_of :: "email option \<Rightarrow> sieve_flags" where
  "sieve_flags_of m =
     (let keywords = (case m of None \<Rightarrow> [] | Some e \<Rightarrow> str_fields (lookup (em_metadata e) ''imap_flags''));
          has = (\<lambda>name. list_ex (\<lambda>f. to_lower f = CHR 92 # name) keywords)
      in \<lparr>fg_seen = has ''seen'', fg_flagged = has ''flagged'', fg_draft = has ''draft'', fg_rule_class = rule_class_of keywords\<rparr>)"

section \<open>Forwarding (redirect_forward.go)\<close>

record outbound_row =
  ob_sender :: string
  ob_sending_domain :: string
  ob_recipient :: string
  ob_domain :: string
  ob_raw :: string
  ob_arc_results :: string
  ob_arc_chain :: string

definition redirect_suppresses_keep :: "email option \<Rightarrow> bool" where
  "redirect_suppresses_keep m \<longleftrightarrow> (case m of None \<Rightarrow> False | Some e \<Rightarrow> lookup (em_metadata e) ''redirect_suppress_keep'' = ''true'')"

definition arc_chain :: "auth_result list \<Rightarrow> string" where
  "arc_chain auth =
     (let cv = fold (\<lambda>r cv. if ar_method r = ''arc'' then ar_result r else cv) auth []
      in if cv \<in> set [''none'', ''pass'', ''fail''] then cv else [])"

definition header_block :: "string \<Rightarrow> string" where
  "header_block raw =
     (case index_sub raw [CHR 0x0D, CHR 0x0A, CHR 0x0D, CHR 0x0A] of
        Some i \<Rightarrow> take i raw
      | None \<Rightarrow> (case index_sub raw [CHR 0x0A, CHR 0x0A] of Some i \<Rightarrow> take i raw | None \<Rightarrow> raw))"

definition delivered_to_line :: "string \<Rightarrow> string list" where
  "delivered_to_line line0 =
     (let line = rev (dropWhile (\<lambda>c. c = CHR 0x0D) (rev line0)) in
      case line of [] \<Rightarrow> [] | c # _ \<Rightarrow>
        if c = CHR '' '' \<or> c = CHR 0x09 then []
        else case index_byte line (CHR '':'') of
          None \<Rightarrow> []
        | Some i \<Rightarrow> if equal_fold (trim_space (take i line)) ''Delivered-To'' then [trim_space (drop (i + 1) line)] else [])"

definition delivered_to_chain :: "string \<Rightarrow> string list" where
  "delivered_to_chain raw =
     (if raw = [] then [] else concat (map delivered_to_line (split_byte (CHR 0x0A) (header_block raw))))"

definition forward_row :: "string \<Rightarrow> string \<Rightarrow> string \<Rightarrow> auth_result list \<Rightarrow> string \<Rightarrow> outbound_row" where
  "forward_row raw sender domain auth target =
     \<lparr>ob_sender = sender, ob_sending_domain = domain, ob_recipient = target, ob_domain = domain_from_address target,
      ob_raw = ''Delivered-To: '' @ target @ [CHR 0x0D, CHR 0x0A] @ raw, ob_arc_results = auth_results_value auth,
      ob_arc_chain = arc_chain auth\<rparr>"

fun forwards_from :: "(string \<Rightarrow> outbound_row) \<Rightarrow> string list \<Rightarrow> string list \<Rightarrow> string list \<Rightarrow> outbound_row list" where
  "forwards_from row seen emitted [] = []"
| "forwards_from row seen emitted (target # targets) =
     (let key = normalize_addr target in
      if key = [] \<or> key \<in> set emitted \<or> key \<in> set seen then forwards_from row seen emitted targets
      else if domain_from_address target = [] then forwards_from row seen (key # emitted) targets
      else row target # forwards_from row seen (key # emitted) targets)"

definition build_redirect_forwards ::
  "email option \<Rightarrow> string \<Rightarrow> string \<Rightarrow> string list \<Rightarrow> string \<Rightarrow> auth_result list \<Rightarrow> outbound_row list" where
  "build_redirect_forwards final raw sender recipients domain auth =
     (case final of None \<Rightarrow> [] | Some m \<Rightarrow>
      if trim_space raw = [] then []
      else forwards_from (forward_row raw sender domain auth)
             (map normalize_addr (delivered_to_chain raw @ recipients)) []
             (decode_redirect_targets (lookup (em_metadata m) ''redirect_to'')))"

text \<open>
  What a delivery does with the message then: the rows the database took (\<open>taken\<close> says which), and whether a local copy is
  stored (\<^verbatim>\<open>deliverToLocal\<close>).
\<close>

definition forward_then_keep :: "(outbound_row \<Rightarrow> bool) \<Rightarrow> email option \<Rightarrow> outbound_row list \<Rightarrow> outbound_row list \<times> bool" where
  "forward_then_keep taken final forwards =
     (let created = filter taken forwards in (created, \<not> (created \<noteq> [] \<and> redirect_suppresses_keep final)))"


section \<open>What a script leaves on the message\<close>

lemma length_join_marshal: "length xs \<le> length (join '','' (map marshal_string xs))"
proof (induction xs)
  case (Cons x xs)
  then show ?case by (cases xs) (auto simp: marshal_string_def)
qed simp

lemma decode_encode_targets:
  assumes "list_all valid_utf8 ts"
  shows "decode_redirect_targets (encode_redirect_targets ts) = ts"
proof (cases ts)
  case Nil
  show ?thesis unfolding Nil by code_simp
next
  case (Cons x xs)
  let ?j = "join '','' (map marshal_string (x # xs))"
  have "\<exists>cs. ?j = CHR 34 # cs" by (cases xs) (simp_all add: marshal_string_def)
  then obtain cs where j: "?j = CHR 34 # cs" by blast
  have "length xs < length (?j @ '']'')" using length_join_marshal [of "x # xs"] by simp
  then have "unmarshal_elements (length (?j @ '']'')) (?j @ '']'' @ []) = Some (x # xs, [])"
    using assms Cons by (intro unmarshal_elements_marshal) auto
  then show ?thesis
    unfolding Cons decode_redirect_targets_def encode_redirect_targets_def unmarshal_strings_def j by (simp add: json_space_def)
qed

lemma lookup_update [simp]: "lookup (AList.update k v al) k' = (if k' = k then v else lookup al k')"
  by (simp add: lookup_def update_conv')

lemma set_metadata_sel [simp]:
  "em_envelope (set_metadata k v m) = em_envelope m" "em_headers (set_metadata k v m) = em_headers m"
  "em_metadata (set_metadata k v m) = AList.update k v (em_metadata m)"
  by (simp_all add: set_metadata_def)

lemma redirect_loops_cong:
  "em_envelope m' = em_envelope m \<Longrightarrow> em_headers m' = em_headers m \<Longrightarrow> redirect_loops m' = redirect_loops m"
  by (simp add: redirect_loops_def fun_eq_iff)

text \<open>
  What the executor keeps: the envelope, the headers and the redirects recorded by an earlier step; and that what it records is
  allowed and makes no loop.
\<close>

definition exec_ok :: "redirect_policy \<Rightarrow> email \<Rightarrow> sieve_exec \<Rightarrow> bool" where
  "exec_ok policy m x \<longleftrightarrow>
     em_envelope (ex_email x) = em_envelope m \<and> em_headers (ex_email x) = em_headers m
   \<and> lookup (em_metadata (ex_email x)) ''redirect_to'' = lookup (em_metadata m) ''redirect_to''
   \<and> lookup (em_metadata (ex_email x)) ''redirect_suppress_keep'' = lookup (em_metadata m) ''redirect_suppress_keep''
   \<and> (\<forall>t\<in>set (ex_targets x). redirect_allowed policy (recipient_domains m) t \<and> \<not> redirect_loops m t)"

lemma exec_ok_applied [simp]: "exec_ok policy m (applied what x) = exec_ok policy m x"
  by (simp add: exec_ok_def applied_def)

lemma vacation_key_apart: "''vacation_last_sent_'' @ k \<noteq> ''redirect_to''" "''vacation_last_sent_'' @ k \<noteq> ''redirect_suppress_keep''"
  by simp_all

lemma exec_ok_local [simp]: "exec_ok policy m (x\<lparr>ex_local := b\<rparr>) = exec_ok policy m x"
  by (simp add: exec_ok_def)

lemma exec_ok_email:
  assumes "exec_ok policy m x" "em_envelope e = em_envelope (ex_email x)" "em_headers e = em_headers (ex_email x)"
    "lookup (em_metadata e) ''redirect_to'' = lookup (em_metadata (ex_email x)) ''redirect_to''"
    "lookup (em_metadata e) ''redirect_suppress_keep'' = lookup (em_metadata (ex_email x)) ''redirect_suppress_keep''"
  shows "exec_ok policy m (x\<lparr>ex_email := e\<rparr>)"
  using assms by (simp add: exec_ok_def)

lemma exec_ok_vacation: "exec_ok policy m x \<Longrightarrow> exec_ok policy m (exec_vacation sha256 v x)"
  by (simp add: exec_vacation_def Let_def exec_ok_email)

lemma exec_ok_redirect:
  assumes "exec_ok policy m x"
  shows "exec_ok policy m (exec_redirect policy (recipient_domains m) addr is_copy x)"
proof -
  have "redirect_loops (ex_email x) = redirect_loops m" using assms by (intro redirect_loops_cong) (simp_all add: exec_ok_def)
  then show ?thesis using assms by (simp add: exec_redirect_def) (simp add: exec_ok_def)
qed

lemma exec_ok_action:
  assumes "exec_ok policy m x"
  shows "exec_ok policy m (exec_action sha256 policy (recipient_domains m) a x)"
proof (cases a)
  case (FileInto folder mk)
  have "exec_ok policy m (x\<lparr>ex_email := (if mk then set_metadata ''deliver_to_folder_create'' ''true'' else id)
      (set_metadata ''deliver_to_folder'' folder (ex_email x))\<rparr>)"
    by (rule exec_ok_email [OF assms]) (cases mk; simp)+
  then show ?thesis using FileInto by simp
qed (use assms in \<open>simp_all add: exec_ok_redirect exec_ok_vacation exec_ok_email apply_flags_def Let_def\<close>)

lemma run_script_ok: "exec_ok policy m (run_script sha256 policy actions m)"
proof -
  have "exec_ok policy m x \<Longrightarrow> exec_ok policy m (fold (exec_action sha256 policy (recipient_domains m)) actions x)" for x
    by (induction actions arbitrary: x) (auto intro: exec_ok_action)
  moreover have "exec_ok policy m (start_exec m)" by (simp add: exec_ok_def start_exec_def)
  ultimately show ?thesis by (simp add: run_script_def)
qed

text \<open>The targets are addresses the script names.\<close>

fun names_utf8 :: "sieve_action \<Rightarrow> bool" where
  "names_utf8 (Redirect addr _) = valid_utf8 addr"
| "names_utf8 _ = True"

lemma run_script_utf8:
  assumes "list_all names_utf8 actions"
  shows "list_all valid_utf8 (ex_targets (run_script sha256 policy actions m))"
proof -
  have step: "names_utf8 a \<Longrightarrow> list_all valid_utf8 (ex_targets x) \<Longrightarrow> list_all valid_utf8 (ex_targets (exec_action sha256 policy ls a x))"
    for a x ls
    by (cases a) (auto simp: applied_def exec_redirect_def exec_vacation_def Let_def)
  have "list_all valid_utf8 (ex_targets x) \<Longrightarrow> list_all valid_utf8 (ex_targets (fold (exec_action sha256 policy ls) actions x))" for x ls
    using assms by (induction actions arbitrary: x) (auto intro: step)
  then show ?thesis by (simp add: run_script_def start_exec_def)
qed

text \<open>Whether the script delivered the message here.\<close>

fun delivers_here :: "sieve_action \<Rightarrow> bool" where
  "delivers_here Keep = True"
| "delivers_here (FileInto _ _) = True"
| "delivers_here _ = False"

lemma run_script_local: "ex_local (run_script sha256 policy actions m) \<longleftrightarrow> list_ex delivers_here actions"
proof -
  have step: "ex_local (exec_action sha256 policy ls a x) \<longleftrightarrow> ex_local x \<or> delivers_here a" for a x ls
    by (cases a) (auto simp: applied_def exec_redirect_def exec_vacation_def Let_def)
  have "ex_local (fold (exec_action sha256 policy ls) actions x) \<longleftrightarrow> ex_local x \<or> list_ex delivers_here actions" for x ls
    by (induction actions arbitrary: x) (auto simp: step)
  then show ?thesis by (simp add: run_script_def start_exec_def)
qed

section \<open>What is forwarded\<close>

lemma forwards_from_sound:
  assumes "r \<in> set (forwards_from row seen emitted ts)"
  shows "\<exists>t\<in>set ts. r = row t \<and> normalize_addr t \<notin> set seen \<and> normalize_addr t \<notin> set emitted \<and> domain_from_address t \<noteq> []"
  using assms by (induction row seen emitted ts rule: forwards_from.induct) (auto simp: Let_def split: if_splits)

lemma forwards_from_distinct:
  assumes "\<And>t. ob_recipient (row t) = t"
  shows "distinct (map (normalize_addr \<circ> ob_recipient) (forwards_from row seen emitted ts))"
  using assms
proof (induction row seen emitted ts rule: forwards_from.induct)
  case (2 row seen emitted t ts)
  have "normalize_addr t \<notin> (normalize_addr \<circ> ob_recipient) ` set (forwards_from row seen (normalize_addr t # emitted) ts)"
    using forwards_from_sound [of _ row seen "normalize_addr t # emitted" ts] 2(4) by fastforce
  then show ?case using 2 by (simp add: Let_def)
qed simp


lemma decode_nil: "decode_redirect_targets [] = []"
  by (simp add: decode_redirect_targets_def)

lemma sieve_execute_message:
  assumes "fi_script f = Some script" "fr_message (sieve_execute sha256 f m) = Some m'"
  obtains (unchanged) "m' = m"
  | (ran) actions oc where "sc_evaluate script (sieve_message_of m) = (actions, oc)" "so_disposition oc = SieveContinue"
      "m' = record_redirects oc (run_script sha256 (fi_redirect f) actions m)"
proof -
  obtain actions oc where e: "sc_evaluate script (sieve_message_of m) = (actions, oc)" by fastforce
  show thesis using assms unchanged ran [OF e]
    by (cases "so_disposition oc") (auto simp: sieve_execute_def transform_result_def sieve_result_def e split: if_splits)
qed

lemma recorded_targets:
  assumes "fi_script f = Some script" "list_all names_utf8 (fst (sc_evaluate script (sieve_message_of m)))"
    "lookup (em_metadata m) ''redirect_to'' = []" "fr_message (sieve_execute sha256 f m) = Some m'"
    "t \<in> set (decode_redirect_targets (lookup (em_metadata m') ''redirect_to''))"
  shows "redirect_allowed (fi_redirect f) (recipient_domains m) t \<and> \<not> redirect_loops m t"
  using assms(1,4)
proof (cases rule: sieve_execute_message)
  case unchanged
  then show ?thesis using assms(3,5) by (simp add: decode_nil)
next
  case (ran actions oc)
  let ?x = "run_script sha256 (fi_redirect f) actions m"
  have ok: "exec_ok (fi_redirect f) m ?x" by (rule run_script_ok)
  have "decode_redirect_targets (encode_redirect_targets (ex_targets ?x)) = ex_targets ?x"
    using assms(2) ran(1) by (intro decode_encode_targets run_script_utf8) simp
  moreover have "lookup (em_metadata m') ''redirect_to'' = (if ex_targets ?x = [] then [] else encode_redirect_targets (ex_targets ?x))"
    using assms(3) ok ran(3) by (simp add: record_redirects_def Let_def exec_ok_def)
  ultimately have "t \<in> set (ex_targets ?x)"
    using assms(5) by (simp add: decode_nil split: if_splits)
  then show ?thesis using ok by (simp add: exec_ok_def)
qed

text \<open>
  C26: A Sieve script cannot carry mail out of the domain. Whatever the script does, a message is forwarded to an address only if
  its domain is one of the message's own recipients' or the deployment's policy allows it; never to an address that has
  had the message (by its Delivered-To headers, as parsed or as received) or is among its recipients; and once to each.\<close>

theorem redirects_stay_inside:
  assumes "fi_script f = Some script" "list_all names_utf8 (fst (sc_evaluate script (sieve_message_of m)))"
    and "lookup (em_metadata m) ''redirect_to'' = []"
    and "forwards = build_redirect_forwards (fr_message (sieve_execute sha256 f m)) raw sender rcpts domain auth" "r \<in> set forwards"
  shows "(domain_of (ob_recipient r) \<in> set (recipient_domains m) \<or> rp_allow_external (fi_redirect f)
       \<or> (\<exists>d\<in>set (rp_allowed_domains (fi_redirect f)). equal_fold (trim_space d) (domain_of (ob_recipient r))))
    \<and> normalize_addr (ob_recipient r) \<notin> normalize_addr ` (set (delivered_to_headers (hd_raw (em_headers m)))
        \<union> set (ev_rcpt_to (em_envelope m)) \<union> set (delivered_to_chain raw) \<union> set rcpts)
    \<and> distinct (map (normalize_addr \<circ> ob_recipient) forwards)"
proof -
  let ?row = "forward_row raw sender domain auth"
  obtain m' where m': "fr_message (sieve_execute sha256 f m) = Some m'" and raw: "trim_space raw \<noteq> []"
    using assms(4,5) by (auto simp: build_redirect_forwards_def split: option.splits if_splits)
  then have fs: "forwards = forwards_from ?row (map normalize_addr (delivered_to_chain raw @ rcpts)) []
      (decode_redirect_targets (lookup (em_metadata m') ''redirect_to''))"
    using assms(4) by (simp add: build_redirect_forwards_def)
  have rec: "ob_recipient (?row t) = t" for t by (simp add: forward_row_def)
  obtain t where t: "t \<in> set (decode_redirect_targets (lookup (em_metadata m') ''redirect_to''))" "r = ?row t"
    "normalize_addr t \<notin> normalize_addr ` (set (delivered_to_chain raw) \<union> set rcpts)"
    using forwards_from_sound assms(5) unfolding fs by fastforce
  have "redirect_allowed (fi_redirect f) (recipient_domains m) t \<and> \<not> redirect_loops m t"
    by (rule recorded_targets [OF assms(1-3) m' t(1)])
  then show ?thesis
    using t(2,3) rec forwards_from_distinct [of ?row, OF rec] unfolding fs
    by (auto simp: redirect_allowed_def redirect_loops_def Let_def list_ex_iff image_iff)
qed

text \<open>
  A Sieve script never loses a message it does not discard or reject. The message is stored in the mailbox, unless the
  script cancelled the implicit keep, neither kept nor filed the message, and at least one forward of it is in the queue.\<close>

theorem kept_unless_forwarded:
  assumes "fi_script f = Some script" "sc_evaluate script (sieve_message_of m) = (actions, oc)" "so_disposition oc = SieveContinue"
    and "lookup (em_metadata m) ''redirect_suppress_keep'' = []" "final = fr_message (sieve_execute sha256 f m)"
    and "forward_then_keep taken final (build_redirect_forwards final raw sender rcpts domain auth) = (created, kept)"
  shows "kept \<or> created \<noteq> [] \<and> \<not> so_implicit_keep oc \<and> \<not> list_ex delivers_here actions"
proof -
  let ?x = "run_script sha256 (fi_redirect f) actions m"
  have ok: "exec_ok (fi_redirect f) m ?x" by (rule run_script_ok)
  have "\<not> redirect_suppresses_keep final" if "so_implicit_keep oc \<or> list_ex delivers_here actions"
    using that assms(1-5) ok run_script_local [of sha256 "fi_redirect f" actions m]
    by (auto simp: sieve_execute_def transform_result_def sieve_result_def redirect_suppresses_keep_def record_redirects_def Let_def exec_ok_def)
  then show ?thesis using assms(6) by (auto simp: forward_then_keep_def Let_def)
qed


section \<open>Scripts at work\<close>

definition sieve_email :: email where
  "sieve_email = sample_email\<lparr>em_envelope := (em_envelope sample_email)\<lparr>ev_rcpt_to := [''ann@a.example'']\<rparr>,
     em_metadata := [(''raw_message'', ''Subject: hi'')]\<rparr>"

definition acting :: "sieve_action list \<Rightarrow> bool \<Rightarrow> sieve_filter" where
  "acting actions keep =
     \<lparr>fi_script = Some \<lparr>sc_empty = False, sc_evaluate = (\<lambda>_. (actions, \<lparr>so_disposition = SieveContinue, so_reject_reason = [],
          so_extended_reject = False, so_implicit_keep = keep, so_error = None\<rparr>))\<rparr>,
      fi_redirect = default_sieve_redirect_policy\<rparr>"

definition sample_sha :: "string \<Rightarrow> string" where "sample_sha s = take 32 (s @ replicate 32 CHR 0x00)"

definition forwards_of :: "email option \<Rightarrow> outbound_row list" where
  "forwards_of final = build_redirect_forwards final ''Subject: hi'' ''eve@b.example'' [''ann@a.example''] ''a.example'' []"

definition out_and_in :: sieve_filter where
  "out_and_in = acting [Redirect ''spy@evil.example'' False, Redirect ''bob@a.example'' False] False"

theorem redirects_stay_inside_witness:
  "map ob_recipient (forwards_of (fr_message (sieve_execute sample_sha out_and_in sieve_email))) = [''bob@a.example'']
   \<and> distinct (map (normalize_addr \<circ> ob_recipient) (forwards_of (fr_message (sieve_execute sample_sha out_and_in sieve_email))))"
proof -
  let ?fs = "forwards_of (fr_message (sieve_execute sample_sha out_and_in sieve_email))"
  have rec: "map ob_recipient ?fs = [''bob@a.example'']" by code_simp
  then obtain r where r: "r \<in> set ?fs" by (cases ?fs) auto
  have s: "fi_script out_and_in = Some (the (fi_script out_and_in))" by (simp add: out_and_in_def acting_def)
  have u: "list_all names_utf8 (fst (sc_evaluate (the (fi_script out_and_in)) (sieve_message_of sieve_email)))" by code_simp
  have l: "lookup (em_metadata sieve_email) ''redirect_to'' = []" by code_simp
  show ?thesis using redirects_stay_inside [OF s u l forwards_of_def r] rec by blast
qed

theorem kept_unless_forwarded_witness:
  "snd (forward_then_keep (\<lambda>_. True) (fr_message (sieve_execute sample_sha (acting [Keep, Redirect ''bob@a.example'' False] False) sieve_email))
     (forwards_of (fr_message (sieve_execute sample_sha (acting [Keep, Redirect ''bob@a.example'' False] False) sieve_email))))"
proof -
  let ?f = "acting [Keep, Redirect ''bob@a.example'' False] False"
  let ?final = "fr_message (sieve_execute sample_sha ?f sieve_email)"
  let ?out = "forward_then_keep (\<lambda>_. True) ?final (build_redirect_forwards ?final ''Subject: hi'' ''eve@b.example'' [''ann@a.example''] ''a.example'' [])"
  let ?run = "sc_evaluate (the (fi_script ?f)) (sieve_message_of sieve_email)"
  have s: "fi_script ?f = Some (the (fi_script ?f))" by (simp add: acting_def)
  have e: "?run = (fst ?run, snd ?run)" by simp
  have d: "so_disposition (snd ?run) = SieveContinue" "list_ex delivers_here (fst ?run)" by (simp_all add: acting_def)
  have l: "lookup (em_metadata sieve_email) ''redirect_suppress_keep'' = []" by code_simp
  have o: "?out = (fst ?out, snd ?out)" by simp
  show ?thesis using kept_unless_forwarded [OF s e d(1) l refl o] d(2) by (simp add: forwards_of_def)
qed

text \<open>
  Where a domain's sieve step has a script and a mailbox has one too, both run, the mailbox's on what the domain's left: the
  redirects it records replace the domain's, whose target gets nothing, and the mark that the first script
  cancelled the local copy stays, although the second one keeps the message.
\<close>

definition both_scripts :: "sieve_action list \<Rightarrow> sieve_action list \<Rightarrow> email option" where
  "both_scripts domain own =
     Option.bind (fr_message (sieve_execute sample_sha (acting domain False) sieve_email))
       (\<lambda>m. fr_message (sieve_execute sample_sha (acting own True) m))"

lemma second_script_replaces_redirects:
  "map ob_recipient (forwards_of (both_scripts [Redirect ''archive@a.example'' False] [Redirect ''bob@a.example'' True, Keep])) = [''bob@a.example'']"
  "redirect_suppresses_keep (both_scripts [Redirect ''archive@a.example'' False] [Redirect ''bob@a.example'' True, Keep])"
  by code_simp+

end
