(* ===== verification/Pipeline_Vacation.thy ===== *)
theory Pipeline_Vacation
  imports Pipeline_Sieve
begin

text \<open>
  Out-of-office replies: the vacation filter, \<^verbatim>\<open>internal/pipeline/filters/vacation.go\<close>, which answers for a mailbox's
  vacation settings or for a Sieve vacation action, and the worker that clears its table,
  \<^verbatim>\<open>internal/vacation/purger.go\<close>. The unique index on mailbox, sender and handle makes that table a map from such a key to the
  time of the latest reply; \<open>vd_mailboxes\<close> has the active mailboxes. Each reply in the queue carries, for the theorems, the key and the interval it was made under
  and its time. RFC 2047 encoding of a subject, the text of a date and random bytes are an argument, and so are the
  errors of the database.
\<close>

section \<open>Tables\<close>

record vacation_setting =
  vs_mailbox :: nat
  vs_enabled :: bool
  vs_subject :: string
  vs_body :: string
  vs_start :: "time option"
  vs_end :: "time option"

type_synonym reply_key = "nat \<times> string \<times> string"

record reply_row =
  rr_key :: reply_key
  rr_window :: duration
  rr_at :: time
  rr_row :: outbound_row

record vacation_db =
  vd_mailboxes :: "(string \<times> string \<times> nat) list"
  vd_settings :: "vacation_setting list"
  vd_responses :: "reply_key \<rightharpoonup> time"
  vd_queue :: "reply_row list"

record vacation_fault =
  vf_mailbox :: bool
  vf_setting :: bool
  vf_count :: bool
  vf_record :: "string option"
  vf_queue :: "string option"

definition no_vacation_fault :: vacation_fault where
  "no_vacation_fault = \<lparr>vf_mailbox = False, vf_setting = False, vf_count = False, vf_record = None, vf_queue = None\<rparr>"

record vacation_env =
  ve_q_encode :: "string \<Rightarrow> string"
  ve_rfc1123z :: "time \<Rightarrow> string"
  ve_random :: "nat list"

section \<open>Suppression (RFC 3834)\<close>

definition vacation_sanitize :: "string \<Rightarrow> string" where
  "vacation_sanitize v = encode_runes (filter (\<lambda>r. 32 \<le> r \<or> r = 9) (runes v))"

definition raw_header :: "email \<Rightarrow> string \<Rightarrow> string list" where
  "raw_header m name =
     (case filter (\<lambda>h. to_lower (fst h) = to_lower name) (hd_raw (em_headers m)) of [] \<Rightarrow> [] | h # _ \<Rightarrow> snd h)"

definition auto_submitted_keyword :: "string \<Rightarrow> string" where
  "auto_submitted_keyword v = trim_space (takeWhile (\<lambda>c. c \<notin> set ''; ('') (to_lower (trim_space v)))"

fun auth_failure_reason :: "auth_result list \<Rightarrow> string" where
  "auth_failure_reason [] = []"
| "auth_failure_reason (r # rs) =
     (if ar_method r = auth_spf \<and> ar_result r = ''fail'' then ''sender failed SPF (backscatter guard)''
      else if ar_method r = auth_spf \<and> ar_result r = ''softfail'' then ''sender soft-failed SPF (backscatter guard)''
      else if ar_method r = auth_dmarc \<and> ar_result r = ''fail'' then ''sender failed DMARC (backscatter guard)''
      else auth_failure_reason rs)"

definition first_some :: "('a \<Rightarrow> bool) \<Rightarrow> ('a \<Rightarrow> string) \<Rightarrow> 'a list \<Rightarrow> string" where
  "first_some p f xs = (case filter p xs of [] \<Rightarrow> [] | x # _ \<Rightarrow> f x)"

definition sender_reason :: "string \<Rightarrow> string" where
  "sender_reason sender =
     (let lc = to_lower sender; local_part = (case index_byte lc (CHR ''@'') of Some i \<Rightarrow> take i lc | None \<Rightarrow> lc) in
      if sender = [] \<or> sender = ''<>'' then ''empty or null sender''
      else if has_prefix local_part ''mailer-daemon'' then ''sender is MAILER-DAEMON''
      else if contains lc ''noreply'' then ''sender contains noreply''
      else if contains lc ''no-reply'' then ''sender contains no-reply''
      else [])"

definition automatic :: "string \<Rightarrow> bool" where
  "automatic v \<longleftrightarrow> auto_submitted_keyword v \<noteq> [] \<and> auto_submitted_keyword v \<noteq> ''no''"

definition bulk :: "string \<Rightarrow> bool" where
  "bulk v \<longleftrightarrow> trim_space (to_lower v) \<in> set [''bulk'', ''list'', ''junk'']"

definition or_else :: "string \<Rightarrow> string \<Rightarrow> string" where
  "or_else a b = (if a \<noteq> [] then a else b)"

definition should_suppress :: "auth_results \<Rightarrow> string \<Rightarrow> email \<Rightarrow> string" where
  "should_suppress auth sender m =
     or_else (sender_reason sender)
    (or_else (first_some automatic (\<lambda>v. ''Auto-Submitted: '' @ auto_submitted_keyword v) (raw_header m ''Auto-Submitted''))
    (or_else (auth_failure_reason (auth_list auth))
    (or_else (first_some bulk (\<lambda>v. ''Precedence: '' @ trim_space (to_lower v)) (raw_header m ''Precedence''))
    (first_some (\<lambda>h. raw_header m h \<noteq> []) (\<lambda>h. ''mailing-list header present: '' @ h)
       [''List-Id'', ''List-Unsubscribe'', ''X-Mailing-List'']))))"

section \<open>The reply\<close>

definition reply_line :: "string \<Rightarrow> string \<Rightarrow> string" where
  "reply_line name v = name @ '': '' @ v @ crlf"

definition reply_head :: "vacation_env \<Rightarrow> time \<Rightarrow> string \<Rightarrow> string \<Rightarrow> string \<Rightarrow> string \<Rightarrow> string \<Rightarrow> string" where
  "reply_head env now from_addr to subject id_domain in_reply_to =
     reply_line ''From'' from_addr @ reply_line ''To'' to @ reply_line ''Subject'' subject @ reply_line ''Date'' (ve_rfc1123z env now)
     @ reply_line ''Message-ID'' (generate_message_id (ve_random env) id_domain)
     @ (if in_reply_to \<noteq> [] then reply_line ''In-Reply-To'' in_reply_to @ reply_line ''References'' in_reply_to else [])
     @ reply_line ''Auto-Submitted'' ''auto-replied'' @ reply_line ''Precedence'' ''bulk''
     @ reply_line ''X-Auto-Response-Suppress'' ''All'' @ reply_line ''MIME-Version'' ''1.0''"

definition build_vacation_reply :: "vacation_env \<Rightarrow> time \<Rightarrow> string \<Rightarrow> string \<Rightarrow> string \<Rightarrow> string \<Rightarrow> string \<Rightarrow> string" where
  "build_vacation_reply env now from_addr to subject body in_reply_to =
     reply_head env now from_addr to (ve_q_encode env (vacation_sanitize subject)) (domain_from_address from_addr) (vacation_sanitize in_reply_to)
     @ reply_line ''Content-Type'' ''text/plain; charset=utf-8'' @ crlf @ body @ crlf"

text \<open>Line feeds alone become CRLF; those that are CRLF already stay.\<close>

fun to_crlf :: "string \<Rightarrow> string" where
  "to_crlf [] = []"
| "to_crlf [c] = (if c = CHR 0x0A then crlf else [c])"
| "to_crlf (c # d # cs) =
     (if c = CHR 0x0D \<and> d = CHR 0x0A then crlf @ to_crlf cs
      else if c = CHR 0x0A then crlf @ to_crlf (d # cs) else c # to_crlf (d # cs))"

definition build_sieve_vacation_reply ::
  "vacation_env \<Rightarrow> time \<Rightarrow> string \<Rightarrow> string \<Rightarrow> string \<Rightarrow> string \<Rightarrow> bool \<Rightarrow> string \<Rightarrow> string" where
  "build_sieve_vacation_reply env now from_addr to subject reason is_mime in_reply_to =
     reply_head env now (vacation_sanitize from_addr) to (ve_q_encode env (vacation_sanitize subject)) (domain_from_address to)
       (vacation_sanitize in_reply_to)
     @ (if is_mime then to_crlf reason @ (if has_suffix (to_crlf reason) crlf then [] else crlf)
        else reply_line ''Content-Type'' ''text/plain; charset=utf-8'' @ reply_line ''Content-Transfer-Encoding'' ''8bit'' @ crlf
             @ to_crlf reason @ crlf)"

section \<open>The filter\<close>

definition vacation_result :: "string \<Rightarrow> string \<Rightarrow> filter_result" where
  "vacation_result result detail = result_of ActionContinue [] [] ''vacation'' result detail"

definition new_vacation :: "int \<Rightarrow> int" where
  "new_vacation days = (if days < 1 then 1 else days)"

definition mailbox_at :: "vacation_fault \<Rightarrow> vacation_db \<Rightarrow> string \<Rightarrow> string \<Rightarrow> nat" where
  "mailbox_at fault d local_part domain =
     (if vf_mailbox fault then 0
      else case filter (\<lambda>(l, dom, _). l = local_part \<and> dom = domain) (vd_mailboxes d) of [] \<Rightarrow> 0 | (_, _, i) # _ \<Rightarrow> i)"

definition record_vacation_response :: "reply_key \<Rightarrow> time \<Rightarrow> vacation_db \<Rightarrow> vacation_db" where
  "record_vacation_response key now d = d\<lparr>vd_responses := (vd_responses d)(key \<mapsto> now)\<rparr>"

definition responded_after :: "vacation_fault \<Rightarrow> vacation_db \<Rightarrow> reply_key \<Rightarrow> time \<Rightarrow> bool" where
  "responded_after fault d key cutoff \<longleftrightarrow>
     \<not> vf_count fault \<and> (case vd_responses d key of Some t \<Rightarrow> cutoff < t | None \<Rightarrow> False)"

definition queue_reply :: "reply_key \<Rightarrow> duration \<Rightarrow> time \<Rightarrow> outbound_row \<Rightarrow> vacation_db \<Rightarrow> vacation_db" where
  "queue_reply key window now row d = d\<lparr>vd_queue := vd_queue d @ [\<lparr>rr_key = key, rr_window = window, rr_at = now, rr_row = row\<rparr>]\<rparr>"

definition reply_outbound :: "string \<Rightarrow> string \<Rightarrow> string \<Rightarrow> outbound_row" where
  "reply_outbound rcpt_domain sender raw =
     \<lparr>ob_sender = [], ob_sending_domain = rcpt_domain, ob_recipient = sender,
      ob_domain = (case last_index_byte sender (CHR ''@'') of Some i \<Rightarrow> drop (i + 1) sender | None \<Rightarrow> rcpt_domain),
      ob_raw = raw, ob_arc_results = [], ob_arc_chain = []\<rparr>"

definition days_window :: "int \<Rightarrow> duration" where
  "days_window days = - int64 (int64 (int64 (- days) * 24) * hour)"

definition setting_for :: "vacation_fault \<Rightarrow> vacation_db \<Rightarrow> nat \<Rightarrow> time \<Rightarrow> vacation_setting option" where
  "setting_for fault d mailbox now =
     (if vf_setting fault then None
      else case filter (\<lambda>s. vs_mailbox s = mailbox \<and> vs_enabled s) (vd_settings d) of
        [] \<Rightarrow> None
      | s # _ \<Rightarrow>
          if (case vs_start s of Some t \<Rightarrow> now < t | None \<Rightarrow> False) \<or> (case vs_end s of Some t \<Rightarrow> t < now | None \<Rightarrow> False)
          then None else Some s)"

text \<open>One recipient: a failure to record the reply, or to queue it, is not looked at.\<close>

definition answer_for ::
  "vacation_env \<Rightarrow> int \<Rightarrow> vacation_fault \<Rightarrow> time \<Rightarrow> email \<Rightarrow> string \<Rightarrow> string \<Rightarrow> vacation_db \<times> bool \<Rightarrow> vacation_db \<times> bool" where
  "answer_for env days fault now m sender rcpt acc =
     (let (d, replied) = acc in
      case split_n 2 (CHR ''@'') rcpt of
        [local_part, domain] \<Rightarrow>
          (let mailbox = mailbox_at fault d local_part domain; key = (mailbox, sender, []); window = days_window days in
           if mailbox = 0 then acc
           else case setting_for fault d mailbox now of
             None \<Rightarrow> acc
           | Some s \<Rightarrow>
               if responded_after fault d key (now - window) then acc
               else
                 (let d1 = (if vf_record fault = None then record_vacation_response key now d else d);
                      row = reply_outbound domain sender
                        (build_vacation_reply env now rcpt sender (vs_subject s) (vs_body s) (hd_message_id (em_headers m)))
                  in (if vf_queue fault = None then queue_reply key window now row d1 else d1, True)))
      | _ \<Rightarrow> acc)"

definition sieve_interval :: "email \<Rightarrow> duration" where
  "sieve_interval m =
     (case atoi (lookup (em_metadata m) ''vacation_seconds'') of
        Some seconds \<Rightarrow> if 0 \<le> seconds then int64 (seconds * second) else 7 * 24 * hour
      | None \<Rightarrow> 7 * 24 * hour)"

definition sieve_subject :: "email \<Rightarrow> string" where
  "sieve_subject m =
     (case map_of (em_metadata m) ''vacation_reply_subject'' of
        Some s \<Rightarrow> s
      | None \<Rightarrow> if trim_space (hd_subject (em_headers m)) = [] then ''Automated reply'' else ''Auto: '' @ hd_subject (em_headers m))"

definition sieve_reply ::
  "vacation_env \<Rightarrow> vacation_fault \<Rightarrow> time \<Rightarrow> email \<Rightarrow> string \<Rightarrow> vacation_db \<Rightarrow> vacation_db \<times> (string + filter_result)" where
  "sieve_reply env fault now m sender d =
     (case ev_rcpt_to (em_envelope m) of
        [] \<Rightarrow> (d, Inr (vacation_result ''skip'' ''sieve vacation: no recipient to answer for''))
      | rcpt # _ \<Rightarrow>
          (case split_n 2 (CHR ''@'') rcpt of
             [local_part, domain] \<Rightarrow>
               (let mailbox = mailbox_at fault d local_part domain; key = (mailbox, sender, lookup (em_metadata m) ''vacation_handle'');
                    interval = sieve_interval m
                in
                if mailbox = 0 then (d, Inr (vacation_result ''skip'' ''sieve vacation: the recipient mailbox is not here''))
                else if 0 < interval \<and> responded_after fault d key (now - interval)
                then (d, Inr (vacation_result ''skip'' ''sieve vacation: already answered within its interval''))
                else case vf_record fault of
                  Some e \<Rightarrow> (d, Inl (''sieve vacation: record the reply: '' @ e))
                | None \<Rightarrow>
                    (let d1 = record_vacation_response key now d;
                         given = trim_space (lookup (em_metadata m) ''vacation_reply_from'');
                         raw = build_sieve_vacation_reply env now (if given \<noteq> [] then given else rcpt) sender (sieve_subject m)
                           (lookup (em_metadata m) ''vacation_reply_body'') (lookup (em_metadata m) ''vacation_reply_mime'' = ''true'')
                           (hd_message_id (em_headers m))
                     in case vf_queue fault of
                          Some e \<Rightarrow> (d1, Inl (''sieve vacation: queue the reply: '' @ e))
                        | None \<Rightarrow> (queue_reply key interval now (reply_outbound domain sender raw) d1,
                             Inr (vacation_result ''queued'' (''sieve vacation reply queued for sender '' @ sender)))))
           | _ \<Rightarrow> (d, Inr (vacation_result ''skip'' ''sieve vacation: the recipient is not an address''))))"

definition vacation_execute ::
  "vacation_env \<Rightarrow> int \<Rightarrow> vacation_fault \<Rightarrow> time \<Rightarrow> auth_results \<Rightarrow> email \<Rightarrow> vacation_db \<Rightarrow> vacation_db \<times> (string + filter_result)" where
  "vacation_execute env days fault now auth m d =
     (let sender = trim_space (to_lower (ev_mail_from (em_envelope m))); reason = should_suppress auth sender m in
      if reason \<noteq> [] then (d, Inr (vacation_result ''skip'' reason))
      else if lookup (em_metadata m) ''vacation_reply_to'' \<noteq> [] then sieve_reply env fault now m sender d
      else case fold (answer_for env days fault now m sender) (ev_rcpt_to (em_envelope m)) (d, False) of
        (d1, replied) \<Rightarrow>
          (d1, Inr (if \<not> replied then vacation_result ''skip'' ''no eligible recipients or already responded''
                    else vacation_result ''queued'' (''vacation auto-reply queued for sender '' @ sender))))"

section \<open>The purger\<close>

definition default_retention :: duration where "default_retention = 30 * 24 * hour"

definition new_purger :: "duration \<Rightarrow> duration" where
  "new_purger retention = (if retention \<le> 0 then default_retention else retention)"

definition purge_responses :: "duration \<Rightarrow> time \<Rightarrow> vacation_db \<Rightarrow> vacation_db" where
  "purge_responses retention now d =
     d\<lparr>vd_responses := (\<lambda>key. case vd_responses d key of Some t \<Rightarrow> if t < now - retention then None else Some t | None \<Rightarrow> None)\<rparr>"


section \<open>Replies over time\<close>

record vacation_system =
  vy_db :: vacation_db
  vy_clock :: time

text \<open>
  Messages pass the filter and the purger runs, in any order, as time goes on. The table of replies can be read and written; the
  other queries may fail.
\<close>

inductive vacation_step :: "duration \<Rightarrow> vacation_system \<Rightarrow> vacation_system \<Rightarrow> bool" for retention :: duration where
  message: "vy_clock s \<le> now \<Longrightarrow> \<not> vf_count fault \<Longrightarrow> vf_record fault = None \<Longrightarrow>
    vacation_execute env days fault now auth m (vy_db s) = (d, r) \<Longrightarrow> vacation_step retention s \<lparr>vy_db = d, vy_clock = now\<rparr>"
| purge: "vy_clock s \<le> now \<Longrightarrow> vacation_step retention s \<lparr>vy_db = purge_responses retention now (vy_db s), vy_clock = now\<rparr>"
| edit: "vacation_step retention s (s\<lparr>vy_db := (vy_db s)\<lparr>vd_mailboxes := boxes, vd_settings := settings\<rparr>\<rparr>)"

definition vacation_start :: "vacation_system \<Rightarrow> bool" where
  "vacation_start s \<longleftrightarrow> vd_queue (vy_db s) = []"

definition spaced :: "duration \<Rightarrow> reply_row \<Rightarrow> reply_row \<Rightarrow> bool" where
  "spaced retention x y \<longleftrightarrow> rr_key x = rr_key y \<longrightarrow> rr_window y \<le> retention \<longrightarrow> rr_at x + rr_window y \<le> rr_at y"

definition remembered :: "duration \<Rightarrow> time \<Rightarrow> vacation_db \<Rightarrow> reply_row \<Rightarrow> bool" where
  "remembered retention now d x \<longleftrightarrow>
     rr_at x \<le> now \<and> ((\<exists>t. vd_responses d (rr_key x) = Some t \<and> rr_at x \<le> t) \<or> rr_at x \<le> now - retention)"

definition replies_ok :: "duration \<Rightarrow> time \<Rightarrow> vacation_db \<Rightarrow> bool" where
  "replies_ok retention now d \<longleftrightarrow>
     sorted_wrt (spaced retention) (vd_queue d) \<and> (\<forall>x\<in>set (vd_queue d). remembered retention now d x)"

lemma replies_ok_later: "replies_ok retention clock d \<Longrightarrow> clock \<le> now \<Longrightarrow> replies_ok retention now d"
  by (fastforce simp: replies_ok_def remembered_def)

lemma replies_ok_record:
  "replies_ok retention now d \<Longrightarrow> replies_ok retention now (record_vacation_response key now d)"
  by (auto simp: replies_ok_def remembered_def record_vacation_response_def)

lemma replies_ok_queue:
  assumes "replies_ok retention now d" "window \<le> 0 \<or> \<not> responded_after fault d key (now - window)" "\<not> vf_count fault"
  shows "replies_ok retention now (queue_reply key window now row (record_vacation_response key now d))"
proof -
  let ?y = "\<lparr>rr_key = key, rr_window = window, rr_at = now, rr_row = row\<rparr>"
  have "spaced retention x ?y" if "x \<in> set (vd_queue d)" for x
  proof -
    have "remembered retention now d x" using that assms(1) by (simp add: replies_ok_def)
    then show ?thesis using assms(2,3) by (auto simp: spaced_def remembered_def responded_after_def split: option.splits)
  qed
  moreover have "replies_ok retention now (record_vacation_response key now d)" by (rule replies_ok_record [OF assms(1)])
  ultimately show ?thesis
    by (auto simp: replies_ok_def queue_reply_def sorted_wrt_append remembered_def record_vacation_response_def)
qed

lemma replies_ok_answer:
  assumes "replies_ok retention now (fst acc)" "\<not> vf_count fault" "vf_record fault = None"
  shows "replies_ok retention now (fst (answer_for env days fault now m sender rcpt acc))"
  using assms
  by (auto simp: answer_for_def Let_def replies_ok_record intro!: replies_ok_queue [of _ _ _ _ fault]
      split: prod.splits list.splits option.splits)

lemma replies_ok_sieve:
  assumes "replies_ok retention now d" "\<not> vf_count fault" "sieve_reply env fault now m sender d = (d', r)"
  shows "replies_ok retention now d'"
  using assms
  by (auto simp: sieve_reply_def Let_def replies_ok_record split: prod.splits list.splits option.splits if_splits
      intro!: replies_ok_queue [of _ _ _ _ fault])

lemma replies_ok_execute:
  assumes "replies_ok retention now d" "\<not> vf_count fault" "vf_record fault = None"
    "vacation_execute env days fault now auth m d = (d', r)"
  shows "replies_ok retention now d'"
proof -
  have "replies_ok retention now (fst (fold (answer_for env days fault now m sender) rcpts acc))"
    if "replies_ok retention now (fst acc)" for sender rcpts acc
    using that by (induction rcpts arbitrary: acc) (simp_all add: replies_ok_answer assms(2,3))
  from this [of "(d, False)"] show ?thesis
    using assms(1,4) replies_ok_sieve [OF assms(1,2)]
    by (auto simp: vacation_execute_def Let_def split: prod.splits if_splits) (metis fst_conv)+
qed

lemma replies_ok_purge: "replies_ok retention now d \<Longrightarrow> replies_ok retention now (purge_responses retention now d)"
  by (fastforce simp: replies_ok_def remembered_def purge_responses_def)

lemma replies_ok_step:
  "vacation_step retention s s' \<Longrightarrow> replies_ok retention (vy_clock s) (vy_db s) \<Longrightarrow> replies_ok retention (vy_clock s') (vy_db s')"
proof (induction rule: vacation_step.induct)
  case (message s now fault env days auth m d r)
  then show ?case using replies_ok_execute [OF replies_ok_later] by fastforce
next
  case (purge s now)
  then show ?case using replies_ok_purge [OF replies_ok_later] by fastforce
next
  case (edit s boxes settings)
  then show ?case by (simp add: replies_ok_def remembered_def)
qed

interpretation vacations: invariant_system vacation_start "vacation_step retention"
  "\<lambda>s. replies_ok retention (vy_clock s) (vy_db s)" for retention
  by unfold_locales (simp add: vacation_start_def replies_ok_def, rule replies_ok_step)



text \<open>What an execution queues, all of it from the null sender and to the envelope sender.\<close>

definition queues_only :: "string \<Rightarrow> vacation_db \<Rightarrow> vacation_db \<Rightarrow> bool" where
  "queues_only sender d d' \<longleftrightarrow>
     (\<exists>new. vd_queue d' = vd_queue d @ new \<and> (\<forall>x\<in>set new. ob_sender (rr_row x) = [] \<and> ob_recipient (rr_row x) = sender))"

lemma queues_only_refl [simp]: "queues_only sender d d"
  by (simp add: queues_only_def)

lemma queues_only_trans: "queues_only sender d d1 \<Longrightarrow> queues_only sender d1 d2 \<Longrightarrow> queues_only sender d d2"
  by (fastforce simp: queues_only_def)

lemma queues_only_record [simp]: "queues_only sender d (record_vacation_response key now d)"
  by (simp add: queues_only_def record_vacation_response_def)

lemma queues_only_reply [simp]: "queues_only sender d (queue_reply key window now (reply_outbound domain sender raw) (record_vacation_response key now d))"
  "queues_only sender d (queue_reply key window now (reply_outbound domain sender raw) d)"
  by (simp_all add: queues_only_def queue_reply_def record_vacation_response_def reply_outbound_def)

lemma answer_queues: "queues_only sender (fst acc) (fst (answer_for env days fault now m sender rcpt acc))"
  by (auto simp: answer_for_def Let_def split: prod.splits list.splits option.splits)

lemma answers_queue: "queues_only sender (fst acc) (fst (fold (answer_for env days fault now m sender) rcpts acc))"
proof (induction rcpts arbitrary: acc)
  case (Cons rcpt rcpts)
  show ?case using queues_only_trans [OF answer_queues Cons.IH] by simp
qed simp

lemma sieve_queues: "queues_only sender d (fst (sieve_reply env fault now m sender d))"
  by (auto simp: sieve_reply_def Let_def split: list.splits option.splits)

lemma execute_queues:
  assumes "vacation_execute env days fault now auth m d = (d', r)" "vd_queue d' \<noteq> vd_queue d"
  shows "queues_only (trim_space (to_lower (ev_mail_from (em_envelope m)))) d d'"
    "should_suppress auth (trim_space (to_lower (ev_mail_from (em_envelope m)))) m = []"
  using assms sieve_queues [of "trim_space (to_lower (ev_mail_from (em_envelope m)))" d env fault now m]
    answers_queue [of "trim_space (to_lower (ev_mail_from (em_envelope m)))" "(d, False)"]
  by (auto simp: vacation_execute_def Let_def split: prod.splits if_splits) (metis fst_conv)+

lemma first_some_none: "first_some p f xs = [] \<Longrightarrow> (\<And>x. p x \<Longrightarrow> f x \<noteq> []) \<Longrightarrow> x \<in> set xs \<Longrightarrow> \<not> p x"
  by (auto simp: first_some_def filter_empty_conv split: list.splits) (metis filter_eq_ConsD list.set_intros(1) Un_iff set_append list.set_intros(2))

lemma no_auth_failure:
  "auth_failure_reason rs = [] \<Longrightarrow> r \<in> set rs \<Longrightarrow>
     \<not> (ar_method r = auth_spf \<and> ar_result r \<in> {''fail'', ''softfail''}) \<and> \<not> (ar_method r = auth_dmarc \<and> ar_result r = ''fail'')"
  by (induction rs) (auto split: if_splits)

lemma not_suppressed:
  assumes "should_suppress auth sender m = []"
  shows "sender_reason sender = []" "v \<in> set (raw_header m ''Auto-Submitted'') \<Longrightarrow> \<not> automatic v"
    "auth_failure_reason (auth_list auth) = []" "v \<in> set (raw_header m ''Precedence'') \<Longrightarrow> \<not> bulk v"
    "h \<in> set [''List-Id'', ''List-Unsubscribe'', ''X-Mailing-List''] \<Longrightarrow> raw_header m h = []"
proof -
  have "sender_reason sender = [] \<and> auth_failure_reason (auth_list auth) = []
     \<and> first_some automatic (\<lambda>v. ''Auto-Submitted: '' @ auto_submitted_keyword v) (raw_header m ''Auto-Submitted'') = []
     \<and> first_some bulk (\<lambda>v. ''Precedence: '' @ trim_space (to_lower v)) (raw_header m ''Precedence'') = []
     \<and> first_some (\<lambda>h. raw_header m h \<noteq> []) (\<lambda>h. ''mailing-list header present: '' @ h)
         [''List-Id'', ''List-Unsubscribe'', ''X-Mailing-List''] = []"
    using assms by (simp add: should_suppress_def or_else_def split: if_splits)
  note none = this [THEN conjunct1] this [THEN conjunct2, THEN conjunct1] this [THEN conjunct2, THEN conjunct2, THEN conjunct1]
    this [THEN conjunct2, THEN conjunct2, THEN conjunct2, THEN conjunct1] this [THEN conjunct2, THEN conjunct2, THEN conjunct2, THEN conjunct2]
  show "sender_reason sender = []" "auth_failure_reason (auth_list auth) = []" by (rule none)+
  show "v \<in> set (raw_header m ''Auto-Submitted'') \<Longrightarrow> \<not> automatic v" by (rule first_some_none [OF none(3)]) simp_all
  show "v \<in> set (raw_header m ''Precedence'') \<Longrightarrow> \<not> bulk v" by (rule first_some_none [OF none(4)]) simp_all
  show "h \<in> set [''List-Id'', ''List-Unsubscribe'', ''X-Mailing-List''] \<Longrightarrow> raw_header m h = []"
    using first_some_none [OF none(5), of h] by simp
qed

lemma null_sender_unanswered:
  assumes "ev_mail_from (em_envelope m) = []"
  shows "fst (vacation_execute env days fault now auth m d) = d"
proof -
  have "trim_space (to_lower []) = []" by code_simp
  then have "should_suppress auth (trim_space (to_lower (ev_mail_from (em_envelope m)))) m \<noteq> []"
    using assms by (simp add: should_suppress_def sender_reason_def or_else_def)
  then show ?thesis by (simp add: vacation_execute_def Let_def)
qed

text \<open>
  Automatic replies make no loop and no backscatter. A reply goes out from the null sender to the envelope sender of a
  message that had one, was not sent automatically or by a list, and did not fail SPF or DMARC; and a message from the sender a
  reply has, such as that reply arriving at another responder of this kind or bounced back to this one, is not answered.\<close>

theorem vacation_never_loops:
  assumes "vacation_execute env days fault now auth m d = (d', r)" "x \<in> set (drop (length (vd_queue d)) (vd_queue d'))"
  shows "ob_recipient (rr_row x) = trim_space (to_lower (ev_mail_from (em_envelope m))) \<and> ob_recipient (rr_row x) \<noteq> []
    \<and> (\<forall>v\<in>set (raw_header m ''Auto-Submitted''). \<not> automatic v) \<and> (\<forall>v\<in>set (raw_header m ''Precedence''). \<not> bulk v)
    \<and> raw_header m ''List-Id'' = []
    \<and> (\<forall>a\<in>set (auth_list auth). \<not> (ar_method a = auth_spf \<and> ar_result a \<in> {''fail'', ''softfail''})
         \<and> \<not> (ar_method a = auth_dmarc \<and> ar_result a = ''fail''))
    \<and> (\<forall>m2 env2 days2 fault2 now2 auth2 d2. ev_mail_from (em_envelope m2) = ob_sender (rr_row x) \<longrightarrow>
         fst (vacation_execute env2 days2 fault2 now2 auth2 m2 d2) = d2)"
proof -
  let ?sender = "trim_space (to_lower (ev_mail_from (em_envelope m)))"
  have "vd_queue d' \<noteq> vd_queue d" using assms(2) by auto
  note q = execute_queues [OF assms(1) this]
  have "ob_sender (rr_row x) = [] \<and> ob_recipient (rr_row x) = ?sender" using q(1) assms(2) by (auto simp: queues_only_def)
  moreover have "?sender \<noteq> []" using not_suppressed(1) [OF q(2)] by (auto simp: sender_reason_def)
  ultimately show ?thesis
    using not_suppressed(2-) [OF q(2)] no_auth_failure [OF not_suppressed(3) [OF q(2)]] null_sender_unanswered by auto
qed


section \<open>Ann is away\<close>

definition sample_vacation_env :: vacation_env where
  "sample_vacation_env = \<lparr>ve_q_encode = id, ve_rfc1123z = (\<lambda>_. ''Mon, 01 Jan 2024 00:00:00 +0000''), ve_random = replicate 16 0\<rparr>"

definition ann_away :: vacation_db where
  "ann_away =
     \<lparr>vd_mailboxes = [(''ann'', ''a.example'', 1)],
      vd_settings = [\<lparr>vs_mailbox = 1, vs_enabled = True, vs_subject = ''Away'', vs_body = ''Back soon'', vs_start = None, vs_end = None\<rparr>],
      vd_responses = Map.empty, vd_queue = []\<rparr>"

definition mail_to_ann :: email where
  "mail_to_ann = sieve_email\<lparr>em_envelope := (em_envelope sieve_email)\<lparr>ev_mail_from := ''Bob@b.example''\<rparr>\<rparr>"

definition bob_writes :: "int \<Rightarrow> time \<Rightarrow> vacation_db \<Rightarrow> vacation_db \<times> (string + filter_result)" where
  "bob_writes days now d = vacation_execute sample_vacation_env days no_vacation_fault now None mail_to_ann d"

definition two_replies :: vacation_db where
  "two_replies = fst (bob_writes 7 (8 * 24 * hour) (fst (bob_writes 7 0 ann_away)))"

lemma bob_writes_step:
  "clock \<le> now \<Longrightarrow> vacation_step retention \<lparr>vy_db = d, vy_clock = clock\<rparr> \<lparr>vy_db = fst (bob_writes days now d), vy_clock = now\<rparr>"
  by (rule message [where fault = no_vacation_fault and r = "snd (bob_writes days now d)"])
    (simp_all add: no_vacation_fault_def bob_writes_def)


theorem vacation_never_loops_witness:
  "\<exists>x. vd_queue (fst (bob_writes 7 0 ann_away)) = [x] \<and> ob_recipient (rr_row x) = ''bob@b.example'' \<and> raw_header mail_to_ann ''List-Id'' = []"
proof -
  have "length (vd_queue (fst (bob_writes 7 0 ann_away))) = 1" by code_simp
  then obtain x where x: "vd_queue (fst (bob_writes 7 0 ann_away)) = [x]" by (metis length_0_conv length_Suc_conv One_nat_def)
  have e: "vacation_execute sample_vacation_env 7 no_vacation_fault 0 None mail_to_ann ann_away =
      (fst (bob_writes 7 0 ann_away), snd (bob_writes 7 0 ann_away))" by (simp add: bob_writes_def)
  have "vd_queue ann_away = []" by (simp add: ann_away_def)
  then have "x \<in> set (drop (length (vd_queue ann_away)) (vd_queue (fst (bob_writes 7 0 ann_away))))" by (simp add: x)
  moreover have "trim_space (to_lower (ev_mail_from (em_envelope mail_to_ann))) = ''bob@b.example''" by code_simp
  ultimately show ?thesis using vacation_never_loops [OF e] x by auto
qed

text \<open>
  A longer interval is not kept: with one of sixty days Bob, answered at the start, is answered again after thirty-one, because
  the purger has dropped the row by then.
\<close>

lemma long_interval_cut_by_purger:
  "map rr_at (vd_queue (fst (bob_writes 60 (31 * 24 * hour) (fst (bob_writes 60 0 ann_away))))) = [0]"
  "map rr_at (vd_queue (fst (bob_writes 60 (31 * 24 * hour)
     (purge_responses default_retention (31 * 24 * hour) (fst (bob_writes 60 0 ann_away)))))) = [0, 31 * 24 * hour]"
  by code_simp+

end
