(* ===== verification/Auth_Hashes.thy ===== *)
theory Auth_Hashes
  imports Mail_Address
begin

text \<open>
  The secrets of package \<^verbatim>\<open>internal/auth\<close>: password hashes (\<^verbatim>\<open>auth.go\<close>, \<^verbatim>\<open>imported_password.go\<close>), app passwords, API
  keys and client secrets (\<^verbatim>\<open>app_password.go\<close>, \<^verbatim>\<open>api_key.go\<close>, \<^verbatim>\<open>client_secret.go\<close>), one-time codes and recovery codes
  (\<^verbatim>\<open>totp.go\<close>). The cryptography itself is the argument \<^typ>\<open>string\<close> functions of a \<open>crypt_env\<close>: bcrypt, SHA-crypt, Argon2,
  SHA-256 and RFC 6238. A regular expression of the source is the predicate on the pieces between its
  separators, none of which its character classes contain. Random bytes are arguments, a list per read.
\<close>

record crypt_env =
  ce_bcrypt :: "string \<Rightarrow> string \<Rightarrow> bool"
  ce_bcrypt_make :: "string \<Rightarrow> string option"
  ce_bcrypt_cost :: "string \<Rightarrow> int option"
  ce_bcrypt_min_cost :: int
  ce_sha256_crypt :: "string \<Rightarrow> string \<Rightarrow> bool"
  ce_sha512_crypt :: "string \<Rightarrow> string \<Rightarrow> bool"
  ce_sha256_rounds :: "string \<Rightarrow> nat option"
  ce_sha512_rounds :: "string \<Rightarrow> nat option"
  ce_sha_min_rounds :: nat
  ce_argon2 :: "bool \<Rightarrow> string \<Rightarrow> string \<Rightarrow> nat \<Rightarrow> nat \<Rightarrow> nat \<Rightarrow> nat \<Rightarrow> string"
  ce_sha256_hex :: "string \<Rightarrow> string"
  ce_totp :: "string \<Rightarrow> string \<Rightarrow> time \<Rightarrow> bool option"

section \<open>Imported password hashes\<close>

definition max_imported_sha_rounds :: nat where "max_imported_sha_rounds = 1000000"
definition max_imported_argon2_memory :: nat where "max_imported_argon2_memory = 256 * 1024"
definition max_imported_argon2_passes :: nat where "max_imported_argon2_passes = 10"
definition max_imported_argon2_lanes :: nat where "max_imported_argon2_lanes = 8"

definition blf_crypt :: string where "blf_crypt = ''{BLF-CRYPT}''"
definition sha256_scheme :: string where "sha256_scheme = ''{SHA256-CRYPT}''"
definition sha512_scheme :: string where "sha512_scheme = ''{SHA512-CRYPT}''"

lemmas scheme_defs = blf_crypt_def sha256_scheme_def sha512_scheme_def

definition is_alnum :: "char \<Rightarrow> bool" where
  "is_alnum c \<longleftrightarrow> is_upper c \<or> is_lower c \<or> is_digit c"

definition crypt_char :: "char \<Rightarrow> bool" where
  "crypt_char c \<longleftrightarrow> c = CHR ''.'' \<or> c = CHR ''/'' \<or> is_alnum c"

definition bcrypt_import :: "string \<Rightarrow> bool" where
  "bcrypt_import raw \<longleftrightarrow>
     (case split_byte (CHR ''$'') raw of
        [a, v, cost, rest] \<Rightarrow>
          a = [] \<and> v \<in> {''2a'', ''2b'', ''2y''} \<and> length cost = 2 \<and> list_all is_digit cost
          \<and> length rest = 53 \<and> list_all crypt_char rest
      | _ \<Rightarrow> False)"

definition rounds_field :: "string \<Rightarrow> bool" where
  "rounds_field r \<longleftrightarrow>
     has_prefix r ''rounds='' \<and>
     (case drop 7 r of [] \<Rightarrow> False | d # ds \<Rightarrow> is_digit d \<and> d \<noteq> CHR ''0'' \<and> list_all is_digit ds)"

definition salt_and_sum :: "nat \<Rightarrow> string \<Rightarrow> string \<Rightarrow> bool" where
  "salt_and_sum n salt digest \<longleftrightarrow>
     1 \<le> length salt \<and> length salt \<le> 16 \<and> list_all crypt_char salt \<and> length digest = n \<and> list_all crypt_char digest"

definition sha_import :: "string \<Rightarrow> nat \<Rightarrow> string \<Rightarrow> bool" where
  "sha_import i n raw \<longleftrightarrow>
     (case split_byte (CHR ''$'') raw of
        [a, v, salt, digest] \<Rightarrow> a = [] \<and> v = i \<and> salt_and_sum n salt digest
      | [a, v, r, salt, digest] \<Rightarrow> a = [] \<and> v = i \<and> rounds_field r \<and> salt_and_sum n salt digest
      | _ \<Rightarrow> False)"

definition b64_std_char :: "char \<Rightarrow> bool" where
  "b64_std_char c \<longleftrightarrow> is_alnum c \<or> c = CHR ''+'' \<or> c = CHR ''/''"

definition digits_field :: "string \<Rightarrow> nat \<Rightarrow> string \<Rightarrow> bool" where
  "digits_field p n s \<longleftrightarrow>
     has_prefix s p \<and> 1 \<le> length (drop (length p) s) \<and> length (drop (length p) s) \<le> n \<and> list_all is_digit (drop (length p) s)"

text \<open>The submatches of \<open>argon2ImportPattern\<close>.\<close>

definition argon2_match :: "string \<Rightarrow> (string \<times> string \<times> string \<times> string \<times> string \<times> string) option" where
  "argon2_match raw =
     (case split_byte (CHR ''$'') raw of
        [a, v, ver, params, salt, digest] \<Rightarrow>
          (case split_byte (CHR '','') params of
             [pm, pt, pp] \<Rightarrow>
               if a = [] \<and> v \<in> {''argon2id'', ''argon2i''} \<and> ver = ''v=19''
                  \<and> digits_field ''m='' 6 pm \<and> digits_field ''t='' 2 pt \<and> digits_field ''p='' 1 pp
                  \<and> 11 \<le> length salt \<and> length salt \<le> 86 \<and> list_all b64_std_char salt
                  \<and> 22 \<le> length digest \<and> length digest \<le> 86 \<and> list_all b64_std_char digest
               then Some (v, drop 2 pm, drop 2 pt, drop 2 pp, salt, digest) else None
           | _ \<Rightarrow> None)
      | _ \<Rightarrow> None)"

text \<open>\<open>base64.RawStdEncoding.Strict()\<close>: no padding, and the bits left over are zero.\<close>

definition b64_value :: "char \<Rightarrow> nat" where
  "b64_value c =
     (if is_upper c then of_char c - 65 else if is_lower c then of_char c - 71
      else if is_digit c then of_char c + 4 else if c = CHR ''+'' then 62 else 63)"

fun b64_strict :: "nat list \<Rightarrow> string option" where
  "b64_strict [] = Some []"
| "b64_strict [a] = None"
| "b64_strict [a, b] = (if b mod 16 = 0 then Some [char_of (4 * a + b div 16)] else None)"
| "b64_strict [a, b, c] =
     (if c mod 4 = 0 then Some [char_of (4 * a + b div 16), char_of (16 * (b mod 16) + c div 4)] else None)"
| "b64_strict (a # b # c # d # rest) =
     map_option ((@) [char_of (4 * a + b div 16), char_of (16 * (b mod 16) + c div 4), char_of (64 * (c mod 4) + d)])
       (b64_strict rest)"

record argon2_hash =
  a2_variant :: string
  a2_memory :: nat
  a2_passes :: nat
  a2_lanes :: nat
  a2_salt :: string
  a2_sum :: string

definition parse_argon2 :: "string \<Rightarrow> argon2_hash option" where
  "parse_argon2 raw =
     (case argon2_match raw of
        None \<Rightarrow> None
      | Some (variant, pm, pt, pp, s, h) \<Rightarrow>
          (case (b64_strict (map b64_value s), b64_strict (map b64_value h)) of
             (Some salt, Some digest) \<Rightarrow>
               (let memory = digits_value pm; passes = digits_value pt; lanes = digits_value pp in
                if lanes < 1 \<or> max_imported_argon2_lanes < lanes \<or> passes < 1 \<or> max_imported_argon2_passes < passes
                   \<or> memory < 8 * lanes \<or> max_imported_argon2_memory < memory
                   \<or> length salt < 8 \<or> 64 < length salt \<or> length digest < 16 \<or> 64 < length digest
                then None
                else Some \<lparr>a2_variant = variant, a2_memory = memory, a2_passes = passes, a2_lanes = lanes, a2_salt = salt, a2_sum = digest\<rparr>)
           | _ \<Rightarrow> None))"

text \<open>A hash as it is handed in: its scheme, braces included, and the rest; \<open>None\<close> for an unclosed brace.\<close>

definition split_scheme :: "string \<Rightarrow> (string \<times> string) option" where
  "split_scheme hash =
     (if has_prefix hash ''{''
      then (case cut_byte (CHR ''}'') hash of (scheme, raw, ok) \<Rightarrow> if ok then Some (scheme @ ''}'', raw) else None)
      else Some ([], hash))"

definition argon2_scheme :: "argon2_hash \<Rightarrow> string" where
  "argon2_scheme h = ''{'' @ to_upper (a2_variant h) @ ''}''"

definition normalize_imported_hash :: "crypt_env \<Rightarrow> string \<Rightarrow> string option" where
  "normalize_imported_hash env hash =
     (if 256 < length hash then None
      else case split_scheme hash of None \<Rightarrow> None | Some (scheme, raw) \<Rightarrow>
        if bcrypt_import raw \<and> scheme \<in> {[], blf_crypt} then
          (case ce_bcrypt_cost env raw of
             Some cost \<Rightarrow> if ce_bcrypt_min_cost env \<le> cost \<and> cost \<le> 14 then Some (blf_crypt @ raw) else None
           | None \<Rightarrow> None)
        else if sha_import ''5'' 43 raw \<and> scheme \<in> {[], sha256_scheme} then
          (case ce_sha256_rounds env raw of
             Some n \<Rightarrow> if ce_sha_min_rounds env \<le> n \<and> n \<le> max_imported_sha_rounds then Some (sha256_scheme @ raw) else None
           | None \<Rightarrow> None)
        else if sha_import ''6'' 86 raw \<and> scheme \<in> {[], sha512_scheme} then
          (case ce_sha512_rounds env raw of
             Some n \<Rightarrow> if ce_sha_min_rounds env \<le> n \<and> n \<le> max_imported_sha_rounds then Some (sha512_scheme @ raw) else None
           | None \<Rightarrow> None)
        else if argon2_match raw \<noteq> None then
          (case parse_argon2 raw of
             Some h \<Rightarrow> if scheme \<in> {[], argon2_scheme h} then Some (argon2_scheme h @ raw) else None
           | None \<Rightarrow> None)
        else None)"

section \<open>Checking a password\<close>

definition check_argon2 :: "crypt_env \<Rightarrow> string \<Rightarrow> string \<Rightarrow> bool" where
  "check_argon2 env password raw =
     (case parse_argon2 raw of
        None \<Rightarrow> False
      | Some h \<Rightarrow>
          ce_argon2 env (a2_variant h = ''argon2id'') password (a2_salt h) (a2_passes h) (a2_memory h) (a2_lanes h)
            (length (a2_sum h)) = a2_sum h)"

definition check_imported_password :: "crypt_env \<Rightarrow> string \<Rightarrow> string \<Rightarrow> bool" where
  "check_imported_password env password hash =
     (case normalize_imported_hash env hash of
        None \<Rightarrow> False
      | Some n \<Rightarrow>
          if 4096 < length password then False
          else if has_prefix n sha256_scheme then ce_sha256_crypt env (trim_prefix n sha256_scheme) password
          else if has_prefix n sha512_scheme then ce_sha512_crypt env (trim_prefix n sha512_scheme) password
          else if has_prefix n ''{ARGON2'' then check_argon2 env password (fst (snd (cut_byte (CHR ''}'') n)))
          else False)"

definition imported_schemes :: "string list" where
  "imported_schemes =
     [sha256_scheme, sha512_scheme, ''{ARGON2ID}'', ''{ARGON2I}'', ''$5$'', ''$6$'', ''$argon2'']"

definition is_imported_hash :: "string \<Rightarrow> bool" where
  "is_imported_hash hash \<longleftrightarrow> list_ex (has_prefix hash) imported_schemes"

definition password_needs_rehash :: "string \<Rightarrow> string \<Rightarrow> bool" where
  "password_needs_rehash password hash \<longleftrightarrow> length password \<le> 72 \<and> is_imported_hash hash"

definition hash_password :: "crypt_env \<Rightarrow> string \<Rightarrow> string option" where
  "hash_password env password = map_option ((@) blf_crypt) (ce_bcrypt_make env password)"

definition check_password :: "crypt_env \<Rightarrow> string \<Rightarrow> string \<Rightarrow> bool" where
  "check_password env password hash =
     (if is_imported_hash hash then check_imported_password env password hash
      else ce_bcrypt env (if 11 < length hash \<and> take 11 hash = blf_crypt then drop 11 hash else hash) password)"

section \<open>Recovery codes and one-time codes\<close>

definition recovery_code_count :: nat where "recovery_code_count = 10"

definition recovery_code :: "nat list \<Rightarrow> string" where
  "recovery_code b = (let h = hex_bytes b in take 5 h @ ''-'' @ drop 5 h)"

fun generate_recovery_codes :: "nat \<Rightarrow> nat list list \<Rightarrow> string list option" where
  "generate_recovery_codes 0 reads = Some []"
| "generate_recovery_codes (Suc n) [] = None"
| "generate_recovery_codes (Suc n) (b # reads) = map_option ((#) (recovery_code b)) (generate_recovery_codes n reads)"

definition normalize_recovery_code :: "string \<Rightarrow> string" where
  "normalize_recovery_code s =
     filter (\<lambda>c. c \<noteq> CHR '' '') (filter (\<lambda>c. c \<noteq> CHR ''-'') (to_lower (trim_space s)))"

definition hash_recovery_code :: "crypt_env \<Rightarrow> string \<Rightarrow> string option" where
  "hash_recovery_code env code = hash_password env (normalize_recovery_code code)"

definition check_recovery_code :: "crypt_env \<Rightarrow> string \<Rightarrow> string \<Rightarrow> bool" where
  "check_recovery_code env code hash = check_password env (normalize_recovery_code code) hash"

definition validate_totp_code :: "crypt_env \<Rightarrow> time \<Rightarrow> string \<Rightarrow> string \<Rightarrow> bool" where
  "validate_totp_code env now code0 secret =
     (let code = trim_space code0 in
      if code = [] \<or> secret = [] then False
      else case ce_totp env code secret now of None \<Rightarrow> False | Some ok \<Rightarrow> ok)"

section \<open>App passwords, API keys and client secrets\<close>

definition app_password_prefix :: string where "app_password_prefix = ''rm_''"
definition api_key_prefix :: string where "api_key_prefix = ''rmk_''"
definition app_password_id_length :: nat where "app_password_id_length = 12"
definition app_password_secret_length :: nat where "app_password_secret_length = 43"

definition app_password_length :: nat where
  "app_password_length = length app_password_prefix + app_password_id_length + 1 + app_password_secret_length"

definition api_key_length :: nat where
  "api_key_length = length api_key_prefix + app_password_id_length + 1 + app_password_secret_length"

lemmas app_password_defs =
  app_password_prefix_def api_key_prefix_def app_password_id_length_def app_password_secret_length_def
  app_password_length_def api_key_length_def

definition base62_alphabet :: string where
  "base62_alphabet = ''ABCDEFGHIJKLMNOPQRSTUVWXYZabcdefghijklmnopqrstuvwxyz0123456789''"

definition is_base62 :: "string \<Rightarrow> bool" where
  "is_base62 s \<longleftrightarrow> list_all is_alnum s"

text \<open>One buffer of random bytes, and the reads until \<open>n\<close> characters are drawn; \<open>None\<close> when a read fails.\<close>

fun base62_buffer :: "nat \<Rightarrow> nat list \<Rightarrow> string \<Rightarrow> string" where
  "base62_buffer n [] out = out"
| "base62_buffer n (b # buf) out =
     base62_buffer n buf
       (if b < 256 - 256 mod length base62_alphabet \<and> length out < n
        then out @ [base62_alphabet ! (b mod length base62_alphabet)] else out)"

fun base62_draw :: "nat \<Rightarrow> nat list list \<Rightarrow> string \<Rightarrow> (string \<times> nat list list) option" where
  "base62_draw n [] out = (if length out < n then None else Some (out, []))"
| "base62_draw n (buf # reads) out =
     (if length out < n then base62_draw n reads (base62_buffer n buf out) else Some (out, buf # reads))"

definition random_base62 :: "nat \<Rightarrow> nat list list \<Rightarrow> (string \<times> nat list list) option" where
  "random_base62 n reads = base62_draw n reads []"

definition app_password_of :: "string \<Rightarrow> string \<Rightarrow> string" where
  "app_password_of public_id secret = app_password_prefix @ public_id @ ''_'' @ secret"

definition api_key_of :: "string \<Rightarrow> string \<Rightarrow> string" where
  "api_key_of public_id secret = api_key_prefix @ public_id @ ''_'' @ secret"

text \<open>A new id and secret, and what the server keeps of the secret.\<close>

definition new_client_secret :: "crypt_env \<Rightarrow> nat list list \<Rightarrow> (string \<times> string \<times> string) option" where
  "new_client_secret env reads =
     (case random_base62 app_password_id_length reads of
        None \<Rightarrow> None
      | Some (public_id, rest) \<Rightarrow>
          (case random_base62 app_password_secret_length rest of
             None \<Rightarrow> None
           | Some (secret, _) \<Rightarrow> Some (public_id, secret, ce_sha256_hex env secret)))"

definition new_app_password :: "crypt_env \<Rightarrow> nat list list \<Rightarrow> (string \<times> string \<times> string) option" where
  "new_app_password env reads =
     map_option (\<lambda>(public_id, secret, hash). (app_password_of public_id secret, public_id, hash)) (new_client_secret env reads)"

definition new_api_key :: "crypt_env \<Rightarrow> nat list list \<Rightarrow> (string \<times> string \<times> string) option" where
  "new_api_key env reads =
     map_option (\<lambda>(public_id, secret, hash). (api_key_of public_id secret, public_id, hash)) (new_client_secret env reads)"

definition id_and_secret :: "string \<Rightarrow> (string \<times> string) option" where
  "id_and_secret rest =
     (if rest ! app_password_id_length \<noteq> CHR ''_'' then None
      else let public_id = take app_password_id_length rest; secret = drop (app_password_id_length + 1) rest in
        if \<not> is_base62 public_id \<or> \<not> is_base62 secret then None else Some (public_id, secret))"

definition parse_app_password :: "string \<Rightarrow> (string \<times> string) option" where
  "parse_app_password s =
     (if length s \<noteq> app_password_length \<or> \<not> has_prefix s app_password_prefix then None
      else id_and_secret (drop (length app_password_prefix) s))"

definition parse_api_key :: "string \<Rightarrow> (string \<times> string) option" where
  "parse_api_key s =
     (if length s \<noteq> api_key_length \<or> \<not> has_prefix s api_key_prefix then None
      else id_and_secret (drop (length api_key_prefix) s))"

definition is_app_password :: "string \<Rightarrow> bool" where
  "is_app_password s \<longleftrightarrow> parse_app_password s \<noteq> None"

definition looks_like_api_key :: "string \<Rightarrow> bool" where
  "looks_like_api_key token \<longleftrightarrow> has_prefix token api_key_prefix"

definition app_password_secret_matches :: "crypt_env \<Rightarrow> string \<Rightarrow> string \<Rightarrow> bool" where
  "app_password_secret_matches env secret hash =
     (let want = (if hash = [] then ce_sha256_hex env (replicate app_password_secret_length (CHR ''0'')) else hash)
      in ce_sha256_hex env secret = want \<and> hash \<noteq> [])"

definition client_secret_permission_allowed :: "string \<Rightarrow> string \<Rightarrow> bool" where
  "client_secret_permission_allowed capability scope =
     (if capability \<in> {''mail:read'', ''mail:write'', ''mail:send'', ''mail:receive''} then True
      else if capability \<in> {''domains:read'', ''accounts:read'', ''pipelines:read'', ''pipelines:write'', ''pipelines:delete''}
      then length ''domain:'' < length scope \<and> take (length ''domain:'') scope = ''domain:''
      else False)"

section \<open>Importing a hash\<close>

lemma split_scheme_append: "CHR ''}'' \<notin> set s \<Longrightarrow> split_scheme (CHR ''{'' # s @ CHR ''}'' # raw) = Some (CHR ''{'' # s @ ''}'', raw)"
  using cut_byte_append [of "CHR ''}''" "CHR ''{'' # s" raw] by (simp add: split_scheme_def)

lemma split_scheme_cases:
  assumes "split_scheme h = Some (scheme, raw)"
  shows "h = scheme @ raw" "scheme = [] \<Longrightarrow> \<not> has_prefix h ''{''"
proof -
  show "h = scheme @ raw"
  proof (cases "has_prefix h ''{''")
    case True
    then obtain a where "cut_byte (CHR ''}'') h = (a, raw, True)" "scheme = a @ ''}''"
      using assms by (auto simp: split_scheme_def split: prod.splits if_splits)
    then show ?thesis by (simp add: cut_byte_found)
  qed (use assms in \<open>simp add: split_scheme_def\<close>)
  show "\<not> has_prefix h ''{''" if "scheme = []"
    using assms that by (auto simp: split_scheme_def split: prod.splits if_splits)
qed

lemma split_known_scheme:
  "split_scheme (blf_crypt @ raw) = Some (blf_crypt, raw)" "split_scheme (sha256_scheme @ raw) = Some (sha256_scheme, raw)"
  "split_scheme (sha512_scheme @ raw) = Some (sha512_scheme, raw)"
  using split_scheme_append [of "''BLF-CRYPT''"] split_scheme_append [of "''SHA256-CRYPT''"] split_scheme_append [of "''SHA512-CRYPT''"]
  by (simp_all add: scheme_defs)

lemma argon2_variants: "parse_argon2 raw = Some h \<Longrightarrow> a2_variant h = ''argon2id'' \<or> a2_variant h = ''argon2i''"
  by (auto simp: parse_argon2_def argon2_match_def Let_def split: option.splits list.splits if_splits)

lemma argon2_schemes: "parse_argon2 raw = Some h \<Longrightarrow> argon2_scheme h = ''{ARGON2ID}'' \<or> argon2_scheme h = ''{ARGON2I}''"
proof (drule argon2_variants)
  have "to_upper ''argon2id'' = ''ARGON2ID''" "to_upper ''argon2i'' = ''ARGON2I''" by code_simp+
  then show "a2_variant h = ''argon2id'' \<or> a2_variant h = ''argon2i'' \<Longrightarrow> ?thesis" by (auto simp: argon2_scheme_def)
qed

lemma split_argon2_scheme: "parse_argon2 raw = Some h \<Longrightarrow> split_scheme (argon2_scheme h @ raw) = Some (argon2_scheme h, raw)"
  using argon2_schemes [of raw h] split_scheme_append [of "''ARGON2ID''"] split_scheme_append [of "''ARGON2I''"] by fastforce

text \<open>The forms a hash is recognised by.\<close>

lemma split_dollar: "split_byte (CHR ''$'') raw = [] # v # rest \<Longrightarrow> has_prefix raw (CHR ''$'' # v)"
  using join_split_byte [of "CHR ''$''" raw] by (cases rest) (auto simp: has_prefix_iff)

lemma bcrypt_import_prefix: "bcrypt_import raw \<Longrightarrow> has_prefix raw ''$2''"
  using split_dollar [of raw] by (auto simp: bcrypt_import_def has_prefix_iff split: list.splits)

lemma sha_import_prefix: "sha_import i n raw \<Longrightarrow> has_prefix raw (CHR ''$'' # i @ ''$'')"
  using join_split_byte [of "CHR ''$''" raw] by (auto simp: sha_import_def has_prefix_iff split: list.splits)

lemma argon2_import_prefix: "argon2_match raw \<noteq> None \<Longrightarrow> has_prefix raw ''$argon2''"
  using split_dollar [of raw] by (auto simp: argon2_match_def has_prefix_iff split: list.splits if_splits)

text \<open>Normalizing adds at most the scheme, and its result is normal.\<close>

lemma normalize_bare:
  assumes "normalize_imported_hash env raw = Some n" "split_scheme raw = Some ([], raw)" "length raw \<le> 241"
  shows "normalize_imported_hash env n = Some n" "is_imported_hash raw \<longleftrightarrow> n \<noteq> blf_crypt @ raw"
proof -
  consider (b) "n = blf_crypt @ raw" "bcrypt_import raw"
    | (s2) "n = sha256_scheme @ raw" "\<not> bcrypt_import raw" "sha_import ''5'' 43 raw"
    | (s5) "n = sha512_scheme @ raw" "\<not> bcrypt_import raw" "\<not> sha_import ''5'' 43 raw" "sha_import ''6'' 86 raw"
    | (a) h where "n = argon2_scheme h @ raw" "parse_argon2 raw = Some h" "\<not> bcrypt_import raw" "\<not> sha_import ''5'' 43 raw" "\<not> sha_import ''6'' 86 raw"
        "argon2_match raw \<noteq> None"
    using assms(1,2) by (auto simp: normalize_imported_hash_def split: if_splits option.splits)
  then have "normalize_imported_hash env n = Some n \<and> (is_imported_hash raw \<longleftrightarrow> n \<noteq> blf_crypt @ raw)"
  proof cases
    case b
    then have "\<not> is_imported_hash raw"
      using bcrypt_import_prefix [of raw] by (auto simp: is_imported_hash_def imported_schemes_def scheme_defs has_prefix_iff)
    moreover have "normalize_imported_hash env n = Some n"
      using b assms split_known_scheme(1) [of raw] by (auto simp: normalize_imported_hash_def blf_crypt_def split: if_splits option.splits)
    ultimately show ?thesis using b by simp
  next
    case s2
    then have "is_imported_hash raw"
      using sha_import_prefix [of "''5''" 43 raw] by (simp add: is_imported_hash_def imported_schemes_def)
    moreover have "normalize_imported_hash env n = Some n"
      using s2 assms split_known_scheme(2) [of raw] by (auto simp: normalize_imported_hash_def sha256_scheme_def split: if_splits option.splits)
    ultimately show ?thesis using s2 by (simp add: scheme_defs)
  next
    case s5
    then have "is_imported_hash raw"
      using sha_import_prefix [of "''6''" 86 raw] by (simp add: is_imported_hash_def imported_schemes_def)
    moreover have "normalize_imported_hash env n = Some n"
      using s5 assms split_known_scheme(3) [of raw] by (auto simp: normalize_imported_hash_def sha512_scheme_def split: if_splits option.splits)
    ultimately show ?thesis using s5 by (simp add: scheme_defs)
  next
    case a
    then have "is_imported_hash raw"
      using argon2_import_prefix [of raw] by (simp add: is_imported_hash_def imported_schemes_def)
    moreover have "normalize_imported_hash env n = Some n"
      using a assms(3) split_argon2_scheme [OF a(2)] argon2_schemes [OF a(2)] by (auto simp: normalize_imported_hash_def)
    ultimately show ?thesis using a argon2_schemes [OF a(2)] by (auto simp: blf_crypt_def)
  qed
  then show "normalize_imported_hash env n = Some n" "is_imported_hash raw \<longleftrightarrow> n \<noteq> blf_crypt @ raw" by auto
qed

lemma normalize_scheme:
  assumes "normalize_imported_hash env h = Some n" "split_scheme h = Some (scheme, raw)" "scheme \<noteq> []"
  shows "n = h"
  using assms split_scheme_cases [OF assms(2)]
  by (auto simp: normalize_imported_hash_def split: if_splits option.splits)

lemma normal_imported:
  assumes "normalize_imported_hash env raw = Some n" "split_scheme raw = Some ([], raw)" "n \<noteq> blf_crypt @ raw"
  shows "is_imported_hash n"
proof -
  have "n \<in> {sha256_scheme @ raw, sha512_scheme @ raw} \<or> (\<exists>h. parse_argon2 raw = Some h \<and> n = argon2_scheme h @ raw)"
    using assms by (auto simp: normalize_imported_hash_def split: if_splits option.splits)
  then show ?thesis using argon2_schemes by (fastforce simp: is_imported_hash_def imported_schemes_def)
qed

text \<open>
  C30: Importing a password hash does not change which passwords it takes. What the import stores for a hash it accepts is
  normal, and every password matches the stored form exactly when it matches the hash as it was handed in; hashes longer
  than 241 bytes apart, which have no room left for the scheme in front.\<close>

theorem imported_hash_takes_same_passwords:
  assumes "normalize_imported_hash env h = Some n" "length h \<le> 241"
  shows "normalize_imported_hash env n = Some n \<and> check_password env p n = check_password env p h"
proof -
  obtain scheme raw where s: "split_scheme h = Some (scheme, raw)"
    using assms(1) by (auto simp: normalize_imported_hash_def split: if_splits option.splits)
  show ?thesis
  proof (cases "scheme = []")
    case True
    then have raw: "raw = h" using split_scheme_cases(1) [OF s] by simp
    have s: "split_scheme h = Some ([], h)" using s True raw by simp
    note n = normalize_bare [OF assms(1) s assms(2)]
    show ?thesis
    proof (cases "n = blf_crypt @ h")
      case True
      have "\<not> is_imported_hash n" by (simp add: True is_imported_hash_def imported_schemes_def scheme_defs)
      moreover have "take 11 h \<noteq> blf_crypt"
        using split_scheme_cases(2) [OF s] by (cases h) (auto simp: blf_crypt_def)
      moreover have "h \<noteq> []" using assms(1) by (auto simp: normalize_imported_hash_def split_scheme_def bcrypt_import_def sha_import_def argon2_match_def)
      ultimately show ?thesis using n True by (simp add: check_password_def blf_crypt_def)
    next
      case False
      then show ?thesis
        using n normal_imported [OF assms(1) s False] assms(1) by (simp add: check_password_def check_imported_password_def)
    qed
  next
    case False
    then have "n = h" by (rule normalize_scheme [OF assms(1) s])
    then show ?thesis using assms(1) by simp
  qed
qed

section \<open>Stand-ins for the cryptography\<close>

definition sample_bcrypt :: "string \<Rightarrow> string" where
  "sample_bcrypt p = ''$2a$'' @ hex_bytes (map of_char p)"

definition sample_crypt :: crypt_env where
  "sample_crypt = \<lparr>ce_bcrypt = (\<lambda>h p. h = sample_bcrypt p), ce_bcrypt_make = (\<lambda>p. Some (sample_bcrypt p)), ce_bcrypt_cost = (\<lambda>h. Some 10),
     ce_bcrypt_min_cost = 4, ce_sha256_crypt = (\<lambda>h p. p = ''correct horse''), ce_sha512_crypt = (\<lambda>h p. False), ce_sha256_rounds = (\<lambda>h. Some 5000),
     ce_sha512_rounds = (\<lambda>h. Some 5000), ce_sha_min_rounds = 1000, ce_argon2 = (\<lambda>v p s t m l n. p),
     ce_sha256_hex = (\<lambda>x. CHR ''#'' # x), ce_totp = (\<lambda>c x t. Some (c = x))\<rparr>"

definition sample_sha_hash :: string where
  "sample_sha_hash = ''$5$saltsalt$'' @ replicate 43 (CHR ''a'')"

theorem imported_hash_takes_same_passwords_witness:
  "normalize_imported_hash sample_crypt sample_sha_hash = Some (sha256_scheme @ sample_sha_hash)
   \<and> check_password sample_crypt ''correct horse'' sample_sha_hash \<and> check_password sample_crypt ''correct horse'' (sha256_scheme @ sample_sha_hash)
   \<and> \<not> check_password sample_crypt ''wrong'' (sha256_scheme @ sample_sha_hash)"
proof -
  have len: "length sample_sha_hash \<le> 241" by (simp add: sample_sha_hash_def)
  have "split_scheme sample_sha_hash = Some ([], sample_sha_hash)" "\<not> bcrypt_import sample_sha_hash" "sha_import ''5'' 43 sample_sha_hash"
    by code_simp+
  with len have n: "normalize_imported_hash sample_crypt sample_sha_hash = Some (sha256_scheme @ sample_sha_hash)"
    by (simp add: normalize_imported_hash_def sample_crypt_def max_imported_sha_rounds_def)
  note same = imported_hash_takes_same_passwords [OF n len]
  have "is_imported_hash sample_sha_hash" by code_simp
  then have "check_password sample_crypt ''correct horse'' sample_sha_hash" "\<not> check_password sample_crypt ''wrong'' sample_sha_hash"
    using n by (simp_all add: check_password_def check_imported_password_def) (simp_all add: sample_crypt_def)
  then show ?thesis using n same by simp
qed

section \<open>Credentials that are presented whole\<close>

lemma base62_alphabet_alnum: "list_all is_alnum base62_alphabet"
  by code_simp

lemma base62_nth: "is_alnum (base62_alphabet ! (b mod length base62_alphabet))"
proof -
  have "b mod length base62_alphabet < length base62_alphabet" by (rule mod_less_divisor) (simp add: base62_alphabet_def)
  then show ?thesis using base62_alphabet_alnum by (simp add: list_all_length)
qed

lemma base62_buffer_ok:
  "is_base62 out \<Longrightarrow> length out \<le> n \<Longrightarrow> is_base62 (base62_buffer n buf out) \<and> length (base62_buffer n buf out) \<le> n"
  by (induction n buf out rule: base62_buffer.induct) (auto simp: is_base62_def base62_nth)

lemma base62_draw_ok:
  "base62_draw n reads out = Some (s, rest) \<Longrightarrow> is_base62 out \<Longrightarrow> length out \<le> n \<Longrightarrow> is_base62 s \<and> length s = n"
  by (induction n reads out rule: base62_draw.induct) (use base62_buffer_ok in \<open>auto split: if_splits\<close>)

lemma random_base62_ok: "random_base62 n reads = Some (s, rest) \<Longrightarrow> is_base62 s \<and> length s = n"
  using base62_draw_ok [of n reads "[]"] by (simp add: random_base62_def is_base62_def)

definition well_formed_parts :: "string \<Rightarrow> string \<Rightarrow> bool" where
  "well_formed_parts public_id secret \<longleftrightarrow>
     length public_id = app_password_id_length \<and> length secret = app_password_secret_length \<and> is_base62 public_id \<and> is_base62 secret"

lemma new_client_secret_ok:
  "new_client_secret env reads = Some (p, x, hash) \<Longrightarrow> well_formed_parts p x \<and> hash = ce_sha256_hex env x"
  by (auto simp: new_client_secret_def well_formed_parts_def split: option.splits dest: random_base62_ok)

lemma id_and_secret_iff:
  assumes "length rest = app_password_id_length + 1 + app_password_secret_length"
  shows "id_and_secret rest = Some (p, x) \<longleftrightarrow> rest = p @ ''_'' @ x \<and> well_formed_parts p x"
proof
  assume a: "id_and_secret rest = Some (p, x)"
  then have u: "rest ! app_password_id_length = CHR ''_''" and px: "p = take app_password_id_length rest" "x = drop (app_password_id_length + 1) rest"
    "is_base62 p" "is_base62 x"
    by (auto simp: id_and_secret_def Let_def split: if_splits)
  have "app_password_id_length < length rest" using assms by simp
  then have "rest = p @ ''_'' @ x" using id_take_nth_drop [of app_password_id_length rest] u px(1,2) by simp
  then show "rest = p @ ''_'' @ x \<and> well_formed_parts p x" using px assms by (simp add: well_formed_parts_def)
next
  assume "rest = p @ ''_'' @ x \<and> well_formed_parts p x"
  then show "id_and_secret rest = Some (p, x)" by (simp add: id_and_secret_def well_formed_parts_def nth_append)
qed

text \<open>
  What a server that stores an id and a digest asks of a format: a credential and its two parts determine each other.
\<close>

locale credential_format =
  fixes make :: "string \<Rightarrow> string \<Rightarrow> string" and parse :: "string \<Rightarrow> (string \<times> string) option"
  assumes parse_iff: "parse s = Some (p, x) \<longleftrightarrow> s = make p x \<and> well_formed_parts p x"
begin

lemma made_parses: "new_client_secret env reads = Some (p, x, hash) \<Longrightarrow> parse (make p x) = Some (p, x)"
  using new_client_secret_ok parse_iff by blast

lemma opens_only_itself:
  assumes "new_client_secret env reads = Some (p, x, hash)" "\<forall>x. ce_sha256_hex env x \<noteq> []" "inj (ce_sha256_hex env)"
  shows "(\<exists>s. parse c = Some (p, s) \<and> app_password_secret_matches env s hash) \<longleftrightarrow> c = make p x"
proof
  assume "\<exists>s. parse c = Some (p, s) \<and> app_password_secret_matches env s hash"
  then obtain s where "parse c = Some (p, s)" "ce_sha256_hex env s = ce_sha256_hex env x"
    using new_client_secret_ok [OF assms(1)] by (auto simp: app_password_secret_matches_def Let_def split: if_splits)
  then show "c = make p x" using assms(3) parse_iff by (metis injD)
next
  assume "c = make p x"
  then show "\<exists>s. parse c = Some (p, s) \<and> app_password_secret_matches env s hash"
    using made_parses [OF assms(1)] new_client_secret_ok [OF assms(1)] assms(2) by (auto simp: app_password_secret_matches_def)
qed

end

lemma prefixed_parse:
  assumes "length s = length pre + (app_password_id_length + 1 + app_password_secret_length)" "has_prefix s pre"
  shows "id_and_secret (drop (length pre) s) = Some (p, x) \<longleftrightarrow> s = pre @ p @ ''_'' @ x \<and> well_formed_parts p x"
  using assms id_and_secret_iff [of "drop (length pre) s" p x] by (auto simp: has_prefix_iff)

interpretation app_passwords: credential_format app_password_of parse_app_password
proof
  fix s p x
  show "parse_app_password s = Some (p, x) \<longleftrightarrow> s = app_password_of p x \<and> well_formed_parts p x"
    using prefixed_parse [of s app_password_prefix p x]
    by (auto simp: parse_app_password_def app_password_of_def app_password_length_def well_formed_parts_def)
qed

interpretation api_keys: credential_format api_key_of parse_api_key
proof
  fix s p x
  show "parse_api_key s = Some (p, x) \<longleftrightarrow> s = api_key_of p x \<and> well_formed_parts p x"
    using prefixed_parse [of s api_key_prefix p x]
    by (auto simp: parse_api_key_def api_key_of_def api_key_length_def well_formed_parts_def)
qed


definition sample_reads :: "nat list list" where
  "sample_reads = [[0..<12], [0..<43]]"


end
