(* ===== verification/Auth_Credentials.thy ===== *)
theory Auth_Credentials
  imports Auth_Hashes Grants_Change "HOL-Library.AList"
begin

text \<open>
  The accounts and their credentials: the tables, \<^verbatim>\<open>internal/db/repositories/credential.go\<close>, \<^verbatim>\<open>two_factor.go\<close>,
  \<^verbatim>\<open>refresh_token.go\<close> and \<^verbatim>\<open>mailbox.go\<close>, the memory of checked passwords (\<^verbatim>\<open>internal/api/handlers/account_access.go\<close>), and
  what a new password, a reset and the end of an account's sessions do (\<^verbatim>\<open>sessions.go\<close>, \<^verbatim>\<open>credentials.go\<close>, \<^verbatim>\<open>auth.go\<close> of the handlers,
  \<^verbatim>\<open>internal/bootstrap/recovery.go\<close>, \<^verbatim>\<open>tokens.go\<close>). A database call that fails is a \<open>db_call\<close> of the set \<open>flt\<close>; a
  transaction that fails leaves the database as it was. A credential epoch is an \<open>int\<close>; the column would need
  \<open>2 ^ 63\<close> changes of password to overflow.
\<close>

section \<open>Tables\<close>

record credential_scope =
  ks_mailbox :: nat
  ks_capabilities :: "string list"

record credential =
  kr_id :: nat
  kr_account :: nat
  kr_kind :: string
  kr_name :: string
  kr_public_id :: string
  kr_secret_hash :: string
  kr_encrypted_secret :: string
  kr_scope :: credential_scope
  kr_created_by :: "nat option"
  kr_confirmed_at :: "time option"
  kr_last_used_at :: "time option"
  kr_expires_at :: "time option"
  kr_revoked_at :: "time option"

record mailbox_row =
  ua_id :: nat
  ua_domain :: nat
  ua_address :: string
  ua_display_name :: string
  ua_active :: bool
  ua_password_change_required :: bool
  ua_two_factor_required :: bool
  ua_credential_epoch :: int
  ua_bootstrap_expires_at :: "time option"
  ua_last_password_change :: "time option"
  ua_last_login_at :: "time option"

datatype token_status = TokenActive | TokenRotated | TokenRevoked

record refresh_token =
  rt_jti :: string
  rt_account :: nat
  rt_sid :: string
  rt_status :: token_status
  rt_expires_at :: time

record gateway_session =
  gw_id :: nat
  gw_account :: nat
  gw_closed_at :: "time option"

record one_time_token =
  ot_purpose :: string
  ot_hash :: string
  ot_account :: "nat option"
  ot_expires_at :: time
  ot_used_at :: "time option"

record auth_db =
  ab_domains :: "(nat \<times> string) list"
  ab_accounts :: "mailbox_row list"
  ab_credentials :: "credential list"
  ab_credential_seq :: nat
  ab_tokens :: "refresh_token list"
  ab_gateways :: "gateway_session list"
  ab_one_time :: "one_time_token list"
  ab_audit :: "audit_entry list"

datatype db_call =
    FindLegacy | FindCanonical | FindEquivalent | ReadAccount | ReadAddressed | RereadAccount | ReadState
  | ReadPasswords | UpgradeHash | CountTwoFactor | ReadCredential | CreateCredential | WriteCredential
  | ReadFactor | ReadFactors | ReadCodes | SpendCode | StoreEnrollment
  | LoadGrants | SaveToken | RotateToken | RevokeToken | RevokeAll | WriteChange | WriteLogin

type_synonym faults = "db_call \<Rightarrow> bool"

text \<open>An \<open>UPDATE ... WHERE\<close>: the rows after it; and whether a row matched, for \<open>RowsAffected\<close>.\<close>

definition update_where :: "('a \<Rightarrow> bool) \<Rightarrow> ('a \<Rightarrow> 'a) \<Rightarrow> 'a list \<Rightarrow> 'a list" where
  "update_where p f rows = map (\<lambda>r. if p r then f r else r) rows"

definition kind_password :: string where "kind_password = ''password''"
definition kind_totp :: string where "kind_totp = ''totp''"
definition kind_recovery_code :: string where "kind_recovery_code = ''recovery_code''"
definition kind_app_password :: string where "kind_app_password = ''app_password''"
definition kind_api_key :: string where "kind_api_key = ''api_key''"
definition kind_client_secret :: string where "kind_client_secret = ''client_secret''"

lemmas kind_defs = kind_password_def kind_totp_def kind_recovery_code_def kind_app_password_def kind_api_key_def kind_client_secret_def

definition account_by_id :: "auth_db \<Rightarrow> nat \<Rightarrow> mailbox_row option" where
  "account_by_id d i = List.find (\<lambda>a. ua_id a = i) (ab_accounts d)"

definition bootstrap_expired :: "time \<Rightarrow> mailbox_row \<Rightarrow> bool" where
  "bootstrap_expired now a \<longleftrightarrow>
     ua_password_change_required a \<and> (case ua_bootstrap_expires_at a of None \<Rightarrow> False | Some t \<Rightarrow> t \<le> now)"

definition unexpired_at :: "time \<Rightarrow> credential \<Rightarrow> bool" where
  "unexpired_at now k \<longleftrightarrow> (case kr_expires_at k of None \<Rightarrow> True | Some t \<Rightarrow> now < t)"

definition credential_usable :: "time \<Rightarrow> credential \<Rightarrow> bool" where
  "credential_usable now k \<longleftrightarrow> kr_revoked_at k = None \<and> unexpired_at now k"

section \<open>Finding an account by its address\<close>

record name_env =
  ne_to_ascii :: "string \<Rightarrow> string option"
  ne_parse_address :: "string \<Rightarrow> string option"
  ne_nfc :: "string \<Rightarrow> string"

datatype 'a found = Found 'a | NotFound | Unavailable | FindFailed

definition by_address :: "auth_db \<Rightarrow> string \<Rightarrow> mailbox_row option" where
  "by_address d address = List.find (\<lambda>a. ua_address a = address) (ab_accounts d)"

definition nfc_equivalents :: "name_env \<Rightarrow> auth_db \<Rightarrow> string \<Rightarrow> string \<Rightarrow> mailbox_row list" where
  "nfc_equivalents ne d domain canonical =
     take 2 (filter (\<lambda>a. ua_domain a \<in> fst ` set (filter (\<lambda>(i, n). n = domain) (ab_domains d)) \<and> ne_nfc ne (ua_address a) = canonical)
       (ab_accounts d))"

definition find_mailbox_by_address :: "name_env \<Rightarrow> faults \<Rightarrow> auth_db \<Rightarrow> string \<Rightarrow> mailbox_row found" where
  "find_mailbox_by_address ne flt d address =
     (case canonical_mailbox_address (ne_to_ascii ne) (ne_parse_address ne) (ne_nfc ne) address of
        None \<Rightarrow> NotFound
      | Some canonical \<Rightarrow>
          (let (local, domain, _) = cut_byte (CHR ''@'') canonical;
               legacy = fst (cut_byte (CHR ''@'') (to_lower (trim_space address))) @ ''@'' @ domain
           in if flt FindLegacy then FindFailed
              else case by_address d legacy of Some a \<Rightarrow> Found a | None \<Rightarrow>
                if canonical \<noteq> legacy \<and> flt FindCanonical then FindFailed
                else case (if canonical \<noteq> legacy then by_address d canonical else None) of Some a \<Rightarrow> Found a | None \<Rightarrow>
                  if list_all (\<lambda>r. r \<le> 127) (runes local) then NotFound
                  else if flt FindEquivalent then FindFailed
                  else case nfc_equivalents ne d domain canonical of
                         [] \<Rightarrow> NotFound
                       | [a] \<Rightarrow> Found a
                       | _ \<Rightarrow> Unavailable))"

section \<open>Credentials\<close>

datatype auth_err =
    CredentialNotFound | TwoFactorNotFound | RefreshTokenNotFound
  | TwoFactorUnreadable | SecretUnavailable | DbFault

definition own_mailbox_scope :: "nat \<Rightarrow> credential_scope" where
  "own_mailbox_scope i = \<lparr>ks_mailbox = i, ks_capabilities = []\<rparr>"

definition app_password_scope :: "nat \<Rightarrow> credential_scope" where
  "app_password_scope i = \<lparr>ks_mailbox = i, ks_capabilities = [''mail:read'', ''mail:write'', ''mail:send'']\<rparr>"

definition blank_credential :: "nat \<Rightarrow> string \<Rightarrow> string \<Rightarrow> credential" where
  "blank_credential account kind name =
     \<lparr>kr_id = 0, kr_account = account, kr_kind = kind, kr_name = name, kr_public_id = [], kr_secret_hash = [], kr_encrypted_secret = [],
      kr_scope = own_mailbox_scope account, kr_created_by = None, kr_confirmed_at = None, kr_last_used_at = None, kr_expires_at = None,
      kr_revoked_at = None\<rparr>"

definition insert_credential :: "credential \<Rightarrow> auth_db \<Rightarrow> (credential \<times> auth_db) option" where
  "insert_credential k d =
     (if kr_public_id k \<in> kr_public_id ` set (ab_credentials d) then None
      else let k' = k\<lparr>kr_id := ab_credential_seq d + 1\<rparr>
           in Some (k', d\<lparr>ab_credentials := ab_credentials d @ [k'], ab_credential_seq := ab_credential_seq d + 1\<rparr>))"

text \<open>
  \<open>create\<close> is only called inside a transaction, which a first collision of public ids aborts: the attempts that
  follow it fail too. \<open>draw\<close> is the random id, \<open>None\<close> when there is none.
\<close>

definition create_credential :: "faults \<Rightarrow> string option \<Rightarrow> credential \<Rightarrow> auth_db \<Rightarrow> auth_err + credential \<times> auth_db" where
  "create_credential flt draw k d =
     (case draw of None \<Rightarrow> Inl SecretUnavailable | Some public_id \<Rightarrow>
      if flt CreateCredential then Inl DbFault
      else case insert_credential (k\<lparr>kr_public_id := public_id\<rparr>) d of None \<Rightarrow> Inl DbFault | Some r \<Rightarrow> Inr r)"

fun create_app_password_from ::
  "crypt_env \<Rightarrow> faults \<Rightarrow> nat list list list \<Rightarrow> nat \<Rightarrow> nat \<Rightarrow> nat \<Rightarrow> string \<Rightarrow> time option \<Rightarrow> auth_db
     \<Rightarrow> auth_err + (credential \<times> string) \<times> auth_db" where
  "create_app_password_from ce flt [] tries account by name expires d = Inl SecretUnavailable"
| "create_app_password_from ce flt (reads # later) tries account by name expires d =
     (case new_app_password ce reads of
        None \<Rightarrow> Inl SecretUnavailable
      | Some (password, public_id, hash) \<Rightarrow>
          if flt CreateCredential then Inl DbFault
          else case insert_credential
                 ((blank_credential account kind_app_password name)\<lparr>kr_public_id := public_id, kr_secret_hash := hash,
                    kr_scope := app_password_scope account, kr_created_by := Some by, kr_expires_at := expires\<rparr>) d of
                 Some (k, d') \<Rightarrow> Inr ((k, password), d')
               | None \<Rightarrow> if tries < 2 then create_app_password_from ce flt later (tries + 1) account by name expires d else Inl DbFault)"

definition create_app_password ::
  "crypt_env \<Rightarrow> faults \<Rightarrow> nat list list list \<Rightarrow> nat \<Rightarrow> nat \<Rightarrow> string \<Rightarrow> time option \<Rightarrow> auth_db
     \<Rightarrow> auth_err + (credential \<times> string) \<times> auth_db" where
  "create_app_password ce flt draws account by name expires d = create_app_password_from ce flt draws 0 account by name expires d"

definition revocable_app_password :: "nat \<Rightarrow> nat \<Rightarrow> credential \<Rightarrow> bool" where
  "revocable_app_password account i k \<longleftrightarrow> kr_id k = i \<and> kr_account k = account \<and> kr_kind k = kind_app_password \<and> kr_revoked_at k = None"

definition revoke_app_password :: "nat \<Rightarrow> nat \<Rightarrow> time \<Rightarrow> auth_db \<Rightarrow> auth_err + auth_db" where
  "revoke_app_password account i now d =
     (if list_ex (revocable_app_password account i) (ab_credentials d)
      then Inr (d\<lparr>ab_credentials := update_where (revocable_app_password account i) (kr_revoked_at_update (\<lambda>_. Some now)) (ab_credentials d)\<rparr>)
      else Inl CredentialNotFound)"

definition revocable_kind :: "nat \<Rightarrow> string list \<Rightarrow> credential \<Rightarrow> bool" where
  "revocable_kind account kinds k \<longleftrightarrow> kr_account k = account \<and> kr_kind k \<in> set kinds \<and> kr_revoked_at k = None"

definition revoke_kinds :: "nat \<Rightarrow> time \<Rightarrow> string list \<Rightarrow> auth_db \<Rightarrow> credential list \<times> auth_db" where
  "revoke_kinds account now kinds d =
     (sort_key kr_id (map (kr_revoked_at_update (\<lambda>_. Some now)) (filter (revocable_kind account kinds) (ab_credentials d))),
      d\<lparr>ab_credentials := update_where (revocable_kind account kinds) (kr_revoked_at_update (\<lambda>_. Some now)) (ab_credentials d)\<rparr>)"

definition machine_kinds :: "string list" where
  "machine_kinds = [kind_app_password, kind_api_key, kind_client_secret]"

definition revoke_app_passwords :: "nat \<Rightarrow> time \<Rightarrow> auth_db \<Rightarrow> credential list \<times> auth_db" where
  "revoke_app_passwords account now d = revoke_kinds account now machine_kinds d"

definition set_password ::
  "faults \<Rightarrow> string option \<Rightarrow> nat \<Rightarrow> string \<Rightarrow> nat option \<Rightarrow> time \<Rightarrow> auth_db \<Rightarrow> auth_err + auth_db" where
  "set_password flt draw account hash by now d =
     (if flt WriteCredential then Inl DbFault
      else case create_credential flt draw
             ((blank_credential account kind_password ''Password'')\<lparr>kr_secret_hash := hash, kr_created_by := by\<rparr>)
             (snd (revoke_kinds account now [kind_password] d)) of
        Inl e \<Rightarrow> Inl e
      | Inr (_, d') \<Rightarrow> Inr d')"

definition usable_of_kind :: "nat \<Rightarrow> string \<Rightarrow> time \<Rightarrow> credential \<Rightarrow> bool" where
  "usable_of_kind account kind now k \<longleftrightarrow> kr_account k = account \<and> kr_kind k = kind \<and> credential_usable now k"

definition passwords :: "nat \<Rightarrow> time \<Rightarrow> auth_db \<Rightarrow> credential list" where
  "passwords account now d = sort_key kr_id (filter (usable_of_kind account kind_password now) (ab_credentials d))"

definition has_password :: "nat \<Rightarrow> time \<Rightarrow> auth_db \<Rightarrow> bool" where
  "has_password account now d \<longleftrightarrow> list_ex (usable_of_kind account kind_password now) (ab_credentials d)"

definition confirmed_totp :: "nat \<Rightarrow> credential \<Rightarrow> bool" where
  "confirmed_totp account k \<longleftrightarrow> kr_account k = account \<and> kr_kind k = kind_totp \<and> kr_revoked_at k = None \<and> kr_confirmed_at k \<noteq> None"

definition has_two_factor :: "nat \<Rightarrow> auth_db \<Rightarrow> bool" where
  "has_two_factor account d \<longleftrightarrow> list_ex (confirmed_totp account) (ab_credentials d)"

definition last_used_every :: duration where "last_used_every = minute"

definition touch_last_used :: "nat \<Rightarrow> time \<Rightarrow> auth_db \<Rightarrow> auth_db" where
  "touch_last_used i now d =
     d\<lparr>ab_credentials := update_where
         (\<lambda>k. kr_id k = i \<and> (case kr_last_used_at k of None \<Rightarrow> True | Some t \<Rightarrow> t \<le> now - last_used_every))
         (kr_last_used_at_update (\<lambda>_. Some now)) (ab_credentials d)\<rparr>"

definition credential_still_usable :: "nat \<Rightarrow> time \<Rightarrow> auth_db \<Rightarrow> bool" where
  "credential_still_usable i now d \<longleftrightarrow>
     list_ex (\<lambda>k. kr_id k = i \<and> credential_usable now k \<and> list_ex (\<lambda>a. ua_id a = kr_account k \<and> ua_active a) (ab_accounts d)) (ab_credentials d)"

section \<open>Matching a password\<close>

text \<open>
  The memory of passwords that matched (\<open>passwordChecks\<close>): by a digest of the credential's id, its hash and the
  password, until when.
\<close>

type_synonym password_memo = "(string \<times> time) list"

definition password_check_ttl :: duration where "password_check_ttl = 5 * minute"
definition max_password_checks :: nat where "max_password_checks = 4096"

definition be64 :: "nat \<Rightarrow> string" where
  "be64 i = map (\<lambda>j. char_of (i div 256 ^ (7 - j) mod 256)) [0..<8]"

definition password_check_text :: "credential \<Rightarrow> string \<Rightarrow> string" where
  "password_check_text k secret = be64 (kr_id k) @ kr_secret_hash k @ [CHR 0x00] @ secret"

definition password_check_key :: "crypt_env \<Rightarrow> credential \<Rightarrow> string \<Rightarrow> string" where
  "password_check_key ce k secret = ce_sha256_hex ce (password_check_text k secret)"

definition check_remembered :: "crypt_env \<Rightarrow> time \<Rightarrow> credential \<Rightarrow> string \<Rightarrow> password_memo \<Rightarrow> password_memo \<times> bool" where
  "check_remembered ce now k secret m =
     (case map_of m (password_check_key ce k secret) of
        Some until \<Rightarrow> if now < until then (m, True) else (AList.delete (password_check_key ce k secret) m, False)
      | None \<Rightarrow> (AList.delete (password_check_key ce k secret) m, False))"

definition remember :: "crypt_env \<Rightarrow> time \<Rightarrow> credential \<Rightarrow> string \<Rightarrow> password_memo \<Rightarrow> password_memo" where
  "remember ce now k secret m =
     AList.update (password_check_key ce k secret) (now + password_check_ttl) (if max_password_checks \<le> length m then [] else m)"

fun remembered_first :: "crypt_env \<Rightarrow> time \<Rightarrow> credential list \<Rightarrow> string \<Rightarrow> password_memo \<Rightarrow> password_memo \<times> credential option" where
  "remembered_first ce now [] secret m = (m, None)"
| "remembered_first ce now (k # ks) secret m =
     (case check_remembered ce now k secret m of
        (m', True) \<Rightarrow> (m', Some k)
      | (m', False) \<Rightarrow> remembered_first ce now ks secret m')"

text \<open>The rows a re-encoded hash may replace: the one that was proven, if nothing has changed it since.\<close>

definition upgradable :: "credential \<Rightarrow> time \<Rightarrow> credential \<Rightarrow> bool" where
  "upgradable k now r \<longleftrightarrow> kr_id r = kr_id k \<and> kr_secret_hash r = kr_secret_hash k \<and> credential_usable now r"

definition upgrade_hash :: "crypt_env \<Rightarrow> faults \<Rightarrow> time \<Rightarrow> string \<Rightarrow> credential \<Rightarrow> auth_db \<Rightarrow> auth_db \<times> (auth_err + credential option)" where
  "upgrade_hash ce flt now password k d =
     (case hash_password ce password of
        None \<Rightarrow> (d, Inl SecretUnavailable)
      | Some hash \<Rightarrow>
          if flt UpgradeHash then (d, Inl DbFault)
          else if list_ex (upgradable k now) (ab_credentials d)
          then (d\<lparr>ab_credentials := update_where (upgradable k now) (kr_secret_hash_update (\<lambda>_. hash)) (ab_credentials d)\<rparr>,
                Inr (Some (k\<lparr>kr_secret_hash := hash\<rparr>)))
          else (d, Inr None))"

fun match_first :: "crypt_env \<Rightarrow> faults \<Rightarrow> time \<Rightarrow> string \<Rightarrow> credential list \<Rightarrow> auth_db \<Rightarrow> auth_db \<times> (auth_err + credential option)" where
  "match_first ce flt now password [] d = (d, Inr None)"
| "match_first ce flt now password (k # ks) d =
     (if check_password ce password (kr_secret_hash k)
      then (if password_needs_rehash password (kr_secret_hash k) then upgrade_hash ce flt now password k d else (d, Inr (Some k)))
      else match_first ce flt now password ks d)"

definition match_password ::
  "crypt_env \<Rightarrow> faults \<Rightarrow> time \<Rightarrow> nat \<Rightarrow> string \<Rightarrow> password_memo option \<Rightarrow> auth_db
     \<Rightarrow> password_memo option \<times> auth_db \<times> (auth_err + credential option)" where
  "match_password ce flt now account password memo d =
     (if account \<noteq> 0 \<and> flt ReadPasswords then (memo, d, Inl DbFault)
      else let ks = (if account \<noteq> 0 then passwords account now d else []) in
        if ks = [] then (memo, d, Inr None)
        else case memo of
          None \<Rightarrow> (None, match_first ce flt now password ks d)
        | Some m \<Rightarrow>
            (case remembered_first ce now ks password m of
               (m', Some k) \<Rightarrow> (Some m', d, Inr (Some k))
             | (m', None) \<Rightarrow>
                 (case match_first ce flt now password ks d of
                    (d', Inr (Some k)) \<Rightarrow> (Some (remember ce now k password m'), d', Inr (Some k))
                  | r \<Rightarrow> (Some m', r))))"

section \<open>Signing a mail client in\<close>

datatype refusal_reason =
    CrUnknown | CrWrongSecret | CrWrongAddress | CrRevoked | CrExpired | CrAccountInactive
  | CrWrongPassword | CrNeedsAppPassword | CrAccountInSetup

datatype verify_err = CredentialRefusal refusal_reason string "nat option" | CheckFailed auth_err

type_synonym verified = "verify_err + credential \<times> mailbox_row"

definition verify_account_password ::
  "crypt_env \<Rightarrow> name_env \<Rightarrow> faults \<Rightarrow> time \<Rightarrow> string \<Rightarrow> string \<Rightarrow> password_memo option \<Rightarrow> auth_db \<Rightarrow> password_memo option \<times> auth_db \<times> verified" where
  "verify_account_password ce ne flt now address password memo d =
     (case find_mailbox_by_address ne flt d address of
        FindFailed \<Rightarrow> (memo, d, Inl (CheckFailed DbFault))
      | found \<Rightarrow>
          (let box = (case found of Found a \<Rightarrow> Some a | _ \<Rightarrow> None);
               (memo', d', r) = match_password ce flt now (case box of Some a \<Rightarrow> ua_id a | None \<Rightarrow> 0) password memo d
           in (memo', d',
               case (r, box) of
                 (Inl e, _) \<Rightarrow> Inl (CheckFailed e)
               | (Inr (Some k), Some a) \<Rightarrow>
                   (let refused = (\<lambda>reason. Inl (CredentialRefusal reason (kr_public_id k) (Some (kr_id k)))) in
                    if \<not> ua_active a then refused CrAccountInactive
                    else if ua_password_change_required a \<or> bootstrap_expired now a then refused CrAccountInSetup
                    else if flt CountTwoFactor then Inl (CheckFailed DbFault)
                    else if has_two_factor (ua_id a) d' then refused CrNeedsAppPassword
                    else Inr (k, a))
               | _ \<Rightarrow> Inl (CredentialRefusal CrWrongPassword [] None))))"

definition by_public_id :: "auth_db \<Rightarrow> string \<Rightarrow> string \<Rightarrow> credential option" where
  "by_public_id d public_id kind = List.find (\<lambda>k. kr_public_id k = public_id \<and> kr_kind k = kind) (ab_credentials d)"

definition verify_app_password :: "crypt_env \<Rightarrow> name_env \<Rightarrow> faults \<Rightarrow> time \<Rightarrow> string \<Rightarrow> string \<Rightarrow> auth_db \<Rightarrow> verified" where
  "verify_app_password ce ne flt now address password d =
     (case parse_app_password password of
        None \<Rightarrow> Inl (CredentialRefusal CrWrongSecret [] None)
      | Some (public_id, secret) \<Rightarrow>
          if flt ReadCredential then Inl (CheckFailed DbFault)
          else case by_public_id d public_id kind_app_password of
            None \<Rightarrow> Inl (CredentialRefusal CrUnknown public_id None)
          | Some k \<Rightarrow>
              if \<not> app_password_secret_matches ce secret (kr_secret_hash k) then Inl (CredentialRefusal CrWrongSecret public_id None)
              else let refused = (\<lambda>reason. Inl (CredentialRefusal reason public_id (Some (kr_id k)))) in
                if flt ReadAccount then Inl (CheckFailed DbFault)
                else case account_by_id d (kr_account k) of
                  None \<Rightarrow> refused CrWrongAddress
                | Some a \<Rightarrow>
                    (case find_mailbox_by_address ne flt d address of
                       FindFailed \<Rightarrow> Inl (CheckFailed DbFault)
                     | Found b \<Rightarrow>
                         if ua_id b \<noteq> ua_id a then refused CrWrongAddress
                         else if kr_revoked_at k \<noteq> None then refused CrRevoked
                         else if \<not> credential_usable now k then refused CrExpired
                         else if \<not> ua_active a then refused CrAccountInactive
                         else Inr (k, a)
                     | _ \<Rightarrow> refused CrWrongAddress))"

definition verify_password ::
  "crypt_env \<Rightarrow> name_env \<Rightarrow> faults \<Rightarrow> time \<Rightarrow> string \<Rightarrow> string \<Rightarrow> password_memo option \<Rightarrow> auth_db \<Rightarrow> password_memo option \<times> auth_db \<times> verified" where
  "verify_password ce ne flt now address secret memo d =
     (if is_app_password secret then (memo, d, verify_app_password ce ne flt now address secret d)
      else verify_account_password ce ne flt now address secret memo d)"

text \<open>\<open>PasswordVerifier\<close>: the check with the memory, and the use recorded; what the claims name of the credential.\<close>

definition password_verifier ::
  "crypt_env \<Rightarrow> name_env \<Rightarrow> faults \<Rightarrow> time \<Rightarrow> string \<Rightarrow> string \<Rightarrow> password_memo \<Rightarrow> auth_db \<Rightarrow> password_memo option \<times> auth_db \<times> verified" where
  "password_verifier ce ne flt now address secret m d =
     (case verify_password ce ne flt now address secret (Some m) d of
        (memo, d', Inl e) \<Rightarrow> (memo, d', Inl e)
      | (memo, d', Inr (k, a)) \<Rightarrow>
          (memo,
           if (case kr_last_used_at k of None \<Rightarrow> True | Some t \<Rightarrow> last_used_every \<le> now - t) \<and> \<not> flt WriteCredential
           then touch_last_used (kr_id k) now d' else d',
           Inr (k, a)))"

section \<open>The second factor\<close>

definition newest :: "(credential \<Rightarrow> bool) \<Rightarrow> auth_db \<Rightarrow> credential option" where
  "newest p d = (case rev (sort_key kr_id (filter p (ab_credentials d))) of [] \<Rightarrow> None | k # _ \<Rightarrow> Some k)"

definition unrevoked_totp :: "nat \<Rightarrow> credential \<Rightarrow> bool" where
  "unrevoked_totp account k \<longleftrightarrow> kr_account k = account \<and> kr_kind k = kind_totp \<and> kr_revoked_at k = None"

definition two_factor_get :: "faults \<Rightarrow> nat \<Rightarrow> auth_db \<Rightarrow> auth_err + credential" where
  "two_factor_get flt account d =
     (if flt ReadFactor then Inl DbFault
      else case newest (unrevoked_totp account) d of None \<Rightarrow> Inl TwoFactorNotFound | Some k \<Rightarrow> Inr k)"

definition two_factor_get_active :: "faults \<Rightarrow> nat \<Rightarrow> auth_db \<Rightarrow> auth_err + credential" where
  "two_factor_get_active flt account d =
     (if flt ReadFactor then Inl DbFault
      else case newest (confirmed_totp account) d of None \<Rightarrow> Inl TwoFactorNotFound | Some k \<Rightarrow> Inr k)"

definition two_factor_active :: "nat \<Rightarrow> auth_db \<Rightarrow> credential list" where
  "two_factor_active account d = sort_key kr_id (filter (confirmed_totp account) (ab_credentials d))"

fun create_codes :: "faults \<Rightarrow> nat \<Rightarrow> (string \<times> string option) list \<Rightarrow> auth_db \<Rightarrow> auth_err + auth_db" where
  "create_codes flt account [] d = Inr d"
| "create_codes flt account ((hash, draw) # codes) d =
     (case create_credential flt draw
             ((blank_credential account kind_recovery_code ''Recovery code'')\<lparr>kr_secret_hash := hash, kr_created_by := Some account\<rparr>) d of
        Inl e \<Rightarrow> Inl e
      | Inr (_, d') \<Rightarrow> create_codes flt account codes d')"

definition two_factor_enroll ::
  "faults \<Rightarrow> string option \<Rightarrow> nat \<Rightarrow> string \<Rightarrow> (string \<times> string option) list \<Rightarrow> time \<Rightarrow> auth_db \<Rightarrow> auth_err + credential \<times> auth_db" where
  "two_factor_enroll flt draw account encrypted codes now d =
     (if flt WriteCredential then Inl DbFault
      else case create_credential flt draw
             ((blank_credential account kind_totp ''Authenticator'')\<lparr>kr_encrypted_secret := encrypted, kr_created_by := Some account\<rparr>)
             (snd (revoke_kinds account now [kind_totp, kind_recovery_code] d)) of
        Inl e \<Rightarrow> Inl e
      | Inr (k, d1) \<Rightarrow> (case create_codes flt account codes d1 of Inl e \<Rightarrow> Inl e | Inr d2 \<Rightarrow> Inr (k, d2)))"

definition pending_totp :: "nat \<Rightarrow> credential \<Rightarrow> bool" where
  "pending_totp i k \<longleftrightarrow> kr_id k = i \<and> kr_kind k = kind_totp \<and> kr_confirmed_at k = None \<and> kr_revoked_at k = None"

definition two_factor_confirm :: "faults \<Rightarrow> nat \<Rightarrow> time \<Rightarrow> auth_db \<Rightarrow> auth_err + auth_db" where
  "two_factor_confirm flt i now d =
     (if flt WriteCredential then Inl DbFault
      else if list_ex (pending_totp i) (ab_credentials d)
      then Inr (d\<lparr>ab_credentials := update_where (pending_totp i) (kr_confirmed_at_update (\<lambda>_. Some now)) (ab_credentials d)\<rparr>)
      else Inl TwoFactorNotFound)"

definition two_factor_delete :: "nat \<Rightarrow> time \<Rightarrow> auth_db \<Rightarrow> auth_db" where
  "two_factor_delete account now d = snd (revoke_kinds account now [kind_totp, kind_recovery_code] d)"

text \<open>
  Spending a recovery code is a read and a guarded update, which other requests may come between:
  \<open>matching_code\<close> is the row the read finds, \<open>spend_code\<close> the update and whether it spent the code.
\<close>

definition unspent_codes :: "nat \<Rightarrow> auth_db \<Rightarrow> credential list" where
  "unspent_codes account d =
     filter (\<lambda>k. kr_account k = account \<and> kr_kind k = kind_recovery_code \<and> kr_revoked_at k = None) (ab_credentials d)"

definition matching_code :: "crypt_env \<Rightarrow> nat \<Rightarrow> string \<Rightarrow> auth_db \<Rightarrow> credential option" where
  "matching_code ce account code d = List.find (\<lambda>k. check_recovery_code ce code (kr_secret_hash k)) (unspent_codes account d)"

definition spendable :: "nat \<Rightarrow> credential \<Rightarrow> bool" where
  "spendable i k \<longleftrightarrow> kr_id k = i \<and> kr_revoked_at k = None"

definition spend_code :: "nat \<Rightarrow> time \<Rightarrow> auth_db \<Rightarrow> auth_db \<times> bool" where
  "spend_code i now d =
     (d\<lparr>ab_credentials := update_where (spendable i) (\<lambda>k. k\<lparr>kr_revoked_at := Some now, kr_last_used_at := Some now\<rparr>) (ab_credentials d)\<rparr>,
      length (filter (spendable i) (ab_credentials d)) = 1)"

definition consume_recovery_code :: "crypt_env \<Rightarrow> faults \<Rightarrow> time \<Rightarrow> nat \<Rightarrow> string \<Rightarrow> auth_db \<Rightarrow> auth_db \<times> (auth_err + bool)" where
  "consume_recovery_code ce flt now account code d =
     (if code = [] then (d, Inr False)
      else if flt ReadCodes then (d, Inl DbFault)
      else case matching_code ce account code d of
        None \<Rightarrow> (d, Inr False)
      | Some k \<Rightarrow> if flt SpendCode then (d, Inl DbFault) else (let (d', spent) = spend_code (kr_id k) now d in (d', Inr spent)))"

text \<open>\<open>decrypt\<close> reads a stored secret with the master key; the key is \<open>None\<close> when none is configured.\<close>

fun try_totp :: "crypt_env \<Rightarrow> (string \<Rightarrow> string option) option \<Rightarrow> time \<Rightarrow> string \<Rightarrow> credential list \<Rightarrow> bool \<Rightarrow> bool + bool" where
  "try_totp ce decrypt now code [] unreadable = Inl unreadable"
| "try_totp ce decrypt now code (k # ks) unreadable =
     (case decrypt of
        None \<Rightarrow> Inl True
      | Some dec \<Rightarrow>
          (case dec (kr_encrypted_secret k) of
             None \<Rightarrow> try_totp ce decrypt now code ks True
           | Some secret \<Rightarrow> if validate_totp_code ce now code secret then Inr True else try_totp ce decrypt now code ks unreadable))"

definition verify_totp_or_recovery ::
  "crypt_env \<Rightarrow> (string \<Rightarrow> string option) option \<Rightarrow> faults \<Rightarrow> time \<Rightarrow> nat \<Rightarrow> string \<Rightarrow> string \<Rightarrow> auth_db \<Rightarrow> auth_db \<times> (auth_err + bool)" where
  "verify_totp_or_recovery ce decrypt flt now account totp recovery d =
     (if totp \<noteq> [] \<and> flt ReadFactors then (d, Inl DbFault)
      else case (if totp \<noteq> [] then try_totp ce decrypt now totp (two_factor_active account d) False else Inl False) of
        Inr _ \<Rightarrow> (d, Inr True)
      | Inl unreadable \<Rightarrow>
          (let none = (if unreadable then Inl TwoFactorUnreadable else Inr False) in
           if recovery = [] then (d, none)
           else case consume_recovery_code ce flt now account recovery d of
             (d', Inl e) \<Rightarrow> (d', Inl e)
           | (d', Inr True) \<Rightarrow> (d', Inr True)
           | (d', Inr False) \<Rightarrow> (d', none)))"

section \<open>Refresh tokens and the end of sessions\<close>

definition save_token :: "faults \<Rightarrow> refresh_token \<Rightarrow> auth_db \<Rightarrow> auth_err + auth_db" where
  "save_token flt t d =
     (if flt SaveToken \<or> rt_jti t \<in> rt_jti ` set (ab_tokens d) \<or> rt_sid t = [] then Inl DbFault
      else Inr (d\<lparr>ab_tokens := ab_tokens d @ [t]\<rparr>))"

definition rotatable :: "string \<Rightarrow> refresh_token \<Rightarrow> bool" where
  "rotatable jti t \<longleftrightarrow> rt_jti t = jti \<and> rt_status t = TokenActive"

definition rotate_token :: "faults \<Rightarrow> string \<Rightarrow> auth_db \<Rightarrow> auth_err + auth_db" where
  "rotate_token flt jti d =
     (if flt RotateToken then Inl DbFault
      else if list_ex (rotatable jti) (ab_tokens d)
      then Inr (d\<lparr>ab_tokens := update_where (rotatable jti) (rt_status_update (\<lambda>_. TokenRotated)) (ab_tokens d)\<rparr>)
      else Inl RefreshTokenNotFound)"

definition revoke_token :: "string \<Rightarrow> auth_db \<Rightarrow> auth_db" where
  "revoke_token jti d =
     d\<lparr>ab_tokens := update_where (\<lambda>t. rt_jti t = jti) (rt_status_update (\<lambda>_. TokenRevoked)) (ab_tokens d)\<rparr>"

definition revoke_all_for_account :: "nat \<Rightarrow> time \<Rightarrow> auth_db \<Rightarrow> auth_db" where
  "revoke_all_for_account account now d =
     d\<lparr>ab_tokens := update_where (\<lambda>t. rt_account t = account \<and> rt_status t = TokenActive) (rt_status_update (\<lambda>_. TokenRevoked)) (ab_tokens d),
       ab_gateways := update_where (\<lambda>g. gw_account g = account \<and> gw_closed_at g = None) (gw_closed_at_update (\<lambda>_. Some now)) (ab_gateways d)\<rparr>"

definition update_account :: "nat \<Rightarrow> (mailbox_row \<Rightarrow> mailbox_row) \<Rightarrow> auth_db \<Rightarrow> auth_db" where
  "update_account i f d = d\<lparr>ab_accounts := update_where (\<lambda>a. ua_id a = i) f (ab_accounts d)\<rparr>"

definition end_sessions :: "nat \<Rightarrow> time \<Rightarrow> auth_db \<Rightarrow> auth_db" where
  "end_sessions account now d =
     revoke_all_for_account account now (update_account account (ua_credential_epoch_update (\<lambda>e. e + 1)) d)"

definition session_current :: "mailbox_row option \<Rightarrow> int \<Rightarrow> time \<Rightarrow> bool" where
  "session_current account epoch now \<longleftrightarrow>
     (case account of None \<Rightarrow> False
      | Some a \<Rightarrow> ua_active a \<and> \<not> bootstrap_expired now a \<and> ua_credential_epoch a = epoch)"

definition revoke_all_sessions :: "auth_db \<Rightarrow> auth_db \<times> nat \<times> nat" where
  "revoke_all_sessions d =
     (d\<lparr>ab_tokens := update_where (\<lambda>t. rt_status t = TokenActive) (rt_status_update (\<lambda>_. TokenRevoked)) (ab_tokens d),
        ab_accounts := map (ua_credential_epoch_update (\<lambda>e. e + 1)) (ab_accounts d)\<rparr>,
      length (filter (\<lambda>t. rt_status t = TokenActive) (ab_tokens d)), length (ab_accounts d))"

section \<open>A new password\<close>

definition credential_revoked_password_changed :: string where "credential_revoked_password_changed = ''password_changed''"
definition credential_revoked_account_reset :: string where "credential_revoked_account_reset = ''account_reset''"

definition revocation_entry :: "audit_entry \<Rightarrow> nat \<Rightarrow> string \<Rightarrow> credential \<Rightarrow> audit_entry" where
  "revocation_entry e account reason k =
     e\<lparr>ae_target := put_all
        [(''account_id'', nat_dec account), (''credential_id'', nat_dec (kr_id k)), (''public_id'', kr_public_id k),
         (''name'', kr_name k), (''reason'', reason)] (ae_target e)\<rparr>"

fun record_revocations :: "audit_env \<Rightarrow> time \<Rightarrow> audit_entry \<Rightarrow> nat \<Rightarrow> string \<Rightarrow> credential list \<Rightarrow> auth_db \<Rightarrow> auth_err + auth_db" where
  "record_revocations ae now e account reason [] d = Inr d"
| "record_revocations ae now e account reason (k # ks) d =
     (case append_entry ae None now (revocation_entry e account reason k) (ab_audit d) of
        (_, Inl _) \<Rightarrow> Inl DbFault
      | (log, Inr _) \<Rightarrow> record_revocations ae now e account reason ks (d\<lparr>ab_audit := log\<rparr>))"

definition revoke_app_passwords_for_new_password :: "audit_env \<Rightarrow> audit_entry \<Rightarrow> nat \<Rightarrow> time \<Rightarrow> auth_db \<Rightarrow> auth_err + auth_db" where
  "revoke_app_passwords_for_new_password ae e account now d =
     (let (revoked, d') = revoke_app_passwords account now d
      in record_revocations ae now e account credential_revoked_password_changed revoked d')"

definition set_account_password ::
  "audit_env \<Rightarrow> faults \<Rightarrow> audit_entry \<Rightarrow> string option \<Rightarrow> nat \<Rightarrow> string \<Rightarrow> nat option \<Rightarrow> time \<Rightarrow> auth_db \<Rightarrow> auth_err + auth_db" where
  "set_account_password ae flt e draw account hash by now d =
     (case set_password flt draw account hash by now d of Inl err \<Rightarrow> Inl err | Inr d1 \<Rightarrow>
      case revoke_app_passwords_for_new_password ae e account now d1 of Inl err \<Rightarrow> Inl err | Inr d2 \<Rightarrow>
      Inr (end_sessions account now d2))"

text \<open>The columns a chosen password writes, before \<open>set_account_password\<close>, in its transaction.\<close>

definition password_columns :: "time \<Rightarrow> mailbox_row \<Rightarrow> mailbox_row" where
  "password_columns now a = a\<lparr>ua_last_password_change := Some now, ua_password_change_required := False, ua_bootstrap_expires_at := None\<rparr>"

definition choose_password ::
  "audit_env \<Rightarrow> faults \<Rightarrow> audit_entry \<Rightarrow> string option \<Rightarrow> nat \<Rightarrow> string \<Rightarrow> time \<Rightarrow> auth_db \<Rightarrow> auth_err + auth_db" where
  "choose_password ae flt e draw account hash now d =
     (if flt WriteChange then Inl DbFault
      else set_account_password ae flt e draw account hash (Some account) now (update_account account (password_columns now) d))"

definition reset_credentials ::
  "audit_env \<Rightarrow> faults \<Rightarrow> audit_entry \<Rightarrow> string option \<Rightarrow> nat \<Rightarrow> string \<Rightarrow> time \<Rightarrow> auth_db \<Rightarrow> auth_err + auth_db" where
  "reset_credentials ae flt e draw account hash now d =
     (case set_password flt draw account hash None now d of Inl err \<Rightarrow> Inl err | Inr d1 \<Rightarrow>
      let d2 = snd (revoke_kinds account now [kind_totp, kind_recovery_code] d1);
          (revoked, d3) = revoke_app_passwords account now d2
      in case record_revocations ae now e account credential_revoked_account_reset revoked d3 of Inl err \<Rightarrow> Inl err | Inr d4 \<Rightarrow>
         Inr (revoke_all_for_account account now d4))"

section \<open>Resets\<close>

datatype reset_err = TokenInvalid | PasswordTooShort | ResetPasswordTooShort | NoSuchAdmin | ResetFailed auth_err

definition min_chosen_password_length :: nat where "min_chosen_password_length = 12"
definition min_admin_password_length :: nat where "min_admin_password_length = 16"

definition password_too_short :: "string \<Rightarrow> bool" where
  "password_too_short p \<longleftrightarrow> length (runes p) < min_chosen_password_length"

definition purpose_reset_admin :: string where "purpose_reset_admin = ''reset_admin''"

definition default_token_lifetime :: duration where "default_token_lifetime = 15 * minute"

text \<open>The token and its row; \<open>None\<close> when the insert fails, or no random bytes were read for \<open>token\<close>.\<close>

definition mint ::
  "crypt_env \<Rightarrow> faults \<Rightarrow> time \<Rightarrow> string option \<Rightarrow> string \<Rightarrow> nat option \<Rightarrow> duration \<Rightarrow> auth_db \<Rightarrow> (string \<times> time \<times> auth_db) option" where
  "mint ce flt now token purpose account lifetime d =
     (case token of None \<Rightarrow> None | Some t \<Rightarrow>
      let expires = now + (if lifetime \<le> 0 then default_token_lifetime else lifetime) in
      if flt WriteChange \<or> ce_sha256_hex ce t \<in> ot_hash ` set (ab_one_time d) then None
      else Some (t, expires, d\<lparr>ab_one_time := ab_one_time d @ [\<lparr>ot_purpose = purpose, ot_hash = ce_sha256_hex ce t, ot_account = account,
             ot_expires_at = expires, ot_used_at = None\<rparr>]\<rparr>))"

definition mint_reset_token ::
  "crypt_env \<Rightarrow> faults \<Rightarrow> time \<Rightarrow> string option \<Rightarrow> string \<Rightarrow> duration \<Rightarrow> auth_db \<Rightarrow> reset_err + string \<times> time \<times> auth_db" where
  "mint_reset_token ce flt now token address lifetime d =
     (if flt ReadAccount then Inl (ResetFailed DbFault)
      else case by_address d (to_lower (trim_space address)) of None \<Rightarrow> Inl NoSuchAdmin | Some a \<Rightarrow>
      case mint ce flt now token purpose_reset_admin (Some (ua_id a)) lifetime d of None \<Rightarrow> Inl (ResetFailed DbFault) | Some r \<Rightarrow> Inr r)"

definition redeemable :: "string \<Rightarrow> string \<Rightarrow> time \<Rightarrow> one_time_token \<Rightarrow> bool" where
  "redeemable hash purpose now t \<longleftrightarrow> ot_hash t = hash \<and> ot_purpose t = purpose \<and> ot_used_at t = None \<and> now < ot_expires_at t"

definition redeem :: "crypt_env \<Rightarrow> time \<Rightarrow> string \<Rightarrow> string \<Rightarrow> auth_db \<Rightarrow> (one_time_token \<times> auth_db) option" where
  "redeem ce now token purpose d =
     (let hash = ce_sha256_hex ce token;
          rows = update_where (redeemable hash purpose now) (ot_used_at_update (\<lambda>_. Some now)) (ab_one_time d)
      in if length (filter (redeemable hash purpose now) (ab_one_time d)) \<noteq> 1 then None
         else map_option (\<lambda>t. (t, d\<lparr>ab_one_time := rows\<rparr>)) (List.find (\<lambda>t. ot_hash t = hash) rows))"

definition reset_admin ::
  "crypt_env \<Rightarrow> audit_env \<Rightarrow> faults \<Rightarrow> audit_entry \<Rightarrow> string option \<Rightarrow> time \<Rightarrow> string \<Rightarrow> string \<Rightarrow> auth_db
     \<Rightarrow> auth_db \<times> (reset_err + mailbox_row)" where
  "reset_admin ce ae flt e draw now token password d =
     (if length password < min_chosen_password_length then (d, Inl PasswordTooShort)
      else case hash_password ce password of None \<Rightarrow> (d, Inl (ResetFailed SecretUnavailable)) | Some hash \<Rightarrow>
        if flt WriteChange then (d, Inl (ResetFailed DbFault))
        else case redeem ce now token purpose_reset_admin d of None \<Rightarrow> (d, Inl TokenInvalid) | Some (row, d1) \<Rightarrow>
          case ot_account row of None \<Rightarrow> (d, Inl TokenInvalid) | Some i \<Rightarrow>
          case account_by_id d1 i of None \<Rightarrow> (d, Inl NoSuchAdmin) | Some a \<Rightarrow>
          case reset_credentials ae flt e draw i hash now
                 (update_account i (\<lambda>a. a\<lparr>ua_password_change_required := False, ua_two_factor_required := True,
                    ua_bootstrap_expires_at := None, ua_active := True, ua_last_password_change := Some now,
                    ua_credential_epoch := ua_credential_epoch a + 1\<rparr>) d1) of
            Inl err \<Rightarrow> (d, Inl (ResetFailed err))
          | Inr d2 \<Rightarrow> (case account_by_id d2 i of None \<Rightarrow> (d, Inl (ResetFailed DbFault)) | Some b \<Rightarrow> (d2, Inr b)))"

definition reset_password ::
  "crypt_env \<Rightarrow> audit_env \<Rightarrow> faults \<Rightarrow> audit_entry \<Rightarrow> string option \<Rightarrow> time \<Rightarrow> string \<Rightarrow> string \<Rightarrow> auth_db
     \<Rightarrow> auth_db \<times> (reset_err + mailbox_row)" where
  "reset_password ce ae flt e draw now address password d =
     (if length password < min_admin_password_length then (d, Inl ResetPasswordTooShort)
      else case hash_password ce password of None \<Rightarrow> (d, Inl (ResetFailed SecretUnavailable)) | Some hash \<Rightarrow>
        if flt WriteChange then (d, Inl (ResetFailed DbFault))
        else case by_address d (to_lower (trim_space address)) of None \<Rightarrow> (d, Inl NoSuchAdmin) | Some a \<Rightarrow>
          case reset_credentials ae flt e draw (ua_id a) hash now
                 (update_account (ua_id a) (\<lambda>a. a\<lparr>ua_password_change_required := True, ua_two_factor_required := True,
                    ua_bootstrap_expires_at := None, ua_active := True, ua_credential_epoch := ua_credential_epoch a + 1\<rparr>) d) of
            Inl err \<Rightarrow> (d, Inl (ResetFailed err))
          | Inr d2 \<Rightarrow> (case account_by_id d2 (ua_id a) of None \<Rightarrow> (d, Inl (ResetFailed DbFault)) | Some b \<Rightarrow> (d2, Inr b)))"

section \<open>An installation with one administrator\<close>

text \<open>
  The administrator of \<open>sample_grants\<close>, with a password, an authenticator, a recovery code and an app password.
\<close>

definition sample_names :: name_env where
  "sample_names = \<lparr>ne_to_ascii = Some, ne_parse_address = Some, ne_nfc = (\<lambda>x. x)\<rparr>"

definition sample_audit_env :: audit_env where
  "sample_audit_env = \<lparr>au_sha256 = (\<lambda>x. x), au_rfc3339 = (\<lambda>t. [])\<rparr>"

definition no_faults :: faults where "no_faults = (\<lambda>_. False)"

definition sample_account :: mailbox_row where
  "sample_account = \<lparr>ua_id = 1, ua_domain = 1, ua_address = ''root@a.example'', ua_display_name = ''Root'', ua_active = True,
     ua_password_change_required = False, ua_two_factor_required = True, ua_credential_epoch = 0, ua_bootstrap_expires_at = None,
     ua_last_password_change = None, ua_last_login_at = None\<rparr>"

definition sample_credential :: "nat \<Rightarrow> string \<Rightarrow> string \<Rightarrow> credential" where
  "sample_credential i kind hash = (blank_credential 1 kind ''sample'')\<lparr>kr_id := i, kr_public_id := nat_dec i, kr_secret_hash := hash\<rparr>"

definition sample_secret :: string where "sample_secret = replicate 43 (CHR ''x'')"

definition sample_app_password :: credential where
  "sample_app_password = (sample_credential 4 kind_app_password (ce_sha256_hex sample_crypt sample_secret))\<lparr>kr_public_id := ''abcdefghijkl''\<rparr>"

definition sample_auth_db :: auth_db where
  "sample_auth_db = \<lparr>ab_domains = [(1, ''a.example'')], ab_accounts = [sample_account],
     ab_credentials = [sample_credential 1 kind_password (blf_crypt @ sample_bcrypt ''correct horse''),
       (sample_credential 2 kind_totp [])\<lparr>kr_encrypted_secret := ''123456'', kr_confirmed_at := Some 0\<rparr>,
       sample_credential 3 kind_recovery_code (blf_crypt @ sample_bcrypt ''aaaaabbbbb''), sample_app_password],
     ab_credential_seq = 4, ab_tokens = [], ab_gateways = [\<lparr>gw_id = 1, gw_account = 1, gw_closed_at = None\<rparr>], ab_one_time = [], ab_audit = []\<rparr>"

section \<open>A new password\<close>

lemma set_update_where: "x \<in> set (update_where p f rows) \<longleftrightarrow> (\<exists>r\<in>set rows. x = (if p r then f r else r))"
  by (auto simp: update_where_def)

lemma revoke_kinds_revokes:
  "k \<in> set (ab_credentials (snd (revoke_kinds i now kinds d))) \<Longrightarrow> kr_account k = i \<Longrightarrow> kr_kind k \<in> set kinds \<Longrightarrow> kr_revoked_at k \<noteq> None"
proof -
  assume "k \<in> set (ab_credentials (snd (revoke_kinds i now kinds d)))" and k: "kr_account k = i" "kr_kind k \<in> set kinds"
  then obtain r where r: "k = (if revocable_kind i kinds r then kr_revoked_at_update (\<lambda>_. Some now) r else r)"
    by (auto simp: revoke_kinds_def set_update_where)
  show "kr_revoked_at k \<noteq> None"
  proof (cases "revocable_kind i kinds r")
    case False
    then have "k = r" using r by simp
    then show ?thesis using k False by (simp add: revocable_kind_def)
  qed (use r in simp)
qed

lemma revoke_kinds_keeps:
  "k \<in> set (ab_credentials (snd (revoke_kinds i now kinds d))) \<Longrightarrow> kr_revoked_at k = None \<Longrightarrow> k \<in> set (ab_credentials d)"
  by (auto simp: revoke_kinds_def set_update_where split: if_splits)

lemma revoke_kinds_other:
  "k \<in> set (ab_credentials d) \<Longrightarrow> kr_kind k \<notin> set kinds \<Longrightarrow> k \<in> set (ab_credentials (snd (revoke_kinds i now kinds d)))"
  by (force simp: revoke_kinds_def set_update_where revocable_kind_def)

lemma set_password_credentials:
  assumes "set_password flt draw i hash by now d = Inr d'"
  obtains k where "ab_credentials d' = ab_credentials (snd (revoke_kinds i now [kind_password] d)) @ [k]"
    "kr_account k = i" "kr_kind k = kind_password" "kr_secret_hash k = hash" "kr_revoked_at k = None" "kr_expires_at k = None"
proof -
  obtain k where k: "create_credential flt draw ((blank_credential i kind_password ''Password'')\<lparr>kr_secret_hash := hash, kr_created_by := by\<rparr>)
      (snd (revoke_kinds i now [kind_password] d)) = Inr (k, d')"
    using assms by (auto simp: set_password_def split: if_splits sum.splits)
  then show thesis
    by (intro that [of k])
      (auto simp: create_credential_def insert_credential_def blank_credential_def Let_def split: option.splits if_splits)
qed

lemma record_revocations_keeps: "record_revocations ae now e i reason ks d = Inr d' \<Longrightarrow> ab_credentials d' = ab_credentials d"
proof (induction ks arbitrary: d)
  case (Cons k ks)
  then obtain log x where "append_entry ae None now (revocation_entry e i reason k) (ab_audit d) = (log, Inr x)"
    "record_revocations ae now e i reason ks (d\<lparr>ab_audit := log\<rparr>) = Inr d'"
    by (auto split: prod.splits sum.splits)
  then show ?case using Cons.IH by simp
qed simp

lemma end_sessions_sel [simp]: "ab_credentials (end_sessions i now d) = ab_credentials d"
  by (simp add: end_sessions_def revoke_all_for_account_def update_account_def)

lemma end_sessions_ends:
  "r \<in> set (ab_tokens (end_sessions i now d)) \<Longrightarrow> rt_account r = i \<Longrightarrow> rt_status r \<noteq> TokenActive"
  "g \<in> set (ab_gateways (end_sessions i now d)) \<Longrightarrow> gw_account g = i \<Longrightarrow> gw_closed_at g \<noteq> None"
proof -
  have t: "ab_tokens (end_sessions i now d) =
      update_where (\<lambda>t. rt_account t = i \<and> rt_status t = TokenActive) (rt_status_update (\<lambda>_. TokenRevoked)) (ab_tokens d)"
    and g: "ab_gateways (end_sessions i now d) =
      update_where (\<lambda>g. gw_account g = i \<and> gw_closed_at g = None) (gw_closed_at_update (\<lambda>_. Some now)) (ab_gateways d)"
    by (simp_all add: end_sessions_def revoke_all_for_account_def update_account_def)
  show "rt_status r \<noteq> TokenActive" if r: "r \<in> set (ab_tokens (end_sessions i now d))" "rt_account r = i"
  proof -
    obtain x where "r = (if rt_account x = i \<and> rt_status x = TokenActive then x\<lparr>rt_status := TokenRevoked\<rparr> else x)"
      using r(1) unfolding t set_update_where by blast
    then show ?thesis using r(2) by (cases "rt_account x = i \<and> rt_status x = TokenActive") auto
  qed
  show "gw_closed_at g \<noteq> None" if r: "g \<in> set (ab_gateways (end_sessions i now d))" "gw_account g = i"
  proof -
    obtain x where "g = (if gw_account x = i \<and> gw_closed_at x = None then x\<lparr>gw_closed_at := Some now\<rparr> else x)"
      using r(1) unfolding g set_update_where by blast
    then show ?thesis using r(2) by (cases "gw_account x = i \<and> gw_closed_at x = None") auto
  qed
qed

lemma choose_password_parts:
  assumes "choose_password ae flt e draw i hash now d = Inr d'"
  obtains d1 d2 where "set_password flt draw i hash (Some i) now (update_account i (password_columns now) d) = Inr d1"
    "ab_credentials d2 = ab_credentials (snd (revoke_kinds i now machine_kinds d1))" "d' = end_sessions i now d2"
proof -
  obtain d1 d2 where "set_password flt draw i hash (Some i) now (update_account i (password_columns now) d) = Inr d1"
    "revoke_app_passwords_for_new_password ae e i now d1 = Inr d2" "d' = end_sessions i now d2"
    using assms by (auto simp: choose_password_def set_account_password_def split: if_splits sum.splits)
  moreover from this(2) have "ab_credentials d2 = ab_credentials (snd (revoke_kinds i now machine_kinds d1))"
    by (auto simp: revoke_app_passwords_for_new_password_def revoke_app_passwords_def split: prod.splits dest!: record_revocations_keeps)
  ultimately show thesis by (intro that)
qed

text \<open>
  C13: A new password locks everyone else out. Once the account has chosen a new password, the one just set is the only
  password, app password, API key or client secret of the account that is not revoked, and it is usable; no refresh token
  of the account is active, and no mail client's session of it is open.\<close>

theorem new_password_locks_out:
  assumes "choose_password ae flt e draw i hash now d = Inr d'"
  shows "(\<forall>k\<in>set (ab_credentials d'). kr_account k = i \<and> kr_kind k \<in> {kind_password, kind_app_password, kind_api_key, kind_client_secret} \<and> kr_revoked_at k = None \<longrightarrow>
            kr_kind k = kind_password \<and> kr_secret_hash k = hash)
    \<and> (\<exists>k\<in>set (passwords i now d'). kr_secret_hash k = hash)
    \<and> (\<forall>r\<in>set (ab_tokens d'). rt_account r = i \<longrightarrow> rt_status r \<noteq> TokenActive)
    \<and> (\<forall>g\<in>set (ab_gateways d'). gw_account g = i \<longrightarrow> gw_closed_at g \<noteq> None)"
  using assms
proof (rule choose_password_parts)
  fix d1 d2
  assume d1: "set_password flt draw i hash (Some i) now (update_account i (password_columns now) d) = Inr d1"
    and d2: "ab_credentials d2 = ab_credentials (snd (revoke_kinds i now machine_kinds d1))" and d': "d' = end_sessions i now d2"
  obtain k where k: "ab_credentials d1 = ab_credentials (snd (revoke_kinds i now [kind_password] (update_account i (password_columns now) d))) @ [k]"
    "kr_account k = i" "kr_kind k = kind_password" "kr_secret_hash k = hash" "kr_revoked_at k = None" "kr_expires_at k = None"
    using set_password_credentials [OF d1] .
  have only: "kr_kind x = kind_password \<and> kr_secret_hash x = hash"
    if x: "x \<in> set (ab_credentials d')" "kr_account x = i" "kr_kind x \<in> {kind_password, kind_app_password, kind_api_key, kind_client_secret}" "kr_revoked_at x = None" for x
  proof -
    have "x \<in> set (ab_credentials d1)" "kr_kind x \<notin> set machine_kinds"
      using x(1,2,4) revoke_kinds_keeps revoke_kinds_revokes unfolding d' end_sessions_sel d2 by blast+
    moreover have "kr_kind x = kind_password" using calculation(2) x(3) by (auto simp: machine_kinds_def)
    ultimately show ?thesis
      using x k(1,3,4) revoke_kinds_revokes [of x i now "[kind_password]" "update_account i (password_columns now) d"] by auto
  qed
  have "k \<in> set (ab_credentials d')"
    unfolding d' end_sessions_sel d2 by (rule revoke_kinds_other) (use k in \<open>auto simp: machine_kinds_def kind_defs\<close>)
  then have "k \<in> set (passwords i now d')"
    using k by (simp add: passwords_def usable_of_kind_def credential_usable_def unexpired_at_def)
  then show ?thesis using only k(4) end_sessions_ends unfolding d' by blast
qed

definition chosen_db :: auth_db where
  "chosen_db = projr (choose_password sample_audit_env no_faults blank_entry (Some ''fresh'') 1 ''new'' second sample_auth_db)"

lemma first_revocation_recorded:
  assumes "ab_audit d = []" "ks = [k]" shows "\<exists>d'. record_revocations ae now e i reason ks d = Inr d'"
  using assms by (auto simp: append_entry_def last_entry_def Let_def)

lemma sample_choose:
  "choose_password sample_audit_env no_faults blank_entry (Some ''fresh'') 1 ''new'' second sample_auth_db = Inr chosen_db"
proof -
  let ?d = "update_account 1 (password_columns second) sample_auth_db"
  define d1 where "d1 = projr (set_password no_faults (Some ''fresh'') 1 ''new'' (Some 1) second ?d)"
  have d1: "set_password no_faults (Some ''fresh'') 1 ''new'' (Some 1) second ?d = Inr d1" unfolding d1_def by code_simp
  have "length (fst (revoke_app_passwords 1 second d1)) = 1" "ab_audit (snd (revoke_app_passwords 1 second d1)) = []"
    unfolding d1_def by code_simp+
  then have "\<exists>d2. revoke_app_passwords_for_new_password sample_audit_env blank_entry 1 second d1 = Inr d2"
    using first_revocation_recorded by (auto simp: revoke_app_passwords_for_new_password_def length_Suc_conv split: prod.splits)
  then show ?thesis
    using d1 by (auto simp: chosen_db_def choose_password_def set_account_password_def no_faults_def)
qed

theorem new_password_locks_out_witness:
  "(\<exists>k\<in>set (ab_credentials sample_auth_db). kr_kind k = kind_app_password \<and> kr_revoked_at k = None)
   \<and> choose_password sample_audit_env no_faults blank_entry (Some ''fresh'') 1 ''new'' second sample_auth_db = Inr chosen_db
   \<and> filter (\<lambda>k. kr_account k = 1 \<and> kr_kind k \<in> {kind_app_password, kind_api_key, kind_client_secret} \<and> kr_revoked_at k = None) (ab_credentials chosen_db) = []
   \<and> (\<exists>k\<in>set (passwords 1 second chosen_db). kr_secret_hash k = ''new'')
   \<and> filter (\<lambda>g. gw_account g = 1 \<and> gw_closed_at g = None) (ab_gateways chosen_db) = []"
proof -
  have "\<exists>k\<in>set (ab_credentials sample_auth_db). kr_kind k = kind_app_password \<and> kr_revoked_at k = None" by code_simp
  moreover have "kind_password \<notin> {kind_app_password, kind_api_key, kind_client_secret}" by (simp add: kind_defs)
  ultimately show ?thesis
    using new_password_locks_out [OF sample_choose] sample_choose unfolding filter_empty_conv by force
qed

text \<open>A reset token works once, while the clock does not go back.\<close>

lemma reset_token_works_once:
  assumes "redeem ce now token purpose d = Some (row, d')" "now \<le> now'"
  shows "redeem ce now' token purpose d' = None"
proof -
  have d': "ab_one_time d' = update_where (redeemable (ce_sha256_hex ce token) purpose now) (ot_used_at_update (\<lambda>_. Some now)) (ab_one_time d)"
    using assms(1) by (auto simp: redeem_def Let_def split: if_splits)
  have "\<not> redeemable (ce_sha256_hex ce token) purpose now' t" if t: "t \<in> set (ab_one_time d')" for t
  proof -
    obtain x where "t = (if redeemable (ce_sha256_hex ce token) purpose now x then x\<lparr>ot_used_at := Some now\<rparr> else x)"
      using t unfolding d' set_update_where by blast
    then show ?thesis using assms(2) by (cases "redeemable (ce_sha256_hex ce token) purpose now x") (auto simp: redeemable_def)
  qed
  then have "filter (redeemable (ce_sha256_hex ce token) purpose now') (ab_one_time d') = []" by (simp add: filter_empty_conv)
  then show ?thesis by (simp add: redeem_def Let_def)
qed

section \<open>Recovery codes work once\<close>

text \<open>Every change the repositories make to the credentials, one statement or transaction at a time.\<close>

inductive credential_step :: "auth_db \<Rightarrow> auth_db \<Rightarrow> bool" where
  "credential_step d (fst (spend_code i now d))"
| "credential_step d (fst (upgrade_hash ce flt now p k d))"
| "two_factor_enroll flt draw i encrypted codes now d = Inr (k, d') \<Longrightarrow> credential_step d d'"
| "two_factor_confirm flt i now d = Inr d' \<Longrightarrow> credential_step d d'"
| "credential_step d (two_factor_delete i now d)"
| "set_account_password ae flt e draw i hash by now d = Inr d' \<Longrightarrow> credential_step d d'"
| "reset_credentials ae flt e draw i hash now d = Inr d' \<Longrightarrow> credential_step d d'"
| "revoke_app_password i j now d = Inr d' \<Longrightarrow> credential_step d d'"
| "credential_step d (touch_last_used i now d)"
| "create_app_password_from ce flt draws tries i by name expires d = Inr (r, d') \<Longrightarrow> credential_step d d'"

text \<open>No change brings a revoked credential back, and a new one has an id beyond those given out.\<close>

definition kept_row :: "credential \<Rightarrow> credential \<Rightarrow> bool" where
  "kept_row k k' \<longleftrightarrow> kr_id k = kr_id k' \<and> (kr_revoked_at k' = None \<longrightarrow> kr_revoked_at k = None)"

definition revocations_kept :: "auth_db \<Rightarrow> auth_db \<Rightarrow> bool" where
  "revocations_kept d d' \<longleftrightarrow>
     ab_credential_seq d \<le> ab_credential_seq d' \<and>
     (\<forall>k'\<in>set (ab_credentials d'). ab_credential_seq d < kr_id k'
        \<or> (\<exists>k\<in>set (ab_credentials d). kept_row k k'))"

lemma kept_row_refl [simp]: "kept_row k k"
  by (simp add: kept_row_def)

lemma kept_row_trans: "kept_row a b \<Longrightarrow> kept_row b c \<Longrightarrow> kept_row a c"
  by (simp add: kept_row_def)

lemma kept_refl [simp]: "revocations_kept d d"
  unfolding revocations_kept_def using kept_row_refl by blast

lemma kept_trans:
  assumes "revocations_kept d d'" "revocations_kept d' d''" shows "revocations_kept d d''"
proof -
  have "ab_credential_seq d < kr_id c \<or> (\<exists>k\<in>set (ab_credentials d). kept_row k c)" if c: "c \<in> set (ab_credentials d'')" for c
  proof (cases "ab_credential_seq d' < kr_id c")
    case True
    then show ?thesis using assms(1) by (simp add: revocations_kept_def)
  next
    case False
    then obtain b where b: "b \<in> set (ab_credentials d')" "kept_row b c" using assms(2) c unfolding revocations_kept_def by blast
    have "ab_credential_seq d < kr_id b \<or> (\<exists>k\<in>set (ab_credentials d). kept_row k b)"
      using assms(1) b(1) unfolding revocations_kept_def by blast
    moreover have "kr_id b = kr_id c" using b(2) by (simp add: kept_row_def)
    ultimately show ?thesis using kept_row_trans [OF _ b(2)] by auto
  qed
  moreover have "ab_credential_seq d \<le> ab_credential_seq d''" using assms by (simp add: revocations_kept_def)
  ultimately show ?thesis unfolding revocations_kept_def by blast
qed

lemma kept_same: "ab_credentials d' = ab_credentials d \<Longrightarrow> ab_credential_seq d' = ab_credential_seq d \<Longrightarrow> revocations_kept d d'"
  unfolding revocations_kept_def using kept_row_refl by force

lemma kept_update:
  assumes "\<And>k. kept_row k (f k)"
  shows "revocations_kept d (d\<lparr>ab_credentials := update_where p f (ab_credentials d)\<rparr>)"
proof -
  have "\<exists>k\<in>set (ab_credentials d). kept_row k k'"
    if "k' \<in> set (update_where p f (ab_credentials d))" for k'
  proof -
    obtain r where "r \<in> set (ab_credentials d)" "k' = (if p r then f r else r)" using \<open>k' \<in> _\<close> unfolding set_update_where by blast
    then show ?thesis using assms [of r] by (intro bexI [of _ r]) auto
  qed
  then show ?thesis by (simp add: revocations_kept_def)
qed

lemma kept_insert: "insert_credential k d = Some (k', d') \<Longrightarrow> revocations_kept d d'"
proof -
  assume "insert_credential k d = Some (k', d')"
  then have "ab_credentials d' = ab_credentials d @ [k']" "ab_credential_seq d' = ab_credential_seq d + 1" "kr_id k' = ab_credential_seq d + 1"
    by (auto simp: insert_credential_def Let_def split: if_splits)
  then show "revocations_kept d d'" unfolding revocations_kept_def by simp (blast intro: kept_row_refl)
qed

lemma kept_create: "create_credential flt draw k d = Inr (k', d') \<Longrightarrow> revocations_kept d d'"
  by (auto simp: create_credential_def split: if_splits option.splits dest: kept_insert)

lemma kept_revoke_kinds: "revocations_kept d (snd (revoke_kinds i now kinds d))"
  unfolding revoke_kinds_def snd_conv by (rule kept_update) (simp add: kept_row_def)

lemma kept_set_password: "set_password flt draw i hash by now d = Inr d' \<Longrightarrow> revocations_kept d d'"
  by (auto simp: set_password_def split: if_splits sum.splits intro: kept_trans [OF kept_revoke_kinds kept_create])

lemma kept_create_codes: "create_codes flt i codes d = Inr d' \<Longrightarrow> revocations_kept d d'"
proof (induction codes arbitrary: d)
  case (Cons c codes)
  obtain hash draw where "c = (hash, draw)" by (cases c)
  then show ?case using Cons by (auto split: sum.splits prod.splits dest!: kept_create intro: kept_trans)
qed simp

lemma record_revocations_seq: "record_revocations ae now e i reason ks d = Inr d' \<Longrightarrow> ab_credential_seq d' = ab_credential_seq d"
proof (induction ks arbitrary: d)
  case (Cons k ks)
  then obtain log x where "append_entry ae None now (revocation_entry e i reason k) (ab_audit d) = (log, Inr x)"
    "record_revocations ae now e i reason ks (d\<lparr>ab_audit := log\<rparr>) = Inr d'"
    by (auto split: prod.splits sum.splits)
  then show ?case using Cons.IH by simp
qed simp

lemma kept_record: "record_revocations ae now e i reason ks d = Inr d' \<Longrightarrow> revocations_kept d d'"
  by (rule kept_same [OF record_revocations_keeps record_revocations_seq])

lemma kept_revoke_all: "revocations_kept d (revoke_all_for_account i now d)"
  by (rule kept_same) (simp_all add: revoke_all_for_account_def)

lemma kept_set_account_password:
  assumes "set_account_password ae flt e draw i hash by now d = Inr d'" shows "revocations_kept d d'"
proof -
  obtain d1 d2 where 1: "set_password flt draw i hash by now d = Inr d1" and 2: "revoke_app_passwords_for_new_password ae e i now d1 = Inr d2"
    and 3: "d' = end_sessions i now d2"
    using assms by (auto simp: set_account_password_def split: sum.splits)
  have "record_revocations ae now e i credential_revoked_password_changed (fst (revoke_kinds i now machine_kinds d1))
      (snd (revoke_kinds i now machine_kinds d1)) = Inr d2"
    using 2 by (simp add: revoke_app_passwords_for_new_password_def revoke_app_passwords_def split_beta)
  then have "revocations_kept d1 d2" by (rule kept_trans [OF kept_revoke_kinds kept_record])
  moreover have "revocations_kept d2 d'" unfolding 3
    by (rule kept_same) (simp_all add: end_sessions_def revoke_all_for_account_def update_account_def)
  ultimately show ?thesis using kept_set_password [OF 1] by (blast intro: kept_trans)
qed

lemma kept_reset_credentials:
  assumes "reset_credentials ae flt e draw i hash now d = Inr d'" shows "revocations_kept d d'"
proof -
  obtain d1 d4 where 1: "set_password flt draw i hash None now d = Inr d1"
    and 2: "record_revocations ae now e i credential_revoked_account_reset
      (fst (revoke_kinds i now machine_kinds (snd (revoke_kinds i now [kind_totp, kind_recovery_code] d1))))
      (snd (revoke_kinds i now machine_kinds (snd (revoke_kinds i now [kind_totp, kind_recovery_code] d1)))) = Inr d4"
    and 3: "d' = revoke_all_for_account i now d4"
    using assms by (auto simp: reset_credentials_def revoke_app_passwords_def Let_def split: sum.splits prod.splits)
  show ?thesis unfolding 3
    by (rule kept_trans [OF kept_set_password [OF 1] kept_trans [OF kept_revoke_kinds kept_trans [OF kept_revoke_kinds
          kept_trans [OF kept_record [OF 2] kept_revoke_all]]]])
qed

lemma kept_create_app_password: "create_app_password_from ce flt draws tries i by name expires d = Inr (r, d') \<Longrightarrow> revocations_kept d d'"
  by (induction draws arbitrary: tries) (auto split: option.splits if_splits dest: kept_insert)

lemma credential_step_kept: "credential_step d d' \<Longrightarrow> revocations_kept d d'"
proof (induction rule: credential_step.induct)
  case (2 d ce flt now p k)
  have "revocations_kept d (d\<lparr>ab_credentials := update_where (upgradable k now) (kr_secret_hash_update (\<lambda>_. h)) (ab_credentials d)\<rparr>)" for h
    by (rule kept_update) (simp add: kept_row_def)
  then show ?case by (auto simp: upgrade_hash_def split: option.splits)
next
  case (3 flt draw i encrypted codes now d k d')
  then show ?case
    by (auto simp: two_factor_enroll_def split: if_splits sum.splits
        dest!: kept_create kept_create_codes intro: kept_trans [OF kept_revoke_kinds kept_trans])
qed (auto simp: spend_code_def two_factor_confirm_def two_factor_delete_def revoke_app_password_def touch_last_used_def kept_row_def
      split: if_splits intro!: kept_update kept_revoke_kinds
      dest: kept_set_account_password kept_reset_credentials kept_create_app_password)

lemma credential_runs_kept: "credential_step\<^sup>*\<^sup>* d d' \<Longrightarrow> revocations_kept d d'"
  by (induction rule: rtranclp_induct) (auto intro: kept_trans credential_step_kept)

text \<open>
  C16: A recovery code works once. When the guarded update has spent a code, no later request finds it among the
  unspent ones, and one that had read it before fails to spend it, whatever changes to the credentials come between.\<close>

theorem recovery_code_works_once:
  assumes "spend_code i now d = (d', True)" "i \<le> ab_credential_seq d" "credential_step\<^sup>*\<^sup>* d' d''"
  shows "\<not> snd (spend_code i now' d'') \<and> (\<forall>account code k. matching_code ce account code d'' = Some k \<longrightarrow> kr_id k \<noteq> i)"
proof -
  have d': "ab_credentials d' = update_where (spendable i) (\<lambda>k. k\<lparr>kr_revoked_at := Some now, kr_last_used_at := Some now\<rparr>) (ab_credentials d)"
    "ab_credential_seq d' = ab_credential_seq d"
    using assms(1) by (auto simp: spend_code_def)
  have gone: "kr_revoked_at k \<noteq> None" if k: "k \<in> set (ab_credentials d')" "kr_id k = i" for k
  proof -
    obtain r where r: "k = (if spendable i r then r\<lparr>kr_revoked_at := Some now, kr_last_used_at := Some now\<rparr> else r)"
      using k(1) unfolding d' set_update_where by blast
    show ?thesis
    proof (cases "spendable i r")
      case False
      then have "k = r" using r by simp
      then show ?thesis using False k(2) by (simp add: spendable_def)
    qed (use r in simp)
  qed
  have still: "kr_revoked_at k \<noteq> None" if k: "k \<in> set (ab_credentials d'')" "kr_id k = i" for k
  proof -
    obtain b where "b \<in> set (ab_credentials d')" "kept_row b k"
      using credential_runs_kept [OF assms(3)] k assms(2) d'(2) by (auto simp: revocations_kept_def)
    moreover have "kr_revoked_at b \<noteq> None" using calculation gone k(2) by (simp add: kept_row_def)
    ultimately show ?thesis by (auto simp: kept_row_def)
  qed
  then have "filter (spendable i) (ab_credentials d'') = []" by (auto simp: filter_empty_conv spendable_def)
  moreover have "kr_id k \<noteq> i" if "matching_code ce account code d'' = Some k" for account code k
    using that still [of k] by (auto simp: matching_code_def unspent_codes_def find_Some_iff dest!: nth_mem)
  ultimately show ?thesis by (simp add: spend_code_def)
qed

theorem recovery_code_works_once_witness:
  "snd (spend_code 3 second sample_auth_db) \<and> \<not> snd (spend_code 3 minute (fst (spend_code 3 second sample_auth_db)))"
proof -
  have s: "spend_code 3 second sample_auth_db = (fst (spend_code 3 second sample_auth_db), True)" by code_simp
  have "(3::nat) \<le> ab_credential_seq sample_auth_db" by (simp add: sample_auth_db_def)
  from recovery_code_works_once [OF s this rtranclp.rtrancl_refl, of minute] s show ?thesis by (metis snd_conv)
qed

section \<open>Signing a mail client in\<close>

definition plain_hash :: "string \<Rightarrow> bool" where
  "plain_hash h \<longleftrightarrow> CHR 0x00 \<notin> set h"

text \<open>The memory holds only passwords that matched.\<close>

definition memo_ok :: "crypt_env \<Rightarrow> password_memo \<Rightarrow> bool" where
  "memo_ok ce m \<longleftrightarrow>
     (\<forall>key\<in>fst ` set m. \<exists>k secret. key = password_check_key ce k secret \<and> plain_hash (kr_secret_hash k) \<and> check_password ce secret (kr_secret_hash k))"

lemma length_be64 [simp]: "length (be64 i) = 8"
  by (simp add: be64_def)

lemma password_check_text_inject:
  assumes "password_check_text k secret = password_check_text k' secret'" "plain_hash (kr_secret_hash k)" "plain_hash (kr_secret_hash k')"
  shows "kr_secret_hash k = kr_secret_hash k' \<and> secret = secret'"
proof -
  have "kr_secret_hash k @ CHR 0x00 # secret = kr_secret_hash k' @ CHR 0x00 # secret'"
    using assms(1) by (simp add: password_check_text_def)
  then have "cut_byte (CHR 0x00) (kr_secret_hash k @ CHR 0x00 # secret) = cut_byte (CHR 0x00) (kr_secret_hash k' @ CHR 0x00 # secret')" by simp
  then show ?thesis using assms(2,3) by (simp add: cut_byte_append plain_hash_def)
qed

lemma memo_ok_update: "memo_ok ce m \<Longrightarrow> plain_hash (kr_secret_hash k) \<Longrightarrow> check_password ce secret (kr_secret_hash k) \<Longrightarrow> memo_ok ce (remember ce now k secret m)"
  unfolding memo_ok_def remember_def using dom_update [of "password_check_key ce k secret" "now + password_check_ttl"]
  by (auto simp: dom_map_of_conv_image_fst)

lemma memo_ok_delete: "memo_ok ce m \<Longrightarrow> memo_ok ce (AList.delete key m)"
  by (auto simp: memo_ok_def AList.delete_eq)

lemma remembered_sound:
  assumes "check_remembered ce now k secret m = (m', b)" "memo_ok ce m" "inj (ce_sha256_hex ce)" "plain_hash (kr_secret_hash k)"
  shows "memo_ok ce m' \<and> (b \<longrightarrow> check_password ce secret (kr_secret_hash k))"
proof (cases b)
  case True
  then obtain u where u: "map_of m (password_check_key ce k secret) = Some u" "m' = m"
    using assms(1) by (auto simp: check_remembered_def split: option.splits if_splits)
  then have "password_check_key ce k secret \<in> fst ` set m" by (force dest: map_of_SomeD)
  then obtain k0 s0 where k0: "password_check_key ce k secret = password_check_key ce k0 s0" "plain_hash (kr_secret_hash k0)"
    "check_password ce s0 (kr_secret_hash k0)"
    using assms(2) unfolding memo_ok_def by blast
  have "kr_secret_hash k = kr_secret_hash k0 \<and> secret = s0"
    by (rule password_check_text_inject) (use k0 assms(3,4) in \<open>auto simp: password_check_key_def dest: injD\<close>)
  then show ?thesis using k0(3) u(2) assms(2) by simp
qed (use assms(1,2) memo_ok_delete in \<open>auto simp: check_remembered_def split: option.splits if_splits\<close>)

lemma remembered_first_sound:
  assumes "remembered_first ce now ks secret m = (m', r)" "memo_ok ce m" "inj (ce_sha256_hex ce)" "\<forall>k\<in>set ks. plain_hash (kr_secret_hash k)"
  shows "memo_ok ce m' \<and> (\<forall>k. r = Some k \<longrightarrow> k \<in> set ks \<and> check_password ce secret (kr_secret_hash k))"
  using assms
proof (induction ks arbitrary: m)
  case (Cons k ks)
  obtain m1 b where m1: "check_remembered ce now k secret m = (m1, b)" by (cases "check_remembered ce now k secret m")
  have ok: "memo_ok ce m1" "b \<longrightarrow> check_password ce secret (kr_secret_hash k)"
    using remembered_sound [OF m1] Cons.prems by auto
  show ?case
  proof (cases b)
    case False
    then have "remembered_first ce now ks secret m1 = (m', r)" using Cons.prems(1) m1 by simp
    then show ?thesis using Cons.IH [of m1] ok(1) Cons.prems(3,4) by auto
  qed (use Cons.prems m1 ok in auto)
qed simp

text \<open>What bcrypt promises of a hash it has just made.\<close>

definition hashes_match :: "crypt_env \<Rightarrow> bool" where
  "hashes_match ce \<longleftrightarrow> (\<forall>p h. hash_password ce p = Some h \<longrightarrow> check_password ce p h \<and> plain_hash h)"

definition proven_by :: "crypt_env \<Rightarrow> string \<Rightarrow> credential list \<Rightarrow> credential \<Rightarrow> bool" where
  "proven_by ce password ks k \<longleftrightarrow>
     (\<exists>k0\<in>set ks. kr_account k = kr_account k0 \<and> kr_kind k = kr_kind k0 \<and> kr_revoked_at k = kr_revoked_at k0 \<and> kr_expires_at k = kr_expires_at k0)
     \<and> check_password ce password (kr_secret_hash k) \<and> plain_hash (kr_secret_hash k)"

lemma match_first_sound:
  assumes "match_first ce flt now password ks d = (d', Inr (Some k))" "hashes_match ce" "\<forall>k\<in>set ks. plain_hash (kr_secret_hash k)"
  shows "proven_by ce password ks k"
  using assms
proof (induction ks)
  case (Cons x ks)
  show ?case
  proof (cases "check_password ce password (kr_secret_hash x)")
    case True
    then show ?thesis using Cons.prems
      by (auto simp: proven_by_def upgrade_hash_def hashes_match_def split: if_splits option.splits)
  next
    case False
    then have "proven_by ce password ks k" using Cons by simp
    then show ?thesis by (auto simp: proven_by_def)
  qed
qed simp

lemma match_password_sound:
  assumes "match_password ce flt now i password (Some m) d = (memo, d', Inr (Some k))" "memo_ok ce m" "inj (ce_sha256_hex ce)"
    "hashes_match ce" "\<forall>k\<in>set (ab_credentials d). plain_hash (kr_secret_hash k)"
  shows "proven_by ce password (passwords i now d) k \<and> (\<exists>m'. memo = Some m' \<and> memo_ok ce m')"
proof -
  have ks: "\<forall>k\<in>set (passwords i now d). plain_hash (kr_secret_hash k)" using assms(5) by (auto simp: passwords_def)
  obtain m1 r where m1: "remembered_first ce now (passwords i now d) password m = (m1, r)" by (cases "remembered_first ce now (passwords i now d) password m")
  note rf = remembered_first_sound [OF m1 assms(2,3) ks]
  show ?thesis
  proof (cases r)
    case (Some k0)
    then show ?thesis using assms(1) m1 rf ks by (auto simp: match_password_def Let_def proven_by_def split: if_splits)
  next
    case None
    then have mf: "match_first ce flt now password (passwords i now d) d = (d', Inr (Some k))" "memo = Some (remember ce now k password m1)"
      using assms(1) m1 by (auto simp: match_password_def Let_def split: if_splits sum.splits prod.splits option.splits)
    have "proven_by ce password (passwords i now d) k" by (rule match_first_sound [OF mf(1) assms(4) ks])
    then show ?thesis using mf(2) rf by (auto simp: proven_by_def intro: memo_ok_update)
  qed
qed

lemma proven_password: "proven_by ce password (passwords i now d) k \<Longrightarrow>
    usable_of_kind i kind_password now k \<and> check_password ce password (kr_secret_hash k)"
  by (auto simp: proven_by_def passwords_def usable_of_kind_def credential_usable_def unexpired_at_def)


lemma sample_hashes_match: "hashes_match sample_crypt"
proof -
  have "plain_hash (blf_crypt @ sample_bcrypt p)" for p
  proof -
    have "CHR 0x00 \<noteq> hex_digit n" if "n < 16" for n
    proof
      assume "CHR 0x00 = hex_digit n"
      then have "(of_char (CHR 0x00) :: nat) = of_char (hex_digit n)" by (rule arg_cong)
      then show False using that by (simp add: hex_digit_def split: if_splits)
    qed
    then show ?thesis
      by (auto simp: plain_hash_def sample_bcrypt_def blf_crypt_def hex_bytes_def hex_byte_def)
  qed
  moreover have "check_password sample_crypt p (blf_crypt @ sample_bcrypt p)" for p
    by (simp add: check_password_def is_imported_hash_def imported_schemes_def scheme_defs sample_crypt_def sample_bcrypt_def)
  ultimately show ?thesis by (auto simp: hashes_match_def hash_password_def sample_crypt_def)
qed


end
