(* ===== verification/Auth_Sessions.thy ===== *)
theory Auth_Sessions
  imports Auth_Credentials
begin

text \<open>
  Signing in, refreshing and ending a session: tokens (\<^verbatim>\<open>internal/auth/auth.go\<close>, \<^verbatim>\<open>client_secret.go\<close>), the handlers of
  \<^verbatim>\<open>internal/api/handlers/auth.go\<close>, \<^verbatim>\<open>two_factor.go\<close> and \<^verbatim>\<open>credentials.go\<close>, and any number of their requests interleaved.
  A handler is split where it calls the database in separate statements that others may come between: a
  sign-in into its checks and \<open>newSession\<close>, a refresh into reading the account, rotating the token and issuing
  the next. Signing and parsing a JWT are arguments, as is what the random generator draws; a refusal is its
  HTTP status and code. The routes' handlers run with a database, so the stores are never nil.
\<close>

section \<open>Tokens\<close>

record claims =
  tk_jti :: string
  tk_issuer :: string
  tk_issued_at :: time
  tk_expires_at :: time
  tk_account :: nat
  tk_address :: string
  tk_amr :: "string list"
  tk_two_factor :: bool
  tk_auth_time :: "time option"
  tk_setup_pending :: bool
  tk_epoch :: int
  tk_sid :: string
  tk_type :: string
  tk_machine_credential :: nat
  tk_credential_id :: nat
  tk_credential_kind :: string
  tk_permissions :: "(string \<times> string) list"

datatype jwt_err = JwtExpired | JwtInvalid

record jwt_env =
  je_sign :: "claims \<Rightarrow> string option"
  je_parse :: "time \<Rightarrow> string \<Rightarrow> jwt_err + claims"
  je_access_expiry :: duration
  je_refresh_expiry :: duration
  je_issuer :: string

definition amr_password :: string where "amr_password = ''pwd''"
definition amr_otp :: string where "amr_otp = ''otp''"
definition token_issuer :: string where "token_issuer = ''restmail''"
definition token_access :: string where "token_access = ''access''"
definition token_refresh :: string where "token_refresh = ''refresh''"

text \<open>\<open>jwt.NewNumericDate\<close> keeps whole seconds.\<close>

definition numeric_date :: "time \<Rightarrow> time" where
  "numeric_date t = t - t mod second"

record token_pair =
  tp_access :: string
  tp_refresh :: string
  tp_expires_in :: int
  tp_refresh_jti :: string
  tp_refresh_expires_at :: time
  tp_sid :: string

text \<open>What the random generator draws for one session, and the session a refresh continues: its sid and proof time.\<close>

record draws =
  dw_sid :: "string option"
  dw_access :: "string option"
  dw_refresh :: "string option"
  dw_csrf :: "string option"

type_synonym continued = "(string \<times> time option) option"

definition session_sid :: "draws \<Rightarrow> continued \<Rightarrow> string option" where
  "session_sid dw cont =
     (case cont of None \<Rightarrow> dw_sid dw | Some (sid, _) \<Rightarrow> if sid = [] then None else Some sid)"

definition proof_time :: "time \<Rightarrow> string list \<Rightarrow> continued \<Rightarrow> time option" where
  "proof_time now amr cont =
     (if amr_otp \<in> set amr then (case cont of None \<Rightarrow> Some (numeric_date now) | Some (_, at) \<Rightarrow> at) else None)"

definition session_claims ::
  "jwt_env \<Rightarrow> time \<Rightarrow> nat \<Rightarrow> string \<Rightarrow> int \<Rightarrow> string list \<Rightarrow> bool \<Rightarrow> continued \<Rightarrow> string \<Rightarrow> string \<Rightarrow> string \<Rightarrow> time \<Rightarrow> claims" where
  "session_claims je now account address epoch amr setup cont sid jti type expires =
     \<lparr>tk_jti = jti, tk_issuer = je_issuer je, tk_issued_at = numeric_date now, tk_expires_at = numeric_date expires,
      tk_account = account, tk_address = address, tk_amr = amr, tk_two_factor = (amr_otp \<in> set amr),
      tk_auth_time = proof_time now amr cont, tk_setup_pending = setup, tk_epoch = epoch, tk_sid = sid, tk_type = type,
      tk_machine_credential = 0, tk_credential_id = 0, tk_credential_kind = [], tk_permissions = []\<rparr>"

text \<open>\<open>GenerateSession\<close>: the pair, with the claims its two tokens carry.\<close>

definition generate_session ::
  "jwt_env \<Rightarrow> draws \<Rightarrow> time \<Rightarrow> nat \<Rightarrow> string \<Rightarrow> int \<Rightarrow> string list \<Rightarrow> bool \<Rightarrow> continued \<Rightarrow> (token_pair \<times> claims \<times> claims) option" where
  "generate_session je dw now account address epoch amr setup cont =
     (case session_sid dw cont of None \<Rightarrow> None | Some sid \<Rightarrow>
      case dw_access dw of None \<Rightarrow> None | Some ja \<Rightarrow>
      let ca = session_claims je now account address epoch amr setup cont sid ja token_access (now + je_access_expiry je) in
      case je_sign je ca of None \<Rightarrow> None | Some access \<Rightarrow>
      case dw_refresh dw of None \<Rightarrow> None | Some jr \<Rightarrow>
      let cr = session_claims je now account address epoch amr setup cont sid jr token_refresh (now + je_refresh_expiry je) in
      case je_sign je cr of None \<Rightarrow> None | Some refresh \<Rightarrow>
      Some (\<lparr>tp_access = access, tp_refresh = refresh, tp_expires_in = je_access_expiry je div second,
             tp_refresh_jti = jr, tp_refresh_expires_at = now + je_refresh_expiry je, tp_sid = sid\<rparr>, ca, cr))"

definition machine_token_lifetime :: duration where "machine_token_lifetime = 300 * second"

definition generate_machine_token :: "jwt_env \<Rightarrow> draws \<Rightarrow> time \<Rightarrow> nat \<Rightarrow> string \<Rightarrow> nat \<Rightarrow> string option" where
  "generate_machine_token je dw now account address credential =
     (if account = 0 \<or> credential = 0 then None
      else case dw_sid dw of None \<Rightarrow> None | Some sid \<Rightarrow>
      case dw_access dw of None \<Rightarrow> None | Some jti \<Rightarrow>
      je_sign je \<lparr>tk_jti = jti, tk_issuer = je_issuer je, tk_issued_at = numeric_date now,
        tk_expires_at = numeric_date (now + machine_token_lifetime), tk_account = account, tk_address = address, tk_amr = [],
        tk_two_factor = False, tk_auth_time = None, tk_setup_pending = False, tk_epoch = 0, tk_sid = sid, tk_type = token_access,
        tk_machine_credential = credential, tk_credential_id = 0, tk_credential_kind = [], tk_permissions = []\<rparr>)"

datatype token_err = TokenExpired | InvalidToken | WrongTokenType

definition validate_token :: "jwt_env \<Rightarrow> time \<Rightarrow> string \<Rightarrow> token_err + claims" where
  "validate_token je now token =
     (case je_parse je now token of
        Inl JwtExpired \<Rightarrow> Inl TokenExpired
      | Inl JwtInvalid \<Rightarrow> Inl InvalidToken
      | Inr c \<Rightarrow> if tk_sid c = [] then Inl InvalidToken else Inr c)"

definition validate_type :: "string \<Rightarrow> jwt_env \<Rightarrow> time \<Rightarrow> string \<Rightarrow> token_err + claims" where
  "validate_type type je now token =
     (case validate_token je now token of
        Inl e \<Rightarrow> Inl e
      | Inr c \<Rightarrow> if tk_type c \<noteq> type then Inl WrongTokenType else Inr c)"

definition validate_access_token :: "jwt_env \<Rightarrow> time \<Rightarrow> string \<Rightarrow> token_err + claims" where
  "validate_access_token je now token = validate_type token_access je now token"

definition validate_refresh_token :: "jwt_env \<Rightarrow> time \<Rightarrow> string \<Rightarrow> token_err + claims" where
  "validate_refresh_token je now token = validate_type token_refresh je now token"

section \<open>What a session is answered with\<close>

datatype http_err = HttpRefuse nat string | HttpInvalid "string list" | HttpInternal

record auth_env =
  ve_crypt :: crypt_env
  ve_names :: name_env
  ve_jwt :: jwt_env
  ve_audit :: audit_env
  ve_decrypt :: "(string \<Rightarrow> string option) option"
  ve_override :: "held option"
  ve_grants :: grants_db
  ve_window :: "duration option"

record cookie =
  ck_name :: string
  ck_value :: string
  ck_path :: string
  ck_http_only :: bool
  ck_max_age :: int

record login_response =
  lr_access_token :: string
  lr_refresh_token :: string
  lr_expires_in :: int
  lr_refresh_expires_in :: int
  lr_capabilities :: "string list"
  lr_scoped :: held
  lr_setup_required :: "string list"
  lr_user_id :: nat
  lr_email :: string
  lr_display_name :: string

definition access_cookie :: string where "access_cookie = ''restmail_access''"
definition refresh_cookie :: string where "refresh_cookie = ''restmail_refresh''"
definition csrf_cookie :: string where "csrf_cookie = ''restmail_csrf''"
definition auth_path :: string where "auth_path = ''/api/v1/auth''"

definition session_cookies :: "draws \<Rightarrow> string \<Rightarrow> int \<Rightarrow> cookie list option" where
  "session_cookies dw access max_age =
     (case dw_csrf dw of None \<Rightarrow> None | Some csrf \<Rightarrow>
        Some [\<lparr>ck_name = access_cookie, ck_value = access, ck_path = ''/'', ck_http_only = True, ck_max_age = max_age\<rparr>,
              \<lparr>ck_name = csrf_cookie, ck_value = csrf, ck_path = ''/'', ck_http_only = False, ck_max_age = max_age\<rparr>])"

definition clear_session_cookies :: "cookie list" where
  "clear_session_cookies =
     [\<lparr>ck_name = access_cookie, ck_value = [], ck_path = ''/'', ck_http_only = True, ck_max_age = -1\<rparr>,
      \<lparr>ck_name = csrf_cookie, ck_value = [], ck_path = ''/'', ck_http_only = False, ck_max_age = -1\<rparr>]"

definition deliver_session :: "draws \<Rightarrow> time \<Rightarrow> token_pair \<Rightarrow> bool \<Rightarrow> login_response \<Rightarrow> (login_response \<times> cookie list) option" where
  "deliver_session dw now tp native resp =
     (if native
      then Some (resp\<lparr>lr_access_token := tp_access tp, lr_refresh_token := tp_refresh tp,
                   lr_refresh_expires_in := (tp_refresh_expires_at tp - now) div second\<rparr>, [])
      else map_option (\<lambda>cs. (resp,
             \<lparr>ck_name = refresh_cookie, ck_value = tp_refresh tp, ck_path = auth_path, ck_http_only = True, ck_max_age = 7 * 24 * 60 * 60\<rparr> # cs))
             (session_cookies dw (tp_access tp) (tp_expires_in tp)))"

text \<open>A request to refresh or sign out: the refresh cookie, and the body's token.\<close>

record token_request =
  tq_cookie :: "string option"
  tq_body :: "string option"

definition presented_refresh_token :: "token_request \<Rightarrow> string \<times> bool" where
  "presented_refresh_token r =
     (case tq_cookie r of
        Some c \<Rightarrow> if c \<noteq> [] then (c, False) else (case tq_body r of Some b \<Rightarrow> (b, b \<noteq> []) | None \<Rightarrow> ([], False))
      | None \<Rightarrow> (case tq_body r of Some b \<Rightarrow> (b, b \<noteq> []) | None \<Rightarrow> ([], False)))"

section \<open>The account as a session sees it\<close>

definition setup_step_password :: string where "setup_step_password = ''password''"
definition setup_step_two_factor :: string where "setup_step_two_factor = ''two_factor''"

definition account_setup_steps :: "faults \<Rightarrow> auth_db \<Rightarrow> mailbox_row \<Rightarrow> auth_err + string list" where
  "account_setup_steps flt d a =
     (let steps = (if ua_password_change_required a then [setup_step_password] else []) in
      if \<not> ua_two_factor_required a then Inr steps
      else case two_factor_get_active flt (ua_id a) d of
        Inr _ \<Rightarrow> Inr steps
      | Inl TwoFactorNotFound \<Rightarrow> Inr (steps @ [setup_step_two_factor])
      | Inl e \<Rightarrow> Inl e)"

record account_state =
  as_active :: bool
  as_address :: string
  as_display_name :: string
  as_capabilities :: "string list"
  as_scoped :: held
  as_setup_pending :: bool
  as_setup_required :: "string list"
  as_epoch :: int

definition no_account_state :: account_state where
  "no_account_state = \<lparr>as_active = False, as_address = [], as_display_name = [], as_capabilities = [], as_scoped = [],
     as_setup_pending = False, as_setup_required = [], as_epoch = 0\<rparr>"

definition load_grants :: "auth_env \<Rightarrow> faults \<Rightarrow> time \<Rightarrow> nat \<Rightarrow> string + held" where
  "load_grants env flt now i = load_held (ve_override env) (if flt LoadGrants then Some [] else None) (ve_grants env) now i"

definition read_account_state :: "auth_env \<Rightarrow> faults \<Rightarrow> time \<Rightarrow> nat \<Rightarrow> auth_db \<Rightarrow> auth_err + account_state" where
  "read_account_state env flt now i d =
     (if flt ReadState then Inl DbFault
      else case account_by_id d i of None \<Rightarrow> Inr no_account_state | Some a \<Rightarrow>
      if \<not> ua_active a \<or> bootstrap_expired now a then Inr no_account_state
      else case load_grants env flt now i of Inl _ \<Rightarrow> Inl DbFault | Inr h \<Rightarrow>
      case account_setup_steps flt d a of Inl e \<Rightarrow> Inl e | Inr steps \<Rightarrow>
      Inr \<lparr>as_active = True, as_address = ua_address a, as_display_name = ua_display_name a, as_capabilities = global_capabilities h,
           as_scoped = scoped_capabilities h, as_setup_pending = (steps \<noteq> []), as_setup_required = steps, as_epoch = ua_credential_epoch a\<rparr>)"

section \<open>Signing in\<close>

record login_request =
  lq_email :: string
  lq_password :: string
  lq_totp :: string
  lq_recovery :: string
  lq_client :: string

definition client_native :: string where "client_native = ''native''"

definition sign_in_methods :: "bool \<Rightarrow> string list" where
  "sign_in_methods verified = (if verified then [amr_password, amr_otp] else [amr_password])"

definition enforce_2fa :: "auth_env \<Rightarrow> faults \<Rightarrow> time \<Rightarrow> nat \<Rightarrow> login_request \<Rightarrow> auth_db \<Rightarrow> auth_db \<times> (http_err + bool)" where
  "enforce_2fa env flt now account req d =
     (case two_factor_get_active flt account d of
        Inl TwoFactorNotFound \<Rightarrow> (d, Inr False)
      | Inl _ \<Rightarrow> (d, Inl (HttpRefuse 500 ''internal_error''))
      | Inr _ \<Rightarrow>
          (case verify_totp_or_recovery (ve_crypt env) (ve_decrypt env) flt now account (lq_totp req) (lq_recovery req) d of
             (d', Inl _) \<Rightarrow> (d', Inl (HttpRefuse 500 ''internal_error''))
           | (d', Inr True) \<Rightarrow> (d', Inr True)
           | (d', Inr False) \<Rightarrow>
               (d', Inl (HttpRefuse 401 (if lq_totp req = [] \<and> lq_recovery req = [] then ''totp_required'' else ''unauthorized'')))))"

text \<open>A sign-in up to its session: the account as it was read, and how it signed in.\<close>

definition login_checks ::
  "auth_env \<Rightarrow> faults \<Rightarrow> time \<Rightarrow> login_request \<Rightarrow> auth_db \<Rightarrow> auth_db \<times> (http_err + mailbox_row \<times> string list)" where
  "login_checks env flt now req d =
     (let found = find_mailbox_by_address (ve_names env) flt d (lq_email req);
          box = (case found of Found a \<Rightarrow> Some a | _ \<Rightarrow> None)
      in if found = FindFailed then (d, Inl (HttpRefuse 500 ''internal_error''))
      else case match_password (ve_crypt env) flt now (case box of Some a \<Rightarrow> ua_id a | None \<Rightarrow> 0) (lq_password req) None d of
        (_, d1, Inl _) \<Rightarrow> (d1, Inl (HttpRefuse 500 ''internal_error''))
      | (_, d1, Inr k) \<Rightarrow>
          (case (box, k) of
             (Some a, Some _) \<Rightarrow>
               if \<not> ua_active a then (d1, Inl (HttpRefuse 401 ''unauthorized''))
               else if bootstrap_expired now a then (d1, Inl (HttpRefuse 401 ''bootstrap_expired''))
               else (case enforce_2fa env flt now (ua_id a) req d1 of
                 (d2, Inl e) \<Rightarrow> (d2, Inl e)
               | (d2, Inr verified) \<Rightarrow>
                   (case load_grants env flt now (ua_id a) of
                      Inl _ \<Rightarrow> (d2, Inl (HttpRefuse 500 ''internal_error''))
                    | Inr h \<Rightarrow>
                        if \<not> may_hold_mailbox_session h (ua_address a) \<and> \<not> may_hold_admin_session h
                        then (d2, Inl (HttpRefuse 403 ''access_restricted''))
                        else (d2, Inr (a, sign_in_methods verified))))
           | _ \<Rightarrow> (d1, Inl (HttpRefuse 401 ''unauthorized''))))"

definition token_row :: "nat \<Rightarrow> token_pair \<Rightarrow> refresh_token" where
  "token_row account tp =
     \<lparr>rt_jti = tp_refresh_jti tp, rt_account = account, rt_sid = tp_sid tp, rt_status = TokenActive, rt_expires_at = tp_refresh_expires_at tp\<rparr>"

definition persist_refresh_token :: "faults \<Rightarrow> nat \<Rightarrow> token_pair \<Rightarrow> auth_db \<Rightarrow> auth_err + auth_db" where
  "persist_refresh_token flt account tp d = save_token flt (token_row account tp) d"

type_synonym session_answer = "auth_db \<times> claims list \<times> (http_err + login_response \<times> cookie list)"

text \<open>
  \<open>newSession\<close>, and below the end of a refresh: the database, the tokens that are recorded and so may leave the
  server, and the answer.
\<close>

definition start_session ::
  "auth_env \<Rightarrow> faults \<Rightarrow> time \<Rightarrow> draws \<Rightarrow> mailbox_row \<Rightarrow> bool \<Rightarrow> string list \<Rightarrow> auth_db \<Rightarrow> session_answer" where
  "start_session env flt now dw a native amr d =
     (case load_grants env flt now (ua_id a) of Inl _ \<Rightarrow> (d, [], Inl (HttpRefuse 500 ''internal_error'')) | Inr h \<Rightarrow>
      case account_setup_steps flt d a of Inl _ \<Rightarrow> (d, [], Inl (HttpRefuse 500 ''internal_error'')) | Inr steps \<Rightarrow>
      case generate_session (ve_jwt env) dw now (ua_id a) (ua_address a) (ua_credential_epoch a) amr (steps \<noteq> []) None of
        None \<Rightarrow> (d, [], Inl (HttpRefuse 500 ''internal_error''))
      | Some (tp, ca, cr) \<Rightarrow>
          (case persist_refresh_token flt (ua_id a) tp d of
             Inl _ \<Rightarrow> (d, [], Inl (HttpRefuse 500 ''internal_error''))
           | Inr d' \<Rightarrow>
               (case deliver_session dw now tp native
                       \<lparr>lr_access_token = [], lr_refresh_token = [], lr_expires_in = tp_expires_in tp, lr_refresh_expires_in = 0,
                        lr_capabilities = (if steps \<noteq> [] then [] else global_capabilities h),
                        lr_scoped = (if steps \<noteq> [] then [] else scoped_capabilities h), lr_setup_required = steps,
                        lr_user_id = ua_id a, lr_email = ua_address a, lr_display_name = ua_display_name a\<rparr> of
                  None \<Rightarrow> (d', [ca, cr], Inl (HttpRefuse 500 ''internal_error''))
                | Some answer \<Rightarrow>
                    (if flt WriteLogin then d' else update_account (ua_id a) (ua_last_login_at_update (\<lambda>_. Some now)) d',
                     [ca, cr], Inr answer))))"

definition login :: "auth_env \<Rightarrow> faults \<Rightarrow> time \<Rightarrow> draws \<Rightarrow> login_request \<Rightarrow> auth_db \<Rightarrow> session_answer" where
  "login env flt now dw req d =
     (case login_checks env flt now req d of
        (d', Inl e) \<Rightarrow> (d', [], Inl e)
      | (d', Inr (a, amr)) \<Rightarrow> start_session env flt now dw a (lq_client req = client_native) amr d')"

section \<open>Refreshing and signing out\<close>

definition refresh_checks ::
  "auth_env \<Rightarrow> faults \<Rightarrow> time \<Rightarrow> token_request \<Rightarrow> auth_db \<Rightarrow> auth_db \<times> (http_err + claims \<times> account_state \<times> bool)" where
  "refresh_checks env flt now req d =
     (let (token, native) = presented_refresh_token req in
      if token = [] then (d, Inl (HttpRefuse 401 ''unauthorized''))
      else case validate_refresh_token (ve_jwt env) now token of Inl _ \<Rightarrow> (d, Inl (HttpRefuse 401 ''unauthorized'')) | Inr c \<Rightarrow>
      case read_account_state env flt now (tk_account c) d of Inl _ \<Rightarrow> (d, Inl (HttpRefuse 500 ''internal_error'')) | Inr st \<Rightarrow>
      if \<not> as_active st
      then (if flt RevokeAll then d else revoke_all_for_account (tk_account c) now d, Inl (HttpRefuse 401 ''unauthorized''))
      else if as_epoch st \<noteq> tk_epoch c then (d, Inl (HttpRefuse 401 ''unauthorized''))
      else (d, Inr (c, st, native)))"

definition refresh_rotate :: "faults \<Rightarrow> claims \<Rightarrow> auth_db \<Rightarrow> http_err + auth_db" where
  "refresh_rotate flt c d =
     (case rotate_token flt (tk_jti c) d of
        Inr d' \<Rightarrow> Inr d'
      | Inl RefreshTokenNotFound \<Rightarrow> Inl (HttpRefuse 401 ''unauthorized'')
      | Inl _ \<Rightarrow> Inl (HttpRefuse 500 ''internal_error''))"

definition refresh_issue ::
  "auth_env \<Rightarrow> faults \<Rightarrow> time \<Rightarrow> draws \<Rightarrow> claims \<Rightarrow> account_state \<Rightarrow> bool \<Rightarrow> auth_db \<Rightarrow> session_answer" where
  "refresh_issue env flt now dw c st native d =
     (case generate_session (ve_jwt env) dw now (tk_account c) (as_address st) (as_epoch st) (tk_amr c) (as_setup_pending st)
             (Some (tk_sid c, tk_auth_time c)) of
        None \<Rightarrow> (d, [], Inl (HttpRefuse 500 ''internal_error''))
      | Some (tp, ca, cr) \<Rightarrow>
          (case persist_refresh_token flt (tk_account c) tp d of
             Inl _ \<Rightarrow> (d, [], Inl (HttpRefuse 500 ''internal_error''))
           | Inr d' \<Rightarrow>
               (d', [ca, cr],
                case deliver_session dw now tp native
                       \<lparr>lr_access_token = [], lr_refresh_token = [], lr_expires_in = tp_expires_in tp, lr_refresh_expires_in = 0,
                        lr_capabilities = (if as_setup_pending st then [] else as_capabilities st),
                        lr_scoped = (if as_setup_pending st then [] else as_scoped st),
                        lr_setup_required =
                          (if as_setup_pending st
                           then (if as_setup_required st = [] then [setup_step_password, setup_step_two_factor] else as_setup_required st)
                           else []),
                        lr_user_id = tk_account c, lr_email = as_address st, lr_display_name = as_display_name st\<rparr> of
                  None \<Rightarrow> Inl (HttpRefuse 500 ''internal_error'')
                | Some answer \<Rightarrow> Inr answer)))"

definition refresh :: "auth_env \<Rightarrow> faults \<Rightarrow> time \<Rightarrow> draws \<Rightarrow> token_request \<Rightarrow> auth_db \<Rightarrow> session_answer" where
  "refresh env flt now dw req d =
     (case refresh_checks env flt now req d of
        (d', Inl e) \<Rightarrow> (d', [], Inl e)
      | (d', Inr (c, st, native)) \<Rightarrow>
          (case refresh_rotate flt c d' of Inl e \<Rightarrow> (d', [], Inl e) | Inr d'' \<Rightarrow> refresh_issue env flt now dw c st native d''))"

text \<open>The session whose push devices go with a sign-out is answered too.\<close>

definition logout :: "auth_env \<Rightarrow> faults \<Rightarrow> time \<Rightarrow> token_request \<Rightarrow> auth_db \<Rightarrow> auth_db \<times> string option \<times> (http_err + cookie list)" where
  "logout env flt now req d =
     (let cookies = \<lparr>ck_name = refresh_cookie, ck_value = [], ck_path = auth_path, ck_http_only = True, ck_max_age = -1\<rparr> # clear_session_cookies;
          (token, _) = presented_refresh_token req
      in if token = [] then (d, None, Inr cookies)
         else case validate_refresh_token (ve_jwt env) now token of Inl _ \<Rightarrow> (d, None, Inr cookies) | Inr c \<Rightarrow>
           if tk_jti c = [] then (d, None, Inr cookies)
           else if flt RevokeToken then (d, None, Inl HttpInternal)
           else (revoke_token (tk_jti c) d, Some (tk_sid c), Inr cookies))"

section \<open>Changing and recovering a password\<close>

definition grants_claims_of :: "claims \<Rightarrow> grants_claims" where
  "grants_claims_of c = \<lparr>cl_account = tk_account c, cl_credential_id = tk_credential_id c, cl_credential_kind = tk_credential_kind c,
     cl_two_factor = tk_two_factor c, cl_amr = tk_amr c, cl_auth_time = tk_auth_time c\<rparr>"

definition require_fresh :: "auth_env \<Rightarrow> time \<Rightarrow> claims \<Rightarrow> http_err option" where
  "require_fresh env now c =
     (case require_fresh_two_factor (ve_window env) now (Some (grants_claims_of c)) of
        None \<Rightarrow> None
      | Some ErrTwoFactorRequired \<Rightarrow> Some (HttpRefuse 403 ''two_factor_required'')
      | Some _ \<Rightarrow> Some (HttpRefuse 403 ''recent_two_factor_required''))"

text \<open>Whether this is the forced change of an account that has no second factor yet.\<close>

definition initial_setup :: "faults \<Rightarrow> claims \<Rightarrow> mailbox_row \<Rightarrow> auth_db \<Rightarrow> http_err + bool" where
  "initial_setup flt c a d =
     (if tk_setup_pending c \<and> ua_password_change_required a
      then (case two_factor_get_active flt (ua_id a) d of
              Inr _ \<Rightarrow> Inr False | Inl TwoFactorNotFound \<Rightarrow> Inr True | Inl _ \<Rightarrow> Inl HttpInternal)
      else Inr False)"

definition change_password ::
  "auth_env \<Rightarrow> faults \<Rightarrow> time \<Rightarrow> audit_entry \<Rightarrow> string option \<Rightarrow> claims option \<Rightarrow> string \<Rightarrow> string \<Rightarrow> auth_db
     \<Rightarrow> auth_db \<times> http_err option" where
  "change_password env flt now e draw claims current new d =
     (case claims of None \<Rightarrow> (d, Some (HttpRefuse 401 ''unauthorized'')) | Some c \<Rightarrow>
      if current = [] \<or> new = [] then (d, Some (HttpInvalid [''current_password'', ''new_password'']))
      else if flt ReadAccount then (d, Some HttpInternal)
      else case account_by_id d (tk_account c) of None \<Rightarrow> (d, Some (HttpRefuse 401 ''unauthorized'')) | Some a \<Rightarrow>
      if \<not> ua_active a then (d, Some (HttpRefuse 401 ''unauthorized''))
      else case initial_setup flt c a d of Inl err \<Rightarrow> (d, Some err) | Inr initial \<Rightarrow>
      case (if initial then None else require_fresh env now c) of Some err \<Rightarrow> (d, Some err) | None \<Rightarrow>
      case match_password (ve_crypt env) flt now (ua_id a) current None d of
        (_, d1, Inl _) \<Rightarrow> (d1, Some HttpInternal)
      | (_, d1, Inr None) \<Rightarrow> (d1, Some (HttpRefuse 403 ''invalid_password''))
      | (_, d1, Inr (Some _)) \<Rightarrow>
          if password_too_short new \<or> new = current then (d1, Some (HttpInvalid [''new_password'']))
          else case hash_password (ve_crypt env) new of None \<Rightarrow> (d1, Some HttpInternal) | Some hash \<Rightarrow>
          case choose_password (ve_audit env) flt e draw (ua_id a) hash now d1 of
            Inl _ \<Rightarrow> (d1, Some HttpInternal)
          | Inr d2 \<Rightarrow> (d2, None))"

record recover_request =
  vq_email :: string
  vq_totp :: string
  vq_recovery :: string
  vq_new_password :: string
  vq_client :: string

definition recover_problems :: "recover_request \<Rightarrow> string list" where
  "recover_problems r =
     (if trim_space (vq_email r) = [] then [''email''] else []) @ (if vq_totp r = [] then [''totp_code''] else [])
     @ (if vq_recovery r = [] then [''recovery_code''] else []) @ (if password_too_short (vq_new_password r) then [''new_password''] else [])
     @ (if vq_client r \<noteq> [] \<and> vq_client r \<noteq> client_native then [''client''] else [])"

text \<open>
  A recovery up to its session. \<open>available\<close> is whether the address's budget of refusals is not spent; the flag
  answered is whether this refusal is charged to it. After the change the account is read again.
\<close>

definition recover_checks ::
  "auth_env \<Rightarrow> faults \<Rightarrow> time \<Rightarrow> audit_entry \<Rightarrow> string option \<Rightarrow> bool \<Rightarrow> recover_request \<Rightarrow> auth_db
     \<Rightarrow> auth_db \<times> bool \<times> (http_err + mailbox_row \<times> string list)" where
  "recover_checks env flt now e draw available r d =
     (let refuse = HttpRefuse 401 ''recovery_failed''; failed = HttpRefuse 500 ''internal_error'' in
      if recover_problems r \<noteq> [] then (d, False, Inl (HttpInvalid (recover_problems r)))
      else if \<not> available then (d, False, Inl (HttpRefuse 429 ''rate_limited''))
      else if flt ReadAccount then (d, False, Inl failed)
      else case by_address d (to_lower (trim_space (vq_email r))) of None \<Rightarrow> (d, True, Inl refuse) | Some a \<Rightarrow>
      if \<not> ua_active a then (d, True, Inl refuse)
      else case verify_totp_or_recovery (ve_crypt env) (ve_decrypt env) flt now (ua_id a) (vq_totp r) [] d of
        (d1, Inl _) \<Rightarrow> (d1, False, Inl failed)
      | (d1, Inr False) \<Rightarrow> (d1, True, Inl refuse)
      | (d1, Inr True) \<Rightarrow>
          (case verify_totp_or_recovery (ve_crypt env) (ve_decrypt env) flt now (ua_id a) [] (vq_recovery r) d1 of
             (d2, Inl _) \<Rightarrow> (d2, False, Inl failed)
           | (d2, Inr False) \<Rightarrow> (d2, True, Inl refuse)
           | (d2, Inr True) \<Rightarrow>
               (case hash_password (ve_crypt env) (vq_new_password r) of None \<Rightarrow> (d2, False, Inl failed) | Some hash \<Rightarrow>
                case choose_password (ve_audit env) flt e draw (ua_id a) hash now d2 of
                  Inl _ \<Rightarrow> (d2, False, Inl failed)
                | Inr d3 \<Rightarrow>
                    (if flt RereadAccount then (d3, False, Inl failed)
                     else case account_by_id d3 (ua_id a) of None \<Rightarrow> (d3, False, Inl failed) | Some b \<Rightarrow>
                       (d3, False, Inr (b, sign_in_methods True))))))"

definition recover_account ::
  "auth_env \<Rightarrow> faults \<Rightarrow> time \<Rightarrow> draws \<Rightarrow> audit_entry \<Rightarrow> string option \<Rightarrow> bool \<Rightarrow> recover_request \<Rightarrow> auth_db \<Rightarrow> session_answer" where
  "recover_account env flt now dw e draw available r d =
     (case recover_checks env flt now e draw available r d of
        (d', _, Inl err) \<Rightarrow> (d', [], Inl err)
      | (d', _, Inr (a, amr)) \<Rightarrow> start_session env flt now dw a (vq_client r = client_native) amr d')"

definition redeem_refusal :: "reset_err \<Rightarrow> http_err" where
  "redeem_refusal e =
     (case e of TokenInvalid \<Rightarrow> HttpRefuse 401 ''invalid_token'' | PasswordTooShort \<Rightarrow> HttpInvalid [''password'']
      | _ \<Rightarrow> HttpRefuse 500 ''internal_error'')"

definition reset_account ::
  "auth_env \<Rightarrow> faults \<Rightarrow> time \<Rightarrow> draws \<Rightarrow> audit_entry \<Rightarrow> string option \<Rightarrow> string \<Rightarrow> string \<Rightarrow> string \<Rightarrow> auth_db \<Rightarrow> session_answer" where
  "reset_account env flt now dw e draw client token password d =
     (if client \<noteq> [] \<and> client \<noteq> client_native then (d, [], Inl (HttpInvalid [''client'']))
      else case reset_admin (ve_crypt env) (ve_audit env) flt e draw now token password d of
        (d', Inl err) \<Rightarrow> (d', [], Inl (redeem_refusal err))
      | (d', Inr a) \<Rightarrow> start_session env flt now dw a (client = client_native) [] d')"

section \<open>Managing the second factor\<close>

definition two_factor_owner :: "claims option \<Rightarrow> nat option" where
  "two_factor_owner c =
     (case c of None \<Rightarrow> None | Some k \<Rightarrow> if tk_account k = 0 \<or> tk_credential_id k \<noteq> 0 then None else Some (tk_account k))"

definition two_factor_status :: "faults \<Rightarrow> claims option \<Rightarrow> auth_db \<Rightarrow> http_err + bool \<times> bool" where
  "two_factor_status flt c d =
     (case two_factor_owner c of None \<Rightarrow> Inl (HttpRefuse 401 ''unauthorized'') | Some account \<Rightarrow>
      case two_factor_get flt account d of
        Inl TwoFactorNotFound \<Rightarrow> Inr (False, False)
      | Inl _ \<Rightarrow> Inl HttpInternal
      | Inr k \<Rightarrow> Inr (kr_confirmed_at k \<noteq> None, kr_confirmed_at k = None))"

text \<open>
  \<open>new_secret\<close> is the authenticator's new secret and its encryption with the master key, \<open>None\<close> when either fails;
  \<open>code_reads\<close> are random draws, \<open>public_id\<close> and \<open>ids\<close> those of the credentials' public ids.
\<close>

definition enroll ::
  "auth_env \<Rightarrow> faults \<Rightarrow> time \<Rightarrow> bool \<Rightarrow> (string \<times> string) option \<Rightarrow> nat list list \<Rightarrow> string option \<Rightarrow> (nat \<Rightarrow> string option) \<Rightarrow> claims option \<Rightarrow> auth_db
     \<Rightarrow> auth_db \<times> (http_err + string \<times> string list)" where
  "enroll env flt now enabled new_secret code_reads public_id ids c d =
     (if \<not> enabled then (d, Inl (HttpRefuse 403 ''forbidden''))
      else if ve_decrypt env = None then (d, Inl (HttpRefuse 503 ''unavailable''))
      else case two_factor_owner c of None \<Rightarrow> (d, Inl (HttpRefuse 401 ''unauthorized'')) | Some account \<Rightarrow>
      case (case two_factor_get flt account d of
              Inr k \<Rightarrow> if kr_confirmed_at k \<noteq> None then Some (HttpRefuse 409 ''conflict'') else None
            | Inl TwoFactorNotFound \<Rightarrow> None
            | Inl _ \<Rightarrow> Some HttpInternal) of Some err \<Rightarrow> (d, Inl err) | None \<Rightarrow>
      case new_secret of None \<Rightarrow> (d, Inl HttpInternal) | Some (secret, encrypted) \<Rightarrow>
      case generate_recovery_codes recovery_code_count code_reads of None \<Rightarrow> (d, Inl HttpInternal) | Some codes \<Rightarrow>
      case those (map (hash_recovery_code (ve_crypt env)) codes) of None \<Rightarrow> (d, Inl HttpInternal) | Some hashes \<Rightarrow>
      case two_factor_enroll flt public_id account encrypted (zip hashes (map ids [0..<length hashes])) now d of
        Inl _ \<Rightarrow> (d, Inl HttpInternal)
      | Inr (_, d') \<Rightarrow> (d', Inr (secret, codes)))"

definition confirm ::
  "auth_env \<Rightarrow> faults \<Rightarrow> time \<Rightarrow> bool \<Rightarrow> string \<Rightarrow> claims option \<Rightarrow> auth_db \<Rightarrow> auth_db \<times> http_err option" where
  "confirm env flt now enabled code c d =
     (if \<not> enabled then (d, Some (HttpRefuse 403 ''forbidden''))
      else case two_factor_owner c of None \<Rightarrow> (d, Some (HttpRefuse 401 ''unauthorized'')) | Some account \<Rightarrow>
      if code = [] then (d, Some (HttpInvalid [''totp_code'']))
      else case two_factor_get flt account d of
        Inl TwoFactorNotFound \<Rightarrow> (d, Some (HttpRefuse 400 ''bad_request''))
      | Inl _ \<Rightarrow> (d, Some HttpInternal)
      | Inr k \<Rightarrow>
          if kr_confirmed_at k \<noteq> None then (d, Some (HttpRefuse 409 ''conflict''))
          else case Option.bind (ve_decrypt env) (\<lambda>dec. dec (kr_encrypted_secret k)) of None \<Rightarrow> (d, Some HttpInternal) | Some secret \<Rightarrow>
          if \<not> validate_totp_code (ve_crypt env) now code secret then (d, Some (HttpRefuse 403 ''invalid_totp''))
          else case two_factor_confirm flt (kr_id k) now d of Inl _ \<Rightarrow> (d, Some HttpInternal) | Inr d' \<Rightarrow> (d', None))"

definition disable_two_factor :: "faults \<Rightarrow> nat \<Rightarrow> time \<Rightarrow> auth_db \<Rightarrow> auth_err + auth_db" where
  "disable_two_factor flt account now d =
     (if flt WriteChange then Inl DbFault else Inr (end_sessions account now (two_factor_delete account now d)))"

definition disable_own ::
  "auth_env \<Rightarrow> faults \<Rightarrow> time \<Rightarrow> string \<Rightarrow> string \<Rightarrow> claims option \<Rightarrow> auth_db \<Rightarrow> auth_db \<times> http_err option" where
  "disable_own env flt now totp recovery c d =
     (case (case c of None \<Rightarrow> Some (HttpRefuse 403 ''two_factor_required'') | Some k \<Rightarrow> require_fresh env now k) of
        Some err \<Rightarrow> (d, Some err)
      | None \<Rightarrow>
      case two_factor_owner c of None \<Rightarrow> (d, Some (HttpRefuse 401 ''unauthorized'')) | Some account \<Rightarrow>
      if totp = [] \<and> recovery = [] then (d, Some (HttpInvalid [''totp_code'']))
      else case two_factor_get_active flt account d of
        Inl TwoFactorNotFound \<Rightarrow> (d, Some (HttpRefuse 400 ''bad_request''))
      | Inl _ \<Rightarrow> (d, Some HttpInternal)
      | Inr _ \<Rightarrow>
          (case verify_totp_or_recovery (ve_crypt env) (ve_decrypt env) flt now account totp recovery d of
             (d1, Inl _) \<Rightarrow> (d1, Some HttpInternal)
           | (d1, Inr False) \<Rightarrow>
               (d1, Some (HttpRefuse 403 (if totp = [] then ''invalid_recovery_code'' else ''invalid_totp'')))
           | (d1, Inr True) \<Rightarrow>
               (if flt ReadAccount then (d1, Some HttpInternal)
                else case account_by_id d1 account of None \<Rightarrow> (d1, Some HttpInternal) | Some a \<Rightarrow>
                if ua_two_factor_required a then (d1, Some (HttpRefuse 403 ''two_factor_required''))
                else case disable_two_factor flt account now d1 of Inl _ \<Rightarrow> (d1, Some HttpInternal) | Inr d2 \<Rightarrow> (d2, None))))"

section \<open>Reaching an account\<close>

definition cap_mailbox_manage :: string where "cap_mailbox_manage = ''mailbox:manage''"

definition mailbox_only :: "claims \<Rightarrow> bool" where
  "mailbox_only c \<longleftrightarrow> tk_credential_kind c = kind_app_password"

definition is_scoped_credential :: "claims \<Rightarrow> bool" where
  "is_scoped_credential c \<longleftrightarrow> tk_credential_kind c = kind_api_key \<or> tk_credential_kind c = kind_client_secret"

definition credential_allows :: "claims \<Rightarrow> string \<Rightarrow> string \<Rightarrow> bool" where
  "credential_allows c capability scope \<longleftrightarrow>
     \<not> is_scoped_credential c
     \<or> list_ex (\<lambda>(cap, s). cap = capability \<and> covers s scope
          \<and> (tk_credential_kind c \<noteq> kind_client_secret \<or> client_secret_permission_allowed cap s)) (tk_permissions c)"

definition app_password_holds :: "string \<Rightarrow> bool" where
  "app_password_holds capability \<longleftrightarrow> capability \<in> {''mail:read'', ''mail:write'', cap_mail_import, ''mail:send''}"

definition may_know_of :: "held \<Rightarrow> claims \<Rightarrow> mailbox_row \<Rightarrow> bool" where
  "may_know_of h c a \<longleftrightarrow>
     ua_id a = tk_account c
     \<or> list_ex (\<lambda>cap. allows h cap (scope_of_mailbox (ua_address a)) \<and> credential_allows c cap (scope_of_mailbox (ua_address a)))
         [''mail:read'', ''mail:write'', cap_mail_import, ''mail:send'', ''mail:send_as'', ''mail:send_on_behalf'', cap_mailbox_manage]"

datatype reach_err = NoAccess | NotAllowed | ReachFailed

definition may_reach :: "auth_env \<Rightarrow> faults \<Rightarrow> time \<Rightarrow> claims \<Rightarrow> nat \<Rightarrow> string \<Rightarrow> auth_db \<Rightarrow> reach_err + mailbox_row" where
  "may_reach env flt now c i capability d =
     (if flt ReadAddressed then Inl ReachFailed
      else case account_by_id d i of None \<Rightarrow> Inl NoAccess | Some a \<Rightarrow>
      if mailbox_only c \<and> ua_id a \<noteq> tk_account c then Inl NoAccess
      else if mailbox_only c \<and> \<not> app_password_holds capability then Inl NotAllowed
      else case load_grants env flt now (tk_account c) of Inl _ \<Rightarrow> Inl ReachFailed | Inr h \<Rightarrow>
      let scope = scope_of_mailbox (ua_address a) in
      if mailbox_only c then (if allows h capability scope then Inr a else Inl NotAllowed)
      else if allows h capability scope \<and> credential_allows c capability scope then Inr a
      else if may_know_of h c a then Inl NotAllowed
      else Inl NoAccess)"

section \<open>Making and revoking app passwords\<close>

definition managed_account :: "auth_env \<Rightarrow> faults \<Rightarrow> time \<Rightarrow> claims option \<Rightarrow> nat \<Rightarrow> auth_db \<Rightarrow> http_err + claims" where
  "managed_account env flt now claims i d =
     (case claims of None \<Rightarrow> Inl (HttpRefuse 401 ''unauthorized'') | Some c \<Rightarrow>
      if tk_credential_id c \<noteq> 0 then Inl (HttpRefuse 403 ''forbidden'')
      else case may_reach env flt now c i cap_mailbox_manage d of
        Inl NoAccess \<Rightarrow> Inl (HttpRefuse 404 ''not_found'')
      | Inl NotAllowed \<Rightarrow> Inl (HttpRefuse 403 ''forbidden'')
      | Inl ReachFailed \<Rightarrow> Inl HttpInternal
      | Inr _ \<Rightarrow> Inr c)"

definition max_credential_name_length :: nat where "max_credential_name_length = 100"

definition rune_control :: "nat \<Rightarrow> bool" where
  "rune_control r \<longleftrightarrow> r < 32 \<or> 127 \<le> r \<and> r \<le> 159"

definition check_current_password :: "auth_env \<Rightarrow> faults \<Rightarrow> time \<Rightarrow> nat \<Rightarrow> string \<Rightarrow> auth_db \<Rightarrow> auth_db \<times> http_err option" where
  "check_current_password env flt now account password d =
     (if password = [] then (d, Some (HttpRefuse 403 ''reauth_required''))
      else if flt ReadAccount then (d, Some HttpInternal)
      else let there = (case account_by_id d account of None \<Rightarrow> False | Some a \<Rightarrow> ua_active a) in
      case match_password (ve_crypt env) flt now (if there then account else 0) password None d of
        (_, d1, Inl _) \<Rightarrow> (d1, Some HttpInternal)
      | (_, d1, Inr k) \<Rightarrow> (d1, if k = None \<or> \<not> there then Some (HttpRefuse 403 ''invalid_password'') else None))"

text \<open>
  Making an app password up to the insert, and the insert: the check of the current password is not in its transaction.
\<close>

definition app_password_checks ::
  "auth_env \<Rightarrow> faults \<Rightarrow> time \<Rightarrow> claims option \<Rightarrow> nat \<Rightarrow> string \<Rightarrow> time option \<Rightarrow> string \<Rightarrow> auth_db \<Rightarrow> auth_db \<times> (http_err + claims)" where
  "app_password_checks env flt now claims i name0 expires password d =
     (case (case claims of None \<Rightarrow> Some (HttpRefuse 403 ''two_factor_required'') | Some c \<Rightarrow> require_fresh env now c) of
        Some err \<Rightarrow> (d, Inl err)
      | None \<Rightarrow>
      case managed_account env flt now claims i d of Inl err \<Rightarrow> (d, Inl err) | Inr c \<Rightarrow>
      let name = trim_space name0 in
      if name = [] \<or> max_credential_name_length < length (runes name) \<or> list_ex rune_control (runes name) then (d, Inl (HttpInvalid [''name'']))
      else if (case expires of None \<Rightarrow> False | Some t \<Rightarrow> t \<le> now) then (d, Inl (HttpInvalid [''expires_at'']))
      else case check_current_password env flt now (tk_account c) password d of
        (d1, Some err) \<Rightarrow> (d1, Inl err)
      | (d1, None) \<Rightarrow> (d1, Inr c))"

definition make_app_password ::
  "auth_env \<Rightarrow> faults \<Rightarrow> time \<Rightarrow> nat list list list \<Rightarrow> claims option \<Rightarrow> nat \<Rightarrow> string \<Rightarrow> time option \<Rightarrow> string \<Rightarrow> auth_db
     \<Rightarrow> auth_db \<times> (http_err + credential \<times> string)" where
  "make_app_password env flt now draws claims i name expires password d =
     (case app_password_checks env flt now claims i name expires password d of
        (d1, Inl err) \<Rightarrow> (d1, Inl err)
      | (d1, Inr c) \<Rightarrow>
          (case create_app_password (ve_crypt env) flt draws i (tk_account c) (trim_space name) expires d1 of
             Inl _ \<Rightarrow> (d1, Inl HttpInternal)
           | Inr (made, d2) \<Rightarrow> (d2, Inr made)))"

definition revoke_own_app_password ::
  "auth_env \<Rightarrow> faults \<Rightarrow> time \<Rightarrow> claims option \<Rightarrow> nat \<Rightarrow> nat \<Rightarrow> auth_db \<Rightarrow> auth_db \<times> http_err option" where
  "revoke_own_app_password env flt now claims i credential d =
     (case require_two_factor (map_option grants_claims_of claims) of Some _ \<Rightarrow> (d, Some (HttpRefuse 403 ''two_factor_required'')) | None \<Rightarrow>
      case managed_account env flt now claims i d of Inl err \<Rightarrow> (d, Some err) | Inr _ \<Rightarrow>
      if flt WriteCredential then (d, Some HttpInternal)
      else case revoke_app_password i credential now d of
        Inl CredentialNotFound \<Rightarrow> (d, Some (HttpRefuse 404 ''not_found''))
      | Inl _ \<Rightarrow> (d, Some HttpInternal)
      | Inr d' \<Rightarrow> (d', None))"

section \<open>An installation with one administrator\<close>

text \<open>Tokens are their type and jti; the second refresh of the samples parses to what \<open>claims_of\<close> answers.\<close>

definition auth_sample_env :: "(string \<Rightarrow> claims option) \<Rightarrow> auth_env" where
  "auth_sample_env claims_of =
     \<lparr>ve_crypt = sample_crypt, ve_names = sample_names,
      ve_jwt = \<lparr>je_sign = (\<lambda>c. Some (tk_type c @ ''.'' @ tk_jti c)),
        je_parse = (\<lambda>now t. case claims_of t of Some c \<Rightarrow> Inr c | None \<Rightarrow> Inl JwtInvalid),
        je_access_expiry = 15 * minute, je_refresh_expiry = 7 * 24 * hour, je_issuer = token_issuer\<rparr>,
      ve_audit = sample_audit_env, ve_decrypt = Some Some, ve_override = None,
      ve_grants = sample_grants, ve_window = None\<rparr>"

definition auth_sample_login :: login_request where
  "auth_sample_login = \<lparr>lq_email = ''Root@a.example'', lq_password = ''correct horse'', lq_totp = ''123456'', lq_recovery = [], lq_client = client_native\<rparr>"

definition sample_draws :: "string \<Rightarrow> draws" where
  "sample_draws x = \<lparr>dw_sid = Some (''s'' @ x), dw_access = Some (''a'' @ x), dw_refresh = Some (''r'' @ x), dw_csrf = Some (''c'' @ x)\<rparr>"

lemma sample_login_checks:
  "login_checks (auth_sample_env f) no_faults second auth_sample_login sample_auth_db = (sample_auth_db, Inr (sample_account, [amr_password, amr_otp]))"
  by code_simp

section \<open>Signing in takes every factor\<close>

lemma match_first_matches:
  "match_first ce flt now p ks d = (d', Inr (Some k)) \<Longrightarrow> \<exists>x\<in>set ks. check_password ce p (kr_secret_hash x)"
  by (induction ks) (auto split: if_splits)

text \<open>What is left of a table of credentials when their hashes are covered up: matching a password changes nothing of it.\<close>

definition unhashed :: "auth_db \<Rightarrow> credential list" where
  "unhashed d = map (kr_secret_hash_update (\<lambda>_. [])) (ab_credentials d)"

lemma unhashed_upgrade: "unhashed (fst (upgrade_hash ce flt now p k d)) = unhashed d"
  by (auto simp: unhashed_def upgrade_hash_def update_where_def split: option.splits)

lemma unhashed_match_first: "unhashed (fst (match_first ce flt now p ks d)) = unhashed d"
  by (induction ks) (auto simp: unhashed_upgrade)

lemma unhashed_match_password: "match_password ce flt now i p None d = (m, d', r) \<Longrightarrow> unhashed d' = unhashed d"
  using unhashed_match_first [of ce flt now p "passwords i now d" d] by (auto simp: match_password_def Let_def split: if_splits)

lemma unhashed_ids: "unhashed d' = unhashed d \<Longrightarrow> kr_public_id ` set (ab_credentials d') = kr_public_id ` set (ab_credentials d)"
proof -
  have "kr_public_id ` set (ab_credentials d) = kr_public_id ` set (unhashed d)" for d by (simp add: unhashed_def image_image)
  then show "unhashed d' = unhashed d \<Longrightarrow> kr_public_id ` set (ab_credentials d') = kr_public_id ` set (ab_credentials d)" by simp
qed

lemma created_app_password_from:
  "create_app_password_from ce flt draws tries i maker name expires d = Inr ((k, secret), d') \<Longrightarrow>
     kr_account k = i \<and> kr_kind k = kind_app_password \<and> kr_scope k = app_password_scope i \<and> kr_public_id k \<notin> kr_public_id ` set (ab_credentials d)"
  by (induction ce flt draws tries i maker name expires d rule: create_app_password_from.induct)
    (auto simp: insert_credential_def blank_credential_def Let_def split: option.splits if_splits prod.splits)

lemma created_app_password:
  "create_app_password ce flt draws i maker name expires d = Inr ((k, secret), d') \<Longrightarrow>
     kr_account k = i \<and> kr_kind k = kind_app_password \<and> kr_scope k = app_password_scope i \<and> kr_public_id k \<notin> kr_public_id ` set (ab_credentials d)"
  unfolding create_app_password_def by (rule created_app_password_from)

lemma match_password_matches:
  assumes "match_password ce flt now i p None d = (m, d', Inr (Some k))"
  shows "unhashed d' = unhashed d \<and> (\<exists>x\<in>set (passwords i now d). check_password ce p (kr_secret_hash x))"
proof -
  have "match_first ce flt now p (passwords i now d) d = (d', Inr (Some k))"
    using assms by (auto simp: match_password_def Let_def split: if_splits)
  then show ?thesis using unhashed_match_first [of ce flt now p "passwords i now d" d] match_first_matches by fastforce
qed

lemma has_two_factor_unhashed: "has_two_factor i d \<longleftrightarrow> list_ex (confirmed_totp i) (unhashed d)"
  by (simp add: has_two_factor_def unhashed_def list_ex_iff confirmed_totp_def)

definition totp_proven :: "auth_env \<Rightarrow> time \<Rightarrow> nat \<Rightarrow> string \<Rightarrow> auth_db \<Rightarrow> bool" where
  "totp_proven env now i code d \<longleftrightarrow>
     (\<exists>k\<in>set (ab_credentials d). \<exists>dec secret. confirmed_totp i k \<and> ve_decrypt env = Some dec
        \<and> dec (kr_encrypted_secret k) = Some secret \<and> validate_totp_code (ve_crypt env) now code secret)"

definition code_spent :: "auth_env \<Rightarrow> time \<Rightarrow> nat \<Rightarrow> string \<Rightarrow> auth_db \<Rightarrow> bool" where
  "code_spent env now i code d \<longleftrightarrow>
     (\<exists>k\<in>set (ab_credentials d). kr_account k = i \<and> kr_kind k = kind_recovery_code \<and> kr_revoked_at k = Some now
        \<and> check_recovery_code (ve_crypt env) code (kr_secret_hash k))"

lemma totp_proven_unhashed: "unhashed d' = unhashed d \<Longrightarrow> totp_proven env now i code d' \<Longrightarrow> totp_proven env now i code d"
proof -
  have "totp_proven env now i code d \<longleftrightarrow>
     (\<exists>k\<in>set (unhashed d). \<exists>dec secret. confirmed_totp i k \<and> ve_decrypt env = Some dec
        \<and> dec (kr_encrypted_secret k) = Some secret \<and> validate_totp_code (ve_crypt env) now code secret)" for d
    by (simp add: totp_proven_def unhashed_def confirmed_totp_def)
  then show "unhashed d' = unhashed d \<Longrightarrow> totp_proven env now i code d' \<Longrightarrow> totp_proven env now i code d" by simp
qed

lemma try_totp_sound:
  "try_totp ce dec now code ks u = Inr b \<Longrightarrow>
     \<exists>k\<in>set ks. \<exists>f s. dec = Some f \<and> f (kr_encrypted_secret k) = Some s \<and> validate_totp_code ce now code s"
  by (induction ks arbitrary: u) (auto split: option.splits if_splits)

lemma consume_spends:
  assumes "consume_recovery_code (ve_crypt env) flt now i code d = (d', Inr True)" shows "code_spent env now i code d'"
proof -
  obtain k where k: "matching_code (ve_crypt env) i code d = Some k" "spend_code (kr_id k) now d = (d', True)"
    using assms by (auto simp: consume_recovery_code_def split: if_splits option.splits prod.splits)
  then have m: "k \<in> set (ab_credentials d)" "kr_account k = i" "kr_kind k = kind_recovery_code" "kr_revoked_at k = None"
    "check_recovery_code (ve_crypt env) code (kr_secret_hash k)"
    by (auto simp: matching_code_def unspent_codes_def find_Some_iff dest: nth_mem)
  then have "k\<lparr>kr_revoked_at := Some now, kr_last_used_at := Some now\<rparr> \<in> set (ab_credentials d')"
    using k(2) by (force simp: spend_code_def set_update_where spendable_def)
  then show ?thesis unfolding code_spent_def by (rule bexI [rotated]) (use m in simp)
qed

lemma verify_sound:
  assumes "verify_totp_or_recovery (ve_crypt env) (ve_decrypt env) flt now i totp recovery d = (d', Inr True)"
  shows "totp_proven env now i totp d \<or> code_spent env now i recovery d'"
proof (cases "totp \<noteq> [] \<and> (\<exists>b. try_totp (ve_crypt env) (ve_decrypt env) now totp (two_factor_active i d) False = Inr b)")
  case True
  then show ?thesis using try_totp_sound by (fastforce simp: totp_proven_def two_factor_active_def)
next
  case False
  then have "consume_recovery_code (ve_crypt env) flt now i recovery d = (d', Inr True)"
    using assms by (auto simp: verify_totp_or_recovery_def Let_def split: if_splits sum.splits prod.splits bool.splits)
  then show ?thesis using consume_spends by blast
qed

lemma newest_None: "newest p d = None \<Longrightarrow> filter p (ab_credentials d) = []"
proof -
  assume "newest p d = None"
  then have "sort_key kr_id (filter p (ab_credentials d)) = []" by (simp add: newest_def split: list.splits)
  then have "set (sort_key kr_id (filter p (ab_credentials d))) = {}" by (simp only: list.set)
  then show "filter p (ab_credentials d) = []" by simp
qed

lemma two_factor_get_active_iff: "two_factor_get_active flt i d = Inl TwoFactorNotFound \<Longrightarrow> \<not> has_two_factor i d"
  using newest_None [of "confirmed_totp i" d]
  by (auto simp: two_factor_get_active_def has_two_factor_def list_ex_iff filter_empty_conv split: if_splits option.splits)

lemma enforce_2fa_sound:
  assumes "enforce_2fa env flt now i req d = (d', Inr verified)"
  shows "verified \<and> (totp_proven env now i (lq_totp req) d \<or> code_spent env now i (lq_recovery req) d') \<or> \<not> verified \<and> \<not> has_two_factor i d"
  using assms verify_sound [of env flt now i "lq_totp req" "lq_recovery req" d d'] two_factor_get_active_iff [of flt i d]
  by (auto simp: enforce_2fa_def split: sum.splits auth_err.splits prod.splits bool.splits)

text \<open>
  C8: A sign-in takes every factor the account has. When the checks of a sign-in let it through, the account the address names
  is active and its setup has not lapsed, one of its usable passwords matches what was typed, and it holds a grant that lets
  it keep a session; if it has a second factor, the session is marked as signed in with one, and a code of a confirmed
  authenticator was right or a recovery code that matches has just been spent.\<close>

theorem sign_in_needs_every_factor:
  assumes "login_checks env flt now req d = (d', Inr (a, amr))"
  shows "find_mailbox_by_address (ve_names env) flt d (lq_email req) = Found a \<and> ua_active a \<and> \<not> bootstrap_expired now a
    \<and> (\<exists>k\<in>set (passwords (ua_id a) now d). check_password (ve_crypt env) (lq_password req) (kr_secret_hash k))
    \<and> (\<exists>h. load_grants env flt now (ua_id a) = Inr h \<and> (may_hold_mailbox_session h (ua_address a) \<or> may_hold_admin_session h))
    \<and> (if amr_otp \<in> set amr
       then totp_proven env now (ua_id a) (lq_totp req) d \<or> code_spent env now (ua_id a) (lq_recovery req) d'
       else \<not> has_two_factor (ua_id a) d)"
proof -
  obtain m d1 k verified h where f: "find_mailbox_by_address (ve_names env) flt d (lq_email req) = Found a" "ua_active a" "\<not> bootstrap_expired now a"
    and mp: "match_password (ve_crypt env) flt now (ua_id a) (lq_password req) None d = (m, d1, Inr (Some k))"
    and e: "enforce_2fa env flt now (ua_id a) req d1 = (d', Inr verified)" "amr = sign_in_methods verified"
    and h: "load_grants env flt now (ua_id a) = Inr h" "may_hold_mailbox_session h (ua_address a) \<or> may_hold_admin_session h"
    using assms by (auto simp: login_checks_def Let_def split: found.splits if_splits sum.splits prod.splits option.splits)
  have "amr_otp \<in> set amr \<longleftrightarrow> verified" by (simp add: e(2) sign_in_methods_def amr_password_def amr_otp_def)
  then show ?thesis
    using f h match_password_matches [OF mp] enforce_2fa_sound [OF e(1)] totp_proven_unhashed has_two_factor_unhashed by metis
qed

theorem sign_in_needs_every_factor_witness:
  "\<exists>env d' amr. login_checks env no_faults second auth_sample_login sample_auth_db = (d', Inr (sample_account, amr)) \<and> amr_otp \<in> set amr
     \<and> (totp_proven env second 1 ''123456'' sample_auth_db \<or> code_spent env second 1 [] d')"
proof -
  have "amr_otp \<in> set [amr_password, amr_otp]" by simp
  then show ?thesis
    using sign_in_needs_every_factor [OF sample_login_checks [of "\<lambda>_. None"]] sample_login_checks [of "\<lambda>_. None"]
    by (fastforce simp: auth_sample_login_def sample_account_def)
qed

section \<open>App passwords are made by people\<close>

lemma check_current_password_matches:
  assumes "check_current_password env flt now i password d = (d', None)"
  shows "\<exists>a. account_by_id d i = Some a \<and> ua_active a \<and> (\<exists>k\<in>set (passwords i now d). check_password (ve_crypt env) password (kr_secret_hash k))"
proof -
  obtain a m k where "account_by_id d i = Some a" "ua_active a" "match_password (ve_crypt env) flt now i password None d = (m, d', Inr (Some k))"
    using assms by (auto simp: check_current_password_def Let_def split: if_splits prod.splits sum.splits option.splits)
  then show ?thesis using match_password_matches by blast
qed

lemma may_reach_allowed:
  assumes "may_reach env flt now c i capability d = Inr a"
  shows "account_by_id d i = Some a \<and> (\<exists>h. load_grants env flt now (tk_account c) = Inr h \<and> allows h capability (scope_of_mailbox (ua_address a)))
    \<and> credential_allows c capability (scope_of_mailbox (ua_address a)) \<and> (mailbox_only c \<longrightarrow> ua_id a = tk_account c \<and> app_password_holds capability)"
  using assms
  by (auto simp: may_reach_def Let_def mailbox_only_def credential_allows_def is_scoped_credential_def kind_defs split: if_splits option.splits sum.splits)

text \<open>
  C14: An app password is made by a person who may manage the mailbox, and who knows the password now. When one is made, the
  request came from a session and not from a credential, a second factor of it is recent, its account holds mailbox:manage on
  the mailbox in the grants at that moment, and the account is active and one of its usable passwords is the one entered
  again; the new credential is of that mailbox, reaches mail only, and had no public id in use.\<close>

theorem app_passwords_made_by_people:
  assumes "make_app_password env flt now draws claims i name expires password d = (d', Inr (k, secret))"
  shows "\<exists>c a b h. claims = Some c \<and> tk_credential_id c = 0 \<and> require_fresh env now c = None
    \<and> account_by_id d i = Some a \<and> load_grants env flt now (tk_account c) = Inr h \<and> allows h cap_mailbox_manage (scope_of_mailbox (ua_address a))
    \<and> account_by_id d (tk_account c) = Some b \<and> ua_active b
    \<and> (\<exists>x\<in>set (passwords (tk_account c) now d). check_password (ve_crypt env) password (kr_secret_hash x))
    \<and> kr_account k = i \<and> kr_kind k = kind_app_password \<and> kr_scope k = app_password_scope i \<and> kr_public_id k \<notin> kr_public_id ` set (ab_credentials d)"
proof -
  obtain d1 c where checks: "app_password_checks env flt now claims i name expires password d = (d1, Inr c)"
    and made: "create_app_password (ve_crypt env) flt draws i (tk_account c) (trim_space name) expires d1 = Inr ((k, secret), d')"
    using assms by (auto simp: make_app_password_def split: prod.splits sum.splits)
  have c: "claims = Some c" "require_fresh env now c = None" "managed_account env flt now (Some c) i d = Inr c"
    "check_current_password env flt now (tk_account c) password d = (d1, None)"
    using checks by (auto simp: app_password_checks_def managed_account_def Let_def split: if_splits option.splits sum.splits prod.splits reach_err.splits)
  obtain a where a: "tk_credential_id c = 0" "may_reach env flt now c i cap_mailbox_manage d = Inr a"
    using c(3) by (auto simp: managed_account_def split: if_splits sum.splits reach_err.splits)
  have "unhashed d1 = unhashed d"
    using c(4) unhashed_match_password by (auto simp: check_current_password_def Let_def split: if_splits prod.splits sum.splits)
  then have ids: "kr_public_id ` set (ab_credentials d1) = kr_public_id ` set (ab_credentials d)" by (rule unhashed_ids)
  show ?thesis
    using c a may_reach_allowed [OF a(2)] check_current_password_matches [OF c(4)] created_app_password [OF made] ids by metis
qed

definition auth_sample_session :: claims where
  "auth_sample_session = session_claims (ve_jwt (auth_sample_env (\<lambda>_. None))) second 1 ''root@a.example'' 0 [amr_password, amr_otp] False None
     ''s1'' ''a1'' token_access (second + 15 * minute)"

lemma sample_app_password_checks:
  "app_password_checks (auth_sample_env f) no_faults minute (Some auth_sample_session) 1 '' phone'' None ''correct horse'' sample_auth_db
     = (sample_auth_db, Inr auth_sample_session)"
  by code_simp

theorem app_passwords_made_by_people_witness:
  "\<exists>env draws k secret d'. make_app_password env no_faults minute draws (Some auth_sample_session) 1 '' phone'' None ''correct horse'' sample_auth_db = (d', Inr (k, secret))
     \<and> kr_kind k = kind_app_password \<and> kr_account k = 1 \<and> require_fresh env minute auth_sample_session = None"
proof -
  let ?made = "make_app_password (auth_sample_env (\<lambda>_. None)) no_faults minute [sample_reads] (Some auth_sample_session) 1 '' phone'' None ''correct horse'' sample_auth_db"
  have "\<not> isl (create_app_password sample_crypt no_faults [sample_reads] 1 1 (trim_space '' phone'') None sample_auth_db)" by code_simp
  then obtain k secret d' where "create_app_password sample_crypt no_faults [sample_reads] 1 1 (trim_space '' phone'') None sample_auth_db = Inr ((k, secret), d')"
    by (metis isl_def prod.collapse sum.exhaust)
  moreover have "tk_account auth_sample_session = 1" by (simp add: auth_sample_session_def session_claims_def)
  moreover have "ve_crypt (auth_sample_env (\<lambda>_. None)) = sample_crypt" by (simp add: auth_sample_env_def)
  ultimately have m: "?made = (d', Inr (k, secret))"
    by (simp add: make_app_password_def sample_app_password_checks del: One_nat_def)
  from app_passwords_made_by_people [OF this] m show ?thesis by blast
qed

text \<open>
  The password is checked before the insert and in no transaction with it. A change of password that commits between the two
  revokes the app passwords there are, and the one made with the old password comes after and stays.\<close>

theorem app_password_outlives_change:
  "\<exists>k secret d. app_password_checks (auth_sample_env f) no_faults minute (Some auth_sample_session) 1 '' phone'' None ''correct horse'' sample_auth_db
       = (sample_auth_db, Inr auth_sample_session)
     \<and> choose_password sample_audit_env no_faults blank_entry (Some ''fresh'') 1 ''new'' second sample_auth_db = Inr chosen_db
     \<and> create_app_password sample_crypt no_faults [sample_reads] 1 1 ''phone'' None chosen_db = Inr ((k, secret), d)
     \<and> credential_usable minute k"
proof -
  have "ab_credentials chosen_db = ab_credentials (snd (revoke_kinds 1 second machine_kinds
      (projr (set_password no_faults (Some ''fresh'') 1 ''new'' (Some 1) second (update_account 1 (password_columns second) sample_auth_db)))))"
    by (rule choose_password_parts [OF sample_choose]) (metis end_sessions_sel sum.sel(2))
  moreover have "''ABCDEFGHIJKL'' \<notin> kr_public_id ` set (ab_credentials (snd (revoke_kinds 1 second machine_kinds
      (projr (set_password no_faults (Some ''fresh'') 1 ''new'' (Some 1) second (update_account 1 (password_columns second) sample_auth_db))))))"
    by code_simp
  ultimately have fresh: "''ABCDEFGHIJKL'' \<notin> kr_public_id ` set (ab_credentials chosen_db)" by simp
  have "map_option (fst \<circ> snd) (new_app_password sample_crypt sample_reads) = Some ''ABCDEFGHIJKL''" by code_simp
  then obtain password hash where "new_app_password sample_crypt sample_reads = Some (password, ''ABCDEFGHIJKL'', hash)" by auto
  then show ?thesis
    using fresh sample_app_password_checks [of f] sample_choose
    by (auto simp: create_app_password_def insert_credential_def no_faults_def blank_credential_def credential_usable_def unexpired_at_def Let_def)
qed

end
