(* ===== verification/Auth_System.thy ===== *)
theory Auth_System
  imports Auth_Sessions "HOL-Library.Multiset"
begin

text \<open>
  Any number of sign-ins, refreshes, sign-outs, changes of password and ends of sessions at once, over one database.
  A request that has read the account, or rotated its token, and not yet finished is a flight. The other
  changes the server makes to accounts and credentials are the step \<open>other\<close>: it creates, edits and deletes accounts
  but never takes an epoch back, reuses no account id and leaves the refresh tokens alone. \<open>sx_issued\<close>, the tickets and
  \<open>sx_sessions\<close> record the history: the tokens that may have left the server, and for each session the place of its
  sign-in among all sign-ins, when its tokens were made and with which methods.

  A JWT is presented as a string; that only strings the server signed parse is the guard \<open>genuine\<close>. Sids are
  128 random bits, so a new one differs from those before it.
\<close>

datatype session_flight =
    SigningIn nat mailbox_row "string list"
  | Refreshing claims account_state
  | Rotated claims account_state

record session_system =
  sx_db :: auth_db
  sx_issued :: "claims list"
  sx_flights :: "session_flight multiset"
  sx_next :: nat
  sx_sessions :: "(string \<times> nat \<times> time \<times> string list) list"

definition sids :: "session_system \<Rightarrow> string set" where
  "sids s = fst ` set (sx_sessions s)"

fun flight_account :: "session_flight \<Rightarrow> nat" where
  "flight_account (SigningIn t a amr) = ua_id a"
| "flight_account (Refreshing c st) = tk_account c"
| "flight_account (Rotated c st) = tk_account c"

definition accounts_used :: "session_system \<Rightarrow> nat set" where
  "accounts_used s = tk_account ` set (sx_issued s) \<union> flight_account ` set_mset (sx_flights s)"

definition genuine :: "auth_env \<Rightarrow> time \<Rightarrow> token_request \<Rightarrow> claims list \<Rightarrow> bool" where
  "genuine env now req issued \<longleftrightarrow>
     (\<forall>c. je_parse (ve_jwt env) now (fst (presented_refresh_token req)) = Inr c \<longrightarrow> c \<in> set issued)"

definition begin_sign_in :: "'e + mailbox_row \<times> string list \<Rightarrow> session_system \<Rightarrow> session_system" where
  "begin_sign_in r s =
     (case r of Inl _ \<Rightarrow> s
      | Inr (a, amr) \<Rightarrow> s\<lparr>sx_flights := add_mset (SigningIn (sx_next s) a amr) (sx_flights s), sx_next := sx_next s + 1\<rparr>)"

definition begin_refresh :: "'e + claims \<times> account_state \<times> bool \<Rightarrow> session_system \<Rightarrow> session_system" where
  "begin_refresh r s =
     (case r of Inl _ \<Rightarrow> s | Inr (c, st, _) \<Rightarrow> s\<lparr>sx_flights := add_mset (Refreshing c st) (sx_flights s)\<rparr>)"

text \<open>
  What the step \<open>other\<close> may do to accounts: an account that was there keeps its id and its epoch does not fall, and
  one that was not has an id no token names.
\<close>

definition accounts_move :: "nat set \<Rightarrow> auth_db \<Rightarrow> auth_db \<Rightarrow> bool" where
  "accounts_move used d d' \<longleftrightarrow>
     distinct (map ua_id (ab_accounts d')) \<and>
     (\<forall>a'\<in>set (ab_accounts d'). ua_id a' \<notin> used
        \<or> (\<exists>a\<in>set (ab_accounts d). ua_id a = ua_id a' \<and> ua_credential_epoch a \<le> ua_credential_epoch a'))"

inductive session_step :: "auth_env \<Rightarrow> session_system \<Rightarrow> session_system \<Rightarrow> bool" for env :: auth_env where
  login: "login_checks env flt now req (sx_db s) = (d, r) \<Longrightarrow> session_step env s (begin_sign_in r (s\<lparr>sx_db := d\<rparr>))"
| recover: "recover_checks env flt now e draw available rr (sx_db s) = (d, spent, r) \<Longrightarrow>
    session_step env s (begin_sign_in r (s\<lparr>sx_db := d\<rparr>))"
| reset: "reset_admin (ve_crypt env) (ve_audit env) flt e draw now token password (sx_db s) = (d, r) \<Longrightarrow>
    session_step env s (begin_sign_in (map_sum id (\<lambda>a. (a, [])) r) (s\<lparr>sx_db := d\<rparr>))"
| signed_in: "sx_flights s = add_mset (SigningIn t a amr) fs \<Longrightarrow>
    start_session env flt now dw a native amr (sx_db s) = (d, new, answer) \<Longrightarrow>
    (\<forall>sid. dw_sid dw = Some sid \<longrightarrow> sid \<notin> sids s) \<Longrightarrow>
    session_step env s (s\<lparr>sx_db := d, sx_issued := new @ sx_issued s, sx_flights := fs,
      sx_sessions := map (\<lambda>c. (tk_sid c, t, now, amr)) (take 1 new) @ sx_sessions s\<rparr>)"
| refresh_read: "genuine env now tq (sx_issued s) \<Longrightarrow> refresh_checks env flt now tq (sx_db s) = (d, r) \<Longrightarrow>
    session_step env s (begin_refresh r (s\<lparr>sx_db := d\<rparr>))"
| refresh_refused: "sx_flights s = add_mset (Refreshing c st) fs \<Longrightarrow> refresh_rotate flt c (sx_db s) = Inl err \<Longrightarrow>
    session_step env s (s\<lparr>sx_flights := fs\<rparr>)"
| refresh_rotated: "sx_flights s = add_mset (Refreshing c st) fs \<Longrightarrow> refresh_rotate flt c (sx_db s) = Inr d \<Longrightarrow>
    session_step env s (s\<lparr>sx_db := d, sx_flights := add_mset (Rotated c st) fs\<rparr>)"
| refreshed: "sx_flights s = add_mset (Rotated c st) fs \<Longrightarrow>
    refresh_issue env flt now dw c st native (sx_db s) = (d, new, answer) \<Longrightarrow>
    session_step env s (s\<lparr>sx_db := d, sx_issued := new @ sx_issued s, sx_flights := fs\<rparr>)"
| logout: "logout env flt now tq (sx_db s) = (d, devices, r) \<Longrightarrow> session_step env s (s\<lparr>sx_db := d\<rparr>)"
| change: "change_password env flt now e draw c current new (sx_db s) = (d, r) \<Longrightarrow> session_step env s (s\<lparr>sx_db := d\<rparr>)"
| disable: "disable_own env flt now totp recovery c (sx_db s) = (d, r) \<Longrightarrow> session_step env s (s\<lparr>sx_db := d\<rparr>)"
| end_all: "session_step env s (s\<lparr>sx_db := end_sessions i now (sx_db s)\<rparr>)"
| revoke_all: "session_step env s (s\<lparr>sx_db := fst (revoke_all_sessions (sx_db s))\<rparr>)"
| operator: "reset_password (ve_crypt env) (ve_audit env) flt e draw now address password (sx_db s) = (d, r) \<Longrightarrow>
    session_step env s (s\<lparr>sx_db := d\<rparr>)"
| other: "accounts_move (accounts_used s) (sx_db s) d \<Longrightarrow> ab_tokens d = ab_tokens (sx_db s) \<Longrightarrow> session_step env s (s\<lparr>sx_db := d\<rparr>)"

definition session_start :: "session_system \<Rightarrow> bool" where
  "session_start s \<longleftrightarrow> distinct (map ua_id (ab_accounts (sx_db s))) \<and> ab_tokens (sx_db s) = [] \<and> sx_issued s = [] \<and> sx_flights s = {#} \<and> sx_next s = 0 \<and> sx_sessions s = []"

section \<open>Requests that issue nothing\<close>

text \<open>What every request but the last part of a sign-in or a refresh does: it lets epochs rise and tokens fall.\<close>

definition account_rises :: "mailbox_row \<Rightarrow> mailbox_row \<Rightarrow> bool" where
  "account_rises a a' \<longleftrightarrow> ua_id a' = ua_id a \<and> ua_credential_epoch a \<le> ua_credential_epoch a'"

definition token_falls :: "refresh_token \<Rightarrow> refresh_token \<Rightarrow> bool" where
  "token_falls t t' \<longleftrightarrow>
     rt_jti t' = rt_jti t \<and> rt_sid t' = rt_sid t \<and> (rt_status t' = TokenActive \<longrightarrow> rt_status t = TokenActive)"

definition quiet :: "auth_db \<Rightarrow> auth_db \<Rightarrow> bool" where
  "quiet d d' \<longleftrightarrow> list_all2 account_rises (ab_accounts d) (ab_accounts d') \<and> list_all2 token_falls (ab_tokens d) (ab_tokens d')"

lemma account_rises_refl [simp]: "account_rises a a"
  by (simp add: account_rises_def)

lemma token_falls_refl [simp]: "token_falls t t"
  by (simp add: token_falls_def)

lemma quiet_same: "ab_accounts d' = ab_accounts d \<Longrightarrow> ab_tokens d' = ab_tokens d \<Longrightarrow> quiet d d'"
  by (simp add: quiet_def list_all2_refl)

lemma quiet_refl [simp]: "quiet d d"
  by (rule quiet_same) simp_all

lemma account_rises_trans: "account_rises a b \<Longrightarrow> account_rises b c \<Longrightarrow> account_rises a c"
  by (simp add: account_rises_def)

lemma token_falls_trans: "token_falls a b \<Longrightarrow> token_falls b c \<Longrightarrow> token_falls a c"
  by (simp add: token_falls_def)

lemma all2_trans: "(\<And>a b c. P a b \<Longrightarrow> P b c \<Longrightarrow> P a c) \<Longrightarrow> list_all2 P xs ys \<Longrightarrow> list_all2 P ys zs \<Longrightarrow> list_all2 P xs zs"
  by (rule list_all2_trans)

lemma quiet_trans [trans]: "quiet d d' \<Longrightarrow> quiet d' d'' \<Longrightarrow> quiet d d''"
  unfolding quiet_def by (metis (no_types) account_rises_trans all2_trans [of account_rises] all2_trans [of token_falls] token_falls_trans)

lemma all2_update_where: "(\<And>t. P t t) \<Longrightarrow> (\<And>t. P t (f t)) \<Longrightarrow> list_all2 P ts (update_where p f ts)"
  by (induction ts) (auto simp: update_where_def)

lemma quiet_update_account: "(\<And>a. account_rises a (f a)) \<Longrightarrow> quiet d (update_account i f d)"
  by (simp add: quiet_def update_account_def all2_update_where list_all2_refl)

lemma quiet_tokens: "(\<And>t. token_falls t (f t)) \<Longrightarrow> quiet d (d\<lparr>ab_tokens := update_where p f (ab_tokens d)\<rparr>)"
  by (simp add: quiet_def all2_update_where list_all2_refl)

text \<open>Requests on credentials.\<close>

lemma quiet_upgrade_hash: "quiet d (fst (upgrade_hash ce flt now p k d))"
  by (rule quiet_same) (auto simp: upgrade_hash_def split: option.splits)

lemma quiet_match_first: "quiet d (fst (match_first ce flt now p ks d))"
  by (induction ks) (auto simp: quiet_upgrade_hash)

lemma quiet_match_password: "match_password ce flt now i p None d = (m, d', r) \<Longrightarrow> quiet d d'"
  using quiet_match_first [of d ce flt now p "passwords i now d"]
  by (auto simp: match_password_def Let_def split: if_splits)

lemma quiet_consume: "quiet d (fst (consume_recovery_code ce flt now i code d))"
  by (rule quiet_same) (auto simp: consume_recovery_code_def spend_code_def split: option.splits)

lemma quiet_verify: "verify_totp_or_recovery ce dec flt now i totp recovery d = (d', r) \<Longrightarrow> quiet d d'"
  using quiet_consume [of d ce flt now i recovery]
  by (auto simp: verify_totp_or_recovery_def Let_def split: if_splits sum.splits prod.splits bool.splits)

lemma quiet_revoke_kinds: "quiet d (snd (revoke_kinds i now kinds d))"
  by (rule quiet_same) (simp_all add: revoke_kinds_def)

lemma quiet_create: "create_credential flt draw k d = Inr (k', d') \<Longrightarrow> quiet d d'"
  by (rule quiet_same) (auto simp: create_credential_def insert_credential_def Let_def split: option.splits if_splits)

lemma quiet_set_password: "set_password flt draw i hash by now d = Inr d' \<Longrightarrow> quiet d d'"
  using quiet_revoke_kinds quiet_create quiet_trans
  by (fastforce simp: set_password_def split: if_splits sum.splits prod.splits)

lemma quiet_record: "record_revocations ae now e i reason ks d = Inr d' \<Longrightarrow> quiet d d'"
proof (induction ks arbitrary: d)
  case (Cons k ks)
  then obtain log x where "append_entry ae None now (revocation_entry e i reason k) (ab_audit d) = (log, Inr x)"
    "record_revocations ae now e i reason ks (d\<lparr>ab_audit := log\<rparr>) = Inr d'"
    by (auto split: prod.splits sum.splits)
  then show ?case using Cons.IH quiet_trans [OF quiet_same [of "d\<lparr>ab_audit := log\<rparr>" d]] by simp
qed simp

lemma quiet_revoke_all: "quiet d (revoke_all_for_account i now d)"
proof -
  have "quiet d (d\<lparr>ab_tokens := update_where (\<lambda>t. rt_account t = i \<and> rt_status t = TokenActive) (rt_status_update (\<lambda>_. TokenRevoked)) (ab_tokens d)\<rparr>)"
    by (rule quiet_tokens) (simp add: token_falls_def)
  then show ?thesis by (rule quiet_trans) (rule quiet_same; simp add: revoke_all_for_account_def)
qed

lemma quiet_end_sessions: "quiet d (end_sessions i now d)"
  unfolding end_sessions_def by (rule quiet_trans [OF quiet_update_account quiet_revoke_all]) (simp add: account_rises_def)

lemma quiet_set_account_password:
  assumes "set_account_password ae flt e draw i hash by now d = Inr d'" shows "quiet d d'"
proof -
  obtain d1 d2 where "set_password flt draw i hash by now d = Inr d1"
    "revoke_app_passwords_for_new_password ae e i now d1 = Inr d2" "d' = end_sessions i now d2"
    using assms by (auto simp: set_account_password_def split: sum.splits)
  moreover from this(2) have "quiet d1 d2"
    using quiet_trans [OF quiet_revoke_kinds quiet_record]
    by (auto simp: revoke_app_passwords_for_new_password_def revoke_app_passwords_def split: prod.splits) (metis snd_conv)
  ultimately show ?thesis by (blast intro: quiet_trans quiet_set_password quiet_end_sessions)
qed

lemma quiet_choose_password:
  assumes "choose_password ae flt e draw i hash now d = Inr d'" shows "quiet d d'"
proof -
  have "quiet d (update_account i (password_columns now) d)" by (rule quiet_update_account) (simp add: account_rises_def password_columns_def)
  with assms show ?thesis by (auto simp: choose_password_def split: if_splits intro: quiet_trans quiet_set_account_password)
qed

lemma quiet_reset_credentials:
  assumes "reset_credentials ae flt e draw i hash now d = Inr d'" shows "quiet d d'"
proof -
  obtain d1 d4 where 1: "set_password flt draw i hash None now d = Inr d1"
    and 2: "record_revocations ae now e i credential_revoked_account_reset
      (fst (revoke_kinds i now machine_kinds (snd (revoke_kinds i now [kind_totp, kind_recovery_code] d1))))
      (snd (revoke_kinds i now machine_kinds (snd (revoke_kinds i now [kind_totp, kind_recovery_code] d1)))) = Inr d4"
    and 3: "d' = revoke_all_for_account i now d4"
    using assms by (auto simp: reset_credentials_def revoke_app_passwords_def Let_def split: sum.splits prod.splits)
  show ?thesis unfolding 3
    by (rule quiet_trans [OF quiet_set_password [OF 1] quiet_trans [OF quiet_revoke_kinds quiet_trans [OF quiet_revoke_kinds
          quiet_trans [OF quiet_record [OF 2] quiet_revoke_all]]]])
qed

lemma quiet_redeem: "redeem ce now token purpose d = Some (row, d') \<Longrightarrow> quiet d d'"
  by (rule quiet_same) (auto simp: redeem_def Let_def split: if_splits)

lemma quiet_reset_from:
  assumes "reset_credentials ae flt e draw i hash now (update_account j f d) = Inr d'"
    "\<And>a. account_rises a (f a)"
  shows "quiet d d'"
  by (rule quiet_trans [OF quiet_update_account [OF assms(2)] quiet_reset_credentials [OF assms(1)]])

lemma quiet_reset_admin:
  assumes "reset_admin ce ae flt e draw now token password d = (d', r)" shows "quiet d d'"
proof (cases r)
  case (Inl _)
  with assms have "d' = d" unfolding reset_admin_def by (auto split: if_splits option.splits sum.splits)
  then show ?thesis by simp
next
  case (Inr a)
  with assms obtain row i hash d1 where "redeem ce now token purpose_reset_admin d = Some (row, d1)"
    "reset_credentials ae flt e draw i hash now
       (update_account i (\<lambda>a. a\<lparr>ua_password_change_required := False, ua_two_factor_required := True,
          ua_bootstrap_expires_at := None, ua_active := True, ua_last_password_change := Some now,
          ua_credential_epoch := ua_credential_epoch a + 1\<rparr>) d1) = Inr d'"
    unfolding reset_admin_def by (auto split: if_splits option.splits sum.splits)
  then show ?thesis by (auto simp: account_rises_def intro: quiet_trans [OF quiet_redeem quiet_reset_from])
qed

lemma quiet_reset_password:
  assumes "reset_password ce ae flt e draw now address password d = (d', r)" shows "quiet d d'"
proof (cases r)
  case (Inl _)
  with assms have "d' = d" unfolding reset_password_def by (auto split: if_splits option.splits sum.splits)
  then show ?thesis by simp
next
  case (Inr a)
  with assms obtain i hash where
    "reset_credentials ae flt e draw i hash now
       (update_account i (\<lambda>a. a\<lparr>ua_password_change_required := True, ua_two_factor_required := True,
          ua_bootstrap_expires_at := None, ua_active := True, ua_credential_epoch := ua_credential_epoch a + 1\<rparr>) d) = Inr d'"
    unfolding reset_password_def by (auto split: if_splits option.splits sum.splits)
  then show ?thesis by (auto simp: account_rises_def intro: quiet_reset_from)
qed

lemma quiet_revoke_all_sessions: "quiet d (fst (revoke_all_sessions d))"
  by (simp add: quiet_def revoke_all_sessions_def all2_update_where list.rel_map token_falls_def account_rises_def list_all2_refl)

text \<open>The handlers.\<close>

lemma quiet_enforce_2fa: "enforce_2fa env flt now i req d = (d', r) \<Longrightarrow> quiet d d'"
  by (auto simp: enforce_2fa_def split: sum.splits auth_err.splits prod.splits bool.splits dest: quiet_verify)

lemma quiet_login_checks: "login_checks env flt now req d = (d', r) \<Longrightarrow> quiet d d'"
  by (auto simp: login_checks_def Let_def split: if_splits sum.splits prod.splits option.splits
      dest!: quiet_match_password quiet_enforce_2fa intro: quiet_trans)

lemma quiet_recover_checks: "recover_checks env flt now e draw available r d = (d', charge, x) \<Longrightarrow> quiet d d'"
  unfolding recover_checks_def Let_def
  by (auto split: if_splits sum.splits prod.splits option.splits bool.splits
      dest!: quiet_verify quiet_choose_password intro: quiet_trans)

lemma quiet_refresh_checks: "refresh_checks env flt now req d = (d', r) \<Longrightarrow> quiet d d'"
  by (auto simp: refresh_checks_def quiet_revoke_all split: if_splits sum.splits prod.splits)

lemma quiet_rotate: "refresh_rotate flt c d = Inr d' \<Longrightarrow> quiet d d'"
  by (auto simp: refresh_rotate_def rotate_token_def token_falls_def split: if_splits intro!: quiet_tokens)

lemma quiet_logout: "logout env flt now req d = (d', x, r) \<Longrightarrow> quiet d d'"
  by (auto simp: logout_def Let_def revoke_token_def token_falls_def split: if_splits sum.splits prod.splits intro!: quiet_tokens)

lemma quiet_change_password: "change_password env flt now e draw c current new d = (d', r) \<Longrightarrow> quiet d d'"
  unfolding change_password_def
  by (auto split: if_splits sum.splits prod.splits option.splits
      dest!: quiet_match_password quiet_choose_password intro: quiet_trans)

lemma quiet_disable_own: "disable_own env flt now totp recovery c d = (d', r) \<Longrightarrow> quiet d d'"
  unfolding disable_own_def disable_two_factor_def two_factor_delete_def
  by (auto split: if_splits sum.splits auth_err.splits prod.splits option.splits bool.splits
      dest!: quiet_verify intro: quiet_trans [OF quiet_trans [OF _ quiet_revoke_kinds] quiet_end_sessions])

section \<open>The invariant\<close>

text \<open>Every row of account \<open>i\<close> (there is at most one) is at epoch \<open>e\<close> or later.\<close>

definition at_least :: "auth_db \<Rightarrow> nat \<Rightarrow> int \<Rightarrow> bool" where
  "at_least d i e \<longleftrightarrow> (\<forall>a\<in>set (ab_accounts d). ua_id a = i \<longrightarrow> e \<le> ua_credential_epoch a)"

definition active_tokens :: "auth_db \<Rightarrow> string \<Rightarrow> nat" where
  "active_tokens d sid = length (filter (\<lambda>t. rt_sid t = sid \<and> rt_status t = TokenActive) (ab_tokens d))"

fun rotated_in :: "string \<Rightarrow> session_flight \<Rightarrow> bool" where
  "rotated_in sid (Rotated c st) = (tk_sid c = sid)"
| "rotated_in sid f = False"

definition rotations :: "session_system \<Rightarrow> string \<Rightarrow> nat" where
  "rotations s sid = size (filter_mset (rotated_in sid) (sx_flights s))"

text \<open>A flight stands on what was read: an epoch the account has not gone below, or a refresh token that was issued.\<close>

fun flight_ok :: "session_system \<Rightarrow> session_flight \<Rightarrow> bool" where
  "flight_ok s (SigningIn t a amr) = (at_least (sx_db s) (ua_id a) (ua_credential_epoch a) \<and> t < sx_next s)"
| "flight_ok s (Refreshing c st) = (c \<in> set (sx_issued s) \<and> as_epoch st = tk_epoch c \<and> tk_type c = token_refresh)"
| "flight_ok s (Rotated c st) = (c \<in> set (sx_issued s) \<and> as_epoch st = tk_epoch c \<and> tk_type c = token_refresh)"

definition proof_at :: "string list \<Rightarrow> time \<Rightarrow> time option" where
  "proof_at amr at = (if amr_otp \<in> set amr then Some (numeric_date at) else None)"

definition recorded :: "session_system \<Rightarrow> claims \<Rightarrow> bool" where
  "recorded s c \<longleftrightarrow>
     (\<exists>t at amr. (tk_sid c, t, at, amr) \<in> set (sx_sessions s) \<and> t < sx_next s \<and> tk_amr c = amr
        \<and> tk_auth_time c = proof_at amr at)"

definition in_ledger :: "auth_db \<Rightarrow> claims \<Rightarrow> bool" where
  "in_ledger d c \<longleftrightarrow> (\<exists>t\<in>set (ab_tokens d). rt_jti t = tk_jti c \<and> rt_sid t = tk_sid c)"

definition claim_ok :: "session_system \<Rightarrow> claims \<Rightarrow> bool" where
  "claim_ok s c \<longleftrightarrow>
     at_least (sx_db s) (tk_account c) (tk_epoch c) \<and> recorded s c \<and> (tk_type c = token_refresh \<longrightarrow> in_ledger (sx_db s) c)"

definition sessions_ok :: "session_system \<Rightarrow> bool" where
  "sessions_ok s \<longleftrightarrow>
     distinct (map ua_id (ab_accounts (sx_db s))) \<and> distinct (map rt_jti (ab_tokens (sx_db s)))
     \<and> distinct (map fst (sx_sessions s)) \<and> rt_sid ` set (ab_tokens (sx_db s)) \<subseteq> sids s
     \<and> (\<forall>c\<in>set (sx_issued s). claim_ok s c) \<and> (\<forall>f\<in>#sx_flights s. flight_ok s f)
     \<and> (\<forall>sid. active_tokens (sx_db s) sid + rotations s sid \<le> 1)"

lemma sessions_okD:
  assumes "sessions_ok s"
  shows "distinct (map ua_id (ab_accounts (sx_db s)))" "distinct (map rt_jti (ab_tokens (sx_db s)))"
    "distinct (map fst (sx_sessions s))" "t \<in> set (ab_tokens (sx_db s)) \<Longrightarrow> rt_sid t \<in> sids s"
    "c \<in> set (sx_issued s) \<Longrightarrow> claim_ok s c" "f \<in># sx_flights s \<Longrightarrow> flight_ok s f"
    "active_tokens (sx_db s) sid + rotations s sid \<le> 1"
  using assms by (auto simp: sessions_ok_def)

subsection \<open>Quiet requests keep it\<close>

lemma all2_map: "list_all2 P xs ys \<Longrightarrow> (\<And>x y. P x y \<Longrightarrow> g y = g x) \<Longrightarrow> map g ys = map g xs"
  by (induction rule: list_all2_induct) auto

lemma quiet_ids: "quiet d d' \<Longrightarrow> map ua_id (ab_accounts d') = map ua_id (ab_accounts d)"
  unfolding quiet_def by (auto intro: all2_map simp: account_rises_def)

lemma quiet_keys:
  "quiet d d' \<Longrightarrow> map (\<lambda>t. (rt_jti t, rt_sid t)) (ab_tokens d') = map (\<lambda>t. (rt_jti t, rt_sid t)) (ab_tokens d)"
  unfolding quiet_def by (auto intro: all2_map simp: token_falls_def)

lemma quiet_jtis: "quiet d d' \<Longrightarrow> map rt_jti (ab_tokens d') = map rt_jti (ab_tokens d)"
  unfolding quiet_def by (auto intro: all2_map simp: token_falls_def)

lemma quiet_sids: "quiet d d' \<Longrightarrow> map rt_sid (ab_tokens d') = map rt_sid (ab_tokens d)"
  unfolding quiet_def by (auto intro: all2_map simp: token_falls_def)

lemma all2_member: "list_all2 P xs ys \<Longrightarrow> y \<in> set ys \<Longrightarrow> \<exists>x\<in>set xs. P x y"
  by (induction rule: list_all2_induct) auto

lemma quiet_account:
  "quiet d d' \<Longrightarrow> a' \<in> set (ab_accounts d') \<Longrightarrow>
     \<exists>a\<in>set (ab_accounts d). ua_id a = ua_id a' \<and> ua_credential_epoch a \<le> ua_credential_epoch a'"
  unfolding quiet_def by (auto dest!: all2_member simp: account_rises_def)

lemma quiet_at_least: "quiet d d' \<Longrightarrow> at_least d i e \<Longrightarrow> at_least d' i e"
  unfolding at_least_def by (fastforce dest: quiet_account)

lemma quiet_active: "quiet d d' \<Longrightarrow> active_tokens d' sid \<le> active_tokens d sid"
proof -
  have "list_all2 token_falls ts ts' \<Longrightarrow>
    length (filter (\<lambda>t. rt_sid t = sid \<and> rt_status t = TokenActive) ts') \<le> length (filter (\<lambda>t. rt_sid t = sid \<and> rt_status t = TokenActive) ts)" for ts ts'
    by (induction rule: list_all2_induct) (auto simp: token_falls_def)
  then show "quiet d d' \<Longrightarrow> active_tokens d' sid \<le> active_tokens d sid" by (simp add: quiet_def active_tokens_def)
qed

lemma in_ledger_iff: "in_ledger d c \<longleftrightarrow> (tk_jti c, tk_sid c) \<in> set (map (\<lambda>t. (rt_jti t, rt_sid t)) (ab_tokens d))"
  by (force simp: in_ledger_def)

lemma flight_quiet: "flight_ok s f \<Longrightarrow> quiet (sx_db s) d \<Longrightarrow> flight_ok (s\<lparr>sx_db := d\<rparr>) f"
  by (cases f) (auto intro: quiet_at_least)

lemma quiet_sessions_ok:
  assumes ok: "sessions_ok s" and q: "quiet (sx_db s) d" shows "sessions_ok (s\<lparr>sx_db := d\<rparr>)"
proof -
  have "claim_ok (s\<lparr>sx_db := d\<rparr>) c" if "c \<in> set (sx_issued s)" for c
    using sessions_okD(5) [OF ok that] quiet_at_least [OF q] by (simp add: claim_ok_def recorded_def in_ledger_iff quiet_keys [OF q])
  moreover have "active_tokens d sid + rotations (s\<lparr>sx_db := d\<rparr>) sid \<le> 1" for sid
    using sessions_okD(7) [OF ok, of sid] quiet_active [OF q, of sid] by (simp add: rotations_def)
  moreover have "rt_sid ` set (ab_tokens d) = rt_sid ` set (ab_tokens (sx_db s))"
    using quiet_sids [OF q] by (metis set_map)
  ultimately show ?thesis
    using ok flight_quiet [OF _ q] by (simp add: sessions_ok_def quiet_ids [OF q] quiet_jtis [OF q] sids_def)
qed

subsection \<open>Flights\<close>

lemma flight_more: "flight_ok s f \<Longrightarrow> flight_ok (s\<lparr>sx_flights := fs, sx_next := sx_next s + n\<rparr>) f"
  by (cases f) auto

lemma recorded_more: "recorded s c \<Longrightarrow> recorded (s\<lparr>sx_flights := fs, sx_next := sx_next s + n\<rparr>) c"
  unfolding recorded_def by simp (meson trans_less_add1)

lemma claim_more: "claim_ok s c \<Longrightarrow> claim_ok (s\<lparr>sx_flights := fs, sx_next := sx_next s + n\<rparr>) c"
  using recorded_more [where fs = fs and n = n] by (simp add: claim_ok_def)

lemma flights_ok:
  assumes "sessions_ok s" "\<And>f. f \<in># fs \<Longrightarrow> f \<in># sx_flights s \<or> flight_ok (s\<lparr>sx_flights := fs, sx_next := sx_next s + n\<rparr>) f"
    "\<And>sid. size (filter_mset (rotated_in sid) fs) \<le> rotations s sid"
  shows "sessions_ok (s\<lparr>sx_flights := fs, sx_next := sx_next s + n\<rparr>)"
proof -
  have "active_tokens (sx_db s) sid + size (filter_mset (rotated_in sid) fs) \<le> 1" for sid
    using assms(3) [of sid] sessions_okD(7) [OF assms(1), of sid] by simp
  moreover have "flight_ok (s\<lparr>sx_flights := fs, sx_next := sx_next s + n\<rparr>) f" if "f \<in># fs" for f
    using assms(2) [OF that] flight_more [where fs = fs and n = n] sessions_okD(6) [OF assms(1), of f] by blast
  ultimately show ?thesis
    using assms(1) claim_more [where s = s and fs = fs and n = n] by (simp add: sessions_ok_def sids_def rotations_def)
qed

lemma drop_flight_ok: "sessions_ok s \<Longrightarrow> sx_flights s = add_mset f fs \<Longrightarrow> sessions_ok (s\<lparr>sx_flights := fs\<rparr>)"
  using flights_ok [of s fs 0] by (simp add: rotations_def)

lemma begin_sign_in_ok:
  assumes "sessions_ok s" "\<And>a amr. r = Inr (a, amr) \<Longrightarrow> at_least (sx_db s) (ua_id a) (ua_credential_epoch a)"
  shows "sessions_ok (begin_sign_in r s)"
proof (cases r)
  case (Inr b)
  obtain a amr where b: "b = (a, amr)" by (cases b)
  have "sessions_ok (s\<lparr>sx_flights := add_mset (SigningIn (sx_next s) a amr) (sx_flights s), sx_next := sx_next s + 1\<rparr>)"
    by (rule flights_ok [OF assms(1)]) (use assms(2) Inr b in \<open>auto simp: rotations_def\<close>)
  then show ?thesis by (simp add: begin_sign_in_def Inr b)
qed (use assms in \<open>simp add: begin_sign_in_def\<close>)

lemma begin_refresh_ok:
  assumes "sessions_ok s"
    "\<And>c st n. r = Inr (c, st, n) \<Longrightarrow> c \<in> set (sx_issued s) \<and> as_epoch st = tk_epoch c \<and> tk_type c = token_refresh"
  shows "sessions_ok (begin_refresh r s)"
proof (cases r)
  case (Inr b)
  obtain c st n where b: "b = (c, st, n)" by (cases b)
  have "sessions_ok (s\<lparr>sx_flights := add_mset (Refreshing c st) (sx_flights s), sx_next := sx_next s + 0\<rparr>)"
    by (rule flights_ok [OF assms(1)]) (use assms(2) Inr b in \<open>auto simp: rotations_def\<close>)
  then show ?thesis by (simp add: begin_refresh_def Inr b)
qed (use assms in \<open>simp add: begin_refresh_def\<close>)

subsection \<open>Issuing tokens\<close>

definition issue ::
  "refresh_token \<Rightarrow> claims list \<Rightarrow> session_flight multiset \<Rightarrow> (string \<times> nat \<times> time \<times> string list) list \<Rightarrow> session_system \<Rightarrow> session_system" where
  "issue row new fs ss s =
     s\<lparr>sx_db := (sx_db s)\<lparr>ab_tokens := ab_tokens (sx_db s) @ [row]\<rparr>, sx_issued := new @ sx_issued s, sx_flights := fs,
       sx_sessions := ss @ sx_sessions s\<rparr>"

lemma issue_simps [simp]:
  "sx_db (issue row new fs ss s) = (sx_db s)\<lparr>ab_tokens := ab_tokens (sx_db s) @ [row]\<rparr>"
  "sx_issued (issue row new fs ss s) = new @ sx_issued s" "sx_flights (issue row new fs ss s) = fs"
  "sx_sessions (issue row new fs ss s) = ss @ sx_sessions s" "sx_next (issue row new fs ss s) = sx_next s"
  by (simp_all add: issue_def)

lemma at_least_tokens [simp]: "at_least (d\<lparr>ab_tokens := ts\<rparr>) i e = at_least d i e"
  by (simp add: at_least_def)

lemma recorded_issue: "recorded s c \<Longrightarrow> recorded (issue row new fs ss s) c"
  unfolding recorded_def by auto

lemma claim_issue: "claim_ok s c \<Longrightarrow> claim_ok (issue row new fs ss s) c"
  by (auto simp: claim_ok_def in_ledger_def intro: recorded_issue)

lemma flight_issue: "flight_ok s f \<Longrightarrow> flight_ok (issue row new fs ss s) f"
  by (cases f) auto

lemma issue_ok:
  assumes ok: "sessions_ok s" and fs: "sx_flights s = add_mset f fs"
    and new: "\<And>c. c \<in> set new \<Longrightarrow> claim_ok (issue row new fs ss s) c"
    and jti: "rt_jti row \<notin> rt_jti ` set (ab_tokens (sx_db s))"
    and sid: "rt_sid row \<in> fst ` set (ss @ sx_sessions s)" "distinct (map fst (ss @ sx_sessions s))"
    and none: "active_tokens (sx_db s) (rt_sid row) + size (filter_mset (rotated_in (rt_sid row)) fs) = 0"
  shows "sessions_ok (issue row new fs ss s)" (is "sessions_ok ?s")
proof -
  have "active_tokens (sx_db ?s) x + rotations ?s x \<le> 1" for x
  proof -
    have "active_tokens (sx_db ?s) x \<le> active_tokens (sx_db s) x + (if x = rt_sid row then 1 else 0)"
      by (simp add: active_tokens_def)
    moreover have "rotations ?s x \<le> rotations s x" by (simp add: rotations_def fs)
    moreover have "rotations ?s (rt_sid row) = 0" using none unfolding rotations_def issue_simps by linarith
    ultimately show ?thesis using none sessions_okD(7) [OF ok, of x] by (cases "x = rt_sid row") simp_all
  qed
  moreover have "flight_ok ?s g" if "g \<in># fs" for g
    using sessions_okD(6) [OF ok, of g] that fs by (auto intro: flight_issue)
  moreover have "claim_ok ?s c" if "c \<in> set (sx_issued ?s)" for c
    using that new sessions_okD(5) [OF ok, of c] by (auto intro: claim_issue)
  moreover have "rt_sid ` set (ab_tokens (sx_db ?s)) \<subseteq> sids ?s"
    using sid(1) sessions_okD(4) [OF ok] by (auto simp: sids_def)
  ultimately show ?thesis using ok sid(2) jti by (simp add: sessions_ok_def)
qed

lemma generate_session_claims:
  assumes "generate_session je dw now i address e amr setup cont = Some (tp, ca, cr)"
  shows "session_sid dw cont = Some (tp_sid tp)"
    "ca = session_claims je now i address e amr setup cont (tp_sid tp) (tk_jti ca) token_access (now + je_access_expiry je)"
    "cr = session_claims je now i address e amr setup cont (tp_sid tp) (tp_refresh_jti tp) token_refresh (now + je_refresh_expiry je)"
  using assms by (auto simp: generate_session_def Let_def session_claims_def split: option.splits)

lemma generated_fields:
  assumes "generate_session je dw now i address e amr pend cont = Some (tp, ca, cr)" "c \<in> {ca, cr}"
  shows "tk_account c = i" "tk_epoch c = e" "tk_amr c = amr" "tk_sid c = tp_sid tp" "tk_auth_time c = proof_time now amr cont"
    "tk_type c = token_refresh \<Longrightarrow> tk_jti c = tp_refresh_jti tp"
proof -
  define je' jt where "je' = je_access_expiry je" and "jt = je_refresh_expiry je"
  have "c = session_claims je now i address e amr pend cont (tp_sid tp) (tk_jti ca) token_access (now + je')
    \<or> c = session_claims je now i address e amr pend cont (tp_sid tp) (tp_refresh_jti tp) token_refresh (now + jt)"
    using generate_session_claims(2,3) [OF assms(1)] assms(2) unfolding je'_def jt_def by blast
  then show "tk_account c = i" "tk_epoch c = e" "tk_amr c = amr" "tk_sid c = tp_sid tp" "tk_auth_time c = proof_time now amr cont"
    "tk_type c = token_refresh \<Longrightarrow> tk_jti c = tp_refresh_jti tp"
    by (auto simp: session_claims_def token_access_def token_refresh_def)
qed

lemma claim_okI:
  assumes "at_least (sx_db s) (tk_account c) (tk_epoch c)" "(tk_sid c, t, at, tk_amr c) \<in> set (sx_sessions s)" "t < sx_next s"
    "tk_auth_time c = proof_at (tk_amr c) at" "tk_type c = token_refresh \<Longrightarrow> in_ledger (sx_db s) c"
  shows "claim_ok s c"
  using assms unfolding claim_ok_def recorded_def by blast

text \<open>A sign-in's last part, and a refresh's, issue nothing and change nothing, or record the new token and hand out the pair.\<close>

lemma new_session_cases:
  assumes "start_session env flt now dw a native amr d = (d', new, answer)"
  obtains "d' = d" "new = []"
  | pend tp ca cr where
      "generate_session (ve_jwt env) dw now (ua_id a) (ua_address a) (ua_credential_epoch a) amr pend None = Some (tp, ca, cr)"
      "new = [ca, cr]" "tp_refresh_jti tp \<notin> rt_jti ` set (ab_tokens d)"
      "quiet (d\<lparr>ab_tokens := ab_tokens d @ [token_row (ua_id a) tp]\<rparr>) d'"
  using assms unfolding start_session_def persist_refresh_token_def save_token_def
  by (auto split: sum.splits option.splits prod.splits if_splits simp: token_row_def account_rises_def
      intro!: that(2) quiet_update_account)

lemma refresh_issue_cases:
  assumes "refresh_issue env flt now dw c st native d = (d', new, answer)"
  obtains "d' = d" "new = []"
  | pend tp ca cr where
      "generate_session (ve_jwt env) dw now (tk_account c) (as_address st) (as_epoch st) (tk_amr c) pend
         (Some (tk_sid c, tk_auth_time c)) = Some (tp, ca, cr)"
      "new = [ca, cr]" "tp_refresh_jti tp \<notin> rt_jti ` set (ab_tokens d)"
      "d' = d\<lparr>ab_tokens := ab_tokens d @ [token_row (tk_account c) tp]\<rparr>"
proof (cases "generate_session (ve_jwt env) dw now (tk_account c) (as_address st) (as_epoch st) (tk_amr c) (as_setup_pending st)
    (Some (tk_sid c, tk_auth_time c))")
  case None
  then show ?thesis using assms that(1) by (simp add: refresh_issue_def)
next
  case (Some x)
  obtain tp ca cr where x: "x = (tp, ca, cr)" by (cases x)
  show ?thesis
  proof (cases "persist_refresh_token flt (tk_account c) tp d")
    case (Inl e)
    then show ?thesis using assms Some x that(1) by (simp add: refresh_issue_def)
  next
    case (Inr d1)
    then have "tp_refresh_jti tp \<notin> rt_jti ` set (ab_tokens d)" "d1 = d\<lparr>ab_tokens := ab_tokens d @ [token_row (tk_account c) tp]\<rparr>"
      by (auto simp: persist_refresh_token_def save_token_def token_row_def split: if_splits)
    moreover have "d' = d1" "new = [ca, cr]" using assms Some x Inr by (simp_all add: refresh_issue_def)
    ultimately show ?thesis using Some x by (intro that(2)) simp_all
  qed
qed

lemma no_tokens_of_new_sid:
  assumes ok: "sessions_ok s" and sid: "sid \<notin> sids s"
  shows "active_tokens (sx_db s) sid = 0" "rotations s sid = 0"
proof -
  show "active_tokens (sx_db s) sid = 0" using sessions_okD(4) [OF ok] sid by (auto simp: active_tokens_def filter_empty_conv)
  have "\<not> rotated_in sid f" if "f \<in># sx_flights s" for f
    using sessions_okD(6) [OF ok that] sessions_okD(5) [OF ok] sid
    by (cases f) (force simp: claim_ok_def recorded_def sids_def)+
  then show "rotations s sid = 0" by (simp add: rotations_def)
qed

lemma signed_in_ok:
  assumes ok: "sessions_ok s" and fs: "sx_flights s = add_mset (SigningIn t a amr) fs"
    and new: "start_session env flt now dw a native amr (sx_db s) = (d, new, answer)"
    and sid: "\<forall>sid. dw_sid dw = Some sid \<longrightarrow> sid \<notin> sids s"
  shows "sessions_ok (s\<lparr>sx_db := d, sx_issued := new @ sx_issued s, sx_flights := fs,
      sx_sessions := map (\<lambda>c. (tk_sid c, t, now, amr)) (take 1 new) @ sx_sessions s\<rparr>)"
  using new
proof (cases rule: new_session_cases)
  case 1
  then show ?thesis using drop_flight_ok [OF ok fs] by simp
next
  case (2 pend tp ca cr)
  note g = generate_session_claims [OF 2(1)]
  let ?row = "token_row (ua_id a) tp" and ?ss = "[(tp_sid tp, t, now, amr)]"
  let ?s = "issue ?row new fs ?ss s"
  have f: "flight_ok s (SigningIn t a amr)" using sessions_okD(6) [OF ok, of "SigningIn t a amr"] fs by simp
  have fresh: "tp_sid tp \<notin> sids s" using g(1) sid by (simp add: session_sid_def)
  have "claim_ok ?s c" if "c \<in> set new" for c
  proof -
    have "c \<in> {ca, cr}" using that 2(2) by simp
    note c = generated_fields [OF 2(1) this]
    have "proof_time now amr None = proof_at amr now" by (simp add: proof_time_def proof_at_def)
    then show ?thesis using f by (intro claim_okI [of _ _ t now]) (simp_all add: c in_ledger_def token_row_def)
  qed
  then have "sessions_ok ?s"
    using no_tokens_of_new_sid [OF ok fresh] fresh 2(3) sessions_okD(3) [OF ok]
    by (intro issue_ok [OF ok fs]) (auto simp: token_row_def sids_def rotations_def fs)
  moreover have "tk_sid ca = tp_sid tp" using generated_fields(4) [OF 2(1), of ca] by simp
  ultimately show ?thesis using quiet_sessions_ok [of ?s d] 2(2,4) by (cases s) (simp add: issue_def)
qed

lemma refreshed_ok:
  assumes ok: "sessions_ok s" and fs: "sx_flights s = add_mset (Rotated c st) fs"
    and new: "refresh_issue env flt now dw c st native (sx_db s) = (d, new, answer)"
  shows "sessions_ok (s\<lparr>sx_db := d, sx_issued := new @ sx_issued s, sx_flights := fs\<rparr>)"
  using new
proof (cases rule: refresh_issue_cases)
  case 1
  then show ?thesis using drop_flight_ok [OF ok fs] by simp
next
  case (2 pend tp ca cr)
  note g = generate_session_claims [OF 2(1)]
  let ?row = "token_row (tk_account c) tp"
  let ?s = "issue ?row new fs [] s"
  have f: "c \<in> set (sx_issued s)" "as_epoch st = tk_epoch c" using sessions_okD(6) [OF ok, of "Rotated c st"] fs by simp_all
  have sid: "tp_sid tp = tk_sid c" using g(1) by (simp add: session_sid_def split: if_splits)
  obtain t at where c: "at_least (sx_db s) (tk_account c) (tk_epoch c)" "(tk_sid c, t, at, tk_amr c) \<in> set (sx_sessions s)" "t < sx_next s"
    "tk_auth_time c = proof_at (tk_amr c) at"
    using sessions_okD(5) [OF ok f(1)] by (auto simp: claim_ok_def recorded_def)
  have pt: "proof_time now (tk_amr c) (Some (tk_sid c, tk_auth_time c)) = proof_at (tk_amr c) at"
    by (simp add: proof_time_def c(4) proof_at_def)
  have "claim_ok ?s x" if "x \<in> set new" for x
  proof -
    have "x \<in> {ca, cr}" using that 2(2) by simp
    note x = generated_fields [OF 2(1) this]
    show ?thesis using c(1-3) by (intro claim_okI [of _ _ t at]) (simp_all add: x in_ledger_def token_row_def f(2) sid pt)
  qed
  moreover have "active_tokens (sx_db s) (tk_sid c) + size (filter_mset (rotated_in (tk_sid c)) fs) = 0"
    using sessions_okD(7) [OF ok, of "tk_sid c"] by (simp add: rotations_def fs)
  moreover have "tk_sid c \<in> fst ` set (sx_sessions s)" using c(2) by force
  ultimately have "sessions_ok ?s"
    using 2(3) sessions_okD(3) [OF ok] by (intro issue_ok [OF ok fs]) (auto simp: token_row_def sid)
  then show ?thesis using 2(2,4) by (simp add: issue_def)
qed

subsection \<open>Rotating\<close>

lemma rotate_fewer:
  "t \<in> set ts \<Longrightarrow> rotatable jti t \<Longrightarrow> rt_sid t = sid \<Longrightarrow>
     Suc (length (filter (\<lambda>t. rt_sid t = sid \<and> rt_status t = TokenActive)
       (update_where (rotatable jti) (rt_status_update (\<lambda>_. TokenRotated)) ts)))
     \<le> length (filter (\<lambda>t. rt_sid t = sid \<and> rt_status t = TokenActive) ts)"
proof (induction ts)
  case (Cons x ts)
  have "length (filter (\<lambda>t. rt_sid t = sid \<and> rt_status t = TokenActive)
       (update_where (rotatable jti) (rt_status_update (\<lambda>_. TokenRotated)) ts))
     \<le> length (filter (\<lambda>t. rt_sid t = sid \<and> rt_status t = TokenActive) ts)"
    by (induction ts) (auto simp: update_where_def)
  with Cons show ?case by (auto simp: update_where_def rotatable_def)
qed simp

lemma rotated_ok:
  assumes ok: "sessions_ok s" and fs: "sx_flights s = add_mset (Refreshing c st) fs"
    and rot: "refresh_rotate flt c (sx_db s) = Inr d"
  shows "sessions_ok (s\<lparr>sx_db := d, sx_flights := add_mset (Rotated c st) fs\<rparr>)"
proof -
  have f: "flight_ok s (Refreshing c st)" using sessions_okD(6) [OF ok, of "Refreshing c st"] fs by simp
  then obtain t where t: "t \<in> set (ab_tokens (sx_db s))" "rt_jti t = tk_jti c" "rt_sid t = tk_sid c"
    using sessions_okD(5) [OF ok, of c] by (auto simp: claim_ok_def in_ledger_def)
  obtain u where u: "u \<in> set (ab_tokens (sx_db s))" "rotatable (tk_jti c) u"
    and d: "ab_tokens d = update_where (rotatable (tk_jti c)) (rt_status_update (\<lambda>_. TokenRotated)) (ab_tokens (sx_db s))"
    using rot by (auto simp: refresh_rotate_def rotate_token_def list_ex_iff split: sum.splits auth_err.splits if_splits)
  have "u = t" using u t sessions_okD(2) [OF ok] by (auto simp: rotatable_def distinct_map inj_on_def)
  then have fewer: "Suc (active_tokens d (tk_sid c)) \<le> active_tokens (sx_db s) (tk_sid c)"
    unfolding active_tokens_def d using u t rotate_fewer [of t "ab_tokens (sx_db s)" "tk_jti c" "tk_sid c"] by simp
  let ?s = "s\<lparr>sx_db := d, sx_flights := add_mset (Rotated c st) fs\<rparr>"
  have q: "sessions_ok (s\<lparr>sx_db := d\<rparr>)" by (rule quiet_sessions_ok [OF ok quiet_rotate [OF rot]])
  have "active_tokens d sid + rotations ?s sid \<le> 1" for sid
  proof -
    have "rotations ?s sid = rotations s sid + (if sid = tk_sid c then 1 else 0)" by (simp add: rotations_def fs)
    moreover have "rotations (s\<lparr>sx_db := d\<rparr>) sid = rotations s sid" by (simp add: rotations_def)
    ultimately show ?thesis
      using sessions_okD(7) [OF ok, of sid] sessions_okD(7) [OF q, of sid] fewer by (cases "sid = tk_sid c") simp_all
  qed
  moreover have "flight_ok ?s g" if "g \<in># sx_flights ?s" for g
  proof -
    have "flight_ok (s\<lparr>sx_db := d\<rparr>) g" using that f sessions_okD(6) [OF q, of g] fs by (cases g) auto
    then show ?thesis by (cases g) simp_all
  qed
  ultimately show ?thesis using q by (auto simp: sessions_ok_def claim_ok_def recorded_def sids_def)
qed

subsection \<open>Every step\<close>

lemma account_at_least:
  "distinct (map ua_id (ab_accounts d)) \<Longrightarrow> a \<in> set (ab_accounts d) \<Longrightarrow> at_least d (ua_id a) (ua_credential_epoch a)"
  by (auto simp: at_least_def distinct_map inj_on_def)

lemma account_by_id_in: "account_by_id d i = Some a \<Longrightarrow> a \<in> set (ab_accounts d) \<and> ua_id a = i"
  by (auto simp: account_by_id_def find_Some_iff)

lemma by_address_in: "by_address d x = Some a \<Longrightarrow> a \<in> set (ab_accounts d) \<and> ua_address a = x"
  by (auto simp: by_address_def find_Some_iff)

lemma found_in: "find_mailbox_by_address ne flt d x = Found a \<Longrightarrow> a \<in> set (ab_accounts d)"
proof -
  have "take 2 (filter p xs) = [a] \<Longrightarrow> a \<in> set xs" for p :: "mailbox_row \<Rightarrow> bool" and xs
    by (metis filter_is_subset in_set_takeD list.set_intros(1) subsetD)
  then show "find_mailbox_by_address ne flt d x = Found a \<Longrightarrow> a \<in> set (ab_accounts d)"
    unfolding find_mailbox_by_address_def nfc_equivalents_def
    by (auto simp: Let_def split: option.splits prod.splits if_splits list.splits dest: by_address_in)
qed

lemma login_account: "login_checks env flt now req d = (d', Inr (a, amr)) \<Longrightarrow> a \<in> set (ab_accounts d)"
  by (auto simp: login_checks_def Let_def split: if_splits sum.splits prod.splits option.splits found.splits dest: found_in)

lemma recover_account_in: "recover_checks env flt now e draw available r d = (d', charge, Inr (a, amr)) \<Longrightarrow> a \<in> set (ab_accounts d')"
  by (auto simp: recover_checks_def Let_def split: if_splits sum.splits prod.splits option.splits bool.splits dest: account_by_id_in)

lemma reset_account_in: "reset_admin ce ae flt e draw now token password d = (d', Inr a) \<Longrightarrow> a \<in> set (ab_accounts d')"
  by (auto simp: reset_admin_def split: if_splits sum.splits option.splits dest: account_by_id_in)

lemma refresh_checks_claims:
  assumes "refresh_checks env flt now req d = (d', Inr (c, st, native))" "genuine env now req issued"
  shows "c \<in> set issued" "as_epoch st = tk_epoch c" "tk_type c = token_refresh"
  using assms
  by (auto simp: refresh_checks_def genuine_def validate_refresh_token_def validate_type_def validate_token_def
      split: if_splits sum.splits prod.splits jwt_err.splits)

lemma other_ok:
  assumes ok: "sessions_ok s" and m: "accounts_move (accounts_used s) (sx_db s) d" and t: "ab_tokens d = ab_tokens (sx_db s)"
  shows "sessions_ok (s\<lparr>sx_db := d\<rparr>)"
proof -
  have al: "at_least d i e" if "at_least (sx_db s) i e" "i \<in> accounts_used s" for i e
    using m that by (fastforce simp: accounts_move_def at_least_def)
  have "claim_ok (s\<lparr>sx_db := d\<rparr>) c" if "c \<in> set (sx_issued s)" for c
    using sessions_okD(5) [OF ok that] al that by (auto simp: claim_ok_def recorded_def in_ledger_def t accounts_used_def)
  moreover have "flight_ok (s\<lparr>sx_db := d\<rparr>) f" if "f \<in># sx_flights s" for f
    using sessions_okD(6) [OF ok that] al that by (cases f) (force simp: accounts_used_def)+
  ultimately show ?thesis
    using ok m by (auto simp: sessions_ok_def accounts_move_def t sids_def active_tokens_def rotations_def)
qed

lemma session_step_ok: "session_step env s s' \<Longrightarrow> sessions_ok s \<Longrightarrow> sessions_ok s'"
proof (induction rule: session_step.induct)
  case (login flt now req s d r)
  have q: "quiet (sx_db s) d" by (rule quiet_login_checks [OF login.hyps])
  show ?case
    by (rule begin_sign_in_ok [OF quiet_sessions_ok [OF login.prems q]])
      (use login q in \<open>auto intro!: quiet_at_least [OF q] account_at_least sessions_okD(1) dest: login_account\<close>)
next
  case (recover flt now e draw available rr s d spent r)
  have ok: "sessions_ok (s\<lparr>sx_db := d\<rparr>)" by (rule quiet_sessions_ok [OF recover.prems quiet_recover_checks [OF recover.hyps]])
  show ?case
    by (rule begin_sign_in_ok [OF ok])
      (use sessions_okD(1) [OF ok] recover.hyps in \<open>auto intro!: account_at_least dest: recover_account_in\<close>)
next
  case (reset flt e draw now token password s d r)
  have ok: "sessions_ok (s\<lparr>sx_db := d\<rparr>)" by (rule quiet_sessions_ok [OF reset.prems quiet_reset_admin [OF reset.hyps]])
  show ?case
    by (rule begin_sign_in_ok [OF ok], cases r)
      (use sessions_okD(1) [OF ok] reset.hyps in \<open>auto intro!: account_at_least dest: reset_account_in\<close>)
next
  case (refresh_read now tq s flt d r)
  show ?case
    by (rule begin_refresh_ok [OF quiet_sessions_ok [OF refresh_read.prems quiet_refresh_checks [OF refresh_read.hyps(2)]]])
      (use refresh_read.hyps in \<open>auto dest: refresh_checks_claims\<close>)
next
  case (signed_in s t a amr fs flt now dw native d new answer)
  then show ?case by (intro signed_in_ok)
qed (auto intro: refreshed_ok rotated_ok other_ok drop_flight_ok quiet_sessions_ok quiet_logout quiet_change_password
       quiet_disable_own quiet_end_sessions quiet_revoke_all_sessions quiet_reset_password)

interpretation auth_runs: invariant_system session_start "session_step env" sessions_ok for env
proof unfold_locales
  show "session_start s \<Longrightarrow> sessions_ok s" for s
    by (auto simp: session_start_def sessions_ok_def active_tokens_def rotations_def)
qed (rule session_step_ok)

section \<open>What a step adds\<close>

lemma begin_sign_in_sel [simp]:
  "sx_db (begin_sign_in r s) = sx_db s" "sx_issued (begin_sign_in r s) = sx_issued s" "sx_sessions (begin_sign_in r s) = sx_sessions s"
  by (auto simp: begin_sign_in_def split: sum.splits)

lemma begin_refresh_sel [simp]:
  "sx_db (begin_refresh r s) = sx_db s" "sx_issued (begin_refresh r s) = sx_issued s" "sx_sessions (begin_refresh r s) = sx_sessions s"
  "sx_next (begin_refresh r s) = sx_next s"
  by (auto simp: begin_refresh_def split: sum.splits)

lemma begin_sign_in_flight:
  "f \<in># sx_flights (begin_sign_in r s) \<Longrightarrow> f \<in># sx_flights s \<or> (\<exists>a amr. f = SigningIn (sx_next s) a amr)"
  by (auto simp: begin_sign_in_def split: sum.splits)

lemma begin_refresh_flight: "SigningIn t a amr \<in># sx_flights (begin_refresh r s) \<Longrightarrow> SigningIn t a amr \<in># sx_flights s"
  by (auto simp: begin_refresh_def split: sum.splits)

text \<open>The database of a step: a quiet change, one after a new token was recorded, or the step \<open>other\<close>.\<close>

lemma step_db:
  assumes "session_step env s s'"
  shows "quiet (sx_db s) (sx_db s')
    \<or> (\<exists>row. rt_jti row \<notin> rt_jti ` set (ab_tokens (sx_db s)) \<and> quiet ((sx_db s)\<lparr>ab_tokens := ab_tokens (sx_db s) @ [row]\<rparr>) (sx_db s'))
    \<or> accounts_move (accounts_used s) (sx_db s) (sx_db s') \<and> ab_tokens (sx_db s') = ab_tokens (sx_db s)"
  using assms
proof cases
  case (signed_in t a amr fs flt now dw native d new answer)
  show ?thesis using signed_in(3)
    by (cases rule: new_session_cases) (auto simp: signed_in(1) token_row_def intro!: exI [of _ "token_row (ua_id a) tp" for tp])
next
  case (refreshed c st fs flt now dw native d new answer)
  show ?thesis using refreshed(3)
    by (cases rule: refresh_issue_cases) (auto simp: refreshed(1) token_row_def intro!: exI [of _ "token_row (tk_account c) tp" for tp])
qed (auto dest: quiet_login_checks quiet_recover_checks quiet_reset_admin quiet_refresh_checks quiet_rotate quiet_logout
      quiet_change_password quiet_disable_own quiet_reset_password intro: quiet_end_sessions quiet_revoke_all_sessions)

lemma step_at_least:
  assumes "session_step env s s'" "at_least (sx_db s) i e" "i \<in> accounts_used s" shows "at_least (sx_db s') i e"
  using step_db [OF assms(1)]
proof (elim disjE exE conjE)
  assume "accounts_move (accounts_used s) (sx_db s) (sx_db s')"
  then show ?thesis using assms(2,3) by (fastforce simp: accounts_move_def at_least_def)
qed (use assms(2) quiet_at_least in \<open>force\<close>)+

lemma step_issued:
  assumes "session_step env s s'" "c \<in> set (sx_issued s')"
  shows "c \<in> set (sx_issued s)
    \<or> (\<exists>t a amr at. SigningIn t a amr \<in># sx_flights s \<and> tk_account c = ua_id a \<and> tk_epoch c = ua_credential_epoch a
         \<and> tk_sid c \<notin> sids s \<and> sx_sessions s' = (tk_sid c, t, at, amr) # sx_sessions s)
    \<or> (\<exists>b st. Rotated b st \<in># sx_flights s \<and> tk_account c = tk_account b \<and> tk_epoch c = as_epoch st
         \<and> tk_sid c = tk_sid b \<and> sx_sessions s' = sx_sessions s)"
  using assms(1)
proof cases
  case (signed_in t a amr fs flt now dw native d new answer)
  show ?thesis using signed_in(3)
  proof (cases rule: new_session_cases)
    case 1
    then show ?thesis using assms(2) signed_in(1) by simp
  next
    case (2 pend tp ca cr)
    have sid: "dw_sid dw = Some (tp_sid tp)" using generate_session_claims(1) [OF 2(1)] by (simp add: session_sid_def)
    have fl: "SigningIn t a amr \<in># sx_flights s" "tp_sid tp \<notin> sids s" using signed_in(2,4) sid by auto
    have ss: "sx_sessions s' = (tp_sid tp, t, now, amr) # sx_sessions s"
      using signed_in(1) 2(2) generated_fields(4) [OF 2(1), of ca] by simp
    have "c \<in> {ca, cr} \<or> c \<in> set (sx_issued s)" using assms(2) signed_in(1) 2(2) by auto
    then show ?thesis
    proof
      assume "c \<in> {ca, cr}"
      note c = generated_fields [OF 2(1) this]
      show ?thesis using fl ss unfolding c(1,2,4) by blast
    qed simp
  qed
next
  case (refreshed b st fs flt now dw native d new answer)
  show ?thesis using refreshed(3)
  proof (cases rule: refresh_issue_cases)
    case 1
    then show ?thesis using assms(2) refreshed(1) by simp
  next
    case (2 pend tp ca cr)
    have sid: "tp_sid tp = tk_sid b" using generate_session_claims(1) [OF 2(1)] by (simp add: session_sid_def split: if_splits)
    have fl: "Rotated b st \<in># sx_flights s" "sx_sessions s' = sx_sessions s" using refreshed(1,2) by auto
    have "c \<in> {ca, cr} \<or> c \<in> set (sx_issued s)" using assms(2) refreshed(1) 2(2) by auto
    then show ?thesis
    proof
      assume "c \<in> {ca, cr}"
      note c = generated_fields [OF 2(1) this]
      show ?thesis using fl unfolding c(1,2,4) sid by blast
    qed simp
  qed
qed (use assms(2) in auto)

lemma step_sign_in:
  assumes "session_step env s s'" "SigningIn t a amr \<in># sx_flights s'"
  shows "SigningIn t a amr \<in># sx_flights s \<or> t = sx_next s"
  using assms by cases (auto dest: begin_sign_in_flight begin_refresh_flight)

lemma step_next: "session_step env s s' \<Longrightarrow> sx_next s \<le> sx_next s'"
  by (cases rule: session_step.cases) (auto simp: begin_sign_in_def split: sum.splits)

section \<open>Properties\<close>

text \<open>What an end of account \<open>i\<close>'s sessions leaves, of the sign-ins that came before ticket \<open>k\<close>: tokens of a past epoch only.\<close>

definition outdated :: "nat \<Rightarrow> nat \<Rightarrow> session_system \<Rightarrow> bool" where
  "outdated k i s \<longleftrightarrow>
     k \<le> sx_next s
     \<and> (\<forall>c\<in>set (sx_issued s). \<forall>t at amr. tk_account c = i \<longrightarrow> (tk_sid c, t, at, amr) \<in> set (sx_sessions s) \<longrightarrow> t < k \<longrightarrow>
          at_least (sx_db s) i (tk_epoch c + 1))
     \<and> (\<forall>t a amr. SigningIn t a amr \<in># sx_flights s \<longrightarrow> ua_id a = i \<longrightarrow> t < k \<longrightarrow> at_least (sx_db s) i (ua_credential_epoch a + 1))"

lemma accounts_end_sessions:
  "ab_accounts (end_sessions i now d) = update_where (\<lambda>a. ua_id a = i) (ua_credential_epoch_update (\<lambda>e. e + 1)) (ab_accounts d)"
  by (simp add: end_sessions_def revoke_all_for_account_def update_account_def)

lemma end_sessions_above:
  assumes "at_least d i e" shows "at_least (end_sessions i now d) i (e + 1)"
  unfolding at_least_def
proof (intro ballI impI)
  fix b assume "b \<in> set (ab_accounts (end_sessions i now d))" and i: "ua_id b = i"
  then have "b \<in> (\<lambda>a. if ua_id a = i then ua_credential_epoch_update (\<lambda>e. e + 1) a else a) ` set (ab_accounts d)"
    by (simp only: accounts_end_sessions update_where_def set_map)
  then obtain a where a: "a \<in> set (ab_accounts d)" and b: "b = (if ua_id a = i then ua_credential_epoch_update (\<lambda>e. e + 1) a else a)"
    by (rule imageE)
  then have "ua_id a = i" using i by (cases "ua_id a = i") simp_all
  then show "e + 1 \<le> ua_credential_epoch b" using assms a b by (simp add: at_least_def)
qed

lemma ended_outdated:
  assumes "sessions_ok s" shows "outdated (sx_next s) i (s\<lparr>sx_db := end_sessions i now (sx_db s)\<rparr>)"
proof -
  have "at_least (sx_db s) i (tk_epoch c)" if "c \<in> set (sx_issued s)" "tk_account c = i" for c
    using sessions_okD(5) [OF assms that(1)] that(2) by (simp add: claim_ok_def)
  moreover have "at_least (sx_db s) i (ua_credential_epoch a)" if "SigningIn t a amr \<in># sx_flights s" "ua_id a = i" for t a amr
    using sessions_okD(6) [OF assms that(1)] that(2) by simp
  ultimately show ?thesis unfolding outdated_def by (simp add: end_sessions_above)
qed

lemma step_outdated:
  assumes step: "session_step env s s'" and ok: "sessions_ok s" and out: "outdated k i s"
  shows "outdated k i s'"
proof -
  have up: "at_least (sx_db s) i e \<Longrightarrow> i \<in> accounts_used s \<Longrightarrow> at_least (sx_db s') i e" for e
    by (rule step_at_least [OF step])
  have signing: "at_least (sx_db s') i (ua_credential_epoch a + 1)" if "SigningIn t a amr \<in># sx_flights s" "ua_id a = i" "t < k" for t a amr
    using out that by (intro up) (force simp: outdated_def accounts_used_def)+
  have old: "at_least (sx_db s') i (tk_epoch c + 1)"
    if "c \<in> set (sx_issued s)" "tk_account c = i" "(tk_sid c, t, at, amr) \<in> set (sx_sessions s)" "t < k" for c t at amr
    using out that by (intro up) (force simp: outdated_def accounts_used_def)+
  have "at_least (sx_db s') i (tk_epoch c + 1)"
    if c: "c \<in> set (sx_issued s')" "tk_account c = i" "(tk_sid c, t, at, amr) \<in> set (sx_sessions s')" "t < k" for c t at amr
    using step_issued [OF step c(1)]
  proof (elim disjE exE conjE)
    assume i: "c \<in> set (sx_issued s)"
    have "recorded s c" using sessions_okD(5) [OF ok i] by (simp add: claim_ok_def)
    then obtain u at' amr' where r: "(tk_sid c, u, at', amr') \<in> set (sx_sessions s)" by (auto simp: recorded_def)
    have "distinct (map fst (sx_sessions s'))" by (rule sessions_okD(3) [OF session_step_ok [OF step ok]])
    moreover have "set (sx_sessions s) \<subseteq> set (sx_sessions s')" using step by cases auto
    ultimately have "(u, at', amr') = (t, at, amr)" using r c(3) by (meson eq_key_imp_eq_value subsetD)
    then show ?thesis using old [OF i c(2) r] c(4) by simp
  next
    fix t' a amr' at'
    assume "SigningIn t' a amr' \<in># sx_flights s" "tk_account c = ua_id a" "tk_epoch c = ua_credential_epoch a" "tk_sid c \<notin> sids s"
      "sx_sessions s' = (tk_sid c, t', at', amr') # sx_sessions s"
    moreover from this have "t = t'" using c(3) by (force simp: sids_def)
    ultimately show ?thesis using signing c(2,4) by auto
  next
    fix b st
    assume r: "Rotated b st \<in># sx_flights s" "tk_account c = tk_account b" "tk_epoch c = as_epoch st" "tk_sid c = tk_sid b"
      "sx_sessions s' = sx_sessions s"
    have "flight_ok s (Rotated b st)" by (rule sessions_okD(6) [OF ok r(1)])
    then show ?thesis using old [of b t at amr] r c by simp
  qed
  moreover have "at_least (sx_db s') i (ua_credential_epoch a + 1)"
    if "SigningIn t a amr \<in># sx_flights s'" "ua_id a = i" "t < k" for t a amr
    using step_sign_in [OF step that(1)] that out signing by (auto simp: outdated_def)
  ultimately show ?thesis using out step_next [OF step] by (auto simp: outdated_def)
qed

lemma outdated_runs:
  "(session_step env)\<^sup>*\<^sup>* s s' \<Longrightarrow> sessions_ok s \<Longrightarrow> outdated k i s \<Longrightarrow> sessions_ok s' \<and> outdated k i s'"
  by (induction rule: rtranclp_induct) (auto intro: session_step_ok step_outdated)

lemma at_least_not_current: "at_least d i (e + 1) \<Longrightarrow> \<not> session_current (account_by_id d i) e now"
  by (auto simp: session_current_def at_least_def split: option.splits dest: account_by_id_in)

lemma read_account_state_epoch:
  "read_account_state env flt now i d = Inr st \<Longrightarrow> as_active st \<Longrightarrow>
     \<exists>a. account_by_id d i = Some a \<and> ua_active a \<and> \<not> bootstrap_expired now a \<and> as_epoch st = ua_credential_epoch a"
  by (auto simp: read_account_state_def no_account_state_def split: if_splits option.splits sum.splits)

lemma refresh_needs_current:
  assumes "refresh_checks env flt now req d = (d', Inr (c, st, native))"
  shows "session_current (account_by_id d (tk_account c)) (tk_epoch c) now"
    "je_parse (ve_jwt env) now (fst (presented_refresh_token req)) = Inr c"
  using assms read_account_state_epoch [of env flt now "tk_account c" d st]
  by (auto simp: refresh_checks_def validate_refresh_token_def validate_type_def validate_token_def session_current_def
      split: if_splits sum.splits prod.splits jwt_err.splits)

text \<open>A token that is not active never becomes active again.\<close>

definition spent :: "string \<Rightarrow> auth_db \<Rightarrow> bool" where
  "spent jti d \<longleftrightarrow> jti \<in> rt_jti ` set (ab_tokens d) \<and> (\<forall>r\<in>set (ab_tokens d). rt_jti r = jti \<longrightarrow> rt_status r \<noteq> TokenActive)"

lemma quiet_spent:
  assumes q: "quiet d d'" and s: "spent jti d" shows "spent jti d'"
proof -
  have "rt_jti ` set (ab_tokens d') = rt_jti ` set (ab_tokens d)" using quiet_jtis [OF q] by (metis set_map)
  moreover have "rt_status r \<noteq> TokenActive" if r: "r \<in> set (ab_tokens d')" "rt_jti r = jti" for r
  proof -
    obtain x where "x \<in> set (ab_tokens d)" "token_falls x r" using q r(1) all2_member [of token_falls] unfolding quiet_def by blast
    then show ?thesis using s r(2) by (auto simp: spent_def token_falls_def)
  qed
  ultimately show ?thesis using s by (simp add: spent_def)
qed

lemma step_spent:
  assumes "session_step env s s'" "spent jti (sx_db s)" shows "spent jti (sx_db s')"
  using step_db [OF assms(1)]
proof (elim disjE exE conjE)
  fix row assume "rt_jti row \<notin> rt_jti ` set (ab_tokens (sx_db s))"
    and q: "quiet ((sx_db s)\<lparr>ab_tokens := ab_tokens (sx_db s) @ [row]\<rparr>) (sx_db s')"
  then have "spent jti ((sx_db s)\<lparr>ab_tokens := ab_tokens (sx_db s) @ [row]\<rparr>)" using assms(2) by (auto simp: spent_def)
  then show ?thesis by (rule quiet_spent [OF q])
qed (use assms(2) quiet_spent in \<open>auto simp: spent_def\<close>)

lemma runs_spent: "(session_step env)\<^sup>*\<^sup>* s s' \<Longrightarrow> spent jti (sx_db s) \<Longrightarrow> spent jti (sx_db s')"
  by (induction rule: rtranclp_induct) (auto intro: step_spent)

lemma spent_refused: "spent (tk_jti c) d \<Longrightarrow> \<exists>e. refresh_rotate flt c d = Inl e"
  by (auto simp: spent_def refresh_rotate_def rotate_token_def rotatable_def list_ex_iff)

subsection \<open>A run: the administrator signs in and refreshes\<close>

definition sample_token :: claims where
  "sample_token = session_claims (ve_jwt (auth_sample_env (\<lambda>_. None))) second 1 ''root@a.example'' 0 [amr_password, amr_otp] False None
     ''s1'' ''r1'' token_refresh (second + 7 * 24 * hour)"

definition system_env :: auth_env where
  "system_env = auth_sample_env (\<lambda>t. if t = ''refresh.r1'' then Some sample_token else None)"

definition sample_answer :: session_answer where
  "sample_answer = start_session system_env no_faults second (sample_draws ''1'') sample_account True [amr_password, amr_otp] sample_auth_db"

definition sample_request :: token_request where
  "sample_request = \<lparr>tq_cookie = Some ''refresh.r1'', tq_body = None\<rparr>"

definition signed_in_system :: session_system where
  "signed_in_system = \<lparr>sx_db = fst sample_answer, sx_issued = fst (snd sample_answer), sx_flights = {#}, sx_next = 1,
     sx_sessions = [(''s1'', 0, second, [amr_password, amr_otp])]\<rparr>"

definition sample_state :: account_state where
  "sample_state = projr (read_account_state system_env no_faults (2 * second) 1 (fst sample_answer))"

definition rotated_db :: auth_db where
  "rotated_db = projr (refresh_rotate no_faults sample_token (fst sample_answer))"

lemma sample_issued: "sample_token \<in> set (fst (snd sample_answer))"
  by code_simp

lemma signed_in_reached: "reach session_start (session_step system_env) signed_in_system"
proof -
  let ?s0 = "\<lparr>sx_db = sample_auth_db, sx_issued = [], sx_flights = {#}, sx_next = 0, sx_sessions = []\<rparr>"
  let ?s1 = "?s0\<lparr>sx_flights := {#SigningIn 0 sample_account [amr_password, amr_otp]#}, sx_next := 1\<rparr>"
  have "session_start ?s0" by (simp add: session_start_def sample_auth_db_def)
  then have "reach session_start (session_step system_env) ?s0" by (rule reach_start)
  then have r: "reach session_start (session_step system_env) ?s1"
    by (rule reach_step)
      (use login [of system_env no_faults second auth_sample_login ?s0] sample_login_checks in \<open>simp add: system_env_def begin_sign_in_def\<close>)
  have "map (\<lambda>c. (tk_sid c, 0::nat, second, [amr_password, amr_otp])) (take 1 (fst (snd sample_answer))) = [(''s1'', 0, second, [amr_password, amr_otp])]"
    by code_simp
  then have "session_step system_env ?s1 signed_in_system"
    using signed_in [of ?s1 0 sample_account "[amr_password, amr_otp]" "{#}" system_env no_faults second "sample_draws ''1''" True
        "fst sample_answer" "fst (snd sample_answer)" "snd (snd sample_answer)"]
    by (simp add: sample_answer_def signed_in_system_def sids_def)
  with r show ?thesis by (rule reach_step)
qed

lemma rotated_reached:
  "reach session_start (session_step system_env) (signed_in_system\<lparr>sx_db := rotated_db, sx_flights := {#Rotated sample_token sample_state#}\<rparr>)"
proof -
  have g: "genuine system_env (2 * second) sample_request (sx_issued signed_in_system)"
    using sample_issued by (auto simp: genuine_def system_env_def auth_sample_env_def signed_in_system_def split: option.splits if_splits)
  have "refresh_checks system_env no_faults (2 * second) sample_request (fst sample_answer) = (fst sample_answer, Inr (sample_token, sample_state, False))"
    by code_simp
  then have "session_step system_env signed_in_system (signed_in_system\<lparr>sx_flights := {#Refreshing sample_token sample_state#}\<rparr>)"
    using refresh_read [OF g, of no_faults] by (simp add: signed_in_system_def begin_refresh_def)
  with signed_in_reached have r: "reach session_start (session_step system_env) (signed_in_system\<lparr>sx_flights := {#Refreshing sample_token sample_state#}\<rparr>)"
    by (rule reach_step)
  have "refresh_rotate no_faults sample_token (fst sample_answer) = Inr rotated_db" by code_simp
  then have "session_step system_env (signed_in_system\<lparr>sx_flights := {#Refreshing sample_token sample_state#}\<rparr>)
      (signed_in_system\<lparr>sx_db := rotated_db, sx_flights := {#Rotated sample_token sample_state#}\<rparr>)"
    using refresh_rotated [of "signed_in_system\<lparr>sx_flights := {#Refreshing sample_token sample_state#}\<rparr>" sample_token sample_state "{#}" no_faults rotated_db]
    by (simp add: signed_in_system_def)
  with r show ?thesis by (rule reach_step)
qed

text \<open>
  C6: Ending an account's sessions ends them for good. Whatever sign-ins and refreshes were under way, and whatever runs
  afterwards, once \<^verbatim>\<open>endSessions\<close> has committed no token of a session whose sign-in read the account before is ever
  current again: every request with its access token is refused, and so is a refresh with its refresh token, those
  issued by refreshes that were in flight included.\<close>

theorem ended_sessions_stay_ended:
  assumes "reach session_start (session_step env) s"
    "(session_step env)\<^sup>*\<^sup>* (s\<lparr>sx_db := end_sessions i ended (sx_db s)\<rparr>) s'"
    "c \<in> set (sx_issued s')" "tk_account c = i" "(tk_sid c, t, at, amr) \<in> set (sx_sessions s')" "t < sx_next s"
  shows "\<not> session_current (account_by_id (sx_db s') i) (tk_epoch c) now
    \<and> (je_parse (ve_jwt env) now (fst (presented_refresh_token req)) = Inr c \<longrightarrow>
         (\<exists>d e. refresh_checks env flt now req (sx_db s') = (d, Inl e)))"
proof -
  have ok: "sessions_ok s" by (rule auth_runs.reach_inv [OF assms(1)])
  have "outdated (sx_next s) i s'"
    using outdated_runs [OF assms(2) quiet_sessions_ok [OF ok quiet_end_sessions] ended_outdated [OF ok]] by blast
  then have "\<not> session_current (account_by_id (sx_db s') i) (tk_epoch c) u" for u
    using assms(3-6) by (intro at_least_not_current) (auto simp: outdated_def)
  then show ?thesis
    using assms(4) refresh_needs_current [of env flt now req "sx_db s'"] by (cases "refresh_checks env flt now req (sx_db s')") (metis Inr_inject sum.exhaust surj_pair)
qed

theorem ended_sessions_stay_ended_witness:
  "sample_token \<in> set (sx_issued signed_in_system)
   \<and> session_current (account_by_id (sx_db signed_in_system) 1) (tk_epoch sample_token) second
   \<and> \<not> session_current (account_by_id (end_sessions 1 second (sx_db signed_in_system)) 1) (tk_epoch sample_token) second"
proof -
  let ?s = "signed_in_system\<lparr>sx_db := end_sessions 1 second (sx_db signed_in_system)\<rparr>"
  have c: "sample_token \<in> set (sx_issued signed_in_system)" using sample_issued by (simp add: signed_in_system_def)
  have "tk_account sample_token = 1" "(tk_sid sample_token, 0, second, [amr_password, amr_otp]) \<in> set (sx_sessions signed_in_system)"
    by (simp_all add: sample_token_def session_claims_def signed_in_system_def)
  then have "\<not> session_current (account_by_id (sx_db ?s) 1) (tk_epoch sample_token) second"
    using ended_sessions_stay_ended [OF signed_in_reached, of 1 second ?s sample_token 0 second "[amr_password, amr_otp]" second] c
    by (simp add: signed_in_system_def)
  moreover have "session_current (account_by_id (fst sample_answer) 1) (tk_epoch sample_token) second" by code_simp
  ultimately show ?thesis using c by (simp add: signed_in_system_def)
qed

text \<open>
  C7: A refresh token works once, and a session has one. In every state that requests, interleaved in any way, can
  reach, at most one refresh token of a session is active; and one that was rotated or revoked is refused by every
  later refresh, however they race.\<close>

theorem refresh_tokens_work_once:
  assumes "reach session_start (session_step env) s"
  shows "length (filter (\<lambda>r. rt_sid r = sid \<and> rt_status r = TokenActive) (ab_tokens (sx_db s))) \<le> 1
    \<and> (\<forall>s' r c flt. (session_step env)\<^sup>*\<^sup>* s s' \<longrightarrow> r \<in> set (ab_tokens (sx_db s)) \<longrightarrow> rt_status r \<noteq> TokenActive \<longrightarrow> tk_jti c = rt_jti r \<longrightarrow>
         (\<exists>e. refresh_rotate flt c (sx_db s') = Inl e))"
proof -
  have ok: "sessions_ok s" by (rule auth_runs.reach_inv [OF assms])
  have "spent (rt_jti r) (sx_db s)" if "r \<in> set (ab_tokens (sx_db s))" "rt_status r \<noteq> TokenActive" for r
    using that sessions_okD(2) [OF ok] by (auto simp: spent_def distinct_map inj_on_def)
  then have "\<exists>e. refresh_rotate flt c (sx_db s') = Inl e"
    if "(session_step env)\<^sup>*\<^sup>* s s'" "r \<in> set (ab_tokens (sx_db s))" "rt_status r \<noteq> TokenActive" "tk_jti c = rt_jti r" for s' r c flt
    using that runs_spent spent_refused by metis
  then show ?thesis using sessions_okD(7) [OF ok, of sid] by (auto simp: active_tokens_def)
qed

theorem refresh_tokens_work_once_witness:
  "list_ex (\<lambda>r. rt_jti r = ''r1'' \<and> rt_status r = TokenRotated) (ab_tokens rotated_db)
   \<and> length (filter (\<lambda>r. rt_sid r = ''s1'' \<and> rt_status r = TokenActive) (ab_tokens rotated_db)) \<le> 1
   \<and> (\<exists>e. refresh_rotate no_faults sample_token rotated_db = Inl e)"
proof -
  have r: "list_ex (\<lambda>r. rt_jti r = ''r1'' \<and> rt_status r = TokenRotated) (ab_tokens rotated_db)" by code_simp
  then obtain x where "x \<in> set (ab_tokens rotated_db)" "rt_status x \<noteq> TokenActive" "tk_jti sample_token = rt_jti x"
    by (auto simp: list_ex_iff sample_token_def session_claims_def)
  then show ?thesis
    using refresh_tokens_work_once [OF rotated_reached, of "''s1''"] r by (auto simp: signed_in_system_def)
qed

text \<open>
  C11: A refresh never makes the second factor fresh again. A token that passes the check for a recent second factor
  belongs to a session that signed in with one, and no longer ago than the window, however often it was refreshed.\<close>

theorem second_factor_stays_dated:
  assumes "reach session_start (session_step env) s" "c \<in> set (sx_issued s)" "require_fresh env now c = None"
  shows "\<exists>t at amr. (tk_sid c, t, at, amr) \<in> set (sx_sessions s) \<and> amr_otp \<in> set amr
    \<and> now - at \<le> (case ve_window env of None \<Rightarrow> max_fresh_two_factor_window | Some w \<Rightarrow> w)"
proof -
  obtain t at where r: "(tk_sid c, t, at, tk_amr c) \<in> set (sx_sessions s)" "tk_auth_time c = proof_at (tk_amr c) at"
    using sessions_okD(5) [OF auth_runs.reach_inv [OF assms(1)] assms(2)] by (auto simp: claim_ok_def recorded_def)
  obtain p where p: "tk_auth_time c = Some p" "now - p \<le> (case ve_window env of None \<Rightarrow> max_fresh_two_factor_window | Some w \<Rightarrow> w)"
    using assms(3) by (auto simp: require_fresh_def require_fresh_two_factor_def require_two_factor_def grants_claims_of_def Let_def
        split: option.splits if_splits grants_err.splits)
  have "p \<le> at" "amr_otp \<in> set (tk_amr c)" using r(2) p(1) by (auto simp: proof_at_def numeric_date_def second_def split: if_splits)
  then show ?thesis using r(1) p(2) by fastforce
qed

theorem second_factor_stays_dated_witness:
  "require_fresh system_env minute sample_token = None
   \<and> (\<exists>t at amr. (''s1'', t, at, amr) \<in> set (sx_sessions signed_in_system) \<and> amr_otp \<in> set amr \<and> minute - at \<le> max_fresh_two_factor_window)"
proof -
  have f: "require_fresh system_env minute sample_token = None" by code_simp
  have c: "sample_token \<in> set (sx_issued signed_in_system)" using sample_issued by (simp add: signed_in_system_def)
  show ?thesis
    using second_factor_stays_dated [OF signed_in_reached c f] f by (simp add: system_env_def auth_sample_env_def sample_token_def session_claims_def)
qed

text \<open>
  A token that is presented again is refused, and no more: the database stays as it is, the session's active token with it.
  A sign-out with such a token leaves every other token as it is too.\<close>

theorem reused_token_leaves_session:
  assumes "refresh_checks env flt now req d = (d1, Inr (c, st, native))" "spent (tk_jti c) d"
  shows "\<exists>e. refresh env flt now dw req d = (d, [], Inl e)"
    "t \<in> set (ab_tokens d) \<Longrightarrow> rt_jti t \<noteq> tk_jti c \<Longrightarrow> t \<in> set (ab_tokens (fst (logout env flt now req d)))"
proof -
  have d1: "d1 = d" and v: "validate_refresh_token (ve_jwt env) now (fst (presented_refresh_token req)) = Inr c"
    using assms(1) by (auto simp: refresh_checks_def split: if_splits sum.splits prod.splits)
  show "\<exists>e. refresh env flt now dw req d = (d, [], Inl e)"
    using spent_refused [OF assms(2), of flt] assms(1) d1 by (auto simp: refresh_def)
  show "t \<in> set (ab_tokens (fst (logout env flt now req d)))" if "t \<in> set (ab_tokens d)" "rt_jti t \<noteq> tk_jti c"
    using that v by (force simp: logout_def Let_def revoke_token_def set_update_where split: if_splits prod.splits)
qed

end
