(* ===== verification/Spec2Isabelle.thy ===== *)
theory Spec2Isabelle
  imports Mail_Address Queue_Worker Pipeline_Templates Pipeline_Dmarc Pipeline_Greylist Rate_Limits Conn_Limiter Send_Limits
    Grants_Cache Grants_Change Smtp_Session Pipeline_Vacation Auth_System
begin

text \<open>
  REST Mail server: a verification library for the Go sources under \<^verbatim>\<open>src/internal\<close>.

  \<^bold>\<open>The program.\<close> A mail server whose HTTP API owns the database; the SMTP, IMAP and POP3 gateways are clients of the API. Mail
  comes in through the SMTP gateway (\<^verbatim>\<open>gateway/smtp\<close>), which admits connections and counts failed sign-ins
  (\<^verbatim>\<open>gateway/connlimiter\<close>, \<^verbatim>\<open>gateway/bancheck\<close>), asks the API for each recipient, and hands a message on to a local mailbox, to the
  outbound queue or, for a bounce to a rewritten sender (\<^verbatim>\<open>srs\<close>), back to the original one. A local delivery runs the domain's
  pipeline of filters (\<^verbatim>\<open>pipeline\<close>, \<^verbatim>\<open>pipeline/filters\<close>), a Sieve script and a vacation responder among them. A worker
  (\<^verbatim>\<open>gateway/queue\<close>) claims rows of the outbound queue and delivers them by relay, RESTMAIL or SMTP, retries and
  bounces. People sign in to the API with a password and a second factor and get a session of tokens, mail clients with an app
  password (\<^verbatim>\<open>auth\<close>, \<^verbatim>\<open>bootstrap\<close>, \<^verbatim>\<open>api/handlers\<close>). What an account may do is a set of grants (\<^verbatim>\<open>grants\<close>); what it may send is limited per account and per budget
  (\<^verbatim>\<open>ratelimit\<close>, \<^verbatim>\<open>sendlimits\<close>); every change an administrator makes is an entry of a hash chain (\<^verbatim>\<open>audit\<close>).

  \<^bold>\<open>Conventions.\<close> A Go struct is a record, a table a list of records or a map where a unique index makes it one, a query that can
  fail an argument. Errors are values of a sum or an option type. A string is a list of bytes (\<open>char\<close>); \<open>int\<close> and
  durations are integers with \<open>int64\<close> written out where an operation can leave the range; times are nanoseconds.
  Log lines and metrics are left out. Libraries (go-smtp, go-sieve, DKIM, SPF, HMAC, SHA-256, bcrypt, Argon2, JWT, DNS, gorm) are arguments;
  what a theorem needs of one is a hypothesis with a witness. Recursion is structural or has a measure. The fuel used is that of
  \<open>unmarshal_elements\<close>, the length of the text, which bounds the elements that can follow; \<open>Go_Unmarshal\<close> shows that it is enough
  for whatever was marshalled.

  \<^bold>\<open>Shared theories.\<close>
  \<^item> \<open>Go_Prelude\<close>: \<open>int64\<close>, packages strings and strconv, reachability and the locale \<open>invariant_system\<close>, which every step
    relation below interprets. \<open>Go_Utf8\<close>, \<open>Go_Json\<close>, \<open>Go_Unmarshal\<close>, \<open>Go_Net\<close>: runes, JSON written and read, IP addresses.

  \<^bold>\<open>Mail and the outbound queue.\<close>
  \<^item> \<open>Mail_Address\<close> (\<^verbatim>\<open>mail/\<close>): addresses, Message-IDs, threads, folders, the Received field; what is written into a header stays
    one header field.
  \<^item> \<open>Delivery_Errors\<close> (\<^verbatim>\<open>classify.go\<close> and the errors of \<^verbatim>\<open>worker.go\<close>), \<open>Queue_Retry\<close> (\<^verbatim>\<open>retry.go\<close>): what a failure means and when to
    try again; the back-off does not overflow and ends at the deadline.
  \<^item> \<open>Queue_Smtp\<close>, \<open>Queue_Relay\<close>, \<open>Queue_Route\<close> (\<^verbatim>\<open>openSMTP\<close>, \<^verbatim>\<open>deliverSMTPWith\<close>, \<^verbatim>\<open>relay.go\<close>, \<^verbatim>\<open>deliver\<close>): one conversation, a
    smart host, the choice of the way; required or enforced TLS is never given up and RESTMAIL is never downgraded.
  \<^item> \<open>Queue_Dsn\<close> (\<^verbatim>\<open>buildDSNMessage\<close>), \<open>Srs\<close> (\<^verbatim>\<open>srs/\<close>): bounces carry no injected header, rewritten senders read back.
  \<^item> \<open>Queue_Worker\<close> (\<^verbatim>\<open>claim\<close>, \<^verbatim>\<open>process\<close>, \<^verbatim>\<open>recordFailure\<close>, \<^verbatim>\<open>generateBounce\<close>): any number of workers over one table; no row is
    claimed twice or stranded, and bounces are rate limited.

  \<^bold>\<open>The pipeline.\<close>
  \<^item> \<open>Pipeline_Types\<close>, \<open>Pipeline_Engine\<close>, \<open>Pipeline_Templates\<close> (\<^verbatim>\<open>pipeline/\<close>): every run ends, accounts for each filter, and running in two
    stages equals running once.
  \<^item> \<open>Pipeline_Auth\<close>, \<open>Pipeline_Filters\<close>, \<open>Pipeline_Dmarc\<close>, \<open>Pipeline_Greylist\<close>: verdicts and the filters that decide on sender and
    message; the From domain's policy is enforced, a block beats an allow, greylisting lets on what is retried.
  \<^item> \<open>Pipeline_Sieve\<close> (\<^verbatim>\<open>filters/sieve.go\<close>, \<^verbatim>\<open>account_sieve.go\<close>, \<^verbatim>\<open>redirect_forward.go\<close>): the executor that turns a script's actions into
    metadata, and the delivery that reads it; redirects stay within the policy and no message is lost.
  \<^item> \<open>Pipeline_Vacation\<close> (\<^verbatim>\<open>filters/vacation.go\<close>, \<^verbatim>\<open>vacation/purger.go\<close>): replies are spaced and never answer each other.

  \<^bold>\<open>Access.\<close>
  \<^item> \<open>Grants_Scopes\<close>, \<open>Grants_Load\<close> (\<^verbatim>\<open>scope.go\<close>, \<^verbatim>\<open>held.go\<close>, \<^verbatim>\<open>server.go\<close>): what an account holds, bounded by its owners, the server's
    ceiling and its sessions; the locale \<open>nested_scopes\<close> states what scopes promise.
  \<^item> \<open>Grants_Cache\<close> (\<open>Cache\<close> of \<^verbatim>\<open>held.go\<close>): readers and changes interleaved; the cache answers as the database does.
  \<^item> \<open>Grants_Change\<close> (\<^verbatim>\<open>change.go\<close>, \<^verbatim>\<open>activation.go\<close>, \<^verbatim>\<open>server_ceiling.go\<close> and the handlers): no grant gives more than its granter holds,
    the last superadmin stays, activations end.
  \<^item> \<open>Audit_Log\<close> (\<^verbatim>\<open>audit/\<close>): an appended log verifies, and a rewritten one does not match its anchor.

  \<^bold>\<open>Signing in.\<close>
  \<^item> \<open>Auth_Hashes\<close> (\<^verbatim>\<open>auth/\<close>): password hashes, recovery codes, app passwords, API keys and client secrets. An imported hash takes
    the passwords it took before; the locale \<open>credential_format\<close>, interpreted for app passwords and API keys, says what it takes
    for a credential to be opened by one string only.
  \<^item> \<open>Auth_Credentials\<close> (\<^verbatim>\<open>repositories/credential.go\<close>, \<^verbatim>\<open>two_factor.go\<close>, \<^verbatim>\<open>refresh_token.go\<close>, \<^verbatim>\<open>mailbox.go\<close>, \<^verbatim>\<open>sessions.go\<close>,
    \<^verbatim>\<open>bootstrap/\<close>): the tables as the record \<open>auth_db\<close> and every statement on them. A mail client gets in only with a credential
    that is good now, a new password locks everyone else out, a recovery code works once.
  \<^item> \<open>Auth_Sessions\<close> (the handlers \<^verbatim>\<open>auth.go\<close>, \<^verbatim>\<open>two_factor.go\<close>, \<^verbatim>\<open>credentials.go\<close>, \<^verbatim>\<open>account_access.go\<close>): tokens, sign-in, refresh,
    sign-out, change and recovery of a password, the second factor, app passwords. A sign-in takes every factor the account has,
    and an app password is made only by a person who may manage the mailbox.
  \<^item> \<open>Auth_System\<close>: these requests interleaved over one database, each split where its statements let others come between.
    Ended sessions stay ended, a refresh token works once, a refresh does not renew the second factor. What else the API does
    to accounts, enrolling a second factor included, is the step \<open>other\<close>, which never lowers an epoch.

  \<^bold>\<open>Gateways and limits.\<close>
  \<^item> \<open>Conn_Limiter\<close>, \<open>Rate_Limits\<close>, \<open>Send_Limits\<close>: open connections, password guesses, submissions and budgets are bounded.
  \<^item> \<open>Smtp_Session\<close> (\<^verbatim>\<open>session.go\<close>, \<^verbatim>\<open>smtputf8.go\<close>, \<^verbatim>\<open>tarpit.go\<close>, \<^verbatim>\<open>dbstore.go\<close>): the session as go-smtp drives it, a step relation
    over AUTH, MAIL, RCPT, DATA and RSET. It is where the components meet: it uses the limiter for sign-ins, the grants for who
    may send as whom, SRS for bounces coming back and the submission limiter; it queues only for an authorised sender.

  \<^bold>\<open>Not modelled.\<close> The MIME parser, the outbound transforms (DKIM, ARC), TLS certificates, DNS, storage of attachments and what a store
  inserts: they are arguments where a modelled component calls them. Of the API the handlers of grants, escalation, sign-in, the
  second factor and app passwords and the Sieve helpers are modelled; the other handlers, those of API keys and client secrets
  among them, the cache of current sessions, push devices, the IMAP and POP3 gateways and the remaining filters are not. Metrics, the
  console, configuration and the commands carry no logic of delivery or access. Executions of the vacation filter and of
  DATA are atomic steps; concurrency is modelled for the queue workers, the connection limiter, the grants cache and the sessions.

  \<^bold>\<open>Plan.\<close> In this order: recipient resolution and aliases (\<^verbatim>\<open>repositories/recipient.go\<close>, \<^verbatim>\<open>handlers/alias_delivery.go\<close>), the
  filters recipient_check, duplicate and extract_attachments, API keys and client secrets, the delivery of RESTMAIL
  (\<^verbatim>\<open>handlers/restmail.go\<close>), quotas and quiet hours.
\<close>

end
